(* ===== verification/Prelude.thy ===== *)
theory Prelude
  imports Main "HOL-Library.Word"
begin

text \<open>
  The vocabulary shared by every component of the development.

  C++ code of the repository either returns a value, throws, or runs into undefined
  behaviour (an out-of-range \<^verbatim>\<open>operator[]\<close>, for instance). All three are values here:
  \<^item> \<open>exn\<close> lists the exceptions the sources throw, plus one constructor for undefined
    behaviour and one for the end of the process, \<^verbatim>\<open>exit(-1)\<close> or \<^verbatim>\<open>abort()\<close>;
  \<^item> a function without side effects returns \<open>exn + 'a\<close>;
  \<^item> a member function that mutates its object is of type \<open>('s, 'a) cpp\<close>: it takes the object
    and returns the outcome together with the object as it is left behind. The object is
    returned after a throw as well, because the C++ object keeps the writes made before it.
  Named collections: \<open>cpp_simps\<close> evaluates the monad, \<open>keeps_intros\<close> are the rules that push
  an invariant through a program, \<open>frame_simps\<close> collects the frame facts of the components.
\<close>

named_theorems cpp_simps \<open>evaluation of the state-and-exception monad\<close>
named_theorems keeps_intros \<open>structural rules for preservation of an invariant\<close>
named_theorems frame_simps \<open>fields an operation does not touch\<close>

section \<open>Outcomes\<close>

datatype exn =
    Runtime_error string
  | Logic_error string
  | Invalid_argument string
  | Out_of_range string
  | Protocol_error string
  | Transport_error string
  | Application_error string
  | Undefined_behaviour string
  | Process_exit

type_synonym 'a outcome = "exn + 'a"
type_synonym ('s, 'a) cpp = "'s \<Rightarrow> 'a outcome \<times> 's"

definition bind_out :: "'a outcome \<Rightarrow> ('a \<Rightarrow> 'b outcome) \<Rightarrow> 'b outcome" where
  "bind_out r f = (case r of Inl e \<Rightarrow> Inl e | Inr x \<Rightarrow> f x)"

lemma bind_out_simps [simp]:
  "bind_out (Inl e) f = Inl e"
  "bind_out (Inr x) f = f x"
  by (simp_all add: bind_out_def)

lemma bind_out_eq_Inr:
  "bind_out r f = Inr y \<longleftrightarrow> (\<exists>x. r = Inr x \<and> f x = Inr y)"
  by (cases r) auto

lemma bind_out_assoc: "bind_out (bind_out r f) g = bind_out r (\<lambda>x. bind_out (f x) g)"
  by (cases r) auto

text \<open>Mapping a fallible function over a list stops at the first failure, left to right.\<close>

fun map_out :: "('a \<Rightarrow> 'b outcome) \<Rightarrow> 'a list \<Rightarrow> 'b list outcome" where
  "map_out f [] = Inr []"
| "map_out f (x # xs) = bind_out (f x) (\<lambda>y. bind_out (map_out f xs) (\<lambda>ys. Inr (y # ys)))"

lemma map_out_Inr_iff:
  "map_out f xs = Inr ys \<longleftrightarrow> list_all2 (\<lambda>x y. f x = Inr y) xs ys"
proof (induction xs arbitrary: ys)
  case Nil
  then show ?case by (auto simp: list_all2_Nil)
next
  case (Cons x xs)
  then show ?case by (cases ys) (auto simp: bind_out_eq_Inr)
qed

section \<open>Stateful code that can throw\<close>

definition ret :: "'a \<Rightarrow> ('s, 'a) cpp" where
  "ret x = (\<lambda>s. (Inr x, s))"

definition throw :: "exn \<Rightarrow> ('s, 'a) cpp" where
  "throw e = (\<lambda>s. (Inl e, s))"

definition bnd :: "('s, 'a) cpp \<Rightarrow> ('a \<Rightarrow> ('s, 'b) cpp) \<Rightarrow> ('s, 'b) cpp" where
  "bnd m f = (\<lambda>s. case m s of (Inl e, t) \<Rightarrow> (Inl e, t) | (Inr x, t) \<Rightarrow> f x t)"

definition seqM :: "('s, 'a) cpp \<Rightarrow> ('s, 'b) cpp \<Rightarrow> ('s, 'b) cpp" where
  "seqM m k = bnd m (\<lambda>_. k)"

definition gets :: "('s \<Rightarrow> 'a) \<Rightarrow> ('s, 'a) cpp" where
  "gets f = (\<lambda>s. (Inr (f s), s))"

definition modify :: "('s \<Rightarrow> 's) \<Rightarrow> ('s, unit) cpp" where
  "modify f = (\<lambda>s. (Inr (), f s))"

definition lift_out :: "'a outcome \<Rightarrow> ('s, 'a) cpp" where
  "lift_out r = (\<lambda>s. (r, s))"

lemma ret_apply [cpp_simps]: "ret x s = (Inr x, s)"
  by (simp add: ret_def)

lemma throw_apply [cpp_simps]: "throw e s = (Inl e, s)"
  by (simp add: throw_def)

lemma gets_apply [cpp_simps]: "gets f s = (Inr (f s), s)"
  by (simp add: gets_def)

lemma modify_apply [cpp_simps]: "modify f s = (Inr (), f s)"
  by (simp add: modify_def)

lemma lift_out_apply [cpp_simps]: "lift_out r s = (r, s)"
  by (simp add: lift_out_def)

lemma bnd_apply [cpp_simps]:
  "bnd m f s = (case m s of (Inl e, t) \<Rightarrow> (Inl e, t) | (Inr x, t) \<Rightarrow> f x t)"
  by (simp add: bnd_def)

lemma seqM_apply [cpp_simps]:
  "seqM m k s = (case m s of (Inl e, t) \<Rightarrow> (Inl e, t) | (Inr x, t) \<Rightarrow> k t)"
  by (simp add: seqM_def bnd_def)

text \<open>A \<^verbatim>\<open>for (auto &x : xs)\<close> loop; it is left as soon as the body throws.\<close>

fun for_each :: "'a list \<Rightarrow> ('a \<Rightarrow> ('s, unit) cpp) \<Rightarrow> ('s, unit) cpp" where
  "for_each [] body = ret ()"
| "for_each (x # xs) body = seqM (body x) (for_each xs body)"

lemma for_each_Nil [cpp_simps]: "for_each [] body s = (Inr (), s)"
  by (simp add: ret_def)

lemma for_each_Cons [cpp_simps]:
  "for_each (x # xs) body s =
     (case body x s of (Inl e, t) \<Rightarrow> (Inl e, t) | (Inr _, t) \<Rightarrow> for_each xs body t)"
  by (simp add: seqM_apply split: prod.splits sum.splits)

lemma for_each_append:
  "for_each (xs @ ys) body s =
     (case for_each xs body s of (Inl e, t) \<Rightarrow> (Inl e, t) | (Inr _, t) \<Rightarrow> for_each ys body t)"
proof (induction xs arbitrary: s)
  case Nil
  then show ?case by (simp add: ret_def)
next
  case (Cons x xs)
  then show ?case
    by (simp add: for_each_Cons del: for_each.simps split: prod.splits sum.splits)
qed

text \<open>A body that never throws makes the loop a fold.\<close>

lemma for_each_fold:
  assumes "\<And>x t. x \<in> set xs \<Longrightarrow> body x t = (Inr (), f x t)"
  shows "for_each xs body s = (Inr (), fold f xs s)"
  using assms by (induction xs arbitrary: s) (auto simp: for_each_Cons ret_def simp del: for_each.simps(2))

text \<open>A loop that appends one result per element to a local vector.\<close>

fun collect :: "('a \<Rightarrow> ('s, 'b) cpp) \<Rightarrow> 'a list \<Rightarrow> ('s, 'b list) cpp" where
  "collect body [] = ret []"
| "collect body (x # xs) = bnd (body x) (\<lambda>y. bnd (collect body xs) (\<lambda>ys. ret (y # ys)))"

lemma collect_Nil [cpp_simps]: "collect body [] s = (Inr [], s)"
  by (simp add: ret_def)

lemma collect_Cons [cpp_simps]:
  "collect body (x # xs) s =
     (case body x s of (Inl e, t) \<Rightarrow> (Inl e, t)
      | (Inr y, t) \<Rightarrow> (case collect body xs t of (Inl e, u) \<Rightarrow> (Inl e, u) | (Inr ys, u) \<Rightarrow> (Inr (y # ys), u)))"
  by (simp add: bnd_apply ret_apply split: prod.splits sum.splits)

section \<open>Invariants of programs\<close>

definition keeps :: "('s \<Rightarrow> bool) \<Rightarrow> ('s, 'a) cpp \<Rightarrow> bool" where
  "keeps P m \<longleftrightarrow> (\<forall>s. P s \<longrightarrow> P (snd (m s)))"

lemma keepsI: "(\<And>s. P s \<Longrightarrow> P (snd (m s))) \<Longrightarrow> keeps P m"
  by (simp add: keeps_def)

lemma keepsD: "keeps P m \<Longrightarrow> P s \<Longrightarrow> P (snd (m s))"
  by (simp add: keeps_def)

lemma keeps_ret [keeps_intros]: "keeps P (ret x)"
  by (simp add: keeps_def ret_def)

lemma keeps_throw [keeps_intros]: "keeps P (throw e)"
  by (simp add: keeps_def throw_def)

lemma keeps_gets [keeps_intros]: "keeps P (gets f)"
  by (simp add: keeps_def gets_def)

lemma keeps_lift_out [keeps_intros]: "keeps P (lift_out r)"
  by (simp add: keeps_def lift_out_def)

lemma keeps_modify: "(\<And>s. P s \<Longrightarrow> P (f s)) \<Longrightarrow> keeps P (modify f)"
  by (rule keepsI) (simp add: modify_apply)

lemma keeps_bnd [keeps_intros]:
  assumes "keeps P m" and "\<And>x. keeps P (f x)"
  shows "keeps P (bnd m f)"
proof (rule keepsI)
  fix s assume "P s"
  with assms(1) have "P (snd (m s))" by (rule keepsD)
  with assms(2) show "P (snd (bnd m f s))"
    by (auto simp: bnd_apply keeps_def split: prod.splits sum.splits)
qed

lemma keeps_seqM [keeps_intros]: "keeps P m \<Longrightarrow> keeps P k \<Longrightarrow> keeps P (seqM m k)"
  unfolding seqM_def by (rule keeps_bnd)

lemma keeps_if [keeps_intros]:
  "(b \<Longrightarrow> keeps P m) \<Longrightarrow> (\<not> b \<Longrightarrow> keeps P k) \<Longrightarrow> keeps P (if b then m else k)"
  by simp

lemma keeps_case_option [keeps_intros]:
  "keeps P m \<Longrightarrow> (\<And>x. keeps P (f x)) \<Longrightarrow> keeps P (case v of None \<Rightarrow> m | Some x \<Rightarrow> f x)"
  by (cases v) auto

lemma keeps_for_each [keeps_intros]:
  "(\<And>x. x \<in> set xs \<Longrightarrow> keeps P (body x)) \<Longrightarrow> keeps P (for_each xs body)"
  by (induction xs) (auto intro: keeps_intros)

lemma keeps_collect [keeps_intros]:
  "(\<And>x. x \<in> set xs \<Longrightarrow> keeps P (body x)) \<Longrightarrow> keeps P (collect body xs)"
  by (induction xs) (auto intro: keeps_intros)

section \<open>Vectors\<close>

text \<open>\<^verbatim>\<open>v[i]\<close> on a \<^verbatim>\<open>std::vector\<close>: reading past the end is undefined behaviour.\<close>

definition vec_at :: "'a list \<Rightarrow> int \<Rightarrow> 'a outcome" where
  "vec_at xs i =
     (if 0 \<le> i \<and> i < int (length xs) then Inr (xs ! nat i)
      else Inl (Undefined_behaviour ''vector index''))"

lemma vec_at_in [simp]: "0 \<le> i \<Longrightarrow> i < int (length xs) \<Longrightarrow> vec_at xs i = Inr (xs ! nat i)"
  by (simp add: vec_at_def)

lemma vec_at_nat [simp]: "k < length xs \<Longrightarrow> vec_at xs (int k) = Inr (xs ! k)"
  by (simp add: vec_at_def)

lemma vec_at_Inr_iff: "vec_at xs i = Inr x \<longleftrightarrow> 0 \<le> i \<and> i < int (length xs) \<and> xs ! nat i = x"
  by (auto simp: vec_at_def)

lemma vec_at_error: "\<not> (0 \<le> i \<and> i < int (length xs)) \<Longrightarrow>
    vec_at xs i = Inl (Undefined_behaviour ''vector index'')"
  by (auto simp: vec_at_def)

section \<open>Fixed-width integer ranges\<close>

abbreviation int32_min :: int where "int32_min \<equiv> - 2147483648"
abbreviation int32_max :: int where "int32_max \<equiv> 2147483647"
abbreviation int64_min :: int where "int64_min \<equiv> - 9223372036854775808"
abbreviation int64_max :: int where "int64_max \<equiv> 9223372036854775807"

definition int32_range :: "int \<Rightarrow> bool" where
  "int32_range i \<longleftrightarrow> int32_min \<le> i \<and> i \<le> int32_max"

definition int64_range :: "int \<Rightarrow> bool" where
  "int64_range i \<longleftrightarrow> int64_min \<le> i \<and> i \<le> int64_max"

type_synonym byte = "8 word"
type_synonym uint32 = "32 word"
type_synonym uint64 = "64 word"

section \<open>Lists\<close>

lemma sum_list_map_eq_length_mult:
  "(\<And>x. x \<in> set xs \<Longrightarrow> f x = c) \<Longrightarrow> sum_list (map f xs) = of_nat (length xs) * (c :: 'a :: comm_semiring_1)"
  by (induction xs) (auto simp: algebra_simps)

lemma map_of_functional:
  assumes "\<And>v w. (k, v) \<in> set xs \<Longrightarrow> (k, w) \<in> set xs \<Longrightarrow> v = w"
  shows "map_of xs k = Some v \<longleftrightarrow> (k, v) \<in> set xs"
proof
  show "map_of xs k = Some v \<Longrightarrow> (k, v) \<in> set xs" by (rule map_of_SomeD)
next
  assume kv: "(k, v) \<in> set xs"
  then obtain w where w: "map_of xs k = Some w" by (metis weak_map_of_SomeI)
  with kv assms show "map_of xs k = Some v" by (metis map_of_SomeD)
qed

lemma distinct_map_fst_unique:
  "distinct (map fst xs) \<Longrightarrow> (k, v) \<in> set xs \<Longrightarrow> (k, w) \<in> set xs \<Longrightarrow> v = w"
  by (metis map_of_eq_Some_iff option.inject)

end
