(* ===== verification/Containers.thy ===== *)
theory Containers
  imports Prelude "HOL-Library.Multiset" "HOL-Library.AList" "HOL-Library.List_Lexorder" "HOL-Library.Char_ord"
begin

text \<open>
  The containers of the program, with the operations the sources call on them.

  \<^item> \<open>'v table\<close>-like association lists with distinct keys stand for \<^verbatim>\<open>std::unordered_map\<close> and
    \<^verbatim>\<open>libcuckoo::cuckoohash_map\<close>. Both libraries leave the iteration order unspecified; an
    operation of the program that iterates over such a container receives the order as a
    parameter (\<open>iter\<close>), of which only \<open>iter_ok\<close> is ever assumed: it lists the entries of the
    container, each once.
  \<^item> Association lists sorted by key stand for \<^verbatim>\<open>std::map\<close>, whose iteration order is the order of
    its keys.

  The locale \<open>keyed_store\<close> is the contract the clients rely on; both representations are
  instances of it, and what is proved in it (storing a whole list of entries) is used for the
  update cache, for the Thrift readers and for the distribution files.
\<close>

section \<open>The contract of a keyed container\<close>

locale keyed_store =
  fixes lookup :: "'t \<Rightarrow> 'k \<Rightarrow> 'v option"
    and put :: "'k \<Rightarrow> 'v \<Rightarrow> 't \<Rightarrow> 't"
    and erase :: "'k \<Rightarrow> 't \<Rightarrow> 't"
    and invar :: "'t \<Rightarrow> bool"
  assumes lookup_put: "invar t \<Longrightarrow> lookup (put k v t) = (lookup t)(k \<mapsto> v)"
    and lookup_erase: "invar t \<Longrightarrow> lookup (erase k t) = (lookup t)(k := None)"
    and invar_put: "invar t \<Longrightarrow> invar (put k v t)"
    and invar_erase: "invar t \<Longrightarrow> invar (erase k t)"
begin

definition put_all :: "('k \<times> 'v) list \<Rightarrow> 't \<Rightarrow> 't" where
  "put_all kvs t = fold (\<lambda>(k, v). put k v) kvs t"

lemma invar_put_all: "invar t \<Longrightarrow> invar (put_all kvs t)"
  by (induction kvs arbitrary: t) (auto simp: put_all_def invar_put)

text \<open>Storing a list of entries with distinct keys overrides exactly those keys.\<close>

lemma lookup_put_all:
  assumes "invar t" and "distinct (map fst kvs)"
  shows "lookup (put_all kvs t) k = (case map_of kvs k of Some v \<Rightarrow> Some v | None \<Rightarrow> lookup t k)"
  using assms
proof (induction kvs arbitrary: t)
  case Nil
  then show ?case by (simp add: put_all_def)
next
  case (Cons p kvs)
  obtain a b where p: "p = (a, b)" by (cases p)
  have fold: "put_all (p # kvs) t = put_all kvs (put a b t)"
    by (simp add: put_all_def p)
  have "map_of kvs a = None"
    using Cons.prems p by (simp add: map_of_eq_None_iff image_image)
  with Cons p fold show ?case
    by (auto simp: invar_put lookup_put split: option.splits)
qed

lemma lookup_put_all_last:
  assumes "invar t"
  shows "lookup (put_all kvs t) k =
           (case map_of (rev kvs) k of Some v \<Rightarrow> Some v | None \<Rightarrow> lookup t k)"
  using assms
proof (induction kvs arbitrary: t)
  case Nil
  then show ?case by (simp add: put_all_def)
next
  case (Cons p kvs)
  obtain a b where p: "p = (a, b)" by (cases p)
  have "put_all (p # kvs) t = put_all kvs (put a b t)" by (simp add: put_all_def p)
  with Cons p show ?case
    by (auto simp: invar_put lookup_put map_add_def split: option.splits)
qed

lemma lookup_put_same: "invar t \<Longrightarrow> lookup (put k v t) k = Some v"
  by (simp add: lookup_put)

lemma lookup_put_other: "invar t \<Longrightarrow> k \<noteq> j \<Longrightarrow> lookup (put k v t) j = lookup t j"
  by (simp add: lookup_put)

end

section \<open>Hash tables\<close>

type_synonym ('k, 'v) table = "('k \<times> 'v) list"

definition table_ok :: "('k, 'v) table \<Rightarrow> bool" where
  "table_ok t \<longleftrightarrow> distinct (map fst t)"

definition iter_ok :: "(('k, 'v) table \<Rightarrow> ('k \<times> 'v) list) \<Rightarrow> bool" where
  "iter_ok iter \<longleftrightarrow> (\<forall>t. mset (iter t) = mset t)"

lemma iter_ok_set: "iter_ok iter \<Longrightarrow> set (iter t) = set t"
  unfolding iter_ok_def by (metis set_mset_mset)

lemma iter_ok_length: "iter_ok iter \<Longrightarrow> length (iter t) = length t"
  unfolding iter_ok_def by (metis size_mset)

lemma iter_ok_distinct: "iter_ok iter \<Longrightarrow> distinct (map fst (iter t)) = distinct (map fst t)"
  unfolding iter_ok_def by (metis mset_map mset_eq_imp_distinct_iff)

text \<open>\<^verbatim>\<open>operator[]\<close> as an assignment target, and \<^verbatim>\<open>insert_or_assign\<close>.\<close>

definition tab_put :: "'k \<Rightarrow> 'v \<Rightarrow> ('k, 'v) table \<Rightarrow> ('k, 'v) table" where
  "tab_put k v t = AList.update k v t"

definition tab_erase :: "'k \<Rightarrow> ('k, 'v) table \<Rightarrow> ('k, 'v) table" where
  "tab_erase k t = AList.delete k t"

text \<open>\<^verbatim>\<open>cuckoohash_map::insert\<close> leaves an existing entry alone.\<close>

definition tab_insert :: "'k \<Rightarrow> 'v \<Rightarrow> ('k, 'v) table \<Rightarrow> ('k, 'v) table" where
  "tab_insert k v t = (if map_of t k = None then tab_put k v t else t)"

text \<open>\<^verbatim>\<open>update_fn\<close>: run a function on the value if the key is present.\<close>

definition tab_update_fn :: "'k \<Rightarrow> ('v \<Rightarrow> 'v) \<Rightarrow> ('k, 'v) table \<Rightarrow> ('k, 'v) table" where
  "tab_update_fn k f t = (case map_of t k of None \<Rightarrow> t | Some v \<Rightarrow> tab_put k (f v) t)"

text \<open>
  \<^verbatim>\<open>erase_fn\<close>: run a function that may change the value and says whether to erase the entry.
\<close>

definition tab_erase_fn :: "'k \<Rightarrow> ('v \<Rightarrow> 'v \<times> bool) \<Rightarrow> ('k, 'v) table \<Rightarrow> ('k, 'v) table" where
  "tab_erase_fn k f t =
     (case map_of t k of
        None \<Rightarrow> t
      | Some v \<Rightarrow> (let (w, del) = f v in if del then tab_erase k t else tab_put k w t))"

text \<open>\<^verbatim>\<open>uprase_fn\<close>: as \<^verbatim>\<open>erase_fn\<close> on a present key, otherwise insert the given value.\<close>

definition tab_uprase_fn ::
  "'k \<Rightarrow> ('v \<Rightarrow> 'v \<times> bool) \<Rightarrow> 'v \<Rightarrow> ('k, 'v) table \<Rightarrow> ('k, 'v) table" where
  "tab_uprase_fn k f v0 t =
     (if map_of t k = None then tab_put k v0 t else tab_erase_fn k f t)"

lemma map_of_tab_put [simp]: "map_of (tab_put k v t) = (map_of t)(k \<mapsto> v)"
  by (simp add: tab_put_def update_conv')

lemma map_of_tab_erase [simp]: "map_of (tab_erase k t) = (map_of t)(k := None)"
  by (simp add: tab_erase_def delete_conv')

lemma map_of_tab_insert:
  "map_of (tab_insert k v t) = (if map_of t k = None then (map_of t)(k \<mapsto> v) else map_of t)"
  by (simp add: tab_insert_def)

lemma map_of_tab_update_fn:
  "map_of (tab_update_fn k f t) = (case map_of t k of None \<Rightarrow> map_of t | Some v \<Rightarrow> (map_of t)(k \<mapsto> f v))"
  by (simp add: tab_update_fn_def split: option.splits)

lemma map_of_tab_erase_fn:
  "map_of (tab_erase_fn k f t) =
     (case map_of t k of
        None \<Rightarrow> map_of t
      | Some v \<Rightarrow> (map_of t)(k := (if snd (f v) then None else Some (fst (f v)))))"
  by (auto simp: tab_erase_fn_def split: option.splits prod.splits)

lemma tab_put_fresh: "map_of t k = None \<Longrightarrow> tab_put k v t = t @ [(k, v)]"
  unfolding tab_put_def by (induction t) (auto split: if_splits)

lemma tab_insert_fresh: "map_of t k = None \<Longrightarrow> tab_insert k v t = t @ [(k, v)]"
  by (simp add: tab_insert_def tab_put_fresh)

lemma set_tab_erase: "set (tab_erase k t) = {p \<in> set t. fst p \<noteq> k}"
  by (auto simp: tab_erase_def AList.delete_eq)

lemma table_ok_empty [simp]: "table_ok []"
  by (simp add: table_ok_def)

lemma table_ok_put [simp]: "table_ok t \<Longrightarrow> table_ok (tab_put k v t)"
  by (simp add: table_ok_def tab_put_def distinct_update)

lemma table_ok_erase [simp]: "table_ok t \<Longrightarrow> table_ok (tab_erase k t)"
  by (simp add: table_ok_def tab_erase_def distinct_delete)

lemma table_ok_insert [simp]: "table_ok t \<Longrightarrow> table_ok (tab_insert k v t)"
  by (simp add: tab_insert_def)

lemma table_ok_update_fn [simp]: "table_ok t \<Longrightarrow> table_ok (tab_update_fn k f t)"
  by (simp add: tab_update_fn_def split: option.splits)

lemma table_ok_erase_fn [simp]: "table_ok t \<Longrightarrow> table_ok (tab_erase_fn k f t)"
  by (simp add: tab_erase_fn_def split: option.splits prod.splits)

lemma table_ok_uprase_fn [simp]: "table_ok t \<Longrightarrow> table_ok (tab_uprase_fn k f v t)"
  by (simp add: tab_uprase_fn_def)

interpretation umap: keyed_store map_of tab_put tab_erase table_ok
  by unfold_locales simp_all

section \<open>std::map\<close>

type_synonym ('k, 'v) omap = "('k \<times> 'v) list"

definition omap_ok :: "('k :: linorder, 'v) omap \<Rightarrow> bool" where
  "omap_ok m \<longleftrightarrow> sorted (map fst m) \<and> distinct (map fst m)"

fun omap_put :: "'k :: linorder \<Rightarrow> 'v \<Rightarrow> ('k, 'v) omap \<Rightarrow> ('k, 'v) omap" where
  "omap_put k v [] = [(k, v)]"
| "omap_put k v ((j, w) # m) =
     (if k < j then (k, v) # (j, w) # m
      else if k = j then (k, v) # m
      else (j, w) # omap_put k v m)"

definition omap_erase :: "'k :: linorder \<Rightarrow> ('k, 'v) omap \<Rightarrow> ('k, 'v) omap" where
  "omap_erase k m = filter (\<lambda>p. fst p \<noteq> k) m"

lemma set_map_fst_omap_put [simp]: "fst ` set (omap_put k v m) = insert k (fst ` set m)"
  by (induction m rule: omap_put.induct) auto

lemma omap_ok_Nil [simp]: "omap_ok []"
  by (simp add: omap_ok_def)

lemma omap_ok_Cons:
  "omap_ok ((j, w) # m) \<longleftrightarrow> (\<forall>i \<in> fst ` set m. j < i) \<and> omap_ok m"
  by (auto simp: omap_ok_def less_le)

lemma omap_ok_put: "omap_ok m \<Longrightarrow> omap_ok (omap_put k v m)"
proof (induction m)
  case Nil
  then show ?case by (simp add: omap_ok_def)
next
  case (Cons p m)
  obtain j w where p: "p = (j, w)" by (cases p)
  show ?case
  proof (cases "k < j")
    case True
    with Cons.prems p show ?thesis by (auto simp: omap_ok_Cons)
  next
    case False
    with Cons p show ?thesis by (auto simp: omap_ok_Cons)
  qed
qed

lemma map_of_omap_put: "omap_ok m \<Longrightarrow> map_of (omap_put k v m) = (map_of m)(k \<mapsto> v)"
proof (induction m)
  case Nil
  then show ?case by simp
next
  case (Cons p m)
  obtain j w where p: "p = (j, w)" by (cases p)
  from Cons.prems p have tail: "\<forall>i \<in> fst ` set m. j < i" "omap_ok m"
    by (auto simp: omap_ok_Cons)
  have fresh: "map_of m i = None" if "i \<le> j" for i
    using tail(1) that by (fastforce simp: map_of_eq_None_iff)
  show ?case
    using Cons.IH [OF tail(2)] p fresh by (auto simp: fun_eq_iff)
qed

lemma omap_ok_erase: "omap_ok m \<Longrightarrow> omap_ok (omap_erase k m)"
  by (auto simp: omap_ok_def omap_erase_def distinct_map_filter
      intro!: sorted_filter)

lemma map_of_omap_erase: "map_of (omap_erase k m) = (map_of m)(k := None)"
  by (induction m) (auto simp: omap_erase_def fun_eq_iff)

interpretation omap: keyed_store map_of omap_put omap_erase omap_ok
  by unfold_locales (simp_all add: map_of_omap_put map_of_omap_erase omap_ok_put omap_ok_erase)

text \<open>A sorted list of entries is its own \<^verbatim>\<open>std::map\<close>: inserting it in order rebuilds it.\<close>

lemma omap_put_largest: "\<forall>j \<in> fst ` set m. j < k \<Longrightarrow> omap_put k v m = m @ [(k, v)]"
  by (induction m) auto

lemma fold_omap_put_append:
  "omap_ok (m @ kvs) \<Longrightarrow> fold (\<lambda>(k, v). omap_put k v) kvs m = m @ kvs"
proof (induction kvs arbitrary: m)
  case Nil
  then show ?case by simp
next
  case (Cons p kvs)
  obtain k v where p: "p = (k, v)" by (cases p)
  from Cons.prems p have "\<forall>j \<in> fst ` set m. j < k"
    by (auto simp: omap_ok_def sorted_append less_le)
  then have "omap_put k v m = m @ [(k, v)]" by (rule omap_put_largest)
  with Cons p show ?case by simp
qed

lemma omap_rebuild: "omap_ok kvs \<Longrightarrow> omap.put_all kvs [] = kvs"
  using fold_omap_put_append [of "[]" kvs] by (simp add: omap.put_all_def)

end
