(* ===== verification/Thrift_Types.thy ===== *)
theory Thrift_Types
  imports Complex_Main Containers
begin

text \<open>
  The two structures that travel through Thrift: \<open>sequence_id\<close> (service/src/proxy_types.cpp) and
  \<open>dist_info\<close> (proxy/src/dist_info_types.cpp), with their \<^verbatim>\<open>read\<close> and \<^verbatim>\<open>write\<close> methods.

  The Thrift runtime is not part of the repository. What the generated code sees of it is the
  sequence of fields of a structure: a field has an id and a value, and the value has a type
  tag. \<^verbatim>\<open>write\<close> is the list of fields it emits and \<^verbatim>\<open>read\<close> consumes such a list up to the stop
  marker, skipping what it does not know. The order of the fields is the writer's.
\<close>

section \<open>Values on the wire\<close>

datatype tvalue =
    V_I32 int
  | V_I64 int
  | V_STRING string
  | V_DOUBLE rat
  | V_BOOL bool
  | V_LIST "tvalue list"
  | V_STRUCT "(int \<times> tvalue) list"
  | V_MAP "(tvalue \<times> tvalue) list"
  | V_OTHER nat

type_synonym tfield = "int \<times> tvalue"

section \<open>sequence\_id\<close>

record sequence_id =
  client_id :: int
  client_seq_no :: int
  server_seq_no :: int
  l1_idx :: int
  l1_seq_no :: int
  l2_idx :: int
  l2_seq_no :: int
  ts :: int
  diag :: string
  isset_ts :: bool
  isset_diag :: bool

definition sequence_id_new :: sequence_id where
  "sequence_id_new =
     \<lparr>client_id = 0, client_seq_no = 0, server_seq_no = 0, l1_idx = 0, l1_seq_no = 0,
      l2_idx = 0, l2_seq_no = 0, ts = 0, diag = [], isset_ts = False, isset_diag = False\<rparr>"

definition set_ts :: "int \<Rightarrow> sequence_id \<Rightarrow> sequence_id" where
  "set_ts v s = s\<lparr>ts := v, isset_ts := True\<rparr>"

definition set_diag :: "string \<Rightarrow> sequence_id \<Rightarrow> sequence_id" where
  "set_diag v s = s\<lparr>diag := v, isset_diag := True\<rparr>"

text \<open>\<^verbatim>\<open>operator==\<close>: an optional field counts only if it is set on both sides.\<close>

definition seq_eq :: "sequence_id \<Rightarrow> sequence_id \<Rightarrow> bool" where
  "seq_eq a b \<longleftrightarrow>
     client_id a = client_id b \<and> client_seq_no a = client_seq_no b \<and>
     server_seq_no a = server_seq_no b \<and> l1_idx a = l1_idx b \<and> l1_seq_no a = l1_seq_no b \<and>
     l2_idx a = l2_idx b \<and> l2_seq_no a = l2_seq_no b \<and>
     isset_ts a = isset_ts b \<and> (isset_ts a \<longrightarrow> ts a = ts b) \<and>
     isset_diag a = isset_diag b \<and> (isset_diag a \<longrightarrow> diag a = diag b)"

definition seq_write :: "sequence_id \<Rightarrow> tfield list" where
  "seq_write s =
     [(1, V_I64 (client_id s)), (2, V_I64 (client_seq_no s)), (3, V_I64 (server_seq_no s)),
      (4, V_I32 (l1_idx s)), (5, V_I64 (l1_seq_no s)), (6, V_I32 (l2_idx s)),
      (7, V_I64 (l2_seq_no s))]
     @ (if isset_ts s then [(8, V_I64 (ts s))] else [])
     @ (if isset_diag s then [(9, V_STRING (diag s))] else [])"

text \<open>One turn of the field loop; \<open>seen\<close> collects the ids of the required fields read so far.\<close>

definition seq_read_field :: "tfield \<Rightarrow> sequence_id \<times> int set \<Rightarrow> sequence_id \<times> int set" where
  "seq_read_field f st =
     (let (s, seen) = st; (fid, v) = f in
      case v of
        V_I64 x \<Rightarrow>
          (if fid = 1 then (s\<lparr>client_id := x\<rparr>, insert 1 seen)
           else if fid = 2 then (s\<lparr>client_seq_no := x\<rparr>, insert 2 seen)
           else if fid = 3 then (s\<lparr>server_seq_no := x\<rparr>, insert 3 seen)
           else if fid = 5 then (s\<lparr>l1_seq_no := x\<rparr>, insert 5 seen)
           else if fid = 7 then (s\<lparr>l2_seq_no := x\<rparr>, insert 7 seen)
           else if fid = 8 then (s\<lparr>ts := x, isset_ts := True\<rparr>, seen)
           else (s, seen))
      | V_I32 x \<Rightarrow>
          (if fid = 4 then (s\<lparr>l1_idx := x\<rparr>, insert 4 seen)
           else if fid = 6 then (s\<lparr>l2_idx := x\<rparr>, insert 6 seen)
           else (s, seen))
      | V_STRING x \<Rightarrow>
          (if fid = 9 then (s\<lparr>diag := x, isset_diag := True\<rparr>, seen) else (s, seen))
      | _ \<Rightarrow> (s, seen))"

definition seq_required :: "int set" where
  "seq_required = {1, 2, 3, 4, 5, 6, 7}"

definition seq_read :: "sequence_id \<Rightarrow> tfield list \<Rightarrow> sequence_id outcome" where
  "seq_read s0 fs =
     (let (s, seen) = fold seq_read_field fs (s0, {}) in
      if seq_required \<subseteq> seen then Inr s else Inl (Protocol_error ''INVALID_DATA''))"

lemma seq_read_write_exact:
  "seq_read sequence_id_new (seq_write s) =
     Inr (s\<lparr>ts := (if isset_ts s then ts s else 0), diag := (if isset_diag s then diag s else [])\<rparr>)"
  by (simp add: seq_read_def seq_write_def seq_read_field_def seq_required_def
      sequence_id_new_def insert_commute)

lemma seq_eq_refl [simp]: "seq_eq s s"
  by (simp add: seq_eq_def)

lemma seq_eq_sym: "seq_eq a b \<Longrightarrow> seq_eq b a"
  by (auto simp: seq_eq_def)

lemma seq_eq_trans: "seq_eq a b \<Longrightarrow> seq_eq b c \<Longrightarrow> seq_eq a c"
  by (auto simp: seq_eq_def)

text \<open>
  The reader drops a field it does not know, so a newer writer's additions do not disturb it,
  wherever they stand in the stream.
\<close>

definition seq_known :: "tfield \<Rightarrow> bool" where
  "seq_known f \<longleftrightarrow> 1 \<le> fst f \<and> fst f \<le> 9"

lemma seq_read_field_unknown:
  assumes "\<not> seq_known f"
  shows "seq_read_field f st = st"
proof -
  obtain fid v where f: "f = (fid, v)" by (cases f)
  from assms f have "fid \<noteq> 1" "fid \<noteq> 2" "fid \<noteq> 3" "fid \<noteq> 4" "fid \<noteq> 5" "fid \<noteq> 6" "fid \<noteq> 7"
      "fid \<noteq> 8" "fid \<noteq> 9"
    by (auto simp: seq_known_def)
  then show ?thesis
    by (cases st; cases v) (simp_all add: f seq_read_field_def)
qed

lemma seq_read_skips_unknown:
  "seq_read s0 fs = seq_read s0 (filter seq_known fs)"
proof -
  have "fold seq_read_field fs st = fold seq_read_field (filter seq_known fs) st" for st
    by (induction fs arbitrary: st) (auto simp: seq_read_field_unknown)
  then show ?thesis by (simp add: seq_read_def)
qed

lemma seq_read_field_seen:
  "snd (seq_read_field f st) \<subseteq> insert (fst f) (snd st)"
  by (cases st; cases f) (auto simp: seq_read_field_def split: tvalue.splits)

lemma seq_fold_seen:
  "snd (fold seq_read_field fs st) \<subseteq> fst ` set fs \<union> snd st"
proof (induction fs arbitrary: st)
  case Nil
  then show ?case by simp
next
  case (Cons f fs)
  have "snd (fold seq_read_field (f # fs) st) \<subseteq> fst ` set fs \<union> snd (seq_read_field f st)"
    using Cons.IH [of "seq_read_field f st"] by simp
  with seq_read_field_seen [of f st] show ?case by auto
qed

lemma seq_read_missing_required:
  assumes "fid \<in> seq_required" and "fid \<notin> fst ` set fs"
  shows "seq_read s0 fs = Inl (Protocol_error ''INVALID_DATA'')"
proof -
  have "fid \<notin> snd (fold seq_read_field fs (s0, {}))"
    using seq_fold_seen [of fs "(s0, {})"] assms(2) by auto
  with assms(1) show ?thesis by (auto simp: seq_read_def split: prod.splits)
qed

text \<open>
  Round trip of \<open>sequence_id\<close> over Thrift: reading what \<^verbatim>\<open>write\<close> emitted, with any unknown
  fields interleaved anywhere, succeeds and gives a value that \<^verbatim>\<open>operator==\<close> identifies with the
  one written.
\<close>

lemma sequence_id_roundtrip:
  assumes "filter seq_known fs = seq_write s"
  shows "\<exists>r. seq_read sequence_id_new fs = Inr r \<and> seq_eq r s"
proof -
  have "seq_read sequence_id_new fs = seq_read sequence_id_new (seq_write s)"
    by (subst seq_read_skips_unknown) (simp add: assms)
  then show ?thesis by (simp add: seq_read_write_exact seq_eq_def)
qed

section \<open>dist\_info\<close>

record dist_info =
  di_num_keys :: int
  di_dummy_key :: string
  di_key_to_number_of_replicas :: "(string, int) omap"
  di_replica_to_label :: "(string, int) omap"
  di_fake_distribution :: "(string, rat) omap"
  di_real_distribution :: "(string, rat) omap"

definition dist_info_new :: dist_info where
  "dist_info_new =
     \<lparr>di_num_keys = 0, di_dummy_key = [], di_key_to_number_of_replicas = [],
      di_replica_to_label = [], di_fake_distribution = [], di_real_distribution = []\<rparr>"

definition dist_info_ok :: "dist_info \<Rightarrow> bool" where
  "dist_info_ok d \<longleftrightarrow>
     omap_ok (di_key_to_number_of_replicas d) \<and> omap_ok (di_replica_to_label d) \<and>
     omap_ok (di_fake_distribution d) \<and> omap_ok (di_real_distribution d)"

definition di_write :: "dist_info \<Rightarrow> tfield list" where
  "di_write d =
     [(1, V_I32 (di_num_keys d)),
      (2, V_STRING (di_dummy_key d)),
      (3, V_MAP (map (\<lambda>(k, v). (V_STRING k, V_I32 v)) (di_key_to_number_of_replicas d))),
      (4, V_MAP (map (\<lambda>(k, v). (V_STRING k, V_I32 v)) (di_replica_to_label d))),
      (5, V_MAP (map (\<lambda>(k, v). (V_STRING k, V_DOUBLE v)) (di_fake_distribution d))),
      (6, V_MAP (map (\<lambda>(k, v). (V_STRING k, V_DOUBLE v)) (di_real_distribution d)))]"

text \<open>The element loops: \<^verbatim>\<open>readString(key)\<close> and \<^verbatim>\<open>readI32\<close> or \<^verbatim>\<open>readDouble\<close> into \<^verbatim>\<open>map[key]\<close>.\<close>

fun di_read_i32_map :: "(tvalue \<times> tvalue) list \<Rightarrow> (string, int) omap \<Rightarrow> (string, int) omap outcome" where
  "di_read_i32_map [] m = Inr m"
| "di_read_i32_map ((k, v) # es) m =
     (case (k, v) of
        (V_STRING key, V_I32 x) \<Rightarrow> di_read_i32_map es (omap_put key x m)
      | _ \<Rightarrow> Inl (Protocol_error ''element type''))"

fun di_read_double_map :: "(tvalue \<times> tvalue) list \<Rightarrow> (string, rat) omap \<Rightarrow> (string, rat) omap outcome" where
  "di_read_double_map [] m = Inr m"
| "di_read_double_map ((k, v) # es) m =
     (case (k, v) of
        (V_STRING key, V_DOUBLE x) \<Rightarrow> di_read_double_map es (omap_put key x m)
      | _ \<Rightarrow> Inl (Protocol_error ''element type''))"

definition di_read_field :: "tfield \<Rightarrow> dist_info \<Rightarrow> dist_info outcome" where
  "di_read_field f d =
     (let (fid, v) = f in
      case v of
        V_I32 x \<Rightarrow> Inr (if fid = 1 then d\<lparr>di_num_keys := x\<rparr> else d)
      | V_STRING x \<Rightarrow> Inr (if fid = 2 then d\<lparr>di_dummy_key := x\<rparr> else d)
      | V_MAP es \<Rightarrow>
          (if fid = 3 then bind_out (di_read_i32_map es []) (\<lambda>m. Inr (d\<lparr>di_key_to_number_of_replicas := m\<rparr>))
           else if fid = 4 then bind_out (di_read_i32_map es []) (\<lambda>m. Inr (d\<lparr>di_replica_to_label := m\<rparr>))
           else if fid = 5 then bind_out (di_read_double_map es []) (\<lambda>m. Inr (d\<lparr>di_fake_distribution := m\<rparr>))
           else if fid = 6 then bind_out (di_read_double_map es []) (\<lambda>m. Inr (d\<lparr>di_real_distribution := m\<rparr>))
           else Inr d)
      | _ \<Rightarrow> Inr d)"

fun di_read :: "dist_info \<Rightarrow> tfield list \<Rightarrow> dist_info outcome" where
  "di_read d [] = Inr d"
| "di_read d (f # fs) = bind_out (di_read_field f d) (\<lambda>d'. di_read d' fs)"

lemma di_read_i32_map_write:
  "di_read_i32_map (map (\<lambda>(k, v). (V_STRING k, V_I32 v)) kvs) m = Inr (omap.put_all kvs m)"
  by (induction kvs arbitrary: m) (auto simp: omap.put_all_def)

lemma di_read_double_map_write:
  "di_read_double_map (map (\<lambda>(k, v). (V_STRING k, V_DOUBLE v)) kvs) m = Inr (omap.put_all kvs m)"
  by (induction kvs arbitrary: m) (auto simp: omap.put_all_def)

lemma di_read_write:
  "dist_info_ok d \<Longrightarrow> di_read dist_info_new (di_write d) = Inr d"
  by (simp add: di_write_def di_read_field_def dist_info_ok_def di_read_i32_map_write
      di_read_double_map_write omap_rebuild dist_info_new_def)

end
