(* ===== verification/Cpp_String.thy ===== *)
theory Cpp_String
  imports Prelude
begin

text \<open>
  The parts of the standard string library that the repository uses: \<^verbatim>\<open>std::to_string\<close>,
  \<^verbatim>\<open>std::stoi\<close>, \<^verbatim>\<open>std::stoll\<close> and \<^verbatim>\<open>std::getline\<close> with a delimiter. They carry every value that
  the proxies put on the wire as text (chain arguments, block names, labels, the hosts file),
  so the round trip \<open>stoll_to_string\<close> is used by most of the components.
\<close>

section \<open>Decimal digits\<close>

definition digit_char :: "nat \<Rightarrow> char" where
  "digit_char d = char_of (48 + d)"

definition is_digit :: "char \<Rightarrow> bool" where
  "is_digit c \<longleftrightarrow> 48 \<le> (of_char c :: nat) \<and> (of_char c :: nat) \<le> 57"

definition digit_val :: "char \<Rightarrow> int" where
  "digit_val c = int (of_char c) - 48"

lemma of_char_digit_char: "d < 10 \<Longrightarrow> (of_char (digit_char d) :: nat) = 48 + d"
  by (simp add: digit_char_def)

lemma is_digit_digit_char [simp]: "d < 10 \<Longrightarrow> is_digit (digit_char d)"
  by (simp add: is_digit_def of_char_digit_char)

lemma digit_val_digit_char [simp]: "d < 10 \<Longrightarrow> digit_val (digit_char d) = int d"
  by (simp add: digit_val_def of_char_digit_char)

section \<open>std::to_string\<close>

fun nat_to_string :: "nat \<Rightarrow> string" where
  "nat_to_string n =
     (if n < 10 then [digit_char n] else nat_to_string (n div 10) @ [digit_char (n mod 10)])"

declare nat_to_string.simps [simp del]

definition to_string :: "int \<Rightarrow> string" where
  "to_string i = (if i < 0 then CHR ''-'' # nat_to_string (nat (- i)) else nat_to_string (nat i))"

lemma nat_to_string_not_Nil [simp]: "nat_to_string n \<noteq> []"
  by (subst nat_to_string.simps) simp

lemma nat_to_string_digits: "c \<in> set (nat_to_string n) \<Longrightarrow> is_digit c"
proof (induction n rule: nat_to_string.induct)
  case (1 n)
  show ?case
  proof (cases "n < 10")
    case True
    with "1.prems" show ?thesis by (subst (asm) nat_to_string.simps) auto
  next
    case False
    with "1.prems" have "c \<in> set (nat_to_string (n div 10)) \<or> c = digit_char (n mod 10)"
      by (subst (asm) nat_to_string.simps) auto
    with "1.IH" False show ?thesis by auto
  qed
qed

lemma to_string_not_Nil [simp]: "to_string i \<noteq> []"
  by (simp add: to_string_def)

lemma to_string_chars: "c \<in> set (to_string i) \<Longrightarrow> is_digit c \<or> c = CHR ''-''"
  by (auto simp: to_string_def dest: nat_to_string_digits split: if_splits)

lemma to_string_no_colon: "CHR '':'' \<notin> set (to_string i)"
  using to_string_chars [of "CHR '':''" i] by (auto simp: is_digit_def)

lemma to_string_no_space: "CHR '' '' \<notin> set (to_string i)"
  using to_string_chars [of "CHR '' ''" i] by (auto simp: is_digit_def)

lemma to_string_no_dollar: "CHR ''$'' \<notin> set (to_string i)"
  using to_string_chars [of "CHR ''$''" i] by (auto simp: is_digit_def)

section \<open>std::stoi and std::stoll\<close>

text \<open>
  Both skip white space, read an optional sign and the longest run of digits, and ignore the
  rest. No digit at all is \<^verbatim>\<open>std::invalid_argument\<close>, a value outside the range of the result
  type is \<^verbatim>\<open>std::out_of_range\<close>.
\<close>

definition is_space :: "char \<Rightarrow> bool" where
  "is_space c \<longleftrightarrow> (of_char c :: nat) = 32 \<or> (9 \<le> (of_char c :: nat) \<and> (of_char c :: nat) \<le> 13)"

definition dec_value :: "string \<Rightarrow> int" where
  "dec_value ds = foldl (\<lambda>a c. a * 10 + digit_val c) 0 ds"

definition read_sign :: "string \<Rightarrow> bool \<times> string" where
  "read_sign s =
     (case s of
        [] \<Rightarrow> (False, [])
      | c # r \<Rightarrow> (if c = CHR ''-'' then (True, r) else if c = CHR ''+'' then (False, r) else (False, s)))"

definition strto :: "int \<Rightarrow> int \<Rightarrow> string \<Rightarrow> int outcome" where
  "strto lo hi s =
     (let (neg, u) = read_sign (dropWhile is_space s);
          ds = takeWhile is_digit u;
          v = (if neg then - dec_value ds else dec_value ds)
      in if ds = [] then Inl (Invalid_argument ''stoi'')
         else if v < lo \<or> hi < v then Inl (Out_of_range ''stoi'')
         else Inr v)"

definition stoi :: "string \<Rightarrow> int outcome" where
  "stoi s = strto int32_min int32_max s"

definition stoll :: "string \<Rightarrow> int outcome" where
  "stoll s = strto int64_min int64_max s"

lemma dec_value_snoc: "dec_value (ds @ [c]) = dec_value ds * 10 + digit_val c"
  by (simp add: dec_value_def)

lemma dec_value_nat_to_string: "dec_value (nat_to_string n) = int n"
proof (induction n rule: nat_to_string.induct)
  case (1 n)
  show ?case
  proof (cases "n < 10")
    case True
    then show ?thesis by (subst nat_to_string.simps) (simp add: dec_value_def)
  next
    case False
    with "1.IH" have "dec_value (nat_to_string n) = int (n div 10) * 10 + int (n mod 10)"
      by (subst nat_to_string.simps) (simp add: dec_value_snoc)
    then show ?thesis by (simp add: zdiv_int zmod_int)
  qed
qed

lemma is_digit_not_sign: "is_digit c \<Longrightarrow> c \<noteq> CHR ''-'' \<and> c \<noteq> CHR ''+''"
  by (auto simp: is_digit_def)

lemma is_digit_not_space: "is_digit c \<Longrightarrow> \<not> is_space c"
  by (auto simp: is_digit_def is_space_def)

lemma takeWhile_digits: "takeWhile is_digit (nat_to_string n) = nat_to_string n"
  by (simp add: takeWhile_eq_all_conv nat_to_string_digits)

lemma nat_to_string_first:
  obtains c r where "nat_to_string n = c # r" "is_digit c"
  using nat_to_string_digits [of _ n] by (cases "nat_to_string n") auto

lemma read_sign_to_string:
  "read_sign (dropWhile is_space (to_string i)) = (i < 0, nat_to_string (nat \<bar>i\<bar>))"
proof (cases "i < 0")
  case True
  then show ?thesis by (simp add: to_string_def read_sign_def is_space_def)
next
  case False
  obtain c r where "nat_to_string (nat i) = c # r" "is_digit c"
    by (rule nat_to_string_first)
  with False show ?thesis
    by (auto simp: to_string_def read_sign_def dest: is_digit_not_sign is_digit_not_space)
qed

lemma strto_to_string:
  assumes "lo \<le> i" and "i \<le> hi"
  shows "strto lo hi (to_string i) = Inr i"
proof -
  have "(if i < 0 then - dec_value (nat_to_string (nat \<bar>i\<bar>)) else dec_value (nat_to_string (nat \<bar>i\<bar>))) = i"
    by (simp add: dec_value_nat_to_string)
  with assms show ?thesis
    by (simp add: strto_def read_sign_to_string takeWhile_digits)
qed

lemma stoi_to_string [simp]: "int32_range i \<Longrightarrow> stoi (to_string i) = Inr i"
  by (simp add: stoi_def int32_range_def strto_to_string)

lemma stoll_to_string [simp]: "int64_range i \<Longrightarrow> stoll (to_string i) = Inr i"
  by (simp add: stoll_def int64_range_def strto_to_string)

lemma to_string_inject [simp]: "to_string i = to_string j \<longleftrightarrow> i = j"
proof
  assume eq: "to_string i = to_string j"
  have "Inr i = strto (min i j) (max i j) (to_string i)"
    by (rule strto_to_string [symmetric]) simp_all
  also have "\<dots> = strto (min i j) (max i j) (to_string j)" by (simp only: eq)
  also have "\<dots> = Inr j" by (rule strto_to_string) simp_all
  finally show "i = j" by (rule Inr_inject)
qed simp

lemma stoi_range: "stoi s = Inr v \<Longrightarrow> int32_range v"
  by (auto simp: stoi_def strto_def int32_range_def Let_def split: prod.splits if_splits)

lemma stoi_no_digits: "stoi [] = Inl (Invalid_argument ''stoi'')"
  by (simp add: stoi_def strto_def read_sign_def)

section \<open>std::getline on a string stream\<close>

text \<open>
  \<^verbatim>\<open>std::getline(in, out, delim)\<close> takes the characters up to the delimiter and drops the
  delimiter. It fails, leaving \<^verbatim>\<open>out\<close> empty, exactly when the stream has no character left.
\<close>

definition getline :: "char \<Rightarrow> string \<Rightarrow> (string \<times> string) option" where
  "getline d s =
     (if s = [] then None
      else Some (takeWhile (\<lambda>c. c \<noteq> d) s, drop (Suc (length (takeWhile (\<lambda>c. c \<noteq> d) s))) s))"

lemma getline_append:
  assumes "d \<notin> set s"
  shows "getline d (s @ d # r) = Some (s, r)"
proof -
  from assms have "takeWhile (\<lambda>c. c \<noteq> d) (s @ d # r) = s"
    by (induction s) auto
  then show ?thesis by (simp add: getline_def)
qed

lemma getline_last:
  assumes "d \<notin> set s" and "s \<noteq> []"
  shows "getline d s = Some (s, [])"
proof -
  from assms(1) have all: "takeWhile (\<lambda>c. c \<noteq> d) s = s"
    by (induction s) auto
  from assms(2) show ?thesis by (simp add: getline_def all)
qed

lemma getline_shrinks: "getline d s = Some (c, r) \<Longrightarrow> length r < length s"
  by (auto simp: getline_def split: if_splits)

text \<open>The extraction into a variable that starts empty.\<close>

definition getline_or_empty :: "char \<Rightarrow> string \<Rightarrow> string \<times> string" where
  "getline_or_empty d s = (case getline d s of None \<Rightarrow> ([], []) | Some r \<Rightarrow> r)"

text \<open>\<^verbatim>\<open>while (std::getline(line, cell, d)) result.push_back(cell);\<close>\<close>

function split_on :: "char \<Rightarrow> string \<Rightarrow> string list" where
  "split_on d s = (case getline d s of None \<Rightarrow> [] | Some (c, r) \<Rightarrow> c # split_on d r)"
  by pat_completeness auto
termination
  by (relation "measure (\<lambda>(d, s). length s)") (auto dest: getline_shrinks)

declare split_on.simps [simp del]

lemma split_on_Nil [simp]: "split_on d [] = []"
  by (simp add: split_on.simps [of d "[]"] getline_def)

lemma split_on_cell:
  "d \<notin> set s \<Longrightarrow> split_on d (s @ d # r) = s # split_on d r"
  by (simp add: split_on.simps [of d "s @ d # r"] getline_append)

lemma split_on_last:
  "d \<notin> set s \<Longrightarrow> s \<noteq> [] \<Longrightarrow> split_on d s = [s]"
  by (simp add: split_on.simps [of d s] getline_last)

lemma split_on_no_delim: "c \<in> set (split_on d s) \<Longrightarrow> d \<notin> set c"
proof (induction d s rule: split_on.induct)
  case (1 d s)
  show ?case
  proof (cases "getline d s")
    case None
    with "1.prems" show ?thesis by (simp add: split_on.simps [of d s])
  next
    case (Some p)
    obtain x r where p: "p = (x, r)" by (cases p)
    with Some have x: "x = takeWhile (\<lambda>c. c \<noteq> d) s"
      by (auto simp: getline_def split: if_splits)
    from "1.prems" Some p have "c = x \<or> c \<in> set (split_on d r)"
      by (auto simp: split_on.simps [of d s])
    with "1.IH" [OF Some p [symmetric]] x show ?thesis by (auto dest: set_takeWhileD)
  qed
qed

end
