(* ===== verification/Block_Id.thy ===== *)
theory Block_Id
  imports Cpp_String
begin

text \<open>
  Block identifiers, proxy/src/block_id_parser.h and block_id_parser.cpp: a host name, two port
  numbers and a block number joined with colons.
\<close>

record block_id =
  bid_host :: string
  service_port :: int
  management_port :: int
  bid_id :: int

text \<open>
  Four reads from the stream; one that finds the stream exhausted leaves its variable empty.
  Any exception of \<^verbatim>\<open>stoi\<close> is turned into \<^verbatim>\<open>std::invalid_argument\<close>.
\<close>

definition bid_parse :: "string \<Rightarrow> block_id outcome" where
  "bid_parse name =
     (let (h, r1) = getline_or_empty (CHR '':'') name;
          (sp, r2) = getline_or_empty (CHR '':'') r1;
          (mp, r3) = getline_or_empty (CHR '':'') r2;
          (b, r4) = getline_or_empty (CHR '':'') r3
      in case bind_out (stoi sp) (\<lambda>i. bind_out (stoi mp) (\<lambda>j. bind_out (stoi b) (\<lambda>k.
                Inr \<lparr>bid_host = h, service_port = i, management_port = j, bid_id = k\<rparr>))) of
           Inr x \<Rightarrow> Inr x
         | Inl _ \<Rightarrow> Inl (Invalid_argument (''Could not parse partition name: '' @ name)))"

definition bid_make :: "string \<Rightarrow> int \<Rightarrow> int \<Rightarrow> int \<Rightarrow> string" where
  "bid_make h sp mp b =
     h @ '':'' @ to_string sp @ '':'' @ to_string mp @ '':'' @ to_string b"

lemma getline_or_empty_cell: "d \<notin> set s \<Longrightarrow> getline_or_empty d (s @ d # r) = (s, r)"
  by (simp add: getline_or_empty_def getline_append)

lemma getline_or_empty_last: "d \<notin> set s \<Longrightarrow> s \<noteq> [] \<Longrightarrow> getline_or_empty d s = (s, [])"
  by (simp add: getline_or_empty_def getline_last)

lemma getline_or_empty_Nil [simp]: "getline_or_empty d [] = ([], [])"
  by (simp add: getline_or_empty_def getline_def)

text \<open>A name with fewer than four cells is refused: the last number is then empty.\<close>

lemma bid_parse_short:
  assumes "CHR '':'' \<notin> set a" "CHR '':'' \<notin> set b" "CHR '':'' \<notin> set c" "c \<noteq> []"
  shows "bid_parse (a @ '':'' @ b @ '':'' @ c) =
           Inl (Invalid_argument (''Could not parse partition name: '' @ a @ '':'' @ b @ '':'' @ c))"
  using assms
  by (cases "stoi b"; cases "stoi c")
    (simp_all add: bid_parse_def getline_or_empty_cell getline_or_empty_last stoi_no_digits)

lemma bid_make_not_nil [simp]: "bid_make h sp mp b \<noteq> ''nil''"
proof -
  have "CHR '':'' \<in> set (bid_make h sp mp b)" by (simp add: bid_make_def)
  moreover have "CHR '':'' \<notin> set ''nil''" by simp
  ultimately show ?thesis by metis
qed

lemma block_id_make_parse:
  assumes "CHR '':'' \<notin> set h" and "int32_range sp" "int32_range mp" "int32_range b"
  shows "bid_parse (bid_make h sp mp b) =
           Inr \<lparr>bid_host = h, service_port = sp, management_port = mp, bid_id = b\<rparr>"
  using assms
  by (simp add: bid_parse_def bid_make_def getline_or_empty_cell getline_or_empty_last to_string_no_colon)

end
