(* ===== verification/Chain_Module.thy ===== *)
theory Chain_Module
  imports Thrift_Types Block_Id
begin

text \<open>
  Chain replication, proxy/src/chain_module.h, chain_module.cpp, chain_request_client.cpp and
  chain_response_client.cpp.

  \<open>chain_module\<close> is the C++ base class: its members are the fields of the record, and a derived
  class (\<open>l1_proxy\<close>, \<open>l2_proxy\<close>) is an extension of the record. The virtual functions a derived class
  overrides are the fields of \<open>vtable\<close>, so that \<open>chain_request\<close> and the other operations below are
  the code of the base class, run on an object of any derived class.

  Connections: \<open>rc_sent\<close> holds the requests written to the connection to the successor and
  \<open>rs_sent\<close> the acknowledgement batches written to the predecessor, oldest first. Opening a connection succeeds
  when the environment \<open>up\<close> says that host and port can be reached.

  The locale \<open>chain_app\<close> is what the base class relies on of a derived class: the callbacks leave the
  members of the base class alone. L1\_Proxy and L2\_Proxy interpret it.
\<close>

section \<open>Connections\<close>

datatype chain_role = Singleton | Head | Mid | Tail

record chain_op =
  op_seq :: sequence_id
  op_args :: "string list"

record request_client =
  rc_host :: string
  rc_port :: int
  rc_block_id :: int
  rc_client :: bool
  rc_open :: bool
  rc_sent :: "(int \<times> chain_op) list"

definition request_client_new :: request_client where
  "request_client_new =
     \<lparr>rc_host = [], rc_port = 0, rc_block_id = 0, rc_client = False, rc_open = False, rc_sent = []\<rparr>"

definition rc_connect :: "(string \<Rightarrow> int \<Rightarrow> bool) \<Rightarrow> string \<Rightarrow> int \<Rightarrow> int \<Rightarrow> (request_client, unit) cpp" where
  "rc_connect up h p b c =
     (if up h p then Inr () else Inl (Transport_error ''open''),
      \<lparr>rc_host = h, rc_port = p, rc_block_id = b, rc_client = True, rc_open = up h p, rc_sent = []\<rparr>)"

definition rc_disconnect :: "request_client \<Rightarrow> request_client" where
  "rc_disconnect c = c\<lparr>rc_open := False, rc_block_id := - 1\<rparr>"

text \<open>Writing to a closed transport throws; a client that was never connected is a null pointer.\<close>

definition rc_request :: "sequence_id \<Rightarrow> string list \<Rightarrow> (request_client, unit) cpp" where
  "rc_request seq args c =
     (if \<not> rc_client c then (Inl (Undefined_behaviour ''null client''), c)
      else if \<not> rc_open c then (Inl (Transport_error ''not open''), c)
      else (Inr (), c\<lparr>rc_sent := rc_sent c @ [(rc_block_id c, \<lparr>op_seq = seq, op_args = args\<rparr>)]\<rparr>))"

text \<open>The result is whether \<^verbatim>\<open>client_.protocol()\<close> is set; it stays set after a disconnect.\<close>

definition next_reset :: "(string \<Rightarrow> int \<Rightarrow> bool) \<Rightarrow> string \<Rightarrow> (request_client, bool) cpp" where
  "next_reset up name =
     seqM (modify rc_disconnect)
       (if name \<noteq> ''nil'' then
          bnd (lift_out (bid_parse name)) (\<lambda>bid.
            seqM (rc_connect up (bid_host bid) (service_port bid) (bid_id bid)) (gets rc_client))
        else gets rc_client)"

record response_client =
  rs_prot :: "nat option"
  rs_sent :: "(nat \<times> sequence_id list) list"

definition response_client_new :: response_client where
  "response_client_new = \<lparr>rs_prot = None, rs_sent = []\<rparr>"

definition rs_reset_prot :: "nat \<Rightarrow> response_client \<Rightarrow> response_client" where
  "rs_reset_prot prot c = c\<lparr>rs_prot := Some prot\<rparr>"

definition rs_is_set :: "response_client \<Rightarrow> bool" where
  "rs_is_set c \<longleftrightarrow> rs_prot c \<noteq> None"

definition rs_ack_batch :: "sequence_id list \<Rightarrow> (response_client, unit) cpp" where
  "rs_ack_batch seqs c =
     (case rs_prot c of
        None \<Rightarrow> (Inl (Undefined_behaviour ''null client''), c)
      | Some p \<Rightarrow> (Inr (), c\<lparr>rs_sent := rs_sent c @ [(p, seqs)]\<rparr>))"

section \<open>The module\<close>

record chain_module =
  role :: chain_role
  chain_seq_no :: int
  next_cxn :: request_client
  prev_cxn :: response_client
  replica_chain :: "string list"
  response_processor :: bool
  pending :: "(int, chain_op) table"
  chain_ack_batch_size :: int
  ack_queue :: "sequence_id list"

record 's vtable =
  run_command :: "sequence_id \<Rightarrow> string list \<Rightarrow> ('s, unit) cpp"
  replication_complete :: "sequence_id \<Rightarrow> string list \<Rightarrow> ('s, unit) cpp"
  setup_callback :: "('s, unit) cpp"
  ack_callback :: "sequence_id \<Rightarrow> ('s, unit) cpp"

definition chain_module_new :: chain_module where
  "chain_module_new =
     \<lparr>role = Singleton, chain_seq_no = 0, next_cxn = request_client_new, prev_cxn = response_client_new,
      replica_chain = [], response_processor = False, pending = [], chain_ack_batch_size = 1,
      ack_queue = []\<rparr>"

definition set_ack_batch_size :: "int \<Rightarrow> 'a chain_module_scheme \<Rightarrow> 'a chain_module_scheme" where
  "set_ack_batch_size n s = s\<lparr>chain_ack_batch_size := n\<rparr>"

definition is_head :: "'a chain_module_scheme \<Rightarrow> bool" where
  "is_head s \<longleftrightarrow> role s = Head \<or> role s = Singleton"

definition is_tail :: "'a chain_module_scheme \<Rightarrow> bool" where
  "is_tail s \<longleftrightarrow> role s = Tail \<or> role s = Singleton"

definition is_set_prev :: "'a chain_module_scheme \<Rightarrow> bool" where
  "is_set_prev s \<longleftrightarrow> rs_is_set (prev_cxn s)"

definition reset_prev :: "nat \<Rightarrow> 'a chain_module_scheme \<Rightarrow> 'a chain_module_scheme" where
  "reset_prev prot s = s\<lparr>prev_cxn := rs_reset_prot prot (prev_cxn s)\<rparr>"

definition add_pending :: "sequence_id \<Rightarrow> string list \<Rightarrow> 'a chain_module_scheme \<Rightarrow> 'a chain_module_scheme" where
  "add_pending seq args s =
     s\<lparr>pending := tab_insert (server_seq_no seq) \<lparr>op_seq = seq, op_args = args\<rparr> (pending s)\<rparr>"

definition remove_pending :: "sequence_id \<Rightarrow> 'a chain_module_scheme \<Rightarrow> 'a chain_module_scheme" where
  "remove_pending seq s = s\<lparr>pending := tab_erase (server_seq_no seq) (pending s)\<rparr>"

text \<open>A call on the member \<^verbatim>\<open>next_\<close> or \<^verbatim>\<open>prev_\<close>.\<close>

definition on_next :: "(request_client, 'r) cpp \<Rightarrow> ('a chain_module_scheme, 'r) cpp" where
  "on_next m s = (let (r, c) = m (next_cxn s) in (r, s\<lparr>next_cxn := c\<rparr>))"

definition on_prev :: "(response_client, 'r) cpp \<Rightarrow> ('a chain_module_scheme, 'r) cpp" where
  "on_prev m s = (let (r, c) = m (prev_cxn s) in (r, s\<lparr>prev_cxn := c\<rparr>))"

definition chain_setup ::
  "'a chain_module_scheme vtable \<Rightarrow> (string \<Rightarrow> int \<Rightarrow> bool) \<Rightarrow> string list \<Rightarrow> chain_role \<Rightarrow> string \<Rightarrow>
   ('a chain_module_scheme, unit) cpp" where
  "chain_setup v up chn rl next_block_id =
     seqM (modify (\<lambda>s. s\<lparr>replica_chain := chn, role := rl\<rparr>))
       (bnd (on_next (next_reset up next_block_id)) (\<lambda>protocol.
          seqM (modify (\<lambda>s. if protocol \<and> role s \<noteq> Tail then s\<lparr>response_processor := True\<rparr> else s))
            (setup_callback v)))"

text \<open>
  \<^verbatim>\<open>resend_pending\<close>: \<open>iter\<close> is the order in which the locked table is traversed. The keys of the table
  are distinct, so sorting by key leaves no choice.
\<close>

definition resend_pending ::
  "'a chain_module_scheme vtable \<Rightarrow> ((int, chain_op) table \<Rightarrow> (int \<times> chain_op) list) \<Rightarrow> int \<Rightarrow>
   ('a chain_module_scheme, unit) cpp" where
  "resend_pending v iter successor_seq =
     bnd (gets (\<lambda>s. sort_key fst (filter (\<lambda>p. \<not> fst p \<le> successor_seq) (iter (pending s))))) (\<lambda>op_list.
       for_each op_list (\<lambda>(k, op).
         bnd (gets is_tail) (\<lambda>t.
           if t then replication_complete v (op_seq op) (op_args op)
           else on_next (rc_request (op_seq op) (op_args op)))))"

definition fetch_seq :: "'a chain_module_scheme \<Rightarrow> int" where
  "fetch_seq s = chain_seq_no s"

text \<open>
  \<^verbatim>\<open>ack_queue_.size() >= chain_ack_batch_size\<close> compares a \<^verbatim>\<open>size_t\<close> with an \<^verbatim>\<open>int\<close>: a negative batch size is
  converted to a huge unsigned number.
\<close>

definition ack_queue_full :: "'a chain_module_scheme \<Rightarrow> bool" where
  "ack_queue_full s \<longleftrightarrow> int (length (ack_queue s)) \<ge> chain_ack_batch_size s mod 2 ^ 64"

definition flush_acks :: "('a chain_module_scheme, unit) cpp" where
  "flush_acks =
     bnd (gets ack_queue) (\<lambda>batch.
       seqM (modify (\<lambda>s. s\<lparr>ack_queue := []\<rparr>)) (on_prev (rs_ack_batch batch)))"

definition ack :: "'a chain_module_scheme vtable \<Rightarrow> sequence_id \<Rightarrow> ('a chain_module_scheme, unit) cpp" where
  "ack v seq =
     seqM (modify (remove_pending seq))
       (seqM (ack_callback v seq)
         (bnd (gets is_head) (\<lambda>h.
            if h then ret ()
            else seqM (modify (\<lambda>s. s\<lparr>ack_queue := ack_queue s @ [seq]\<rparr>))
                   (bnd (gets ack_queue_full) (\<lambda>full. if full then flush_acks else ret ())))))"

definition ack_batch :: "'a chain_module_scheme vtable \<Rightarrow> sequence_id list \<Rightarrow> ('a chain_module_scheme, unit) cpp" where
  "ack_batch v seqs = for_each seqs (ack v)"

definition chain_request ::
  "'a chain_module_scheme vtable \<Rightarrow> sequence_id \<Rightarrow> string list \<Rightarrow> ('a chain_module_scheme, unit) cpp" where
  "chain_request v seq0 args =
     bnd (gets (\<lambda>s. if is_head s then seq0\<lparr>server_seq_no := chain_seq_no s + 1\<rparr> else seq0)) (\<lambda>seq.
     bnd (gets chain_seq_no) (\<lambda>n.
       if server_seq_no seq \<le> n then ret ()
       else if server_seq_no seq > n + 1 then throw (Logic_error ''Received out of order chain_request'')
       else
         seqM (run_command v seq args)
           (seqM (modify (\<lambda>s. s\<lparr>chain_seq_no := chain_seq_no s + 1\<rparr>))
             (seqM (modify (add_pending seq args))
               (bnd (gets is_tail) (\<lambda>t.
                  if t then replication_complete v seq args
                  else on_next (rc_request seq args)))))))"

text \<open>
  The Thrift handlers of the L1 and the L2 server receive a chain request on a connection \<open>prot\<close>. The
  connection becomes the way back to the predecessor only if there is none yet.
\<close>

definition handler_chain_request ::
  "'a chain_module_scheme vtable \<Rightarrow> nat \<Rightarrow> sequence_id \<Rightarrow> string list \<Rightarrow> ('a chain_module_scheme, unit) cpp" where
  "handler_chain_request v prot seq args =
     seqM (modify (\<lambda>s. if is_set_prev s then s else reset_prev prot s)) (chain_request v seq args)"

section \<open>The part of an object that belongs to the base class\<close>

abbreviation base :: "'a chain_module_scheme \<Rightarrow> chain_module" where
  "base s \<equiv> chain_module.truncate s"

lemma base_eq_iff:
  "base s = base t \<longleftrightarrow>
     role s = role t \<and> chain_seq_no s = chain_seq_no t \<and> next_cxn s = next_cxn t \<and> prev_cxn s = prev_cxn t \<and>
     replica_chain s = replica_chain t \<and> response_processor s = response_processor t \<and>
     pending s = pending t \<and> chain_ack_batch_size s = chain_ack_batch_size t \<and> ack_queue s = ack_queue t"
  by (simp add: chain_module.truncate_def)

lemma base_fields [simp]:
  "role (base s) = role s" "chain_seq_no (base s) = chain_seq_no s" "next_cxn (base s) = next_cxn s"
  "prev_cxn (base s) = prev_cxn s" "pending (base s) = pending s" "ack_queue (base s) = ack_queue s"
  "chain_ack_batch_size (base s) = chain_ack_batch_size s" "replica_chain (base s) = replica_chain s"
  "response_processor (base s) = response_processor s"
  by (simp_all add: chain_module.truncate_def)

lemma base_updates [simp]:
  "base (s\<lparr>role := a\<rparr>) = (base s)\<lparr>role := a\<rparr>"
  "base (s\<lparr>chain_seq_no := b\<rparr>) = (base s)\<lparr>chain_seq_no := b\<rparr>"
  "base (s\<lparr>next_cxn := c\<rparr>) = (base s)\<lparr>next_cxn := c\<rparr>"
  "base (s\<lparr>prev_cxn := d\<rparr>) = (base s)\<lparr>prev_cxn := d\<rparr>"
  "base (s\<lparr>replica_chain := e\<rparr>) = (base s)\<lparr>replica_chain := e\<rparr>"
  "base (s\<lparr>response_processor := f\<rparr>) = (base s)\<lparr>response_processor := f\<rparr>"
  "base (s\<lparr>pending := g\<rparr>) = (base s)\<lparr>pending := g\<rparr>"
  "base (s\<lparr>ack_queue := h\<rparr>) = (base s)\<lparr>ack_queue := h\<rparr>"
  by (simp_all add: chain_module.truncate_def)

lemma base_predicates [simp]:
  "is_head (base s) = is_head s" "is_tail (base s) = is_tail s" "ack_queue_full (base s) = ack_queue_full s"
  by (simp_all add: is_head_def is_tail_def ack_queue_full_def)

lemma base_pending [simp]:
  "base (add_pending seq args s) = add_pending seq args (base s)"
  "base (remove_pending seq s) = remove_pending seq (base s)"
  by (simp_all add: add_pending_def remove_pending_def)

lemma fst_on_next [simp]: "fst (on_next m s) = fst (m (next_cxn s))"
  by (simp add: on_next_def split: prod.splits)

lemma snd_on_next [simp]: "snd (on_next m s) = s\<lparr>next_cxn := snd (m (next_cxn s))\<rparr>"
  by (simp add: on_next_def split: prod.splits)

text \<open>The sequence identifier under which a request is replicated: the head stamps it.\<close>

definition stamped :: "'a chain_module_scheme \<Rightarrow> sequence_id \<Rightarrow> sequence_id" where
  "stamped s seq = (if is_head s then seq\<lparr>server_seq_no := chain_seq_no s + 1\<rparr> else seq)"

definition in_order :: "'a chain_module_scheme \<Rightarrow> sequence_id \<Rightarrow> bool" where
  "in_order s seq \<longleftrightarrow> server_seq_no (stamped s seq) = chain_seq_no s + 1"

text \<open>The effect of an accepted request on the base class, apart from the callbacks.\<close>

definition accepted :: "sequence_id \<Rightarrow> string list \<Rightarrow> 'a chain_module_scheme \<Rightarrow> 'a chain_module_scheme" where
  "accepted seq args s = add_pending seq args (s\<lparr>chain_seq_no := chain_seq_no s + 1\<rparr>)"

lemma accepted_simps [simp]:
  "role (accepted seq args s) = role s"
  "chain_seq_no (accepted seq args s) = chain_seq_no s + 1"
  "next_cxn (accepted seq args s) = next_cxn s"
  "prev_cxn (accepted seq args s) = prev_cxn s"
  "ack_queue (accepted seq args s) = ack_queue s"
  "is_tail (accepted seq args s) = is_tail s"
  "is_head (accepted seq args s) = is_head s"
  "pending (accepted seq args s) =
     tab_insert (server_seq_no seq) \<lparr>op_seq = seq, op_args = args\<rparr> (pending s)"
  by (simp_all add: accepted_def add_pending_def is_tail_def is_head_def)

lemma base_accepted [simp]: "base (accepted seq args s) = accepted seq args (base s)"
  by (simp add: accepted_def)

lemma chain_request_cases:
  "chain_request v seq args s =
     (if server_seq_no (stamped s seq) \<le> chain_seq_no s then (Inr (), s)
      else if \<not> in_order s seq then (Inl (Logic_error ''Received out of order chain_request''), s)
      else (case run_command v (stamped s seq) args s of
              (Inl e, t) \<Rightarrow> (Inl e, t)
            | (Inr _, t) \<Rightarrow>
                (if is_tail t then replication_complete v (stamped s seq) args (accepted (stamped s seq) args t)
                 else on_next (rc_request (stamped s seq) args) (accepted (stamped s seq) args t))))"
proof -
  have tl: "is_tail (add_pending q a (t\<lparr>chain_seq_no := k\<rparr>)) = is_tail t" for q a k and t :: "'a chain_module_scheme"
    by (simp add: is_tail_def add_pending_def)
  show ?thesis
    by (auto simp: chain_request_def cpp_simps in_order_def stamped_def [symmetric] accepted_def tl
        split: prod.splits sum.splits)
qed

lemma in_order_head: "is_head s \<Longrightarrow> in_order s seq"
  by (simp add: in_order_def stamped_def)

section \<open>Resending\<close>

definition resend_list :: "((int, chain_op) table \<Rightarrow> (int \<times> chain_op) list) \<Rightarrow> int \<Rightarrow> (int, chain_op) table \<Rightarrow> (int \<times> chain_op) list" where
  "resend_list iter n t = sort_key fst (filter (\<lambda>p. \<not> fst p \<le> n) (iter t))"

text \<open>The traversal order of the hash table does not show.\<close>

lemma resend_list_iter:
  assumes "iter_ok iter" and "table_ok t"
  shows "resend_list iter n t = sort_key fst (filter (\<lambda>p. n < fst p) t)"
proof -
  have "mset (filter (\<lambda>p. n < fst p) (iter t)) = mset (filter (\<lambda>p. n < fst p) t)"
    using assms(1) by (simp add: iter_ok_def)
  moreover have "inj_on fst (set (filter (\<lambda>p. n < fst p) (iter t)))"
    using assms by (auto simp: table_ok_def iter_ok_set distinct_map inj_on_def)
  ultimately have "sort_key fst (filter (\<lambda>p. n < fst p) (iter t)) = sort_key fst (filter (\<lambda>p. n < fst p) t)"
    by (intro sort_key_inj_key_eq) (simp_all)
  then show ?thesis by (simp add: resend_list_def not_le)
qed

lemma rc_request_open:
  "rc_client c \<Longrightarrow> rc_open c \<Longrightarrow>
   rc_request seq args c = (Inr (), c\<lparr>rc_sent := rc_sent c @ [(rc_block_id c, \<lparr>op_seq = seq, op_args = args\<rparr>)]\<rparr>)"
  by (simp add: rc_request_def)

lemma resend_pending_sends:
  assumes "\<not> is_tail s" and "rc_client (next_cxn s)" and "rc_open (next_cxn s)"
  shows "resend_pending v iter n s =
           (Inr (), s\<lparr>next_cxn := (next_cxn s)\<lparr>rc_sent := rc_sent (next_cxn s) @
              map (\<lambda>p. (rc_block_id (next_cxn s), snd p)) (resend_list iter n (pending s))\<rparr>\<rparr>)"
proof -
  let ?body = "\<lambda>(k :: int, op). bnd (gets is_tail) (\<lambda>t.
      if t then replication_complete v (op_seq op) (op_args op)
      else on_next (rc_request (op_seq op) (op_args op)))"
  have "for_each ps ?body t = (Inr (), t\<lparr>next_cxn := (next_cxn t)\<lparr>rc_sent := rc_sent (next_cxn t) @
      map (\<lambda>p. (rc_block_id (next_cxn t), snd p)) ps\<rparr>\<rparr>)"
    if "\<not> is_tail t" "rc_client (next_cxn t)" "rc_open (next_cxn t)" for ps and t :: "'a chain_module_scheme"
    using that
  proof (induction ps arbitrary: t)
    case Nil
    then show ?case by (simp add: ret_apply)
  next
    case (Cons p ps)
    obtain k op where p: "p = (k, op)" by (cases p)
    let ?t1 = "t\<lparr>next_cxn := (next_cxn t)\<lparr>rc_sent := rc_sent (next_cxn t) @ [(rc_block_id (next_cxn t), op)]\<rparr>\<rparr>"
    have "?body p t = (Inr (), ?t1)"
      using Cons.prems p by (simp add: cpp_simps on_next_def rc_request_open)
    moreover have "\<not> is_tail ?t1" using Cons.prems by (simp add: is_tail_def)
    ultimately show ?case
      using Cons.IH [of ?t1] Cons.prems p by (simp add: for_each_Cons del: for_each.simps)
  qed
  then show ?thesis using assms
    by (simp add: resend_pending_def bnd_apply gets_apply resend_list_def)
qed

section \<open>The contract of a derived class\<close>

text \<open>The application that does nothing; it is the base class on its own.\<close>

definition null_app :: "chain_module vtable" where
  "null_app =
     \<lparr>run_command = \<lambda>_ _. ret (), replication_complete = \<lambda>_ _. ret (), setup_callback = ret (),
      ack_callback = \<lambda>_. ret ()\<rparr>"

locale chain_app =
  fixes v :: "'a chain_module_scheme vtable"
  assumes run_base: "base (snd (run_command v seq args s)) = base s"
    and complete_base: "base (snd (replication_complete v seq args s)) = base s"
    and setup_base: "base (snd (setup_callback v s)) = base s"
    and ack_base: "base (snd (ack_callback v seq s)) = base s"
begin

lemma run_fields:
  assumes "run_command v seq args s = (r, t)"
  shows "base t = base s" and "is_tail t = is_tail s"
  using run_base [of seq args s] assms by (auto simp: base_eq_iff is_tail_def)

text \<open>Simulation: what the base class keeps does not depend on the derived class.\<close>

lemma chain_request_base:
  assumes "in_order s seq \<Longrightarrow> fst (run_command v (stamped s seq) args s) = Inr ()"
  shows "base (snd (chain_request v seq args s)) = snd (chain_request null_app seq args (base s))"
proof -
  have st: "stamped (base s) seq = stamped s seq" "in_order (base s) seq = in_order s seq"
    by (simp_all add: stamped_def in_order_def)
  consider "server_seq_no (stamped s seq) \<le> chain_seq_no s"
    | "\<not> server_seq_no (stamped s seq) \<le> chain_seq_no s" "\<not> in_order s seq"
    | "\<not> server_seq_no (stamped s seq) \<le> chain_seq_no s" "in_order s seq" by blast
  then show ?thesis
  proof cases
    case 3
    obtain r t where run: "run_command v (stamped s seq) args s = (r, t)" by fastforce
    with assms 3 have r: "r = Inr ()" by simp
    have t: "base t = base s" "is_tail t = is_tail s" using run_fields [OF run] .
    then have nx: "next_cxn t = next_cxn s" by (simp add: base_eq_iff)
    show ?thesis
      using 3 run r t nx complete_base
      by (simp add: chain_request_cases st null_app_def ret_apply)
  qed (simp_all add: chain_request_cases st)
qed

lemma chain_request_refused:
  assumes "in_order s seq" and "run_command v (stamped s seq) args s = (Inl e, t)"
  shows "fst (chain_request v seq args s) = Inl e" and "base (snd (chain_request v seq args s)) = base s"
  using assms run_fields(1) [OF assms(2)] by (simp_all add: chain_request_cases in_order_def)

lemma resend_base:
  assumes "\<And>seq args t. fst (replication_complete v seq args t) = Inr ()"
  shows "base (snd (resend_pending v iter n s)) = snd (resend_pending null_app iter n (base s))"
proof -
  let ?body = "\<lambda>v (k :: int, op). bnd (gets is_tail) (\<lambda>t.
      if t then replication_complete v (op_seq op) (op_args op)
      else on_next (rc_request (op_seq op) (op_args op)))"
  have step: "fst (?body v p t) = fst (?body null_app p (base t)) \<and>
      base (snd (?body v p t)) = snd (?body null_app p (base t))" for p t
    using assms complete_base
    by (cases p) (auto simp: cpp_simps null_app_def)
  have "base (snd (for_each ps (?body v) t)) = snd (for_each ps (?body null_app) (base t))" for ps t
  proof (induction ps arbitrary: t)
    case Nil
    then show ?case by (simp add: ret_apply)
  next
    case (Cons p ps)
    obtain r t1 where a: "?body v p t = (r, t1)" by fastforce
    obtain r2 t2 where b: "?body null_app p (base t) = (r2, t2)" by fastforce
    from step [of p t] have eq: "r = r2" "base t1 = t2" unfolding a b by simp_all
    have "for_each (p # ps) (?body v) t = (case r of Inl e \<Rightarrow> (Inl e, t1) | Inr _ \<Rightarrow> for_each ps (?body v) t1)"
      "for_each (p # ps) (?body null_app) (base t) = (case r2 of Inl e \<Rightarrow> (Inl e, t2) | Inr _ \<Rightarrow> for_each ps (?body null_app) t2)"
      by (simp_all only: for_each_Cons a b split: prod.splits sum.splits) simp_all
    with eq Cons.IH [of t1] show ?case by (auto split: sum.splits)
  qed
  then show ?thesis by (simp add: resend_pending_def bnd_apply gets_apply)
qed

lemma ack_base_sim:
  assumes "fst (ack_callback v seq (remove_pending seq s)) = Inr ()"
  shows "base (snd (ack v seq s)) = snd (ack null_app seq (base s))" and "fst (ack v seq s) = fst (ack null_app seq (base s))"
proof -
  obtain t where t: "ack_callback v seq (remove_pending seq s) = (Inr (), t)"
    using assms by (cases "ack_callback v seq (remove_pending seq s)") simp
  with ack_base [of seq "remove_pending seq s"] have b: "base t = remove_pending seq (base s)" by simp
  then have f: "is_head t = is_head s" "ack_queue t = ack_queue s" "prev_cxn t = prev_cxn s" "pending t = pending (remove_pending seq s)"
    "chain_ack_batch_size t = chain_ack_batch_size s" "role t = role s" "chain_seq_no t = chain_seq_no s"
    "next_cxn t = next_cxn s" "replica_chain t = replica_chain s" "response_processor t = response_processor s"
    by (simp_all add: base_eq_iff remove_pending_def chain_module.truncate_def is_head_def)
  show "base (snd (ack v seq s)) = snd (ack null_app seq (base s))" "fst (ack v seq s) = fst (ack null_app seq (base s))"
    using t f by (auto simp: ack_def cpp_simps null_app_def ack_queue_full_def flush_acks_def on_prev_def rs_ack_batch_def
        remove_pending_def base_eq_iff chain_module.truncate_def is_head_def split: option.splits)
qed

lemma setup_base_sim:
  assumes "\<And>t. fst (setup_callback v t) = Inr ()"
  shows "base (snd (chain_setup v up chn rl nxt s)) = snd (chain_setup null_app up chn rl nxt (base s))"
    and "fst (chain_setup v up chn rl nxt s) = fst (chain_setup null_app up chn rl nxt (base s))"
proof -
  let ?s = "s\<lparr>replica_chain := chn, role := rl\<rparr>"
  obtain r c where n: "next_reset up nxt (next_cxn s) = (r, c)" by fastforce
  show "base (snd (chain_setup v up chn rl nxt s)) = snd (chain_setup null_app up chn rl nxt (base s))"
    "fst (chain_setup v up chn rl nxt s) = fst (chain_setup null_app up chn rl nxt (base s))"
    using n assms setup_base
    by (cases r; simp add: chain_setup_def cpp_simps on_next_def null_app_def base_eq_iff chain_module.truncate_def)+
qed

end

end
