(* ===== verification/Chain_Protocol.thy ===== *)
theory Chain_Protocol
  imports Chain_Module "HOL-Library.Sublist"
begin

text \<open>
  A chain of replicas. Every step of the system is one call of an operation of Chain\_Module: a
  request at the first replica, the delivery of a request or of an acknowledgement batch, an acknowledgement
  of the next layer at the tail, and the calls that proxy/src/proxy_manager.cpp
  (\<^verbatim>\<open>fail_node\<close>) makes after a crash: \<^verbatim>\<open>setup_chain\<close> with a new role and a new connection, and, as a step of its own, \<^verbatim>\<open>resend_pending\<close> with a
  sequence number that was fetched from the successor before. Between the two calls, and between the fetch and the second call, any other step may happen.

  The replicas run the application \<open>log_app\<close>, which records the commands it is given. It stands for
  any application: by \<open>chain_app.chain_request_base\<close> the members of the base class evolve in the same
  way whatever the derived class does.

  A connection delivers in order; what has been written and not yet delivered is \<open>rc_sent\<close>. A crash
  loses whatever is on the connections of the crashed replica, and \<^verbatim>\<open>setup_chain\<close> loses what is on the connection that it replaces. Acknowledgements may get lost at any time,
  which covers a predecessor connection that was not renewed after a failure. A crash that is not repaired, as that of the first replica of an L1 column
  or one for which a call of the manager throws, is a replica that takes no further step. The manager computes roles from the hosts file, which keeps failed replicas: a replica that has become the first one
  may be made a middle one or a plain tail, and then takes no requests.
\<close>

section \<open>The recording application\<close>

text \<open>
  \<open>cmds\<close> and \<open>link_cut\<close> are history variables: the commands that were executed, and whether the connection to the successor was renewed after commands had been executed and
  \<^verbatim>\<open>resend_pending\<close> has not been called since.
\<close>

record logged = chain_module +
  cmds :: "string list list"
  link_cut :: bool

definition log_app :: "logged vtable" where
  "log_app =
     \<lparr>run_command = \<lambda>_ args. modify (\<lambda>s. s\<lparr>cmds := cmds s @ [args]\<rparr>),
      replication_complete = \<lambda>_ _. ret (),
      setup_callback = modify (\<lambda>s. s\<lparr>link_cut := cmds s \<noteq> []\<rparr>),
      ack_callback = \<lambda>_. ret ()\<rparr>"

definition log_resend :: "((int, chain_op) table \<Rightarrow> (int \<times> chain_op) list) \<Rightarrow> int \<Rightarrow> (logged, unit) cpp" where
  "log_resend iter successor_seq =
     seqM (resend_pending log_app iter successor_seq) (modify (\<lambda>s. s\<lparr>link_cut := False\<rparr>))"

interpretation la: chain_app log_app
  by unfold_locales (simp_all add: log_app_def modify_apply ret_apply base_eq_iff)

section \<open>Steps\<close>

definition pop_request :: "'a chain_module_scheme \<Rightarrow> 'a chain_module_scheme" where
  "pop_request s = s\<lparr>next_cxn := (next_cxn s)\<lparr>rc_sent := tl (rc_sent (next_cxn s))\<rparr>\<rparr>"

definition pop_ack :: "'a chain_module_scheme \<Rightarrow> 'a chain_module_scheme" where
  "pop_ack s = s\<lparr>prev_cxn := (prev_cxn s)\<lparr>rs_sent := tl (rs_sent (prev_cxn s))\<rparr>\<rparr>"

text \<open>What happens while no replica fails.\<close>

inductive traffic :: "logged list \<Rightarrow> logged list \<Rightarrow> bool" where
  submit:
    "chain_request log_app seq args h = (r, h') \<Longrightarrow> traffic (h # ns) (h' # ns)"
| deliver:
    "rc_sent (next_cxn a) = (b, m) # ms \<Longrightarrow>
     handler_chain_request log_app prot (op_seq m) (op_args m) n = (r, n') \<Longrightarrow>
     traffic (xs @ a # n # ys) (xs @ pop_request a # n' # ys)"
| tail_ack:
    "server_seq_no seq \<le> chain_seq_no n \<Longrightarrow> ack log_app seq n = (r, n') \<Longrightarrow>
     traffic (xs @ [n]) (xs @ [n'])"
| deliver_ack:
    "rs_sent (prev_cxn n) = (p, seqs) # ps \<Longrightarrow> ack_batch log_app seqs a = (r, a') \<Longrightarrow>
     traffic (xs @ a # n # ys) (xs @ a' # pop_ack n # ys)"
| lose_ack:
    "traffic (xs @ n # ys) (xs @ pop_ack n # ys)"

text \<open>
  With the failures: \<open>b\<close> crashes and \<open>a\<close> in front of it is set up again, or the first replica crashes and the next one is set up (only for L2). \<^verbatim>\<open>resend_pending\<close> gets a number
  that the successor had at some time, or \<open>- 1\<close> at the tail.
\<close>

inductive cstep ::
  "(string \<Rightarrow> int \<Rightarrow> bool) \<Rightarrow> ((int, chain_op) table \<Rightarrow> (int \<times> chain_op) list) \<Rightarrow> logged list \<Rightarrow> logged list \<Rightarrow> bool"
  for up iter where
  work:
    "traffic ns ms \<Longrightarrow> cstep up iter ns ms"
| fail_inner:
    "name \<noteq> ''nil'' \<Longrightarrow> rl = Mid \<or> xs = [] \<and> rl = Head \<Longrightarrow>
     chain_setup log_app up [] rl name a = (Inr (), a') \<Longrightarrow>
     cstep up iter (xs @ a # b # n # ys) (xs @ a' # n # ys)"
| fail_tail:
    "rl = Tail \<or> xs = [] \<and> rl = Singleton \<Longrightarrow> chain_setup log_app up [] rl ''nil'' a = (Inr (), a') \<Longrightarrow>
     cstep up iter (xs @ [a, b]) (xs @ [a'])"
| fail_head_pair:
    "chain_setup log_app up [] Singleton ''nil'' b = (Inr (), b') \<Longrightarrow> cstep up iter [a, b] [b']"
| fail_head:
    "name \<noteq> ''nil'' \<Longrightarrow> chain_setup log_app up [] Head name b = (Inr (), b') \<Longrightarrow>
     cstep up iter (a # b # n # ys) (b' # n # ys)"
| resend:
    "ys \<noteq> [] \<longrightarrow> k \<le> fetch_seq (hd ys) \<Longrightarrow> log_resend iter k a = (Inr (), a') \<Longrightarrow>
     cstep up iter (xs @ a # ys) (xs @ a' # ys)"

inductive reachable_from ::
  "(string \<Rightarrow> int \<Rightarrow> bool) \<Rightarrow> ((int, chain_op) table \<Rightarrow> (int \<times> chain_op) list) \<Rightarrow> logged list \<Rightarrow> logged list \<Rightarrow> bool"
  for up iter where
  start: "reachable_from up iter ns ns"
| step: "reachable_from up iter ns ms \<Longrightarrow> cstep up iter ms ks \<Longrightarrow> reachable_from up iter ns ks"

section \<open>The invariant\<close>

text \<open>The commands of a log with their sequence numbers.\<close>

definition enum_log :: "string list list \<Rightarrow> (int \<times> string list) list" where
  "enum_log l = map (\<lambda>i. (int (Suc i), l ! i)) [0..<length l]"

definition msg :: "int \<times> chain_op \<Rightarrow> int \<times> string list" where
  "msg p = (server_seq_no (op_seq (snd p)), op_args (snd p))"

definition node_ok :: "logged \<Rightarrow> bool" where
  "node_ok n \<longleftrightarrow>
     chain_seq_no n = int (length (cmds n)) \<and> table_ok (pending n) \<and>
     (\<forall>(k, op) \<in> set (pending n). server_seq_no (op_seq op) = k \<and> 1 \<le> k \<and> k \<le> chain_seq_no n \<and>
        op_args op = cmds n ! nat (k - 1))"

text \<open>
  What is on the connection from \<open>a\<close> to \<open>n\<close> is from the log of \<open>a\<close>. Unless the connection was cut, it ends with a suffix of this log that
  starts no later than where the log of \<open>n\<close> ends, so that nothing is missing.
\<close>

definition supplied :: "logged \<Rightarrow> logged \<Rightarrow> bool" where
  "supplied a n \<longleftrightarrow>
     (\<exists>pre j. j \<le> length (cmds n) \<and> map msg (rc_sent (next_cxn a)) = pre @ drop j (enum_log (cmds a)))"

definition link_ok :: "logged \<Rightarrow> logged \<Rightarrow> bool" where
  "link_ok a n \<longleftrightarrow>
     prefix (cmds n) (cmds a) \<and> rc_client (next_cxn a) \<and> rc_open (next_cxn a) \<and>
     msg ` set (rc_sent (next_cxn a)) \<subseteq> set (enum_log (cmds a)) \<and> (\<not> link_cut a \<longrightarrow> supplied a n)"

definition acks_of :: "logged \<Rightarrow> sequence_id set" where
  "acks_of n = set (ack_queue n) \<union> (\<Union>p \<in> set (rs_sent (prev_cxn n)). set (snd p))"

text \<open>Up to \<open>m\<close> everything is at the tail: only that may be acknowledged, the rest is still pending.\<close>

definition covers :: "int \<Rightarrow> logged \<Rightarrow> bool" where
  "covers m n \<longleftrightarrow>
     (\<forall>k. m < k \<and> k \<le> chain_seq_no n \<longrightarrow> map_of (pending n) k \<noteq> None) \<and>
     (\<forall>seq \<in> acks_of n. server_seq_no seq \<le> m)"

definition head_role :: "chain_role \<Rightarrow> bool" where
  "head_role r \<longleftrightarrow> r = Head \<or> r = Singleton"

definition tail_role :: "chain_role \<Rightarrow> bool" where
  "tail_role r \<longleftrightarrow> r = Tail \<or> r = Singleton"

definition roles_ok :: "chain_role list \<Rightarrow> bool" where
  "roles_ok rs \<longleftrightarrow>
     rs \<noteq> [] \<and> head_role (hd rs) \<and> (\<forall>r \<in> set (tl rs). \<not> head_role r) \<and>
     tail_role (last rs) \<and> (\<forall>r \<in> set (butlast rs). \<not> tail_role r)"

text \<open>No replica but the first takes requests, and exactly the last one talks to the layer below.\<close>

definition roles_fit :: "chain_role list \<Rightarrow> bool" where
  "roles_fit rs \<longleftrightarrow>
     rs \<noteq> [] \<and> (\<forall>r \<in> set (tl rs). \<not> head_role r) \<and> tail_role (last rs) \<and> (\<forall>r \<in> set (butlast rs). \<not> tail_role r)"

lemma roles_ok_fit: "roles_ok rs \<Longrightarrow> roles_fit rs"
  by (simp add: roles_ok_def roles_fit_def)

definition tail_no :: "logged list \<Rightarrow> int" where
  "tail_no ns = chain_seq_no (last ns)"

definition chain_ok :: "logged list \<Rightarrow> bool" where
  "chain_ok ns \<longleftrightarrow>
     roles_fit (map role ns) \<and> successively link_ok ns \<and>
     (\<forall>n \<in> set ns. node_ok n) \<and> (\<forall>n \<in> set ns. covers (tail_no ns) n)"

section \<open>Numbered logs\<close>

lemma length_enum_log [simp]: "length (enum_log l) = length l"
  by (simp add: enum_log_def)

lemma nth_enum_log: "i < length l \<Longrightarrow> enum_log l ! i = (int (Suc i), l ! i)"
  by (simp add: enum_log_def)

lemma enum_log_snoc: "enum_log (l @ [a]) = enum_log l @ [(int (Suc (length l)), a)]"
  by (rule nth_equalityI) (auto simp: nth_enum_log nth_append less_Suc_eq)

lemma drop_enum_log_Cons:
  assumes "x # xs = drop j (enum_log l)"
  shows "j < length l" and "x = (int (Suc j), l ! j)" and "xs = drop (Suc j) (enum_log l)"
proof -
  have "drop j (enum_log l) \<noteq> []" using assms by (metis list.distinct(1))
  then show j: "j < length l" by simp
  then have "drop j (enum_log l) = (int (Suc j), l ! j) # drop (Suc j) (enum_log l)"
    by (simp add: Cons_nth_drop_Suc [symmetric] nth_enum_log)
  with assms show "x = (int (Suc j), l ! j)" "xs = drop (Suc j) (enum_log l)" by simp_all
qed

lemma prefix_nth: "prefix xs ys \<Longrightarrow> i < length xs \<Longrightarrow> xs ! i = ys ! i"
  by (auto simp: prefix_def nth_append)

lemma prefix_snoc_nth:
  "prefix xs ys \<Longrightarrow> length xs < length ys \<Longrightarrow> prefix (xs @ [ys ! length xs]) ys"
  by (auto simp: prefix_def) (metis append_Nil2 hd_drop_conv_nth list.collapse neq_Nil_conv nth_append_length)

section \<open>Facts about one node\<close>

lemma is_head_role: "is_head n = head_role (role n)"
  by (simp add: is_head_def head_role_def)

lemma is_tail_role: "is_tail n = tail_role (role n)"
  by (simp add: is_tail_def tail_role_def)

lemma covers_mono: "m \<le> m' \<Longrightarrow> covers m n \<Longrightarrow> covers m' n"
  by (force simp: covers_def)

lemma link_ok_right: "cmds n' = cmds n \<Longrightarrow> link_ok a n' = link_ok a n"
  by (simp add: link_ok_def supplied_def)

lemma link_ok_left:
  "cmds a' = cmds a \<Longrightarrow> next_cxn a' = next_cxn a \<Longrightarrow> link_cut a' = link_cut a \<Longrightarrow> link_ok a' n = link_ok a n"
  by (simp add: link_ok_def supplied_def)

lemma link_ok_length: "link_ok a n \<Longrightarrow> length (cmds n) \<le> length (cmds a)"
  by (auto simp: link_ok_def dest: prefix_length_le)

text \<open>The fields the invariant of a node looks at.\<close>

lemma node_ok_cong:
  "cmds n' = cmds n \<Longrightarrow> chain_seq_no n' = chain_seq_no n \<Longrightarrow> pending n' = pending n \<Longrightarrow> node_ok n' = node_ok n"
  by (simp add: node_ok_def)

lemma covers_cong:
  "chain_seq_no n' = chain_seq_no n \<Longrightarrow> pending n' = pending n \<Longrightarrow> acks_of n' \<subseteq> acks_of n \<Longrightarrow>
   covers m n \<Longrightarrow> covers m n'"
  by (auto simp: covers_def)

lemma node_ok_fresh: "node_ok n \<Longrightarrow> chain_seq_no n < k \<Longrightarrow> map_of (pending n) k = None"
  by (force simp: node_ok_def map_of_eq_None_iff)

section \<open>Accepting a request\<close>

definition advance :: "sequence_id \<Rightarrow> string list \<Rightarrow> logged \<Rightarrow> logged" where
  "advance seq args n =
     (let t = accepted seq args (n\<lparr>cmds := cmds n @ [args]\<rparr>) in
      if is_tail n then t
      else t\<lparr>next_cxn := (next_cxn n)\<lparr>rc_sent := rc_sent (next_cxn n) @
              [(rc_block_id (next_cxn n), \<lparr>op_seq = seq, op_args = args\<rparr>)]\<rparr>\<rparr>)"

lemma advance_simps [simp]:
  "role (advance seq args n) = role n"
  "chain_seq_no (advance seq args n) = chain_seq_no n + 1"
  "cmds (advance seq args n) = cmds n @ [args]"
  "link_cut (advance seq args n) = link_cut n"
  "prev_cxn (advance seq args n) = prev_cxn n"
  "ack_queue (advance seq args n) = ack_queue n"
  "pending (advance seq args n) =
     tab_insert (server_seq_no seq) \<lparr>op_seq = seq, op_args = args\<rparr> (pending n)"
  by (simp_all add: advance_def Let_def) (simp_all add: accepted_def add_pending_def)

lemma advance_next:
  "\<not> is_tail n \<Longrightarrow> next_cxn (advance seq args n) = (next_cxn n)\<lparr>rc_sent := rc_sent (next_cxn n) @
     [(rc_block_id (next_cxn n), \<lparr>op_seq = seq, op_args = args\<rparr>)]\<rparr>"
  by (simp add: advance_def)

lemma log_request_accepts:
  assumes "in_order n seq" and "is_tail n \<or> rc_client (next_cxn n) \<and> rc_open (next_cxn n)"
  shows "chain_request log_app seq args n = (Inr (), advance (stamped n seq) args n)"
proof -
  have "is_tail (n\<lparr>cmds := c\<rparr>) = is_tail n" for c by (simp add: is_tail_def)
  with assms show ?thesis
    by (auto simp: chain_request_cases in_order_def log_app_def modify_apply ret_apply advance_def
        on_next_def rc_request_open)
qed

lemma advance_node_ok:
  assumes "node_ok n" and "server_seq_no seq = chain_seq_no n + 1"
  shows "node_ok (advance seq args n)"
proof -
  let ?k = "chain_seq_no n + 1" and ?op = "\<lparr>op_seq = seq, op_args = args\<rparr>"
  have len: "chain_seq_no n = int (length (cmds n))" and ok: "table_ok (pending n)"
    and old: "\<And>k op. (k, op) \<in> set (pending n) \<Longrightarrow> server_seq_no (op_seq op) = k \<and> 1 \<le> k \<and>
      k \<le> chain_seq_no n \<and> op_args op = cmds n ! nat (k - 1)"
    using assms(1) by (auto simp: node_ok_def)
  have fresh: "map_of (pending n) ?k = None" using assms(1) by (rule node_ok_fresh) simp
  then have "set (tab_insert ?k ?op (pending n)) = insert (?k, ?op) (set (pending n))"
    by (simp add: tab_insert_fresh)
  moreover have "k \<le> chain_seq_no n + 1 \<and> op_args op = (cmds n @ [args]) ! nat (k - 1)"
    if "(k, op) \<in> set (pending n)" for k op
    using old [OF that] len by (auto simp: nth_append)
  ultimately show ?thesis
    using len ok old assms(2) by (auto simp: node_ok_def)
qed

lemma advance_covers:
  assumes "node_ok n" "server_seq_no seq = chain_seq_no n + 1" "covers m n"
  shows "covers m (advance seq args n)"
  using assms node_ok_fresh [OF assms(1), of "chain_seq_no n + 1"]
  by (auto simp: covers_def acks_of_def map_of_tab_insert)

lemma advance_link_out:
  assumes "link_ok n y" "\<not> is_tail n" "node_ok n" "server_seq_no seq = chain_seq_no n + 1"
  shows "link_ok (advance seq args n) y"
proof -
  have m: "map msg (rc_sent (next_cxn (advance seq args n))) =
      map msg (rc_sent (next_cxn n)) @ [(int (Suc (length (cmds n))), args)]"
    using assms(2-4) by (simp add: advance_next msg_def node_ok_def)
  have "supplied (advance seq args n) y" if "supplied n y"
  proof -
    from that obtain pre j where j: "j \<le> length (cmds y)" "map msg (rc_sent (next_cxn n)) = pre @ drop j (enum_log (cmds n))"
      by (auto simp: supplied_def)
    moreover have "j \<le> length (cmds n)" using j(1) link_ok_length [OF assms(1)] by simp
    ultimately have "map msg (rc_sent (next_cxn (advance seq args n))) = pre @ drop j (enum_log (cmds n @ [args]))"
      unfolding m by (simp add: enum_log_snoc)
    with j(1) show ?thesis by (auto simp: supplied_def)
  qed
  moreover have "msg ` set (rc_sent (next_cxn (advance seq args n))) \<subseteq> set (enum_log (cmds n @ [args]))"
    using assms(1) arg_cong [OF m, of set] by (auto simp: link_ok_def enum_log_snoc)
  ultimately show ?thesis using assms(1,2) by (auto simp: link_ok_def advance_next intro: prefix_prefix)
qed

section \<open>Delivering a request\<close>

lemma reset_prev_simps [simp]:
  "role (reset_prev p n) = role n" "chain_seq_no (reset_prev p n) = chain_seq_no n"
  "next_cxn (reset_prev p n) = next_cxn n" "pending (reset_prev p n) = pending n"
  "ack_queue (reset_prev p n) = ack_queue n" "cmds (reset_prev p n) = cmds n" "link_cut (reset_prev p n) = link_cut n"
  "rs_sent (prev_cxn (reset_prev p n)) = rs_sent (prev_cxn n)"
  by (simp_all add: reset_prev_def rs_reset_prot_def)

lemma reset_prev_same:
  "node_ok (reset_prev p n) = node_ok n" "link_ok (reset_prev p n) y = link_ok n y"
  "covers m (reset_prev p n) = covers m n" "is_tail (reset_prev p n) = is_tail n"
  "is_head (reset_prev p n) = is_head n"
  by (simp_all add: node_ok_def link_ok_def supplied_def covers_def acks_of_def is_tail_def is_head_def)

lemma pop_request_simps [simp]:
  "role (pop_request n) = role n" "chain_seq_no (pop_request n) = chain_seq_no n"
  "pending (pop_request n) = pending n" "ack_queue (pop_request n) = ack_queue n"
  "cmds (pop_request n) = cmds n" "link_cut (pop_request n) = link_cut n" "prev_cxn (pop_request n) = prev_cxn n"
  "rc_client (next_cxn (pop_request n)) = rc_client (next_cxn n)"
  "rc_open (next_cxn (pop_request n)) = rc_open (next_cxn n)"
  "rc_sent (next_cxn (pop_request n)) = tl (rc_sent (next_cxn n))"
  by (simp_all add: pop_request_def)

lemma msg_in_log:
  assumes "link_ok a n" "rc_sent (next_cxn a) = (b, m) # ms"
  obtains i where "i < length (cmds a)" "server_seq_no (op_seq m) = int (Suc i)" "op_args m = cmds a ! i"
proof -
  have "msg (b, m) \<in> set (enum_log (cmds a))" using assms by (auto simp: link_ok_def)
  then show thesis using that by (auto simp: msg_def enum_log_def)
qed

text \<open>Delivering the first request of a connection: the receiver has it or takes it, unless something is missing in front of it.\<close>

lemma link_pop:
  assumes "link_ok a n" "rc_sent (next_cxn a) = (b, m) # ms" "server_seq_no (op_seq m) = int (Suc i)"
    and "prefix (cmds n') (cmds a)" "length (cmds n) \<le> length (cmds n')" "i \<le> length (cmds n) \<Longrightarrow> Suc i \<le> length (cmds n')"
  shows "link_ok (pop_request a) n'"
proof -
  have "supplied (pop_request a) n'" if "supplied a n"
  proof -
    from that obtain pre j where j: "j \<le> length (cmds n)" "msg (b, m) # map msg ms = pre @ drop j (enum_log (cmds a))"
      by (auto simp: supplied_def assms(2))
    show ?thesis
    proof (cases pre)
      case Nil
      note d = drop_enum_log_Cons [of "msg (b, m)" "map msg ms" j "cmds a"]
      from d(2) Nil j(2) assms(3) have "i = j" by (simp add: msg_def)
      with d(3) Nil j assms(2,6) show ?thesis by (auto simp: supplied_def intro!: exI [of _ "[]"] exI [of _ "Suc j"])
    next
      case (Cons x pre')
      with j assms(2,5) show ?thesis by (auto simp: supplied_def intro!: exI [of _ pre'] exI [of _ j])
    qed
  qed
  then show ?thesis using assms(1,2,4) by (auto simp: link_ok_def)
qed

lemma deliver_outcome:
  assumes link: "link_ok a n" and n: "node_ok n" "\<not> is_head n"
    and out: "is_tail n \<or> rc_client (next_cxn n) \<and> rc_open (next_cxn n)"
    and head: "rc_sent (next_cxn a) = (b, m) # ms"
  obtains (same) r n0 where "n0 = n \<or> n0 = reset_prev prot n"
      "handler_chain_request log_app prot (op_seq m) (op_args m) n = (r, n0)" "link_ok (pop_request a) n0"
      "r = Inr () \<longleftrightarrow> server_seq_no (op_seq m) \<le> chain_seq_no n"
    | (new) n0 where "n0 = n \<or> n0 = reset_prev prot n"
      "handler_chain_request log_app prot (op_seq m) (op_args m) n = (Inr (), advance (op_seq m) (op_args m) n0)"
      "server_seq_no (op_seq m) = chain_seq_no n + 1"
      "link_ok (pop_request a) (advance (op_seq m) (op_args m) n0)"
proof -
  define n0 where "n0 = (if is_set_prev n then n else reset_prev prot n)"
  have n0: "n0 = n \<or> n0 = reset_prev prot n" by (simp add: n0_def)
  have f: "role n0 = role n" "chain_seq_no n0 = chain_seq_no n" "next_cxn n0 = next_cxn n" "cmds n0 = cmds n"
    using n0 by auto
  have h: "handler_chain_request log_app prot (op_seq m) (op_args m) n = chain_request log_app (op_seq m) (op_args m) n0"
    by (simp add: handler_chain_request_def cpp_simps n0_def)
  obtain i where i: "i < length (cmds a)" "server_seq_no (op_seq m) = int (Suc i)" "op_args m = cmds a ! i"
    using msg_in_log [OF link head] by blast
  have st: "stamped n0 (op_seq m) = op_seq m"
    using n(2) f by (simp add: stamped_def is_head_role)
  have len: "chain_seq_no n = int (length (cmds n))" using n(1) by (simp add: node_ok_def)
  have pre: "prefix (cmds n) (cmds a)" using link by (simp add: link_ok_def)
  show thesis
  proof (cases "i = length (cmds n)")
    case True
    have "chain_request log_app (op_seq m) (op_args m) n0 = (Inr (), advance (op_seq m) (op_args m) n0)"
      using log_request_accepts [of n0 "op_seq m" "op_args m"] f st i(2) len True out by (simp add: in_order_def is_tail_role)
    moreover have "prefix (cmds n @ [op_args m]) (cmds a)" using prefix_snoc_nth [OF pre] i True by simp
    then have "link_ok (pop_request a) (advance (op_seq m) (op_args m) n0)"
      using f True by (intro link_pop [OF link head i(2)]) simp_all
    ultimately show thesis using new n0 h i(2) len True by simp
  next
    case False
    have "link_ok (pop_request a) n0" using f False pre by (intro link_pop [OF link head i(2)]) simp_all
    moreover have "\<exists>r. chain_request log_app (op_seq m) (op_args m) n0 = (r, n0) \<and> (r = Inr () \<longleftrightarrow> server_seq_no (op_seq m) \<le> chain_seq_no n)"
      using f st i(2) len False by (auto simp: chain_request_cases in_order_def)
    ultimately show thesis using same n0 h by metis
  qed
qed

section \<open>Acknowledgements\<close>

text \<open>\<open>acked m n n'\<close>: from \<open>n\<close> to \<open>n'\<close> only acknowledgements of numbers up to \<open>m\<close> were processed.\<close>

definition acked :: "int \<Rightarrow> logged \<Rightarrow> logged \<Rightarrow> bool" where
  "acked m n n' \<longleftrightarrow>
     cmds n' = cmds n \<and> link_cut n' = link_cut n \<and> chain_seq_no n' = chain_seq_no n \<and> role n' = role n \<and> next_cxn n' = next_cxn n \<and>
     (node_ok n \<longrightarrow> node_ok n') \<and> (covers m n \<longrightarrow> covers m n')"

lemma acked_refl [simp]: "acked m n n"
  by (simp add: acked_def)

lemma acked_trans: "acked m a b \<Longrightarrow> acked m b c \<Longrightarrow> acked m a c"
  by (simp add: acked_def)

lemma remove_pending_acked:
  assumes "server_seq_no seq \<le> m"
  shows "acked m n (remove_pending seq n)"
proof -
  have p: "pending (remove_pending seq n) = tab_erase (server_seq_no seq) (pending n)"
    by (simp add: remove_pending_def)
  have f: "cmds (remove_pending seq n) = cmds n" "link_cut (remove_pending seq n) = link_cut n" "chain_seq_no (remove_pending seq n) = chain_seq_no n"
    "acks_of (remove_pending seq n) = acks_of n" "role (remove_pending seq n) = role n"
    "next_cxn (remove_pending seq n) = next_cxn n"
    by (simp_all add: remove_pending_def acks_of_def)
  have "node_ok n \<longrightarrow> node_ok (remove_pending seq n)"
    by (auto simp: node_ok_def p f set_tab_erase)
  moreover have "covers m n \<longrightarrow> covers m (remove_pending seq n)"
    using assms by (auto simp: covers_def p f)
  ultimately show ?thesis by (simp add: acked_def f)
qed

lemma queue_acked:
  assumes "acks_of n' \<subseteq> insert seq (acks_of n)" "server_seq_no seq \<le> m"
    and "cmds n' = cmds n" "link_cut n' = link_cut n" "chain_seq_no n' = chain_seq_no n" "role n' = role n" "next_cxn n' = next_cxn n"
    "pending n' = pending n"
  shows "acked m n n'"
  using assms by (auto simp: acked_def node_ok_def covers_def)

lemma ack_acked:
  assumes "server_seq_no seq \<le> m" and "ack log_app seq n = (r, n')"
  shows "acked m n n'"
proof -
  let ?n1 = "remove_pending seq n"
  let ?n2 = "?n1\<lparr>ack_queue := ack_queue ?n1 @ [seq]\<rparr>"
  have one: "acked m n ?n1" using assms(1) by (rule remove_pending_acked)
  have q2: "acks_of ?n2 \<subseteq> insert seq (acks_of ?n1)" by (auto simp: acks_of_def)
  have two: "acked m ?n1 ?n2" using assms(1) q2 by (intro queue_acked) simp_all
  have three: "acked m ?n1 (snd (flush_acks ?n2))"
    using assms(1)
    by (intro queue_acked)
      (auto simp: flush_acks_def cpp_simps on_prev_def rs_ack_batch_def acks_of_def split: option.splits)
  have "n' = ?n1 \<or> n' = ?n2 \<or> n' = snd (flush_acks ?n2)"
    using assms(2) by (auto simp: ack_def log_app_def cpp_simps split: if_splits)
  with one two three show ?thesis by (auto intro: acked_trans)
qed

lemma ack_batch_acked:
  assumes "\<forall>seq \<in> set seqs. server_seq_no seq \<le> m" and "ack_batch log_app seqs n = (r, n')"
  shows "acked m n n'"
  using assms unfolding ack_batch_def
proof (induction seqs arbitrary: n)
  case Nil
  then show ?case by (simp add: ret_apply)
next
  case (Cons q seqs)
  obtain r1 n1 where one: "ack log_app q n = (r1, n1)" by fastforce
  with Cons.prems have "acked m n n1" by (auto intro: ack_acked)
  moreover have "acked m n1 n'"
  proof (cases r1)
    case Inl
    with Cons.prems one have "n' = n1" by (simp add: for_each_Cons del: for_each.simps)
    then show ?thesis by simp
  next
    case Inr
    with Cons.prems one have "for_each seqs (ack log_app) n1 = (r, n')"
      by (simp add: for_each_Cons del: for_each.simps)
    with Cons show ?thesis by simp
  qed
  ultimately show ?case by (rule acked_trans)
qed

lemma pop_ack_acked: "acked m n (pop_ack n)"
proof -
  have "set (tl ps) \<subseteq> set ps" for ps :: "'b list" by (cases ps) auto
  then have "acks_of (pop_ack n) \<subseteq> acks_of n" by (force simp: acks_of_def pop_ack_def)
  then show ?thesis by (auto simp: acked_def pop_ack_def node_ok_def covers_def)
qed

section \<open>Reconfiguration\<close>

definition setup_ok :: "logged \<Rightarrow> chain_role \<Rightarrow> logged \<Rightarrow> bool" where
  "setup_ok n r n' \<longleftrightarrow>
     role n' = r \<and> cmds n' = cmds n \<and> link_cut n' = (cmds n \<noteq> []) \<and> chain_seq_no n' = chain_seq_no n \<and> pending n' = pending n \<and>
     ack_queue n' = ack_queue n \<and> prev_cxn n' = prev_cxn n"

lemma setup_frame:
  assumes "chain_setup log_app up [] r name n = (Inr (), n')"
  shows "setup_ok n r n'"
  using assms
  by (auto simp: chain_setup_def cpp_simps on_next_def log_app_def setup_ok_def
      split: prod.splits sum.splits if_splits)

lemma setup_connects:
  assumes "chain_setup log_app up [] r name n = (Inr (), n')" and "name \<noteq> ''nil''"
  shows "rc_client (next_cxn n') \<and> rc_open (next_cxn n') \<and> rc_sent (next_cxn n') = []"
  using assms
  by (auto simp: chain_setup_def cpp_simps on_next_def log_app_def next_reset_def rc_connect_def
      split: prod.splits sum.splits if_splits)

lemma setup_ok_same:
  assumes "setup_ok n r n'"
  shows "node_ok n' = node_ok n" "covers m n' = covers m n" "link_ok a n' = link_ok a n"
  using assms by (simp_all add: setup_ok_def node_ok_def covers_def acks_of_def link_ok_def supplied_def)

text \<open>
  The pending table holds every command the successor lacks, so that what is resent is the rest of
  the log behind the successor's sequence number.
\<close>

lemma resend_list_log:
  assumes "node_ok n" "iter_ok iter" "0 \<le> k"
    and "\<And>i. k < i \<Longrightarrow> i \<le> chain_seq_no n \<Longrightarrow> map_of (pending n) i \<noteq> None"
  shows "map (\<lambda>p. msg (b, snd p)) (resend_list iter k (pending n)) = drop (nat k) (enum_log (cmds n))"
proof -
  let ?ps = "sort_key fst (filter (\<lambda>p. k < fst p) (pending n))"
  let ?g = "\<lambda>i. (i, cmds n ! nat (i - 1))"
  have ok: "table_ok (pending n)" and len: "chain_seq_no n = int (length (cmds n))"
    and ent: "\<And>i op. (i, op) \<in> set (pending n) \<Longrightarrow> server_seq_no (op_seq op) = i \<and> i \<le> chain_seq_no n \<and>
      op_args op = cmds n ! nat (i - 1)"
    using assms(1) by (auto simp: node_ok_def)
  have "fst ` {p \<in> set (pending n). k < fst p} = {k + 1..chain_seq_no n}"
  proof
    show "fst ` {p \<in> set (pending n). k < fst p} \<subseteq> {k + 1..chain_seq_no n}" using ent by fastforce
    show "{k + 1..chain_seq_no n} \<subseteq> fst ` {p \<in> set (pending n). k < fst p}"
    proof
      fix i assume i: "i \<in> {k + 1..chain_seq_no n}"
      then obtain op where "map_of (pending n) i = Some op" using assms(4) [of i] by auto
      then have "(i, op) \<in> set (pending n)" by (rule map_of_SomeD)
      with i show "i \<in> fst ` {p \<in> set (pending n). k < fst p}" by force
    qed
  qed
  moreover have "distinct (map fst ?ps)"
    using ok by (simp add: table_ok_def distinct_map inj_on_def)
  ultimately have keys: "map fst ?ps = [k + 1..chain_seq_no n]"
    by (intro sorted_distinct_set_unique) simp_all
  have "map (\<lambda>p. msg (b, snd p)) ?ps = map ?g (map fst ?ps)"
    using ent by (auto simp: msg_def)
  also have "\<dots> = drop (nat k) (enum_log (cmds n))"
    unfolding keys
    by (rule nth_equalityI) (use assms(3) len in \<open>auto simp: nth_enum_log nat_add_distrib\<close>)
  finally show ?thesis using resend_list_iter [OF assms(2) ok] by simp
qed

section \<open>Every step keeps the invariant\<close>

lemma chain_okD:
  assumes "chain_ok ns"
  shows "roles_fit (map role ns)" "successively link_ok ns" "n \<in> set ns \<Longrightarrow> node_ok n"
    "n \<in> set ns \<Longrightarrow> covers (tail_no ns) n"
  using assms by (auto simp: chain_ok_def)

text \<open>Replacing the end of a chain, starting with a node whose log does not change (or with the head).\<close>

lemma chain_ok_replace:
  assumes "chain_ok (xs @ zs)" "zs \<noteq> []" "zs' \<noteq> []" "roles_fit (map role (xs @ zs'))"
    and "successively link_ok zs'" "xs = [] \<or> cmds (hd zs') = cmds (hd zs)"
    and "\<And>n. n \<in> set zs' \<Longrightarrow> node_ok n" "\<And>n. n \<in> set zs' \<Longrightarrow> covers (tail_no zs') n"
    and "tail_no zs \<le> tail_no zs'"
  shows "chain_ok (xs @ zs')"
proof -
  have tn: "tail_no (xs @ zs) = tail_no zs" "tail_no (xs @ zs') = tail_no zs'"
    using assms(2,3) by (simp_all add: tail_no_def)
  have xz: "successively link_ok xs" "xs = [] \<or> link_ok (last xs) (hd zs)"
    using chain_okD(2) [OF assms(1)] assms(2) by (auto simp: successively_append_iff)
  have "xs = [] \<or> link_ok (last xs) (hd zs')"
    using xz(2) assms(6) link_ok_right by blast
  then have "successively link_ok (xs @ zs')"
    using xz(1) assms(5) by (auto simp: successively_append_iff)
  moreover have "covers (tail_no zs') n" if "n \<in> set xs" for n
    using assms(1,9) that tn covers_mono by (auto simp: chain_ok_def)
  ultimately show ?thesis
    using assms(1,4,7,8) tn by (auto simp: chain_ok_def)
qed

lemma tail_no_Cons: "ys \<noteq> [] \<Longrightarrow> tail_no (n # ys) = tail_no ys"
  by (simp add: tail_no_def)

lemma tail_no_single [simp]: "tail_no [n] = chain_seq_no n"
  by (simp add: tail_no_def)

lemma open_or_tail:
  assumes "chain_ok (xs @ n # ys)"
  shows "is_tail n \<or> rc_client (next_cxn n) \<and> rc_open (next_cxn n)"
proof (cases ys)
  case Nil
  then show ?thesis using assms by (simp add: chain_ok_def roles_fit_def is_tail_role)
next
  case (Cons y zs)
  then show ?thesis using assms by (auto simp: chain_ok_def successively_append_iff link_ok_def)
qed

lemma tail_iff_last:
  assumes "chain_ok (xs @ n # ys)"
  shows "is_tail n \<longleftrightarrow> ys = []"
  using assms by (cases ys) (auto simp: chain_ok_def roles_fit_def is_tail_role butlast_append)

text \<open>A node in the chain accepts the next command: first the nodes from it on.\<close>

lemma advance_rest:
  fixes args :: "string list"
  assumes ok: "chain_ok (xs @ n # ys)" and num: "server_seq_no seq = chain_seq_no n0 + 1"
    and n0: "n0 = n \<or> n0 = reset_prev prot n"
  defines "zs \<equiv> advance seq args n0 # ys"
  shows "successively link_ok zs" "map role zs = map role (n # ys)" "tail_no (n # ys) \<le> tail_no zs"
    "\<And>k. k \<in> set zs \<Longrightarrow> node_ok k" "\<And>k. k \<in> set zs \<Longrightarrow> covers (tail_no zs) k"
proof -
  have r0: "role n0 = role n" "chain_seq_no n0 = chain_seq_no n" using n0 by auto
  have tn: "tail_no (xs @ n # ys) = tail_no (n # ys)" by (simp add: tail_no_def)
  have n: "node_ok n0" "covers (tail_no (n # ys)) n0"
    using chain_okD(3,4) [OF ok, of n] n0 by (auto simp: reset_prev_same tn)
  show "map role zs = map role (n # ys)" by (simp add: zs_def r0)
  show t: "tail_no (n # ys) \<le> tail_no zs" by (simp add: zs_def tail_no_def r0)
  show "\<And>k. k \<in> set zs \<Longrightarrow> node_ok k"
    using advance_node_ok [OF n(1) num] chain_okD(3) [OF ok] by (auto simp: zs_def)
  show "\<And>k. k \<in> set zs \<Longrightarrow> covers (tail_no zs) k"
    using covers_mono [OF t] advance_covers [OF n(1) num n(2)] chain_okD(4) [OF ok] tn by (auto simp: zs_def)
  show "successively link_ok zs"
  proof (cases ys)
    case Nil
    then show ?thesis by (simp add: zs_def)
  next
    case (Cons y us)
    have "successively link_ok (n # y # us)" using chain_okD(2) [OF ok] Cons by (auto simp: successively_append_iff)
    then have "link_ok n0 y" "successively link_ok (y # us)" using n0 by (auto simp: reset_prev_same)
    moreover have "\<not> is_tail n0" using tail_iff_last [OF ok] Cons r0 by (simp add: is_tail_role)
    ultimately show ?thesis using advance_link_out n(1) num Cons by (simp add: zs_def)
  qed
qed

lemma submit_head:
  assumes "chain_ok (h # ns)" "is_head h"
  shows "chain_request log_app seq args h = (Inr (), advance (stamped h seq) args h)"
  using in_order_head [OF assms(2)] open_or_tail [of "[]" h ns] assms(1) by (intro log_request_accepts) simp_all

lemma submit_outcome:
  assumes "chain_ok (h # ns)" "chain_request log_app seq args h = (r, h')"
  shows "h' = h \<or> in_order h seq \<and> h' = advance (stamped h seq) args h"
proof (cases "in_order h seq")
  case True
  then show ?thesis using log_request_accepts [OF True, of args] open_or_tail [of "[]" h ns] assms by simp
next
  case False
  then show ?thesis using assms(2) by (auto simp: chain_request_cases split: if_splits)
qed

lemma submit_keeps:
  assumes "chain_ok (h # ns)" "chain_request log_app seq args h = (r, h')"
  shows "chain_ok (h' # ns)" "prefix (cmds h) (cmds h')"
proof -
  have "chain_ok (h' # ns) \<and> prefix (cmds h) (cmds h')"
    using submit_outcome [OF assms]
  proof
    assume s: "in_order h seq \<and> h' = advance (stamped h seq) args h"
    then have num: "server_seq_no (stamped h seq) = chain_seq_no h + 1" by (simp add: in_order_def)
    note adv = advance_rest [of "[]" h ns, simplified, OF assms(1) num]
    show ?thesis
      using chain_ok_replace [of "[]" "h # ns" "advance (stamped h seq) args h # ns"] assms adv s
        chain_okD(1) [OF assms(1)] by simp
  qed (use assms(1) in simp)
  then show "chain_ok (h' # ns)" "prefix (cmds h) (cmds h')" by auto
qed

lemma deliver_keeps:
  assumes ok: "chain_ok (xs @ a # n # ys)" and head: "rc_sent (next_cxn a) = (b, m) # ms"
  shows "\<exists>r n'. handler_chain_request log_app prot (op_seq m) (op_args m) n = (r, n') \<and>
           chain_ok (xs @ pop_request a # n' # ys) \<and> prefix (cmds n) (cmds n')"
proof -
  have ok': "chain_ok ((xs @ [a]) @ n # ys)" using ok by simp
  have link: "link_ok a n" "successively link_ok (n # ys)" using chain_okD(2) [OF ok] by (auto simp: successively_append_iff)
  have a: "node_ok a" "covers (tail_no (n # ys)) a" and n: "node_ok n" "covers (tail_no (n # ys)) n"
    and ys: "\<And>k. k \<in> set ys \<Longrightarrow> node_ok k \<and> covers (tail_no (n # ys)) k"
    using ok by (auto simp: chain_ok_def tail_no_def)
  have pa: "node_ok (pop_request a)" "\<And>m. covers m a \<Longrightarrow> covers m (pop_request a)"
    using a(1) node_ok_cong [of "pop_request a" a] covers_cong [of "pop_request a" a] by (simp_all add: acks_of_def)
  have nh: "\<not> is_head n" using chain_okD(1) [OF ok] by (cases xs) (auto simp: roles_fit_def is_head_role)
  have tn: "tail_no (a # n # ys) = tail_no (n # ys)" "\<And>z. tail_no (pop_request a # z # ys) = tail_no (z # ys)"
    by (simp_all add: tail_no_Cons)
  show ?thesis
  proof (cases rule: deliver_outcome
      [OF link(1) n(1) nh open_or_tail [OF ok'] head, of prot, case_names same new])
    case (same r n0)
    have r: "role n0 = role n" "cmds n0 = cmds n" "chain_seq_no n0 = chain_seq_no n"
      "node_ok n0" "\<And>m. covers m n \<Longrightarrow> covers m n0" "\<And>y. link_ok n0 y = link_ok n y"
      using same(1) n by (auto simp: reset_prev_same)
    have "successively link_ok (n0 # ys)" using link(2) r(6) by (cases ys) auto
    moreover have "tail_no (n0 # ys) = tail_no (n # ys)" by (simp add: tail_no_def r)
    ultimately have "chain_ok (xs @ pop_request a # n0 # ys)"
      using chain_okD(1) [OF ok] same(3) r pa a n ys tn
      by (intro chain_ok_replace [OF ok]) auto
    with same(2) r show ?thesis by auto
  next
    case (new n0)
    have num: "server_seq_no (op_seq m) = chain_seq_no n0 + 1" using new(1,3) by auto
    note adv = advance_rest [OF ok' num new(1), where args = "op_args m"]
    let ?z = "advance (op_seq m) (op_args m) n0"
    have "chain_ok (xs @ pop_request a # ?z # ys)"
    proof (rule chain_ok_replace [OF ok])
      show "roles_fit (map role (xs @ pop_request a # ?z # ys))" using chain_okD(1) [OF ok] adv(2) by simp
      show "successively link_ok (pop_request a # ?z # ys)" using new(4) adv(1) by simp
      show "tail_no (a # n # ys) \<le> tail_no (pop_request a # ?z # ys)" using adv(3) tn by simp
      show "\<And>k. k \<in> set (pop_request a # ?z # ys) \<Longrightarrow> node_ok k" using pa adv(4) by auto
      show "covers (tail_no (pop_request a # ?z # ys)) k" if "k \<in> set (pop_request a # ?z # ys)" for k
        using that adv(5) pa(2) covers_mono [OF adv(3) a(2)] tn by auto
    qed simp_all
    moreover have "cmds n0 = cmds n" using new(1) by auto
    ultimately show ?thesis using new(2) by auto
  qed
qed

lemma acked_keeps:
  assumes ok: "chain_ok (xs @ n # ys)" and "acked (tail_no (xs @ n # ys)) n n'"
  shows "chain_ok (xs @ n' # ys)" and "tail_no (xs @ n' # ys) = tail_no (xs @ n # ys)"
proof -
  have r: "cmds n' = cmds n" "link_cut n' = link_cut n" "chain_seq_no n' = chain_seq_no n" "role n' = role n" "next_cxn n' = next_cxn n"
    "node_ok n'" "covers (tail_no (xs @ n # ys)) n'"
    using assms chain_okD(3,4) [OF ok, of n] by (auto simp: acked_def)
  show tn: "tail_no (xs @ n' # ys) = tail_no (xs @ n # ys)" by (simp add: tail_no_def r)
  have "successively link_ok (n # ys)" using chain_okD(2) [OF ok] by (simp add: successively_append_iff)
  then have "successively link_ok (n' # ys)" using link_ok_left [OF r(1,5,2)] by (cases ys) simp_all
  then show "chain_ok (xs @ n' # ys)"
    using chain_okD(1,3,4) [OF ok] r tn
    by (intro chain_ok_replace [OF ok]) (auto simp: tail_no_def)
qed

lemma deliver_ack_keeps:
  assumes ok: "chain_ok (xs @ a # n # ys)" and q: "rs_sent (prev_cxn n) = (p, seqs) # ps"
    and b: "ack_batch log_app seqs a = (r, a')"
  shows "chain_ok (xs @ a' # pop_ack n # ys)"
proof -
  let ?m = "tail_no (xs @ a # n # ys)"
  have "\<forall>seq \<in> set seqs. server_seq_no seq \<le> ?m"
    using chain_okD(4) [OF ok, of n] q by (auto simp: covers_def acks_of_def)
  then have a: "acked ?m a a'" using b by (rule ack_batch_acked)
  have one: "chain_ok (xs @ a' # n # ys)" using ok a by (rule acked_keeps)
  then show ?thesis
    using acked_keeps(1) [of "xs @ [a']" n ys] pop_ack_acked by simp
qed

lemma links_prefix:
  "successively link_ok ns \<Longrightarrow> k \<in> set ns \<Longrightarrow>
     prefix (cmds (last ns)) (cmds k) \<and> prefix (cmds k) (cmds (hd ns))"
proof (induction ns arbitrary: k)
  case Nil
  then show ?case by simp
next
  case (Cons n ns)
  show ?case
  proof (cases ns)
    case Nil
    with Cons.prems show ?thesis by simp
  next
    case (Cons y us)
    with Cons.prems have l: "prefix (cmds y) (cmds n)" "successively link_ok ns" by (auto simp: link_ok_def)
    have y: "prefix (cmds (last ns)) (cmds y)" using Cons.IH [OF l(2), of y] Cons by simp
    show ?thesis
    proof (cases "k = n")
      case True
      with l y Cons show ?thesis by (auto intro: prefix_order.trans)
    next
      case False
      with Cons.prems Cons.IH [OF l(2), of k] Cons l(1) show ?thesis by (auto intro: prefix_order.trans)
    qed
  qed
qed

lemma roles_drop_inner:
  "roles_fit (rs @ x # y # z # zs) \<Longrightarrow> rl = Mid \<or> rs = [] \<and> rl = Head \<Longrightarrow> roles_fit (rs @ rl # z # zs)"
  by (cases rs) (auto simp: roles_fit_def head_role_def tail_role_def butlast_append split: if_splits)

lemma roles_drop_tail:
  "roles_fit (rs @ [x, y]) \<Longrightarrow> rl = Tail \<or> rs = [] \<and> rl = Singleton \<Longrightarrow> roles_fit (rs @ [rl])"
  by (cases rs) (auto simp: roles_fit_def head_role_def tail_role_def butlast_append split: if_splits)

lemma roles_drop_head: "roles_fit (x # y # z # zs) \<Longrightarrow> roles_fit (Head # z # zs)"
  by (auto simp: roles_fit_def head_role_def tail_role_def split: if_splits)

text \<open>A new connection is empty: it is cut, or there is nothing that it would have to carry.\<close>

lemma setup_link:
  assumes "chain_setup log_app up [] r name a = (Inr (), a')" "name \<noteq> ''nil''" "prefix (cmds n) (cmds a)"
  shows "link_ok a' n"
  using setup_frame [OF assms(1)] setup_connects [OF assms(1,2)] assms(3)
  by (auto simp: link_ok_def supplied_def setup_ok_def enum_log_def)

lemma fail_inner_keeps:
  assumes ok: "chain_ok (xs @ a # b # n # ys)" and name: "name \<noteq> ''nil''" and rl: "rl = Mid \<or> xs = [] \<and> rl = Head"
    and s: "chain_setup log_app up [] rl name a = (Inr (), a')"
  shows "chain_ok (xs @ a' # n # ys)"
proof -
  note f = setup_frame [OF s, unfolded setup_ok_def] and ok1 = setup_ok_same [OF setup_frame [OF s]]
  have links: "link_ok a b" "link_ok b n" "successively link_ok (n # ys)"
    using chain_okD(2) [OF ok] by (auto simp: successively_append_iff)
  then have "prefix (cmds n) (cmds a)" by (auto simp: link_ok_def intro: prefix_order.trans)
  then have "link_ok a' n" by (rule setup_link [OF s name])
  moreover have "roles_fit (map role (xs @ a' # n # ys))"
    using roles_drop_inner [of "map role xs" "role a" "role b" "role n" "map role ys" rl] chain_okD(1) [OF ok] f rl by simp
  moreover have "\<And>k. k \<in> set (a # n # ys) \<Longrightarrow> node_ok k \<and> covers (tail_no (n # ys)) k"
    using ok by (auto simp: chain_ok_def tail_no_def)
  ultimately show ?thesis
    using links(3) f ok1 by (intro chain_ok_replace [OF ok]) (auto simp: tail_no_Cons)
qed

lemma fail_tail_keeps:
  assumes ok: "chain_ok (xs @ [a, b])" and rl: "rl = Tail \<or> xs = [] \<and> rl = Singleton"
    and s: "chain_setup log_app up [] rl ''nil'' a = (Inr (), a')"
  shows "chain_ok (xs @ [a'])"
proof -
  note f = setup_frame [OF s, unfolded setup_ok_def] and ok1 = setup_ok_same [OF setup_frame [OF s]]
  have links: "link_ok a b" using chain_okD(2) [OF ok] by (simp add: successively_append_iff)
  have na: "node_ok a" "node_ok b" "covers (chain_seq_no b) a" using ok by (auto simp: chain_ok_def tail_no_def)
  have le: "chain_seq_no b \<le> chain_seq_no a'" using link_ok_length [OF links] na(1,2) f by (simp add: node_ok_def)
  show "chain_ok (xs @ [a'])"
  proof (rule chain_ok_replace [OF ok])
    show "roles_fit (map role (xs @ [a']))"
      using roles_drop_tail [of "map role xs" "role a" "role b" rl] chain_okD(1) [OF ok] f rl by simp
    show "\<And>k. k \<in> set [a'] \<Longrightarrow> covers (tail_no [a']) k" using covers_mono [OF le na(3)] ok1 by simp
  qed (use na ok1 f le in \<open>auto simp: tail_no_def\<close>)
qed

lemma fail_head_keeps:
  assumes ok: "chain_ok (a # b # n # ys)" and name: "name \<noteq> ''nil''"
    and s: "chain_setup log_app up [] Head name b = (Inr (), b')"
  shows "chain_ok (b' # n # ys)"
proof -
  note f = setup_frame [OF s, unfolded setup_ok_def] and ok1 = setup_ok_same [OF setup_frame [OF s]]
  have "link_ok b n" and rest: "successively link_ok (n # ys)" using chain_okD(2) [OF ok] by auto
  then have "link_ok b' n" by (intro setup_link [OF s name]) (simp add: link_ok_def)
  moreover have "roles_fit (map role (b' # n # ys))"
    using roles_drop_head [of "role a" "role b"] chain_okD(1) [OF ok] f by simp
  moreover have "node_ok k \<and> covers (tail_no (b' # n # ys)) k" if "k \<in> set (b' # n # ys)" for k
    using that ok ok1 by (auto simp: chain_ok_def tail_no_def)
  ultimately show "chain_ok (b' # n # ys)" using rest by (simp add: chain_ok_def)
qed

lemma fail_head_pair_keeps:
  assumes ok: "chain_ok [a, b]" and s: "chain_setup log_app up [] Singleton ''nil'' b = (Inr (), b')"
  shows "chain_ok [b']"
  using setup_frame [OF s] setup_ok_same [OF setup_frame [OF s]] ok
  by (auto simp: chain_ok_def setup_ok_def roles_fit_def head_role_def tail_role_def tail_no_def)

lemma resend_tail_noop:
  assumes "is_tail n"
  shows "resend_pending log_app iter k n = (Inr (), n)"
proof -
  have "for_each ps (\<lambda>(k :: int, op). bnd (gets is_tail) (\<lambda>t.
      if t then replication_complete log_app (op_seq op) (op_args op)
      else on_next (rc_request (op_seq op) (op_args op)))) n = (Inr (), n)" for ps
    using assms by (induction ps) (auto simp: for_each_Cons cpp_simps log_app_def simp del: for_each.simps(2))
  then show ?thesis by (simp add: resend_pending_def bnd_apply gets_apply)
qed

lemma tail_no_le:
  assumes "chain_ok (xs @ n # ys)"
  shows "tail_no (xs @ n # ys) \<le> chain_seq_no n"
proof -
  have "successively link_ok (n # ys)" using chain_okD(2) [OF assms] by (simp add: successively_append_iff)
  then have "length (cmds (last (n # ys))) \<le> length (cmds n)"
    using links_prefix [of "n # ys" n] by (auto dest: prefix_length_le)
  moreover have "node_ok (last (n # ys))" "node_ok n" using assms by (auto simp: chain_ok_def)
  ultimately show ?thesis by (simp add: tail_no_def node_ok_def)
qed

text \<open>What is resent behind a number \<open>k\<close> ends with everything behind any later number from which on all is pending.\<close>

lemma sorted_split:
  "sorted (map f xs) \<Longrightarrow> xs = filter (\<lambda>x. f x \<le> m) xs @ filter (\<lambda>x. m < f x) xs"
proof (induction xs)
  case (Cons x xs)
  show ?case
  proof (cases "f x \<le> m")
    case False
    then have "filter (\<lambda>x. f x \<le> m) xs = []" "filter (\<lambda>x. m < f x) xs = xs"
      using Cons.prems by (force simp: filter_empty_conv filter_id_conv)+
    with False show ?thesis by simp
  qed (use Cons in auto)
qed simp

lemma resend_list_split:
  assumes "iter_ok iter" "table_ok t" "k \<le> m"
  shows "\<exists>pre. resend_list iter k t = pre @ resend_list iter m t \<and> set pre \<subseteq> set t"
proof -
  let ?l = "sort_key fst (filter (\<lambda>p. k < fst p) t)"
  have "filter (\<lambda>p. m < fst p) ?l = sort_key fst (filter (\<lambda>p. m < fst p) t)"
    using assms(3) by (simp add: filter_sort) (metis (mono_tags, lifting) filter_cong order_le_less_trans)
  moreover have "?l = filter (\<lambda>p. fst p \<le> m) ?l @ filter (\<lambda>p. m < fst p) ?l" by (rule sorted_split) simp
  moreover have "set (filter (\<lambda>p. fst p \<le> m) ?l) \<subseteq> set t" by auto
  ultimately show ?thesis using resend_list_iter [OF assms(1,2)] by metis
qed

lemma pending_in_log:
  assumes "node_ok n" "p \<in> set (pending n)"
  shows "msg (b, snd p) \<in> set (enum_log (cmds n))"
proof -
  obtain k op where p: "p = (k, op)" by (cases p)
  have "server_seq_no (op_seq op) = k" "1 \<le> k" "k \<le> int (length (cmds n))" "op_args op = cmds n ! nat (k - 1)"
    using assms by (auto simp: node_ok_def p)
  then show ?thesis by (auto simp: p msg_def enum_log_def intro!: image_eqI [of _ _ "nat (k - 1)"])
qed

text \<open>After \<^verbatim>\<open>resend_pending\<close> nothing is missing on a connection, whatever was lost on it before.\<close>

lemma resend_link:
  assumes "node_ok a" "node_ok n" "link_ok a n" "\<not> is_tail a" "iter_ok iter" "covers m a" "m \<le> chain_seq_no n" "0 \<le> m"
    and "k \<le> fetch_seq n" "log_resend iter k a = (Inr (), a')"
  shows "link_ok a' n"
proof -
  let ?c = "next_cxn a" and ?m = "max k m"
  let ?f = "\<lambda>p. (rc_block_id ?c, snd p)"
  have a': "a' = a\<lparr>next_cxn := ?c\<lparr>rc_sent := rc_sent ?c @ map ?f (resend_list iter k (pending a))\<rparr>, link_cut := False\<rparr>"
    using assms(10) resend_pending_sends [OF assms(4), of log_app iter k] assms(3)
    by (simp add: log_resend_def seqM_apply modify_apply link_ok_def)
  have t: "table_ok (pending a)" using assms(1) by (simp add: node_ok_def)
  obtain pre where pre: "resend_list iter k (pending a) = pre @ resend_list iter ?m (pending a)" "set pre \<subseteq> set (pending a)"
    using resend_list_split [OF assms(5) t, of k ?m] by auto
  have rest: "map (\<lambda>p. msg (rc_block_id ?c, snd p)) (resend_list iter ?m (pending a)) = drop (nat ?m) (enum_log (cmds a))"
    using assms(6,8) by (intro resend_list_log [OF assms(1,5)]) (auto simp: covers_def)
  have le: "nat ?m \<le> length (cmds n)" using assms(2,7,9) by (auto simp: node_ok_def fetch_seq_def)
  have sent: "map msg (rc_sent (next_cxn a')) = (map msg (rc_sent ?c) @ map (msg \<circ> ?f) pre) @ drop (nat ?m) (enum_log (cmds a))"
    using rest by (simp add: a' pre(1) comp_def)
  have "(msg \<circ> ?f) ` set pre \<subseteq> set (enum_log (cmds a))" using pre(2) pending_in_log [OF assms(1)] by auto
  moreover have "msg ` set (rc_sent ?c) \<subseteq> set (enum_log (cmds a))" using assms(3) by (simp add: link_ok_def)
  ultimately have "msg ` set (rc_sent (next_cxn a')) \<subseteq> set (enum_log (cmds a))"
    using arg_cong [OF sent, of set] set_drop_subset [of "nat ?m" "enum_log (cmds a)"] by auto
  moreover have "cmds a' = cmds a" "rc_client (next_cxn a') = rc_client ?c" "rc_open (next_cxn a') = rc_open ?c" by (simp_all add: a')
  moreover have "supplied a' n" unfolding supplied_def using sent le \<open>cmds a' = cmds a\<close> by metis
  ultimately show ?thesis using assms(3) by (simp add: link_ok_def)
qed

lemma resend_frame:
  assumes "chain_ok (xs @ a # ys)" "log_resend iter k a = (Inr (), a')"
  shows "cmds a' = cmds a" "role a' = role a" "chain_seq_no a' = chain_seq_no a" "\<not> link_cut a'" "node_ok a' = node_ok a" "covers m a' = covers m a"
proof -
  have "a' = a\<lparr>next_cxn := next_cxn a', link_cut := False\<rparr>"
    using assms(2) resend_tail_noop [of a] resend_pending_sends [of a log_app iter k] open_or_tail [OF assms(1)]
    by (cases "is_tail a") (auto simp: log_resend_def seqM_apply modify_apply)
  then obtain c where a': "a' = a\<lparr>next_cxn := c, link_cut := False\<rparr>" by blast
  show "cmds a' = cmds a" "role a' = role a" "chain_seq_no a' = chain_seq_no a" "\<not> link_cut a'" "node_ok a' = node_ok a" "covers m a' = covers m a"
    by (simp_all add: a' node_ok_def covers_def acks_of_def)
qed

lemma resend_keeps:
  assumes ok: "chain_ok (xs @ a # ys)" and it: "iter_ok iter"
    and k: "ys \<noteq> [] \<longrightarrow> k \<le> fetch_seq (hd ys)" and re: "log_resend iter k a = (Inr (), a')"
  shows "chain_ok (xs @ a' # ys)"
proof -
  note f = resend_frame [OF ok re]
  have tn: "tail_no (xs @ a # ys) = tail_no (a' # ys)" by (simp add: tail_no_def f)
  have rest: "successively link_ok (a # ys)" using chain_okD(2) [OF ok] by (simp add: successively_append_iff)
  have "successively link_ok (a' # ys)"
  proof (cases ys)
    case (Cons n zs)
    have "link_ok a' n"
    proof (rule resend_link [OF _ _ _ _ it _ _ _ _ re])
      show "node_ok a" "node_ok n" "covers (tail_no (xs @ a # ys)) a" "link_ok a n"
        using ok rest Cons by (auto simp: chain_ok_def)
      show "\<not> is_tail a" using tail_iff_last [OF ok] Cons by simp
      show "tail_no (xs @ a # ys) \<le> chain_seq_no n" using tail_no_le [of "xs @ [a]" n zs] ok Cons by simp
      have "node_ok (last (xs @ a # ys))" using ok by (auto simp: chain_ok_def)
      then show "0 \<le> tail_no (xs @ a # ys)" by (simp add: tail_no_def node_ok_def)
      show "k \<le> fetch_seq n" using k Cons by simp
    qed
    with rest Cons show ?thesis by simp
  qed simp
  then show ?thesis
    using ok chain_okD(1) [OF ok] f tn
    by (intro chain_ok_replace [OF ok]) (auto simp: chain_ok_def tail_no_def)
qed

lemma traffic_chain_ok:
  assumes "traffic ns ms" "chain_ok ns"
  shows "chain_ok ms"
  using assms
proof cases
  case (submit seq args h r h' ks)
  then show ?thesis using submit_keeps(1) assms(2) by simp
next
  case (deliver a b m ks prot n r n' xs ys)
  then show ?thesis using deliver_keeps [of xs a n ys b m ks prot] assms(2) by auto
next
  case (tail_ack seq n r n' xs)
  then have "acked (tail_no (xs @ [n])) n n'" by (intro ack_acked) (simp_all add: tail_no_def)
  then show ?thesis using acked_keeps(1) [of xs n "[]"] tail_ack assms(2) by simp
next
  case (deliver_ack n p seqs ps a r a' xs ys)
  then show ?thesis using deliver_ack_keeps assms(2) by blast
next
  case (lose_ack xs n ys)
  then show ?thesis using acked_keeps(1) pop_ack_acked assms(2) by blast
qed

lemma cstep_chain_ok:
  assumes "cstep up iter ns ms" "iter_ok iter" "chain_ok ns"
  shows "chain_ok ms"
  using assms
proof cases
  case work
  then show ?thesis using traffic_chain_ok assms(3) by blast
next
  case (fail_inner name rl xs a a' b n ys)
  then show ?thesis using fail_inner_keeps assms(3) by blast
next
  case (fail_tail rl xs a a' b)
  then show ?thesis using fail_tail_keeps assms(3) by blast
next
  case (fail_head_pair b b' a)
  then show ?thesis using fail_head_pair_keeps assms(3) by blast
next
  case (fail_head name b b' a n ys)
  then show ?thesis using fail_head_keeps assms(3) by blast
next
  case (resend ys k a a' xs)
  then show ?thesis using resend_keeps assms(2,3) by blast
qed

lemma reachable_chain_ok:
  "reachable_from up iter ns ms \<Longrightarrow> iter_ok iter \<Longrightarrow> chain_ok ns \<Longrightarrow> chain_ok ms"
  by (induction rule: reachable_from.induct) (auto intro: cstep_chain_ok)

text \<open>Commands at the tail stay at every surviving replica.\<close>

lemma last_prefix:
  "chain_ok ns \<Longrightarrow> k \<in> set ns \<Longrightarrow> prefix (cmds (last ns)) (cmds k)"
  using links_prefix chain_okD(2) by blast

lemma traffic_tail_grows:
  assumes "traffic ns ms" "chain_ok ns"
  shows "prefix (cmds (last ns)) (cmds (last ms))"
  using assms
proof cases
  case (submit seq args h r h' ks)
  then show ?thesis using submit_keeps(2) assms(2) by auto
next
  case (deliver a b m ks prot n r n' xs ys)
  then show ?thesis using deliver_keeps [of xs a n ys b m ks prot] assms(2) by auto
next
  case (tail_ack seq n r n' xs)
  then have "acked (tail_no (xs @ [n])) n n'" by (intro ack_acked) (simp_all add: tail_no_def)
  then show ?thesis using tail_ack by (simp add: acked_def)
next
  case (deliver_ack n p seqs ps a r a' xs ys)
  then show ?thesis using pop_ack_acked [of 0 n] by (simp add: acked_def)
next
  case (lose_ack xs n ys)
  then show ?thesis using pop_ack_acked [of 0 n] by (simp add: acked_def)
qed

lemma cstep_tail_grows:
  assumes "cstep up iter ns ms" "iter_ok iter" "chain_ok ns"
  shows "prefix (cmds (last ns)) (cmds (last ms))"
  using assms
proof cases
  case work
  then show ?thesis using traffic_tail_grows assms(3) by blast
next
  case (fail_tail rl xs a a' b)
  then show ?thesis using setup_frame [OF fail_tail(4)] last_prefix [OF assms(3), of a] by (simp add: setup_ok_def)
next
  case (fail_head_pair b b' a)
  then show ?thesis using setup_frame [OF fail_head_pair(3)] by (simp add: setup_ok_def)
next
  case (resend ys k a a' xs)
  then show ?thesis using resend_frame(1) assms(3) by auto
qed simp_all

text \<open>The log of the receiver of a request.\<close>

lemma deliver_log:
  assumes ok: "chain_ok (xs @ a # n # ys)" and head: "rc_sent (next_cxn a) = (b, m) # ms"
    and h: "handler_chain_request log_app prot (op_seq m) (op_args m) n = (r, n')"
  shows "cmds n' = cmds n \<or> r = Inr () \<and> length (cmds n) < length (cmds a) \<and> cmds n' = cmds n @ [cmds a ! length (cmds n)] \<and>
           server_seq_no (op_seq m) = int (length (cmds n)) + 1"
proof -
  have ok': "chain_ok ((xs @ [a]) @ n # ys)" using ok by simp
  have link: "link_ok a n" "node_ok n" using ok by (auto simp: chain_ok_def successively_append_iff)
  have nh: "\<not> is_head n" using chain_okD(1) [OF ok] by (cases xs) (auto simp: roles_fit_def is_head_role)
  obtain i where i: "i < length (cmds a)" "server_seq_no (op_seq m) = int (Suc i)" "op_args m = cmds a ! i"
    using msg_in_log [OF link(1) head] by blast
  show ?thesis
  proof (cases rule: deliver_outcome [OF link nh open_or_tail [OF ok'] head, of prot, case_names same new])
    case (same r0 n0)
    then show ?thesis using h by auto
  next
    case (new n0)
    then have "i = length (cmds n)" using i(2) link(2) by (simp add: node_ok_def)
    with new h i show ?thesis by auto
  qed
qed

lemma drained_equal:
  "successively link_ok ks \<Longrightarrow> ks \<noteq> [] \<Longrightarrow> \<forall>k \<in> set (butlast ks). rc_sent (next_cxn k) = [] \<and> \<not> link_cut k \<Longrightarrow> cmds (last ks) = cmds (hd ks)"
proof (induction ks)
  case (Cons k ks)
  show ?case
  proof (cases ks)
    case (Cons y us)
    with Cons.prems have "link_ok k y" "rc_sent (next_cxn k) = []" "\<not> link_cut k" by auto
    then have "prefix (cmds y) (cmds k)" "length (cmds k) \<le> length (cmds y)" by (auto simp: link_ok_def supplied_def)
    then have "cmds y = cmds k" by (auto simp: prefix_def)
    with Cons.IH Cons.prems Cons show ?thesis by auto
  qed simp
qed simp

section \<open>The failure of a head\<close>








section \<open>Fresh chains\<close>

definition logged_new :: logged where
  "logged_new = chain_module.extend chain_module_new \<lparr>cmds = [], link_cut = False\<rparr>"

lemma logged_new_simps [simp]:
  "cmds logged_new = []" "chain_seq_no logged_new = 0" "pending logged_new = []" "ack_queue logged_new = []"
  "rs_sent (prev_cxn logged_new) = []"
  by (simp_all add: logged_new_def chain_module.extend_def chain_module_new_def response_client_new_def logged.fields_def)

lemma successively_all:
  "(\<And>x y. x \<in> set (butlast xs) \<Longrightarrow> y \<in> set xs \<Longrightarrow> P x y) \<Longrightarrow> successively P xs"
proof (induction xs)
  case (Cons x xs)
  then show ?case by (cases xs) auto
qed simp

text \<open>Replicas that have just been set up, with roles that fit and connected to their successors, form a chain.\<close>

lemma fresh_chain_ok:
  assumes "roles_ok (map role ns)"
    and "\<And>n. n \<in> set ns \<Longrightarrow> \<exists>r name. chain_setup log_app up [] r name logged_new = (Inr (), n)"
    and "\<And>n. n \<in> set (butlast ns) \<Longrightarrow>
           \<exists>r name. name \<noteq> ''nil'' \<and> chain_setup log_app up [] r name logged_new = (Inr (), n)"
  shows "chain_ok ns"
proof -
  have empty: "cmds n = []" "chain_seq_no n = 0" "pending n = []" "acks_of n = {}" if "n \<in> set ns" for n
    using assms(2) [OF that] by (auto dest!: setup_frame simp: setup_ok_def acks_of_def)
  have last: "tail_no ns = 0" using assms(1) empty [of "last ns"] by (auto simp: roles_ok_def tail_no_def)
  have "link_ok n y" if "n \<in> set (butlast ns)" "y \<in> set ns" for n y
    using assms(3) [OF that(1)] empty [OF in_set_butlastD [OF that(1)]] empty [OF that(2)]
    by (auto dest!: setup_connects simp: link_ok_def supplied_def enum_log_def)
  then have "successively link_ok ns" by (intro successively_all) blast
  with assms(1) empty last show ?thesis
    by (auto simp: chain_ok_def node_ok_def covers_def table_ok_def roles_ok_fit)
qed

section \<open>Properties\<close>

definition example_node :: "chain_role \<Rightarrow> string \<Rightarrow> logged" where
  "example_node r name = snd (chain_setup log_app (\<lambda>_ _. True) [] r name logged_new)"

definition example_chain :: "logged list" where
  "example_chain =
     [example_node Head (bid_make ''b'' 9090 9090 0), example_node Mid (bid_make ''c'' 9090 9090 0),
      example_node Tail ''nil'']"

lemma example_setup:
  assumes "name = ''nil'' \<or> name = bid_make h 9090 9090 0 \<and> CHR '':'' \<notin> set h"
  shows "chain_setup log_app (\<lambda>_ _. True) [] r name logged_new = (Inr (), example_node r name)"
proof -
  have "fst (chain_setup log_app (\<lambda>_ _. True) [] r name logged_new) = Inr ()"
    using assms
    by (auto simp: chain_setup_def cpp_simps on_next_def next_reset_def rc_connect_def log_app_def
        block_id_make_parse int32_range_def split: if_splits)
  then show ?thesis by (simp add: example_node_def prod_eq_iff)
qed

lemma example_chain_ok: "chain_ok example_chain"
proof (rule fresh_chain_ok)
  let ?up = "\<lambda>_ _. True"
  have s: "chain_setup log_app ?up [] Head (bid_make ''b'' 9090 9090 0) logged_new = (Inr (), example_node Head (bid_make ''b'' 9090 9090 0))"
    "chain_setup log_app ?up [] Mid (bid_make ''c'' 9090 9090 0) logged_new = (Inr (), example_node Mid (bid_make ''c'' 9090 9090 0))"
    "chain_setup log_app ?up [] Tail ''nil'' logged_new = (Inr (), example_node Tail ''nil'')"
    using example_setup [of _ "''b''"] example_setup [of _ "''c''"] example_setup [of "''nil''"] by simp_all
  show "roles_ok (map role example_chain)"
    using setup_frame [OF s(1)] setup_frame [OF s(2)] setup_frame [OF s(3)]
    by (simp add: example_chain_def setup_ok_def roles_ok_def head_role_def tail_role_def)
  show "\<exists>r name. chain_setup log_app ?up [] r name logged_new = (Inr (), n)" if "n \<in> set example_chain" for n
    using that s by (auto simp: example_chain_def)
  show "\<exists>r name. name \<noteq> ''nil'' \<and> chain_setup log_app ?up [] r name logged_new = (Inr (), n)"
    if "n \<in> set (butlast example_chain)" for n
  proof -
    from that have "n = example_node Head (bid_make ''b'' 9090 9090 0) \<or> n = example_node Mid (bid_make ''c'' 9090 9090 0)"
      by (simp add: example_chain_def)
    then show ?thesis
      using s(1) s(2) by (elim disjE) (intro exI conjI, rule bid_make_not_nil, simp)+
  qed
qed

lemma iter_ok_id: "iter_ok id"
  by (simp add: iter_ok_def)

text \<open>
  A run of the example chain: a first command reaches all replicas, a second one the first two.
\<close>

definition example_submit :: "string list \<Rightarrow> logged list \<Rightarrow> logged list" where
  "example_submit args ns = snd (chain_request log_app sequence_id_new args (hd ns)) # tl ns"

definition example_deliver :: "nat \<Rightarrow> logged list \<Rightarrow> logged list" where
  "example_deliver i ns =
     (let m = snd (hd (rc_sent (next_cxn (ns ! i)))) in
      take i ns @ pop_request (ns ! i) # snd (handler_chain_request log_app 0 (op_seq m) (op_args m) (ns ! Suc i)) # drop (Suc (Suc i)) ns)"

definition example_first :: "logged list" where
  "example_first = example_deliver 1 (example_deliver 0 (example_submit [''put'', ''k'', ''v''] example_chain))"

definition example_second :: "logged list" where
  "example_second = example_deliver 0 (example_submit [''get'', ''k''] example_first)"

lemma example_submit_step: "ns \<noteq> [] \<Longrightarrow> traffic ns (example_submit args ns)"
  using traffic.submit [of sequence_id_new args "hd ns", OF prod.collapse [symmetric], of "tl ns"] by (simp add: example_submit_def)

lemma example_deliver_step:
  assumes "Suc i < length ns" "rc_sent (next_cxn (ns ! i)) \<noteq> []"
  shows "traffic ns (example_deliver i ns)"
proof -
  obtain b m ms where m: "rc_sent (next_cxn (ns ! i)) = (b, m) # ms" using assms(2) by (cases "rc_sent (next_cxn (ns ! i))") auto
  have "ns = take i ns @ ns ! i # ns ! Suc i # drop (Suc (Suc i)) ns" using assms(1) by (simp add: Cons_nth_drop_Suc)
  with traffic.deliver [OF m, of 0 "ns ! Suc i", OF prod.collapse [symmetric], of "take i ns" "drop (Suc (Suc i)) ns"] m
  show ?thesis by (simp add: example_deliver_def)
qed

lemma bid_make_nil [simp]: "bid_make h p q b \<noteq> ''nil''"
  using bid_make_not_nil by blast

lemmas run_defs =
  chain_setup_def cpp_simps on_next_def next_reset_def rc_connect_def log_app_def block_id_make_parse int32_range_def rc_disconnect_def
  logged_new_def chain_module.extend_def chain_module_new_def request_client_new_def logged.fields_def response_client_new_def
  handler_chain_request_def chain_request_def is_head_def is_tail_def sequence_id_new_def rc_request_def add_pending_def tab_insert_def tab_put_def
  pop_request_def is_set_prev_def rs_is_set_def reset_prev_def rs_reset_prot_def Let_def

definition example_chain_op :: "int \<Rightarrow> string list \<Rightarrow> chain_op" where
  "example_chain_op k args = \<lparr>op_seq = sequence_id_new\<lparr>server_seq_no := k\<rparr>, op_args = args\<rparr>"

definition example_logged :: "chain_role \<Rightarrow> string list list \<Rightarrow> chain_op list \<Rightarrow> nat option \<Rightarrow> logged" where
  "example_logged r cs sent prev =
     \<lparr>role = r, chain_seq_no = int (length cs),
      next_cxn = (if r = Tail then \<lparr>rc_host = [], rc_port = 0, rc_block_id = - 1, rc_client = False, rc_open = False, rc_sent = []\<rparr>
                  else \<lparr>rc_host = if r = Head then ''b'' else ''c'', rc_port = 9090, rc_block_id = 0, rc_client = True, rc_open = True,
                         rc_sent = map (Pair 0) sent\<rparr>),
      prev_cxn = \<lparr>rs_prot = prev, rs_sent = []\<rparr>, replica_chain = [], response_processor = (r \<noteq> Tail),
      pending = map (\<lambda>i. (int (Suc i), example_chain_op (int (Suc i)) (cs ! i))) [0..<length cs], chain_ack_batch_size = 1, ack_queue = [], cmds = cs, link_cut = False\<rparr>"

lemma example_first_eq:
  "example_first =
     [example_logged Head [[''put'', ''k'', ''v'']] [] None, example_logged Mid [[''put'', ''k'', ''v'']] [] (Some 0),
      example_logged Tail [[''put'', ''k'', ''v'']] [] (Some 0)]"
  by (simp add: example_first_def example_submit_def example_deliver_def example_chain_def example_node_def run_defs example_logged_def example_chain_op_def)

lemma example_second_eq:
  "example_second =
     [example_logged Head [[''put'', ''k'', ''v''], [''get'', ''k'']] [] None,
      example_logged Mid [[''put'', ''k'', ''v''], [''get'', ''k'']] [example_chain_op 2 [''get'', ''k'']] (Some 0),
      example_logged Tail [[''put'', ''k'', ''v'']] [] (Some 0)]"
  by (simp add: example_second_def example_first_eq example_submit_def example_deliver_def run_defs example_logged_def example_chain_op_def)

text \<open>The second replica fails before the last one has the second command: the first one is connected to the last one, resends, and the request is delivered.\<close>

definition example_relinked :: logged where
  "example_relinked = snd (chain_setup log_app (\<lambda>_ _. True) [] Head (bid_make ''c'' 9090 9090 0) (hd example_second))"

definition example_repaired :: "logged list" where
  "example_repaired = example_deliver 0 [snd (log_resend id 1 example_relinked), last example_second]"

lemma example_repaired_values:
  "map cmds example_repaired = replicate 2 [[''put'', ''k'', ''v''], [''get'', ''k'']]"
  "map link_cut example_repaired = [False, False]" "rc_sent (next_cxn (hd example_repaired)) = []"
  "link_cut example_relinked" "rc_sent (next_cxn (snd (log_resend id 1 example_relinked))) \<noteq> []" "length example_repaired = 2"
  by (simp_all add: example_repaired_def example_relinked_def example_second_eq example_deliver_def run_defs example_logged_def example_chain_op_def
      log_resend_def resend_pending_def numeral_2_eq_2)

lemma setup_succeeds:
  assumes "name = ''nil'' \<or> (\<exists>b. bid_parse name = Inr b)" "\<And>h p. up h p"
  shows "\<exists>n'. chain_setup log_app up [] r name n = (Inr (), n')"
  using assms
  by (auto simp: chain_setup_def cpp_simps on_next_def log_app_def next_reset_def rc_connect_def split: prod.splits)

lemma setup_example: "chain_setup log_app (\<lambda>_ _. True) [] r (bid_make ''c'' 9090 9090 0) n =
    (Inr (), snd (chain_setup log_app (\<lambda>_ _. True) [] r (bid_make ''c'' 9090 9090 0) n))"
proof -
  have "\<exists>b. bid_parse (bid_make ''c'' 9090 9090 0) = Inr b" by (simp add: block_id_make_parse int32_range_def)
  then show ?thesis using setup_succeeds [of "bid_make ''c'' 9090 9090 0" "\<lambda>_ _. True" r n] by (metis snd_conv)
qed

lemma example_runs:
  "reachable_from (\<lambda>_ _. True) id example_chain example_first" "reachable_from (\<lambda>_ _. True) id example_first example_second"
  "reachable_from (\<lambda>_ _. True) id example_second example_repaired"
proof -
  let ?reach = "reachable_from (\<lambda>_ _. True) id" and ?s = "example_submit [''put'', ''k'', ''v''] example_chain"
  have work: "?reach ns ks" if "?reach ns ms" "traffic ms ks" for ns ms ks
    using reachable_from.step [OF that(1) cstep.work [OF that(2)]] .
  have c: "example_chain \<noteq> []" "example_first \<noteq> []" by (simp_all add: example_chain_def example_first_eq)
  have l: "length ?s = 3" "length (example_deliver 0 ?s) = 3" "length (example_submit [''get'', ''k''] example_first) = 3"
    by (simp_all add: example_submit_def example_deliver_def example_chain_def example_first_eq Let_def)
  have q: "rc_sent (next_cxn (?s ! 0)) \<noteq> []" "rc_sent (next_cxn (example_deliver 0 ?s ! 1)) \<noteq> []"
    "rc_sent (next_cxn (example_submit [''get'', ''k''] example_first ! 0)) \<noteq> []"
    by (simp_all add: example_first_eq example_submit_def example_deliver_def example_chain_def example_node_def run_defs example_logged_def)
  have t: "traffic ?s (example_deliver 0 ?s)" "traffic (example_deliver 0 ?s) (example_deliver 1 (example_deliver 0 ?s))"
    "traffic (example_submit [''get'', ''k''] example_first) (example_deliver 0 (example_submit [''get'', ''k''] example_first))"
    using l q by (auto intro: example_deliver_step)
  show "?reach example_chain example_first"
    using work [OF work [OF work [OF reachable_from.start example_submit_step [OF c(1)]] t(1)] t(2)] unfolding example_first_def .
  show "?reach example_first example_second"
    using work [OF work [OF reachable_from.start example_submit_step [OF c(2)]] t(3)] unfolding example_second_def .
  let ?a = "hd example_second" and ?n = "last example_second"
  obtain b where e: "example_second = [?a, b, ?n]" by (simp add: example_second_eq)
  have "cstep (\<lambda>_ _. True) id [?a, b, ?n] [example_relinked, ?n]"
    using cstep.fail_inner [OF bid_make_not_nil _ setup_example, of Head "[]" id ?a b ?n "[]"] by (simp add: example_relinked_def)
  then have "?reach example_second [example_relinked, ?n]"
    using reachable_from.step [OF reachable_from.start] e by metis
  moreover have "cstep (\<lambda>_ _. True) id [example_relinked, ?n] [snd (log_resend id 1 example_relinked), ?n]"
  proof (rule cstep.resend [of "[?n]" 1 id example_relinked _ "\<lambda>_ _. True" "[]", simplified])
    show "1 \<le> fetch_seq ?n" by (simp add: example_second_eq fetch_seq_def example_logged_def)
    show "log_resend id 1 example_relinked = (Inr (), snd (log_resend id 1 example_relinked))"
      by (simp add: example_relinked_def example_second_eq run_defs example_logged_def log_resend_def resend_pending_def)
  qed
  ultimately have "?reach example_second [snd (log_resend id 1 example_relinked), ?n]" by (rule reachable_from.step)
  then show "?reach example_second example_repaired"
    unfolding example_repaired_def by (rule work) (rule example_deliver_step; simp add: example_repaired_values)
qed

lemma reachable_trans: "reachable_from up iter ms ks \<Longrightarrow> reachable_from up iter ns ms \<Longrightarrow> reachable_from up iter ns ks"
  by (induction rule: reachable_from.induct) (auto intro: reachable_from.step)

text \<open>
  C1. Chain replication is safe: from a chain that satisfies the invariant, after any sequence of
  requests, deliveries, acknowledgements, losses of acknowledgements, crashes, new connections and repeated requests, the log of every replica is a prefix of
  the log of every replica before it; a delivered request changes the log of the next replica only by the next command of the log of
  the replica in front; every acknowledgement on its way back is for a command that all replicas have executed, and a replica keeps every command that is not at
  the tail yet for resending. Every command that
  had reached the tail at some point is, at the same position, in the log of every replica that is left
  at any later point: a crash of any replica loses no command that was replicated completely, also when what is on a replaced connection is lost.
\<close>

theorem chain_replication_safe:
  assumes "iter_ok iter" "chain_ok ns" "reachable_from up iter ns ms" "reachable_from up iter ms ks"
  shows "(\<forall>k \<in> set ks. prefix (cmds (last ms)) (cmds k)) \<and>
         successively (\<lambda>a n. prefix (cmds n) (cmds a)) ks \<and>
         (\<forall>xs a n ys b m qs prot r n'. ks = xs @ a # n # ys \<and> rc_sent (next_cxn a) = (b, m) # qs \<and>
            handler_chain_request log_app prot (op_seq m) (op_args m) n = (r, n') \<longrightarrow>
            cmds n' = cmds n \<or> r = Inr () \<and> length (cmds n) < length (cmds a) \<and> cmds n' = cmds n @ [cmds a ! length (cmds n)]) \<and>
         (\<forall>k \<in> set ks. (\<forall>q \<in> acks_of k. \<forall>n \<in> set ks. server_seq_no q \<le> int (length (cmds n))) \<and>
            (\<forall>i. length (cmds (last ks)) \<le> i \<and> i < length (cmds k) \<longrightarrow>
               (\<exists>op. map_of (pending k) (int (Suc i)) = Some op \<and> op_args op = cmds k ! i)))"
proof (intro conjI allI impI ballI)
  have ms: "chain_ok ms" using reachable_chain_ok assms(1,2,3) by blast
  have ks: "chain_ok ks" using reachable_chain_ok assms(1,4) ms by blast
  have tn: "tail_no ks = int (length (cmds (last ks)))" using ks by (auto simp: chain_ok_def roles_fit_def tail_no_def node_ok_def)
  have "prefix (cmds (last ms)) (cmds (last ks))" using assms(4) ms
  proof (induction rule: reachable_from.induct)
    case (step ns ms ks)
    then show ?case
      using cstep_tail_grows [OF step.hyps(2) assms(1)] reachable_chain_ok assms(1) prefix_order.trans by blast
  qed simp
  then show "prefix (cmds (last ms)) (cmds k)" if "k \<in> set ks" for k
    using last_prefix [OF ks that] prefix_order.trans by blast
  show "successively (\<lambda>a n. prefix (cmds n) (cmds a)) ks"
    using chain_okD(2) [OF ks] by (rule successively_mono) (simp add: link_ok_def)
  show "cmds n' = cmds n \<or> r = Inr () \<and> length (cmds n) < length (cmds a) \<and> cmds n' = cmds n @ [cmds a ! length (cmds n)]"
    if "ks = xs @ a # n # ys \<and> rc_sent (next_cxn a) = (b, m) # qs \<and> handler_chain_request log_app prot (op_seq m) (op_args m) n = (r, n')"
    for xs a n ys b m qs prot r n'
    using deliver_log [of xs a n ys b m qs prot r n'] that ks by blast
  fix k assume k: "k \<in> set ks"
  then have c: "covers (tail_no ks) k" "node_ok k" using chain_okD(3,4) [OF ks] by auto
  show "server_seq_no q \<le> int (length (cmds n))" if "q \<in> acks_of k" "n \<in> set ks" for q n
    using that c(1) prefix_length_le [OF last_prefix [OF ks that(2)]] by (auto simp: covers_def tn)
  fix i assume i: "length (cmds (last ks)) \<le> i \<and> i < length (cmds k)"
  then obtain op where op: "map_of (pending k) (int (Suc i)) = Some op" using c by (fastforce simp: covers_def tn node_ok_def)
  from map_of_SomeD [OF op] c(2) have "op_args op = cmds k ! i" by (auto simp: node_ok_def)
  with op show "\<exists>op. map_of (pending k) (int (Suc i)) = Some op \<and> op_args op = cmds k ! i" by blast
qed

theorem chain_replication_safe_witness:
  "reachable_from (\<lambda>_ _. True) id example_first example_repaired \<and> cmds (last example_first) = [[''put'', ''k'', ''v'']] \<and>
     list_all (\<lambda>k. prefix [[''put'', ''k'', ''v'']] (cmds k)) example_repaired"
proof -
  have r: "reachable_from (\<lambda>_ _. True) id example_first example_repaired" using reachable_trans example_runs(2,3) by blast
  have l: "cmds (last example_first) = [[''put'', ''k'', ''v'']]" by (simp add: example_first_eq example_logged_def)
  from chain_replication_safe [OF iter_ok_id example_chain_ok example_runs(1) r] l r show ?thesis by (simp add: list_all_iff)
qed

text \<open>
  C2. Convergence: in every chain that is reached from one that satisfies the invariant, once nothing is left on the connections
  between the replicas, and \<^verbatim>\<open>resend_pending\<close> has been called for every connection that was renewed, all replicas hold the same commands in the same order, and every replica's sequence
  number is the number of commands. Requests that arrived out of order at a renewed connection and were refused make no difference.
\<close>

theorem chain_drained_converged:
  assumes "iter_ok iter" "chain_ok ns" "reachable_from up iter ns ms"
    and "\<forall>n \<in> set (butlast ms). rc_sent (next_cxn n) = [] \<and> \<not> link_cut n"
  shows "\<forall>n \<in> set ms. cmds n = cmds (hd ms) \<and> chain_seq_no n = int (length (cmds (hd ms)))"
proof
  fix n assume n: "n \<in> set ms"
  have ok: "chain_ok ms" using reachable_chain_ok assms(1,2,3) by blast
  have "cmds (last ms) = cmds (hd ms)" using drained_equal [OF chain_okD(2) [OF ok] _ assms(4)] n by fastforce
  then have "cmds n = cmds (hd ms)"
    using links_prefix [OF chain_okD(2) [OF ok] n] prefix_order.antisym by metis
  with chain_okD(3) [OF ok n] show "cmds n = cmds (hd ms) \<and> chain_seq_no n = int (length (cmds (hd ms)))"
    by (simp add: node_ok_def)
qed

theorem chain_drained_converged_witness:
  "length example_repaired = 2 \<and> list_all (\<lambda>n. cmds n = [[''put'', ''k'', ''v''], [''get'', ''k'']] \<and> chain_seq_no n = 2) example_repaired"
proof -
  have r: "reachable_from (\<lambda>_ _. True) id example_chain example_repaired"
    using reachable_trans example_runs by blast
  obtain a n where e: "example_repaired = [a, n]"
    using example_repaired_values(6) by (auto simp: numeral_2_eq_2 length_Suc_conv)
  have d: "\<forall>n \<in> set (butlast example_repaired). rc_sent (next_cxn n) = [] \<and> \<not> link_cut n"
    and "cmds (hd example_repaired) = [[''put'', ''k'', ''v''], [''get'', ''k'']]"
    using example_repaired_values(1-3) unfolding e by (simp_all add: numeral_2_eq_2)
  with chain_drained_converged [OF iter_ok_id example_chain_ok r d] example_repaired_values(6) show ?thesis by (simp add: list_all_iff)
qed




end
