(* ===== verification/Cpp_Double.thy ===== *)
theory Cpp_Double
  imports Complex_Main "HOL-Library.Log_Nat"
begin

text \<open>
  \<^verbatim>\<open>double\<close> arithmetic, as far as the sources compute with it. A finite \<^verbatim>\<open>double\<close> is a rational
  number; each operation gives the exact result rounded to 53 significant bits, ties to even
  (IEEE 754, the default rounding mode). The exponent is not bounded: the program computes with
  hash quotients, probabilities and their multiples, none of which comes near the ends of the
  exponent range.
\<close>

section \<open>Rounding\<close>

text \<open>\<open>expo x\<close> is the binary exponent of a positive rational: \<open>2 powi expo x \<le> x < 2 powi (expo x + 1)\<close>.\<close>

definition expo :: "rat \<Rightarrow> int" where
  "expo x = (if 1 \<le> x then int (floorlog 2 (nat \<lfloor>x\<rfloor>)) - 1 else - int (floorlog 2 (nat (\<lceil>1 / x\<rceil> - 1))))"

definition ulp :: "rat \<Rightarrow> rat" where
  "ulp x = 2 powi (expo x - 52)"

definition round_even :: "rat \<Rightarrow> int" where
  "round_even y =
     (let f = \<lfloor>y\<rfloor>; r = y - of_int f in
      if r < 1 / 2 then f else if 1 / 2 < r then f + 1 else if even f then f else f + 1)"

definition double_round :: "rat \<Rightarrow> rat" where
  "double_round x =
     (if x = 0 then 0
      else if x < 0 then - (of_int (round_even (- x / ulp (- x))) * ulp (- x))
      else of_int (round_even (x / ulp x)) * ulp x)"

definition dmul :: "rat \<Rightarrow> rat \<Rightarrow> rat" where
  "dmul x y = double_round (x * y)"

definition ddiv :: "rat \<Rightarrow> rat \<Rightarrow> rat" where
  "ddiv x y = double_round (x / y)"

definition dadd :: "rat \<Rightarrow> rat \<Rightarrow> rat" where
  "dadd x y = double_round (x + y)"

definition dsub :: "rat \<Rightarrow> rat \<Rightarrow> rat" where
  "dsub x y = double_round (x - y)"

section \<open>Bounds\<close>

lemma powi_two_less_iff: "(2 :: rat) powi a < 2 powi b \<longleftrightarrow> a < b"
proof
  show "a < b \<Longrightarrow> (2 :: rat) powi a < 2 powi b" by (rule power_int_strict_increasing) auto
  assume "(2 :: rat) powi a < 2 powi b"
  then show "a < b" using power_int_increasing [of b a "2 :: rat"] by fastforce
qed

lemma powi_two_le_iff: "(2 :: rat) powi a \<le> 2 powi b \<longleftrightarrow> a \<le> b"
  using powi_two_less_iff [of b a] by (simp add: not_less [symmetric])

lemma expo_bounds:
  assumes "0 < x"
  shows "2 powi expo x \<le> x" and "x < 2 powi (expo x + 1)"
proof -
  have "2 powi expo x \<le> x \<and> x < 2 powi (expo x + 1)"
  proof (cases "1 \<le> x")
    case True
    define n where "n = nat \<lfloor>x\<rfloor>"
    have n: "0 < n" "of_nat n \<le> x" "x < of_nat n + 1"
      using True by (auto simp: n_def) linarith
    define k where "k = floorlog 2 n"
    have k: "2 ^ (k - 1) \<le> n" "n < 2 ^ k" "0 < k"
      using floorlog_bounds [of n 2] n(1) by (auto simp: k_def floorlog_def)
    have e: "expo x = int (k - 1)" "expo x + 1 = int k"
      using True k(3) by (auto simp: expo_def n_def k_def)
    have "(2 :: rat) ^ (k - 1) \<le> of_nat n" using k(1) by (metis of_nat_le_iff of_nat_numeral of_nat_power)
    moreover have "of_nat n + 1 \<le> (2 :: rat) ^ k"
      using k(2) by (metis Suc_leI of_nat_Suc of_nat_le_iff of_nat_numeral of_nat_power add.commute)
    moreover have "2 powi expo x = (2 :: rat) ^ (k - 1)" "2 powi (expo x + 1) = (2 :: rat) ^ k"
      using e(1) arg_cong [OF e(2), of "\<lambda>i. (2 :: rat) powi i"] by simp_all
    ultimately show ?thesis using n(2,3) by linarith
  next
    case False
    define m where "m = nat (\<lceil>1 / x\<rceil> - 1)"
    have "1 < 1 / x" using False assms by simp
    then have m: "of_nat m < 1 / x" "1 / x \<le> of_nat m + 1" "0 < m"
      by (auto simp: m_def) linarith+
    define k where "k = floorlog 2 m"
    have k: "2 ^ (k - 1) \<le> m" "m < 2 ^ k" "0 < k"
      using floorlog_bounds [of m 2] m(3) by (auto simp: k_def floorlog_def)
    have e: "expo x = - int k" "expo x + 1 = - int (k - 1)"
      using False k(3) by (auto simp: expo_def m_def k_def)
    have "(2 :: rat) ^ (k - 1) \<le> of_nat m" using k(1) by (metis of_nat_le_iff of_nat_numeral of_nat_power)
    then have hi: "(2 :: rat) ^ (k - 1) < 1 / x" using m(1) by (rule order_le_less_trans)
    have "of_nat m + 1 \<le> (2 :: rat) ^ k"
      using k(2) by (metis Suc_leI of_nat_Suc of_nat_le_iff of_nat_numeral of_nat_power add.commute)
    with m(2) have lo: "1 / x \<le> (2 :: rat) ^ k" by (rule order_trans)
    have "2 powi expo x = 1 / (2 :: rat) ^ k" "2 powi (expo x + 1) = 1 / (2 :: rat) ^ (k - 1)"
      using e(1) arg_cong [OF e(2), of "\<lambda>i. (2 :: rat) powi i"]
      by (simp_all only: power_int_minus power_int_of_nat inverse_eq_divide)
    moreover have "1 / (2 :: rat) ^ k \<le> x" "x < 1 / (2 :: rat) ^ (k - 1)"
      using hi lo assms by (simp_all add: field_simps)
    ultimately show ?thesis by simp
  qed
  then show "2 powi expo x \<le> x" "x < 2 powi (expo x + 1)" by auto
qed

lemma ulp_pos [simp]: "0 < ulp x"
  by (simp add: ulp_def)

lemma round_even_ge: "of_int n \<le> y \<Longrightarrow> n \<le> round_even y"
proof -
  assume "of_int n \<le> y"
  then have "n \<le> \<lfloor>y\<rfloor>" by (simp add: le_floor_iff)
  then show ?thesis by (auto simp: round_even_def Let_def)
qed

lemma round_even_le: "y \<le> of_int n \<Longrightarrow> round_even y \<le> n"
proof -
  assume y: "y \<le> of_int n"
  show ?thesis
  proof (cases "y = of_int n")
    case True
    then show ?thesis by (simp add: round_even_def)
  next
    case False
    with y have "\<lfloor>y\<rfloor> < n" by (simp add: floor_less_iff)
    then show ?thesis by (auto simp: round_even_def Let_def)
  qed
qed

text \<open>A multiple of the unit in the last place that bounds \<open>x\<close> also bounds the rounded \<open>x\<close>.\<close>

lemma double_round_ge:
  assumes "0 < x" and "of_int n * ulp x \<le> x"
  shows "of_int n * ulp x \<le> double_round x"
proof -
  have "of_int n \<le> x / ulp x" using assms(2) by (simp add: field_simps)
  then show ?thesis using assms(1) by (simp add: double_round_def round_even_ge)
qed

lemma double_round_le:
  assumes "0 < x" and "x \<le> of_int n * ulp x"
  shows "double_round x \<le> of_int n * ulp x"
proof -
  have "x / ulp x \<le> of_int n" using assms(2) by (simp add: field_simps)
  then show ?thesis using assms(1) by (simp add: double_round_def round_even_le)
qed

lemma power2_multiple_of_ulp:
  assumes "expo x - 52 \<le> k"
  shows "(2 :: rat) powi k = of_int (2 ^ nat (k - (expo x - 52))) * ulp x"
proof -
  have "(2 :: rat) powi k = 2 powi (k - (expo x - 52)) * 2 powi (expo x - 52)"
    by (simp flip: power_int_add)
  moreover have "(2 :: rat) powi (k - (expo x - 52)) = of_int (2 ^ nat (k - (expo x - 52)))"
    using assms by (simp add: power_int_def)
  ultimately show ?thesis by (simp add: ulp_def)
qed

lemma expo_mono_power2:
  assumes "0 < x" and "x \<le> 2 powi k"
  shows "expo x \<le> k"
proof -
  have "(2 :: rat) powi expo x \<le> 2 powi k" using expo_bounds(1) [OF assms(1)] assms(2) by linarith
  then show ?thesis by (simp only: powi_two_le_iff)
qed

lemma double_round_le_power2:
  assumes "0 < x" and "x \<le> 2 powi k"
  shows "double_round x \<le> 2 powi k"
proof -
  have "expo x - 52 \<le> k" using expo_mono_power2 [OF assms] by simp
  with power2_multiple_of_ulp [OF this] assms show ?thesis by (metis double_round_le)
qed

lemma double_round_ge_power2:
  assumes "2 powi k \<le> x"
  shows "2 powi k \<le> double_round x"
proof -
  have x: "0 < x" using assms by (meson less_le_trans zero_less_power_int zero_less_numeral)
  have "(2 :: rat) powi k < 2 powi (expo x + 1)" using expo_bounds(2) [OF x] assms by linarith
  then have "k \<le> expo x" by (simp add: powi_two_less_iff)
  show ?thesis
  proof (cases "expo x - 52 \<le> k")
    case True
    with power2_multiple_of_ulp [OF True] assms x show ?thesis by (metis double_round_ge)
  next
    case False
    have "(2 :: rat) powi k \<le> 2 powi expo x" using \<open>k \<le> expo x\<close> by (simp only: powi_two_le_iff)
    also have "\<dots> \<le> double_round x"
    proof -
      have "expo x - 52 \<le> expo x" by simp
      from power2_multiple_of_ulp [OF this] expo_bounds(1) [OF x] x show ?thesis by (metis double_round_ge)
    qed
    finally show ?thesis .
  qed
qed

text \<open>Rounding does not fall below an integer of at most 53 bits.\<close>

lemma double_round_ge_int:
  assumes "0 < n" "n \<le> 2 ^ 53" and "of_int n \<le> x"
  shows "of_int n \<le> double_round x"
proof (cases "expo x \<le> 52")
  case True
  have x: "0 < x" using assms(1,3) by (meson less_le_trans of_int_0_less_iff)
  have "(of_int n :: rat) = of_int (n * 2 ^ nat (52 - expo x)) * ulp x"
    using power2_multiple_of_ulp [of x 0] True by simp
  with assms(3) x show ?thesis by (metis double_round_ge)
next
  case False
  have x: "0 < x" using assms(1,3) by (meson less_le_trans of_int_0_less_iff)
  have "(of_int n :: rat) \<le> of_int (2 ^ 53)" using assms(2) by (simp only: of_int_le_iff)
  also have "\<dots> = 2 powi 53" by simp
  also have "\<dots> \<le> 2 powi expo x" using False by (intro power_int_increasing) auto
  also have "\<dots> \<le> double_round x" using expo_bounds(1) [OF x] by (rule double_round_ge_power2)
  finally show ?thesis .
qed

lemma double_round_int_exact:
  assumes "0 < n" "n \<le> 2 ^ 53"
  shows "double_round (of_int n) = of_int n"
proof (rule antisym)
  have e: "expo (of_int n) \<le> 53"
  proof (rule expo_mono_power2)
    have "(of_int n :: rat) \<le> of_int (2 ^ 53)" using assms(2) by (simp only: of_int_le_iff)
    then show "(of_int n :: rat) \<le> 2 powi 53" by simp
  qed (use assms(1) in simp)
  show "double_round (of_int n) \<le> of_int n"
  proof (cases "expo (of_int n) = 53")
    case True
    then have "(2 :: rat) powi 53 \<le> of_int n" using expo_bounds(1) [of "of_int n"] assms(1) by simp
    then have "(of_int (2 ^ 53) :: rat) \<le> of_int n" by simp
    then have "n = 2 ^ 53" using assms(2) by (simp only: of_int_le_iff)
    then show ?thesis using double_round_le_power2 [of "of_int n" 53] by simp
  next
    case False
    with e have "expo (of_int n) - 52 \<le> 0" by simp
    with power2_multiple_of_ulp [of "of_int n" 0]
    have "(of_int n :: rat) = of_int (n * 2 ^ nat (52 - expo (of_int n))) * ulp (of_int n)" by simp
    with assms(1) show ?thesis by (metis double_round_le of_int_0_less_iff order_refl)
  qed
  show "of_int n \<le> double_round (of_int n)" using assms by (intro double_round_ge_int) auto
qed

end
