(* ===== verification/Distribution.thy ===== *)
theory Distribution
  imports Thrift_Types Cpp_Double
begin

text \<open>
  proxy/src/distribution.h, distribution.cpp, distribution_info.h and distribution_info.cpp: the access
  distributions and the description of the key space that L1 and L2 proxies load at start-up. The
  content of the file is the list of Thrift fields (Thrift\_Types).
\<close>

section \<open>distribution\<close>

record distribution =
  dist_items :: "string list"
  dist_probs :: "rat list"

definition distribution_empty :: distribution where
  "distribution_empty = \<lparr>dist_items = [], dist_probs = []\<rparr>"

definition distribution_new :: "string list \<Rightarrow> rat list \<Rightarrow> distribution" where
  "distribution_new its ps = \<lparr>dist_items = its, dist_probs = ps\<rparr>"

text \<open>\<open>i\<close> is the index that \<^verbatim>\<open>std::discrete_distribution\<close> yields.\<close>

definition dist_sample :: "distribution \<Rightarrow> nat \<Rightarrow> string outcome" where
  "dist_sample d i = vec_at (dist_items d) (int i)"

definition draw_ok :: "distribution \<Rightarrow> nat \<Rightarrow> bool" where
  "draw_ok d i \<longleftrightarrow> i < length (dist_probs d)"

lemma dist_sample_ok:
  "length (dist_items d) = length (dist_probs d) \<Longrightarrow> draw_ok d i \<Longrightarrow> dist_sample d i = Inr (dist_items d ! i)"
  by (simp add: dist_sample_def draw_ok_def)

section \<open>distribution\_info\<close>

record distribution_info =
  num_keys :: int
  dummy_key :: string
  key_to_number_of_replicas :: "(string, int) table"
  fake_distribution :: distribution
  real_distribution :: distribution
  replica_to_label :: "(string, int) table"

definition distribution_info_new :: distribution_info where
  "distribution_info_new =
     \<lparr>num_keys = 0, dummy_key = [], key_to_number_of_replicas = [], fake_distribution = distribution_empty,
      real_distribution = distribution_empty, replica_to_label = []\<rparr>"

definition distinfo_load :: "tfield list \<Rightarrow> distribution_info \<Rightarrow> distribution_info outcome" where
  "distinfo_load file d =
     bind_out (di_read dist_info_new file) (\<lambda>dinfo. Inr
       (d\<lparr>num_keys := di_num_keys dinfo, dummy_key := di_dummy_key dinfo,
          key_to_number_of_replicas := umap.put_all (di_key_to_number_of_replicas dinfo) (key_to_number_of_replicas d),
          replica_to_label := umap.put_all (di_replica_to_label dinfo) (replica_to_label d),
          fake_distribution := distribution_new (map fst (di_fake_distribution dinfo)) (map snd (di_fake_distribution dinfo)),
          real_distribution := distribution_new (map fst (di_real_distribution dinfo)) (map snd (di_real_distribution dinfo))\<rparr>))"

text \<open>\<^verbatim>\<open>dinfo.fake_distribution[items[i]] = probs[i]\<close> reads past the end when there are fewer probabilities.\<close>

definition dist_entries :: "distribution \<Rightarrow> (string \<times> rat) list outcome" where
  "dist_entries d =
     (if length (dist_probs d) < length (dist_items d) then Inl (Undefined_behaviour ''vector index'')
      else Inr (zip (dist_items d) (dist_probs d)))"

definition distinfo_dump ::
  "((string, int) table \<Rightarrow> (string \<times> int) list) \<Rightarrow> distribution_info \<Rightarrow> tfield list outcome" where
  "distinfo_dump iter d =
     bind_out (dist_entries (fake_distribution d)) (\<lambda>fake.
     bind_out (dist_entries (real_distribution d)) (\<lambda>real.
       Inr (di_write
         \<lparr>di_num_keys = num_keys d, di_dummy_key = dummy_key d,
          di_key_to_number_of_replicas = omap.put_all (iter (key_to_number_of_replicas d)) [],
          di_replica_to_label = omap.put_all (iter (replica_to_label d)) [],
          di_fake_distribution = omap.put_all fake [],
          di_real_distribution = omap.put_all real []\<rparr>)))"

definition dist_ok :: "distribution \<Rightarrow> bool" where
  "dist_ok d \<longleftrightarrow> length (dist_probs d) = length (dist_items d) \<and> distinct (dist_items d)"

definition distribution_info_ok :: "distribution_info \<Rightarrow> bool" where
  "distribution_info_ok d \<longleftrightarrow>
     dist_ok (fake_distribution d) \<and> dist_ok (real_distribution d) \<and>
     table_ok (key_to_number_of_replicas d) \<and> table_ok (replica_to_label d)"

text \<open>The probability of an item.\<close>

definition dist_prob :: "distribution \<Rightarrow> string \<Rightarrow> rat option" where
  "dist_prob d x = map_of (zip (dist_items d) (dist_probs d)) x"

lemma dom_dist_prob: "dist_ok d \<Longrightarrow> dom (dist_prob d) = set (dist_items d)"
  by (auto simp: dom_def dist_prob_def dist_ok_def map_of_zip_is_None simp flip: not_None_eq)

lemma dist_entries_ok: "dist_ok d \<Longrightarrow> dist_entries d = Inr (zip (dist_items d) (dist_probs d))"
  by (simp add: dist_entries_def dist_ok_def)

lemma map_of_put_all_iter:
  assumes "iter_ok iter" "table_ok t"
  shows "map_of (umap.put_all (omap.put_all (iter t) []) []) k = map_of t k"
proof -
  have d: "distinct (map fst (iter t))" using assms by (simp add: iter_ok_distinct table_ok_def)
  let ?o = "omap.put_all (iter t) []"
  have "map_of ?o k = map_of (iter t) k"
    using d by (simp add: omap.lookup_put_all split: option.splits)
  moreover have "map_of (iter t) k = map_of t k"
    using assms d by (simp add: table_ok_def iter_ok_set map_of_inject_set [symmetric] flip: map_of_inject_set)
      (metis iter_ok_set map_of_inject_set)
  moreover have "distinct (map fst ?o)" using omap.invar_put_all [of "[]" "iter t"] by (simp add: omap_ok_def)
  ultimately show ?thesis by (simp add: umap.lookup_put_all split: option.splits)
qed

lemma dist_prob_sorted:
  assumes "dist_ok d"
  defines "o1 \<equiv> omap.put_all (zip (dist_items d) (dist_probs d)) []"
  shows "dist_prob (distribution_new (map fst o1) (map snd o1)) = dist_prob d"
    and "dist_ok (distribution_new (map fst o1) (map snd o1))"
    and "sorted (map fst o1)"
proof -
  have o: "omap_ok o1" unfolding o1_def by (rule omap.invar_put_all) simp
  have "distinct (map fst (zip (dist_items d) (dist_probs d)))"
    using assms(1) by (simp add: dist_ok_def)
  then have "map_of o1 k = map_of (zip (dist_items d) (dist_probs d)) k" for k
    by (simp add: o1_def omap.lookup_put_all split: option.splits)
  then show "dist_prob (distribution_new (map fst o1) (map snd o1)) = dist_prob d"
    by (auto simp: dist_prob_def distribution_new_def zip_map_fst_snd)
  show "dist_ok (distribution_new (map fst o1) (map snd o1))" "sorted (map fst o1)"
    using o by (simp_all add: dist_ok_def distribution_new_def omap_ok_def)
qed

text \<open>
  Round trip of the distribution file: whatever order the hash tables are traversed in, loading what \<^verbatim>\<open>dump\<close>
  wrote into a fresh object gives the same number of keys, dummy key, replica counts and labels, and both
  distributions assign the same probability to every item; the items come back sorted.
\<close>

lemma distinfo_dump_load:
  assumes "iter_ok iter" "distribution_info_ok d"
  shows "\<exists>file d'. distinfo_dump iter d = Inr file \<and> distinfo_load file distribution_info_new = Inr d' \<and>
           num_keys d' = num_keys d \<and> dummy_key d' = dummy_key d \<and>
           map_of (key_to_number_of_replicas d') = map_of (key_to_number_of_replicas d) \<and>
           map_of (replica_to_label d') = map_of (replica_to_label d) \<and>
           dist_prob (fake_distribution d') = dist_prob (fake_distribution d) \<and>
           dist_prob (real_distribution d') = dist_prob (real_distribution d) \<and>
           sorted (dist_items (fake_distribution d')) \<and> distribution_info_ok d'"
proof -
  let ?F = "omap.put_all (zip (dist_items (fake_distribution d)) (dist_probs (fake_distribution d))) []"
  let ?R = "omap.put_all (zip (dist_items (real_distribution d)) (dist_probs (real_distribution d))) []"
  let ?K = "omap.put_all (iter (key_to_number_of_replicas d)) []"
  let ?L = "omap.put_all (iter (replica_to_label d)) []"
  define w where "w = \<lparr>di_num_keys = num_keys d, di_dummy_key = dummy_key d, di_key_to_number_of_replicas = ?K,
      di_replica_to_label = ?L, di_fake_distribution = ?F, di_real_distribution = ?R\<rparr>"
  have ok: "dist_ok (fake_distribution d)" "dist_ok (real_distribution d)"
    "table_ok (key_to_number_of_replicas d)" "table_ok (replica_to_label d)"
    using assms(2) by (simp_all add: distribution_info_ok_def)
  have dump: "distinfo_dump iter d = Inr (di_write w)"
    using ok by (simp add: distinfo_dump_def dist_entries_ok w_def)
  have "dist_info_ok w" by (simp add: dist_info_ok_def w_def omap.invar_put_all)
  then have read: "di_read dist_info_new (di_write w) = Inr w" by (rule di_read_write)
  define d' where "d' = distribution_info_new\<lparr>num_keys := num_keys d, dummy_key := dummy_key d,
      key_to_number_of_replicas := umap.put_all ?K [], replica_to_label := umap.put_all ?L [],
      fake_distribution := distribution_new (map fst ?F) (map snd ?F),
      real_distribution := distribution_new (map fst ?R) (map snd ?R)\<rparr>"
  have load: "distinfo_load (di_write w) distribution_info_new = Inr d'"
    unfolding distinfo_load_def read by (simp add: d'_def w_def distribution_info_new_def)
  have "map_of (key_to_number_of_replicas d') = map_of (key_to_number_of_replicas d)"
    "map_of (replica_to_label d') = map_of (replica_to_label d)"
    using map_of_put_all_iter [OF assms(1)] ok by (auto simp: d'_def)
  moreover have "dist_prob (fake_distribution d') = dist_prob (fake_distribution d)"
    "dist_prob (real_distribution d') = dist_prob (real_distribution d)"
    "sorted (dist_items (fake_distribution d'))"
    using dist_prob_sorted [OF ok(1)] dist_prob_sorted [OF ok(2)] by (simp_all add: d'_def) (simp add: distribution_new_def)
  moreover have "distribution_info_ok d'"
    using dist_prob_sorted [OF ok(1)] dist_prob_sorted [OF ok(2)]
    by (simp add: d'_def distribution_info_ok_def umap.invar_put_all)
  ultimately show ?thesis using dump load by (intro exI conjI) (auto simp: d'_def)
qed

end
