(* ===== verification/Util.thy ===== *)
theory Util
  imports Complex_Main Cpp_String "HOL-Library.Char_ord"
begin

text \<open>
  proxy/src/util.cpp: the random helpers. A pseudo-random generator is represented by the values it
  yields: an operation that draws receives the draws as arguments, and what is proved holds for all
  of them.
\<close>

text \<open>A uniform draw between two bounds; \<open>d\<close> is what the engine yields.\<close>

definition rand_uint32 :: "uint32 \<Rightarrow> uint32 \<Rightarrow> nat \<Rightarrow> uint32" where
  "rand_uint32 lo hi d = lo + of_nat (d mod (unat (hi - lo) + 1))"

definition rand_str :: "nat list \<Rightarrow> string" where
  "rand_str ds = map (\<lambda>d. digit_char (unat (rand_uint32 0 500 d) mod 10)) ds"

text \<open>\<open>u\<close> is the uniform draw from \<open>[0, 1)\<close>.\<close>

definition prob :: "rat \<Rightarrow> rat \<Rightarrow> bool" where
  "prob p u \<longleftrightarrow> u < p"

text \<open>The conversion of a \<^verbatim>\<open>double\<close> to \<^verbatim>\<open>int\<close> drops the fraction.\<close>

definition to_int :: "rat \<Rightarrow> int outcome" where
  "to_int x =
     (let n = (if 0 \<le> x then \<lfloor>x\<rfloor> else \<lceil>x\<rceil>) in
      if int32_range n then Inr n else Inl (Undefined_behaviour ''conversion out of range''))"

lemma rand_uint32_zero_range:
  "unat (rand_uint32 0 hi d) = d mod (unat hi + 1)" "rand_uint32 0 hi d \<le> hi"
proof -
  have "d mod (unat hi + 1) < unat hi + 1" by simp
  moreover have "unat hi < 2 ^ 32" using unsigned_less [of hi, where 'a = nat] by simp
  ultimately have le: "d mod (unat hi + 1) \<le> unat hi" "d mod (unat hi + 1) < 2 ^ 32" by linarith+
  then show eq: "unat (rand_uint32 0 hi d) = d mod (unat hi + 1)"
    by (simp add: rand_uint32_def unsigned_of_nat take_bit_nat_eq_self)
  show "rand_uint32 0 hi d \<le> hi" using eq le(1) by (simp add: word_le_nat_alt)
qed

text \<open>A draw of an index of a container with \<open>n\<close> elements, \<^verbatim>\<open>rand_uint32(0, n - 1)\<close>.\<close>

lemma rand_index:
  assumes "0 < n" "n < 2 ^ 31"
  shows "sint (rand_uint32 0 (of_nat n - 1) d) = int (d mod n)"
proof -
  have "(of_nat n - 1 :: uint32) = of_nat (n - 1)" using assms(1) by (simp add: of_nat_diff)
  moreover have "unat (of_nat (n - 1) :: uint32) = n - 1"
    using assms by (simp only: unsigned_of_nat) (simp add: take_bit_nat_eq_self)
  ultimately have "unat (of_nat n - 1 :: uint32) = n - 1" by simp
  then have u: "unat (rand_uint32 0 (of_nat n - 1) d) = d mod n"
    using assms(1) by (simp add: rand_uint32_zero_range)
  have "d mod n < 2 ^ 31" using assms mod_less_divisor [of n d] by linarith
  with u have "rand_uint32 0 (of_nat n - 1) d = word_of_int (int (d mod n))"
    by (metis of_int_of_nat_eq of_nat_unat word_of_int_uint)
  moreover have "sint (word_of_int (int (d mod n)) :: uint32) = int (d mod n)"
    using \<open>d mod n < 2 ^ 31\<close> by (simp only: signed_of_int) (simp add: signed_take_bit_int_eq_self)
  ultimately show ?thesis by simp
qed

lemma rand_str_props: "length (rand_str ds) = length ds" "c \<in> set (rand_str ds) \<Longrightarrow> is_digit c"
  by (auto simp: rand_str_def)

end
