(* ===== verification/Host_Info.thy ===== *)
theory Host_Info
  imports Cpp_String Containers
begin

text \<open>
  The cluster layout, proxy/src/host_info.h and host_info.cpp: the hosts file, the lookups on it,
  and the numbering of workers. Every proxy instance computes the index of its first worker with
  \<^verbatim>\<open>get_base_idx\<close> and the number of workers of a layer with \<^verbatim>\<open>get_num_columns\<close>; the theorems at the
  end say that those numbers fit together when the layout is a grid.
\<close>

definition HOST_TYPE_L1 :: int where "HOST_TYPE_L1 = 0"
definition HOST_TYPE_L2 :: int where "HOST_TYPE_L2 = 1"
definition HOST_TYPE_L3 :: int where "HOST_TYPE_L3 = 2"
definition HOST_TYPE_KV :: int where "HOST_TYPE_KV = 3"

lemmas host_type_defs = HOST_TYPE_L1_def HOST_TYPE_L2_def HOST_TYPE_L3_def HOST_TYPE_KV_def

record host =
  instance_name :: string
  h_type :: int
  hostname :: string
  port :: int
  row :: int
  column :: int
  num_workers :: int

section \<open>Loading the hosts file\<close>

text \<open>
  The file is its text. A read of the next line past the end of the file gives an empty line,
  and an empty line has no cell. The second result is the rest of the text.
\<close>

definition getNextLineAndSplitIntoTokens :: "string \<Rightarrow> string list \<times> string" where
  "getNextLineAndSplitIntoTokens str =
     (let (line, rest) = getline_or_empty (CHR ''\<newline>'') str in (split_on (CHR '' '') line, rest))"

definition host_type_of :: "string \<Rightarrow> int option" where
  "host_type_of s =
     (if s = ''L1'' then Some HOST_TYPE_L1
      else if s = ''L2'' then Some HOST_TYPE_L2
      else if s = ''L3'' then Some HOST_TYPE_L3
      else if s = ''KV'' then Some HOST_TYPE_KV
      else None)"

text \<open>The body of the loop after the length check; \<open>None\<close> is one of the \<^verbatim>\<open>return false\<close>.\<close>

definition host_of_row :: "string list \<Rightarrow> host option" where
  "host_of_row cells =
     (case host_type_of (cells ! 1) of
        None \<Rightarrow> None
      | Some t \<Rightarrow>
          (case stoi (cells ! 3) of Inl _ \<Rightarrow> None | Inr p \<Rightarrow>
          (case stoi (cells ! 4) of Inl _ \<Rightarrow> None | Inr r \<Rightarrow>
          (case stoi (cells ! 5) of Inl _ \<Rightarrow> None | Inr c \<Rightarrow>
          (case stoi (cells ! 6) of Inl _ \<Rightarrow> None | Inr w \<Rightarrow>
             Some \<lparr>instance_name = cells ! 0, h_type = t, hostname = cells ! 2, port = p,
                   row = r, column = c, num_workers = w\<rparr>)))))"

text \<open>
  \<^verbatim>\<open>load\<close> returns whether it succeeded; the hosts pushed before a bad row stay in \<^verbatim>\<open>hosts_\<close>. The
  loop ends at the first row without cells, so that lines after an empty line are not read.
\<close>

lemma getNextLine_shrinks:
  "getNextLineAndSplitIntoTokens str = (cells, rest) \<Longrightarrow> cells \<noteq> [] \<Longrightarrow> length rest < length str"
  by (auto simp: getNextLineAndSplitIntoTokens_def getline_or_empty_def Let_def
      dest: getline_shrinks split: option.splits prod.splits)

function load_rows :: "string \<Rightarrow> host list \<Rightarrow> bool \<times> host list" where
  "load_rows str hs =
     (let (cells, rest) = getNextLineAndSplitIntoTokens str in
      if cells = [] then (True, hs)
      else if length cells < 7 then (False, hs)
      else (case host_of_row cells of
              None \<Rightarrow> (False, hs)
            | Some h \<Rightarrow> load_rows rest (hs @ [h])))"
  by pat_completeness auto
termination
  by (relation "measure (\<lambda>(str, hs). length str)") (auto simp: getNextLine_shrinks [OF sym])

declare load_rows.simps [simp del]

definition hi_load :: "string option \<Rightarrow> host list \<Rightarrow> bool \<times> host list" where
  "hi_load file hs = (case file of None \<Rightarrow> (False, hs) | Some str \<Rightarrow> load_rows str hs)"

section \<open>Lookups\<close>

definition get_host :: "host list \<Rightarrow> string \<Rightarrow> host option" where
  "get_host hs name = find (\<lambda>h. instance_name h = name) hs"

definition get_hostname :: "host list \<Rightarrow> string \<Rightarrow> string option" where
  "get_hostname hs name = map_option hostname (find (\<lambda>h. instance_name h = name) hs)"

definition get_port :: "host list \<Rightarrow> string \<Rightarrow> int option" where
  "get_port hs name = map_option port (find (\<lambda>h. instance_name h = name) hs)"

definition get_hosts_by_type :: "host list \<Rightarrow> int \<Rightarrow> host list" where
  "get_hosts_by_type hs t = filter (\<lambda>h. t = - 1 \<or> h_type h = t) hs"

text \<open>
  \<^verbatim>\<open>std::sort\<close> by row. \<open>sort_key\<close> is the stable order; for hosts whose rows are distinct there is
  only one sorted order, so the choice does not matter.
\<close>

definition get_replicas :: "host list \<Rightarrow> int \<Rightarrow> int \<Rightarrow> host list" where
  "get_replicas hs t c = sort_key row (filter (\<lambda>h. h_type h = t \<and> column h = c) hs)"

fun index_of :: "'a \<Rightarrow> 'a list \<Rightarrow> int \<Rightarrow> int" where
  "index_of x [] i = - 1"
| "index_of x (y # ys) i = (if x = y then i else index_of x ys (i + 1))"

definition get_host_idx :: "host list \<Rightarrow> int \<Rightarrow> string \<Rightarrow> int" where
  "get_host_idx hs t name =
     index_of name (remdups_adj (sort (map hostname (filter (\<lambda>h. h_type h = t) hs)))) 0"

text \<open>\<^verbatim>\<open>cols[h.column] = h.num_workers\<close>: of several hosts in a column the last one counts.\<close>

definition hi_cols :: "host list \<Rightarrow> int \<Rightarrow> (int, int) omap" where
  "hi_cols hs t = omap.put_all (map (\<lambda>h. (column h, num_workers h)) (filter (\<lambda>h. h_type h = t) hs)) []"

definition get_num_columns :: "host list \<Rightarrow> int \<Rightarrow> bool \<Rightarrow> int" where
  "get_num_columns hs t count_workers =
     fold (\<lambda>it acc. acc + (if count_workers then snd it else 1)) (hi_cols hs t) 0"

definition get_base_idx :: "host list \<Rightarrow> string \<Rightarrow> int option" where
  "get_base_idx hs name =
     (case get_host hs name of
        None \<Rightarrow> None
      | Some h \<Rightarrow>
          Some (fold (\<lambda>peer acc. if row peer = row h \<and> column peer < column h
                                 then acc + num_workers peer else acc)
                 (get_hosts_by_type hs (h_type h)) 0))"

section \<open>Facts about the lookups\<close>

lemma set_get_replicas:
  "set (get_replicas hs t c) = {h \<in> set hs. h_type h = t \<and> column h = c}"
  by (simp add: get_replicas_def)

lemma sorted_get_replicas: "sorted (map row (get_replicas hs t c))"
  by (simp add: get_replicas_def)

lemma index_of_spec:
  "index_of x xs i = - 1 \<and> x \<notin> set xs \<or>
     (\<exists>k. k < length xs \<and> xs ! k = x \<and> index_of x xs i = i + int k)" if "0 \<le> i"
  using that
proof (induction xs arbitrary: i)
  case Nil
  then show ?case by simp
next
  case (Cons y ys)
  show ?case
  proof (cases "x = y")
    case True
    then show ?thesis by (intro disjI2 exI [of _ 0]) simp
  next
    case False
    from Cons.IH [of "i + 1"] Cons.prems consider
      "index_of x ys (i + 1) = - 1" "x \<notin> set ys" |
      k where "k < length ys" "ys ! k = x" "index_of x ys (i + 1) = i + 1 + int k"
      by auto
    then show ?thesis
    proof cases
      case 1
      with False show ?thesis by simp
    next
      case 2
      with False show ?thesis by (intro disjI2 exI [of _ "Suc k"]) simp
    qed
  qed
qed

lemma get_host_Some:
  "get_host hs name = Some h \<Longrightarrow> h \<in> set hs \<and> instance_name h = name"
  by (auto simp: get_host_def find_Some_iff)

lemma get_host_distinct:
  assumes "distinct (map instance_name hs)" and "h \<in> set hs"
  shows "get_host hs (instance_name h) = Some h"
proof -
  have "\<exists>g. get_host hs (instance_name h) = Some g"
    using assms(2) by (cases "get_host hs (instance_name h)") (auto simp: get_host_def find_None_iff)
  then obtain g where g: "get_host hs (instance_name h) = Some g" ..
  with get_host_Some [OF g] assms have "g = h"
    by (metis distinct_map inj_on_contraD)
  with g show ?thesis by simp
qed

section \<open>Layouts\<close>

text \<open>
  A layer is laid out as a grid: one host per row and column, every row has every column, and
  the replicas of a column have the same positive number of workers.
\<close>

definition grid_ok :: "host list \<Rightarrow> int \<Rightarrow> bool" where
  "grid_ok hs t \<longleftrightarrow>
     (let ts = filter (\<lambda>h. h_type h = t) hs in
      distinct (map instance_name hs) \<and>
      distinct (map (\<lambda>h. (row h, column h)) ts) \<and>
      (\<forall>h \<in> set ts. \<forall>g \<in> set ts. list_ex (\<lambda>k. row k = row h \<and> column k = column g) ts) \<and>
      (\<forall>h \<in> set ts. \<forall>g \<in> set ts. column h = column g \<longrightarrow> num_workers h = num_workers g) \<and>
      (\<forall>h \<in> set ts. 0 < num_workers h))"

abbreviation layer :: "host list \<Rightarrow> int \<Rightarrow> host set" where
  "layer hs t \<equiv> {h \<in> set hs. h_type h = t}"

lemma grid_okD:
  assumes "grid_ok hs t"
  shows "distinct (map instance_name hs)"
    and "inj_on (\<lambda>h. (row h, column h)) (layer hs t)"
    and "a \<in> layer hs t \<Longrightarrow> b \<in> layer hs t \<Longrightarrow> \<exists>k \<in> layer hs t. row k = row a \<and> column k = column b"
    and "a \<in> layer hs t \<Longrightarrow> b \<in> layer hs t \<Longrightarrow> column a = column b \<Longrightarrow> num_workers a = num_workers b"
    and "a \<in> layer hs t \<Longrightarrow> 0 < num_workers a"
  using assms unfolding grid_ok_def Let_def distinct_map list_ex_iff set_filter by blast+

lemma hi_cols_ok: "omap_ok (hi_cols hs t)"
  by (simp add: hi_cols_def omap.invar_put_all)

lemma hi_cols_entries:
  assumes "\<And>h g. h \<in> set hs \<Longrightarrow> g \<in> set hs \<Longrightarrow> h_type h = t \<Longrightarrow> h_type g = t \<Longrightarrow>
             column h = column g \<Longrightarrow> num_workers h = num_workers g"
  shows "set (hi_cols hs t) = (\<lambda>h. (column h, num_workers h)) ` {h \<in> set hs. h_type h = t}"
proof -
  let ?L = "map (\<lambda>h. (column h, num_workers h)) (filter (\<lambda>h. h_type h = t) hs)"
  have "map_of (hi_cols hs t) c = Some w \<longleftrightarrow> (c, w) \<in> set ?L" for c w
  proof -
    have "map_of (hi_cols hs t) c = map_of (rev ?L) c"
      by (simp add: hi_cols_def omap.lookup_put_all_last split: option.splits)
    also have "\<dots> = Some w \<longleftrightarrow> (c, w) \<in> set (rev ?L)"
      by (rule map_of_functional) (auto dest: assms)
    finally show ?thesis by simp
  qed
  moreover have "map_of (hi_cols hs t) c = Some w \<longleftrightarrow> (c, w) \<in> set (hi_cols hs t)" for c w
    using hi_cols_ok [of hs t] by (simp add: omap_ok_def)
  ultimately show ?thesis by (auto simp: set_eq_iff)
qed

lemma fold_add_sum: "fold (\<lambda>x acc. acc + f x) xs (a :: int) = a + sum_list (map f xs)"
  by (induction xs arbitrary: a) simp_all

lemma fold_add_if_sum:
  "fold (\<lambda>x acc. if P x then acc + f x else acc) xs (a :: int) = a + sum_list (map f (filter P xs))"
  by (induction xs arbitrary: a) simp_all

lemma get_num_columns_workers: "get_num_columns hs t True = sum_list (map snd (hi_cols hs t))"
  by (simp add: get_num_columns_def fold_add_sum)

text \<open>Consecutive blocks whose lengths are the entries of a sorted map tile an interval.\<close>

definition block_start :: "(int \<times> int) list \<Rightarrow> int \<Rightarrow> int" where
  "block_start kvs c = sum_list (map snd (filter (\<lambda>p. fst p < c) kvs))"

lemma block_start_nonneg: "\<forall>p \<in> set kvs. 0 \<le> snd p \<Longrightarrow> 0 \<le> block_start kvs c"
  by (auto simp: block_start_def intro!: sum_list_nonneg)

lemma blocks_tile:
  assumes "omap_ok kvs" and "\<forall>p \<in> set kvs. 0 < snd p"
    and "0 \<le> i" "i < sum_list (map snd kvs)"
  shows "\<exists>!p. p \<in> set kvs \<and> block_start kvs (fst p) \<le> i \<and> i < block_start kvs (fst p) + snd p"
  using assms
proof (induction kvs arbitrary: i)
  case Nil
  then show ?case by simp
next
  case (Cons q kvs)
  obtain j w where q: "q = (j, w)" by (cases q)
  from Cons.prems q have ok: "omap_ok kvs" "\<forall>c \<in> fst ` set kvs. j < c" "0 < w"
      "\<forall>p \<in> set kvs. 0 < snd p"
    by (auto simp: omap_ok_Cons)
  have j: "block_start (q # kvs) j = 0"
  proof -
    have "filter (\<lambda>p. fst p < j) (q # kvs) = []" using ok(2) q by (force simp: filter_empty_conv)
    then show ?thesis by (simp add: block_start_def)
  qed
  have tl: "block_start (q # kvs) c = w + block_start kvs c" if "c \<in> fst ` set kvs" for c
    using ok(2) q that by (auto simp: block_start_def)
  have pos: "0 \<le> block_start kvs c" for c
    using ok(4) by (intro block_start_nonneg) auto
  show ?case
  proof (cases "i < w")
    case True
    show ?thesis
    proof (rule ex1I [of _ q])
      show "q \<in> set (q # kvs) \<and> block_start (q # kvs) (fst q) \<le> i \<and> i < block_start (q # kvs) (fst q) + snd q"
        using True Cons.prems(3) j q by simp
      fix p assume p: "p \<in> set (q # kvs) \<and> block_start (q # kvs) (fst p) \<le> i \<and>
          i < block_start (q # kvs) (fst p) + snd p"
      show "p = q"
      proof (rule ccontr)
        assume "p \<noteq> q"
        with p tl [of "fst p"] pos [of "fst p"] True show False by force
      qed
    qed
  next
    case False
    then have "\<exists>!p. p \<in> set kvs \<and> block_start kvs (fst p) \<le> i - w \<and> i - w < block_start kvs (fst p) + snd p"
      using Cons.prems ok q by (intro Cons.IH) auto
    then obtain p where p: "p \<in> set kvs" "block_start kvs (fst p) \<le> i - w" "i - w < block_start kvs (fst p) + snd p"
      and uniq: "\<And>r. r \<in> set kvs \<Longrightarrow> block_start kvs (fst r) \<le> i - w \<Longrightarrow> i - w < block_start kvs (fst r) + snd r \<Longrightarrow> r = p"
      by metis
    show ?thesis
    proof (rule ex1I [of _ p])
      show "p \<in> set (q # kvs) \<and> block_start (q # kvs) (fst p) \<le> i \<and> i < block_start (q # kvs) (fst p) + snd p"
        using p tl [of "fst p"] by force
      fix r assume r: "r \<in> set (q # kvs) \<and> block_start (q # kvs) (fst r) \<le> i \<and>
          i < block_start (q # kvs) (fst r) + snd r"
      have "r \<noteq> q" using r j q False by auto
      with r have rk: "r \<in> set kvs" by simp
      with r tl [of "fst r"] show "r = p" by (intro uniq) force+
    qed
  qed
qed

text \<open>On a grid, the base index of a host is where its column starts in the map of columns.\<close>

lemma get_base_idx_block:
  assumes grid: "grid_ok hs t" and h: "h \<in> set hs" "h_type h = t" and t: "t \<noteq> - 1"
  shows "get_base_idx hs (instance_name h) = Some (block_start (hi_cols hs t) (column h))"
proof -
  let ?T = "{g \<in> set hs. h_type g = t}"
  let ?R = "{g \<in> ?T. row g = row h \<and> column g < column h}"
  let ?C = "{p \<in> set (hi_cols hs t). fst p < column h}"
  let ?f = "\<lambda>g. (column g, num_workers g)"
  note dn = grid_okD(1) [OF grid] and rc = grid_okD(2) [OF grid]
    and full = grid_okD(3) [OF grid] and same = grid_okD(4) [OF grid]
  have cols: "set (hi_cols hs t) = ?f ` ?T" by (intro hi_cols_entries same) simp_all
  have img: "?f ` ?R = ?C"
  proof
    show "?f ` ?R \<subseteq> ?C" using cols by auto
    show "?C \<subseteq> ?f ` ?R"
    proof
      fix p assume "p \<in> ?C"
      with cols obtain g where g: "g \<in> ?T" "p = ?f g" "column g < column h" by auto
      from full [of h g] h g(1) obtain k where "k \<in> ?T" "row k = row h" "column k = column g" by auto
      with same [of k g] g have "p = ?f k" "k \<in> ?R" by simp_all
      then show "p \<in> ?f ` ?R" by (rule image_eqI)
    qed
  qed
  have inj: "inj_on ?f ?R" using rc by (auto simp: inj_on_def)
  have dl: "distinct (filter (\<lambda>g. row g = row h \<and> column g < column h) (get_hosts_by_type hs t))"
    using dn by (simp add: get_hosts_by_type_def distinct_map)
  have dc: "distinct (filter (\<lambda>p. fst p < column h) (hi_cols hs t))"
    using hi_cols_ok [of hs t] by (auto simp: omap_ok_def distinct_map)
  have "sum_list (map num_workers (filter (\<lambda>g. row g = row h \<and> column g < column h) (get_hosts_by_type hs t)))
        = sum num_workers ?R"
    using dl t by (simp add: sum_list_distinct_conv_sum_set get_hosts_by_type_def conj_ac)
  also have "\<dots> = sum snd (?f ` ?R)" using inj by (simp add: sum.reindex)
  also have "\<dots> = block_start (hi_cols hs t) (column h)"
    using dc img by (simp add: block_start_def sum_list_distinct_conv_sum_set)
  finally show ?thesis
    using dn h by (simp add: get_base_idx_def get_host_distinct fold_add_if_sum)
qed

text \<open>
  Worker numbering: in a layer laid out as a grid, the ranges
  \<^verbatim>\<open>[get_base_idx, get_base_idx + num_workers)\<close> of the hosts of one row tile
  \<^verbatim>\<open>[0, get_num_columns(type, true))\<close>. Every worker index that consistent hashing can produce for
  the layer belongs to exactly one host of the row, so that no two hosts answer for the same
  index and no request is routed to an index nobody serves.
\<close>

lemma worker_ranges_tile:
  assumes "grid_ok hs t" and "t \<noteq> - 1" and "g \<in> set hs" "h_type g = t"
    and "0 \<le> i" "i < get_num_columns hs t True"
  shows "\<exists>!h. h \<in> set hs \<and> h_type h = t \<and> row h = row g \<and>
           (\<exists>b. get_base_idx hs (instance_name h) = Some b \<and> b \<le> i \<and> i < b + num_workers h)"
proof -
  let ?T = "{h \<in> set hs. h_type h = t}"
  let ?f = "\<lambda>h. (column h, num_workers h)"
  let ?B = "block_start (hi_cols hs t)"
  note rc = grid_okD(2) [OF assms(1)] and full = grid_okD(3) [OF assms(1)]
    and same = grid_okD(4) [OF assms(1)] and pos = grid_okD(5) [OF assms(1)]
  have cols: "set (hi_cols hs t) = ?f ` ?T" by (intro hi_cols_entries same) simp_all
  have "\<forall>p \<in> set (hi_cols hs t). 0 < snd p" unfolding cols using pos by simp
  then have "\<exists>!p. p \<in> set (hi_cols hs t) \<and> ?B (fst p) \<le> i \<and> i < ?B (fst p) + snd p"
    using assms(5,6) by (intro blocks_tile hi_cols_ok) (simp_all add: get_num_columns_workers)
  then obtain p where p: "p \<in> ?f ` ?T" "?B (fst p) \<le> i" "i < ?B (fst p) + snd p"
    and uniq: "\<And>q. q \<in> ?f ` ?T \<Longrightarrow> ?B (fst q) \<le> i \<Longrightarrow> i < ?B (fst q) + snd q \<Longrightarrow> q = p"
    unfolding cols by blast
  from p(1) obtain a where a: "a \<in> ?T" "p = ?f a" by auto
  with full [of g a] assms(3,4) obtain h where h: "h \<in> ?T" "row h = row g" "column h = column a" by auto
  with same [of h a] a have ph: "p = ?f h" by simp
  have base: "get_base_idx hs (instance_name k) = Some (?B (column k))" if "k \<in> ?T" for k
    using that assms(1,2) by (simp add: get_base_idx_block)
  show ?thesis
  proof (rule ex1I [of _ h])
    show "h \<in> set hs \<and> h_type h = t \<and> row h = row g \<and>
        (\<exists>b. get_base_idx hs (instance_name h) = Some b \<and> b \<le> i \<and> i < b + num_workers h)"
      using h p ph base [of h] by simp
  next
    fix k assume k: "k \<in> set hs \<and> h_type k = t \<and> row k = row g \<and>
        (\<exists>b. get_base_idx hs (instance_name k) = Some b \<and> b \<le> i \<and> i < b + num_workers k)"
    then have kT: "k \<in> ?T" by simp
    with k base [of k] uniq [of "?f k"] have "?f k = p" by auto
    with ph k h rc kT show "k = h" by (auto simp: inj_on_def)
  qed
qed

text \<open>A two by two layer, with one and with two workers per column, beside a storage host.\<close>

definition example_layout :: "host list" where
  "example_layout =
     [\<lparr>instance_name = ''l2_0_0'', h_type = 1, hostname = ''a'', port = 9090, row = 0, column = 0, num_workers = 1\<rparr>,
      \<lparr>instance_name = ''l2_0_1'', h_type = 1, hostname = ''b'', port = 9090, row = 0, column = 1, num_workers = 2\<rparr>,
      \<lparr>instance_name = ''l2_1_0'', h_type = 1, hostname = ''b'', port = 9091, row = 1, column = 0, num_workers = 1\<rparr>,
      \<lparr>instance_name = ''l2_1_1'', h_type = 1, hostname = ''a'', port = 9091, row = 1, column = 1, num_workers = 2\<rparr>,
      \<lparr>instance_name = ''kv'', h_type = 3, hostname = ''c'', port = 6379, row = 0, column = 0, num_workers = 1\<rparr>]"

section \<open>The hosts file\<close>

text \<open>The rows of a hosts file, by the schema in host_info.h.\<close>

definition type_name :: "int \<Rightarrow> string" where
  "type_name t = (if t = 0 then ''L1'' else if t = 1 then ''L2'' else if t = 2 then ''L3'' else ''KV'')"

definition row_of_host :: "host \<Rightarrow> string" where
  "row_of_host h =
     instance_name h @ '' '' @ type_name (h_type h) @ '' '' @ hostname h @ '' '' @ to_string (port h) @ '' '' @
     to_string (row h) @ '' '' @ to_string (column h) @ '' '' @ to_string (num_workers h)"

definition host_ok :: "host \<Rightarrow> bool" where
  "host_ok h \<longleftrightarrow>
     CHR '' '' \<notin> set (instance_name h) \<and> CHR ''\<newline>'' \<notin> set (instance_name h) \<and>
     CHR '' '' \<notin> set (hostname h) \<and> CHR ''\<newline>'' \<notin> set (hostname h) \<and>
     h_type h \<in> {0, 1, 2, 3} \<and> int32_range (port h) \<and> int32_range (row h) \<and>
     int32_range (column h) \<and> int32_range (num_workers h)"

lemma type_name_facts:
  "CHR '' '' \<notin> set (type_name t)" "CHR ''\<newline>'' \<notin> set (type_name t)"
  "t \<in> {0, 1, 2, 3} \<Longrightarrow> host_type_of (type_name t) = Some t"
  by (auto simp: type_name_def host_type_of_def host_type_defs)

lemma to_string_no_newline: "CHR ''\<newline>'' \<notin> set (to_string i)"
  using to_string_chars [of "CHR ''\<newline>''" i] by (auto simp: is_digit_def)

lemma split_row_of_host:
  assumes "host_ok h"
  shows "split_on (CHR '' '') (row_of_host h) =
           [instance_name h, type_name (h_type h), hostname h, to_string (port h), to_string (row h),
            to_string (column h), to_string (num_workers h)]"
  using assms
  by (simp add: row_of_host_def host_ok_def split_on_cell split_on_last type_name_facts to_string_no_space)

lemma host_of_row_of_host:
  "host_ok h \<Longrightarrow> host_of_row (split_on (CHR '' '') (row_of_host h)) = Some h"
  by (simp add: split_row_of_host host_of_row_def type_name_facts host_ok_def)

lemma next_line_row:
  assumes "host_ok h"
  shows "getNextLineAndSplitIntoTokens (row_of_host h @ ''\<newline>'' @ rest) =
           (split_on (CHR '' '') (row_of_host h), rest)"
proof -
  have "CHR ''\<newline>'' \<notin> set (row_of_host h)"
    using assms by (simp add: row_of_host_def host_ok_def type_name_facts to_string_no_newline)
  then have "getline_or_empty (CHR ''\<newline>'') (row_of_host h @ ''\<newline>'' @ rest) = (row_of_host h, rest)"
    by (simp add: getline_or_empty_def getline_append)
  then show ?thesis by (simp add: getNextLineAndSplitIntoTokens_def)
qed

lemma load_rows_step:
  "host_ok h \<Longrightarrow> load_rows (row_of_host h @ ''\<newline>'' @ rest) hs = load_rows rest (hs @ [h])"
  by (subst load_rows.simps, subst next_line_row, assumption)
    (simp add: host_of_row_of_host, simp add: split_row_of_host)

lemma load_rows_prefix:
  "\<forall>h \<in> set gs. host_ok h \<Longrightarrow>
     load_rows (concat (map (\<lambda>h. row_of_host h @ ''\<newline>'') gs) @ rest) hs = load_rows rest (hs @ gs)"
  by (induction gs arbitrary: hs) (simp_all add: load_rows_step [simplified])

lemma load_rows_end: "load_rows [] hs = (True, hs)" "load_rows (CHR ''\<newline>'' # rest) hs = (True, hs)"
  by (subst load_rows.simps, simp add: getNextLineAndSplitIntoTokens_def getline_or_empty_def getline_def)+

text \<open>
  Loading the hosts file: the rows of well-formed hosts are read back, in order, behind the hosts
  that were loaded before. Reading stops with success at the end of the file or at an empty line,
  whatever stands behind it; a row with fewer than seven cells makes \<^verbatim>\<open>load\<close> return false and
  leaves the hosts of the rows before it in place.
\<close>

lemma hosts_file_load:
  assumes "\<forall>h \<in> set gs. host_ok h" and "CHR ''\<newline>'' \<notin> set bad"
    and "split_on (CHR '' '') bad \<noteq> []" "length (split_on (CHR '' '') bad) < 7"
  shows "hi_load (Some (concat (map (\<lambda>h. row_of_host h @ ''\<newline>'') gs))) hs = (True, hs @ gs) \<and>
         hi_load (Some (concat (map (\<lambda>h. row_of_host h @ ''\<newline>'') gs) @ ''\<newline>'' @ rest)) hs = (True, hs @ gs) \<and>
         hi_load (Some (concat (map (\<lambda>h. row_of_host h @ ''\<newline>'') gs) @ bad @ ''\<newline>'' @ rest)) hs = (False, hs @ gs)"
proof (intro conjI)
  show "hi_load (Some (concat (map (\<lambda>h. row_of_host h @ ''\<newline>'') gs))) hs = (True, hs @ gs)"
    using load_rows_prefix [OF assms(1), of "[]" hs] by (simp add: hi_load_def load_rows_end)
  show "hi_load (Some (concat (map (\<lambda>h. row_of_host h @ ''\<newline>'') gs) @ ''\<newline>'' @ rest)) hs = (True, hs @ gs)"
    by (simp add: hi_load_def load_rows_prefix [OF assms(1), simplified] load_rows_end)
  have "load_rows (bad @ ''\<newline>'' @ rest) (hs @ gs) = (False, hs @ gs)"
    using assms(2,3,4)
    by (subst load_rows.simps)
      (simp add: getNextLineAndSplitIntoTokens_def getline_or_empty_def getline_append)
  then show "hi_load (Some (concat (map (\<lambda>h. row_of_host h @ ''\<newline>'') gs) @ bad @ ''\<newline>'' @ rest)) hs = (False, hs @ gs)"
    by (simp add: hi_load_def load_rows_prefix [OF assms(1), simplified])
qed

end
