(* ===== verification/Proxy_Env.thy ===== *)
theory Proxy_Env
  imports Chain_Protocol Distribution Util Host_Info
begin

text \<open>
  What the proxies of the layers share. \<open>env\<close> is everything a proxy reads from outside: which servers
  accept connections, the draws of its random engines, and the clock. The draws are indexed by a
  counter that the proxy state carries, so that a run is determined by the environment and the calls. The
  second part is the place of a worker in the chain of its column, which \<^verbatim>\<open>init_proxy\<close> of l1\_proxy.cpp and
  l2\_proxy.cpp computes in the same way.
\<close>

section \<open>Environment\<close>

record env =
  env_up :: "string \<Rightarrow> int \<Rightarrow> bool"
  env_rand :: "nat \<Rightarrow> nat"
  env_unit :: "nat \<Rightarrow> rat"
  env_pick :: "nat \<Rightarrow> rat list \<Rightarrow> nat"
  env_now :: "nat \<Rightarrow> int"

text \<open>
  Documented behaviour of \<^verbatim>\<open>std::discrete_distribution\<close> and \<^verbatim>\<open>std::uniform_real_distribution\<close>: an index
  of one of the weights, and a number in \<open>[0, 1)\<close>; time stamps fit their 64-bit type.
\<close>

definition env_ok :: "env \<Rightarrow> bool" where
  "env_ok e \<longleftrightarrow>
     (\<forall>t ps. ps \<noteq> [] \<longrightarrow> env_pick e t ps < length ps) \<and> (\<forall>t. 0 \<le> env_unit e t \<and> env_unit e t < 1) \<and>
     (\<forall>t. int64_range (env_now e t))"

definition example_env :: env where
  "example_env = \<lparr>env_up = \<lambda>_ _. True, env_rand = \<lambda>t. t, env_unit = \<lambda>_. 0, env_pick = \<lambda>_ _. 0, env_now = \<lambda>_. 0\<rparr>"

lemma example_env_ok: "env_ok example_env"
  by (simp add: env_ok_def example_env_def int64_range_def)

section \<open>The place in the chain\<close>

definition chain_role_at :: "host list \<Rightarrow> host \<Rightarrow> chain_role" where
  "chain_role_at reps this =
     (if length reps = 1 then Singleton
      else if instance_name (hd reps) = instance_name this then Head
      else if instance_name (last reps) = instance_name this then Tail
      else Mid)"

definition worker_block :: "int \<Rightarrow> host \<Rightarrow> string" where
  "worker_block local_idx h = bid_make (hostname h) (port h + local_idx) (port h + local_idx) local_idx"

text \<open>\<^verbatim>\<open>next_block_id\<close>: the loop keeps the block of the last replica whose row is the next one.\<close>

definition next_block_at :: "int \<Rightarrow> host list \<Rightarrow> host \<Rightarrow> string" where
  "next_block_at local_idx reps this =
     fold (\<lambda>h nxt. if row h = row this + 1 then worker_block local_idx h else nxt) reps ''nil''"

text \<open>The rows of a column are numbered from 0 without gaps, and instances have different names.\<close>

definition column_ok :: "host list \<Rightarrow> bool" where
  "column_ok reps \<longleftrightarrow> reps \<noteq> [] \<and> map row reps = map int [0..<length reps] \<and> distinct (map instance_name reps)"

lemma column_ok_row:
  assumes "column_ok reps" "i < length reps"
  shows "row (reps ! i) = int i"
proof -
  have "map row reps ! i = int i" using assms by (simp add: column_ok_def)
  with assms(2) show ?thesis by simp
qed

lemma fold_last_match:
  "fold (\<lambda>h nxt. if P h then f h else nxt) xs a = (if filter P xs = [] then a else f (last (filter P xs)))"
  by (induction xs arbitrary: a) auto

lemma next_block_at_nth:
  assumes "column_ok reps" "i < length reps"
  shows "next_block_at l reps (reps ! i) = (if i + 1 < length reps then worker_block l (reps ! (i + 1)) else ''nil'')"
proof -
  let ?P = "\<lambda>h. row h = row (reps ! i) + 1"
  have P: "?P (reps ! j) \<longleftrightarrow> j = i + 1" if "j < length reps" for j
    using column_ok_row [OF assms(1) that] column_ok_row [OF assms] by auto
  have sub: "filter ?P reps = map ((!) reps) (filter (\<lambda>j. j = i + 1) [0..<length reps])"
  proof -
    have "filter ?P reps = filter ?P (map ((!) reps) [0..<length reps])" by (simp add: map_nth)
    also have "\<dots> = map ((!) reps) (filter (\<lambda>j. ?P (reps ! j)) [0..<length reps])" by (simp add: filter_map comp_def)
    also have "filter (\<lambda>j. ?P (reps ! j)) [0..<length reps] = filter (\<lambda>j. j = i + 1) [0..<length reps]"
      by (rule filter_cong) (use P in auto)
    finally show ?thesis .
  qed
  have "filter (\<lambda>j. j = i + 1) [0..<n] = (if i + 1 < n then [i + 1] else [])" for n
    by (induction n) auto
  with sub show ?thesis unfolding next_block_at_def fold_last_match by simp
qed

lemma chain_role_at_nth:
  assumes "distinct (map instance_name reps)" "i < length reps"
  shows "chain_role_at reps (reps ! i) =
           (if length reps = 1 then Singleton else if i = 0 then Head else if i + 1 = length reps then Tail else Mid)"
proof -
  have d: "instance_name (reps ! j) = instance_name (reps ! i) \<longleftrightarrow> j = i" if "j < length reps" for j
    using assms that by (auto simp: distinct_conv_nth)
  have ne: "reps \<noteq> []" using assms by auto
  show ?thesis
    using d [of 0] d [of "length reps - 1"] ne assms(2)
    by (auto simp: chain_role_at_def hd_conv_nth last_conv_nth)
qed

definition worker_addr_ok :: "int \<Rightarrow> host \<Rightarrow> bool" where
  "worker_addr_ok l h \<longleftrightarrow> CHR '':'' \<notin> set (hostname h) \<and> int32_range (port h + l) \<and> int32_range l"

lemma roles_of_distinct:
  assumes "distinct (map instance_name reps)" and ne: "reps \<noteq> []"
  shows "roles_ok (map (chain_role_at reps) reps)"
proof -
  have r: "map (chain_role_at reps) reps ! i =
      (if length reps = 1 then Singleton else if i = 0 then Head else if i + 1 = length reps then Tail else Mid)"
    if "i < length reps" for i
    using chain_role_at_nth [OF assms(1) that] that by simp
  show ?thesis unfolding roles_ok_def
  proof (intro conjI ballI)
    show "head_role (hd (map (chain_role_at reps) reps))"
      using r [of 0] ne by (simp add: hd_conv_nth head_role_def)
    show "tail_role (last (map (chain_role_at reps) reps))"
      using r [of "length reps - 1"] ne by (cases reps) (auto simp: last_conv_nth tail_role_def)
  next
    fix x assume "x \<in> set (tl (map (chain_role_at reps) reps))"
    then obtain i where "i < length reps - 1" "x = map (chain_role_at reps) reps ! Suc i"
      by (auto simp: in_set_conv_nth nth_tl)
    with r [of "Suc i"] show "\<not> head_role x" by (simp add: head_role_def)
  next
    fix x assume "x \<in> set (butlast (map (chain_role_at reps) reps))"
    then obtain i where "i < length reps - 1" "x = map (chain_role_at reps) reps ! i"
      by (auto simp: in_set_conv_nth nth_butlast)
    with r [of i] show "\<not> tail_role x" by (auto simp: tail_role_def)
  qed (use ne in simp)
qed

lemma roles_of_column: "column_ok reps \<Longrightarrow> roles_ok (map (chain_role_at reps) reps)"
  by (rule roles_of_distinct) (simp_all add: column_ok_def)

section \<open>Properties\<close>

text \<open>
  The workers with the same local index of the hosts in a column form one chain: exactly the first replica takes
  requests from the layer above, exactly the last one talks to the layer below, every other replica is
  connected to the worker of the replica in the next row, and the block name it connects to is read back as that worker's
  host, port and index.
\<close>

lemma column_forms_chain:
  assumes "column_ok (get_replicas hs t c)" and "list_all (worker_addr_ok l) (get_replicas hs t c)"
  shows "let reps = get_replicas hs t c in
         roles_ok (map (chain_role_at reps) reps) \<and>
         next_block_at l reps (last reps) = ''nil'' \<and>
         (\<forall>i. i + 1 < length reps \<longrightarrow>
            bid_parse (next_block_at l reps (reps ! i)) =
              Inr \<lparr>bid_host = hostname (reps ! (i + 1)), service_port = port (reps ! (i + 1)) + l,
                   management_port = port (reps ! (i + 1)) + l, bid_id = l\<rparr>)"
proof -
  define reps where "reps = get_replicas hs t c"
  have ok: "column_ok reps" and addr: "list_all (worker_addr_ok l) reps" using assms by (simp_all add: reps_def)
  have ne: "reps \<noteq> []" using ok by (simp add: column_ok_def)
  have "next_block_at l reps (last reps) = ''nil''"
    using next_block_at_nth [OF ok, of "length reps - 1" l] ne by (simp add: last_conv_nth)
  moreover have "bid_parse (next_block_at l reps (reps ! i)) =
      Inr \<lparr>bid_host = hostname (reps ! (i + 1)), service_port = port (reps ! (i + 1)) + l,
           management_port = port (reps ! (i + 1)) + l, bid_id = l\<rparr>" if "i + 1 < length reps" for i
    using next_block_at_nth [OF ok, of i l] addr that
    by (simp add: worker_block_def block_id_make_parse worker_addr_ok_def list_all_length)
  ultimately show ?thesis using roles_of_column [OF ok] by (simp add: reps_def [symmetric])
qed

end
