(* ===== verification/Rpc.thy ===== *)
theory Rpc
  imports Containers
begin

text \<open>
  The Thrift clients a component keeps open: host and port of the server and the calls made on the
  connection so far, oldest first. The vectors of sockets, transports, protocols and clients of the C++ classes are
  changed together, so one vector of vectors of connections stands for the four of them.
\<close>

record 'm rpc_client =
  cl_host :: string
  cl_port :: int
  cl_sent :: "'m list"

type_synonym 'm grid = "'m rpc_client list list"

text \<open>
  One connection per worker of a host: \<^verbatim>\<open>TSocket(h, port + j)\<close>, \<^verbatim>\<open>transport->open()\<close> for \<open>j\<close> from 0. The
  environment \<open>up\<close> says which servers accept; opening another one throws.
\<close>

definition open_worker :: "(string \<Rightarrow> int \<Rightarrow> bool) \<Rightarrow> string \<Rightarrow> int \<Rightarrow> nat \<Rightarrow> 'm rpc_client outcome" where
  "open_worker up h p j =
     (if up h (p + int j) then Inr \<lparr>cl_host = h, cl_port = p + int j, cl_sent = []\<rparr>
      else Inl (Transport_error ''open''))"

definition open_workers :: "(string \<Rightarrow> int \<Rightarrow> bool) \<Rightarrow> string \<Rightarrow> int \<Rightarrow> int \<Rightarrow> 'm rpc_client list outcome" where
  "open_workers up h p n = map_out (open_worker up h p) [0..<nat n]"

definition grid_call :: "nat \<Rightarrow> nat \<Rightarrow> 'm \<Rightarrow> 'm grid \<Rightarrow> 'm grid" where
  "grid_call i j m g = g[i := (g ! i)[j := (g ! i ! j)\<lparr>cl_sent := cl_sent (g ! i ! j) @ [m]\<rparr>]]"

lemma open_workers_ok:
  assumes "\<And>j. j < nat n \<Longrightarrow> up h (p + int j)"
  shows "open_workers up h p n = Inr (map (\<lambda>j. \<lparr>cl_host = h, cl_port = p + int j, cl_sent = []\<rparr>) [0..<nat n])"
  unfolding open_workers_def map_out_Inr_iff
  using assms by (simp add: list_all2_conv_all_nth open_worker_def)

lemma open_workers_length: "open_workers up h p n = Inr cs \<Longrightarrow> length cs = nat n"
  by (auto simp: open_workers_def map_out_Inr_iff dest: list_all2_lengthD)

lemma length_grid_call [simp]: "length (grid_call i j m g) = length g"
  by (simp add: grid_call_def)

lemma length_row_grid_call [simp]: "length (grid_call i j m g ! k) = length (g ! k)"
  by (cases "k = i"; cases "i < length g") (simp_all add: grid_call_def list_update_beyond)

lemma grid_call_rows [simp]:
  "list_all (\<lambda>cl. cl \<noteq> []) (grid_call i j m g) = list_all (\<lambda>cl. cl \<noteq> []) g"
proof -
  have "(grid_call i j m g ! k \<noteq> []) = (g ! k \<noteq> [])" for k
    using length_row_grid_call [of i j m g k] by (metis length_0_conv)
  then show ?thesis by (simp add: list_all_length)
qed

lemma grid_call_not_Nil [simp]: "grid_call i j m g = [] \<longleftrightarrow> g = []"
  by (simp add: grid_call_def)

lemma grid_call_nth:
  assumes "i < length g" "j < length (g ! i)" "k < length g" "l < length (g ! k)"
  shows "cl_sent (grid_call i j m g ! k ! l) = (if k = i \<and> l = j then cl_sent (g ! k ! l) @ [m] else cl_sent (g ! k ! l))"
  using assms by (auto simp: grid_call_def nth_list_update)

text \<open>All calls made on the connections of a grid.\<close>

definition grid_sent :: "'m grid \<Rightarrow> 'm list" where
  "grid_sent g = concat (map (\<lambda>cl. concat (map cl_sent cl)) g)"

lemma concat_map_list_update:
  "i < length xs \<Longrightarrow> concat (map f (xs[i := y])) = concat (map f (take i xs)) @ f y @ concat (map f (drop (Suc i) xs))"
  by (simp add: upd_conv_take_nth_drop)

lemma concat_map_split:
  "i < length xs \<Longrightarrow> concat (map f xs) = concat (map f (take i xs)) @ f (xs ! i) @ concat (map f (drop (Suc i) xs))"
  by (metis concat_map_list_update list_update_id)

lemma mset_grid_sent_call:
  assumes "i < length g" "j < length (g ! i)"
  shows "mset (grid_sent (grid_call i j m g)) = add_mset m (mset (grid_sent g))"
  using concat_map_list_update [of i g "\<lambda>cl. concat (map cl_sent cl)"] concat_map_split [of i g "\<lambda>cl. concat (map cl_sent cl)"]
    concat_map_list_update [of j "g ! i" cl_sent] concat_map_split [of j "g ! i" cl_sent] assms
  by (simp add: grid_sent_def grid_call_def)

end
