(* ===== verification/Murmur.thy ===== *)
theory Murmur
  imports Prelude
begin

text \<open>
  The MurmurHash2 family of proxy/src/MurmurHash2.cpp, on lists of bytes and 32- and 64-bit words.
  A pointer into the key is the list of the bytes that are left; \<^verbatim>\<open>*(uint32_t*)data\<close> on the
  little-endian target is \<open>le_word\<close> of the next four bytes. The length, an \<^verbatim>\<open>int\<close> in the code, is that of the list: the definitions hold
  for keys of less than \<open>2 ^ 31\<close> bytes. \<open>MurmurHash64A\<close> is the hash that
  routes requests to proxies, workers and storage servers (Consistent\_Hash).

  Besides the definitions, this theory shows that the portable, the alignment-aware and the
  incremental variants of the file compute what their reference variants compute.
\<close>

unbundle bit_operations_syntax

section \<open>Little-endian loads\<close>

fun le_word :: "byte list \<Rightarrow> 'a :: len word" where
  "le_word [] = 0"
| "le_word (b # bs) = ucast b OR push_bit 8 (le_word bs)"

lemma bit_le_word_iff:
  "bit (le_word bs :: 'a :: len word) n \<longleftrightarrow>
     n < LENGTH('a) \<and> n div 8 < length bs \<and> bit (bs ! (n div 8)) (n mod 8)"
proof (induction bs arbitrary: n)
  case Nil
  then show ?case by simp
next
  case (Cons b bs)
  show ?case
  proof (cases "n < 8")
    case True
    then show ?thesis by (auto simp: bit_simps)
  next
    case False
    then obtain k where n: "n = 8 + k" using le_Suc_ex not_less by blast
    have "\<not> bit b n" using False bit_imp_le_length [of b n] by auto
    moreover have "n div 8 = Suc (k div 8)" "n mod 8 = k mod 8" using n by simp_all
    moreover have "bit (push_bit 8 (le_word bs :: 'a word)) n \<longleftrightarrow>
        n < LENGTH('a) \<and> bit (le_word bs :: 'a word) k"
      using n by (auto simp: bit_simps)
    ultimately show ?thesis
      using n by (auto simp: bit_simps Cons.IH)
  qed
qed

lemma le_word_append:
  "(le_word (xs @ ys) :: 'a :: len word) = le_word xs OR push_bit (8 * length xs) (le_word ys)"
proof (induction xs)
  case Nil
  then show ?case by simp
next
  case (Cons x xs)
  then show ?case
    by (simp add: push_bit_or or.assoc push_bit_push_bit algebra_simps)
qed

lemma le_word_drop:
  assumes "8 * length bs \<le> LENGTH('a)"
  shows "drop_bit (8 * k) (le_word bs :: 'a :: len word) = le_word (drop k bs)"
proof (rule bit_eqI)
  fix n
  have "(8 * k + n) div 8 = k + n div 8" "(8 * k + n) mod 8 = n mod 8" by simp_all
  moreover have "k + n div 8 < length bs \<Longrightarrow> 8 * k + n < LENGTH('a)"
    using assms by linarith
  ultimately show "bit (drop_bit (8 * k) (le_word bs :: 'a word)) n = bit (le_word (drop k bs) :: 'a word) n"
    by (auto simp: bit_le_word_iff bit_simps)
qed

lemma le_word_push_take:
  assumes "j \<le> length bs" and "8 * length bs = LENGTH('a)"
  shows "push_bit (8 * j) (le_word bs :: 'a :: len word) = push_bit (8 * j) (le_word (take (length bs - j) bs))"
proof (rule bit_eqI)
  fix n
  show "bit (push_bit (8 * j) (le_word bs :: 'a word)) n =
        bit (push_bit (8 * j) (le_word (take (length bs - j) bs) :: 'a word)) n"
  proof (cases "8 * j \<le> n \<and> n < LENGTH('a)")
    case True
    then have "(n - 8 * j) div 8 < length bs - j" using assms by linarith
    with True show ?thesis by (auto simp: bit_le_word_iff bit_simps)
  next
    case False
    then show ?thesis by (auto simp: bit_simps)
  qed
qed

lemma le_word_drop_push:
  assumes "8 * (k + length bs) \<le> LENGTH('a)"
  shows "drop_bit (8 * k) (push_bit (8 * k) (le_word bs :: 'a :: len word)) = le_word bs"
proof (rule bit_eqI)
  fix n
  have "8 * k + n < LENGTH('a)" if "n div 8 < length bs"
    using assms that by (simp add: div_less_iff_less_mult algebra_simps)
  then show "bit (drop_bit (8 * k) (push_bit (8 * k) (le_word bs :: 'a word))) n = bit (le_word bs :: 'a word) n"
    by (auto simp: bit_le_word_iff bit_simps)
qed

section \<open>MurmurHash2\<close>

abbreviation mm :: uint32 where "mm \<equiv> 0x5bd1e995"

text \<open>\<^verbatim>\<open>k *= m; k ^= k >> r; k *= m; h *= m; h ^= k;\<close> the macros \<^verbatim>\<open>mmix\<close> and \<^verbatim>\<open>MIX\<close> expand to it.\<close>

definition mmix :: "uint32 \<Rightarrow> uint32 \<Rightarrow> uint32" where
  "mmix h k =
     (let k1 = k * mm;
          k2 = k1 XOR drop_bit 24 k1;
          k3 = k2 * mm
      in (h * mm) XOR k3)"

text \<open>The final avalanche shared by the 32-bit variants.\<close>

definition avalanche32 :: "uint32 \<Rightarrow> uint32" where
  "avalanche32 h =
     (let h1 = h XOR drop_bit 13 h;
          h2 = h1 * mm
      in h2 XOR drop_bit 15 h2)"

fun mm2_loop :: "uint32 \<Rightarrow> byte list \<Rightarrow> uint32 \<times> byte list" where
  "mm2_loop h (a # b # c # d # rest) = mm2_loop (mmix h (le_word [a, b, c, d])) rest"
| "mm2_loop h rest = (h, rest)"

text \<open>The fall-through \<^verbatim>\<open>switch(len)\<close> on the last one to three bytes.\<close>

fun tail32 :: "uint32 \<Rightarrow> byte list \<Rightarrow> uint32" where
  "tail32 h [a, b, c] = (((h XOR push_bit 16 (ucast c)) XOR push_bit 8 (ucast b)) XOR ucast a) * mm"
| "tail32 h [a, b] = ((h XOR push_bit 8 (ucast b)) XOR ucast a) * mm"
| "tail32 h [a] = (h XOR ucast a) * mm"
| "tail32 h _ = h"

definition MurmurHash2 :: "byte list \<Rightarrow> uint32 \<Rightarrow> uint32" where
  "MurmurHash2 key seed =
     (let (h, rest) = mm2_loop (seed XOR of_nat (length key)) key
      in avalanche32 (tail32 h rest))"

section \<open>MurmurHash64A and MurmurHash64B\<close>

abbreviation mm64 :: uint64 where "mm64 \<equiv> 0xc6a4a7935bd1e995"

fun mm64a_loop :: "uint64 \<Rightarrow> byte list \<Rightarrow> uint64 \<times> byte list" where
  "mm64a_loop h (a # b # c # d # e # f # g # i # rest) =
     (let k = le_word [a, b, c, d, e, f, g, i];
          k1 = k * mm64;
          k2 = k1 XOR drop_bit 47 k1;
          k3 = k2 * mm64
      in mm64a_loop ((h XOR k3) * mm64) rest)"
| "mm64a_loop h rest = (h, rest)"

text \<open>\<^verbatim>\<open>switch(len & 7)\<close>: byte \<^verbatim>\<open>i\<close> is shifted by \<^verbatim>\<open>8 * i\<close>, from the last byte down to the first.\<close>

fun xor_bytes64 :: "nat \<Rightarrow> byte list \<Rightarrow> uint64 \<Rightarrow> uint64" where
  "xor_bytes64 i [] h = h"
| "xor_bytes64 i (b # bs) h = xor_bytes64 (Suc i) bs h XOR push_bit (8 * i) (ucast b)"

definition MurmurHash64A :: "byte list \<Rightarrow> uint64 \<Rightarrow> uint64" where
  "MurmurHash64A key seed =
     (let (h0, rest) = mm64a_loop (seed XOR (of_nat (length key) * mm64)) key;
          h1 = (if rest = [] then h0 else xor_bytes64 0 rest h0 * mm64);
          h2 = h1 XOR drop_bit 47 h1;
          h3 = h2 * mm64
      in h3 XOR drop_bit 47 h3)"

definition mix64b :: "uint32 \<Rightarrow> uint32 \<Rightarrow> uint32" where
  "mix64b h k =
     (let k1 = k * mm; k2 = k1 XOR drop_bit 24 k1; k3 = k2 * mm
      in (h * mm) XOR k3)"

fun mm64b_loop :: "uint32 \<Rightarrow> uint32 \<Rightarrow> byte list \<Rightarrow> uint32 \<times> uint32 \<times> byte list" where
  "mm64b_loop h1 h2 (a # b # c # d # e # f # g # i # rest) =
     mm64b_loop (mix64b h1 (le_word [a, b, c, d])) (mix64b h2 (le_word [e, f, g, i])) rest"
| "mm64b_loop h1 h2 rest = (h1, h2, rest)"

definition MurmurHash64B :: "byte list \<Rightarrow> uint64 \<Rightarrow> uint64" where
  "MurmurHash64B key seed =
     (let (h1, h2, d) = mm64b_loop (ucast seed XOR of_nat (length key)) (ucast (drop_bit 32 seed)) key;
          h1 = (if 4 \<le> length d then mix64b h1 (le_word (take 4 d)) else h1);
          d = (if 4 \<le> length d then drop 4 d else d);
          h2 = tail32 h2 d;
          h1 = (h1 XOR drop_bit 18 h2) * mm;
          h2 = (h2 XOR drop_bit 22 h1) * mm;
          h1 = (h1 XOR drop_bit 17 h2) * mm;
          h2 = (h2 XOR drop_bit 19 h1) * mm
      in push_bit 32 (ucast h1) OR ucast h2)"

section \<open>MurmurHash2A and its incremental form\<close>

fun xor_bytes32 :: "nat \<Rightarrow> byte list \<Rightarrow> uint32 \<Rightarrow> uint32" where
  "xor_bytes32 i [] t = t"
| "xor_bytes32 i (b # bs) t = xor_bytes32 (Suc i) bs t XOR push_bit (8 * i) (ucast b)"

definition MurmurHash2A :: "byte list \<Rightarrow> uint32 \<Rightarrow> uint32" where
  "MurmurHash2A key seed =
     (let (h, rest) = mm2_loop seed key;
          t = xor_bytes32 0 rest 0;
          h = mmix h t;
          h = mmix h (of_nat (length key))
      in avalanche32 h)"

record cmurmur =
  m_hash :: uint32
  m_tail :: uint32
  m_count :: uint32
  m_size :: uint32

definition cm_Begin :: "uint32 \<Rightarrow> cmurmur" where
  "cm_Begin seed = \<lparr>m_hash = seed, m_tail = 0, m_count = 0, m_size = 0\<rparr>"

definition cm_tail_byte :: "byte \<Rightarrow> cmurmur \<Rightarrow> cmurmur" where
  "cm_tail_byte b s =
     (let s1 = s\<lparr>m_tail := m_tail s OR push_bit (unat (m_count s) * 8) (ucast b),
                 m_count := m_count s + 1\<rparr>
      in if m_count s1 = 4
         then s1\<lparr>m_hash := mmix (m_hash s1) (m_tail s1), m_tail := 0, m_count := 0\<rparr>
         else s1)"

text \<open>\<^verbatim>\<open>while (len && ((len < 4) || m_count))\<close>: the bytes left over are handed back.\<close>

fun cm_MixTail :: "cmurmur \<Rightarrow> byte list \<Rightarrow> cmurmur \<times> byte list" where
  "cm_MixTail s [] = (s, [])"
| "cm_MixTail s (b # bs) =
     (if length (b # bs) < 4 \<or> m_count s \<noteq> 0 then cm_MixTail (cm_tail_byte b s) bs
      else (s, b # bs))"

fun cm_blocks :: "cmurmur \<Rightarrow> byte list \<Rightarrow> cmurmur \<times> byte list" where
  "cm_blocks s (a # b # c # d # rest) =
     cm_blocks (s\<lparr>m_hash := mmix (m_hash s) (le_word [a, b, c, d])\<rparr>) rest"
| "cm_blocks s rest = (s, rest)"

definition cm_Add :: "byte list \<Rightarrow> cmurmur \<Rightarrow> cmurmur" where
  "cm_Add data s =
     (let s0 = s\<lparr>m_size := m_size s + of_nat (length data)\<rparr>;
          (s1, d1) = cm_MixTail s0 data;
          (s2, d2) = cm_blocks s1 d1;
          (s3, d3) = cm_MixTail s2 d2
      in s3)"

definition cm_End :: "cmurmur \<Rightarrow> uint32" where
  "cm_End s = avalanche32 (mmix (mmix (m_hash s) (m_tail s)) (m_size s))"

section \<open>MurmurHashNeutral2\<close>

fun neutral2_loop :: "uint32 \<Rightarrow> byte list \<Rightarrow> uint32 \<times> byte list" where
  "neutral2_loop h (a # b # c # d # rest) =
     (let k = ((ucast a OR push_bit 8 (ucast b)) OR push_bit 16 (ucast c)) OR push_bit 24 (ucast d);
          k1 = k * mm;
          k2 = k1 XOR drop_bit 24 k1;
          k3 = k2 * mm
      in neutral2_loop ((h * mm) XOR k3) rest)"
| "neutral2_loop h rest = (h, rest)"

definition MurmurHashNeutral2 :: "byte list \<Rightarrow> uint32 \<Rightarrow> uint32" where
  "MurmurHashNeutral2 key seed =
     (let (h, rest) = neutral2_loop (seed XOR of_nat (length key)) key
      in avalanche32 (tail32 h rest))"

section \<open>MurmurHashAligned2\<close>

text \<open>
  \<open>align\<close> is \<^verbatim>\<open>(uint64_t)data & 3\<close>. The register \<open>t\<close> holds the bytes that have been read but not
  yet mixed, shifted up by \<open>sr = 8 * align\<close> bits.
\<close>

fun or_bytes32 :: "nat \<Rightarrow> byte list \<Rightarrow> uint32 \<Rightarrow> uint32" where
  "or_bytes32 i [] t = t"
| "or_bytes32 i (b # bs) t = or_bytes32 (Suc i) bs t OR push_bit (8 * i) (ucast b)"

fun al2_loop :: "nat \<Rightarrow> uint32 \<Rightarrow> uint32 \<Rightarrow> byte list \<Rightarrow> uint32 \<times> uint32 \<times> byte list" where
  "al2_loop align h t (a # b # c # d # rest) =
     (let w = le_word [a, b, c, d];
          t1 = drop_bit (8 * align) t OR push_bit (8 * (4 - align)) w
      in al2_loop align (mmix h t1) w rest)"
| "al2_loop align h t rest = (h, t, rest)"

definition al2_finish :: "nat \<Rightarrow> uint32 \<Rightarrow> uint32 \<Rightarrow> byte list \<Rightarrow> uint32" where
  "al2_finish align h t rest =
     (if align \<le> length rest then
        (let d = or_bytes32 0 (take align rest) 0;
             k = drop_bit (8 * align) t OR push_bit (8 * (4 - align)) d
         in tail32 (mmix h k) (drop align rest))
      else
        (let d = or_bytes32 0 rest 0
         in (h XOR (drop_bit (8 * align) t OR push_bit (8 * (4 - align)) d)) * mm))"

definition MurmurHashAligned2 :: "nat \<Rightarrow> byte list \<Rightarrow> uint32 \<Rightarrow> uint32" where
  "MurmurHashAligned2 align key seed =
     (let h0 = seed XOR of_nat (length key) in
      if align \<noteq> 0 \<and> 4 \<le> length key then
        (let t = push_bit (8 * align) (or_bytes32 0 (take (4 - align) key) 0);
             (h, t, rest) = al2_loop align h0 t (drop (4 - align) key)
         in avalanche32 (al2_finish align h t rest))
      else
        (let (h, rest) = mm2_loop h0 key in avalanche32 (tail32 h rest)))"

section \<open>Words as sums of bytes\<close>

lemma le_word_Cons_xor:
  "(le_word (b # bs) :: 'a :: len word) = ucast b XOR push_bit 8 (le_word bs)"
proof (rule bit_eqI)
  fix n
  have "bit b n \<Longrightarrow> n < 8" using bit_imp_le_length [of b n] by simp
  then show "bit (le_word (b # bs) :: 'a word) n = bit (ucast b XOR push_bit 8 (le_word bs) :: 'a word) n"
    by (auto simp: bit_simps)
qed

lemma le_word4:
  "(le_word [a, b, c, d] :: uint32) =
     ((ucast a OR push_bit 8 (ucast b)) OR push_bit 16 (ucast c)) OR push_bit 24 (ucast d)"
  by (simp add: push_bit_or push_bit_push_bit or.assoc)

lemma xor_bytes32_eq: "xor_bytes32 i bs t = t XOR push_bit (8 * i) (le_word bs)"
proof (induction bs arbitrary: i)
  case Nil
  then show ?case by simp
next
  case (Cons b bs)
  then show ?case
    by (simp add: le_word_Cons_xor push_bit_xor push_bit_push_bit ac_simps del: le_word.simps(2))
qed

lemma or_bytes32_eq: "or_bytes32 i bs t = t OR push_bit (8 * i) (le_word bs)"
  by (induction bs arbitrary: i) (simp_all add: push_bit_or push_bit_push_bit ac_simps)

lemma tail32_eq:
  assumes "xs \<noteq> []" and "length xs < 4"
  shows "tail32 h xs = (h XOR le_word xs) * mm"
proof -
  consider a where "xs = [a]" | a b where "xs = [a, b]" | a b c where "xs = [a, b, c]"
    using assms by (cases xs; cases "tl xs"; cases "tl (tl xs)"; cases "tl (tl (tl xs))") auto
  then show ?thesis
    by cases (simp_all add: le_word_Cons_xor push_bit_xor push_bit_push_bit ac_simps del: le_word.simps(2))
qed

section \<open>The block loop\<close>

lemma mm2_loop_rest: "length (snd (mm2_loop h xs)) < 4"
  by (induction h xs rule: mm2_loop.induct) simp_all

lemma mm2_loop_short: "length xs < 4 \<Longrightarrow> mm2_loop h xs = (h, xs)"
  by (induction h xs rule: mm2_loop.induct) simp_all

lemma mm2_loop_append:
  "mm2_loop h (xs @ ys) = (case mm2_loop h xs of (h', r) \<Rightarrow> mm2_loop h' (r @ ys))"
  by (induction h xs rule: mm2_loop.induct) simp_all

lemma mm2_loop_block:
  "length xs = 4 \<Longrightarrow> mm2_loop h (xs @ ys) = mm2_loop (mmix h (le_word xs)) ys"
  by (auto simp: length_Suc_conv numeral_eq_Suc simp del: le_word.simps)

section \<open>The portable variant\<close>

lemma neutral2_loop_eq: "neutral2_loop h xs = mm2_loop h xs"
  by (induction h xs rule: neutral2_loop.induct)
    (simp_all add: mmix_def le_word4 Let_def del: le_word.simps)

section \<open>The alignment-aware variant\<close>

lemma al2_step:
  assumes "align \<le> 4" "length ps = 4 - align" "drop_bit (8 * align) t = (le_word ps :: uint32)"
    and "length bs = 4"
  shows "drop_bit (8 * align) t OR push_bit (8 * (4 - align)) (le_word bs) =
           (le_word (ps @ take align bs) :: uint32)"
proof -
  have "push_bit (8 * (4 - align)) (le_word bs :: uint32) =
        push_bit (8 * (4 - align)) (le_word (take align bs))"
    using assms(1,4) le_word_push_take [of "4 - align" bs, where 'a = 32] by simp
  with assms(2,3) show ?thesis by (simp add: le_word_append)
qed

lemma al2_loop_eq:
  assumes "align \<le> 4" "length ps = 4 - align" "drop_bit (8 * align) t = (le_word ps :: uint32)"
  shows "\<exists>h' t' ps' rest. al2_loop align h t data = (h', t', rest) \<and> length rest < 4 \<and>
           length ps' = 4 - align \<and> drop_bit (8 * align) t' = le_word ps' \<and>
           mm2_loop h (ps @ data) = mm2_loop h' (ps' @ rest)"
  using assms
proof (induction align h t data arbitrary: ps rule: al2_loop.induct)
  case (1 align h t a b c d rest)
  let ?bs = "[a, b, c, d]"
  let ?w = "le_word ?bs :: uint32"
  let ?t1 = "drop_bit (8 * align) t OR push_bit (8 * (4 - align)) ?w"
  have t1: "?t1 = le_word (ps @ take align ?bs)"
    using "1.prems" by (intro al2_step) auto
  have w: "drop_bit (8 * align) ?w = le_word (drop align ?bs)"
    by (rule le_word_drop) simp
  have len: "length (ps @ take align ?bs) = 4" "length (drop align ?bs) = 4 - align"
    using "1.prems" by auto
  have "ps @ ?bs @ rest = (ps @ take align ?bs) @ drop align ?bs @ rest"
    by (metis append.assoc append_take_drop_id)
  then have "mm2_loop h (ps @ ?bs @ rest) = mm2_loop (mmix h ?t1) (drop align ?bs @ rest)"
    by (simp only: mm2_loop_block [OF len(1)] t1)
  moreover obtain h' t' ps' r where
    "al2_loop align (mmix h ?t1) ?w rest = (h', t', r)" "length r < 4" "length ps' = 4 - align"
    "drop_bit (8 * align) t' = le_word ps'"
    "mm2_loop (mmix h ?t1) (drop align ?bs @ rest) = mm2_loop h' (ps' @ r)"
    using "1.IH" [OF refl refl, of "drop align ?bs"] "1.prems"(1) w len(2) by blast
  ultimately show ?case by (auto simp: Let_def simp del: le_word.simps)
qed (auto simp del: le_word.simps)

lemma al2_finish_eq:
  assumes "0 < align" "align \<le> 3" "length ps = 4 - align"
    and "drop_bit (8 * align) t = (le_word ps :: uint32)" "length rest < 4"
  shows "al2_finish align h t rest = (case mm2_loop h (ps @ rest) of (h', r) \<Rightarrow> tail32 h' r)"
proof (cases "align \<le> length rest")
  case True
  then have len: "length (ps @ take align rest) = 4" using assms(2,3) by simp
  have "ps @ rest = (ps @ take align rest) @ drop align rest" by simp
  then have "mm2_loop h (ps @ rest) = mm2_loop (mmix h (le_word (ps @ take align rest))) (drop align rest)"
    by (metis mm2_loop_block len)
  with True assms show ?thesis
    by (simp add: al2_finish_def or_bytes32_eq le_word_append mm2_loop_short)
next
  case False
  then have "length (ps @ rest) < 4" "ps @ rest \<noteq> []" using assms(1,2,3) by auto
  then show ?thesis
    using False assms(3,4)
    by (simp add: al2_finish_def or_bytes32_eq le_word_append mm2_loop_short tail32_eq)
qed

section \<open>The incremental variant\<close>

text \<open>
  \<open>cm_repr s h r\<close>: the hasher holds the hash \<open>h\<close> of the full blocks seen so far and the bytes \<open>r\<close> of
  the block that is not full yet.
\<close>

definition cm_repr :: "cmurmur \<Rightarrow> uint32 \<Rightarrow> byte list \<Rightarrow> bool" where
  "cm_repr s h r \<longleftrightarrow>
     m_hash s = h \<and> m_tail s = le_word r \<and> m_count s = of_nat (length r) \<and> length r < 4"

lemma less_4_cases: "(n :: nat) < 4 \<Longrightarrow> n = 0 \<or> n = 1 \<or> n = 2 \<or> n = 3"
  by linarith

lemma cm_tail_byte_repr:
  assumes "cm_repr s h r"
  shows "case mm2_loop h (r @ [b]) of (h', r') \<Rightarrow> cm_repr (cm_tail_byte b s) h' r'"
proof -
  from assms have s: "m_hash s = h" "m_tail s = le_word r" "m_count s = of_nat (length r)" "length r < 4"
    by (auto simp: cm_repr_def)
  have cnt: "unat (m_count s) = length r" using s(3,4) by (simp add: unat_of_nat)
  have tail: "m_tail s OR push_bit (unat (m_count s) * 8) (ucast b) = le_word (r @ [b])"
    by (simp add: cnt s(2) le_word_append mult.commute)
  have four: "m_count s + 1 = 4 \<longleftrightarrow> length r = 3"
    using s(3) less_4_cases [OF s(4)] by (elim disjE) simp_all
  show ?thesis
  proof (cases "length r = 3")
    case True
    then have "mm2_loop h (r @ [b]) = (mmix h (le_word (r @ [b])), [])"
      using mm2_loop_block [of "r @ [b]" h "[]"] by simp
    moreover have "m_hash (cm_tail_byte b s) = mmix h (le_word (r @ [b]))"
      "m_tail (cm_tail_byte b s) = 0" "m_count (cm_tail_byte b s) = 0"
      using True four tail s(1) by (simp_all add: cm_tail_byte_def Let_def)
    ultimately show ?thesis by (simp add: cm_repr_def)
  next
    case False
    then have "length (r @ [b]) < 4" using s(4) by simp
    then have "mm2_loop h (r @ [b]) = (h, r @ [b])" by (rule mm2_loop_short)
    moreover have "m_hash (cm_tail_byte b s) = h" "m_tail (cm_tail_byte b s) = le_word (r @ [b])"
      "m_count (cm_tail_byte b s) = of_nat (length r) + 1"
      using False four tail s(1,3) by (simp_all add: cm_tail_byte_def Let_def)
    ultimately show ?thesis using \<open>length (r @ [b]) < 4\<close> by (simp add: cm_repr_def)
  qed
qed

lemma cm_tail_byte_size [simp]: "m_size (cm_tail_byte b s) = m_size s"
  by (simp add: cm_tail_byte_def Let_def)

lemma cm_MixTail_repr:
  assumes "cm_repr s h r"
  shows "\<exists>s' d h' r' used. cm_MixTail s bs = (s', d) \<and> bs = used @ d \<and>
           mm2_loop h (r @ used) = (h', r') \<and> cm_repr s' h' r' \<and> m_size s' = m_size s \<and>
           (d = [] \<or> 4 \<le> length d \<and> r' = [])"
  using assms
proof (induction s bs arbitrary: h r rule: cm_MixTail.induct)
  case (1 s)
  then show ?case by (auto simp: cm_repr_def mm2_loop_short)
next
  case (2 s b bs)
  show ?case
  proof (cases "length (b # bs) < 4 \<or> m_count s \<noteq> 0")
    case True
    obtain h1 r1 where step: "mm2_loop h (r @ [b]) = (h1, r1)" by fastforce
    with cm_tail_byte_repr [OF "2.prems", of b] have "cm_repr (cm_tail_byte b s) h1 r1" by simp
    from "2.IH" [OF True this] obtain s' d h' r' used where
      ih: "cm_MixTail (cm_tail_byte b s) bs = (s', d)" "bs = used @ d" "mm2_loop h1 (r1 @ used) = (h', r')"
        "cm_repr s' h' r'" "m_size s' = m_size s" "d = [] \<or> 4 \<le> length d \<and> r' = []"
      unfolding cm_tail_byte_size by blast
    have "mm2_loop h (r @ b # used) = (h', r')"
      using mm2_loop_append [of h "r @ [b]" used] step ih(3) by simp
    with ih True show ?thesis by (intro exI [of _ s'] exI [of _ d] exI [of _ h'] exI [of _ r'] exI [of _ "b # used"]) auto
  next
    case False
    then have "length r = 0" using "2.prems" less_4_cases [of "length r"]
      by (auto simp: cm_repr_def)
    with False "2.prems" show ?thesis
      by (intro exI [of _ s] exI [of _ "b # bs"] exI [of _ h] exI [of _ r] exI [of _ "[]"]) auto
  qed
qed

lemma cm_blocks_eq:
  "cm_blocks s bs = (s\<lparr>m_hash := fst (mm2_loop (m_hash s) bs)\<rparr>, snd (mm2_loop (m_hash s) bs))"
  by (induction s bs rule: cm_blocks.induct) (simp_all del: le_word.simps)

lemma cm_Add_repr:
  assumes "cm_repr s h r"
  shows "case mm2_loop h (r @ data) of (h', r') \<Rightarrow> cm_repr (cm_Add data s) h' r'"
    and "m_size (cm_Add data s) = m_size s + of_nat (length data)"
proof -
  let ?s0 = "s\<lparr>m_size := m_size s + of_nat (length data)\<rparr>"
  have "cm_repr ?s0 h r" using assms by (simp add: cm_repr_def)
  then obtain s1 d1 h1 r1 used where
    one: "cm_MixTail ?s0 data = (s1, d1)" "data = used @ d1" "mm2_loop h (r @ used) = (h1, r1)"
      "cm_repr s1 h1 r1" "m_size s1 = m_size ?s0" "d1 = [] \<or> 4 \<le> length d1 \<and> r1 = []"
    using cm_MixTail_repr by blast
  obtain h2 r2 where two: "mm2_loop h1 d1 = (h2, r2)" by fastforce
  define s2 where "s2 = s1\<lparr>m_hash := h2\<rparr>"
  have blocks: "cm_blocks s1 d1 = (s2, r2)"
    using one(4) two by (simp add: cm_blocks_eq cm_repr_def s2_def)
  have r2: "length r2 < 4" using mm2_loop_rest [of h1 d1] two by simp
  have whole: "mm2_loop h (r @ data) = mm2_loop h1 (r1 @ d1)"
    using mm2_loop_append [of h "r @ used" d1] one(2,3) by simp
  have "cm_repr s2 h2 r1 \<and> mm2_loop h2 (r1 @ r2) = mm2_loop h1 (r1 @ d1)"
  proof (cases "d1 = []")
    case True
    then show ?thesis using two one(4) by (simp add: cm_repr_def s2_def)
  next
    case False
    then show ?thesis using two one(4,6) r2 by (simp add: cm_repr_def s2_def mm2_loop_short)
  qed
  then have rep: "cm_repr s2 h2 r1" and loop: "mm2_loop h2 (r1 @ r2) = mm2_loop h1 (r1 @ d1)"
    by auto
  from cm_MixTail_repr [OF rep, of r2] r2 obtain s3 h3 r3 where
    three: "cm_MixTail s2 r2 = (s3, [])" "mm2_loop h2 (r1 @ r2) = (h3, r3)" "cm_repr s3 h3 r3"
      "m_size s3 = m_size s2"
    by fastforce
  have add: "cm_Add data s = s3"
    by (simp add: cm_Add_def one(1) blocks three(1))
  show "case mm2_loop h (r @ data) of (h', r') \<Rightarrow> cm_repr (cm_Add data s) h' r'"
    using three(2,3) loop whole add by simp
  show "m_size (cm_Add data s) = m_size s + of_nat (length data)"
    using add three(4) one(5) by (simp add: s2_def)
qed

lemma cm_Add_chunks:
  assumes "cm_repr s h r"
  shows "(case mm2_loop h (r @ concat chunks) of (h', r') \<Rightarrow> cm_repr (fold cm_Add chunks s) h' r') \<and>
         m_size (fold cm_Add chunks s) = m_size s + of_nat (length (concat chunks))"
  using assms
proof (induction chunks arbitrary: s h r)
  case Nil
  then show ?case by (simp add: mm2_loop_short cm_repr_def)
next
  case (Cons c chunks)
  obtain h1 r1 where step: "mm2_loop h (r @ c) = (h1, r1)" by fastforce
  with cm_Add_repr(1) [OF Cons.prems, of c] have "cm_repr (cm_Add c s) h1 r1" by simp
  from Cons.IH [OF this] step mm2_loop_append [of h "r @ c" "concat chunks"] cm_Add_repr(2) [OF Cons.prems, of c]
  show ?case by (simp add: algebra_simps)
qed

section \<open>Properties\<close>

text \<open>
  C33. The incremental hasher agrees with the one-shot hash: however the key is cut into chunks
  (empty ones and chunks that end inside a four-byte block included), feeding them to
  \<^verbatim>\<open>CMurmurHash2A::Add\<close> between \<^verbatim>\<open>Begin\<close> and \<^verbatim>\<open>End\<close> gives \<^verbatim>\<open>MurmurHash2A\<close> of the whole key.
\<close>

theorem cmurmur_incremental:
  "cm_End (fold cm_Add chunks (cm_Begin seed)) = MurmurHash2A (concat chunks) seed"
proof -
  have start: "cm_repr (cm_Begin seed) seed []" by (simp add: cm_repr_def cm_Begin_def)
  obtain h r where loop: "mm2_loop seed (concat chunks) = (h, r)" by fastforce
  from cm_Add_chunks [OF start, of chunks] loop
  have "cm_repr (fold cm_Add chunks (cm_Begin seed)) h r"
    and "m_size (fold cm_Add chunks (cm_Begin seed)) = of_nat (length (concat chunks))"
    by (auto simp: cm_Begin_def)
  with loop show ?thesis
    by (simp add: cm_End_def MurmurHash2A_def cm_repr_def xor_bytes32_eq)
qed

text \<open>
  The portable and the alignment-aware variants are MurmurHash2: reading four bytes one at a
  time with shifts, or only at aligned addresses whatever the alignment of the key, gives the
  hash of the variant that loads unaligned words.
\<close>

lemma murmur2_variants_agree:
  assumes "align < 4"
  shows "MurmurHashNeutral2 key seed = MurmurHash2 key seed \<and>
         MurmurHashAligned2 align key seed = MurmurHash2 key seed"
proof
  show "MurmurHashNeutral2 key seed = MurmurHash2 key seed"
    by (simp add: MurmurHashNeutral2_def MurmurHash2_def neutral2_loop_eq)
  show "MurmurHashAligned2 align key seed = MurmurHash2 key seed"
  proof (cases "align \<noteq> 0 \<and> 4 \<le> length key")
    case False
    then show ?thesis by (auto simp: MurmurHashAligned2_def MurmurHash2_def Let_def)
  next
    case True
    let ?ps = "take (4 - align) key" and ?h0 = "seed XOR of_nat (length key) :: uint32"
    let ?t = "push_bit (8 * align) (or_bytes32 0 ?ps 0) :: uint32"
    have len: "length ?ps = 4 - align" using True by (auto simp: min_def)
    have t: "drop_bit (8 * align) ?t = le_word ?ps"
      using True assms len by (simp add: or_bytes32_eq le_word_drop_push)
    obtain h t' ps rest where
      loop: "al2_loop align ?h0 ?t (drop (4 - align) key) = (h, t', rest)" "length rest < 4"
        "length ps = 4 - align" "drop_bit (8 * align) t' = le_word ps"
        "mm2_loop ?h0 (?ps @ drop (4 - align) key) = mm2_loop h (ps @ rest)"
      using al2_loop_eq [of align ?ps ?t ?h0 "drop (4 - align) key"] assms len t by auto
    then have "al2_finish align h t' rest = (case mm2_loop ?h0 key of (h', r) \<Rightarrow> tail32 h' r)"
      using al2_finish_eq [of align ps t' rest h] True assms by simp
    with True loop(1) show ?thesis
      by (simp add: MurmurHashAligned2_def MurmurHash2_def Let_def case_prod_beta)
  qed
qed

end
