(* ===== verification/Consistent_Hash.thy ===== *)
theory Consistent_Hash
  imports Murmur Cpp_Double "HOL-Library.Char_ord"
begin

text \<open>
  proxy/src/consistent_hash.cpp: jump consistent hashing of a string into a number of buckets.
  The loop computes with \<^verbatim>\<open>double\<close>; the model rounds every operation (Cpp\_Double), and the proofs show that
  rounding cannot make the loop stall, leave the range of \<^verbatim>\<open>int64_t\<close> or return a bucket that does not
  exist.

  The locale \<open>bucket_hash\<close> is what the routing code (L2 and L3 interfaces, Redis interface) relies
  on; \<open>consistent_hash\<close> is an instance of it.
\<close>

section \<open>The routing contract\<close>

locale bucket_hash =
  fixes h :: "'k \<Rightarrow> int \<Rightarrow> int"
    and max_buckets :: int
  assumes in_range: "0 < n \<Longrightarrow> n \<le> max_buckets \<Longrightarrow> 0 \<le> h k n \<and> h k n < n"
    and moves_to_new: "0 < n \<Longrightarrow> n < max_buckets \<Longrightarrow> h k (n + 1) = h k n \<or> h k (n + 1) = n"
begin

lemma picks_element:
  assumes "xs \<noteq> []" and "int (length xs) \<le> max_buckets"
  shows "nat (h k (int (length xs))) < length xs"
  using in_range [of "int (length xs)" k] assms by (cases xs) auto

text \<open>Dropping the last bucket moves only the keys of that bucket.\<close>

lemma drop_last_bucket:
  assumes "0 < n" "n < max_buckets" "h k (n + 1) \<noteq> n"
  shows "h k n = h k (n + 1)"
  using moves_to_new [OF assms(1,2), of k] assms(3) by simp

text \<open>Adding any number of buckets never moves a key from one old bucket to another.\<close>

lemma grow_buckets:
  assumes "0 < n" "n \<le> m" "m \<le> max_buckets"
  shows "h k m = h k n \<or> n \<le> h k m"
  using assms(2,3)
proof (induction m rule: int_ge_induct)
  case base
  then show ?case by simp
next
  case (step i)
  then show ?case using moves_to_new [of i k] assms(1) by auto
qed

end

section \<open>Jump consistent hash\<close>

definition jump_key :: "uint64 \<Rightarrow> uint64" where
  "jump_key key = key * 2862933555777941757 + 1"

text \<open>
  \<^verbatim>\<open>(b + 1) * (double(1LL << 31) / double((key >> 33) + 1))\<close>, before the conversion to \<^verbatim>\<open>int64_t\<close>;
  \<^verbatim>\<open>b + 1\<close> is converted to \<^verbatim>\<open>double\<close> first.
\<close>

definition jump_product :: "uint64 \<Rightarrow> nat \<Rightarrow> rat" where
  "jump_product key b =
     dmul (double_round (of_nat (b + 1)))
          (ddiv (2 ^ 31) (double_round (of_nat (unat (drop_bit 33 key) + 1))))"

definition jump_next :: "uint64 \<Rightarrow> nat \<Rightarrow> nat" where
  "jump_next key b = nat \<lfloor>jump_product key b\<rfloor>"

lemma jump_divisor:
  "1 \<le> unat (drop_bit 33 (key :: uint64)) + 1" "unat (drop_bit 33 (key :: uint64)) + 1 \<le> 2 ^ 31"
proof -
  have "unat key < 2 ^ 64" using unsigned_less [of key, where 'a = nat] by simp
  then have "unat (drop_bit 33 key) < 2 ^ 31"
    by (simp only: unat_drop_bit_eq) (simp add: drop_bit_eq_div less_mult_imp_div_less)
  then show "unat (drop_bit 33 key) + 1 \<le> 2 ^ 31" by simp
qed simp

lemma jump_product_bounds:
  assumes "b < 2 ^ 31"
  shows "of_nat (b + 1) \<le> jump_product key b" and "jump_product key b \<le> 2 ^ 62"
proof -
  define d where "d = unat (drop_bit 33 key) + 1"
  have d: "1 \<le> d" "d \<le> 2 ^ 31" using jump_divisor [of key] by (simp_all add: d_def)
  have dr: "double_round (of_nat d) = of_nat d"
    using double_round_int_exact [of "int d"] d by simp
  have br: "double_round (of_nat (b + 1)) = of_nat (b + 1)"
    using double_round_int_exact [of "int (b + 1)"] assms by simp
  define q where "q = ddiv (2 ^ 31) (of_nat d)"
  have x: "1 \<le> (2 ^ 31 :: rat) / of_nat d" "(2 ^ 31 :: rat) / of_nat d \<le> 2 ^ 31"
  proof -
    have "(of_nat d :: rat) \<le> of_nat (2 ^ 31)" using d(2) by (simp only: of_nat_le_iff)
    then show "1 \<le> (2 ^ 31 :: rat) / of_nat d" using d(1) by (simp add: field_simps)
    have "(1 :: rat) \<le> of_nat d" using d(1) by simp
    then show "(2 ^ 31 :: rat) / of_nat d \<le> 2 ^ 31" by (simp add: field_simps)
  qed
  have q: "1 \<le> q" "q \<le> 2 ^ 31"
  proof -
    show "1 \<le> q" using double_round_ge_int [of 1 "2 ^ 31 / of_nat d"] x by (simp add: q_def ddiv_def)
    have "double_round (2 ^ 31 / of_nat d) \<le> 2 powi 31"
      using x d by (intro double_round_le_power2) simp_all
    then show "q \<le> 2 ^ 31" by (simp add: q_def ddiv_def)
  qed
  have p: "jump_product key b = double_round (of_nat (b + 1) * q)"
    using dr br by (simp only: jump_product_def q_def d_def dmul_def)
  have y: "of_nat (b + 1) \<le> of_nat (b + 1) * q" "of_nat (b + 1) * q \<le> 2 ^ 31 * 2 ^ 31" "0 < of_nat (b + 1) * q"
  proof -
    have "(of_nat (b + 1) :: rat) \<le> of_nat (2 ^ 31)" using assms by (simp only: of_nat_le_iff)
    then have "(of_nat (b + 1) :: rat) \<le> 2 ^ 31" by simp
    with q show "of_nat (b + 1) * q \<le> 2 ^ 31 * 2 ^ 31" by (intro mult_mono) auto
    show "of_nat (b + 1) \<le> of_nat (b + 1) * q" using q(1) by (simp add: mult_le_cancel_left1)
    show "0 < of_nat (b + 1) * q" using q(1) by simp
  qed
  show "of_nat (b + 1) \<le> jump_product key b"
    using double_round_ge_int [of "int (b + 1)" "of_nat (b + 1) * q"] y(1) assms by (simp add: p)
  have "double_round (of_nat (b + 1) * q) \<le> 2 powi 62"
    using y by (intro double_round_le_power2) auto
  then show "jump_product key b \<le> 2 ^ 62" by (simp add: p)
qed

lemma jump_next_bounds:
  assumes "b < 2 ^ 31"
  shows "b < jump_next key b" and "int (jump_next key b) \<le> 2 ^ 62"
proof -
  have "int (b + 1) \<le> \<lfloor>jump_product key b\<rfloor>"
    using jump_product_bounds(1) [OF assms] by (simp add: le_floor_iff)
  then show "b < jump_next key b" by (simp add: jump_next_def)
  have "\<lfloor>jump_product key b\<rfloor> \<le> 2 ^ 62"
    using jump_product_bounds(2) [OF assms, of key] by (simp add: floor_le_iff)
  then show "int (jump_next key b) \<le> 2 ^ 62" by (simp add: jump_next_def)
qed

text \<open>
  The loop. \<open>num_buckets\<close> is the \<^verbatim>\<open>int32_t\<close> argument as its bit pattern; \<open>b\<close> and \<open>j\<close> are the \<^verbatim>\<open>int64_t\<close>
  variables, which never hold a negative value.
\<close>

lemma sint32_less: "sint (n :: uint32) < 2 ^ 31"
  using sint_lt [of n] by simp

function jump_loop :: "uint64 \<Rightarrow> nat \<Rightarrow> nat \<Rightarrow> uint32 \<Rightarrow> nat" where
  "jump_loop key b j num_buckets =
     (if int j < sint num_buckets
      then (let key1 = jump_key key in jump_loop key1 j (jump_next key1 j) num_buckets)
      else b)"
  by pat_completeness auto
termination
proof (relation "measure (\<lambda>(key, b, j, n). nat (sint n - int j))")
  fix key :: uint64 and b j :: nat and n :: uint32 and x
  assume j: "int j < sint n" and "x = jump_key key"
  have "int j < 2 ^ 31" using j sint32_less [of n] by linarith
  then have "j < 2 ^ 31" by simp
  then have "j < jump_next x j" by (rule jump_next_bounds)
  with j show "((x, j, jump_next x j, n), key, b, j, n) \<in> measure (\<lambda>(key, b, j, n). nat (sint n - int j))"
    by simp
qed simp

declare jump_loop.simps [simp del]

definition JumpConsistentHash :: "uint64 \<Rightarrow> uint32 \<Rightarrow> int" where
  "JumpConsistentHash key num_buckets = int (jump_loop key 1 0 num_buckets)"

definition bytes_of :: "string \<Rightarrow> byte list" where
  "bytes_of s = map of_char s"

text \<open>The number of buckets arrives as a \<^verbatim>\<open>size_t\<close> and is converted to \<^verbatim>\<open>int\<close>.\<close>

definition consistent_hash :: "string \<Rightarrow> int \<Rightarrow> int" where
  "consistent_hash str num_buckets =
     JumpConsistentHash (MurmurHash64A (bytes_of str) 1995) (word_of_int num_buckets)"

section \<open>The result is a bucket\<close>

lemma jump_loop_below:
  "int b < sint n \<or> int j < sint n \<Longrightarrow> int (jump_loop key b j n) < sint n"
proof (induction key b j n rule: jump_loop.induct)
  case (1 key b j n)
  then show ?case by (subst jump_loop.simps) (auto simp: Let_def)
qed

lemma sint_word_of_int32:
  "- (2 ^ 31) \<le> n \<Longrightarrow> n < 2 ^ 31 \<Longrightarrow> sint (word_of_int n :: uint32) = n"
  by (simp add: signed_of_int signed_take_bit_int_eq_self)

lemma jump_in_range:
  assumes "0 < n" "n < 2 ^ 31"
  shows "0 \<le> JumpConsistentHash key (word_of_int n) \<and> JumpConsistentHash key (word_of_int n) < n"
  using jump_loop_below [of 1 "word_of_int n" 0 key] assms
  by (simp add: JumpConsistentHash_def sint_word_of_int32)

lemma jump_loop_grow:
  assumes "sint v = sint w + 1"
  shows "jump_loop key b j v = jump_loop key b j w \<or> int (jump_loop key b j v) = sint w"
proof (induction "nat (sint w - int j)" arbitrary: key b j rule: less_induct)
  case less
  let ?k = "jump_key key"
  have next_j: "j < jump_next ?k j" if "int j \<le> sint w"
    using that assms sint32_less [of v] by (intro jump_next_bounds) simp
  consider "int j < sint w" | "int j = sint w" | "sint w < int j" by linarith
  then show ?case
  proof cases
    case 1
    with next_j have "nat (sint w - int (jump_next ?k j)) < nat (sint w - int j)" by linarith
    from less.hyps [OF this, of ?k j] 1 assms show ?thesis
      by (simp add: jump_loop.simps [of key b j] Let_def)
  next
    case 2
    with next_j assms have "jump_loop key b j v = j"
      by (simp add: jump_loop.simps [of key b j] jump_loop.simps [of ?k j] Let_def)
    with 2 show ?thesis by simp
  next
    case 3
    with assms show ?thesis by (simp add: jump_loop.simps [of key b j])
  qed
qed

interpretation ch: bucket_hash consistent_hash int32_max
proof unfold_locales
  show "0 < n \<Longrightarrow> n \<le> int32_max \<Longrightarrow> 0 \<le> consistent_hash k n \<and> consistent_hash k n < n" for n k
    by (simp add: consistent_hash_def jump_in_range)
  show "consistent_hash k (n + 1) = consistent_hash k n \<or> consistent_hash k (n + 1) = n"
    if "0 < n" "n < int32_max" for n k
  proof -
    have "sint (word_of_int n :: uint32) = n" "sint (word_of_int (n + 1) :: uint32) = n + 1"
      using that by (auto intro!: sint_word_of_int32 simp del: of_int_add wi_hom_add [symmetric])
    with jump_loop_grow [of "word_of_int (n + 1)" "word_of_int n"] show ?thesis
      unfolding consistent_hash_def JumpConsistentHash_def by (metis of_nat_eq_iff)
  qed
qed

lemma one_server: "consistent_hash k 1 = 0"
  using ch.in_range [of 1 k] by simp

text \<open>
  C26. Consistent hashing is total, in range and consistent: with between 1 and \<^verbatim>\<open>INT_MAX\<close> buckets the loop
  ends although it runs on rounded \<^verbatim>\<open>double\<close> arithmetic, every intermediate \<^verbatim>\<open>j\<close> fits an \<^verbatim>\<open>int64_t\<close>, the result
  is an existing bucket, and when buckets are added at the end a key either stays where it was or
  moves to one of the new buckets. Removing the last buckets therefore moves no key between the
  buckets that remain.
\<close>

theorem consistent_hash_correct:
  assumes "0 < n" "n \<le> m" "m \<le> int32_max"
  shows "0 \<le> consistent_hash str n \<and> consistent_hash str n < n \<and>
         (consistent_hash str m = consistent_hash str n \<or> n \<le> consistent_hash str m) \<and>
         (\<forall>key b. int b < n \<longrightarrow> int b < int (jump_next key b) \<and> int (jump_next key b) \<le> int64_max)"
proof (intro conjI allI impI)
  show "0 \<le> consistent_hash str n" "consistent_hash str n < n"
    using ch.in_range [of n str] assms by auto
  show "consistent_hash str m = consistent_hash str n \<or> n \<le> consistent_hash str m"
    using assms by (rule ch.grow_buckets)
  fix key b assume "int b < n"
  then have "b < 2 ^ 31" using assms by simp
  from jump_next_bounds [OF this, of key]
  show "int b < int (jump_next key b)" "int (jump_next key b) \<le> int64_max" by auto
qed

theorem consistent_hash_correct_witness:
  "(0 :: int) < 3 \<and> 0 \<le> consistent_hash ''user42'' 3 \<and> consistent_hash ''user42'' 3 < 3 \<and>
   (consistent_hash ''user42'' 16 = consistent_hash ''user42'' 3 \<or> 3 \<le> consistent_hash ''user42'' 16)"
  using consistent_hash_correct [of 3 16 "''user42''"] by simp

end
