(* ===== verification/L2_Interface.thy ===== *)
theory L2_Interface
  imports Rpc Util Consistent_Hash Host_Info Thrift_Types
begin

text \<open>
  proxy/src/l2_interface.h and l2_interface.cpp: the operations that L1 proxies send to L2 proxies,
  their encoding as chain command arguments, and the routing to a column and a worker.
\<close>

record l2_operation =
  l2_seq_id :: sequence_id
  l2_key :: string
  l2_replica :: int
  l2_value :: string

definition l2_operation_new :: l2_operation where
  "l2_operation_new = \<lparr>l2_seq_id = sequence_id_new, l2_key = [], l2_replica = 0, l2_value = []\<rparr>"

section \<open>Serialisation\<close>

definition l2_serialize :: "l2_operation \<Rightarrow> string list" where
  "l2_serialize op =
     [to_string (client_id (l2_seq_id op)), to_string (client_seq_no (l2_seq_id op)), l2_key op,
      to_string (l2_replica op), l2_value op]
     @ (if isset_ts (l2_seq_id op) then [''$ts$'', to_string (ts (l2_seq_id op))] else [])
     @ (if isset_diag (l2_seq_id op) then [''$diag$'', diag (l2_seq_id op)] else [])"

text \<open>
  \<^verbatim>\<open>deserialize\<close> fills the operation from \<^verbatim>\<open>args\<close> starting at \<^verbatim>\<open>idx\<close> and returns the number of arguments it used.
  The two optional pairs are recognised by their markers.
\<close>

definition l2_opt_ts :: "string list \<Rightarrow> nat \<Rightarrow> sequence_id \<Rightarrow> (sequence_id \<times> nat) outcome" where
  "l2_opt_ts args idx s =
     (if int (length args) - int idx \<ge> 2 \<and> args ! idx = ''$ts$''
      then bind_out (stoll (args ! (idx + 1))) (\<lambda>v. Inr (set_ts v s, idx + 2))
      else Inr (s, idx))"

definition l2_opt_diag :: "string list \<Rightarrow> nat \<Rightarrow> sequence_id \<Rightarrow> sequence_id \<times> nat" where
  "l2_opt_diag args idx s =
     (if int (length args) - int idx \<ge> 2 \<and> args ! idx = ''$diag$''
      then (set_diag (args ! (idx + 1)) s, idx + 2)
      else (s, idx))"

definition l2_deserialize :: "l2_operation \<Rightarrow> string list \<Rightarrow> nat \<Rightarrow> (l2_operation \<times> nat) outcome" where
  "l2_deserialize op args idx =
     (if int (length args) - int idx < 5 then Inl (Logic_error ''l2_operation deserialize failed'')
      else
        bind_out (stoll (args ! idx)) (\<lambda>cid.
        bind_out (stoll (args ! (idx + 1))) (\<lambda>csn.
        bind_out (stoi (args ! (idx + 3))) (\<lambda>rep.
        bind_out (l2_opt_ts args (idx + 5) ((l2_seq_id op)\<lparr>client_id := cid, client_seq_no := csn\<rparr>)) (\<lambda>(s, i).
          (let (s', i') = l2_opt_diag args i s in
           Inr (op\<lparr>l2_seq_id := s', l2_key := args ! (idx + 2), l2_replica := rep,
                   l2_value := args ! (idx + 4)\<rparr>, i' - idx)))))))"

text \<open>What survives serialisation: the layer numbers are not part of the arguments.\<close>

definition wire_seq :: "sequence_id \<Rightarrow> sequence_id" where
  "wire_seq s =
     sequence_id_new\<lparr>client_id := client_id s, client_seq_no := client_seq_no s,
       ts := (if isset_ts s then ts s else 0), isset_ts := isset_ts s,
       diag := (if isset_diag s then diag s else []), isset_diag := isset_diag s\<rparr>"

definition wire_op :: "l2_operation \<Rightarrow> l2_operation" where
  "wire_op op = op\<lparr>l2_seq_id := wire_seq (l2_seq_id op)\<rparr>"

definition l2_op_ok :: "l2_operation \<Rightarrow> bool" where
  "l2_op_ok op \<longleftrightarrow>
     int64_range (client_id (l2_seq_id op)) \<and> int64_range (client_seq_no (l2_seq_id op)) \<and>
     int64_range (ts (l2_seq_id op)) \<and> int32_range (l2_replica op)"

text \<open>No command argument list that starts with an encoded number looks like a marker.\<close>

definition no_marker :: "string list \<Rightarrow> bool" where
  "no_marker rest \<longleftrightarrow> rest = [] \<or> hd rest \<noteq> ''$ts$'' \<and> hd rest \<noteq> ''$diag$''"

lemma to_string_not_marker [simp]:
  "to_string i \<noteq> CHR ''$'' # s" "CHR ''$'' # s \<noteq> to_string i"
  using to_string_no_dollar [of i] by (metis list.set_intros(1))+

lemma no_marker_serialize: "no_marker (concat (map l2_serialize ops))"
  by (cases ops) (auto simp: no_marker_def l2_serialize_def)

lemma nth_append_at [simp]:
  "(pre @ xs) ! length pre = xs ! 0" "(pre @ xs) ! (length pre + k) = xs ! k"
  "(pre @ xs) ! Suc (length pre) = xs ! 1"
  using nth_append_length_plus [of pre xs 1] by (simp_all add: nth_append)

lemma l2_deserialize_serialize:
  assumes "l2_op_ok op" "no_marker rest"
  shows "l2_deserialize l2_operation_new (pre @ l2_serialize op @ rest) (length pre) =
           Inr (wire_op op, length (l2_serialize op))"
proof -
  let ?s = "l2_seq_id op"
  have r: "stoll (to_string (client_id ?s)) = Inr (client_id ?s)"
    "stoll (to_string (client_seq_no ?s)) = Inr (client_seq_no ?s)"
    "stoll (to_string (ts ?s)) = Inr (ts ?s)" "stoi (to_string (l2_replica op)) = Inr (l2_replica op)"
    using assms(1) by (simp_all add: l2_op_ok_def)
  have hd: "rest ! 0 \<noteq> ''$ts$''" "rest ! 0 \<noteq> ''$diag$''" if "rest \<noteq> []"
    using assms(2) that by (auto simp: no_marker_def hd_conv_nth)
  show ?thesis
    by (cases "isset_ts ?s"; cases "isset_diag ?s"; cases "rest = []")
      (use r hd in \<open>simp_all add: l2_deserialize_def l2_serialize_def l2_opt_ts_def l2_opt_diag_def
        l2_operation_new_def wire_op_def wire_seq_def set_ts_def set_diag_def sequence_id_new_def nth_append
        nth_Cons' Let_def\<close>)
qed

section \<open>Connections and routing\<close>

record l2_iface =
  l2_hosts :: "host list"
  l2_clients :: "l2_operation grid"
  l2_dummy_key :: string

definition l2_iface_new :: "host list \<Rightarrow> string \<Rightarrow> l2_iface" where
  "l2_iface_new hinfo dummy_key = \<lparr>l2_hosts = hinfo, l2_clients = [], l2_dummy_key = dummy_key\<rparr>"

definition l2_connect :: "(string \<Rightarrow> int \<Rightarrow> bool) \<Rightarrow> (l2_iface, unit) cpp" where
  "l2_connect up =
     bnd (gets l2_hosts) (\<lambda>hs.
       for_each [0..<nat (get_num_columns hs HOST_TYPE_L2 False)] (\<lambda>i.
         bnd (lift_out (vec_at (get_replicas hs HOST_TYPE_L2 (int i)) 0)) (\<lambda>h.
         bnd (lift_out (open_workers up (hostname h) (port h) (num_workers h))) (\<lambda>clients.
           modify (\<lambda>s. s\<lparr>l2_clients := l2_clients s @ [clients]\<rparr>)))))"

text \<open>\<open>d\<close> is the draw that spreads the requests for the dummy key.\<close>

definition l2_column :: "nat \<Rightarrow> l2_operation \<Rightarrow> l2_iface \<Rightarrow> int" where
  "l2_column d op s =
     (if l2_key op = l2_dummy_key s then sint (rand_uint32 0 (of_nat (length (l2_clients s)) - 1) d)
      else consistent_hash (l2_key op) (int (length (l2_clients s))))"

definition l2_worker :: "l2_operation \<Rightarrow> nat \<Rightarrow> nat" where
  "l2_worker op n = unat (MurmurHash64A (bytes_of (l2_key op @ to_string (l2_replica op))) 1995) mod n"

definition l2_send_op :: "nat \<Rightarrow> l2_operation \<Rightarrow> (l2_iface, unit) cpp" where
  "l2_send_op d op s =
     (let id = l2_column d op s in
      case vec_at (l2_clients s) id of
        Inl e \<Rightarrow> (Inl e, s)
      | Inr cl \<Rightarrow>
          (if cl = [] then (Inl (Undefined_behaviour ''modulo by zero''), s)
           else (Inr (), s\<lparr>l2_clients := grid_call (nat id) (l2_worker op (length cl)) op (l2_clients s)\<rparr>)))"

definition l2_update_connections :: "(string \<Rightarrow> int \<Rightarrow> bool) \<Rightarrow> int \<Rightarrow> string \<Rightarrow> int \<Rightarrow> int \<Rightarrow> (l2_iface, unit) cpp" where
  "l2_update_connections up col hname p n =
     bnd (lift_out (open_workers up hname p n)) (\<lambda>clients s.
       if 0 \<le> col \<and> col < int (length (l2_clients s))
       then (Inr (), s\<lparr>l2_clients := (l2_clients s)[nat col := clients]\<rparr>)
       else (Inl (Undefined_behaviour ''vector index''), s))"

text \<open>An interface every column of which has a worker.\<close>

definition l2_ready :: "l2_iface \<Rightarrow> bool" where
  "l2_ready s \<longleftrightarrow>
     l2_clients s \<noteq> [] \<and> length (l2_clients s) < 2 ^ 31 \<and> list_all (\<lambda>cl. cl \<noteq> []) (l2_clients s)"

lemma l2_column_range:
  assumes "l2_ready s"
  shows "0 \<le> l2_column d op s \<and> l2_column d op s < int (length (l2_clients s))"
proof (cases "l2_key op = l2_dummy_key s")
  case True
  then show ?thesis
    using assms by (simp add: l2_column_def l2_ready_def rand_index)
next
  case False
  with ch.in_range [of "int (length (l2_clients s))" "l2_key op"] assms show ?thesis
    by (simp add: l2_column_def l2_ready_def)
qed

lemma l2_send_op_ready:
  assumes "l2_ready s"
  shows "l2_send_op d op s =
           (Inr (), s\<lparr>l2_clients := grid_call (nat (l2_column d op s))
              (l2_worker op (length (l2_clients s ! nat (l2_column d op s)))) op (l2_clients s)\<rparr>)"
    and "l2_worker op (length (l2_clients s ! nat (l2_column d op s))) < length (l2_clients s ! nat (l2_column d op s))"
proof -
  let ?i = "l2_column d op s"
  have r: "0 \<le> ?i" "?i < int (length (l2_clients s))" using l2_column_range [OF assms, of d op] by auto
  then have ne: "l2_clients s ! nat ?i \<noteq> []"
    using assms by (auto simp: l2_ready_def list_all_length)
  show "l2_send_op d op s = (Inr (), s\<lparr>l2_clients := grid_call (nat ?i)
      (l2_worker op (length (l2_clients s ! nat ?i))) op (l2_clients s)\<rparr>)"
    using r ne by (simp add: l2_send_op_def Let_def)
  show "l2_worker op (length (l2_clients s ! nat ?i)) < length (l2_clients s ! nat ?i)"
    using ne by (simp add: l2_worker_def)
qed

lemma l2_send_op_keeps_ready: "keeps l2_ready (l2_send_op d op)"
proof (rule keepsI)
  fix s assume r: "l2_ready s"
  show "l2_ready (snd (l2_send_op d op s))"
    using r by (simp add: l2_send_op_ready(1) [OF r] l2_ready_def)
qed

section \<open>Properties\<close>

text \<open>
  The encoding of chain commands is unambiguous: a batch of operations written one after the
  other, each with or without the optional time stamp and diagnostics, is read back as
  the same operations; at every position the number of arguments that \<^verbatim>\<open>deserialize\<close> reports is the
  number that \<^verbatim>\<open>serialize\<close> wrote, so that the reading loop stays in step whatever keys and values contain.
\<close>

lemma l2_operation_roundtrip:
  assumes "l2_op_ok op" "l2_op_ok nxt"
  shows "l2_deserialize l2_operation_new (concat (map l2_serialize before) @ l2_serialize op @ concat (map l2_serialize after))
           (length (concat (map l2_serialize before))) = Inr (wire_op op, length (l2_serialize op)) \<and>
         l2_deserialize l2_operation_new (l2_serialize op @ l2_serialize nxt) (length (l2_serialize op)) =
           Inr (wire_op nxt, length (l2_serialize nxt))"
  using l2_deserialize_serialize [OF assms(1) no_marker_serialize]
    l2_deserialize_serialize [OF assms(2), of "[]" "l2_serialize op"]
  by (simp add: no_marker_def)

text \<open>
  Routing to L2: with every column served by at least one worker, sending an operation never reads
  outside the vectors and hands it to exactly one connection, behind what was sent there before,
  leaving all others alone. For every key but the dummy key the connection depends only on key and replica
  and on the sizes of the layer, so that all operations on a replica of a key meet in one place in order.
\<close>

lemma l2_routing:
  assumes "l2_ready s"
  shows "\<exists>i j. i < length (l2_clients s) \<and> j < length (l2_clients s ! i) \<and>
           l2_send_op d op s = (Inr (), s\<lparr>l2_clients := grid_call i j op (l2_clients s)\<rparr>) \<and>
           (l2_key op \<noteq> l2_dummy_key s \<longrightarrow>
              int i = consistent_hash (l2_key op) (int (length (l2_clients s))) \<and>
              j = unat (MurmurHash64A (bytes_of (l2_key op @ to_string (l2_replica op))) 1995) mod length (l2_clients s ! i)) \<and>
           (\<forall>k l. k < length (l2_clients s) \<and> l < length (l2_clients s ! k) \<longrightarrow>
              cl_sent (l2_clients (snd (l2_send_op d op s)) ! k ! l) =
                cl_sent (l2_clients s ! k ! l) @ (if k = i \<and> l = j then [op] else []))"
proof -
  let ?i = "nat (l2_column d op s)"
  let ?j = "l2_worker op (length (l2_clients s ! ?i))"
  have r: "0 \<le> l2_column d op s" "?i < length (l2_clients s)"
    using l2_column_range [OF assms, of d op] by auto
  have send: "l2_send_op d op s = (Inr (), s\<lparr>l2_clients := grid_call ?i ?j op (l2_clients s)\<rparr>)"
    "?j < length (l2_clients s ! ?i)" by (rule l2_send_op_ready [OF assms])+
  show ?thesis
  proof (rule exI [of _ ?i], rule exI [of _ ?j], intro conjI impI allI)
    show "l2_send_op d op s = (Inr (), s\<lparr>l2_clients := grid_call ?i ?j op (l2_clients s)\<rparr>)" by (rule send(1))
    show "int ?i = consistent_hash (l2_key op) (int (length (l2_clients s)))" if "l2_key op \<noteq> l2_dummy_key s"
      using r(1) that by (simp add: l2_column_def)
    show "cl_sent (l2_clients (snd (l2_send_op d op s)) ! k ! l) =
        cl_sent (l2_clients s ! k ! l) @ (if k = ?i \<and> l = ?j then [op] else [])"
      if "k < length (l2_clients s) \<and> l < length (l2_clients s ! k)" for k l
      using grid_call_nth [OF r(2) send(2), of k l op] that by (simp add: send(1))
  qed (use r(2) send(2) in \<open>simp_all add: l2_worker_def\<close>)
qed

end
