(* ===== verification/L3_Interface.thy ===== *)
theory L3_Interface
  imports Rpc Consistent_Hash Host_Info Thrift_Types
begin

text \<open>
  proxy/src/l3_interface.h and l3_interface.cpp: what L2 proxies send to L3 proxies, the routing by
  label, and the removal of the connections to a failed L3 host.
\<close>

record l3_operation =
  l3_seq_id :: sequence_id
  l3_label :: string
  l3_value :: string
  l3_plaintext :: string
  l3_is_read :: bool
  l3_dedup :: bool

definition L3_NUM_CORES :: int where
  "L3_NUM_CORES = 16"

record l3_iface =
  l3_hosts :: "host list"
  l3_clients :: "l3_operation grid"

definition l3_iface_new :: "host list \<Rightarrow> l3_iface" where
  "l3_iface_new hinfo = \<lparr>l3_hosts = hinfo, l3_clients = []\<rparr>"

definition l3_connect :: "(string \<Rightarrow> int \<Rightarrow> bool) \<Rightarrow> (l3_iface, unit) cpp" where
  "l3_connect up =
     bnd (gets l3_hosts) (\<lambda>hs.
       for_each [0..<nat (get_num_columns hs HOST_TYPE_L3 False)] (\<lambda>i.
         bnd (lift_out (vec_at (get_replicas hs HOST_TYPE_L3 (int i)) 0)) (\<lambda>h.
         bnd (lift_out (open_workers up (hostname h) (port h) (num_workers h))) (\<lambda>clients.
           modify (\<lambda>s. s\<lparr>l3_clients := l3_clients s @ [clients]\<rparr>)))))"

definition l3_worker :: "string \<Rightarrow> nat \<Rightarrow> nat" where
  "l3_worker label n = unat (MurmurHash64A (bytes_of label) 1995) mod n"

definition l3_send_op :: "l3_operation \<Rightarrow> (l3_iface, unit) cpp" where
  "l3_send_op op s =
     (let id = consistent_hash (l3_label op) (int (length (l3_clients s))) in
      case vec_at (l3_clients s) id of
        Inl e \<Rightarrow> (Inl e, s)
      | Inr cl \<Rightarrow>
          (if cl = [] then (Inl (Undefined_behaviour ''modulo by zero''), s)
           else (Inr (), s\<lparr>l3_clients := grid_call (nat id) (l3_worker (l3_label op) (length cl)) op (l3_clients s)\<rparr>)))"

text \<open>
  \<^verbatim>\<open>remove_connection\<close> erases \<^verbatim>\<open>L3_NUM_CORES\<close> columns from the given one on. Erasing a range that ends behind the end
  of the vector is undefined behaviour.
\<close>

definition l3_remove_connection :: "int \<Rightarrow> (l3_iface, unit) cpp" where
  "l3_remove_connection col s =
     (if \<not> (0 \<le> col \<and> col < int (length (l3_clients s)))
      then (Inl (Runtime_error ''remove_connection column out of range''), s)
      else if int (length (l3_clients s)) < col + L3_NUM_CORES
      then (Inl (Undefined_behaviour ''erase past the end''), s)
      else (Inr (), s\<lparr>l3_clients := take (nat col) (l3_clients s) @ drop (nat (col + L3_NUM_CORES)) (l3_clients s)\<rparr>))"

definition l3_ready :: "l3_iface \<Rightarrow> bool" where
  "l3_ready s \<longleftrightarrow>
     l3_clients s \<noteq> [] \<and> length (l3_clients s) < 2 ^ 31 \<and> list_all (\<lambda>cl. cl \<noteq> []) (l3_clients s)"

lemma l3_send_op_ready:
  fixes op :: l3_operation
  assumes "l3_ready s"
  defines "i \<equiv> nat (consistent_hash (l3_label op) (int (length (l3_clients s))))"
  shows "l3_send_op op s =
           (Inr (), s\<lparr>l3_clients := grid_call i (l3_worker (l3_label op) (length (l3_clients s ! i))) op (l3_clients s)\<rparr>)"
    and "i < length (l3_clients s)" and "l3_worker (l3_label op) (length (l3_clients s ! i)) < length (l3_clients s ! i)"
proof -
  let ?h = "consistent_hash (l3_label op) (int (length (l3_clients s)))"
  have r: "0 \<le> ?h" "?h < int (length (l3_clients s))"
    using ch.in_range [of "int (length (l3_clients s))" "l3_label op"] assms(1) by (auto simp: l3_ready_def)
  then show i: "i < length (l3_clients s)" by (simp add: i_def)
  then have ne: "l3_clients s ! i \<noteq> []" using assms(1) by (auto simp: l3_ready_def list_all_length)
  then show "l3_send_op op s =
      (Inr (), s\<lparr>l3_clients := grid_call i (l3_worker (l3_label op) (length (l3_clients s ! i))) op (l3_clients s)\<rparr>)"
    using r by (simp add: l3_send_op_def Let_def i_def)
  show "l3_worker (l3_label op) (length (l3_clients s ! i)) < length (l3_clients s ! i)"
    using ne by (simp add: l3_worker_def)
qed

lemma l3_column_nonneg: "l3_ready s \<Longrightarrow> 0 \<le> consistent_hash label (int (length (l3_clients s)))"
  using ch.in_range [of "int (length (l3_clients s))" label] by (cases "l3_clients s") (auto simp: l3_ready_def)

lemma l3_send_op_keeps_ready: "keeps l3_ready (l3_send_op op)"
  by (rule keepsI) (simp add: l3_send_op_ready(1) l3_ready_def)

text \<open>
  Failing over an L3 host: if the failed column and the fifteen behind it exist and columns are left, removing them keeps every
  other connection with what was sent on it and in order, the interface stays usable, and
  every label is routed to one of the connections that are left, the same one each time.
\<close>

lemma l3_remove_connection_reroutes:
  assumes "l3_ready s" "0 \<le> col" "col + L3_NUM_CORES \<le> int (length (l3_clients s))"
    and "L3_NUM_CORES < int (length (l3_clients s))"
  shows "\<exists>s'. l3_remove_connection col s = (Inr (), s') \<and>
           l3_clients s' = take (nat col) (l3_clients s) @ drop (nat col + 16) (l3_clients s) \<and>
           l3_ready s' \<and>
           (\<forall>op. \<exists>i j. i < length (l3_clients s) - 16 \<and>
              l3_send_op op s' = (Inr (), s'\<lparr>l3_clients := grid_call i j op (l3_clients s')\<rparr>) \<and>
              int i = consistent_hash (l3_label op) (int (length (l3_clients s) - 16)))"
proof -
  let ?cs = "take (nat col) (l3_clients s) @ drop (nat col + 16) (l3_clients s)"
  let ?s = "s\<lparr>l3_clients := ?cs\<rparr>"
  have b: "nat (col + L3_NUM_CORES) = nat col + 16" "nat col + 16 \<le> length (l3_clients s)"
    using assms(2,3) by (simp_all add: L3_NUM_CORES_def nat_add_distrib)
  have len: "length ?cs = length (l3_clients s) - 16" using b(2) by simp
  have rm: "l3_remove_connection col s = (Inr (), ?s)"
    using assms(2,3) by (simp add: l3_remove_connection_def b(1)) (simp add: L3_NUM_CORES_def)
  have "list_all (\<lambda>cl. cl \<noteq> []) ?cs"
    using assms(1) by (auto simp: l3_ready_def list_all_iff dest: in_set_takeD in_set_dropD)
  moreover have "?cs \<noteq> []" using len assms(4) by (auto simp: L3_NUM_CORES_def simp flip: length_0_conv)
  moreover have "length ?cs < 2 ^ 31" unfolding len using assms(1) by (auto simp: l3_ready_def)
  ultimately have ready: "l3_ready ?s" by (simp only: l3_ready_def l3_iface.simps)  simp
  have "\<exists>i j. i < length (l3_clients s) - 16 \<and>
      l3_send_op op ?s = (Inr (), ?s\<lparr>l3_clients := grid_call i j op (l3_clients ?s)\<rparr>) \<and>
      int i = consistent_hash (l3_label op) (int (length (l3_clients s) - 16))" for op
  proof -
    let ?i = "nat (consistent_hash (l3_label op) (int (length (l3_clients ?s))))"
    have n: "length (l3_clients ?s) = length (l3_clients s) - 16" using len by simp
    have "int ?i = consistent_hash (l3_label op) (int (length (l3_clients s) - 16))"
      using l3_column_nonneg [OF ready, of "l3_label op"] unfolding n by (simp only: int_nat_eq if_True)
    moreover have "?i < length (l3_clients s) - 16" using l3_send_op_ready(2) [OF ready, of op] unfolding n .
    ultimately show ?thesis using l3_send_op_ready(1) [OF ready, of op] by blast
  qed
  with rm ready show ?thesis by auto
qed

end
