(* ===== verification/Reverse_Connector.thy ===== *)
theory Reverse_Connector
  imports Rpc Host_Info Thrift_Types
begin

text \<open>
  proxy/src/reverse_connector.h and reverse_connector.cpp: the connections on which a layer acknowledges requests to the
  layer above, one queue of acknowledgements per worker. The virtual function \<^verbatim>\<open>route\<close> is an argument.

  \<^verbatim>\<open>client_arr_\<close> holds pointers into \<^verbatim>\<open>clients_\<close>; it is the list of their positions (column, worker). A null pointer in
  \<^verbatim>\<open>clients_\<close> is \<open>None\<close>.
\<close>

record rev_conn =
  rv_hosts :: "host list"
  rv_type :: int
  rv_batch_size :: int
  rv_clients :: "sequence_id list rpc_client option list list"
  rv_arr :: "(nat \<times> nat) list"
  rv_queues :: "sequence_id list list"

definition rv_positions :: "'c list list \<Rightarrow> (nat \<times> nat) list" where
  "rv_positions cs = concat (map (\<lambda>i. map (\<lambda>j. (i, j)) [0..<length (cs ! i)]) [0..<length cs])"

definition recompute_client_array :: "rev_conn \<Rightarrow> rev_conn" where
  "recompute_client_array s =
     s\<lparr>rv_arr := rv_positions (rv_clients s), rv_queues := replicate (length (rv_positions (rv_clients s))) []\<rparr>"

definition rev_conn_new :: "host list \<Rightarrow> int \<Rightarrow> int \<Rightarrow> rev_conn outcome" where
  "rev_conn_new hinfo t batch_size =
     bind_out (map_out (\<lambda>i. let reps = get_replicas hinfo t (int i) in
                 if reps = [] then Inl (Undefined_behaviour ''back of an empty vector'')
                 else Inr (replicate (nat (num_workers (last reps))) None))
               [0..<nat (get_num_columns hinfo t False)]) (\<lambda>cs.
       Inr (recompute_client_array
         \<lparr>rv_hosts = hinfo, rv_type = t, rv_batch_size = batch_size, rv_clients = cs, rv_arr = [], rv_queues = []\<rparr>))"

definition rv_client :: "rev_conn \<Rightarrow> nat \<Rightarrow> sequence_id list rpc_client option" where
  "rv_client s k = (let (i, j) = rv_arr s ! k in rv_clients s ! i ! j)"

definition rv_send :: "nat \<Rightarrow> sequence_id list \<Rightarrow> rev_conn \<Rightarrow> rev_conn" where
  "rv_send k batch s =
     (let (i, j) = rv_arr s ! k in
      s\<lparr>rv_clients := (rv_clients s)[i := (rv_clients s ! i)[j :=
          map_option (\<lambda>c. c\<lparr>cl_sent := cl_sent c @ [batch]\<rparr>) (rv_clients s ! i ! j)]]\<rparr>)"

definition send_ack :: "(sequence_id \<Rightarrow> int) \<Rightarrow> sequence_id \<Rightarrow> (rev_conn, unit) cpp" where
  "send_ack route seq s =
     (let id = route seq in
      if \<not> (0 \<le> id \<and> id < int (length (rv_arr s))) then (Inl (Runtime_error ''id out of bound''), s)
      else if rv_client s (nat id) = None then (Inl (Runtime_error ''connection to id uninitialized''), s)
      else
        (let q = rv_queues s ! nat id @ [seq] in
         if int (length q) \<ge> rv_batch_size s mod 2 ^ 64
         then (Inr (), rv_send (nat id) q (s\<lparr>rv_queues := (rv_queues s)[nat id := []]\<rparr>))
         else (Inr (), s\<lparr>rv_queues := (rv_queues s)[nat id := q]\<rparr>)))"

definition rv_update_connections :: "(string \<Rightarrow> int \<Rightarrow> bool) \<Rightarrow> int \<Rightarrow> string \<Rightarrow> int \<Rightarrow> int \<Rightarrow> (rev_conn, unit) cpp" where
  "rv_update_connections up col hname p n =
     bnd (lift_out (open_workers up hname p n)) (\<lambda>clients s.
       if 0 \<le> col \<and> col < int (length (rv_clients s))
       then (Inr (), recompute_client_array (s\<lparr>rv_clients := (rv_clients s)[nat col := map Some clients]\<rparr>))
       else (Inl (Undefined_behaviour ''vector index''), s))"

section \<open>Positions\<close>

lemma set_rv_positions: "set (rv_positions cs) = {(i, j). i < length cs \<and> j < length (cs ! i)}"
  by (auto simp: rv_positions_def)

lemma distinct_rv_positions: "distinct (rv_positions cs)"
proof -
  have "distinct (concat (map (\<lambda>i. map (Pair i) [0..<length (cs ! i)]) is))" if "distinct is" for "is"
    using that by (induction "is") (auto simp: distinct_map inj_on_def)
  then show ?thesis by (simp add: rv_positions_def)
qed

definition rv_ok :: "rev_conn \<Rightarrow> bool" where
  "rv_ok s \<longleftrightarrow> rv_arr s = rv_positions (rv_clients s) \<and> length (rv_queues s) = length (rv_arr s)"

lemma recompute_ok: "rv_ok (recompute_client_array s)"
  by (simp add: recompute_client_array_def rv_ok_def)

lemma rv_positions_cong:
  assumes "length cs = length ds" "\<And>i. i < length ds \<Longrightarrow> length (cs ! i) = length (ds ! i)"
  shows "rv_positions cs = rv_positions ds"
proof -
  have "map (\<lambda>i. map (Pair i) [0..<length (cs ! i)]) [0..<length cs] =
        map (\<lambda>i. map (Pair i) [0..<length (ds ! i)]) [0..<length ds]"
    unfolding assms(1) by (rule map_cong) (simp_all add: assms(2))
  then show ?thesis by (simp add: rv_positions_def)
qed

lemma rv_positions_update:
  "length c = length (cs ! i) \<Longrightarrow> rv_positions (cs[i := c]) = rv_positions cs"
  by (rule rv_positions_cong) (simp, metis nth_list_update_eq nth_list_update_neq)

section \<open>One acknowledgement\<close>

lemma rv_position:
  assumes "rv_ok s" "k < length (rv_arr s)"
  obtains i j where "rv_arr s ! k = (i, j)" "i < length (rv_clients s)" "j < length (rv_clients s ! i)"
proof -
  obtain i j where ij: "rv_arr s ! k = (i, j)" by (cases "rv_arr s ! k")
  then have "(i, j) \<in> set (rv_positions (rv_clients s))" using assms nth_mem by (fastforce simp: rv_ok_def)
  with ij that show thesis by (simp add: set_rv_positions)
qed

lemma rv_send_ok:
  assumes "rv_ok s" "k < length (rv_arr s)"
  shows "rv_ok (rv_send k batch s)" and "rv_arr (rv_send k batch s) = rv_arr s"
    and "rv_queues (rv_send k batch s) = rv_queues s" and "rv_batch_size (rv_send k batch s) = rv_batch_size s"
    and "l < length (rv_arr s) \<Longrightarrow> rv_client (rv_send k batch s) l =
           (if l = k then map_option (\<lambda>c. c\<lparr>cl_sent := cl_sent c @ [batch]\<rparr>) (rv_client s l) else rv_client s l)"
proof -
  obtain i j where ij: "rv_arr s ! k = (i, j)" "i < length (rv_clients s)" "j < length (rv_clients s ! i)"
    using rv_position [OF assms] .
  have send: "rv_send k batch s = s\<lparr>rv_clients := (rv_clients s)[i := (rv_clients s ! i)[j :=
      map_option (\<lambda>c. c\<lparr>cl_sent := cl_sent c @ [batch]\<rparr>) (rv_clients s ! i ! j)]]\<rparr>"
    by (simp add: rv_send_def ij(1))
  show "rv_arr (rv_send k batch s) = rv_arr s" "rv_queues (rv_send k batch s) = rv_queues s"
    "rv_batch_size (rv_send k batch s) = rv_batch_size s"
    by (simp_all add: send)
  show "rv_ok (rv_send k batch s)" using assms(1) by (simp add: send rv_ok_def rv_positions_update)
  show "rv_client (rv_send k batch s) l =
      (if l = k then map_option (\<lambda>c. c\<lparr>cl_sent := cl_sent c @ [batch]\<rparr>) (rv_client s l) else rv_client s l)"
    if l: "l < length (rv_arr s)"
  proof (cases "l = k")
    case True
    then show ?thesis using ij by (simp add: rv_client_def send)
  next
    case False
    obtain i' j' where ij': "rv_arr s ! l = (i', j')" "i' < length (rv_clients s)" "j' < length (rv_clients s ! i')"
      using rv_position [OF assms(1) l] .
    have "distinct (rv_arr s)" using assms(1) by (simp add: rv_ok_def distinct_rv_positions)
    with False ij(1) ij'(1) l assms(2) have "(i', j') \<noteq> (i, j)" by (metis nth_eq_iff_index_eq)
    with False ij ij' show ?thesis by (auto simp: rv_client_def send nth_list_update)
  qed
qed

text \<open>All acknowledgements handed over for worker \<open>k\<close> so far: those sent, then those queued.\<close>

definition acks_for :: "rev_conn \<Rightarrow> nat \<Rightarrow> sequence_id list" where
  "acks_for s k = (case rv_client s k of None \<Rightarrow> [] | Some c \<Rightarrow> concat (cl_sent c)) @ rv_queues s ! k"

definition rv_open :: "rev_conn \<Rightarrow> bool" where
  "rv_open s \<longleftrightarrow> (\<forall>k < length (rv_arr s). rv_client s k \<noteq> None)"

lemma send_ack_step:
  assumes "rv_ok s" "rv_open s" "0 \<le> route seq" "route seq < int (length (rv_arr s))"
  shows "\<exists>s'. send_ack route seq s = (Inr (), s') \<and> rv_ok s' \<and> rv_open s' \<and> rv_arr s' = rv_arr s \<and>
           rv_batch_size s' = rv_batch_size s \<and>
           (\<forall>l < length (rv_arr s). acks_for s' l = acks_for s l @ (if int l = route seq then [seq] else [])) \<and>
           (0 < rv_batch_size s \<and> rv_batch_size s < 2 ^ 31 \<and>
            (\<forall>q \<in> set (rv_queues s). int (length q) < rv_batch_size s) \<longrightarrow>
            (\<forall>q \<in> set (rv_queues s'). int (length q) < rv_batch_size s))"
proof -
  define k where "k = nat (route seq)"
  have k: "k < length (rv_arr s)" "route seq = int k" using assms(3,4) by (auto simp: k_def)
  have len: "length (rv_queues s) = length (rv_arr s)" using assms(1) by (simp add: rv_ok_def)
  obtain c where c: "rv_client s k = Some c" using assms(2) k(1) by (auto simp: rv_open_def)
  let ?q = "rv_queues s ! k @ [seq]"
  have same: "rv_client (s\<lparr>rv_queues := x\<rparr>) l = rv_client s l" for x l by (simp add: rv_client_def)
  show ?thesis
  proof (cases "int (length ?q) \<ge> rv_batch_size s mod 2 ^ 64")
    case True
    let ?s1 = "s\<lparr>rv_queues := (rv_queues s)[k := []]\<rparr>"
    have s1: "rv_ok ?s1" "k < length (rv_arr ?s1)" using assms(1) k(1) by (simp_all add: rv_ok_def)
    note sd = rv_send_ok [OF s1, where batch = ?q]
    have r: "send_ack route seq s = (Inr (), rv_send k ?q ?s1)"
      using True k c by (simp add: send_ack_def Let_def)
    have cl: "rv_client (rv_send k ?q ?s1) l =
        (if l = k then Some (c\<lparr>cl_sent := cl_sent c @ [?q]\<rparr>) else rv_client s l)" if "l < length (rv_arr s)" for l
      using sd(5) [of l] that c by (simp add: same)
    have "acks_for (rv_send k ?q ?s1) l = acks_for s l @ (if int l = route seq then [seq] else [])"
      if "l < length (rv_arr s)" for l
      using cl [OF that] that c len k by (auto simp: acks_for_def sd(3) nth_list_update)
    moreover have "rv_open (rv_send k ?q ?s1)" using cl assms(2) by (auto simp: rv_open_def sd(2))
    moreover have "\<forall>q \<in> set (rv_queues (rv_send k ?q ?s1)). int (length q) < rv_batch_size s"
      if "0 < rv_batch_size s" "\<forall>q \<in> set (rv_queues s). int (length q) < rv_batch_size s"
      using that by (auto simp: sd(3) dest!: set_update_subset_insert [THEN subsetD])
    ultimately show ?thesis using r sd(1,2,4) by auto
  next
    case False
    let ?s1 = "s\<lparr>rv_queues := (rv_queues s)[k := ?q]\<rparr>"
    have r: "send_ack route seq s = (Inr (), ?s1)" using False k c by (simp add: send_ack_def Let_def)
    have "acks_for ?s1 l = acks_for s l @ (if int l = route seq then [seq] else [])" if "l < length (rv_arr s)" for l
      using that len k by (auto simp: acks_for_def same nth_list_update split: option.splits)
    moreover have "\<forall>q \<in> set (rv_queues ?s1). int (length q) < rv_batch_size s"
      if "0 < rv_batch_size s" "rv_batch_size s < 2 ^ 31" "\<forall>q \<in> set (rv_queues s). int (length q) < rv_batch_size s"
      using that False by (auto dest!: set_update_subset_insert [THEN subsetD])
    moreover have "rv_ok ?s1" "rv_open ?s1" using assms(1,2) by (simp_all add: rv_ok_def rv_open_def same)
    ultimately show ?thesis using r by auto
  qed
qed

text \<open>
  C28. Acknowledgements are delivered in order, each exactly once, to the worker they are for: after a sequence of
  acknowledgements whose targets exist and are connected, what has been sent to a worker followed by what is queued
  for it is the previous content followed by exactly the acknowledgements routed to it, in order. No queue
  ever holds a full batch.
\<close>

theorem acks_delivered_in_order:
  assumes "rv_ok s" "rv_open s" "0 < rv_batch_size s" "rv_batch_size s < 2 ^ 31"
    and "\<forall>q \<in> set (rv_queues s). int (length q) < rv_batch_size s"
    and "\<forall>seq \<in> set seqs. 0 \<le> route seq \<and> route seq < int (length (rv_arr s))"
  shows "\<exists>s'. for_each seqs (send_ack route) s = (Inr (), s') \<and> rv_ok s' \<and> rv_open s' \<and>
           (\<forall>k < length (rv_arr s). acks_for s' k = acks_for s k @ filter (\<lambda>seq. route seq = int k) seqs) \<and>
           (\<forall>q \<in> set (rv_queues s'). int (length q) < rv_batch_size s)"
  using assms
proof (induction seqs arbitrary: s)
  case Nil
  then show ?case by (simp add: ret_apply)
next
  case (Cons seq seqs)
  obtain s1 where s1: "send_ack route seq s = (Inr (), s1)" "rv_ok s1" "rv_open s1" "rv_arr s1 = rv_arr s"
    "rv_batch_size s1 = rv_batch_size s"
    "\<forall>l < length (rv_arr s). acks_for s1 l = acks_for s l @ (if int l = route seq then [seq] else [])"
    "\<forall>q \<in> set (rv_queues s1). int (length q) < rv_batch_size s"
    using send_ack_step [of s route seq] Cons.prems by auto
  from Cons.IH [of s1] s1 Cons.prems obtain s2 where s2: "for_each seqs (send_ack route) s1 = (Inr (), s2)"
    "rv_ok s2" "rv_open s2"
    "\<forall>k < length (rv_arr s). acks_for s2 k = acks_for s1 k @ filter (\<lambda>seq. route seq = int k) seqs"
    "\<forall>q \<in> set (rv_queues s2). int (length q) < rv_batch_size s"
    by auto
  have "for_each (seq # seqs) (send_ack route) s = (Inr (), s2)"
    using s1(1) s2(1) by (simp add: for_each_Cons del: for_each.simps)
  with s1(6) s2 show ?case by auto
qed

definition example_rev :: rev_conn where
  "example_rev =
     recompute_client_array
       \<lparr>rv_hosts = [], rv_type = 0, rv_batch_size = 2,
        rv_clients = [[Some \<lparr>cl_host = ''a'', cl_port = 1, cl_sent = []\<rparr>], [Some \<lparr>cl_host = ''b'', cl_port = 1, cl_sent = []\<rparr>]],
        rv_arr = [], rv_queues = []\<rparr>"

lemma example_rev_simps:
  "rv_arr example_rev = [(0, 0), (1, 0)]" "rv_queues example_rev = [[], []]" "rv_batch_size example_rev = 2"
  by (simp_all add: example_rev_def recompute_client_array_def rv_positions_def)

lemma example_rev_ok: "rv_ok example_rev" "rv_open example_rev"
proof -
  show "rv_ok example_rev" by (simp add: example_rev_def recompute_ok)
  show "rv_open example_rev"
    unfolding rv_open_def example_rev_simps
    by (auto simp: less_Suc_eq rv_client_def example_rev_simps) (simp_all add: example_rev_def recompute_client_array_def)
qed

theorem acks_delivered_in_order_witness:
  "\<exists>s'. for_each [sequence_id_new\<lparr>l1_idx := 1\<rparr>, sequence_id_new, sequence_id_new\<lparr>l1_idx := 1, l1_seq_no := 4\<rparr>]
          (send_ack l1_idx) example_rev = (Inr (), s') \<and>
     acks_for s' 1 = [sequence_id_new\<lparr>l1_idx := 1\<rparr>, sequence_id_new\<lparr>l1_idx := 1, l1_seq_no := 4\<rparr>]"
proof -
  note arr = example_rev_simps and ok = example_rev_ok(1) and op = example_rev_ok(2)
  have new: "acks_for example_rev 1 = []"
    by (simp add: acks_for_def rv_client_def arr) (simp add: example_rev_def recompute_client_array_def)
  let ?seqs = "[sequence_id_new\<lparr>l1_idx := 1\<rparr>, sequence_id_new, sequence_id_new\<lparr>l1_idx := 1, l1_seq_no := 4\<rparr>]"
  have rt: "\<forall>seq \<in> set ?seqs. 0 \<le> l1_idx seq \<and> l1_idx seq < int (length (rv_arr example_rev))"
    by (simp add: arr sequence_id_new_def)
  have fl: "filter (\<lambda>seq. l1_idx seq = int 1) ?seqs = [sequence_id_new\<lparr>l1_idx := 1\<rparr>, sequence_id_new\<lparr>l1_idx := 1, l1_seq_no := 4\<rparr>]"
    by (simp add: sequence_id_new_def)
  have pos: "0 < rv_batch_size example_rev" "rv_batch_size example_rev < 2 ^ 31"
    "\<forall>q \<in> set (rv_queues example_rev). int (length q) < rv_batch_size example_rev"
    by (simp_all add: arr)
  obtain s' where s': "for_each ?seqs (send_ack l1_idx) example_rev = (Inr (), s')"
    "\<forall>k < length (rv_arr example_rev). acks_for s' k = acks_for example_rev k @ filter (\<lambda>seq. l1_idx seq = int k) ?seqs"
    using acks_delivered_in_order [OF ok op pos rt] by (elim exE conjE)
  have "1 < length (rv_arr example_rev)" by (simp add: arr)
  with s'(2) fl new have "acks_for s' 1 = [sequence_id_new\<lparr>l1_idx := 1\<rparr>, sequence_id_new\<lparr>l1_idx := 1, l1_seq_no := 4\<rparr>]"
    by (simp only: append_Nil)
  with s'(1) show ?thesis by (intro exI conjI)
qed

end
