(* ===== verification/Update_Cache.thy ===== *)
theory Update_Cache
  imports Containers Cpp_Double
begin

text \<open>
  proxy/src/update_cache.h and update_cache.cpp: for every key with a pending write, the value and a bit per
  replica that has not received it yet. The cuckoo hash map is a \<open>table\<close>; the lambdas given to
  \<^verbatim>\<open>erase_fn\<close>, \<^verbatim>\<open>update_fn\<close>, \<^verbatim>\<open>find_fn\<close> and \<^verbatim>\<open>uprase_fn\<close> are the functions below.
\<close>

type_synonym uc_entry = "string \<times> bool list"
type_synonym uc_map = "(string, uc_entry) table"

definition uc_new :: "(string \<times> int) list \<Rightarrow> uc_map" where
  "uc_new pairs = fold (\<lambda>(k, n) m. tab_put k ([], replicate (nat n) False) m) pairs []"

definition hamming_weight :: "bool list \<Rightarrow> nat" where
  "hamming_weight bits = length (filter (\<lambda>b. b) bits)"

fun num_leading_zeros :: "bool list \<Rightarrow> nat" where
  "num_leading_zeros [] = 0"
| "num_leading_zeros (b # bits) = (if b then 0 else Suc (num_leading_zeros bits))"

text \<open>
  \<^verbatim>\<open>check_for_update\<close>: hand out the value once per replica and drop the entry when every replica has it. A
  replica number outside the bit vector is undefined behaviour.
\<close>

definition check_for_update :: "string \<Rightarrow> int \<Rightarrow> (uc_map, string) cpp" where
  "check_for_update key replica_id m =
     (case map_of m key of
        None \<Rightarrow> (Inr [], m)
      | Some (val, bits) \<Rightarrow>
          (if \<not> (0 \<le> replica_id \<and> replica_id < int (length bits))
           then (Inl (Undefined_behaviour ''vector index''), m)
           else
             (let hit = bits ! nat replica_id;
                  bits' = (if hit then bits[nat replica_id := False] else bits)
              in (Inr (if hit then val else []),
                  tab_erase_fn key (\<lambda>e. ((fst e, bits'), hamming_weight bits' = 0)) m))))"

definition check_for_update_immutable :: "uc_map \<Rightarrow> string \<Rightarrow> int \<Rightarrow> string outcome" where
  "check_for_update_immutable m key replica_id =
     (case map_of m key of
        None \<Rightarrow> Inr []
      | Some (val, bits) \<Rightarrow>
          bind_out (vec_at bits replica_id) (\<lambda>hit. Inr (if hit then val else [])))"

definition edit_bit_vector_size :: "string \<Rightarrow> int \<Rightarrow> uc_map \<Rightarrow> uc_map" where
  "edit_bit_vector_size key sz m =
     (if map_of m key \<noteq> None
      then tab_update_fn key (\<lambda>(val, bits).
             (val, map (\<lambda>i. if i < length bits then bits ! i else True) [0..<nat sz])) m
      else tab_put key ([], replicate (nat sz) False) m)"

text \<open>\<^verbatim>\<open>insert_or_assign\<close> returns whether the key is new.\<close>

definition populate_replica_updates :: "string \<Rightarrow> string \<Rightarrow> int \<Rightarrow> uc_map \<Rightarrow> bool \<times> uc_map" where
  "populate_replica_updates key val num_replicas m =
     (map_of m key = None, tab_put key (val, replicate (nat num_replicas) True) m)"

definition size_in_bytes :: "(uc_map \<Rightarrow> (string \<times> uc_entry) list) \<Rightarrow> uc_map \<Rightarrow> int" where
  "size_in_bytes iter m =
     \<lfloor>fold (\<lambda>(k, val, bits) count. dadd (dadd count (of_nat (length val))) (ddiv (of_nat (length bits)) 8)) (iter m) 0\<rfloor>"

text \<open>\<^verbatim>\<open>mirror_update_cache\<close>: from the first set bit of \<open>bits\<close> on, mark the replicas as lacking the value.\<close>

definition mirror_update_cache :: "string \<Rightarrow> string \<Rightarrow> bool list \<Rightarrow> (uc_map, bool) cpp" where
  "mirror_update_cache key val bits m =
     (case map_of m key of
        None \<Rightarrow> (Inr True, tab_put key (val, bits) m)
      | Some (v, old) \<Rightarrow>
          (if num_leading_zeros bits < length bits \<and> length old < length bits
           then (Inl (Undefined_behaviour ''vector index''), m)
           else (Inr True, tab_uprase_fn key (\<lambda>(v, old).
                   ((v, map (\<lambda>i. if num_leading_zeros bits \<le> i \<and> i < length bits then True else old ! i)
                          [0..<length old]), False)) (val, bits) m)))"

text \<open>\<^verbatim>\<open>check_if_missing\<close> moves the entry of one cache into another.\<close>

definition check_if_missing :: "string \<Rightarrow> string \<Rightarrow> (uc_map \<times> uc_map, unit) cpp" where
  "check_if_missing key val ms =
     (case map_of (fst ms) key of
        None \<Rightarrow> (Inr (), ms)
      | Some (v, bits) \<Rightarrow>
          (case mirror_update_cache key val bits (snd ms) of
             (Inl e, other) \<Rightarrow> (Inl e, (fst ms, other))
           | (Inr del, other) \<Rightarrow> (Inr (), (tab_erase_fn key (\<lambda>e. (e, del)) (fst ms), other))))"

text \<open>
  \<^verbatim>\<open>sample_a_replica\<close>: \<open>u\<close> is the uniform draw of \<^verbatim>\<open>prob\<close> and \<open>r\<close> the result of \<^verbatim>\<open>rand()\<close>. A division by zero
  of \<^verbatim>\<open>double\<close>s gives an infinity or a NaN; a remainder by zero is undefined.
\<close>

definition rem_draw :: "nat \<Rightarrow> int \<Rightarrow> int outcome" where
  "rem_draw r n = (if n = 0 then Inl (Undefined_behaviour ''remainder by zero'') else Inr (int r mod \<bar>n\<bar>))"

definition sample_a_replica ::
  "string \<Rightarrow> int \<Rightarrow> bool \<Rightarrow> int \<Rightarrow> rat \<Rightarrow> rat \<Rightarrow> nat \<Rightarrow> uc_map \<Rightarrow> int outcome" where
  "sample_a_replica key num_replicas access_is_real frequency p_max u r m =
     (case map_of m key of
        None \<Rightarrow> rem_draw r num_replicas
      | Some (val, bits) \<Rightarrow>
          (let r_init = int (num_leading_zeros bits);
               num = dsub (dmul (of_int r_init) p_max) (of_int frequency);
               den = dsub (dmul (of_int num_replicas) p_max) (of_int frequency);
               rep_exists = (if den = 0 then 0 < num else u < ddiv num den)
           in if \<not> r_init \<le> num_replicas then Inl Process_exit
              else if rep_exists \<or> access_is_real then rem_draw r r_init
              else bind_out (rem_draw r (num_replicas - r_init)) (\<lambda>x. Inr (r_init + x))))"

section \<open>Bit vectors\<close>

lemma hamming_weight_0: "hamming_weight bits = 0 \<longleftrightarrow> (\<forall>i < length bits. \<not> bits ! i)"
  by (auto simp: hamming_weight_def filter_empty_conv all_set_conv_all_nth)

lemma num_leading_zeros_spec:
  "num_leading_zeros bits \<le> length bits \<and> (\<forall>i < num_leading_zeros bits. \<not> bits ! i) \<and>
   (num_leading_zeros bits < length bits \<longrightarrow> bits ! num_leading_zeros bits)"
  by (induction bits) (auto simp: nth_Cons less_Suc_eq_0_disj split: nat.splits)

section \<open>Propagating a write\<close>

text \<open>Checks for a list of replicas, collecting what is handed out.\<close>

fun check_replicas :: "string \<Rightarrow> nat list \<Rightarrow> uc_map \<Rightarrow> string list outcome \<times> uc_map" where
  "check_replicas key [] m = (Inr [], m)"
| "check_replicas key (i # is) m =
     (case check_for_update key (int i) m of
        (Inl e, m') \<Rightarrow> (Inl e, m')
      | (Inr v, m') \<Rightarrow>
          (case check_replicas key is m' of
             (Inl e, m'') \<Rightarrow> (Inl e, m'')
           | (Inr vs, m'') \<Rightarrow> (Inr (v # vs), m'')))"

text \<open>The bits of \<open>n\<close> replicas of which those in \<open>A\<close> have been served.\<close>

definition left_bits :: "nat \<Rightarrow> nat set \<Rightarrow> bool list" where
  "left_bits n A = map (\<lambda>i. i \<notin> A) [0..<n]"

definition waiting :: "string \<Rightarrow> string \<Rightarrow> nat \<Rightarrow> nat set \<Rightarrow> uc_map \<Rightarrow> bool" where
  "waiting key val n A m \<longleftrightarrow> map_of m key = (if {..<n} \<subseteq> A then None else Some (val, left_bits n A))"

lemma left_bits_update: "i < n \<Longrightarrow> i \<notin> A \<Longrightarrow> (left_bits n A)[i := False] = left_bits n (insert i A)"
  by (rule nth_equalityI) (auto simp: left_bits_def nth_list_update)

lemma left_bits_empty: "hamming_weight (left_bits n A) = 0 \<longleftrightarrow> {..<n} \<subseteq> A"
  by (auto simp: hamming_weight_0 left_bits_def)

lemma check_waiting:
  assumes "waiting key val n A m" "i < n" "i \<notin> A"
  shows "fst (check_for_update key (int i) m) = Inr val"
    and "waiting key val n (insert i A) (snd (check_for_update key (int i) m))"
    and "k \<noteq> key \<Longrightarrow> map_of (snd (check_for_update key (int i) m)) k = map_of m k"
proof -
  have e: "map_of m key = Some (val, left_bits n A)" using assms by (auto simp: waiting_def)
  have len: "length (left_bits n A) = n" and hit: "left_bits n A ! i" using assms(2,3) by (simp_all add: left_bits_def)
  have c: "check_for_update key (int i) m =
      (Inr val, tab_erase_fn key (\<lambda>e. ((fst e, left_bits n (insert i A)), {..<n} \<subseteq> insert i A)) m)"
    using assms(2,3) by (simp add: check_for_update_def e len hit left_bits_update left_bits_empty)
  show "fst (check_for_update key (int i) m) = Inr val" by (simp add: c)
  show "waiting key val n (insert i A) (snd (check_for_update key (int i) m))"
    using e by (auto simp: c waiting_def map_of_tab_erase_fn)
  show "k \<noteq> key \<Longrightarrow> map_of (snd (check_for_update key (int i) m)) k = map_of m k"
    using e by (simp add: c map_of_tab_erase_fn)
qed

lemma check_replicas_waiting:
  assumes "waiting key val n A m" "distinct is" "\<forall>i \<in> set is. i < n" "set is \<inter> A = {}"
  shows "fst (check_replicas key is m) = Inr (replicate (length is) val) \<and>
         waiting key val n (set is \<union> A) (snd (check_replicas key is m)) \<and>
         (\<forall>k. k \<noteq> key \<longrightarrow> map_of (snd (check_replicas key is m)) k = map_of m k)"
  using assms
proof (induction "is" arbitrary: m A)
  case Nil
  then show ?case by simp
next
  case (Cons i "is")
  from Cons.prems have i: "i < n" "i \<notin> A" by auto
  obtain m' where c: "check_for_update key (int i) m = (Inr val, m')"
    using check_waiting(1) [OF Cons.prems(1) i] by (metis prod.collapse)
  have w: "waiting key val n (insert i A) m'" and o: "\<And>k. k \<noteq> key \<Longrightarrow> map_of m' k = map_of m k"
    using check_waiting(2,3) [OF Cons.prems(1) i] c by auto
  have "fst (check_replicas key is m') = Inr (replicate (length is) val) \<and>
      waiting key val n (set is \<union> insert i A) (snd (check_replicas key is m')) \<and>
      (\<forall>k. k \<noteq> key \<longrightarrow> map_of (snd (check_replicas key is m')) k = map_of m' k)"
    using Cons.prems by (intro Cons.IH [OF w]) auto
  then show ?case using c o by (auto split: prod.splits sum.splits)
qed

lemma waiting_populate:
  "0 < n \<Longrightarrow> waiting key val n {} (snd (populate_replica_updates key val (int n) m))"
  by (auto simp: waiting_def populate_replica_updates_def left_bits_def map_replicate_const)

text \<open>
  C27. A write reaches every replica exactly once: after \<^verbatim>\<open>populate_replica_updates\<close> the value is handed out to
  each replica that asks, whatever the order in which the replicas ask; a replica that asks again while others are
  still waiting gets nothing; once all replicas have asked the entry is gone, and until then it is there.
  Other keys are not touched.
\<close>

theorem update_reaches_every_replica_once:
  assumes "0 < n" "distinct is" "\<forall>i \<in> set is. i < n"
  shows "let m1 = snd (populate_replica_updates key val (int n) m) in
         fst (check_replicas key is m1) = Inr (replicate (length is) val) \<and>
         (map_of (snd (check_replicas key is m1)) key = None \<longleftrightarrow> set is = {..<n}) \<and>
         (set is \<noteq> {..<n} \<longrightarrow> (\<forall>i \<in> set is. fst (check_for_update key (int i) (snd (check_replicas key is m1))) = Inr [])) \<and>
         (\<forall>k. k \<noteq> key \<longrightarrow> map_of (snd (check_replicas key is m1)) k = map_of m k)"
proof -
  let ?m1 = "snd (populate_replica_updates key val (int n) m)"
  let ?m2 = "snd (check_replicas key is ?m1)"
  have r: "fst (check_replicas key is ?m1) = Inr (replicate (length is) val)"
    and w: "waiting key val n (set is) ?m2" and o: "\<And>k. k \<noteq> key \<Longrightarrow> map_of ?m2 k = map_of ?m1 k"
    using check_replicas_waiting [OF waiting_populate [OF assms(1)] assms(2,3), of key val m] by auto
  have sub: "set is \<subseteq> {..<n}" using assms(3) by auto
  have "fst (check_for_update key (int i) ?m2) = Inr []" if "set is \<noteq> {..<n}" "i \<in> set is" for i
    using w that sub assms(3) by (auto simp: waiting_def check_for_update_def left_bits_def Let_def)
  moreover have "map_of ?m2 key = None \<longleftrightarrow> set is = {..<n}" using w sub by (auto simp: waiting_def)
  moreover have "map_of ?m2 k = map_of m k" if "k \<noteq> key" for k
    using o [OF that] that by (simp add: populate_replica_updates_def)
  ultimately show ?thesis using r by (auto simp: Let_def)
qed

theorem update_reaches_every_replica_once_witness:
  "let m1 = snd (populate_replica_updates ''k'' ''v'' (int 3) []) in
   fst (check_replicas ''k'' [2, 0] m1) = Inr [''v'', ''v''] \<and>
   fst (check_for_update ''k'' 0 (snd (check_replicas ''k'' [2, 0] m1))) = Inr []"
proof -
  have "(1 :: nat) \<in> {..<3}" "(1 :: nat) \<notin> set [2, 0]" by simp_all
  then have ne: "set [2, 0 :: nat] \<noteq> {..<3}" by metis
  from update_reaches_every_replica_once [of 3 "[2, 0]" "''k''" "''v''" "[]"] ne show ?thesis
    by (simp add: Let_def numeral_2_eq_2)
qed

end
