(* ===== verification/L2_Proxy.thy ===== *)
theory L2_Proxy
  imports Proxy_Env L2_Interface L3_Interface Reverse_Connector Update_Cache
begin

text \<open>
  proxy/src/l2_proxy.h and l2_proxy.cpp: the second layer. The head of a chain drops requests it has already seen,
  the chain replicates the others, every replica enters writes into its update cache, and the tail
  looks up the label of the replica and sends the operation to the third layer. Acknowledgements
  travel up the chain, and the head returns them to the first layer. The update cache is shared by the
  workers of a host; it is a member of the worker's state here, so a run of one worker is modelled.
\<close>

record l2_proxy = chain_module +
  l2_instance_name :: string
  l2_replica_to_label :: "(string, int) table"
  l2_replicas_of :: "(string, int) table"
  l2_cache :: uc_map
  l2_l3_iface :: "l3_iface option"
  l2_proxy_dummy :: string
  update_cache_enabled :: bool
  l2_idx_no :: int
  l2_proxy_hosts :: "host list"
  last_seen_seq :: "int list"
  l2_ack_iface :: "rev_conn option"
  l2_stats :: bool
  l2_ack_batch_size :: int
  l2_tick :: nat

definition l2_proxy_new :: l2_proxy where
  "l2_proxy_new = chain_module.extend chain_module_new
     (l2_proxy.fields [] [] [] [] None [] True 0 [] [] None False 1 0)"

definition l2_next_tick :: "(l2_proxy, nat) cpp" where
  "l2_next_tick s = (Inr (l2_tick s), s\<lparr>l2_tick := l2_tick s + 1\<rparr>)"

section \<open>Acknowledgements to the first layer\<close>

definition l1ack_interface :: "host list \<Rightarrow> int \<Rightarrow> rev_conn outcome" where
  "l1ack_interface hs batch_size = rev_conn_new hs HOST_TYPE_L1 batch_size"

definition l1ack_route :: "sequence_id \<Rightarrow> int" where
  "l1ack_route seq = l1_idx seq"

section \<open>The application on the chain\<close>

text \<open>
  \<^verbatim>\<open>key_to_number_of_replicas_[op.key]\<close> enters 0 for a key that is not there. The sequence number is
  recorded before the arguments are decoded.
\<close>

definition l2_run_command :: "sequence_id \<Rightarrow> string list \<Rightarrow> (l2_proxy, unit) cpp" where
  "l2_run_command seq args =
     bnd (gets last_seen_seq) (\<lambda>seen.
     bnd (lift_out (vec_at seen (l1_idx seq))) (\<lambda>last_seen.
       if l1_seq_no seq \<le> last_seen then throw (Runtime_error ''chain command with out-of-order sequency number'')
       else
         seqM (modify (\<lambda>s. s\<lparr>last_seen_seq := seen[nat (l1_idx seq) := l1_seq_no seq]\<rparr>))
           (bnd (lift_out (l2_deserialize l2_operation_new args 0)) (\<lambda>(op, used).
             modify (\<lambda>s.
               if update_cache_enabled s \<and> l2_value op \<noteq> []
               then s\<lparr>l2_replicas_of := tab_insert (l2_key op) 0 (l2_replicas_of s),
                      l2_cache := snd (populate_replica_updates (l2_key op) (l2_value op)
                        (the (map_of (tab_insert (l2_key op) 0 (l2_replicas_of s)) (l2_key op))) (l2_cache s))\<rparr>
               else s)))))"

definition l2_label :: "l2_operation \<Rightarrow> (l2_proxy, string) cpp" where
  "l2_label op =
     bnd (gets (\<lambda>s. map_of (l2_replica_to_label s) (l2_key op @ to_string (l2_replica op)))) (\<lambda>it.
       case it of
         None \<Rightarrow> throw (Runtime_error ''Replica not found in label map'')
       | Some l \<Rightarrow> ret (to_string l))"

definition l2_send_l3 :: "l3_operation \<Rightarrow> (l2_proxy, unit) cpp" where
  "l2_send_l3 op s =
     (case l2_l3_iface s of
        None \<Rightarrow> (Inl (Undefined_behaviour ''null pointer''), s)
      | Some i \<Rightarrow> (let (r, i') = l3_send_op op i in (r, s\<lparr>l2_l3_iface := Some i'\<rparr>)))"

definition l2_forward_request :: "env \<Rightarrow> sequence_id \<Rightarrow> string list \<Rightarrow> bool \<Rightarrow> (l2_proxy, unit) cpp" where
  "l2_forward_request e seq args dedup =
     bnd (lift_out (l2_deserialize l2_operation_new args 0)) (\<lambda>(op0, used).
     (let op = op0\<lparr>l2_seq_id := seq\<rparr> in
     bnd (gets (\<lambda>s. if update_cache_enabled s then check_for_update_immutable (l2_cache s) (l2_key op) (l2_replica op)
                     else Inr (l2_value op))) (\<lambda>upd.
     bnd (lift_out upd) (\<lambda>plaintext_update.
     bnd (l2_label op) (\<lambda>label.
     bnd (gets l2_l3_iface) (\<lambda>iface.
       if iface = None then ret ()
       else
         bnd (gets l2_stats) (\<lambda>st.
         bnd (if st then bnd l2_next_tick (\<lambda>t.
                ret (set_diag (diag seq @ to_string (env_now e t - ts seq) @ '','') seq)) else ret seq) (\<lambda>sid.
         bnd (gets l2_idx_no) (\<lambda>idx.
           l2_send_l3 \<lparr>l3_seq_id = sid\<lparr>l2_idx := idx, l2_seq_no := server_seq_no seq\<rparr>, l3_label = label,
             l3_value = plaintext_update, l3_plaintext = [], l3_is_read = (l2_value op = []), l3_dedup = dedup\<rparr>)))))))))"

definition l2_replication_complete :: "env \<Rightarrow> sequence_id \<Rightarrow> string list \<Rightarrow> (l2_proxy, unit) cpp" where
  "l2_replication_complete e seq args = l2_forward_request e seq args True"

definition l2_setup_callback :: "env \<Rightarrow> (l2_proxy, unit) cpp" where
  "l2_setup_callback e =
     seqM (\<lambda>s. if is_tail s \<and> l2_l3_iface s = None
               then (let (r, i) = l3_connect (env_up e) (l3_iface_new (l2_proxy_hosts s)) in (r, s\<lparr>l2_l3_iface := Some i\<rparr>))
               else (Inr (), s))
       (\<lambda>s. if is_head s \<and> l2_ack_iface s = None
            then (case l1ack_interface (l2_proxy_hosts s) (l2_ack_batch_size s) of
                    Inl x \<Rightarrow> (Inl x, s)
                  | Inr a \<Rightarrow> (Inr (), s\<lparr>l2_ack_iface := Some a\<rparr>))
            else (Inr (), s))"

definition l2_ack_callback :: "sequence_id \<Rightarrow> (l2_proxy, unit) cpp" where
  "l2_ack_callback seq s =
     (if is_head s
      then (case l2_ack_iface s of
              None \<Rightarrow> (Inl (Runtime_error ''Invalid state''), s)
            | Some a \<Rightarrow> (let (r, a') = send_ack l1ack_route seq a in (r, s\<lparr>l2_ack_iface := Some a'\<rparr>)))
      else (Inr (), s))"

definition l2_app :: "env \<Rightarrow> l2_proxy vtable" where
  "l2_app e =
     \<lparr>run_command = l2_run_command, replication_complete = l2_replication_complete e,
      setup_callback = l2_setup_callback e, ack_callback = l2_ack_callback\<rparr>"

lemma l2_app_simps [simp]:
  "run_command (l2_app e) = l2_run_command" "replication_complete (l2_app e) = l2_replication_complete e"
  "setup_callback (l2_app e) = l2_setup_callback e" "ack_callback (l2_app e) = l2_ack_callback"
  by (simp_all add: l2_app_def)

section \<open>Operations\<close>

definition l2_init_proxy ::
  "env \<Rightarrow> host list \<Rightarrow> string \<Rightarrow> distribution_info \<Rightarrow> uc_map \<Rightarrow> bool \<Rightarrow> int \<Rightarrow> bool \<Rightarrow> int \<Rightarrow> (l2_proxy, unit) cpp" where
  "l2_init_proxy e hs name dinfo cache uc_enabled local_idx st batch_size =
     seqM (modify (\<lambda>s. s\<lparr>l2_proxy_hosts := hs, l2_instance_name := name, update_cache_enabled := uc_enabled, l2_stats := st,
             l2_ack_batch_size := batch_size, chain_ack_batch_size := batch_size,
             l2_replica_to_label := replica_to_label dinfo, l2_replicas_of := key_to_number_of_replicas dinfo,
             l2_proxy_dummy := dummy_key dinfo\<rparr>))
       (case get_host hs name of
          None \<Rightarrow> throw (Runtime_error (''Unkown instance name: '' @ name))
        | Some this \<Rightarrow>
            seqM (modify (\<lambda>s. s\<lparr>l2_idx_no := the (get_base_idx hs name) + local_idx, l2_cache := cache,
                    last_seen_seq := last_seen_seq s @ replicate (nat (get_num_columns hs HOST_TYPE_L1 True)) (- 1)\<rparr>))
              (let reps = get_replicas hs HOST_TYPE_L2 (column this) in
               chain_setup (l2_app e) (env_up e) (map (worker_block local_idx) reps)
                 (chain_role_at reps this) (next_block_at local_idx reps this)))"

definition l2_async_operation :: "env \<Rightarrow> sequence_id \<Rightarrow> string \<Rightarrow> int \<Rightarrow> string \<Rightarrow> (l2_proxy, unit) cpp" where
  "l2_async_operation e seq k rep val =
     bnd (gets last_seen_seq) (\<lambda>seen.
     bnd (lift_out (vec_at seen (l1_idx seq))) (\<lambda>last_seen.
       if l1_seq_no seq \<le> last_seen then ret ()
       else
         bnd (gets is_head) (\<lambda>h.
           if \<not> h then throw (Runtime_error ''Received direct request at non-head node'')
           else
             bnd (gets l2_stats) (\<lambda>st.
             bnd (if st then bnd l2_next_tick (\<lambda>t. ret (set_ts (env_now e t) seq)) else ret seq) (\<lambda>sid.
             bnd (gets (\<lambda>s. map_of (l2_replicas_of s) k)) (\<lambda>it.
               if it = None then throw (Runtime_error ''Key not found'')
               else chain_request (l2_app e) sid
                      (l2_serialize \<lparr>l2_seq_id = sid, l2_key = k, l2_replica = rep, l2_value = val\<rparr>)))))))"

definition l2_update_conns :: "env \<Rightarrow> int \<Rightarrow> int \<Rightarrow> string \<Rightarrow> int \<Rightarrow> int \<Rightarrow> (l2_proxy, unit) cpp" where
  "l2_update_conns e t col hname p n s =
     (if t = HOST_TYPE_L3 then
        (case l2_l3_iface s of
           Some i \<Rightarrow>
             (if \<not> is_tail s \<or> hname \<noteq> ''nil'' then (Inl (Runtime_error ''Invalid update_connections call''), s)
              else (let (r, i') = l3_remove_connection col i in (r, s\<lparr>l2_l3_iface := Some i'\<rparr>)))
         | None \<Rightarrow> (Inl (Runtime_error ''Invalid update_connections call''), s))
      else if t = HOST_TYPE_L1 then
        (case l2_ack_iface s of
           Some a \<Rightarrow>
             (if \<not> is_head s then (Inl (Runtime_error ''Invalid update_connections call''), s)
              else (let (r, a') = rv_update_connections (env_up e) col hname p n a in (r, s\<lparr>l2_ack_iface := Some a'\<rparr>)))
         | None \<Rightarrow> (Inl (Runtime_error ''Invalid update_connections call''), s))
      else (Inl (Runtime_error ''Invalid update_connections call''), s))"

definition l2_filter_request :: "sequence_id \<Rightarrow> string list \<Rightarrow> int \<Rightarrow> int \<Rightarrow> (l2_proxy, bool) cpp" where
  "l2_filter_request seq args col num_columns =
     bnd (lift_out (l2_deserialize l2_operation_new args 0)) (\<lambda>(op, used).
     bnd (l2_label op) (\<lambda>label.
       (let id = consistent_hash label num_columns in ret (col \<le> id \<and> id < col + L3_NUM_CORES))))"

definition l2_selective_resend_pending ::
  "env \<Rightarrow> ((int, chain_op) table \<Rightarrow> (int \<times> chain_op) list) \<Rightarrow> int \<Rightarrow> int \<Rightarrow> (l2_proxy, unit) cpp" where
  "l2_selective_resend_pending e iter col num_columns =
     bnd (gets is_tail) (\<lambda>t.
       if \<not> t then throw (Runtime_error ''selective_resend_pending called on non-tail node'')
       else
         bnd (gets (\<lambda>s. iter (pending s))) (\<lambda>ops.
           for_each ops (\<lambda>(k, op).
             bnd (l2_filter_request (op_seq op) (op_args op) col num_columns) (\<lambda>hit.
               if hit then l2_forward_request e (op_seq op) (op_args op) False else ret ()))))"

definition l2_external_ack :: "env \<Rightarrow> sequence_id \<Rightarrow> (l2_proxy, unit) cpp" where
  "l2_external_ack e seq = ack (l2_app e) (seq\<lparr>server_seq_no := l2_seq_no seq\<rparr>)"

definition l2_external_ack_batch :: "env \<Rightarrow> sequence_id list \<Rightarrow> (l2_proxy, unit) cpp" where
  "l2_external_ack_batch e seqs = for_each seqs (l2_external_ack e)"

section \<open>The derived class keeps the base class\<close>

lemma base_l2 [simp]:
  "base (s\<lparr>l2_tick := t\<rparr>) = base s" "base (s\<lparr>l2_l3_iface := i\<rparr>) = base s" "base (s\<lparr>l2_ack_iface := a\<rparr>) = base s"
  "base (s\<lparr>last_seen_seq := q\<rparr>) = base s" "base (s\<lparr>l2_replicas_of := r, l2_cache := c\<rparr>) = base s"
  for s :: l2_proxy
  by (simp_all add: chain_module.truncate_def)

declare keeps_modify [keeps_intros]

lemma keeps_l2_forward:
  assumes "\<And>s x. P s \<Longrightarrow> P (s\<lparr>l2_tick := x\<rparr>)" "\<And>s x. P s \<Longrightarrow> P (s\<lparr>l2_l3_iface := x\<rparr>)"
  shows "keeps P (l2_forward_request e seq args dedup)"
proof -
  have "keeps P l2_next_tick" by (rule keepsI) (simp add: l2_next_tick_def assms(1))
  moreover have "keeps P (l2_send_l3 op)" for op
    by (rule keepsI) (simp add: l2_send_l3_def assms(2) split: option.splits prod.splits)
  ultimately show ?thesis
    unfolding l2_forward_request_def l2_label_def Let_def by (auto intro!: keeps_intros split: prod.splits)
qed

interpretation l2c: chain_app "l2_app e" for e
proof
  fix seq args and s :: l2_proxy
  have "keeps (\<lambda>t. base t = base s) (l2_run_command seq args)"
    unfolding l2_run_command_def by (auto intro!: keeps_intros split: prod.splits)
  then show "base (snd (run_command (l2_app e) seq args s)) = base s"
    using keepsD by fastforce
  have "keeps (\<lambda>t. base t = base s) (l2_forward_request e seq args True)" by (rule keeps_l2_forward) simp_all
  then show "base (snd (replication_complete (l2_app e) seq args s)) = base s"
    using keepsD by (fastforce simp: l2_replication_complete_def)
  have "keeps (\<lambda>t. base t = base s) (l2_setup_callback e)"
    unfolding l2_setup_callback_def Let_def
    by (rule keeps_seqM) (rule keepsI, simp split: prod.splits sum.splits)+
  then show "base (snd (setup_callback (l2_app e) s)) = base s"
    using keepsD by fastforce
  show "base (snd (ack_callback (l2_app e) seq s)) = base s"
    by (simp add: l2_ack_callback_def Let_def split: prod.splits option.splits)
qed

section \<open>Duplicates\<close>

definition seen :: "l2_proxy \<Rightarrow> sequence_id \<Rightarrow> bool" where
  "seen s q \<longleftrightarrow> (\<exists>n. vec_at (last_seen_seq s) (l1_idx q) = Inr n \<and> l1_seq_no q \<le> n)"

lemma l2_run_command_seen:
  assumes "l2_run_command q args s = (Inr u, t)"
  shows "seen t q" and "seen s p \<Longrightarrow> seen t p"
proof -
  let ?i = "nat (l1_idx q)"
  obtain n where n: "vec_at (last_seen_seq s) (l1_idx q) = Inr n" "n < l1_seq_no q"
    "last_seen_seq t = (last_seen_seq s)[?i := l1_seq_no q]"
    using assms by (auto simp: l2_run_command_def cpp_simps split: sum.splits if_splits prod.splits)
  then have r: "0 \<le> l1_idx q" "?i < length (last_seen_seq s)" "last_seen_seq s ! ?i = n"
    by (auto simp: vec_at_Inr_iff)
  then show "seen t q" using n(3) by (simp add: seen_def vec_at_def)
  show "seen t p" if "seen s p"
    using that n r by (auto simp: seen_def vec_at_def nth_list_update split: if_splits)
qed

lemma seen_cong: "last_seen_seq s = last_seen_seq t \<Longrightarrow> seen s = seen t"
  by (simp add: seen_def fun_eq_iff)

lemma l2_async_operation_seen:
  assumes "l2_async_operation e q k rep val s = (Inr (), s')"
  shows "seen s' q" and "seen s p \<Longrightarrow> seen s' p"
proof -
  have "seen s' q \<and> (seen s p \<longrightarrow> seen s' p)"
  proof (cases "seen s q")
    case True
    with assms show ?thesis by (auto simp: l2_async_operation_def cpp_simps seen_def)
  next
    case False
    define t0 where "t0 = (if l2_stats s then s\<lparr>l2_tick := l2_tick s + 1\<rparr> else s)"
    define sid where "sid = (if l2_stats s then set_ts (env_now e (l2_tick s)) q else q)"
    define args where "args = l2_serialize \<lparr>l2_seq_id = sid, l2_key = k, l2_replica = rep, l2_value = val\<rparr>"
    have run: "chain_request (l2_app e) sid args t0 = (Inr (), s')" and head: "is_head s"
      using assms False by (auto simp: l2_async_operation_def cpp_simps seen_def l2_next_tick_def t0_def sid_def args_def
          not_le split: if_splits sum.splits)
    let ?q = "stamped t0 sid"
    have q: "l1_idx ?q = l1_idx q" "l1_seq_no ?q = l1_seq_no q" by (simp_all add: stamped_def sid_def set_ts_def)
    have io: "in_order t0 sid" using head by (intro in_order_head) (simp add: t0_def is_head_def)
    obtain u t where t: "l2_run_command ?q args t0 = (Inr u, t)"
      and rest: "(if is_tail t then replication_complete (l2_app e) ?q args (accepted ?q args t)
        else on_next (rc_request ?q args) (accepted ?q args t)) = (Inr (), s')"
      using run io by (auto simp: chain_request_cases in_order_def split: prod.splits sum.splits)
    have "keeps (\<lambda>x. last_seen_seq x = last_seen_seq t) (l2_forward_request e ?q args True)" by (rule keeps_l2_forward) simp_all
    from keepsD [OF this, of "accepted ?q args t"] rest have "last_seen_seq s' = last_seen_seq t"
      by (auto simp: l2_replication_complete_def accepted_def add_pending_def on_next_def split: if_splits prod.splits)
    then have "seen s' = seen t" by (rule seen_cong)
    moreover have "seen t0 = seen s" by (rule seen_cong) (simp add: t0_def)
    ultimately show ?thesis using l2_run_command_seen [OF t] q by (simp add: seen_def)
  qed
  then show "seen s' q" "seen s p \<Longrightarrow> seen s' p" by auto
qed

definition l2_requests :: "env \<Rightarrow> (sequence_id \<times> string \<times> int \<times> string) list \<Rightarrow> (l2_proxy, unit) cpp" where
  "l2_requests e reqs = for_each reqs (\<lambda>(q, k, rep, val). l2_async_operation e q k rep val)"

lemma l2_requests_Cons:
  "l2_requests e ((q, k, rep, val) # reqs) s =
     (case l2_async_operation e q k rep val s of (Inl x, t) \<Rightarrow> (Inl x, t) | (Inr _, t) \<Rightarrow> l2_requests e reqs t)"
  unfolding l2_requests_def for_each_Cons by (simp split: prod.splits sum.splits)

lemma l2_requests_Nil: "l2_requests e [] s = (Inr (), s)"
  by (simp add: l2_requests_def ret_apply)

lemma l2_requests_seen:
  assumes "l2_requests e reqs s = (Inr (), s')"
  shows "\<forall>(q, r) \<in> set reqs. seen s' q" and "seen s p \<Longrightarrow> seen s' p"
proof -
  have "(\<forall>(q, r) \<in> set reqs. seen s' q) \<and> (\<forall>p. seen s p \<longrightarrow> seen s' p)"
    using assms
  proof (induction reqs arbitrary: s)
    case Nil
    then show ?case by (simp add: l2_requests_Nil)
  next
    case (Cons x reqs)
    obtain q k rep val where x: "x = (q, k, rep, val)" by (cases x) auto
    obtain t where t: "l2_async_operation e q k rep val s = (Inr (), t)" "l2_requests e reqs t = (Inr (), s')"
      using Cons.prems by (auto simp: x l2_requests_Cons split: prod.splits sum.splits)
    with Cons.IH [OF t(2)] l2_async_operation_seen [OF t(1)] x show ?case by auto
  qed
  then show "\<forall>(q, r) \<in> set reqs. seen s' q" "seen s p \<Longrightarrow> seen s' p" by auto
qed

lemma l2_async_operation_dropped:
  assumes "seen s q"
  shows "l2_async_operation e q k rep val s = (Inr (), s)"
  using assms by (auto simp: l2_async_operation_def cpp_simps seen_def)

lemma l2_requests_dropped:
  assumes "\<forall>(q, r) \<in> set reqs. seen s q"
  shows "l2_requests e reqs s = (Inr (), s)"
  using assms by (induction reqs) (auto simp: l2_requests_Nil l2_requests_Cons l2_async_operation_dropped)

text \<open>
  C13. Repeating requests has no effect: after the first layer has delivered some requests, delivering any of them again, as
  often as it likes and in any order, as a new tail does that resends what was pending, leaves
  the whole state of the second-layer proxy as it was: nothing is replicated, executed or sent twice.
\<close>

theorem l2_replay_has_no_effect:
  assumes "l2_requests e reqs s = (Inr (), s')" and "set again \<subseteq> set reqs"
  shows "l2_requests e (reqs @ again) s = (Inr (), s')"
proof -
  have "\<forall>(q, r) \<in> set again. seen s' q" using l2_requests_seen(1) [OF assms(1)] assms(2) by blast
  then have "l2_requests e again s' = (Inr (), s')" by (rule l2_requests_dropped)
  with assms(1) show ?thesis by (simp add: l2_requests_def for_each_append)
qed

section \<open>Replicas\<close>

text \<open>What a replica keeps for the application: it depends on the commands only.\<close>

definition l2_data :: "l2_proxy \<Rightarrow> int list \<times> uc_map \<times> (string, int) table \<times> bool" where
  "l2_data s = (last_seen_seq s, l2_cache s, l2_replicas_of s, update_cache_enabled s)"

definition l2_execute :: "(sequence_id \<times> string list) list \<Rightarrow> (l2_proxy, unit) cpp" where
  "l2_execute cs = for_each cs (\<lambda>(q, args). l2_run_command q args)"

lemma l2_execute_Cons:
  "l2_execute ((q, args) # cs) s =
     (case l2_run_command q args s of (Inl x, t) \<Rightarrow> (Inl x, t) | (Inr _, t) \<Rightarrow> l2_execute cs t)"
  unfolding l2_execute_def for_each_Cons by (simp split: prod.splits sum.splits)

lemma l2_execute_Nil: "l2_execute [] s = (Inr (), s)"
  by (simp add: l2_execute_def ret_apply)

lemma l2_run_command_data:
  assumes "l2_data s = l2_data t"
  shows "fst (l2_run_command q args s) = fst (l2_run_command q args t) \<and>
         l2_data (snd (l2_run_command q args s)) = l2_data (snd (l2_run_command q args t))"
  using assms by (auto simp: l2_run_command_def cpp_simps l2_data_def split: sum.splits)

text \<open>
  The replicas of a second-layer chain stay the same: two proxies with the same update cache, sequence numbers and
  replica table still have the same after the same commands, whatever their roles, connections and pending
  commands are, and they fail on the same command with the same error if they fail. With the prefix property of the chain a
  replica that takes over as tail continues with exactly the update cache the failed tail had at that command.
\<close>

lemma l2_replicas_agree:
  assumes "l2_data s = l2_data t"
  shows "fst (l2_execute cs s) = fst (l2_execute cs t) \<and> l2_data (snd (l2_execute cs s)) = l2_data (snd (l2_execute cs t))"
  using assms
proof (induction cs arbitrary: s t)
  case Nil
  then show ?case by (simp add: l2_execute_Nil)
next
  case (Cons c cs)
  obtain q args where c: "c = (q, args)" by (cases c)
  obtain r s1 r' t1 where st: "l2_run_command q args s = (r, s1)" "l2_run_command q args t = (r', t1)" by fastforce
  from l2_run_command_data [OF Cons.prems, of q args] have "r = r'" "l2_data s1 = l2_data t1" unfolding st by simp_all
  with Cons.IH [of s1 t1] st show ?case by (auto simp: c l2_execute_Cons split: sum.splits)
qed

section \<open>Forwarding\<close>

lemma l2_deserialize_one:
  assumes "l2_op_ok op"
  shows "l2_deserialize l2_operation_new (l2_serialize op) 0 = Inr (wire_op op, length (l2_serialize op))"
  using l2_deserialize_serialize [OF assms, of "[]" "[]"] by (simp add: no_marker_def)

lemma wire_op_simps [simp]:
  "l2_key (wire_op op) = l2_key op" "l2_replica (wire_op op) = l2_replica op" "l2_value (wire_op op) = l2_value op"
  by (simp_all add: wire_op_def)

text \<open>The command can be forwarded: it decodes, its label is known, and the update cache has the value for its replica.\<close>

definition forwards :: "l2_proxy \<Rightarrow> string list \<Rightarrow> l2_operation \<Rightarrow> int \<Rightarrow> string \<Rightarrow> bool" where
  "forwards s args op lab upd \<longleftrightarrow>
     (\<exists>n. l2_deserialize l2_operation_new args 0 = Inr (op, n)) \<and>
     map_of (l2_replica_to_label s) (l2_key op @ to_string (l2_replica op)) = Some lab \<and>
     (if update_cache_enabled s then check_for_update_immutable (l2_cache s) (l2_key op) (l2_replica op) else Inr (l2_value op)) = Inr upd"

lemma l2_forward_ok:
  assumes "forwards s args op lab upd" "l2_l3_iface s = Some i" "l3_ready i"
  obtains m c w k where
    "l2_forward_request e seq args dedup s =
       (Inr (), s\<lparr>l2_tick := k, l2_l3_iface := Some (i\<lparr>l3_clients := grid_call c w m (l3_clients i)\<rparr>)\<rparr>)"
    "c < length (l3_clients i)" "w < length (l3_clients i ! c)"
    "l3_label m = to_string lab" "l3_value m = upd" "l3_dedup m = dedup" "l3_is_read m = (l2_value op = [])"
    "l2_seq_no (l3_seq_id m) = server_seq_no seq" "l2_idx (l3_seq_id m) = l2_idx_no s"
    "l1_idx (l3_seq_id m) = l1_idx seq" "l1_seq_no (l3_seq_id m) = l1_seq_no seq" "l3_plaintext m = []"
    "c = nat (consistent_hash (l3_label m) (int (length (l3_clients i))))" "w = l3_worker (l3_label m) (length (l3_clients i ! c))"
    "set_diag [] (l3_seq_id m) = set_diag [] (seq\<lparr>l2_idx := l2_idx_no s, l2_seq_no := server_seq_no seq\<rparr>)"
proof -
  define sid where "sid = (if l2_stats s then set_diag (diag seq @ to_string (env_now e (l2_tick s) - ts seq) @ '','') seq else seq)"
  define t where "t = (if l2_stats s then l2_tick s + 1 else l2_tick s)"
  define m where "m = \<lparr>l3_seq_id = sid\<lparr>l2_idx := l2_idx_no s, l2_seq_no := server_seq_no seq\<rparr>, l3_label = to_string lab,
    l3_value = upd, l3_plaintext = [], l3_is_read = (l2_value op = []), l3_dedup = dedup\<rparr>"
  let ?c = "nat (consistent_hash (l3_label m) (int (length (l3_clients i))))"
  have run: "l2_forward_request e seq args dedup s = l2_send_l3 m (s\<lparr>l2_tick := t\<rparr>)"
    using assms(1,2)
    by (cases "l2_stats s"; cases "update_cache_enabled s")
      (auto simp: forwards_def l2_forward_request_def l2_label_def cpp_simps l2_next_tick_def sid_def t_def m_def Let_def)
  note sd = l3_send_op_ready [OF assms(3), of m]
  have "l2_forward_request e seq args dedup s = (Inr (), s\<lparr>l2_tick := t, l2_l3_iface := Some (i\<lparr>l3_clients :=
      grid_call ?c (l3_worker (l3_label m) (length (l3_clients i ! ?c))) m (l3_clients i)\<rparr>)\<rparr>)"
    unfolding run l2_send_l3_def using sd(1) assms(2) by simp
  then show thesis
    by (rule that) (use sd(2,3) in \<open>simp_all add: m_def sid_def set_diag_def\<close>)
qed

text \<open>The entry of a key in the update cache is the last value written to it, for all of its replicas.\<close>

lemma l2_run_write:
  assumes "l2_run_command q (l2_serialize w) s = (Inr u, t)" "l2_op_ok w" "l2_value w \<noteq> []" "update_cache_enabled s"
    and "map_of (l2_replicas_of s) (l2_key w) = Some n"
  shows "map_of (l2_cache t) (l2_key w) = Some (l2_value w, replicate (nat n) True)" and "update_cache_enabled t"
    and "l2_replica_to_label t = l2_replica_to_label s" and "l2_l3_iface t = l2_l3_iface s"
    and "map_of (l2_replicas_of t) (l2_key w) = Some n" and "l2_idx_no t = l2_idx_no s"
  using assms
  by (auto simp: l2_run_command_def cpp_simps l2_deserialize_one populate_replica_updates_def map_of_tab_insert
      split: sum.splits if_splits)

lemma l2_run_other:
  assumes "l2_run_command q args s = (Inr u, t)" "l2_deserialize l2_operation_new args 0 = Inr (op, m)"
    and "l2_key op \<noteq> k \<or> l2_value op = []"
  shows "map_of (l2_cache t) k = map_of (l2_cache s) k" and "update_cache_enabled t = update_cache_enabled s"
    and "l2_replica_to_label t = l2_replica_to_label s" and "l2_l3_iface t = l2_l3_iface s" and "l2_idx_no t = l2_idx_no s"
  using assms
  by (auto simp: l2_run_command_def cpp_simps populate_replica_updates_def split: sum.splits if_splits)

lemma l2_execute_other:
  assumes "l2_execute cs s = (Inr (), t)"
    and "\<forall>(q, args) \<in> set cs. \<exists>op m. l2_deserialize l2_operation_new args 0 = Inr (op, m) \<and> (l2_key op \<noteq> k \<or> l2_value op = [])"
  shows "map_of (l2_cache t) k = map_of (l2_cache s) k \<and> update_cache_enabled t = update_cache_enabled s \<and>
         l2_replica_to_label t = l2_replica_to_label s \<and> l2_l3_iface t = l2_l3_iface s \<and> l2_idx_no t = l2_idx_no s"
  using assms
proof (induction cs arbitrary: s)
  case Nil
  then show ?case by (simp add: l2_execute_Nil)
next
  case (Cons c cs)
  obtain q args where c: "c = (q, args)" by (cases c)
  obtain s1 where s1: "l2_run_command q args s = (Inr (), s1)" "l2_execute cs s1 = (Inr (), t)"
    using Cons.prems(1) by (auto simp: c l2_execute_Cons split: prod.splits sum.splits)
  obtain op m where op: "l2_deserialize l2_operation_new args 0 = Inr (op, m)" "l2_key op \<noteq> k \<or> l2_value op = []"
    using Cons.prems(2) c by auto
  from Cons.IH [OF s1(2)] Cons.prems(2) l2_run_other [OF s1(1) op] show ?case by auto
qed

text \<open>
  C14. The latest write is what the third layer gets: after a write to a key has been executed, followed by any commands that
  do not write to this key, every operation on any replica of the key that is forwarded,
  read or write, carries the written value; it is sent exactly once, to the label of that replica, with the sequence number
  under which its acknowledgement comes back.
\<close>

theorem l2_latest_write_forwarded:
  assumes "update_cache_enabled s" "map_of (l2_replicas_of s) k = Some n" "l2_l3_iface s = Some i" "l3_ready i"
    and "l2_op_ok w" "l2_key w = k" "l2_value w \<noteq> []"
    and "l2_execute ((q, l2_serialize w) # cs) s = (Inr (), t)"
    and "\<forall>(q, args) \<in> set cs. \<exists>op m. l2_deserialize l2_operation_new args 0 = Inr (op, m) \<and> (l2_key op \<noteq> k \<or> l2_value op = [])"
    and "l2_op_ok op" "l2_key op = k" "0 \<le> l2_replica op" "l2_replica op < n"
    and "map_of (l2_replica_to_label s) (k @ to_string (l2_replica op)) = Some lab"
  shows "\<exists>t' i' m. l2_forward_request e seq (l2_serialize op) dedup t = (Inr (), t') \<and> base t' = base t \<and>
     l2_l3_iface t' = Some i' \<and> mset (grid_sent (l3_clients i')) = add_mset m (mset (grid_sent (l3_clients i))) \<and>
     l3_label m = to_string lab \<and> l3_value m = l2_value w \<and> l3_is_read m = (l2_value op = []) \<and> l3_dedup m = dedup \<and>
     l2_seq_no (l3_seq_id m) = server_seq_no seq \<and> l2_idx (l3_seq_id m) = l2_idx_no s"
proof -
  obtain s1 where s1: "l2_run_command q (l2_serialize w) s = (Inr (), s1)" "l2_execute cs s1 = (Inr (), t)"
    using assms(8) by (auto simp: l2_execute_Cons split: prod.splits sum.splits)
  note w = l2_run_write [OF s1(1) assms(5,7,1), of n] and o = l2_execute_other [OF s1(2) assms(9)]
  have cache: "map_of (l2_cache t) k = Some (l2_value w, replicate (nat n) True)" and en: "update_cache_enabled t"
    and lab: "l2_replica_to_label t = l2_replica_to_label s" and i: "l2_l3_iface t = Some i" and idx: "l2_idx_no t = l2_idx_no s"
    using w o assms(2,3,6) by auto
  have "forwards t (l2_serialize op) (wire_op op) lab (l2_value w)"
    using cache en lab assms(11-14) l2_deserialize_one [OF assms(10)]
    by (simp add: forwards_def check_for_update_immutable_def vec_at_def nat_less_iff)
  then obtain m c x y where m:
    "l2_forward_request e seq (l2_serialize op) dedup t =
       (Inr (), t\<lparr>l2_tick := y, l2_l3_iface := Some (i\<lparr>l3_clients := grid_call c x m (l3_clients i)\<rparr>)\<rparr>)"
    "c < length (l3_clients i)" "x < length (l3_clients i ! c)"
    "l3_label m = to_string lab" "l3_value m = l2_value w" "l3_dedup m = dedup" "l3_is_read m = (l2_value (wire_op op) = [])"
    "l2_seq_no (l3_seq_id m) = server_seq_no seq" "l2_idx (l3_seq_id m) = l2_idx_no t"
    by (rule l2_forward_ok [OF _ i assms(4), of _ _ _ _ e seq dedup]) (rule that, assumption+)
  with idx mset_grid_sent_call [OF m(2,3), of m] show ?thesis
    by (intro exI [of _ "t\<lparr>l2_tick := y, l2_l3_iface := Some (i\<lparr>l3_clients := grid_call c x m (l3_clients i)\<rparr>)\<rparr>"]
        exI [of _ "i\<lparr>l3_clients := grid_call c x m (l3_clients i)\<rparr>"] exI [of _ m]) simp
qed

section \<open>Acknowledgements\<close>

text \<open>
  C16. An acknowledgement of the third layer clears the command at the tail and travels on: the tail removes the command from its
  pending table and, if it is not the head, hands the acknowledgement to its predecessor; at the head it
  is handed to the worker of the first layer that sent the request, behind those that are already
  waiting for it, and to no other. This happens for every acknowledgement, also for a command that is no longer pending.
\<close>

theorem l2_ack_clears_and_returns:
  assumes "is_head s \<Longrightarrow> l2_ack_iface s = Some a \<and> rv_ok a \<and> rv_open a \<and> 0 \<le> l1_idx q \<and> l1_idx q < int (length (rv_arr a))"
    and "\<not> is_head s \<Longrightarrow> is_set_prev s"
  shows "\<exists>s'. l2_external_ack e q s = (Inr (), s') \<and>
     map_of (pending s') = (map_of (pending s))(l2_seq_no q := None) \<and>
     (if is_head s then
        \<exists>a'. l2_ack_iface s' = Some a' \<and> rv_ok a' \<and> rv_open a' \<and> ack_queue s' = ack_queue s \<and>
          (\<forall>j < length (rv_arr a). acks_for a' j = acks_for a j @ (if int j = l1_idx q then [q\<lparr>server_seq_no := l2_seq_no q\<rparr>] else []))
      else l2_ack_iface s' = l2_ack_iface s \<and>
        concat (map snd (rs_sent (prev_cxn s'))) @ ack_queue s' =
        concat (map snd (rs_sent (prev_cxn s))) @ ack_queue s @ [q\<lparr>server_seq_no := l2_seq_no q\<rparr>])"
proof (cases "is_head s")
  case True
  let ?q = "q\<lparr>server_seq_no := l2_seq_no q\<rparr>"
  from assms(1) [OF True] have a: "l2_ack_iface s = Some a" and ok: "rv_ok a" "rv_open a"
    and r: "0 \<le> l1ack_route ?q" "l1ack_route ?q < int (length (rv_arr a))"
    by (simp_all add: l1ack_route_def)
  obtain a' where a': "send_ack l1ack_route ?q a = (Inr (), a')" "rv_ok a'" "rv_open a'"
    "\<forall>j < length (rv_arr a). acks_for a' j = acks_for a j @ (if int j = l1_idx q then [?q] else [])"
    using send_ack_step [of a l1ack_route ?q] ok r by (auto simp: l1ack_route_def)
  with True a show ?thesis
    by (auto simp: l2_external_ack_def ack_def cpp_simps l2_ack_callback_def remove_pending_def is_head_def)
next
  case False
  obtain p where p: "rs_prot (prev_cxn s) = Some p"
    using assms(2) [OF False] by (auto simp: is_set_prev_def rs_is_set_def)
  with False show ?thesis
    by (auto simp: l2_external_ack_def ack_def cpp_simps l2_ack_callback_def remove_pending_def is_head_def
        ack_queue_full_def flush_acks_def on_prev_def rs_ack_batch_def)
qed

section \<open>Recovery from the failure of an L3 host\<close>

text \<open>
  A pending command is on the way to the columns that fail if forwarding it writes on one of the connections that the failure
  removes. Forwarding routes by the label and the number of columns only, so this is what the tail did when the command
  was replicated. What is resent for a command is the operation of the command: the label of its replica, the value that the update
  cache holds for it, and the numbers of the command, up to the time recorded for statistics; it is not to be deduplicated.
\<close>

definition lost_with :: "env \<Rightarrow> int \<Rightarrow> l2_proxy \<Rightarrow> chain_op \<Rightarrow> bool" where
  "lost_with e col s p \<longleftrightarrow>
     (let rows = (\<lambda>t. map_option (\<lambda>i. take (nat L3_NUM_CORES) (drop (nat col) (l3_clients i))) (l2_l3_iface t))
      in rows (snd (l2_forward_request e (op_seq p) (op_args p) True s)) \<noteq> rows s)"

definition resends :: "l2_proxy \<Rightarrow> chain_op \<Rightarrow> l3_operation \<Rightarrow> bool" where
  "resends s p m \<longleftrightarrow>
     (\<exists>op lab upd. forwards s (op_args p) op lab upd \<and> l3_label m = to_string lab \<and> l3_value m = upd \<and> l3_plaintext m = [] \<and>
        l3_is_read m = (l2_value op = []) \<and> \<not> l3_dedup m \<and>
        set_diag [] (l3_seq_id m) =
          set_diag [] ((op_seq p)\<lparr>l2_idx := l2_idx_no s, l2_seq_no := server_seq_no (op_seq p)\<rparr>))"

lemma forwards_update [simp]:
  "forwards (s\<lparr>l2_tick := k\<rparr>) = forwards s" "forwards (s\<lparr>l2_l3_iface := x\<rparr>) = forwards s"
  "resends (s\<lparr>l2_tick := k\<rparr>) = resends s" "resends (s\<lparr>l2_l3_iface := x\<rparr>) = resends s"
  by (simp_all add: forwards_def resends_def fun_eq_iff)

lemma take_drop_update_eq:
  assumes "c < length g" "x \<noteq> g ! c"
  shows "take n (drop k (g[c := x])) = take n (drop k g) \<longleftrightarrow> \<not> (k \<le> c \<and> c < k + n)"
proof
  assume eq: "take n (drop k (g[c := x])) = take n (drop k g)"
  show "\<not> (k \<le> c \<and> c < k + n)"
  proof
    assume r: "k \<le> c \<and> c < k + n"
    then have "c - k < n" by arith
    with assms r arg_cong [OF eq, of "\<lambda>l. l ! (c - k)"] show False by simp
  qed
qed (auto simp: drop_update_swap take_update_cancel not_le)

lemma lost_with_iff:
  assumes "forwards s (op_args p) op lab upd" "l2_l3_iface s = Some i" "l3_ready i" "0 \<le> col"
  shows "lost_with e col s p \<longleftrightarrow>
     col \<le> consistent_hash (to_string lab) (int (length (l3_clients i))) \<and>
     consistent_hash (to_string lab) (int (length (l3_clients i))) < col + L3_NUM_CORES"
proof -
  obtain m c w k where r: "l2_forward_request e (op_seq p) (op_args p) True s =
       (Inr (), s\<lparr>l2_tick := k, l2_l3_iface := Some (i\<lparr>l3_clients := grid_call c w m (l3_clients i)\<rparr>)\<rparr>)"
    "c < length (l3_clients i)" "w < length (l3_clients i ! c)" "l3_label m = to_string lab"
    "c = nat (consistent_hash (l3_label m) (int (length (l3_clients i))))"
    by (rule l2_forward_ok [OF assms(1-3), of e "op_seq p" True]) (rule that, assumption+)
  let ?row = "(l3_clients i ! c)[w := (l3_clients i ! c ! w)\<lparr>cl_sent := cl_sent (l3_clients i ! c ! w) @ [m]\<rparr>]"
  have "?row ! w \<noteq> l3_clients i ! c ! w"
    using r(3) by (cases "l3_clients i ! c ! w") simp
  then have row: "?row \<noteq> l3_clients i ! c" by metis
  have "lost_with e col s p \<longleftrightarrow> nat col \<le> c \<and> c < nat col + nat L3_NUM_CORES"
    using r(1) assms(2) take_drop_update_eq [OF r(2) row] by (simp add: lost_with_def Let_def grid_call_def)
  with assms(4) l3_column_nonneg [OF assms(3), of "to_string lab"] r(4,5) show ?thesis
    by (auto simp: L3_NUM_CORES_def)
qed

lemma l2_filter_ok:
  assumes "forwards s (op_args p) op lab upd"
  shows "l2_filter_request (op_seq p) (op_args p) col nc s =
    (Inr (col \<le> consistent_hash (to_string lab) nc \<and> consistent_hash (to_string lab) nc < col + L3_NUM_CORES), s)"
  using assms by (auto simp: forwards_def l2_filter_request_def l2_label_def cpp_simps Let_def)

lemma selective_resend_loop:
  assumes "l2_l3_iface s = Some i" "l3_ready i"
    and "\<And>k p. (k, p) \<in> set ps \<Longrightarrow> \<exists>op lab upd. forwards s (op_args p) op lab upd \<and>
           (lost p \<longleftrightarrow> col \<le> consistent_hash (to_string lab) nc \<and> consistent_hash (to_string lab) nc < col + L3_NUM_CORES)"
  shows "\<exists>i' t ms. for_each ps (\<lambda>(k, op). bnd (l2_filter_request (op_seq op) (op_args op) col nc) (\<lambda>hit.
            if hit then l2_forward_request e (op_seq op) (op_args op) False else ret ())) s =
          (Inr (), s\<lparr>l2_tick := t, l2_l3_iface := Some i'\<rparr>) \<and>
        list_all2 (\<lambda>(k, p). resends s p) (filter (\<lambda>(k, p). lost p) ps) ms \<and>
        for_each ms l3_send_op i = (Inr (), i') \<and>
        mset (grid_sent (l3_clients i')) = mset (grid_sent (l3_clients i)) + mset ms"
  using assms
proof (induction ps arbitrary: s i)
  case Nil
  then show ?case by (intro exI [of _ i] exI [of _ "l2_tick s"] exI [of _ "[]"]) (simp add: ret_apply)
next
  case (Cons x ps)
  let ?body = "\<lambda>(k, op). bnd (l2_filter_request (op_seq op) (op_args op) col nc) (\<lambda>hit.
            if hit then l2_forward_request e (op_seq op) (op_args op) False else ret ())"
  obtain k p where x: "x = (k, p)" by (cases x)
  obtain op lab upd where f: "forwards s (op_args p) op lab upd"
    and l: "lost p \<longleftrightarrow> col \<le> consistent_hash (to_string lab) nc \<and> consistent_hash (to_string lab) nc < col + L3_NUM_CORES"
    using Cons.prems(3) [of k p] x by auto
  have filt: "l2_filter_request (op_seq p) (op_args p) col nc s = (Inr (lost p), s)" using l2_filter_ok [OF f] l by simp
  have rest: "\<exists>op lab upd. forwards (s\<lparr>l2_tick := t1, l2_l3_iface := Some i1\<rparr>) (op_args p) op lab upd \<and>
     (lost p \<longleftrightarrow> col \<le> consistent_hash (to_string lab) nc \<and> consistent_hash (to_string lab) nc < col + L3_NUM_CORES)"
    if "(k, p) \<in> set ps" for k p t1 i1
    using Cons.prems(3) [of k p] that by simp
  show ?case
  proof (cases "lost p")
    case True
    obtain m c w t1 where m: "l2_forward_request e (op_seq p) (op_args p) False s =
       (Inr (), s\<lparr>l2_tick := t1, l2_l3_iface := Some (i\<lparr>l3_clients := grid_call c w m (l3_clients i)\<rparr>)\<rparr>)"
      "c < length (l3_clients i)" "w < length (l3_clients i ! c)" "l3_label m = to_string lab" "l3_value m = upd" "l3_dedup m = False"
      "l3_is_read m = (l2_value op = [])" "l3_plaintext m = []"
      "c = nat (consistent_hash (l3_label m) (int (length (l3_clients i))))" "w = l3_worker (l3_label m) (length (l3_clients i ! c))"
      "set_diag [] (l3_seq_id m) = set_diag [] ((op_seq p)\<lparr>l2_idx := l2_idx_no s, l2_seq_no := server_seq_no (op_seq p)\<rparr>)"
      by (rule l2_forward_ok [OF f Cons.prems(1,2), of e "op_seq p" False]) (rule that, assumption+)
    let ?i = "i\<lparr>l3_clients := grid_call c w m (l3_clients i)\<rparr>"
    have r: "l3_ready ?i" using Cons.prems(2) by (simp add: l3_ready_def)
    have b: "?body x s = (Inr (), s\<lparr>l2_tick := t1, l2_l3_iface := Some ?i\<rparr>)"
      using filt True m(1) by (simp add: x bnd_apply)
    obtain i' t ms where ih: "for_each ps ?body (s\<lparr>l2_tick := t1, l2_l3_iface := Some ?i\<rparr>) = (Inr (), s\<lparr>l2_tick := t, l2_l3_iface := Some i'\<rparr>)"
      "list_all2 (\<lambda>(k, p). resends s p) (filter (\<lambda>(k, p). lost p) ps) ms" "for_each ms l3_send_op ?i = (Inr (), i')"
      "mset (grid_sent (l3_clients i')) = mset (grid_sent (l3_clients ?i)) + mset ms"
      using Cons.IH [of "s\<lparr>l2_tick := t1, l2_l3_iface := Some ?i\<rparr>" ?i, OF _ r] rest by auto
    have "resends s p m"
      unfolding resends_def using f m(4,5,7,8,11) m(6) by (intro exI [of _ op] exI [of _ lab] exI [of _ upd]) simp
    moreover have "for_each (m # ms) l3_send_op i = (Inr (), i')"
      using l3_send_op_ready(1) [OF Cons.prems(2), of m] m(9,10) ih(3) by (simp add: for_each_Cons seqM_apply)
    moreover have "for_each (x # ps) ?body s = (Inr (), s\<lparr>l2_tick := t, l2_l3_iface := Some i'\<rparr>)"
      unfolding for_each_Cons b using ih(1) by simp
    ultimately show ?thesis using True ih(2,4) mset_grid_sent_call [OF m(2,3), of m]
      by (intro exI [of _ i'] exI [of _ t] exI [of _ "m # ms"]) (simp add: x)
  next
    case False
    then have b: "?body x s = (Inr (), s)"
      using filt by (simp add: x bnd_apply ret_apply)
    have skip: "for_each (x # ps) ?body s = for_each ps ?body s"
      unfolding for_each_Cons b by simp
    have keep: "filter (\<lambda>(k, p). lost p) (x # ps) = filter (\<lambda>(k, p). lost p) ps" using False by (simp add: x)
    show ?thesis
      unfolding skip keep by (rule Cons.IH [OF Cons.prems(1,2)]) (rule Cons.prems(3), rule list.set_intros(2))
  qed
qed

text \<open>
  C15. After the first failure of an L3 host nothing that was on its way to it is lost, and nothing else is repeated. The manager has the
  tail remove the connections of the failed host, which are sixteen columns, and then resend: the calls both return, every other connection
  stays with what was sent on it, and the tail sends again exactly those pending commands whose forwarding had gone to one of the removed
  connections, each once and in the order in which the hash table is traversed, as complete operations (the label of the replica, the value
  of the update cache, read or write, the numbers of the command) that are marked so that the new server does not take them for duplicates,
  each on the remaining connection that its label is now routed to. The chain state does not change. The number of columns that the
  manager passes is the number the tail was connected to, which is so as long as no L3 host failed before.
\<close>

theorem l2_resends_exactly_failed:
  assumes "is_tail s" "l2_l3_iface s = Some i" "l3_ready i" "iter_ok iter"
    and "0 \<le> col" "col + L3_NUM_CORES \<le> int (length (l3_clients i))" "L3_NUM_CORES < int (length (l3_clients i))"
    and "\<forall>(k, p) \<in> set (pending s). \<exists>op lab upd. forwards s (op_args p) op lab upd"
  shows "\<exists>s' i1 i' ms.
     seqM (l2_update_conns e HOST_TYPE_L3 col ''nil'' prt n) (l2_selective_resend_pending e iter col (int (length (l3_clients i)))) s = (Inr (), s') \<and>
     base s' = base s \<and> l2_l3_iface s' = Some i' \<and>
     l3_clients i1 = take (nat col) (l3_clients i) @ drop (nat (col + L3_NUM_CORES)) (l3_clients i) \<and>
     list_all2 (\<lambda>(k, p) m. resends s p m) (filter (\<lambda>(k, p). lost_with e col s p) (iter (pending s))) ms \<and>
     for_each ms l3_send_op i1 = (Inr (), i') \<and>
     mset (grid_sent (l3_clients i')) = mset (grid_sent (l3_clients i1)) + mset ms"
proof -
  let ?nc = "int (length (l3_clients i))"
  have it: "set (iter (pending s)) = set (pending s)" using assms(4) by (simp add: iter_ok_set)
  obtain i1 where i1: "l3_remove_connection col i = (Inr (), i1)"
    "l3_clients i1 = take (nat col) (l3_clients i) @ drop (nat col + 16) (l3_clients i)" "l3_ready i1"
    using l3_remove_connection_reroutes [OF assms(3,5,6,7)] by blast
  let ?s = "s\<lparr>l2_l3_iface := Some i1\<rparr>"
  have up: "l2_update_conns e HOST_TYPE_L3 col ''nil'' prt n s = (Inr (), ?s)"
    using assms(1,2) i1(1) by (simp add: l2_update_conns_def)
  have fwd: "\<exists>op lab upd. forwards ?s (op_args p) op lab upd \<and> (lost_with e col s p \<longleftrightarrow>
      col \<le> consistent_hash (to_string lab) ?nc \<and> consistent_hash (to_string lab) ?nc < col + L3_NUM_CORES)"
    if "(k, p) \<in> set (iter (pending s))" for k p
    using assms(8) that it lost_with_iff [OF _ assms(2,3,5)] by (auto 0 4)
  obtain i' t ms where r: "for_each (iter (pending s)) (\<lambda>(k, op). bnd (l2_filter_request (op_seq op) (op_args op) col ?nc) (\<lambda>hit.
            if hit then l2_forward_request e (op_seq op) (op_args op) False else ret ())) ?s =
          (Inr (), ?s\<lparr>l2_tick := t, l2_l3_iface := Some i'\<rparr>)"
    "list_all2 (\<lambda>(k, p). resends ?s p) (filter (\<lambda>(k, p). lost_with e col s p) (iter (pending s))) ms"
    "for_each ms l3_send_op i1 = (Inr (), i')" "mset (grid_sent (l3_clients i')) = mset (grid_sent (l3_clients i1)) + mset ms"
    using selective_resend_loop [where s = ?s and e = e and ps = "iter (pending s)" and lost = "lost_with e col s" and col = col and nc = ?nc,
        OF _ i1(3)] fwd by auto
  have "nat (col + L3_NUM_CORES) = nat col + 16" using assms(5) by (simp add: L3_NUM_CORES_def nat_add_distrib)
  then have cl: "l3_clients i1 = take (nat col) (l3_clients i) @ drop (nat (col + L3_NUM_CORES)) (l3_clients i)" using i1(2) by simp
  have run: "seqM (l2_update_conns e HOST_TYPE_L3 col ''nil'' prt n) (l2_selective_resend_pending e iter col ?nc) s =
      (Inr (), ?s\<lparr>l2_tick := t, l2_l3_iface := Some i'\<rparr>)"
    using r(1) assms(1) up by (auto simp: l2_selective_resend_pending_def seqM_apply bnd_apply gets_apply is_tail_def)
  from r(2) have "list_all2 (\<lambda>(k, p) m. resends s p m) (filter (\<lambda>(k, p). lost_with e col s p) (iter (pending s))) ms" by simp
  with run cl r(3,4) show ?thesis
    by (intro exI [of _ "?s\<lparr>l2_tick := t, l2_l3_iface := Some i'\<rparr>"]) (auto 0 3)
qed

text \<open>
  An L2 proxy simulates the recording replica of the chain protocol: a chain request changes the members of the base class
  as it does in the protocol, or, if the application refuses the command because of its sequence number, leaves them as they are;
  an acknowledgement that can be passed on changes them as in the protocol.
\<close>

lemma l2_simulates_replica:
  fixes l :: logged
  assumes "base s = base l"
  shows "base (snd (chain_request (l2_app e) seq args s)) =
           (if in_order s seq \<and> fst (l2_run_command (stamped s seq) args s) \<noteq> Inr () then base s
            else base (snd (chain_request log_app seq args l))) \<and>
         (fst (l2_ack_callback q (remove_pending q s)) = Inr () \<longrightarrow>
          base (snd (ack (l2_app e) q s)) = base (snd (ack log_app q l)))"
proof
  have log: "base (snd (chain_request log_app seq args l)) = snd (chain_request null_app seq args (base s))"
    using la.chain_request_base [where s = l and seq = seq and args = args] assms by (simp add: log_app_def modify_apply)
  show "base (snd (chain_request (l2_app e) seq args s)) =
           (if in_order s seq \<and> fst (l2_run_command (stamped s seq) args s) \<noteq> Inr () then base s
            else base (snd (chain_request log_app seq args l)))"
  proof (cases "in_order s seq \<and> fst (l2_run_command (stamped s seq) args s) \<noteq> Inr ()")
    case True
    then obtain x t where "l2_run_command (stamped s seq) args s = (Inl x, t)"
      by (cases "l2_run_command (stamped s seq) args s"; cases "fst (l2_run_command (stamped s seq) args s)") auto
    with True l2c.chain_request_refused(2) [where s = s and seq = seq and args = args] show ?thesis by simp
  next
    case False
    with log l2c.chain_request_base [where s = s and seq = seq and args = args and e = e] show ?thesis by auto
  qed
  show "fst (l2_ack_callback q (remove_pending q s)) = Inr () \<longrightarrow> base (snd (ack (l2_app e) q s)) = base (snd (ack log_app q l))"
    using assms l2c.ack_base_sim(1) [where s = s and seq = q and e = e] la.ack_base_sim(1) [where s = l and seq = q]
    by (simp add: log_app_def ret_apply)
qed

section \<open>Witnesses\<close>

definition example_l3 :: l3_iface where
  "example_l3 = \<lparr>l3_hosts = [], l3_clients = [[\<lparr>cl_host = ''c'', cl_port = 9090, cl_sent = []\<rparr>]]\<rparr>"

text \<open>A proxy that is head and tail, with one worker in the first layer and one in the third.\<close>

definition example_l2p :: l2_proxy where
  "example_l2p = l2_proxy_new\<lparr>l2_replica_to_label := [(''a0'', 0), (''a1'', 1)], l2_replicas_of := [(''a'', 2)],
     l2_l3_iface := Some example_l3, last_seen_seq := [- 1], l2_ack_iface := Some example_rev\<rparr>"

lemmas example_l2p_defs = example_l2p_def l2_proxy_new_def chain_module.extend_def l2_proxy.fields_def chain_module_new_def example_l3_def

lemma example_l3_ready: "l3_ready example_l3" by (simp add: l3_ready_def example_l3_def)

theorem l2_replay_has_no_effect_witness:
  "\<exists>s'. l2_requests example_env [(sequence_id_new, ''a'', 1, ''v''), (sequence_id_new, ''a'', 1, ''v'')] example_l2p = (Inr (), s')"
proof -
  let ?op = "\<lparr>l2_seq_id = sequence_id_new, l2_key = ''a'', l2_replica = 1, l2_value = ''v''\<rparr>"
  let ?q = "sequence_id_new\<lparr>server_seq_no := 1\<rparr>"
  have ok: "l2_op_ok ?op" by (simp add: l2_op_ok_def sequence_id_new_def int64_range_def int32_range_def)
  have req: "l2_async_operation example_env sequence_id_new ''a'' 1 ''v'' example_l2p =
      chain_request (l2_app example_env) sequence_id_new (l2_serialize ?op) example_l2p"
    by (simp add: l2_async_operation_def cpp_simps example_l2p_defs sequence_id_new_def is_head_def vec_at_def)
  define t where "t = example_l2p\<lparr>last_seen_seq := [0], l2_cache := [(''a'', ''v'', [True, True])]\<rparr>"
  have run: "l2_run_command ?q (l2_serialize ?op) example_l2p = (Inr (), t)"
    using l2_deserialize_one [OF ok]
    by (simp add: l2_run_command_def cpp_simps vec_at_def populate_replica_updates_def tab_insert_def tab_put_def t_def
        example_l2p_defs sequence_id_new_def numeral_2_eq_2)
  have st: "stamped example_l2p sequence_id_new = ?q" "in_order example_l2p sequence_id_new" "is_tail t"
    by (simp_all add: t_def stamped_def in_order_def example_l2p_defs is_head_def is_tail_def)
  have "to_string 1 = ''1''" by code_simp
  then have "forwards (accepted ?q (l2_serialize ?op) t) (l2_serialize ?op) (wire_op ?op) 1 ''v''"
    using l2_deserialize_one [OF ok]
    by (simp add: forwards_def t_def accepted_def add_pending_def check_for_update_immutable_def vec_at_def example_l2p_defs)
  moreover have "l2_l3_iface (accepted ?q (l2_serialize ?op) t) = Some example_l3"
    by (simp add: t_def accepted_def add_pending_def example_l2p_def)
  ultimately obtain u where
    u: "l2_forward_request example_env ?q (l2_serialize ?op) True (accepted ?q (l2_serialize ?op) t) = (Inr (), u)"
    using l2_forward_ok [OF _ _ example_l3_ready] by metis
  have "l2_requests example_env [(sequence_id_new, ''a'', 1, ''v'')] example_l2p = (Inr (), u)"
    using req run st u
    by (simp add: l2_requests_Cons l2_requests_Nil chain_request_cases in_order_def l2_replication_complete_def)
  from l2_replay_has_no_effect [OF this, of "[(sequence_id_new, ''a'', 1, ''v'')]"] show ?thesis by auto
qed

theorem l2_latest_write_forwarded_witness:
  "\<exists>t t' i' m. l2_execute [(sequence_id_new, l2_serialize \<lparr>l2_seq_id = sequence_id_new, l2_key = ''a'', l2_replica = 0, l2_value = ''v''\<rparr>)]
       example_l2p = (Inr (), t) \<and>
     l2_forward_request example_env sequence_id_new
       (l2_serialize \<lparr>l2_seq_id = sequence_id_new, l2_key = ''a'', l2_replica = 1, l2_value = []\<rparr>) True t = (Inr (), t') \<and>
     l2_l3_iface t' = Some i' \<and> grid_sent (l3_clients i') = [m] \<and> l3_value m = ''v'' \<and> l3_is_read m"
proof -
  let ?w = "\<lparr>l2_seq_id = sequence_id_new, l2_key = ''a'', l2_replica = 0, l2_value = ''v''\<rparr>"
  let ?r = "\<lparr>l2_seq_id = sequence_id_new, l2_key = ''a'', l2_replica = 1, l2_value = []\<rparr>"
  define t where "t = example_l2p\<lparr>last_seen_seq := [0], l2_cache := [(''a'', ''v'', [True, True])]\<rparr>"
  have ok: "l2_op_ok ?w" "l2_op_ok ?r" by (simp_all add: l2_op_ok_def sequence_id_new_def int64_range_def int32_range_def)
  have ex: "l2_execute [(sequence_id_new, l2_serialize ?w)] example_l2p = (Inr (), t)"
    using l2_deserialize_one [OF ok(1)]
    by (simp add: l2_execute_Cons l2_execute_Nil l2_run_command_def cpp_simps vec_at_def populate_replica_updates_def
        tab_insert_def tab_put_def t_def example_l2p_defs sequence_id_new_def numeral_2_eq_2)
  have e: "update_cache_enabled example_l2p" "map_of (l2_replicas_of example_l2p) ''a'' = Some 2" "l2_l3_iface example_l2p = Some example_l3"
    "grid_sent (l3_clients example_l3) = []"
    by (simp_all add: example_l2p_defs grid_sent_def)
  have "to_string 1 = ''1''" by code_simp
  then have lab: "map_of (l2_replica_to_label example_l2p) (''a'' @ to_string (l2_replica ?r)) = Some 1"
    by (simp add: example_l2p_def)
  from l2_latest_write_forwarded [OF e(1-3) example_l3_ready ok(1) _ _ ex _ ok(2) _ _ _ lab, of example_env sequence_id_new True]
  obtain t' i' m where "l2_forward_request example_env sequence_id_new (l2_serialize ?r) True t = (Inr (), t')"
     "l2_l3_iface t' = Some i'" "mset (grid_sent (l3_clients i')) = add_mset m (mset (grid_sent (l3_clients example_l3)))"
     "l3_value m = l2_value ?w" "l3_is_read m = (l2_value ?r = [])" by auto
  with e(4) have "l2_forward_request example_env sequence_id_new (l2_serialize ?r) True t = (Inr (), t')"
     "l2_l3_iface t' = Some i'" "grid_sent (l3_clients i') = [m]" "l3_value m = ''v''" "l3_is_read m" by auto
  with ex show ?thesis by blast
qed

theorem l2_ack_clears_and_returns_witness:
  "\<exists>s'. l2_external_ack example_env (sequence_id_new\<lparr>l2_seq_no := 1\<rparr>) (example_l2p\<lparr>pending := [(1, \<lparr>op_seq = sequence_id_new, op_args = []\<rparr>)]\<rparr>) = (Inr (), s') \<and>
     map_of (pending s') 1 = None"
proof -
  let ?s = "example_l2p\<lparr>pending := [(1, \<lparr>op_seq = sequence_id_new, op_args = []\<rparr>)]\<rparr>"
  have "is_head ?s" "l2_ack_iface ?s = Some example_rev" "length (rv_arr example_rev) = 2"
    by (simp_all add: example_l2p_defs is_head_def example_rev_simps)
  with example_rev_ok show ?thesis
    using l2_ack_clears_and_returns [where s = ?s and a = example_rev and q = "sequence_id_new\<lparr>l2_seq_no := 1\<rparr>" and e = example_env]
    by (auto simp: sequence_id_new_def)
qed

text \<open>
  A tail with one pending command and seventeen columns, so that one is left after a failure. The command is on the way
  to some column; whichever it is, a failure of the host with that column has it resent.
\<close>

definition example_wide :: l2_proxy where
  "example_wide = example_l2p\<lparr>l2_l3_iface := Some (example_l3\<lparr>l3_clients := replicate 17 [\<lparr>cl_host = ''c'', cl_port = 9090, cl_sent = []\<rparr>]\<rparr>),
     pending := [(1, \<lparr>op_seq = sequence_id_new\<lparr>server_seq_no := 1\<rparr>,
       op_args = l2_serialize \<lparr>l2_seq_id = sequence_id_new, l2_key = ''a'', l2_replica = 1, l2_value = []\<rparr>\<rparr>)]\<rparr>"

theorem l2_resends_exactly_failed_witness:
  "\<exists>col s' i' m. 0 \<le> col \<and> col \<le> 1 \<and>
     seqM (l2_update_conns example_env HOST_TYPE_L3 col ''nil'' 0 0) (l2_selective_resend_pending example_env id col 17) example_wide = (Inr (), s') \<and>
     l2_l3_iface s' = Some i' \<and> grid_sent (l3_clients i') = [m] \<and> l3_label m = ''1'' \<and> l3_is_read m \<and> \<not> l3_dedup m \<and>
     l2_seq_no (l3_seq_id m) = 1"
proof -
  let ?op = "\<lparr>l2_seq_id = sequence_id_new, l2_key = ''a'', l2_replica = 1, l2_value = []\<rparr>"
  let ?p = "\<lparr>op_seq = sequence_id_new\<lparr>server_seq_no := 1\<rparr>, op_args = l2_serialize ?op\<rparr>"
  let ?i = "example_l3\<lparr>l3_clients := replicate 17 [\<lparr>cl_host = ''c'', cl_port = 9090, cl_sent = []\<rparr>]\<rparr>"
  have one: "to_string 1 = ''1''" by code_simp
  have ok: "l2_op_ok ?op" by (simp add: l2_op_ok_def sequence_id_new_def int64_range_def int32_range_def)
  have f: "forwards example_wide (op_args ?p) (wire_op ?op) 1 []"
    using l2_deserialize_one [OF ok] one
    by (simp add: forwards_def check_for_update_immutable_def example_wide_def example_l2p_defs)
  have fs: "upd = [] \<and> lab = 1 \<and> op = wire_op ?op" if "forwards example_wide (l2_serialize ?op) op lab upd" for op lab upd
    using that f by (auto simp: forwards_def split: if_splits)
  have st: "is_tail example_wide" "l2_l3_iface example_wide = Some ?i" "pending example_wide = [(1, ?p)]" "l3_ready ?i"
    by (simp_all add: example_wide_def example_l2p_defs is_tail_def l3_ready_def list_all_iff)
  let ?h = "consistent_hash (to_string 1) 17"
  define col :: int where "col = (if ?h = 16 then 1 else 0)"
  have c: "0 \<le> col" "col \<le> 1" by (simp_all add: col_def)
  have "0 \<le> ?h" "?h < 17" using ch.in_range [of 17 "to_string 1"] by auto
  then have lost: "lost_with example_env col example_wide ?p"
    using lost_with_iff [OF f st(2,4) c(1)] by (simp add: col_def L3_NUM_CORES_def)
  have room: "col + L3_NUM_CORES \<le> int (length (l3_clients ?i))" "L3_NUM_CORES < int (length (l3_clients ?i))"
    "int (length (l3_clients ?i)) = 17" using c by (simp_all add: L3_NUM_CORES_def)
  have fw: "\<forall>(k, p) \<in> set (pending example_wide). \<exists>op lab upd. forwards example_wide (op_args p) op lab upd"
    using f st(3) by auto
  from l2_resends_exactly_failed [where e = example_env and prt = 0 and n = 0, OF st(1,2,4) iter_ok_id c(1) room(1,2) fw]
  obtain s' i' ms and i1 :: l3_iface where r:
    "seqM (l2_update_conns example_env HOST_TYPE_L3 col ''nil'' 0 0) (l2_selective_resend_pending example_env id col 17) example_wide = (Inr (), s')"
    "l2_l3_iface s' = Some i'" "l3_clients i1 = take (nat col) (l3_clients ?i) @ drop (nat (col + L3_NUM_CORES)) (l3_clients ?i)"
    "list_all2 (\<lambda>(k, p) m. resends example_wide p m) (filter (\<lambda>(k, p). lost_with example_env col example_wide p) (id (pending example_wide))) ms"
    "mset (grid_sent (l3_clients i')) = mset (grid_sent (l3_clients i1)) + mset ms"
    unfolding room(3) by (elim exE conjE) (rule that, assumption+)
  obtain m where m: "ms = [m]" "resends example_wide ?p m"
    using r(4) lost st(3) by (auto simp: list_all2_Cons1)
  have "grid_sent (l3_clients i1) = []" by (simp add: r(3) grid_sent_def)
  with r(5) m(1) have "grid_sent (l3_clients i') = [m]" by simp
  moreover have "l3_label m = ''1'' \<and> l3_is_read m \<and> \<not> l3_dedup m"
    using m(2) one unfolding resends_def by (auto dest!: fs simp: wire_op_def)
  moreover have "set_diag [] (l3_seq_id m) = set_diag [] ((op_seq ?p)\<lparr>l2_idx := l2_idx_no example_wide, l2_seq_no := 1\<rparr>)"
    using m(2) by (auto simp: resends_def)
  from arg_cong [OF this, of l2_seq_no] have "l2_seq_no (l3_seq_id m) = 1" by (simp add: set_diag_def)
  ultimately show ?thesis using r(1,2) c by blast
qed

end
