(* ===== verification/Redis_Interface.thy ===== *)
theory Redis_Interface
  imports L3_Interface
begin

text \<open>
  proxy/src/redis_interface.h and redis_interface.cpp: how an L3 proxy talks to the Redis servers. Requests are queued for
  each server and sent as one \<^verbatim>\<open>MGET\<close> or \<^verbatim>\<open>MSET\<close> when the queue is full. The payload that comes back with the reply is an
  \<^verbatim>\<open>l3_operation\<close> here and a callback in libstorage (theory Storage), so the record has it as a
  type parameter.

  The library cpp\_redis is a parameter: \<open>reply_api\<close> are the accessors of its reply objects of type \<open>'r\<close>. A connection is
  the list of the commands committed on it.
\<close>

section \<open>Connections and replies\<close>

datatype 'a redis_call =
    Get string
  | Set string string
  | Mget "string list" "'a list"
  | Mset "(string \<times> string) list" "'a list"

record 'a redis_conns =
  rd_batch_size :: int
  rd_clients :: "'a redis_call rpc_client list"
  rd_get_queues :: "(string \<times> 'a) list list"
  rd_put_queues :: "(string \<times> string \<times> 'a) list list"

type_synonym redis_interface = "l3_operation redis_conns"

record 'r reply_api =
  rp_is_error :: "'r \<Rightarrow> bool"
  rp_error :: "'r \<Rightarrow> string"
  rp_is_null :: "'r \<Rightarrow> bool"
  rp_as_array :: "'r \<Rightarrow> 'r list outcome"
  rp_as_string :: "'r \<Rightarrow> string outcome"

definition nested_value :: "'r reply_api \<Rightarrow> 'r \<Rightarrow> string outcome" where
  "nested_value api r =
     (if rp_is_error api r then Inl (Runtime_error (rp_error api r))
      else if rp_is_null api r then Inl (Runtime_error ''GET returned NULL value'')
      else rp_as_string api r)"

definition mget_values :: "'r reply_api \<Rightarrow> 'r \<Rightarrow> string list outcome" where
  "mget_values api r =
     (if rp_is_error api r then Inl (Runtime_error (rp_error api r))
      else if rp_is_null api r then Inl (Runtime_error ''GET returned NULL value'')
      else bind_out (rp_as_array api r) (map_out (nested_value api)))"

section \<open>Operations\<close>

text \<open>A connection that is refused or dropped ends the process.\<close>

definition redis_connect :: "(string \<Rightarrow> int \<Rightarrow> bool) \<Rightarrow> string \<Rightarrow> int \<Rightarrow> 'a redis_call rpc_client outcome" where
  "redis_connect up h p = (if up h p then Inr \<lparr>cl_host = h, cl_port = p, cl_sent = []\<rparr> else Inl Process_exit)"

definition ri_add_server :: "(string \<Rightarrow> int \<Rightarrow> bool) \<Rightarrow> string \<Rightarrow> int \<Rightarrow> ('a redis_conns, unit) cpp" where
  "ri_add_server up h p =
     bnd (lift_out (redis_connect up h p)) (\<lambda>c.
       modify (\<lambda>s. s\<lparr>rd_clients := rd_clients s @ [c], rd_get_queues := rd_get_queues s @ [[]],
                     rd_put_queues := rd_put_queues s @ [[]]\<rparr>))"

definition redis_interface_new :: "(string \<Rightarrow> int \<Rightarrow> bool) \<Rightarrow> string \<Rightarrow> int \<Rightarrow> int \<Rightarrow> 'a redis_conns outcome" where
  "redis_interface_new up h p batch_size =
     bind_out (redis_connect up h p) (\<lambda>c.
       Inr \<lparr>rd_batch_size = batch_size, rd_clients = [c], rd_get_queues = [[]], rd_put_queues = [[]]\<rparr>)"

text \<open>A command on connection \<open>i\<close>, followed by \<^verbatim>\<open>commit\<close>.\<close>

definition rd_send :: "nat \<Rightarrow> 'a redis_call \<Rightarrow> ('a redis_conns, unit) cpp" where
  "rd_send i c s =
     (if i < length (rd_clients s)
      then (Inr (), s\<lparr>rd_clients := (rd_clients s)[i := (rd_clients s ! i)\<lparr>cl_sent := cl_sent (rd_clients s ! i) @ [c]\<rparr>]\<rparr>)
      else (Inl (Undefined_behaviour ''vector index''), s))"

definition flush_get_queue :: "int \<Rightarrow> ('a redis_conns, unit) cpp" where
  "flush_get_queue idx =
     bnd (gets rd_get_queues) (\<lambda>qs.
     bnd (lift_out (vec_at qs idx)) (\<lambda>q.
       if q = [] then ret ()
       else seqM (modify (\<lambda>s. s\<lparr>rd_get_queues := qs[nat idx := []]\<rparr>))
              (rd_send (nat idx) (Mget (map fst q) (map snd q)))))"

definition flush_put_queue :: "int \<Rightarrow> ('a redis_conns, unit) cpp" where
  "flush_put_queue idx =
     bnd (gets rd_put_queues) (\<lambda>qs.
     bnd (lift_out (vec_at qs idx)) (\<lambda>q.
       if q = [] then ret ()
       else seqM (modify (\<lambda>s. s\<lparr>rd_put_queues := qs[nat idx := []]\<rparr>))
              (rd_send (nat idx) (Mset (map (\<lambda>(k, v, a). (k, v)) q) (map (\<lambda>(k, v, a). a) q)))))"

text \<open>The queue length is compared as an unsigned 64-bit number, to which the batch size is converted.\<close>

definition ri_async_get :: "string \<Rightarrow> 'a \<Rightarrow> ('a redis_conns, unit) cpp" where
  "ri_async_get key a =
     bnd (gets (\<lambda>s. consistent_hash key (int (length (rd_clients s))))) (\<lambda>idx.
     bnd (gets rd_get_queues) (\<lambda>qs.
     bnd (lift_out (vec_at qs idx)) (\<lambda>q.
     seqM (modify (\<lambda>s. s\<lparr>rd_get_queues := qs[nat idx := q @ [(key, a)]]\<rparr>))
       (bnd (gets rd_batch_size) (\<lambda>n.
          if int (length (q @ [(key, a)])) \<ge> n mod 2 ^ 64 then flush_get_queue idx else ret ())))))"

definition ri_async_put :: "string \<Rightarrow> string \<Rightarrow> 'a \<Rightarrow> ('a redis_conns, unit) cpp" where
  "ri_async_put key val a =
     bnd (gets (\<lambda>s. consistent_hash key (int (length (rd_clients s))))) (\<lambda>idx.
     bnd (gets rd_put_queues) (\<lambda>qs.
     bnd (lift_out (vec_at qs idx)) (\<lambda>q.
     seqM (modify (\<lambda>s. s\<lparr>rd_put_queues := qs[nat idx := q @ [(key, val, a)]]\<rparr>))
       (bnd (gets rd_batch_size) (\<lambda>n.
          if int (length (q @ [(key, val, a)])) \<ge> n mod 2 ^ 64 then flush_put_queue idx else ret ())))))"

definition ri_flush :: "('a redis_conns, unit) cpp" where
  "ri_flush =
     seqM (bnd (gets rd_put_queues) (\<lambda>qs. for_each [0..<length qs] (\<lambda>i. flush_put_queue (int i))))
       (bnd (gets rd_get_queues) (\<lambda>qs. for_each [0..<length qs] (\<lambda>i. flush_get_queue (int i))))"

text \<open>The reply callbacks: the payload of the command and the values go to the callback of the interface.\<close>

definition on_mget_reply ::
  "'r reply_api \<Rightarrow> ('a list \<Rightarrow> string list \<Rightarrow> ('s, unit) cpp) \<Rightarrow> 'a list \<Rightarrow> 'r \<Rightarrow> ('s, unit) cpp" where
  "on_mget_reply api cb ops r = bnd (lift_out (mget_values api r)) (\<lambda>vals. cb ops vals)"

definition on_mset_reply :: "'r reply_api \<Rightarrow> ('a list \<Rightarrow> ('s, unit) cpp) \<Rightarrow> 'a list \<Rightarrow> 'r \<Rightarrow> ('s, unit) cpp" where
  "on_mset_reply api cb ops r = (if rp_is_error api r then throw (Runtime_error (rp_error api r)) else cb ops)"

section \<open>What a server gets\<close>

definition rd_ok :: "'a redis_conns \<Rightarrow> bool" where
  "rd_ok s \<longleftrightarrow>
     rd_clients s \<noteq> [] \<and> length (rd_clients s) < 2 ^ 31 \<and>
     length (rd_get_queues s) = length (rd_clients s) \<and> length (rd_put_queues s) = length (rd_clients s)"

fun call_gets :: "'a redis_call \<Rightarrow> (string \<times> 'a) list" where
  "call_gets (Mget ks as) = zip ks as"
| "call_gets _ = []"

fun call_puts :: "'a redis_call \<Rightarrow> (string \<times> string \<times> 'a) list" where
  "call_puts (Mset kvs as) = map (\<lambda>((k, v), a). (k, v, a)) (zip kvs as)"
| "call_puts _ = []"

text \<open>
  The reads, and the writes, that were sent to server \<open>i\<close>, and all that were handed over for it so far: those sent, then those
  still in its queue.
\<close>

abbreviation sent_gets :: "'a redis_conns \<Rightarrow> nat \<Rightarrow> (string \<times> 'a) list" where
  "sent_gets s i \<equiv> concat (map call_gets (cl_sent (rd_clients s ! i)))"

abbreviation sent_puts :: "'a redis_conns \<Rightarrow> nat \<Rightarrow> (string \<times> string \<times> 'a) list" where
  "sent_puts s i \<equiv> concat (map call_puts (cl_sent (rd_clients s ! i)))"

definition gets_for :: "'a redis_conns \<Rightarrow> nat \<Rightarrow> (string \<times> 'a) list" where
  "gets_for s i = sent_gets s i @ rd_get_queues s ! i"

definition puts_for :: "'a redis_conns \<Rightarrow> nat \<Rightarrow> (string \<times> string \<times> 'a) list" where
  "puts_for s i = sent_puts s i @ rd_put_queues s ! i"

definition rd_server :: "'a redis_conns \<Rightarrow> string \<Rightarrow> nat" where
  "rd_server s key = nat (consistent_hash key (int (length (rd_clients s))))"

lemma rd_server_in:
  assumes "rd_ok s"
  shows "rd_server s key < length (rd_clients s)"
    and "consistent_hash key (int (length (rd_clients s))) = int (rd_server s key)"
  using ch.in_range [of "int (length (rd_clients s))" key] assms by (auto simp: rd_ok_def rd_server_def)

lemma rd_server_cong: "length (rd_clients t) = length (rd_clients s) \<Longrightarrow> rd_server t = rd_server s"
  by (simp add: rd_server_def fun_eq_iff)

lemma zip_map_pairs: "zip (map fst q) (map snd q) = q"
  by (induction q) auto

lemma call_puts_queue: "call_puts (Mset (map (\<lambda>(k, v, a). (k, v)) q) (map (\<lambda>(k, v, a). a) q)) = q"
  by (induction q) auto

text \<open>
  The effect of one flush as one equation: a non-empty queue becomes one command, and nothing else changes.
\<close>

definition sent_on :: "nat \<Rightarrow> 'a redis_call list \<Rightarrow> 'a redis_conns \<Rightarrow> 'a redis_conns" where
  "sent_on i cs s = s\<lparr>rd_clients := (rd_clients s)[i := (rd_clients s ! i)\<lparr>cl_sent := cl_sent (rd_clients s ! i) @ cs\<rparr>]\<rparr>"

definition mget_of :: "(string \<times> 'a) list \<Rightarrow> 'a redis_call list" where
  "mget_of q = (if q = [] then [] else [Mget (map fst q) (map snd q)])"

definition mset_of :: "(string \<times> string \<times> 'a) list \<Rightarrow> 'a redis_call list" where
  "mset_of q = (if q = [] then [] else [Mset (map (\<lambda>(k, v, a). (k, v)) q) (map (\<lambda>(k, v, a). a) q)])"

lemma sent_on_Nil [simp]: "sent_on i [] s = s"
  by (cases "i < length (rd_clients s)") (simp_all add: sent_on_def list_update_beyond)

lemma sent_on_fields [simp]:
  "rd_batch_size (sent_on i cs s) = rd_batch_size s" "rd_get_queues (sent_on i cs s) = rd_get_queues s"
  "rd_put_queues (sent_on i cs s) = rd_put_queues s" "length (rd_clients (sent_on i cs s)) = length (rd_clients s)"
  by (simp_all add: sent_on_def)

lemma sent_on_clients_Nil [simp]: "rd_clients (sent_on i cs s) = [] \<longleftrightarrow> rd_clients s = []"
  by (simp add: sent_on_def)

lemma cl_sent_sent_on:
  "j < length (rd_clients s) \<Longrightarrow>
     cl_sent (rd_clients (sent_on i cs s) ! j) = cl_sent (rd_clients s ! j) @ (if i = j then cs else [])"
  by (simp add: sent_on_def nth_list_update)

lemma list_update_same: "xs ! i = x \<Longrightarrow> xs[i := x] = xs"
  by auto

lemma flush_get_queue_eq:
  assumes "rd_ok s" "i < length (rd_clients s)"
  shows "flush_get_queue (int i) s =
           (Inr (), sent_on i (mget_of (rd_get_queues s ! i)) (s\<lparr>rd_get_queues := (rd_get_queues s)[i := []]\<rparr>))"
  using assms by (auto simp: flush_get_queue_def cpp_simps rd_send_def sent_on_def mget_of_def rd_ok_def
      list_update_same)

lemma flush_put_queue_eq:
  assumes "rd_ok s" "i < length (rd_clients s)"
  shows "flush_put_queue (int i) s =
           (Inr (), sent_on i (mset_of (rd_put_queues s ! i)) (s\<lparr>rd_put_queues := (rd_put_queues s)[i := []]\<rparr>))"
  using assms by (auto simp: flush_put_queue_def cpp_simps rd_send_def sent_on_def mset_of_def rd_ok_def
      list_update_same)

lemma call_gets_mget_of [simp]: "concat (map call_gets (mget_of q)) = q"
  by (simp add: mget_of_def zip_map_pairs)

lemma call_gets_mset_of [simp]: "c \<in> set (mset_of q) \<Longrightarrow> call_gets c = []"
  by (auto simp: mset_of_def split: if_splits)

lemma call_puts_mset_of [simp]: "concat (map call_puts (mset_of q)) = q"
  by (simp add: mset_of_def call_puts_queue del: call_puts.simps(1))

lemma call_puts_mget_of [simp]: "c \<in> set (mget_of q) \<Longrightarrow> call_puts c = []"
  by (auto simp: mget_of_def split: if_splits)


lemma ri_async_get_eq:
  fixes s :: "'a redis_conns" and key :: string and a :: 'a
  assumes "rd_ok s"
  defines "i \<equiv> rd_server s key"
  defines "q \<equiv> rd_get_queues s ! i @ [(key, a)]"
  shows "ri_async_get key a s =
           (Inr (), if int (length q) \<ge> rd_batch_size s mod 2 ^ 64
                    then sent_on i (mget_of q) (s\<lparr>rd_get_queues := (rd_get_queues s)[i := []]\<rparr>)
                    else s\<lparr>rd_get_queues := (rd_get_queues s)[i := q]\<rparr>)"
proof -
  note i = rd_server_in [OF assms(1), of key, folded i_def]
  let ?t = "s\<lparr>rd_get_queues := (rd_get_queues s)[i := q]\<rparr>"
  have len: "i < length (rd_get_queues s)" using i(1) assms(1) by (simp add: rd_ok_def)
  have "rd_ok ?t" using assms(1) by (simp add: rd_ok_def)
  then have "flush_get_queue (int i) ?t = (Inr (), sent_on i (mget_of q) (s\<lparr>rd_get_queues := (rd_get_queues s)[i := []]\<rparr>))"
    using flush_get_queue_eq [of ?t i] i(1) len by simp
  then show ?thesis using len by (simp add: ri_async_get_def cpp_simps i(2)) (simp add: q_def)
qed

lemma ri_async_put_eq:
  fixes s :: "'a redis_conns" and key val :: string and a :: 'a
  assumes "rd_ok s"
  defines "i \<equiv> rd_server s key"
  defines "q \<equiv> rd_put_queues s ! i @ [(key, val, a)]"
  shows "ri_async_put key val a s =
           (Inr (), if int (length q) \<ge> rd_batch_size s mod 2 ^ 64
                    then sent_on i (mset_of q) (s\<lparr>rd_put_queues := (rd_put_queues s)[i := []]\<rparr>)
                    else s\<lparr>rd_put_queues := (rd_put_queues s)[i := q]\<rparr>)"
proof -
  note i = rd_server_in [OF assms(1), of key, folded i_def]
  let ?t = "s\<lparr>rd_put_queues := (rd_put_queues s)[i := q]\<rparr>"
  have len: "i < length (rd_put_queues s)" using i(1) assms(1) by (simp add: rd_ok_def)
  have "rd_ok ?t" using assms(1) by (simp add: rd_ok_def)
  then have "flush_put_queue (int i) ?t = (Inr (), sent_on i (mset_of q) (s\<lparr>rd_put_queues := (rd_put_queues s)[i := []]\<rparr>))"
    using flush_put_queue_eq [of ?t i] i(1) len by simp
  then show ?thesis using len by (simp add: ri_async_put_def cpp_simps i(2)) (simp add: q_def)
qed

text \<open>Sending a queue moves requests from the queue to the connection.\<close>

lemma requests_sent_on:
  assumes "j < length (rd_clients s)"
  shows "gets_for (sent_on i cs s) j = concat (map call_gets (cl_sent (rd_clients s ! j))) @
           (if i = j then concat (map call_gets cs) else []) @ rd_get_queues s ! j"
    and "puts_for (sent_on i cs s) j = concat (map call_puts (cl_sent (rd_clients s ! j))) @
           (if i = j then concat (map call_puts cs) else []) @ rd_put_queues s ! j"
  using assms by (simp_all add: gets_for_def puts_for_def cl_sent_sent_on)

lemma rd_ok_sent_on [simp]: "rd_ok (sent_on i cs s) = rd_ok s"
  by (simp add: rd_ok_def)

text \<open>Commands are only appended, and every command has one payload for each key.\<close>

fun rd_wf :: "'a redis_call \<Rightarrow> bool" where
  "rd_wf (Mget ks as) = (length ks = length as)"
| "rd_wf (Mset kvs as) = (length kvs = length as)"
| "rd_wf _ = True"

definition grows :: "'a redis_conns \<Rightarrow> 'a redis_conns \<Rightarrow> bool" where
  "grows s t \<longleftrightarrow>
     (\<forall>j < length (rd_clients s). \<exists>cs. cl_sent (rd_clients t ! j) = cl_sent (rd_clients s ! j) @ cs \<and> list_all rd_wf cs)"

lemma grows_refl: "grows s s"
  by (simp add: grows_def)

lemma grows_trans:
  assumes "grows s t" "grows t u" "length (rd_clients t) = length (rd_clients s)"
  shows "grows s u"
  unfolding grows_def
proof (intro allI impI)
  fix j assume "j < length (rd_clients s)"
  with assms obtain cs ds where "cl_sent (rd_clients t ! j) = cl_sent (rd_clients s ! j) @ cs" "list_all rd_wf cs"
    "cl_sent (rd_clients u ! j) = cl_sent (rd_clients t ! j) @ ds" "list_all rd_wf ds"
    unfolding grows_def by metis
  then show "\<exists>cs. cl_sent (rd_clients u ! j) = cl_sent (rd_clients s ! j) @ cs \<and> list_all rd_wf cs"
    by (intro exI [of _ "cs @ ds"]) simp
qed

lemma grows_sent_on:
  "list_all rd_wf cs \<Longrightarrow> rd_clients t = rd_clients s \<Longrightarrow> grows s (sent_on i cs t)"
  by (auto simp: grows_def cl_sent_sent_on)

lemma rd_wf_queue [simp]: "list_all rd_wf (mget_of q)" "list_all rd_wf (mset_of p)"
  by (simp_all add: mget_of_def mset_of_def)

lemma grows_async:
  assumes "rd_ok s"
  shows "grows s (snd (ri_async_get key a s))" and "grows s (snd (ri_async_put key val a s))"
  unfolding ri_async_get_eq [OF assms] ri_async_put_eq [OF assms]
  by (auto intro!: grows_sent_on) (simp_all add: grows_def)

lemma ri_async_get_requests:
  assumes "rd_ok s" "ri_async_get key a s = (r, t)"
  shows "r = Inr ()" "rd_ok t" "length (rd_clients t) = length (rd_clients s)" "rd_batch_size t = rd_batch_size s"
    "rd_put_queues t = rd_put_queues s"
    "j < length (rd_clients s) \<Longrightarrow> gets_for t j = gets_for s j @ (if rd_server s key = j then [(key, a)] else [])"
    "j < length (rd_clients s) \<Longrightarrow> puts_for t j = puts_for s j"
proof -
  let ?i = "rd_server s key"
  let ?q = "rd_get_queues s ! ?i @ [(key, a)]"
  have i: "?i < length (rd_clients s)" "length (rd_get_queues s) = length (rd_clients s)"
    using rd_server_in [OF assms(1)] assms(1) by (simp_all add: rd_ok_def)
  have t: "r = Inr ()" "t = (if int (length ?q) \<ge> rd_batch_size s mod 2 ^ 64
      then sent_on ?i (mget_of ?q) (s\<lparr>rd_get_queues := (rd_get_queues s)[?i := []]\<rparr>)
      else s\<lparr>rd_get_queues := (rd_get_queues s)[?i := ?q]\<rparr>)"
    using assms(2) unfolding ri_async_get_eq [OF assms(1)] by (simp_all del: One_nat_def)
  show "r = Inr ()" by (rule t(1))
  show "rd_ok t" using assms(1) unfolding t(2) by (simp add: rd_ok_def)
  show "length (rd_clients t) = length (rd_clients s)" "rd_batch_size t = rd_batch_size s" "rd_put_queues t = rd_put_queues s"
    unfolding t(2) by simp_all
  assume j: "j < length (rd_clients s)"
  show "gets_for t j = gets_for s j @ (if ?i = j then [(key, a)] else [])"
    using i j unfolding t(2) by (auto simp: requests_sent_on nth_list_update) (auto simp: gets_for_def)
  show "puts_for t j = puts_for s j"
    using i j unfolding t(2) by (auto simp: requests_sent_on) (auto simp: puts_for_def)
qed

lemma ri_async_put_requests:
  assumes "rd_ok s" "ri_async_put key val a s = (r, t)"
  shows "r = Inr ()" "rd_ok t" "length (rd_clients t) = length (rd_clients s)" "rd_batch_size t = rd_batch_size s"
    "rd_get_queues t = rd_get_queues s"
    "j < length (rd_clients s) \<Longrightarrow> puts_for t j = puts_for s j @ (if rd_server s key = j then [(key, val, a)] else [])"
    "j < length (rd_clients s) \<Longrightarrow> gets_for t j = gets_for s j"
proof -
  let ?i = "rd_server s key"
  let ?q = "rd_put_queues s ! ?i @ [(key, val, a)]"
  have i: "?i < length (rd_clients s)" "length (rd_put_queues s) = length (rd_clients s)"
    using rd_server_in [OF assms(1)] assms(1) by (simp_all add: rd_ok_def)
  have t: "r = Inr ()" "t = (if int (length ?q) \<ge> rd_batch_size s mod 2 ^ 64
      then sent_on ?i (mset_of ?q) (s\<lparr>rd_put_queues := (rd_put_queues s)[?i := []]\<rparr>)
      else s\<lparr>rd_put_queues := (rd_put_queues s)[?i := ?q]\<rparr>)"
    using assms(2) unfolding ri_async_put_eq [OF assms(1)] by (simp_all del: One_nat_def)
  show "r = Inr ()" by (rule t(1))
  show "rd_ok t" using assms(1) unfolding t(2) by (simp add: rd_ok_def)
  show "length (rd_clients t) = length (rd_clients s)" "rd_batch_size t = rd_batch_size s" "rd_get_queues t = rd_get_queues s"
    unfolding t(2) by simp_all
  assume j: "j < length (rd_clients s)"
  show "puts_for t j = puts_for s j @ (if ?i = j then [(key, val, a)] else [])"
    using i j unfolding t(2) by (auto simp: requests_sent_on nth_list_update) (auto simp: puts_for_def)
  show "gets_for t j = gets_for s j"
    using i j unfolding t(2) by (auto simp: requests_sent_on) (auto simp: gets_for_def)
qed



text \<open>Two states with the same requests for every server.\<close>

definition same_requests :: "'a redis_conns \<Rightarrow> 'a redis_conns \<Rightarrow> bool" where
  "same_requests s t \<longleftrightarrow>
     rd_ok t \<and> length (rd_clients t) = length (rd_clients s) \<and> rd_batch_size t = rd_batch_size s \<and> grows s t \<and>
     (\<forall>j < length (rd_clients s). gets_for t j = gets_for s j \<and> puts_for t j = puts_for s j)"

lemma same_requests_refl: "rd_ok s \<Longrightarrow> same_requests s s"
  by (simp add: same_requests_def grows_refl)

lemma same_requests_trans: "same_requests s t \<Longrightarrow> same_requests t u \<Longrightarrow> same_requests s u"
  using grows_trans by (auto simp: same_requests_def)

lemma flush_get_queue_requests:
  assumes "rd_ok s" "i < length (rd_clients s)"
  shows "\<exists>t. flush_get_queue (int i) s = (Inr (), t) \<and> same_requests s t \<and> rd_put_queues t = rd_put_queues s \<and>
           rd_get_queues t = (rd_get_queues s)[i := []]"
  using assms flush_get_queue_eq [OF assms] grows_sent_on [OF rd_wf_queue(1), where t = "s\<lparr>rd_get_queues := _\<rparr>" and s = s]
  by (auto simp: same_requests_def cl_sent_sent_on nth_list_update rd_ok_def gets_for_def puts_for_def)

lemma flush_put_queue_requests:
  assumes "rd_ok s" "i < length (rd_clients s)"
  shows "\<exists>t. flush_put_queue (int i) s = (Inr (), t) \<and> same_requests s t \<and> rd_get_queues t = rd_get_queues s \<and>
           rd_put_queues t = (rd_put_queues s)[i := []]"
  using assms flush_put_queue_eq [OF assms] grows_sent_on [OF rd_wf_queue(2), where t = "s\<lparr>rd_put_queues := _\<rparr>" and s = s]
  by (auto simp: same_requests_def cl_sent_sent_on nth_list_update rd_ok_def gets_for_def puts_for_def)

lemma clear_prefix:
  assumes "n < length qs" "rs = replicate n [] @ drop n qs"
  shows "rs[n := []] = replicate (Suc n) [] @ drop (Suc n) qs"
proof -
  have "rs[n := []] = replicate n [] @ (drop n qs)[0 := []]" using assms by (simp add: list_update_append)
  also have "(drop n qs)[0 := []] = [] # drop (Suc n) qs" using assms(1) by (simp add: Cons_nth_drop_Suc [symmetric])
  finally show ?thesis by (simp add: replicate_append_same flip: append_Cons)
qed

lemma flush_loop:
  fixes body :: "nat \<Rightarrow> ('a redis_conns, unit) cpp" and queues :: "'a redis_conns \<Rightarrow> 'q list list"
  assumes step: "\<And>i s. rd_ok s \<Longrightarrow> i < length (rd_clients s) \<Longrightarrow>
      \<exists>t. body i s = (Inr (), t) \<and> same_requests s t \<and> other t = other s \<and> queues t = (queues s)[i := []]"
    and ok: "rd_ok s" and n: "n \<le> length (rd_clients s)" "length (queues s) = length (rd_clients s)"
  shows "\<exists>t. for_each [0..<n] body s = (Inr (), t) \<and> same_requests s t \<and> other t = other s \<and>
           queues t = replicate n [] @ drop n (queues s)"
  using n(1)
proof (induction n)
  case 0
  then show ?case using same_requests_refl [OF ok] by (simp add: ret_apply)
next
  case (Suc n)
  then obtain t where t: "for_each [0..<n] body s = (Inr (), t)" "same_requests s t" "other t = other s"
    "queues t = replicate n [] @ drop n (queues s)"
    by auto
  then have "rd_ok t" "n < length (rd_clients t)" using Suc.prems by (simp_all add: same_requests_def)
  then obtain u where u: "body n t = (Inr (), u)" "same_requests t u" "other u = other t" "queues u = (queues t)[n := []]"
    using step by blast
  have "for_each [0..<Suc n] body s = (Inr (), u)"
    using t(1) u(1) by (simp add: for_each_append for_each_Cons ret_apply del: for_each.simps(2))
  moreover have "queues u = replicate (Suc n) [] @ drop (Suc n) (queues s)"
    unfolding u(4) by (rule clear_prefix) (use Suc.prems n(2) t(4) in auto)
  ultimately show ?case using same_requests_trans [OF t(2) u(2)] u(3) t(3) by auto
qed

lemma ri_flush_requests:
  assumes "rd_ok s"
  shows "\<exists>t. ri_flush s = (Inr (), t) \<and> same_requests s t \<and>
           rd_get_queues t = replicate (length (rd_clients s)) [] \<and> rd_put_queues t = replicate (length (rd_clients s)) []"
proof -
  let ?n = "length (rd_clients s)"
  have len: "length (rd_get_queues s) = ?n" "length (rd_put_queues s) = ?n" using assms by (simp_all add: rd_ok_def)
  obtain t where t: "for_each [0..<?n] (\<lambda>i. flush_put_queue (int i)) s = (Inr (), t)" "same_requests s t"
    "rd_get_queues t = rd_get_queues s" "rd_put_queues t = replicate ?n [] @ drop ?n (rd_put_queues s)"
    using flush_loop [of "\<lambda>i. flush_put_queue (int i)" rd_get_queues rd_put_queues s ?n]
      flush_put_queue_requests assms len by auto
  have ok: "rd_ok t" "length (rd_clients t) = ?n" using t(2) by (simp_all add: same_requests_def)
  obtain u where u: "for_each [0..<?n] (\<lambda>i. flush_get_queue (int i)) t = (Inr (), u)" "same_requests t u"
    "rd_put_queues u = rd_put_queues t" "rd_get_queues u = replicate ?n [] @ drop ?n (rd_get_queues t)"
    using flush_loop [of "\<lambda>i. flush_get_queue (int i)" rd_put_queues rd_get_queues t ?n]
      flush_get_queue_requests ok len t(3) by auto
  have "ri_flush s = (Inr (), u)"
    using t u len by (simp add: ri_flush_def seqM_apply bnd_apply gets_apply)
  then show ?thesis using same_requests_trans [OF t(2) u(2)] u t len by auto
qed

section \<open>Properties\<close>

text \<open>A client program: reads (\<open>Inl\<close>) and writes (\<open>Inr\<close>) handed to the interface one after the other.\<close>

definition rd_request :: "(string \<times> 'a) + (string \<times> string \<times> 'a) \<Rightarrow> ('a redis_conns, unit) cpp" where
  "rd_request r = (case r of Inl (k, a) \<Rightarrow> ri_async_get k a | Inr (k, v, a) \<Rightarrow> ri_async_put k v a)"

definition reads_at :: "'a redis_conns \<Rightarrow> nat \<Rightarrow> ((string \<times> 'a) + (string \<times> string \<times> 'a)) list \<Rightarrow> (string \<times> 'a) list" where
  "reads_at s i rs = filter (\<lambda>(k, a). rd_server s k = i) (List.map_filter (case_sum Some (\<lambda>_. None)) rs)"

definition writes_at ::
  "'a redis_conns \<Rightarrow> nat \<Rightarrow> ((string \<times> 'a) + (string \<times> string \<times> 'a)) list \<Rightarrow> (string \<times> string \<times> 'a) list" where
  "writes_at s i rs = filter (\<lambda>(k, v, a). rd_server s k = i) (List.map_filter (case_sum (\<lambda>_. None) Some) rs)"

lemma reads_writes_Cons:
  "reads_at s i (r # rs) = reads_at s i [r] @ reads_at s i rs"
  "writes_at s i (r # rs) = writes_at s i [r] @ writes_at s i rs"
  by (cases r; simp add: reads_at_def writes_at_def List.map_filter_simps split: prod.splits)+

lemma rd_request_step:
  assumes "rd_ok s"
  shows "\<exists>t. rd_request r s = (Inr (), t) \<and> rd_ok t \<and> length (rd_clients t) = length (rd_clients s) \<and>
           rd_batch_size t = rd_batch_size s \<and>
           (\<forall>i < length (rd_clients s). gets_for t i = gets_for s i @ reads_at s i [r] \<and>
              puts_for t i = puts_for s i @ writes_at s i [r])"
proof (cases r)
  case (Inl p)
  obtain k a where p: "p = (k, a)" by (cases p)
  obtain o' t where t: "ri_async_get k a s = (o', t)" by fastforce
  from ri_async_get_requests [OF assms t] t show ?thesis
    by (auto simp: Inl p rd_request_def reads_at_def writes_at_def List.map_filter_simps)
next
  case (Inr p)
  obtain k v a where p: "p = (k, v, a)" by (cases p)
  obtain o' t where t: "ri_async_put k v a s = (o', t)" by fastforce
  from ri_async_put_requests [OF assms t] t show ?thesis
    by (auto simp: Inr p rd_request_def reads_at_def writes_at_def List.map_filter_simps)
qed

lemma rd_requests:
  assumes "rd_ok s"
  shows "\<exists>t. for_each rs rd_request s = (Inr (), t) \<and> rd_ok t \<and> length (rd_clients t) = length (rd_clients s) \<and>
           rd_batch_size t = rd_batch_size s \<and>
           (\<forall>i < length (rd_clients s). gets_for t i = gets_for s i @ reads_at s i rs \<and>
              puts_for t i = puts_for s i @ writes_at s i rs)"
  using assms
proof (induction rs arbitrary: s)
  case Nil
  then show ?case by (simp add: ret_apply reads_at_def writes_at_def)
next
  case (Cons r rs)
  obtain t where t: "rd_request r s = (Inr (), t)" "rd_ok t" "length (rd_clients t) = length (rd_clients s)"
    "rd_batch_size t = rd_batch_size s"
    "\<forall>i < length (rd_clients s). gets_for t i = gets_for s i @ reads_at s i [r] \<and> puts_for t i = puts_for s i @ writes_at s i [r]"
    using rd_request_step [OF Cons.prems, of r] by blast
  have same: "reads_at t = reads_at s" "writes_at t = writes_at s"
    using t(3) by (simp_all add: reads_at_def writes_at_def rd_server_def fun_eq_iff)
  obtain u where u: "for_each rs rd_request t = (Inr (), u)" "rd_ok u" "length (rd_clients u) = length (rd_clients t)"
    "rd_batch_size u = rd_batch_size t"
    "\<forall>i < length (rd_clients t). gets_for u i = gets_for t i @ reads_at t i rs \<and> puts_for u i = puts_for t i @ writes_at t i rs"
    using Cons.IH [OF t(2)] by blast
  have "for_each (r # rs) rd_request s = (Inr (), u)" using t(1) u(1) by (simp add: for_each_Cons del: for_each.simps)
  then show ?case using t(3-5) u(2-5) same by (simp add: reads_writes_Cons [of _ _ r rs])
qed

text \<open>Between requests no queue holds a full batch; the batch size is compared as an unsigned number.\<close>

definition rd_waits :: "'a redis_conns \<Rightarrow> bool" where
  "rd_waits s \<longleftrightarrow>
     (\<forall>q \<in> set (rd_get_queues s). q = [] \<or> int (length q) < rd_batch_size s mod 2 ^ 64) \<and>
     (\<forall>q \<in> set (rd_put_queues s). q = [] \<or> int (length q) < rd_batch_size s mod 2 ^ 64)"

lemma rd_waits_update:
  assumes "rd_waits s" "q = [] \<or> int (length q) < rd_batch_size s mod 2 ^ 64" "p = [] \<or> int (length p) < rd_batch_size s mod 2 ^ 64"
  shows "rd_waits (s\<lparr>rd_get_queues := (rd_get_queues s)[i := q]\<rparr>)" and "rd_waits (s\<lparr>rd_put_queues := (rd_put_queues s)[i := p]\<rparr>)"
  using assms set_update_subset_insert [of "rd_get_queues s" i q] set_update_subset_insert [of "rd_put_queues s" i p]
  unfolding rd_waits_def by auto

lemma rd_waits_sent_on [simp]: "rd_waits (sent_on i cs s) = rd_waits s"
  by (simp add: rd_waits_def)

lemma keeps_waits:
  "keeps (\<lambda>s. rd_ok s \<and> rd_waits s) (ri_async_get k a)" "keeps (\<lambda>s. rd_ok s \<and> rd_waits s) (ri_async_put k v a)"
proof -
  have "rd_ok (snd (ri_async_get k a s)) \<and> rd_waits (snd (ri_async_get k a s))" if "rd_ok s \<and> rd_waits s" for s
    using that ri_async_get_requests(2) [of s k a] by (auto simp: ri_async_get_eq intro: rd_waits_update)
  then show "keeps (\<lambda>s. rd_ok s \<and> rd_waits s) (ri_async_get k a)" by (auto intro!: keepsI)
  have "rd_ok (snd (ri_async_put k v a s)) \<and> rd_waits (snd (ri_async_put k v a s))" if "rd_ok s \<and> rd_waits s" for s
    using that ri_async_put_requests(2) [of s k v a] by (auto simp: ri_async_put_eq intro: rd_waits_update)
  then show "keeps (\<lambda>s. rd_ok s \<and> rd_waits s) (ri_async_put k v a)" by (auto intro!: keepsI)
qed

lemma rd_requests_wait:
  assumes "rd_ok s" "rd_waits s" "for_each rs rd_request s = (r, t)"
  shows "rd_waits t"
proof -
  have "keeps (\<lambda>s. rd_ok s \<and> rd_waits s) (rd_request x)" for x
    unfolding rd_request_def by (cases x) (auto intro: keeps_waits)
  then have "keeps (\<lambda>s. rd_ok s \<and> rd_waits s) (for_each rs rd_request)" by (intro keeps_for_each)
  with assms show ?thesis using keepsD by fastforce
qed

lemma ri_flush_sends:
  assumes "rd_ok s"
  obtains t where "ri_flush s = (Inr (), t)" "length (rd_clients t) = length (rd_clients s)"
    "\<forall>i < length (rd_clients s). sent_gets t i = gets_for s i \<and> sent_puts t i = puts_for s i"
    "concat (rd_get_queues t) = []" "concat (rd_put_queues t) = []"
proof -
  obtain t where t: "ri_flush s = (Inr (), t)" "same_requests s t"
    "rd_get_queues t = replicate (length (rd_clients s)) []" "rd_put_queues t = replicate (length (rd_clients s)) []"
    using ri_flush_requests [OF assms] by blast
  have "gets_for t i = sent_gets t i" "puts_for t i = sent_puts t i" if "i < length (rd_clients s)" for i
    using that t(3,4) by (simp_all add: gets_for_def puts_for_def)
  with t(2) have "\<forall>i < length (rd_clients s). sent_gets t i = gets_for s i \<and> sent_puts t i = puts_for s i"
    by (simp add: same_requests_def)
  with t show thesis by (intro that [of t]) (simp_all add: same_requests_def)
qed

text \<open>
  C25. Batching of storage requests loses nothing: for every sequence of reads and writes, whatever the batch size, no request fails. After the
  requests every server has been sent a prefix of the reads, and of the writes, of the keys that hash to it, in the order of the calls
  and with their payloads, and what is missing, less than a batch, waits in its queue; it stays there until further requests fill the batch or
  somebody flushes the interface. A flush then sends exactly the rest: every server has got each of its requests once, in order, and no queue holds anything.
\<close>

theorem storage_requests_complete:
  assumes "rd_ok s" "rd_waits s"
  shows "\<exists>t u. for_each rs rd_request s = (Inr (), t) \<and> ri_flush t = (Inr (), u) \<and>
     (\<forall>i < length (rd_clients s).
        sent_gets t i @ rd_get_queues t ! i = gets_for s i @ reads_at s i rs \<and>
        sent_puts t i @ rd_put_queues t ! i = puts_for s i @ writes_at s i rs \<and>
        (rd_get_queues t ! i = [] \<or> int (length (rd_get_queues t ! i)) < rd_batch_size s mod 2 ^ 64) \<and>
        (rd_put_queues t ! i = [] \<or> int (length (rd_put_queues t ! i)) < rd_batch_size s mod 2 ^ 64) \<and>
        sent_gets u i = gets_for s i @ reads_at s i rs \<and> sent_puts u i = puts_for s i @ writes_at s i rs) \<and>
     concat (rd_get_queues u) = [] \<and> concat (rd_put_queues u) = []"
proof -
  obtain t where t: "for_each rs rd_request s = (Inr (), t)" "rd_ok t" "length (rd_clients t) = length (rd_clients s)"
    "rd_batch_size t = rd_batch_size s"
    "\<forall>i < length (rd_clients s). gets_for t i = gets_for s i @ reads_at s i rs \<and> puts_for t i = puts_for s i @ writes_at s i rs"
    using rd_requests [OF assms(1), of rs] by blast
  have "rd_waits t" by (rule rd_requests_wait [OF assms t(1)])
  then have w: "rd_get_queues t ! i = [] \<or> int (length (rd_get_queues t ! i)) < rd_batch_size s mod 2 ^ 64"
    "rd_put_queues t ! i = [] \<or> int (length (rd_put_queues t ! i)) < rd_batch_size s mod 2 ^ 64" if "i < length (rd_clients s)" for i
    using that t(2-4) by (simp_all add: rd_waits_def rd_ok_def)
  obtain u where "ri_flush t = (Inr (), u)"
    "\<forall>i < length (rd_clients t). sent_gets u i = gets_for t i \<and> sent_puts u i = puts_for t i"
    "concat (rd_get_queues u) = []" "concat (rd_put_queues u) = []"
    by (rule ri_flush_sends [OF t(2)])
  with t w show ?thesis
    by (intro exI [of _ t] exI [of _ u]) (simp flip: gets_for_def puts_for_def)
qed

definition example_redis :: "'a redis_conns" where
  "example_redis =
     \<lparr>rd_batch_size = 2, rd_clients = [\<lparr>cl_host = ''kv'', cl_port = 6379, cl_sent = []\<rparr>],
      rd_get_queues = [[]], rd_put_queues = [[]]\<rparr>"

lemma example_redis_ok: "rd_ok example_redis"
  by (simp add: example_redis_def rd_ok_def)

lemma rd_server_single: "length (rd_clients s) = 1 \<Longrightarrow> rd_ok s \<Longrightarrow> rd_server s k = 0"
  using rd_server_in(1) [of s k] by simp

theorem storage_requests_complete_witness:
  "\<exists>t u. for_each [Inl (''x'', 1 :: nat), Inr (''y'', ''v'', 2), Inl (''y'', 3), Inl (''x'', 4)] rd_request example_redis = (Inr (), t) \<and>
     ri_flush t = (Inr (), u) \<and> length (rd_get_queues t ! 0) < 2 \<and> sent_gets t 0 @ rd_get_queues t ! 0 = [(''x'', 1), (''y'', 3), (''x'', 4)] \<and>
     sent_gets u 0 = [(''x'', 1), (''y'', 3), (''x'', 4)] \<and> sent_puts u 0 = [(''y'', ''v'', 2)]"
proof -
  let ?rs = "[Inl (''x'', 1 :: nat), Inr (''y'', ''v'', 2), Inl (''y'', 3), Inl (''x'', 4)]" and ?s = "example_redis :: nat redis_conns"
  have one: "rd_server ?s k = 0" for k
    by (rule rd_server_single) (simp_all add: example_redis_ok, simp add: example_redis_def)
  have all: "gets_for ?s 0 @ reads_at ?s 0 ?rs = [(''x'', 1), (''y'', 3), (''x'', 4)]" "puts_for ?s 0 @ writes_at ?s 0 ?rs = [(''y'', ''v'', 2)]"
    by (simp_all add: reads_at_def writes_at_def one List.map_filter_simps) (simp_all add: gets_for_def puts_for_def example_redis_def)
  have s: "rd_waits ?s" "length (rd_clients ?s) = 1" "rd_batch_size ?s = 2" by (simp_all add: example_redis_def rd_waits_def)
  from storage_requests_complete [OF example_redis_ok s(1), of ?rs, unfolded s(2,3)] all show ?thesis
    by fastforce
qed

end
