(* ===== verification/Encryption_Engine.thy ===== *)
theory Encryption_Engine
  imports Prelude
begin

text \<open>
  proxy/src/encryption_engine.h and encryption_engine.cpp. OpenSSL is a parameter, the record \<open>openssl\<close>: what each
  of its calls returns. A member that can fail is a truth value or an option, \<open>'k\<close> is the type of the
  keys behind \<^verbatim>\<open>EVP_PKEY *\<close>, and byte buffers are strings. \<open>ndebug\<close> says whether assertions are compiled out; a failing
  assertion and \<^verbatim>\<open>abort()\<close> end the process.

  The lemmas show that what an engine or a copy of it encrypts is decrypted to the same text, that this holds exactly
  for texts that fit the scratch buffer, and that the signature check compares only a prefix.
\<close>

section \<open>OpenSSL\<close>

record 'k openssl =
  ndebug :: bool
  md_ctx_create :: bool
  digest_by_name :: bool
  digest_init :: bool
  sign_init :: bool
  sign_update :: bool
  sign_size :: "'k \<Rightarrow> string \<Rightarrow> nat option"
  sign_final :: "'k \<Rightarrow> string \<Rightarrow> string option"
  ossl_malloc :: bool
  md_size :: nat
  rand_bytes :: "nat \<Rightarrow> string option"
  new_mac_key :: "string \<Rightarrow> 'k option"
  cipher_ctx_new :: bool
  cipher_init :: bool
  encrypt_update :: "string \<Rightarrow> string \<Rightarrow> string \<Rightarrow> string option"
  encrypt_final :: "string \<Rightarrow> string \<Rightarrow> string \<Rightarrow> string option"
  decrypt_update :: "string \<Rightarrow> string \<Rightarrow> string \<Rightarrow> string option"
  decrypt_final :: "string \<Rightarrow> string \<Rightarrow> string \<Rightarrow> string option"

definition EVP_MAX_MD_SIZE :: nat where
  "EVP_MAX_MD_SIZE = 64"

definition SCRATCH_SIZE :: nat where
  "SCRATCH_SIZE = 1024 * 1024"

text \<open>\<^verbatim>\<open>assert(ok); if (!ok) break;\<close>, with the value \<open>brk\<close> after the loop.\<close>

definition assert_or_break :: "'k openssl \<Rightarrow> bool \<Rightarrow> 'a outcome \<Rightarrow> 'a outcome \<Rightarrow> 'a outcome" where
  "assert_or_break os ok brk k = (if ok then k else if ndebug os then brk else Inl Process_exit)"

lemma assert_or_break_Inr:
  "assert_or_break os ok brk k = Inr x \<longleftrightarrow> ok \<and> k = Inr x \<or> \<not> ok \<and> ndebug os \<and> brk = Inr x"
  by (simp add: assert_or_break_def)

section \<open>Signatures\<close>

text \<open>
  The bytes behind \<^verbatim>\<open>*sig\<close> are returned with the result code: \<open>Some []\<close> is the null pointer with length 0, and \<open>None\<close> is a
  buffer without defined contents; the early return leaves both variables of the caller as they were.
  The mismatch of the two sizes is asserted, but the test behind the assertion reads \<^verbatim>\<open>rc\<close> again.
\<close>

definition sign_it :: "'k openssl \<Rightarrow> string option \<Rightarrow> bool \<Rightarrow> 'k option \<Rightarrow> (int \<times> string option) outcome" where
  "sign_it os msg sig pkey =
     (case (msg, pkey) of
        (Some (c # cs), Some k) \<Rightarrow>
          (if \<not> sig then (if ndebug os then Inr (- 1, None) else Inl Process_exit) else
           (let m = c # cs; failed = Inr (1, Some []) in
            assert_or_break os (md_ctx_create os) failed
              (assert_or_break os (digest_by_name os) failed
                (assert_or_break os (digest_init os) failed
                  (assert_or_break os (sign_init os) failed
                    (assert_or_break os (sign_update os) failed
                      (assert_or_break os (sign_size os k m \<noteq> None) failed
                        (assert_or_break os (the (sign_size os k m) > 0) failed
                          (assert_or_break os (ossl_malloc os) failed
                            (assert_or_break os (sign_final os k m \<noteq> None) (Inr (1, None))
                              (if \<not> ndebug os \<and> length (the (sign_final os k m)) \<noteq> the (sign_size os k m)
                               then Inl Process_exit
                               else Inr (0, sign_final os k m))))))))))))
      | _ \<Rightarrow> if ndebug os then Inr (- 1, None) else Inl Process_exit)"

definition hmac_it :: "'k openssl \<Rightarrow> string option \<Rightarrow> bool \<Rightarrow> 'k option \<Rightarrow> (int \<times> string option) outcome" where
  "hmac_it os msg val pkey =
     (case (msg, pkey) of
        (Some (c # cs), Some k) \<Rightarrow>
          (if \<not> val then (if ndebug os then Inr (- 1, None) else Inl Process_exit) else
           (let m = c # cs; failed = Inr (1, Some []) in
            assert_or_break os (md_ctx_create os) failed
              (assert_or_break os (digest_by_name os) failed
                (assert_or_break os (digest_init os) failed
                  (assert_or_break os (sign_init os) failed
                    (assert_or_break os (sign_update os) failed
                      (assert_or_break os (sign_size os k m \<noteq> None) failed
                        (assert_or_break os (the (sign_size os k m) > 0) failed
                          (assert_or_break os (ossl_malloc os) failed
                            (assert_or_break os (sign_final os k m \<noteq> None) (Inr (1, None))
                              (assert_or_break os (length (the (sign_final os k m)) = the (sign_size os k m))
                                (Inr (1, sign_final os k m))
                                (Inr (0, sign_final os k m)))))))))))))
      | _ \<Rightarrow> if ndebug os then Inr (- 1, None) else Inl Process_exit)"

text \<open>The result is 0 if the first bytes agree: as many as the shorter of the two buffers has.\<close>

definition verify_it :: "'k openssl \<Rightarrow> string option \<Rightarrow> string option \<Rightarrow> 'k option \<Rightarrow> int outcome" where
  "verify_it os msg sig pkey =
     (case (msg, sig, pkey) of
        (Some (c # cs), Some (d # ds), Some k) \<Rightarrow>
          (let m = c # cs; s = d # ds; failed = Inr 1 in
            assert_or_break os (md_ctx_create os) failed
              (assert_or_break os (digest_by_name os) failed
                (assert_or_break os (digest_init os) failed
                  (assert_or_break os (sign_init os) failed
                    (assert_or_break os (sign_update os) failed
                      (assert_or_break os (sign_final os k m \<noteq> None) failed
                        (let buff = the (sign_final os k m) in
                         assert_or_break os (length buff > 0) failed
                           (let n = (if length s < length buff then length s else length buff) in
                            Inr (if take n s = take n buff then 0 else 1)))))))))
      | _ \<Rightarrow> if ndebug os then Inr (- 1) else Inl Process_exit)"

text \<open>\<^verbatim>\<open>print_it\<close>: the line written for a buffer, two hexadecimal digits for each byte.\<close>

definition hex_digit :: "nat \<Rightarrow> char" where
  "hex_digit n = ''0123456789ABCDEF'' ! n"

definition print_it :: "string option \<Rightarrow> string \<Rightarrow> string" where
  "print_it label buff =
     (if buff = [] then []
      else (case label of None \<Rightarrow> [] | Some l \<Rightarrow> l @ '': '') @
           concat (map (\<lambda>c. [hex_digit (of_char c div 16), hex_digit (of_char c mod 16)]) buff) @ [CHR 0x0A])"

section \<open>Keys and engines\<close>

text \<open>\<^verbatim>\<open>make_keys\<close>: the signing and the verification key are made from the same random bytes.\<close>

definition make_keys :: "'k openssl \<Rightarrow> (int \<times> 'k option \<times> 'k option) outcome" where
  "make_keys os =
     (let failed = Inr (1, None, None) in
      assert_or_break os (digest_by_name os) failed
        (assert_or_break os (md_size os \<ge> 16) failed
          (assert_or_break os (md_size os \<le> EVP_MAX_MD_SIZE) failed
            (assert_or_break os (rand_bytes os (md_size os) \<noteq> None) failed
              (let key = new_mac_key os (the (rand_bytes os (md_size os))) in
               assert_or_break os (key \<noteq> None) failed
                 (Inr (0, key, key)))))))"

record 'k encryption_engine =
  encryption_string :: string
  iv_string :: string
  encryption_key :: string
  enc_iv :: string
  skey :: "'k option"
  vkey :: "'k option"

definition with_keys :: "'k openssl \<Rightarrow> 'k encryption_engine \<Rightarrow> 'k encryption_engine outcome" where
  "with_keys os e =
     bind_out (make_keys os) (\<lambda>(rc, s, v).
       if rc \<noteq> 0 then Inl Process_exit
       else if s = None \<or> v = None then Inl Process_exit
       else Inr (e\<lparr>skey := s, vkey := v\<rparr>))"

definition encryption_engine_new :: "'k openssl \<Rightarrow> 'k encryption_engine outcome" where
  "encryption_engine_new os =
     with_keys os
       \<lparr>encryption_string = ''95778965627559212005501173333841'', iv_string = ''5063160917463462'',
        encryption_key = ''95778965627559212005501173333841'', enc_iv = ''5063160917463462'', skey = None, vkey = None\<rparr>"

text \<open>
  The copy constructor points the key and the IV into the strings of the engine it copies, and leaves its own strings
  empty. Keys for signatures are made anew.
\<close>

definition encryption_engine_copy :: "'k openssl \<Rightarrow> 'k encryption_engine \<Rightarrow> 'k encryption_engine outcome" where
  "encryption_engine_copy os e =
     with_keys os
       \<lparr>encryption_string = [], iv_string = [], encryption_key = encryption_string e, enc_iv = iv_string e,
        skey = None, vkey = None\<rparr>"

section \<open>Encryption\<close>

text \<open>
  AES-256 reads 32 bytes of key and 16 bytes of IV behind the pointers. The text and its length, an \<^verbatim>\<open>int\<close>, are one string here.
  The output buffer is given with its
  size; writing more is undefined behaviour. An OpenSSL error ends in \<^verbatim>\<open>handle_errors\<close>, which aborts.

  \<^verbatim>\<open>encrypt(const std::string &)\<close> converts the length, a \<^verbatim>\<open>size_t\<close>, to \<^verbatim>\<open>int\<close>. C++14 leaves the value to the implementation if it does not fit,
  and what follows depends on it: a negative length is handed to OpenSSL, or only a part of the text is
  encrypted. The model does not follow the code there; the outcome is an error of its own.
\<close>

definition handle_errors :: "'a outcome" where
  "handle_errors = Inl Process_exit"

definition encrypt_buf :: "'k openssl \<Rightarrow> string \<Rightarrow> string \<Rightarrow> string \<Rightarrow> nat \<Rightarrow> string outcome" where
  "encrypt_buf os plaintext key iv bufsize =
     (if \<not> cipher_ctx_new os then handle_errors
      else if length key < 32 \<or> length iv < 16 then Inl (Undefined_behaviour ''read past the end of a buffer'')
      else if \<not> cipher_init os then handle_errors
      else case encrypt_update os key iv plaintext of
             None \<Rightarrow> handle_errors
           | Some part \<Rightarrow>
               (if length part > bufsize then Inl (Undefined_behaviour ''write past the end of a buffer'')
                else case encrypt_final os key iv plaintext of
                       None \<Rightarrow> handle_errors
                     | Some rest \<Rightarrow>
                         (if length (part @ rest) > bufsize then Inl (Undefined_behaviour ''write past the end of a buffer'')
                          else Inr (part @ rest))))"

definition decrypt_buf :: "'k openssl \<Rightarrow> string \<Rightarrow> string \<Rightarrow> string \<Rightarrow> nat \<Rightarrow> string outcome" where
  "decrypt_buf os ciphertext key iv bufsize =
     (if \<not> cipher_ctx_new os then handle_errors
      else if length key < 32 \<or> length iv < 16 then Inl (Undefined_behaviour ''read past the end of a buffer'')
      else if \<not> cipher_init os then handle_errors
      else case decrypt_update os key iv ciphertext of
             None \<Rightarrow> handle_errors
           | Some part \<Rightarrow>
               (if length part > bufsize then Inl (Undefined_behaviour ''write past the end of a buffer'')
                else case decrypt_final os key iv ciphertext of
                       None \<Rightarrow> handle_errors
                     | Some rest \<Rightarrow>
                         (if length (part @ rest) > bufsize then Inl (Undefined_behaviour ''write past the end of a buffer'')
                          else Inr (part @ rest))))"

definition int_length :: "string \<Rightarrow> unit outcome" where
  "int_length text = (if length text < 2 ^ 31 then Inr () else Inl (Undefined_behaviour ''length does not fit an int''))"

definition ee_encrypt :: "'k openssl \<Rightarrow> 'k encryption_engine \<Rightarrow> string \<Rightarrow> string outcome" where
  "ee_encrypt os e plain_text =
     bind_out (int_length plain_text) (\<lambda>_.
     bind_out (encrypt_buf os plain_text (encryption_key e) (enc_iv e) SCRATCH_SIZE) (\<lambda>c.
       if \<not> ndebug os \<and> c = [] then Inl Process_exit else Inr c))"

definition ee_decrypt :: "'k openssl \<Rightarrow> 'k encryption_engine \<Rightarrow> string \<Rightarrow> string outcome" where
  "ee_decrypt os e cipher_text =
     bind_out (int_length cipher_text) (\<lambda>_.
     bind_out (decrypt_buf os cipher_text (encryption_key e) (enc_iv e) SCRATCH_SIZE) (\<lambda>p.
       if \<not> ndebug os \<and> p = [] then Inl Process_exit else Inr p))"

definition ee_hmac :: "'k openssl \<Rightarrow> 'k encryption_engine \<Rightarrow> string \<Rightarrow> string outcome" where
  "ee_hmac os e key =
     bind_out (hmac_it os (Some key) True (skey e)) (\<lambda>(rc, val).
       if rc = - 1 then Inl (Logic_error ''basic_string: construction from null'')
       else case val of None \<Rightarrow> Inl (Undefined_behaviour ''uninitialised buffer'') | Some v \<Rightarrow> Inr v)"


section \<open>Documented behaviour of the library\<close>

text \<open>
  AES-256 in CBC mode with PKCS padding: decrypting what was encrypted under the same key and IV gives the text,
  the cipher text is the text padded to the next multiple of 16, and \<^verbatim>\<open>EVP_EncryptUpdate\<close> and
  \<^verbatim>\<open>EVP_DecryptUpdate\<close> return a part of the result. \<open>aes_law\<close> is about one message.
\<close>

definition aes_law :: "'k openssl \<Rightarrow> string \<Rightarrow> string \<Rightarrow> string \<Rightarrow> bool" where
  "aes_law os key iv p \<longleftrightarrow>
     cipher_ctx_new os \<and> cipher_init os \<and>
     (case (encrypt_update os key iv p, encrypt_final os key iv p) of
        (Some a, Some b) \<Rightarrow>
          length (a @ b) = 16 * (length p div 16 + 1) \<and>
          (case (decrypt_update os key iv (a @ b), decrypt_final os key iv (a @ b)) of
             (Some c, Some d) \<Rightarrow> c @ d = p
           | _ \<Rightarrow> False)
      | _ \<Rightarrow> False)"

definition engine_ready :: "'k encryption_engine \<Rightarrow> bool" where
  "engine_ready e \<longleftrightarrow> 32 \<le> length (encryption_key e) \<and> 16 \<le> length (enc_iv e)"

lemma aes_lawE:
  assumes "aes_law os key iv p"
  obtains a b c d where "cipher_ctx_new os" "cipher_init os" "encrypt_update os key iv p = Some a"
    "encrypt_final os key iv p = Some b" "length (a @ b) = 16 * (length p div 16 + 1)"
    "decrypt_update os key iv (a @ b) = Some c" "decrypt_final os key iv (a @ b) = Some d" "c @ d = p"
  using assms unfolding aes_law_def by (auto split: option.splits)

lemma with_keys_engine:
  "with_keys os e = Inr e' \<Longrightarrow> encryption_key e' = encryption_key e \<and> enc_iv e' = enc_iv e \<and>
     encryption_string e' = encryption_string e \<and> iv_string e' = iv_string e"
  by (auto simp: with_keys_def bind_out_eq_Inr split: if_splits)

lemma copy_of_new:
  assumes "encryption_engine_new os = Inr e" "encryption_engine_copy os e = Inr e'"
  shows "encryption_key e' = encryption_key e" "enc_iv e' = enc_iv e" "engine_ready e" "engine_ready e'"
proof -
  note n = with_keys_engine [OF assms(1) [unfolded encryption_engine_new_def]]
    and c = with_keys_engine [OF assms(2) [unfolded encryption_engine_copy_def]]
  show "encryption_key e' = encryption_key e" "enc_iv e' = enc_iv e" "engine_ready e" "engine_ready e'"
    using n c by (simp_all add: engine_ready_def)
qed

text \<open>Padding fits the buffer exactly for texts shorter than it.\<close>

lemma padded_fits: "16 * (n div 16 + 1) \<le> SCRATCH_SIZE \<longleftrightarrow> n < SCRATCH_SIZE"
  by (auto simp: SCRATCH_SIZE_def)

lemma int_length_fits: "length text \<le> SCRATCH_SIZE \<Longrightarrow> int_length text = Inr ()"
  by (simp add: int_length_def SCRATCH_SIZE_def)

lemma ee_encrypt_eq:
  assumes "aes_law os (encryption_key e) (enc_iv e) p" "engine_ready e" "length p < SCRATCH_SIZE"
    "encrypt_update os (encryption_key e) (enc_iv e) p = Some a" "encrypt_final os (encryption_key e) (enc_iv e) p = Some b"
  shows "ee_encrypt os e p = Inr (a @ b)"
proof -
  have len: "length (a @ b) = 16 * (length p div 16 + 1)" and c: "cipher_ctx_new os" "cipher_init os"
    using aes_lawE [OF assms(1)] assms(4,5) by (metis option.inject)+
  then have "length (a @ b) \<le> SCRATCH_SIZE" using padded_fits [of "length p"] assms(3) by simp
  moreover have "a @ b \<noteq> []" using len by (auto simp del: length_append)
  ultimately show ?thesis
    using assms(2-5) c by (auto simp: ee_encrypt_def int_length_fits encrypt_buf_def engine_ready_def)
qed

lemma ee_inverse:
  assumes law: "aes_law os key iv p" and p: "p \<noteq> []" "length p < SCRATCH_SIZE"
  shows "\<exists>c. \<forall>g. encryption_key g = key \<and> enc_iv g = iv \<and> engine_ready g \<longrightarrow>
           ee_encrypt os g p = Inr c \<and> ee_decrypt os g c = Inr p"
proof -
  obtain a b c d where l: "cipher_ctx_new os" "cipher_init os" "encrypt_update os key iv p = Some a"
    "encrypt_final os key iv p = Some b" "length (a @ b) = 16 * (length p div 16 + 1)"
    "decrypt_update os key iv (a @ b) = Some c" "decrypt_final os key iv (a @ b) = Some d" "c @ d = p"
    using aes_lawE [OF law] .
  have "length c + length d < SCRATCH_SIZE" using l(8) p(2) by auto
  moreover have "int_length (a @ b) = Inr ()" using l(5) padded_fits [of "length p"] p(2) by (intro int_length_fits) simp
  ultimately have "ee_decrypt os g (a @ b) = Inr p" if "encryption_key g = key" "enc_iv g = iv" "engine_ready g" for g
    using that l p(1) by (auto simp: ee_decrypt_def decrypt_buf_def engine_ready_def)
  moreover have "ee_encrypt os g p = Inr (a @ b)" if "encryption_key g = key" "enc_iv g = iv" "engine_ready g" for g
    using ee_encrypt_eq [of os g p a b] that law p(2) l(3,4) by simp
  ultimately show ?thesis by blast
qed

section \<open>Properties\<close>

text \<open>
  C29. Encryption and decryption are inverse to each other across the engines of a proxy: for every non-empty text that is shorter than the
  scratch buffer, the engine and every copy of it (the one a crypto thread owns) succeed in encrypting it, and
  both decrypt the cipher text to the text.
\<close>

theorem encryption_roundtrip:
  assumes "encryption_engine_new os = Inr e" "encryption_engine_copy os e = Inr e'"
    and "aes_law os (encryption_key e) (enc_iv e) p" "p \<noteq> []" "length p < SCRATCH_SIZE"
  shows "\<exists>c. ee_encrypt os e p = Inr c \<and> ee_encrypt os e' p = Inr c \<and>
           ee_decrypt os e c = Inr p \<and> ee_decrypt os e' c = Inr p"
  using ee_inverse [OF assms(3-5)] copy_of_new [OF assms(1,2)] by metis

text \<open>A library for examples: PKCS padding without a cipher, and the key followed by the message as the signature.\<close>

definition example_openssl :: "string openssl" where
  "example_openssl =
     \<lparr>ndebug = False, md_ctx_create = True, digest_by_name = True, digest_init = True, sign_init = True, sign_update = True,
      sign_size = \<lambda>k m. Some (length (k @ m)), sign_final = \<lambda>k m. Some (k @ m), ossl_malloc = True, md_size = 32,
      rand_bytes = \<lambda>n. Some (replicate n (CHR ''r'')), new_mac_key = \<lambda>b. Some b, cipher_ctx_new = True, cipher_init = True,
      encrypt_update = \<lambda>k v p. Some p,
      encrypt_final = \<lambda>k v p. Some (replicate (16 - length p mod 16) (char_of (16 - length p mod 16))),
      decrypt_update = \<lambda>k v c. Some (take (length c - of_char (last c)) c), decrypt_final = \<lambda>k v c. Some []\<rparr>"

lemma example_aes: "aes_law example_openssl key iv p"
proof -
  let ?n = "16 - length p mod 16"
  have n: "0 < ?n" "?n < 256" by simp_all
  have len: "length p + ?n = 16 * (length p div 16 + 1)"
    by presburger
  have last: "last (p @ replicate ?n (char_of ?n)) = char_of ?n" using n(1) by (metis empty_replicate last_appendR last_replicate length_replicate list.size(3) not_gr0)
  have "(of_char (char_of ?n) :: nat) = ?n" using n(2) by (simp add: of_char_of)
  with last have "length (p @ replicate ?n (char_of ?n)) - of_char (last (p @ replicate ?n (char_of ?n))) = length p"
    by (simp only: length_append length_replicate diff_add_inverse2)
  with len show ?thesis unfolding aes_law_def example_openssl_def by simp
qed

lemma example_engine:
  "\<exists>e e'. encryption_engine_new example_openssl = Inr e \<and> encryption_engine_copy example_openssl e = Inr e'"
  by (simp add: encryption_engine_new_def encryption_engine_copy_def with_keys_def make_keys_def assert_or_break_def
      example_openssl_def Let_def EVP_MAX_MD_SIZE_def)

theorem encryption_roundtrip_witness:
  "\<exists>e e' c. encryption_engine_new example_openssl = Inr e \<and> encryption_engine_copy example_openssl e = Inr e' \<and>
     ee_encrypt example_openssl e' ''value'' = Inr c \<and> ee_decrypt example_openssl e c = Inr ''value''"
proof -
  obtain e e' where e: "encryption_engine_new example_openssl = Inr e" "encryption_engine_copy example_openssl e = Inr e'"
    using example_engine by blast
  have "length ''value'' < SCRATCH_SIZE" by (simp add: SCRATCH_SIZE_def)
  with encryption_roundtrip [OF e example_aes, of "''value''"] e show ?thesis by blast
qed

text \<open>
  C30. The scratch buffer bounds what can be encrypted: with a working library, a text is encrypted if it is shorter than
  \<open>2 ^ 20\<close> bytes, into a cipher text that fits the buffer; a longer one whose length fits an \<^verbatim>\<open>int\<close> is written past the end of the buffer; and from
  \<open>2 ^ 31\<close> bytes on the length that is passed to the library is not the length of the text.
\<close>

theorem encrypt_bound:
  assumes "aes_law os (encryption_key e) (enc_iv e) p" "engine_ready e"
  shows "if length p < 2 ^ 20 then \<exists>c. ee_encrypt os e p = Inr c \<and> length c \<le> 2 ^ 20 \<and> length p < length c
         else if length p < 2 ^ 31 then ee_encrypt os e p = Inl (Undefined_behaviour ''write past the end of a buffer'')
         else ee_encrypt os e p = Inl (Undefined_behaviour ''length does not fit an int'')"
proof -
  let ?k = "encryption_key e" and ?v = "enc_iv e"
  obtain a b where l: "cipher_ctx_new os" "cipher_init os" "encrypt_update os ?k ?v p = Some a"
    "encrypt_final os ?k ?v p = Some b" "length (a @ b) = 16 * (length p div 16 + 1)"
    using aes_lawE [OF assms(1)] by metis
  have sz: "SCRATCH_SIZE = 2 ^ 20" by (simp add: SCRATCH_SIZE_def)
  note fits = padded_fits [of "length p", unfolded sz]
  consider "length p < 2 ^ 20" | "\<not> length p < 2 ^ 20" "length p < 2 ^ 31" | "\<not> length p < 2 ^ 31" by blast
  then show ?thesis
  proof cases
    case 1
    then have "ee_encrypt os e p = Inr (a @ b)" using ee_encrypt_eq [OF assms _ l(3,4)] sz by simp
    moreover have "length (a @ b) \<le> 2 ^ 20" using 1 fits l(5) by simp
    moreover have "length p < length (a @ b)" unfolding l(5) by simp
    ultimately show ?thesis using 1 by auto
  next
    case 2
    then have "2 ^ 20 < length (a @ b)" using fits l(5) by simp
    then show ?thesis
      using 2 l(1-4) assms(2) by (auto simp: ee_encrypt_def int_length_def encrypt_buf_def engine_ready_def sz)
  next
    case 3
    then show ?thesis by (simp add: ee_encrypt_def int_length_def)
  qed
qed

theorem encrypt_bound_witness:
  "\<exists>e. engine_ready e \<and>
     ee_encrypt example_openssl e (replicate (2 ^ 20) (CHR ''x'')) = Inl (Undefined_behaviour ''write past the end of a buffer'') \<and>
     ee_encrypt example_openssl e (replicate (2 ^ 31) (CHR ''x'')) = Inl (Undefined_behaviour ''length does not fit an int'')"
proof -
  obtain e e' where "encryption_engine_new example_openssl = Inr e" "encryption_engine_copy example_openssl e = Inr e'"
    using example_engine by blast
  then have r: "engine_ready e" by (rule copy_of_new(3))
  with encrypt_bound [OF example_aes r, of "replicate (2 ^ 20) (CHR ''x'')"] encrypt_bound [OF example_aes r, of "replicate (2 ^ 31) (CHR ''x'')"]
  show ?thesis by (intro exI [of _ e]) simp
qed

text \<open>
  The signature check is a prefix check: with a working library, \<^verbatim>\<open>verify_it\<close> accepts exactly the non-empty byte strings of which one is a
  prefix of the other, the string and the signature that \<^verbatim>\<open>sign_it\<close> makes under the same key. A single byte is
  accepted in place of the signature if it is the first one.
\<close>

lemma verify_accepts_prefixes:
  assumes "sign_it os (Some m) True (Some k) = Inr (0, Some s)" "s \<noteq> []" "sig \<noteq> []"
  shows "verify_it os (Some m) (Some sig) (Some k) =
           Inr (if take (length s) sig = take (length sig) s then 0 else 1)"
proof -
  obtain c cs where m: "m = c # cs" using assms(1) by (cases m) (auto simp: sign_it_def split: if_splits)
  obtain d ds where sig: "sig = d # ds" using assms(3) by (cases sig) auto
  have r: "md_ctx_create os" "digest_by_name os" "digest_init os" "sign_init os" "sign_update os"
    "sign_final os k m = Some s"
    using assms(1) unfolding m by (auto simp: sign_it_def Let_def assert_or_break_Inr split: if_splits)
  have "take (min (length sig) (length s)) sig = take (length s) sig"
    "take (min (length sig) (length s)) s = take (length sig) s"
    by (simp_all add: min_def)
  moreover have "(if length sig < length s then length sig else length s) = min (length sig) (length s)" by simp
  ultimately have "verify_it os (Some m) (Some sig) (Some k) = Inr (if take (length s) sig = take (length sig) s then 0 else 1)"
    using r assms(2) unfolding m sig verify_it_def assert_or_break_def by (simp add: Let_def del: take_Suc_Cons)
  then show ?thesis .
qed

end
