(* ===== verification/Work_Queue.thy ===== *)
theory Work_Queue
  imports Prelude
begin

text \<open>
  proxy/src/queue.h and queue.cpp: the queue between the threads of a proxy. Every operation runs under the mutex, so it
  is one step. \<^verbatim>\<open>pop\<close> waits while the queue is empty: it has no result then (\<open>None\<close>). The counter \<^verbatim>\<open>size_\<close> is
  a member of its own.
\<close>

record 'a work_queue =
  wq_items :: "'a list"
  wq_size :: int

definition wq_new :: "'a work_queue" where
  "wq_new = \<lparr>wq_items = [], wq_size = 0\<rparr>"

definition wq_push :: "'a \<Rightarrow> 'a work_queue \<Rightarrow> 'a work_queue" where
  "wq_push x q = q\<lparr>wq_items := wq_items q @ [x], wq_size := wq_size q + 1\<rparr>"

definition wq_pop :: "'a work_queue \<Rightarrow> ('a \<times> 'a work_queue) option" where
  "wq_pop q =
     (case wq_items q of
        [] \<Rightarrow> None
      | x # xs \<Rightarrow> Some (x, q\<lparr>wq_items := xs, wq_size := wq_size q - 1\<rparr>))"

definition wq_length :: "'a work_queue \<Rightarrow> int" where
  "wq_length q = wq_size q"

text \<open>A consumer that pops up to \<open>n\<close> elements.\<close>

primrec drain :: "('q \<Rightarrow> ('a \<times> 'q) option) \<Rightarrow> nat \<Rightarrow> 'q \<Rightarrow> 'a list \<times> 'q" where
  "drain pop 0 q = ([], q)"
| "drain pop (Suc n) q =
     (case pop q of None \<Rightarrow> ([], q) | Some (x, r) \<Rightarrow> (let (xs, r') = drain pop n r in (x # xs, r')))"

text \<open>The contract of a queue that one thread fills and another one drains.\<close>

locale fifo =
  fixes push :: "'a \<Rightarrow> 'q \<Rightarrow> 'q" and pop :: "'q \<Rightarrow> ('a \<times> 'q) option"
    and elems :: "'q \<Rightarrow> 'a list" and invar :: "'q \<Rightarrow> bool"
  assumes invar_push: "invar q \<Longrightarrow> invar (push x q)"
    and elems_push: "invar q \<Longrightarrow> elems (push x q) = elems q @ [x]"
    and pop_None: "invar q \<Longrightarrow> pop q = None \<longleftrightarrow> elems q = []"
    and pop_Some: "invar q \<Longrightarrow> pop q = Some (x, r) \<Longrightarrow> invar r \<and> elems q = x # elems r"
begin

lemma push_all_elems: "invar q \<Longrightarrow> invar (fold push xs q) \<and> elems (fold push xs q) = elems q @ xs"
  by (induction xs arbitrary: q) (auto simp: invar_push elems_push)

lemma drain_elems:
  "invar q \<Longrightarrow> fst (drain pop n q) = take n (elems q) \<and> invar (snd (drain pop n q)) \<and> elems (snd (drain pop n q)) = drop n (elems q)"
proof (induction n arbitrary: q)
  case 0
  then show ?case by simp
next
  case (Suc n)
  show ?case
  proof (cases "pop q")
    case None
    then show ?thesis using pop_None [OF Suc.prems] Suc.prems by simp
  next
    case (Some p)
    obtain x r where p: "p = (x, r)" by (cases p)
    then have "invar r" "elems q = x # elems r" using pop_Some Suc.prems Some by auto
    with Suc.IH [of r] Some p show ?thesis by (auto split: prod.splits)
  qed
qed

lemma pushed_are_popped:
  assumes "invar q" "elems q = []"
  shows "fst (drain pop (length xs) (fold push xs q)) = xs" and "pop (snd (drain pop (length xs) (fold push xs q))) = None"
  using push_all_elems [OF assms(1), of xs] drain_elems [of "fold push xs q" "length xs"] assms
  by (simp_all add: pop_None)

end

definition wq_ok :: "'a work_queue \<Rightarrow> bool" where
  "wq_ok q \<longleftrightarrow> wq_size q = int (length (wq_items q))"

interpretation wq: fifo wq_push wq_pop wq_items wq_ok
  by unfold_locales (auto simp: wq_push_def wq_pop_def wq_ok_def split: list.splits)

lemma wq_ok_new [simp]: "wq_ok wq_new"
  by (simp add: wq_ok_def wq_new_def)

text \<open>
  Nothing is lost, duplicated or reordered: whatever is pushed into an empty queue is popped in the same
  order, a further pop blocks, and the counter is the number of elements that wait.
\<close>

lemma queue_is_fifo:
  "fst (drain wq_pop (length xs) (fold wq_push xs wq_new)) = xs"
  "wq_pop (snd (drain wq_pop (length xs) (fold wq_push xs wq_new))) = None"
  "wq_length (fold wq_push xs wq_new) = int (length xs)"
proof -
  have e: "wq_items wq_new = []" by (simp add: wq_new_def)
  have "wq_ok (fold wq_push xs wq_new)" "wq_items (fold wq_push xs wq_new) = xs"
    using wq.push_all_elems [OF wq_ok_new, of xs] by (simp_all add: e)
  then show "wq_length (fold wq_push xs wq_new) = int (length xs)" by (simp add: wq_ok_def wq_length_def)
qed (use wq.pushed_are_popped [OF wq_ok_new, of xs] in \<open>simp_all add: wq_new_def\<close>)

end
