(* ===== verification/Response_Clients.thy ===== *)
theory Response_Clients
  imports Containers Thrift_Types
begin

text \<open>
  service/src/thrift_response_client.h, .cpp and thrift_response_client_map.h, .cpp: the connections back to the clients, by
  client identifier. A connection is the list of the responses written to it, and the flag \<open>tc_broken\<close> says whether writing
  throws a transport exception. \<^verbatim>\<open>libcuckoo::cuckoohash_map\<close> is a table (see Containers).
\<close>

record thrift_client =
  tc_broken :: bool
  tc_sent :: "(sequence_id \<times> int \<times> string list) list"

type_synonym client_map = "(int, thrift_client) table"

definition tc_async_response :: "sequence_id \<Rightarrow> int \<Rightarrow> string list \<Rightarrow> (thrift_client, unit) cpp" where
  "tc_async_response seq op_code res c =
     (if tc_broken c then (Inl (Transport_error ''write''), c)
      else (Inr (), c\<lparr>tc_sent := tc_sent c @ [(seq, op_code, res)]\<rparr>))"

definition client_map_new :: client_map where
  "client_map_new = []"

text \<open>\<^verbatim>\<open>insert\<close> does not change an entry that is there.\<close>

definition add_client :: "int \<Rightarrow> thrift_client \<Rightarrow> client_map \<Rightarrow> client_map" where
  "add_client cid c m = tab_insert cid c m"

definition remove_client :: "int \<Rightarrow> client_map \<Rightarrow> client_map" where
  "remove_client cid m = tab_erase cid m"

definition async_respond_client :: "sequence_id \<Rightarrow> int \<Rightarrow> string list \<Rightarrow> client_map \<Rightarrow> client_map" where
  "async_respond_client seq op_code res m =
     (if client_id seq = - 1 then m
      else tab_update_fn (client_id seq) (\<lambda>c. snd (tc_async_response seq op_code res c)) m)"

definition clear_clients :: "client_map \<Rightarrow> client_map" where
  "clear_clients m = []"

definition failure_seq :: sequence_id where
  "failure_seq = sequence_id_new\<lparr>client_id := - 2, client_seq_no := - 2\<rparr>"

definition send_failure :: "client_map \<Rightarrow> client_map" where
  "send_failure m = map (\<lambda>(k, c). (k, snd (tc_async_response failure_seq 5 [] c))) m"

text \<open>What client \<open>cid\<close> has received.\<close>

definition received :: "client_map \<Rightarrow> int \<Rightarrow> (sequence_id \<times> int \<times> string list) list" where
  "received m cid = (case map_of m cid of None \<Rightarrow> [] | Some c \<Rightarrow> tc_sent c)"

definition reachable_client :: "client_map \<Rightarrow> int \<Rightarrow> bool" where
  "reachable_client m cid \<longleftrightarrow> cid \<noteq> - 1 \<and> (\<exists>c. map_of m cid = Some c \<and> \<not> tc_broken c)"

lemma received_respond:
  "received (async_respond_client seq opc res m) cid =
     received m cid @ (if cid = client_id seq \<and> reachable_client m cid then [(seq, opc, res)] else [])"
  by (auto simp: received_def async_respond_client_def map_of_tab_update_fn tc_async_response_def reachable_client_def
      split: option.splits)

lemma reachable_respond [simp]:
  "reachable_client (async_respond_client seq opc res m) = reachable_client m"
  by (rule ext) (auto simp: async_respond_client_def map_of_tab_update_fn tc_async_response_def reachable_client_def
      split: option.splits)

end
