(* ===== verification/L3_Proxy.thy ===== *)
theory L3_Proxy
  imports Proxy_Env Redis_Interface Reverse_Connector Encryption_Engine Work_Queue Response_Clients
begin

text \<open>
  proxy/src/l3_proxy.h and l3_proxy.cpp: the third layer. An operation reads the label from the storage (\<^verbatim>\<open>async_operation\<close>), the reply goes to
  the crypto thread, which decrypts the value, replaces it if the operation carries one, encrypts it and writes it back, and
  the reply to the write answers the client and acknowledges the operation to the second layer.

  The threads of a worker share no data but the queues: the handler uses \<^verbatim>\<open>storage_iface_\<close>, the crypto thread \<^verbatim>\<open>storage_iface2_\<close>, so each
  handler call, each callback and each turn of a thread's loop is one step. A step of a
  thread that waits for its queue does not exist (\<open>None\<close>).
\<close>

record client_response =
  cr_seq_id :: sequence_id
  cr_op_code :: int
  cr_result :: string

record crypto_operation =
  co_l3_op :: l3_operation
  co_kv_response :: string

type_synonym crypto_op_batch = "crypto_operation list"

definition OP_GET :: int where "OP_GET = 0"
definition OP_PUT :: int where "OP_PUT = 1"

definition l3_fake_client_id :: int where "l3_fake_client_id = - 1995"

record 'k l3_proxy =
  l3p_instance_name :: string
  l3p_engine :: "'k encryption_engine option"
  l3p_finished :: bool
  l3p_storage :: "redis_interface option"
  l3p_ack_iface :: "rev_conn option"
  l3p_crypto_queue :: "crypto_op_batch list"
  l3p_storage2 :: "redis_interface option"
  l3p_clients :: client_map
  l3p_respond_queue :: "client_response work_queue"
  l3p_storage_batch_size :: int
  l3p_encryption_enabled :: bool
  l3p_resp_delivery :: bool
  l3p_kv_interaction :: bool
  l3p_ack_delivery :: bool
  l3p_idx :: int
  l3p_hosts :: "host list"
  l3p_last_seen :: "int list"
  l3p_timeout_us :: int
  l3p_stats :: bool
  l3p_ack_batch_size :: int
  l3p_req_cnt :: int
  l3p_tick :: nat

definition l3_proxy_new :: "'k l3_proxy" where
  "l3_proxy_new =
     \<lparr>l3p_instance_name = [], l3p_engine = None, l3p_finished = False, l3p_storage = None, l3p_ack_iface = None,
      l3p_crypto_queue = [], l3p_storage2 = None, l3p_clients = [], l3p_respond_queue = wq_new, l3p_storage_batch_size = 0,
      l3p_encryption_enabled = True, l3p_resp_delivery = True, l3p_kv_interaction = True, l3p_ack_delivery = True,
      l3p_idx = 0, l3p_hosts = [], l3p_last_seen = [], l3p_timeout_us = 0, l3p_stats = False, l3p_ack_batch_size = 0,
      l3p_req_cnt = 0, l3p_tick = 0\<rparr>"

definition l3_next_tick :: "('k l3_proxy, nat) cpp" where
  "l3_next_tick s = (Inr (l3p_tick s), s\<lparr>l3p_tick := l3p_tick s + 1\<rparr>)"

text \<open>
  With \<^verbatim>\<open>stats_\<close>, every stage appends the time since the previous one to \<^verbatim>\<open>diag\<close> and assigns the time stamp
  (without marking it as set).
\<close>

definition l3_stamp :: "env \<Rightarrow> sequence_id \<Rightarrow> ('k l3_proxy, sequence_id) cpp" where
  "l3_stamp e seq =
     bnd (gets l3p_stats) (\<lambda>st.
       if st then bnd l3_next_tick (\<lambda>t.
         ret ((set_diag (diag seq @ to_string (env_now e t - ts seq) @ '','') seq)\<lparr>ts := env_now e t\<rparr>))
       else ret seq)"

section \<open>Acknowledgements to the second layer\<close>

definition l2ack_interface :: "host list \<Rightarrow> int \<Rightarrow> rev_conn outcome" where
  "l2ack_interface hs batch_size = rev_conn_new hs HOST_TYPE_L2 batch_size"

definition l2ack_route :: "sequence_id \<Rightarrow> int" where
  "l2ack_route seq = l2_idx seq"

definition l3_send_ack :: "sequence_id \<Rightarrow> ('k l3_proxy, unit) cpp" where
  "l3_send_ack seq s =
     (case l3p_ack_iface s of
        None \<Rightarrow> (Inl (Undefined_behaviour ''null pointer''), s)
      | Some a \<Rightarrow> (let (r, a') = send_ack l2ack_route seq a in (r, s\<lparr>l3p_ack_iface := Some a'\<rparr>)))"

section \<open>Storage\<close>

definition on_storage :: "(redis_interface, unit) cpp \<Rightarrow> ('k l3_proxy, unit) cpp" where
  "on_storage m s =
     (case l3p_storage s of
        None \<Rightarrow> (Inl (Undefined_behaviour ''null pointer''), s)
      | Some i \<Rightarrow> (let (r, i') = m i in (r, s\<lparr>l3p_storage := Some i'\<rparr>)))"

definition on_storage2 :: "(redis_interface, unit) cpp \<Rightarrow> ('k l3_proxy, unit) cpp" where
  "on_storage2 m s =
     (case l3p_storage2 s of
        None \<Rightarrow> (Inl (Undefined_behaviour ''null pointer''), s)
      | Some i \<Rightarrow> (let (r, i') = m i in (r, s\<lparr>l3p_storage2 := Some i'\<rparr>)))"

text \<open>The two callbacks that \<^verbatim>\<open>init_proxy\<close> installs; \<^verbatim>\<open>vals[i]\<close> is read for every operation.\<close>

definition l3_get_cb :: "env \<Rightarrow> l3_operation list \<Rightarrow> string list \<Rightarrow> ('k l3_proxy, unit) cpp" where
  "l3_get_cb e ops vals =
     bnd (collect (\<lambda>i. bnd (lift_out (vec_at ops (int i))) (\<lambda>op.
                        bnd (lift_out (vec_at vals (int i))) (\<lambda>v.
                        bnd (l3_stamp e (l3_seq_id op)) (\<lambda>sid.
                          ret \<lparr>co_l3_op = op\<lparr>l3_seq_id := sid\<rparr>, co_kv_response = v\<rparr>))))
            [0..<length ops]) (\<lambda>batch.
       modify (\<lambda>s. s\<lparr>l3p_crypto_queue := l3p_crypto_queue s @ [batch]\<rparr>))"

definition l3_response_of :: "l3_operation \<Rightarrow> client_response" where
  "l3_response_of op =
     \<lparr>cr_seq_id = l3_seq_id op, cr_op_code = (if l3_is_read op then OP_GET else OP_PUT),
      cr_result = (if l3_is_read op then l3_plaintext op else [])\<rparr>"

definition l3_put_cb :: "env \<Rightarrow> l3_operation list \<Rightarrow> ('k l3_proxy, unit) cpp" where
  "l3_put_cb e ops =
     for_each ops (\<lambda>op.
       seqM (if client_id (l3_seq_id op) \<noteq> l3_fake_client_id
             then bnd (l3_stamp e (l3_seq_id op)) (\<lambda>sid.
                    modify (\<lambda>s. s\<lparr>l3p_respond_queue := wq_push ((l3_response_of op)\<lparr>cr_seq_id := sid\<rparr>) (l3p_respond_queue s)\<rparr>))
             else ret ())
         (bnd (gets l3p_ack_delivery) (\<lambda>ad. if ad then l3_send_ack (l3_seq_id op) else ret ())))"

section \<open>Operations\<close>

definition l3_init_proxy ::
  "env \<Rightarrow> 'k openssl \<Rightarrow> host list \<Rightarrow> string \<Rightarrow> int \<Rightarrow> client_map \<Rightarrow> bool \<Rightarrow> bool \<Rightarrow> bool \<Rightarrow> int \<Rightarrow> int \<Rightarrow> bool \<Rightarrow> bool \<Rightarrow> int
   \<Rightarrow> ('k l3_proxy, unit) cpp" where
  "l3_init_proxy e os hs name batch_size clients enc_enabled resp_del kv_inter local_idx timeout ack_del st ack_batch_sz =
     seqM (modify (\<lambda>s. s\<lparr>l3p_hosts := hs, l3p_instance_name := name, l3p_storage_batch_size := batch_size,
             l3p_encryption_enabled := enc_enabled, l3p_resp_delivery := resp_del, l3p_kv_interaction := kv_inter,
             l3p_timeout_us := timeout, l3p_ack_delivery := ack_del, l3p_stats := st, l3p_ack_batch_size := ack_batch_sz,
             l3p_req_cnt := 0, l3p_clients := clients\<rparr>))
       (case get_host hs name of
          None \<Rightarrow> throw (Runtime_error (''Unkown instance name: '' @ name))
        | Some this \<Rightarrow>
            seqM (modify (\<lambda>s. s\<lparr>l3p_idx := the (get_base_idx hs name) + local_idx,
                    l3p_last_seen := l3p_last_seen s @ replicate (nat (get_num_columns hs HOST_TYPE_L2 True)) (- 1),
                    l3p_crypto_queue := [], l3p_respond_queue := wq_new\<rparr>))
            (bnd (lift_out (l2ack_interface hs ack_batch_sz)) (\<lambda>a.
             seqM (modify (\<lambda>s. s\<lparr>l3p_ack_iface := Some a\<rparr>))
             (if \<not> kv_inter then throw (Logic_error ''dummy KV Not implemented'')
              else
                bnd (lift_out (vec_at (get_hosts_by_type hs HOST_TYPE_KV) (get_host_idx hs HOST_TYPE_L3 (hostname this)))) (\<lambda>kv.
                bnd (lift_out (redis_interface_new (env_up e) (hostname kv) (port kv) batch_size)) (\<lambda>i1.
                seqM (modify (\<lambda>s. s\<lparr>l3p_storage := Some i1\<rparr>))
                (bnd (lift_out (redis_interface_new (env_up e) (hostname kv) (port kv) batch_size)) (\<lambda>i2.
                seqM (modify (\<lambda>s. s\<lparr>l3p_storage2 := Some i2, l3p_finished := False\<rparr>))
                (bnd (lift_out (bind_out (encryption_engine_new os) (encryption_engine_copy os))) (\<lambda>eng.
                  modify (\<lambda>s. s\<lparr>l3p_engine := Some eng\<rparr>)))))))))))"

text \<open>
  The duplicate check reads \<^verbatim>\<open>last_seen_seq_\<close> only if the request asks for it. The request counter is a 32-bit \<^verbatim>\<open>int\<close>.
\<close>

definition l3_async_operation :: "env \<Rightarrow> sequence_id \<Rightarrow> string \<Rightarrow> string \<Rightarrow> bool \<Rightarrow> bool \<Rightarrow> ('k l3_proxy, unit) cpp" where
  "l3_async_operation e seq label val is_read dedup =
     bnd (gets l3p_last_seen) (\<lambda>seen.
     bnd (lift_out (vec_at seen (l2_idx seq))) (\<lambda>last_seen.
       if dedup \<and> l2_seq_no seq \<le> last_seen then ret ()
       else
         seqM (modify (\<lambda>s. s\<lparr>l3p_last_seen := seen[nat (l2_idx seq) := max last_seen (l2_seq_no seq)]\<rparr>))
         (bnd (gets l3p_req_cnt) (\<lambda>n.
           if n = int32_max then throw (Undefined_behaviour ''signed overflow'')
           else
             seqM (modify (\<lambda>s. s\<lparr>l3p_req_cnt := n + 1\<rparr>))
             (bnd (gets l3p_stats) (\<lambda>st.
              bnd (if st then bnd l3_next_tick (\<lambda>t. ret (set_ts (env_now e t) seq)) else ret seq) (\<lambda>sid.
                on_storage (ri_async_get label
                  \<lparr>l3_seq_id = sid, l3_label = label, l3_value = val, l3_plaintext = [], l3_is_read = is_read,
                   l3_dedup = dedup\<rparr>))))))))"

text \<open>The body of \<^verbatim>\<open>crypto_thread\<close> for one operation of a batch, then one turn of its loop.\<close>

definition l3_decrypt :: "'k openssl \<Rightarrow> string \<Rightarrow> ('k l3_proxy, string) cpp" where
  "l3_decrypt os cipher =
     bnd (gets (\<lambda>s. (l3p_encryption_enabled s, l3p_engine s))) (\<lambda>(en, eng).
       if \<not> en then ret cipher
       else case eng of
              None \<Rightarrow> throw (Undefined_behaviour ''null pointer'')
            | Some g \<Rightarrow> lift_out (ee_decrypt os g cipher))"

definition l3_encrypt :: "'k openssl \<Rightarrow> string \<Rightarrow> ('k l3_proxy, string) cpp" where
  "l3_encrypt os plain =
     bnd (gets (\<lambda>s. (l3p_encryption_enabled s, l3p_engine s))) (\<lambda>(en, eng).
       if \<not> en then ret plain
       else case eng of
              None \<Rightarrow> throw (Undefined_behaviour ''null pointer'')
            | Some g \<Rightarrow> lift_out (ee_encrypt os g plain))"

definition l3_crypto_op :: "env \<Rightarrow> 'k openssl \<Rightarrow> crypto_operation \<Rightarrow> ('k l3_proxy, unit) cpp" where
  "l3_crypto_op e os co =
     (let op = co_l3_op co in
      bnd (l3_stamp e (l3_seq_id op)) (\<lambda>sid1.
      bnd (l3_decrypt os (co_kv_response co)) (\<lambda>plain0.
      (let plaintext = (if l3_value op \<noteq> [] then l3_value op else plain0) in
      bnd (l3_encrypt os plaintext) (\<lambda>writeback.
      bnd (l3_stamp e sid1) (\<lambda>sid2.
        on_storage2 (ri_async_put (l3_label op) writeback (op\<lparr>l3_seq_id := sid2, l3_plaintext := plaintext\<rparr>))))))))"

definition l3_crypto_step :: "env \<Rightarrow> 'k openssl \<Rightarrow> 'k l3_proxy \<Rightarrow> (unit outcome \<times> 'k l3_proxy) option" where
  "l3_crypto_step e os s =
     (case l3p_crypto_queue s of
        [] \<Rightarrow> None
      | batch # rest \<Rightarrow>
          (let s' = s\<lparr>l3p_crypto_queue := rest\<rparr> in
           if l3p_finished s then Some (Inr (), s')
           else Some (seqM (for_each batch (l3_crypto_op e os)) (on_storage2 ri_flush) s')))"

text \<open>
  One turn of \<^verbatim>\<open>responder_thread\<close>. The statement \<^verbatim>\<open>resp.seq_id.ts - us_from_epoch;\<close> computes a difference and discards
  it, so the time stamp stays.
\<close>

definition l3_responder_step :: "env \<Rightarrow> 'k l3_proxy \<Rightarrow> (unit outcome \<times> 'k l3_proxy) option" where
  "l3_responder_step e s =
     (case wq_pop (l3p_respond_queue s) of
        None \<Rightarrow> None
      | Some (resp, q) \<Rightarrow>
          Some (bnd (gets (\<lambda>s. (l3p_stats s, l3p_resp_delivery s))) (\<lambda>(st, rd).
                bnd (if st then bnd l3_next_tick (\<lambda>t.
                       ret (set_diag (diag (cr_seq_id resp) @ to_string (env_now e t - ts (cr_seq_id resp)) @ '','') (cr_seq_id resp)))
                     else ret (cr_seq_id resp)) (\<lambda>sid.
                  modify (\<lambda>s. s\<lparr>l3p_clients := async_respond_client sid (cr_op_code resp) [if rd then cr_result resp else []]
                                  (l3p_clients s)\<rparr>)))
                (s\<lparr>l3p_respond_queue := q\<rparr>)))"

text \<open>\<^verbatim>\<open>close\<close> sets the flag and joins the threads, one of which never ends.\<close>

definition l3_close :: "('k l3_proxy, unit) cpp" where
  "l3_close = modify (\<lambda>s. s\<lparr>l3p_finished := True\<rparr>)"

definition l3_update_connections :: "env \<Rightarrow> int \<Rightarrow> int \<Rightarrow> string \<Rightarrow> int \<Rightarrow> int \<Rightarrow> ('k l3_proxy, unit) cpp" where
  "l3_update_connections e t col hname p n s =
     (if t \<noteq> HOST_TYPE_L2 then (Inl (Runtime_error ''Invalid update_connections call''), s)
      else case l3p_ack_iface s of
             None \<Rightarrow> (Inl (Undefined_behaviour ''null pointer''), s)
           | Some a \<Rightarrow> (let (r, a') = rv_update_connections (env_up e) col hname p n a in (r, s\<lparr>l3p_ack_iface := Some a'\<rparr>)))"

definition l3_log_stats :: "'k l3_proxy \<Rightarrow> string" where
  "l3_log_stats s = ''Req cnt: '' @ to_string (l3p_req_cnt s)"

section \<open>What the time stamps do not touch\<close>

definition strip :: "sequence_id \<Rightarrow> sequence_id" where
  "strip q = q\<lparr>ts := 0, diag := [], isset_ts := False, isset_diag := False\<rparr>"

definition strip_op :: "l3_operation \<Rightarrow> l3_operation" where
  "strip_op op = op\<lparr>l3_seq_id := strip (l3_seq_id op), l3_plaintext := []\<rparr>"

lemma strip_simps [simp]:
  "strip (set_ts t q) = strip q" "strip (set_diag d q) = strip q" "strip (q\<lparr>ts := t\<rparr>) = strip q"
  "client_id (strip q) = client_id q" "client_seq_no (strip q) = client_seq_no q" "server_seq_no (strip q) = server_seq_no q"
  "l1_idx (strip q) = l1_idx q" "l1_seq_no (strip q) = l1_seq_no q" "l2_idx (strip q) = l2_idx q" "l2_seq_no (strip q) = l2_seq_no q"
  by (simp_all add: strip_def set_ts_def set_diag_def)

lemma strip_op_simps [simp]:
  "l3_label (strip_op op) = l3_label op" "l3_value (strip_op op) = l3_value op" "l3_is_read (strip_op op) = l3_is_read op"
  "l3_dedup (strip_op op) = l3_dedup op" "l3_seq_id (strip_op op) = strip (l3_seq_id op)" "l3_plaintext (strip_op op) = []"
  "strip_op (op\<lparr>l3_plaintext := p\<rparr>) = strip_op op"
  by (simp_all add: strip_op_def)

lemma strip_op_eqD:
  assumes "strip_op a = strip_op b"
  shows "l3_label a = l3_label b" "l3_value a = l3_value b" "l3_is_read a = l3_is_read b" "strip (l3_seq_id a) = strip (l3_seq_id b)"
  using arg_cong [OF assms, of l3_label] arg_cong [OF assms, of l3_value] arg_cong [OF assms, of l3_is_read]
    arg_cong [OF assms, of l3_seq_id] by simp_all

lemma strip_op_stamped: "strip q = strip (l3_seq_id op) \<Longrightarrow> strip_op (op\<lparr>l3_seq_id := q\<rparr>) = strip_op op"
  by (simp add: strip_op_def)

definition tick_only :: "'k l3_proxy \<Rightarrow> 'k l3_proxy \<Rightarrow> bool" where
  "tick_only s t \<longleftrightarrow> (\<exists>n. t = s\<lparr>l3p_tick := n\<rparr>)"

lemma tick_only_refl [simp]: "tick_only s s"
  by (auto simp: tick_only_def intro: exI [of _ "l3p_tick s"])

lemma tick_only_trans: "tick_only s t \<Longrightarrow> tick_only t u \<Longrightarrow> tick_only s u"
  by (auto simp: tick_only_def)

lemma l3_stamp_result:
  obtains sid t where "l3_stamp e q s = (Inr sid, t)" "strip sid = strip q" "tick_only s t"
proof (cases "l3p_stats s")
  case True
  let ?t = "s\<lparr>l3p_tick := l3p_tick s + 1\<rparr>" and ?now = "env_now e (l3p_tick s)"
  have a: "l3_stamp e q s = (Inr ((set_diag (diag q @ to_string (?now - ts q) @ '','') q)\<lparr>ts := ?now\<rparr>), ?t)"
    using True by (simp add: l3_stamp_def cpp_simps l3_next_tick_def)
  have b: "tick_only s ?t" unfolding tick_only_def by (rule exI) (rule refl)
  show thesis by (rule that [OF a _ b]) simp
next
  case False
  then have "l3_stamp e q s = (Inr q, s)" by (simp add: l3_stamp_def cpp_simps)
  then show thesis by (rule that) simp_all
qed

lemma l3_stamp_off: "\<not> l3p_stats s \<Longrightarrow> l3_stamp e q s = (Inr q, s)"
  by (simp add: l3_stamp_def cpp_simps)

section \<open>The callbacks\<close>

lemma l3_get_cb_result:
  assumes "length vals = length ops"
  obtains batch n where "l3_get_cb e ops vals s = (Inr (), s\<lparr>l3p_tick := n, l3p_crypto_queue := l3p_crypto_queue s @ [batch]\<rparr>)"
    "map (\<lambda>c. strip_op (co_l3_op c)) batch = map strip_op ops" "map co_kv_response batch = vals"
    "map (\<lambda>c. l3_plaintext (co_l3_op c)) batch = map l3_plaintext ops"
proof -
  let ?body = "\<lambda>i. bnd (lift_out (vec_at ops (int i))) (\<lambda>op.
                    bnd (lift_out (vec_at vals (int i))) (\<lambda>v.
                    bnd (l3_stamp e (l3_seq_id op)) (\<lambda>sid.
                      ret \<lparr>co_l3_op = op\<lparr>l3_seq_id := sid\<rparr>, co_kv_response = v\<rparr>)))"
  have "\<exists>batch t. collect ?body is s = (Inr batch, t) \<and> tick_only s t \<and>
      map (\<lambda>c. strip_op (co_l3_op c)) batch = map (\<lambda>i. strip_op (ops ! i)) is \<and> map co_kv_response batch = map ((!) vals) is \<and>
      map (\<lambda>c. l3_plaintext (co_l3_op c)) batch = map (\<lambda>i. l3_plaintext (ops ! i)) is"
    if "list_all (\<lambda>i. i < length ops) is" for "is"
    using that
  proof (induction "is" arbitrary: s)
    case Nil
    then show ?case by (simp add: ret_apply)
  next
    case (Cons i "is")
    obtain sid t where t: "l3_stamp e (l3_seq_id (ops ! i)) s = (Inr sid, t)" "strip sid = strip (l3_seq_id (ops ! i))" "tick_only s t"
      by (rule l3_stamp_result)
    let ?c = "\<lparr>co_l3_op = (ops ! i)\<lparr>l3_seq_id := sid\<rparr>, co_kv_response = vals ! i\<rparr>"
    have b: "?body i s = (Inr ?c, t)" using Cons.prems t(1) assms by (simp add: cpp_simps)
    obtain batch u where u: "collect ?body is t = (Inr batch, u)" "tick_only t u"
      "map (\<lambda>c. strip_op (co_l3_op c)) batch = map (\<lambda>i. strip_op (ops ! i)) is" "map co_kv_response batch = map ((!) vals) is"
      "map (\<lambda>c. l3_plaintext (co_l3_op c)) batch = map (\<lambda>i. l3_plaintext (ops ! i)) is"
      using Cons.IH [of t] Cons.prems by auto
    have "collect ?body (i # is) s = (Inr (?c # batch), u)"
      unfolding collect_Cons b using u(1) by simp
    then show ?case using u tick_only_trans [OF t(3) u(2)] t(2) by (auto simp: strip_op_stamped)
  qed
  from this [of "[0..<length ops]"] obtain batch t where c: "collect ?body [0..<length ops] s = (Inr batch, t)" "tick_only s t"
    "map (\<lambda>c. strip_op (co_l3_op c)) batch = map (\<lambda>i. strip_op (ops ! i)) [0..<length ops]"
    "map co_kv_response batch = map ((!) vals) [0..<length ops]"
    "map (\<lambda>c. l3_plaintext (co_l3_op c)) batch = map (\<lambda>i. l3_plaintext (ops ! i)) [0..<length ops]"
    by (auto simp: list_all_iff)
  obtain n where n: "t = s\<lparr>l3p_tick := n\<rparr>" using c(2) by (auto simp: tick_only_def)
  have m: "map (\<lambda>i. f (ops ! i)) [0..<length ops] = map f ops" for f :: "l3_operation \<Rightarrow> 'z"
    by (rule nth_equalityI) simp_all
  show thesis
  proof (rule that)
    show "l3_get_cb e ops vals s = (Inr (), s\<lparr>l3p_tick := n, l3p_crypto_queue := l3p_crypto_queue s @ [batch]\<rparr>)"
      unfolding l3_get_cb_def bnd_apply c(1) n by (simp add: modify_apply)
    show "map (\<lambda>c. strip_op (co_l3_op c)) batch = map strip_op ops" unfolding c(3) by (rule m)
    show "map co_kv_response batch = vals" unfolding c(4) assms [symmetric] by (rule map_nth)
    show "map (\<lambda>c. l3_plaintext (co_l3_op c)) batch = map l3_plaintext ops" unfolding c(5) by (rule m)
  qed
qed

definition real_op :: "l3_operation \<Rightarrow> bool" where
  "real_op op \<longleftrightarrow> client_id (l3_seq_id op) \<noteq> l3_fake_client_id"

text \<open>A response without its time stamps.\<close>

definition strip_resp :: "client_response \<Rightarrow> client_response" where
  "strip_resp r = r\<lparr>cr_seq_id := strip (cr_seq_id r)\<rparr>"

lemma l3_put_cb_Cons:
  "l3_put_cb e (op # ops) s =
     (case l3_put_cb e [op] s of (Inl x, t) \<Rightarrow> (Inl x, t) | (Inr _, t) \<Rightarrow> l3_put_cb e ops t)"
  using for_each_append [where xs = "[op]" and ys = ops] unfolding l3_put_cb_def by (simp only: append_Cons append_Nil)

text \<open>One operation of a batch: a response if the client is real, and an acknowledgement.\<close>

lemma l3_put_cb_one:
  assumes "l3p_ack_delivery s" "l3p_ack_iface s = Some a" "send_ack l2ack_route (l3_seq_id op) a = (Inr (), a')"
  obtains n rs where
    "l3_put_cb e [op] s = (Inr (), s\<lparr>l3p_tick := n, l3p_respond_queue := fold wq_push rs (l3p_respond_queue s), l3p_ack_iface := Some a'\<rparr>)"
    "map strip_resp rs = map (strip_resp \<circ> l3_response_of) (filter real_op [op])"
proof (cases "real_op op")
  case True
  obtain sid t where st: "l3_stamp e (l3_seq_id op) s = (Inr sid, t)" "strip sid = strip (l3_seq_id op)" "tick_only s t"
    by (rule l3_stamp_result)
  obtain n where n: "t = s\<lparr>l3p_tick := n\<rparr>" using st(3) by (auto simp: tick_only_def)
  let ?r = "(l3_response_of op)\<lparr>cr_seq_id := sid\<rparr>"
  have "l3_put_cb e [op] s = (Inr (), s\<lparr>l3p_tick := n, l3p_respond_queue := fold wq_push [?r] (l3p_respond_queue s), l3p_ack_iface := Some a'\<rparr>)"
    using True assms st(1) by (simp add: l3_put_cb_def real_op_def cpp_simps n l3_send_ack_def)
  moreover have "map strip_resp [?r] = map (strip_resp \<circ> l3_response_of) (filter real_op [op])"
    using True st(2) by (simp add: strip_resp_def l3_response_of_def)
  ultimately show thesis by (rule that)
next
  case False
  have "l3_put_cb e [op] s = (Inr (), s\<lparr>l3p_tick := l3p_tick s, l3p_respond_queue := fold wq_push [] (l3p_respond_queue s), l3p_ack_iface := Some a'\<rparr>)"
    using False assms by (simp add: l3_put_cb_def real_op_def cpp_simps l3_send_ack_def)
  moreover have "map strip_resp [] = map (strip_resp \<circ> l3_response_of) (filter real_op [op])" using False by simp
  ultimately show thesis by (rule that)
qed

section \<open>The crypto thread\<close>

text \<open>What it means that \<open>c\<close> is stored for the text \<open>p\<close>.\<close>

definition stores :: "'k openssl \<Rightarrow> bool \<Rightarrow> 'k encryption_engine option \<Rightarrow> string \<Rightarrow> string \<Rightarrow> bool" where
  "stores os en eng p c \<longleftrightarrow>
     (if en then (case eng of None \<Rightarrow> False | Some g \<Rightarrow> ee_encrypt os g p = Inr c) else c = p)"

definition engine_works :: "'k openssl \<Rightarrow> 'k encryption_engine option \<Rightarrow> bool" where
  "engine_works os eng \<longleftrightarrow>
     (case eng of None \<Rightarrow> True
      | Some g \<Rightarrow> engine_ready g \<and> (\<forall>p. aes_law os (encryption_key g) (enc_iv g) p))"

lemma decrypt_stored:
  assumes "engine_works os eng" "stores os en eng p c" "l3p_encryption_enabled s = en" "l3p_engine s = eng"
    and "l3_decrypt os c s = (Inr q, t)"
  shows "q = p"
proof (cases "en")
  case False
  then show ?thesis using assms by (simp add: stores_def l3_decrypt_def cpp_simps)
next
  case True
  then obtain g where g: "eng = Some g" "ee_encrypt os g p = Inr c" "ee_decrypt os g c = Inr q"
    using assms by (auto simp: stores_def l3_decrypt_def cpp_simps split: option.splits)
  then have "aes_law os (encryption_key g) (enc_iv g) p" using assms(1) by (simp add: engine_works_def)
  then obtain a b c' d where l: "encrypt_update os (encryption_key g) (enc_iv g) p = Some a"
    "encrypt_final os (encryption_key g) (enc_iv g) p = Some b" "decrypt_update os (encryption_key g) (enc_iv g) (a @ b) = Some c'"
    "decrypt_final os (encryption_key g) (enc_iv g) (a @ b) = Some d" "c' @ d = p"
    by (rule aes_lawE) (rule that, assumption+)
  have "c = a @ b" using g(2) l(1,2)
    by (auto simp: ee_encrypt_def encrypt_buf_def handle_errors_def bind_out_eq_Inr split: if_splits)
  then show ?thesis using g(3) l(3-5)
    by (auto simp: ee_decrypt_def decrypt_buf_def handle_errors_def bind_out_eq_Inr split: if_splits)
qed

lemma l3_encrypt_stores:
  "l3_encrypt os p s = (Inr c, t) \<Longrightarrow> t = s \<and> stores os (l3p_encryption_enabled s) (l3p_engine s) p c"
  by (auto simp: l3_encrypt_def stores_def cpp_simps split: if_splits option.splits)

lemma l3_decrypt_state: "l3_decrypt os c s = (r, t) \<Longrightarrow> t = s"
  by (auto simp: l3_decrypt_def cpp_simps split: if_splits option.splits)

lemma l3_crypto_op_result:
  assumes "l3_crypto_op e os co s = (Inr (), t)" "l3p_storage2 s = Some i"
  obtains n i' c p op where "t = s\<lparr>l3p_tick := n, l3p_storage2 := Some i'\<rparr>"
    "ri_async_put (l3_label (co_l3_op co)) c op i = (Inr (), i')" "strip_op op = strip_op (co_l3_op co)" "l3_plaintext op = p"
    "stores os (l3p_encryption_enabled s) (l3p_engine s) p c"
    "if l3_value (co_l3_op co) \<noteq> [] then p = l3_value (co_l3_op co)
     else \<exists>u. l3_decrypt os (co_kv_response co) (s\<lparr>l3p_tick := u\<rparr>) = (Inr p, s\<lparr>l3p_tick := u\<rparr>)"
proof -
  let ?op = "co_l3_op co"
  obtain sid1 u where u: "l3_stamp e (l3_seq_id ?op) s = (Inr sid1, s\<lparr>l3p_tick := u\<rparr>)" "strip sid1 = strip (l3_seq_id ?op)"
    using l3_stamp_result [of e "l3_seq_id ?op" s] by (metis tick_only_def)
  let ?s1 = "s\<lparr>l3p_tick := u\<rparr>"
  obtain plain0 where d: "l3_decrypt os (co_kv_response co) ?s1 = (Inr plain0, ?s1)"
    using assms(1) l3_decrypt_state [of os "co_kv_response co" ?s1] u(1)
    by (auto simp: l3_crypto_op_def Let_def bnd_apply split: prod.splits sum.splits)
  let ?p = "if l3_value ?op \<noteq> [] then l3_value ?op else plain0"
  obtain c where c: "l3_encrypt os ?p ?s1 = (Inr c, ?s1)"
    using assms(1) l3_encrypt_stores [of os ?p ?s1] u(1) d
    by (simp add: l3_crypto_op_def Let_def bnd_apply split: prod.splits sum.splits)
  obtain sid2 n where n: "l3_stamp e sid1 ?s1 = (Inr sid2, ?s1\<lparr>l3p_tick := n\<rparr>)" "strip sid2 = strip sid1"
    using l3_stamp_result [of e sid1 ?s1] by (metis tick_only_def)
  let ?op' = "?op\<lparr>l3_seq_id := sid2, l3_plaintext := ?p\<rparr>"
  have "on_storage2 (ri_async_put (l3_label ?op) c ?op') (s\<lparr>l3p_tick := n\<rparr>) = (Inr (), t)"
    using assms(1) u(1) d c n(1) by (simp add: l3_crypto_op_def Let_def bnd_apply)
  then obtain i' where i': "ri_async_put (l3_label ?op) c ?op' i = (Inr (), i')" "t = s\<lparr>l3p_tick := n, l3p_storage2 := Some i'\<rparr>"
    using assms(2) by (auto simp: on_storage2_def Let_def split: prod.splits)
  show thesis
  proof (rule that [OF i'(2) i'(1)])
    show "strip_op ?op' = strip_op ?op" using u(2) n(2) by (simp add: strip_op_def)
    show "l3_plaintext ?op' = ?p" by simp
    show "stores os (l3p_encryption_enabled s) (l3p_engine s) ?p c" using l3_encrypt_stores [OF c] by simp
    show "if l3_value ?op \<noteq> [] then ?p = l3_value ?op
          else \<exists>u. l3_decrypt os (co_kv_response co) (s\<lparr>l3p_tick := u\<rparr>) = (Inr ?p, s\<lparr>l3p_tick := u\<rparr>)"
      using d by auto
  qed
qed

section \<open>Accepting operations\<close>

definition l3_op_of :: "sequence_id \<Rightarrow> string \<Rightarrow> string \<Rightarrow> bool \<Rightarrow> bool \<Rightarrow> l3_operation" where
  "l3_op_of q label val is_read dedup =
     \<lparr>l3_seq_id = q, l3_label = label, l3_value = val, l3_plaintext = [], l3_is_read = is_read, l3_dedup = dedup\<rparr>"

lemma l3_duplicate:
  "vec_at (l3p_last_seen s) (l2_idx q) = Inr n \<Longrightarrow> l2_seq_no q \<le> n \<Longrightarrow>
     l3_async_operation e q label val is_read True s = (Inr (), s)"
  by (simp add: l3_async_operation_def cpp_simps)

lemma l3_accepted:
  assumes "vec_at (l3p_last_seen s) (l2_idx q) = Inr n" "\<not> (dedup \<and> l2_seq_no q \<le> n)" "l3p_req_cnt s \<noteq> int32_max"
    "l3p_storage s = Some i"
  obtains sid u where "strip sid = strip q"
    "l3_async_operation e q label val is_read dedup s =
       (fst (ri_async_get label (l3_op_of sid label val is_read dedup) i),
        s\<lparr>l3p_last_seen := (l3p_last_seen s)[nat (l2_idx q) := max n (l2_seq_no q)], l3p_req_cnt := l3p_req_cnt s + 1,
          l3p_tick := u, l3p_storage := Some (snd (ri_async_get label (l3_op_of sid label val is_read dedup) i))\<rparr>)"
proof (cases "l3p_stats s")
  case True
  show thesis
    by (rule that [of "set_ts (env_now e (l3p_tick s)) q" "l3p_tick s + 1"])
      (use assms True in \<open>auto simp: l3_async_operation_def cpp_simps l3_next_tick_def on_storage_def l3_op_of_def
         split: prod.splits\<close>)
next
  case False
  show thesis
    by (rule that [of q "l3p_tick s"])
      (use assms False in \<open>auto simp: l3_async_operation_def cpp_simps on_storage_def l3_op_of_def split: prod.splits\<close>)
qed

text \<open>A request of the second layer, as the handler receives it.\<close>

record l3_request =
  rq_seq :: sequence_id
  rq_label :: string
  rq_value :: string
  rq_is_read :: bool

definition l3_deliver :: "env \<Rightarrow> l3_request \<Rightarrow> ('k l3_proxy, unit) cpp" where
  "l3_deliver e r = l3_async_operation e (rq_seq r) (rq_label r) (rq_value r) (rq_is_read r) True"

definition reads_for :: "'k l3_proxy \<Rightarrow> nat \<Rightarrow> (string \<times> l3_operation) list" where
  "reads_for s j = (case l3p_storage s of None \<Rightarrow> [] | Some i \<Rightarrow> map (\<lambda>(k, op). (k, strip_op op)) (gets_for i j))"

definition read_of :: "l3_request \<Rightarrow> string \<times> l3_operation" where
  "read_of r = (rq_label r, strip_op (l3_op_of (rq_seq r) (rq_label r) (rq_value r) (rq_is_read r) True))"

text \<open>\<open>m\<close> storage servers, and the last number seen from column \<open>c\<close> is \<open>n\<close>.\<close>

definition l3_at :: "'k l3_proxy \<Rightarrow> int \<Rightarrow> nat \<Rightarrow> int \<Rightarrow> bool" where
  "l3_at s c m n \<longleftrightarrow>
     (case l3p_storage s of None \<Rightarrow> False | Some i \<Rightarrow> rd_ok i \<and> length (rd_clients i) = m) \<and>
     vec_at (l3p_last_seen s) c = Inr n"

definition hashed_to :: "nat \<Rightarrow> nat \<Rightarrow> string \<times> l3_operation \<Rightarrow> bool" where
  "hashed_to m j p \<longleftrightarrow> nat (consistent_hash (fst p) (int m)) = j"

lemma l3_deliver_new:
  assumes "l3_at s c m n" "l2_idx (rq_seq r) = c" "n < l2_seq_no (rq_seq r)" "l3p_req_cnt s \<noteq> int32_max"
  obtains t where "l3_deliver e r s = (Inr (), t)" "l3_at t c m (l2_seq_no (rq_seq r))" "l3p_req_cnt t = l3p_req_cnt s + 1"
    "\<And>j. j < m \<Longrightarrow> reads_for t j = reads_for s j @ filter (hashed_to m j) [read_of r]"
proof -
  obtain i where i: "l3p_storage s = Some i" "rd_ok i" "length (rd_clients i) = m"
    and n: "vec_at (l3p_last_seen s) c = Inr n"
    using assms(1) by (auto simp: l3_at_def split: option.splits)
  obtain sid u where r: "strip sid = strip (rq_seq r)"
    "l3_deliver e r s =
       (fst (ri_async_get (rq_label r) (l3_op_of sid (rq_label r) (rq_value r) (rq_is_read r) True) i),
        s\<lparr>l3p_last_seen := (l3p_last_seen s)[nat c := max n (l2_seq_no (rq_seq r))], l3p_req_cnt := l3p_req_cnt s + 1,
          l3p_tick := u, l3p_storage := Some (snd (ri_async_get (rq_label r) (l3_op_of sid (rq_label r) (rq_value r) (rq_is_read r) True) i))\<rparr>)"
    using l3_accepted [of s "rq_seq r" n True i e "rq_label r" "rq_value r" "rq_is_read r"] assms(2-4) n i(1)
    unfolding l3_deliver_def by auto
  obtain x i' where g: "ri_async_get (rq_label r) (l3_op_of sid (rq_label r) (rq_value r) (rq_is_read r) True) i = (x, i')"
    by fastforce
  note q = ri_async_get_requests [OF i(2) g]
  let ?t = "s\<lparr>l3p_last_seen := (l3p_last_seen s)[nat c := max n (l2_seq_no (rq_seq r))], l3p_req_cnt := l3p_req_cnt s + 1,
          l3p_tick := u, l3p_storage := Some i'\<rparr>"
  show thesis
  proof (rule that)
    show "l3_deliver e r s = (Inr (), ?t)" using r(2) q(1) by (simp add: g)
    show "l3_at ?t c m (l2_seq_no (rq_seq r))" using n q(2,3) i(3) assms(3) by (auto simp: l3_at_def vec_at_def split: if_splits)
    show "l3p_req_cnt ?t = l3p_req_cnt s + 1" by simp
    fix j assume "j < m"
    with q(6) [of j] i(3) show "reads_for ?t j = reads_for s j @ filter (hashed_to m j) [read_of r]"
      using r(1) by (simp add: reads_for_def i(1) read_of_def hashed_to_def rd_server_def l3_op_of_def strip_op_def)
  qed
qed

lemma l3_deliver_seen:
  assumes "l3_at s c m n" "list_all (\<lambda>r. l2_idx (rq_seq r) = c \<and> l2_seq_no (rq_seq r) \<le> n) rs"
  shows "for_each rs (l3_deliver e) s = (Inr (), s)"
  using assms(2)
proof (induction rs)
  case (Cons r rs)
  moreover have "l3_deliver e r s = (Inr (), s)"
    using l3_duplicate [of s "rq_seq r" n] Cons.prems assms(1) by (simp add: l3_deliver_def l3_at_def)
  ultimately show ?case by (simp add: for_each_Cons del: for_each.simps)
qed (simp add: ret_apply)

lemma sorted_le_last: "sorted xs \<Longrightarrow> x \<in> set xs \<Longrightarrow> (x :: 'a :: linorder) \<le> last xs"
  by (induction xs) auto

text \<open>The numbers of the requests, which increase.\<close>

definition increasing :: "int \<Rightarrow> l3_request list \<Rightarrow> bool" where
  "increasing n rs \<longleftrightarrow> sorted_wrt (<) (n # map (\<lambda>r. l2_seq_no (rq_seq r)) rs)"

lemma l3_deliver_increasing:
  assumes "l3_at s c m n" "increasing n rs" "list_all (\<lambda>r. l2_idx (rq_seq r) = c) rs" "l3p_req_cnt s + int (length rs) \<le> int32_max"
  obtains t where "for_each rs (l3_deliver e) s = (Inr (), t)" "l3_at t c m (last (n # map (\<lambda>r. l2_seq_no (rq_seq r)) rs))"
    "l3p_req_cnt t = l3p_req_cnt s + int (length rs)"
    "\<And>j. j < m \<Longrightarrow> reads_for t j = reads_for s j @ filter (hashed_to m j) (map read_of rs)"
  using assms
proof (induction rs arbitrary: s n thesis)
  case Nil
  from Nil.prems(1) [of s] Nil.prems(2) show ?case by (simp add: ret_apply)
next
  case (Cons r rs)
  obtain t where t: "l3_deliver e r s = (Inr (), t)" "l3_at t c m (l2_seq_no (rq_seq r))" "l3p_req_cnt t = l3p_req_cnt s + 1"
    "\<And>j. j < m \<Longrightarrow> reads_for t j = reads_for s j @ filter (hashed_to m j) [read_of r]"
    using l3_deliver_new [OF Cons.prems(2), of r e] Cons.prems(3-5) by (auto simp: increasing_def)
  obtain u where u: "for_each rs (l3_deliver e) t = (Inr (), u)"
    "l3_at u c m (last (l2_seq_no (rq_seq r) # map (\<lambda>r. l2_seq_no (rq_seq r)) rs))" "l3p_req_cnt u = l3p_req_cnt t + int (length rs)"
    "\<And>j. j < m \<Longrightarrow> reads_for u j = reads_for t j @ filter (hashed_to m j) (map read_of rs)"
    using Cons.IH [OF _ t(2)] Cons.prems(3-5) t(3) by (auto simp: increasing_def)
  show ?case
  proof (rule Cons.prems(1))
    show "for_each (r # rs) (l3_deliver e) s = (Inr (), u)" using t(1) u(1) by (simp add: for_each_Cons del: for_each.simps)
    show "l3_at u c m (last (n # map (\<lambda>r. l2_seq_no (rq_seq r)) (r # rs)))" using u(2) by simp
    show "l3p_req_cnt u = l3p_req_cnt s + int (length (r # rs))" using u(3) t(3) by simp
    show "reads_for u j = reads_for s j @ filter (hashed_to m j) (map read_of (r # rs))" if "j < m" for j
      using t(4) [OF that] u(4) [OF that] by simp
  qed
qed

section \<open>Properties\<close>

text \<open>
  C17. Exactly once across a fail-over of the second layer: the requests of one column arrive with increasing numbers, then the new tail of the
  column sends a suffix of them again and goes on with further ones. No delivery fails, and the storage is asked
  for each operation exactly once, in order, however long the repeated suffix is.
\<close>

theorem l3_exactly_once:
  assumes "l3_at s c m n" "increasing n (xs @ ys)" "list_all (\<lambda>r. l2_idx (rq_seq r) = c) (xs @ ys)"
    and "l3p_req_cnt s + int (length (xs @ ys)) \<le> int32_max"
  shows "\<exists>t. for_each (xs @ drop k xs @ ys) (l3_deliver e) s = (Inr (), t) \<and>
           l3p_req_cnt t = l3p_req_cnt s + int (length (xs @ ys)) \<and>
           (\<forall>j < m. reads_for t j = reads_for s j @ filter (hashed_to m j) (map read_of (xs @ ys)))"
proof -
  let ?num = "\<lambda>r. l2_seq_no (rq_seq r)"
  have xs: "increasing n xs" "list_all (\<lambda>r. l2_idx (rq_seq r) = c) xs" "l3p_req_cnt s + int (length xs) \<le> int32_max"
    using assms(2-4) by (auto simp: increasing_def sorted_wrt_append)
  obtain t where t: "for_each xs (l3_deliver e) s = (Inr (), t)" "l3_at t c m (last (n # map ?num xs))"
    "l3p_req_cnt t = l3p_req_cnt s + int (length xs)"
    "\<And>j. j < m \<Longrightarrow> reads_for t j = reads_for s j @ filter (hashed_to m j) (map read_of xs)"
    by (rule l3_deliver_increasing [OF assms(1) xs]) (rule that, assumption+)
  have "?num r \<le> last (n # map ?num xs)" if r: "r \<in> set xs" for r
  proof -
    have "sorted (n # map ?num xs)" using xs(1) unfolding increasing_def by (rule sorted_wrt_mono_rel [rotated]) simp
    moreover have "?num r \<in> set (n # map ?num xs)" using r by simp
    ultimately show ?thesis by (rule sorted_le_last)
  qed
  then have "list_all (\<lambda>r. l2_idx (rq_seq r) = c \<and> ?num r \<le> last (n # map ?num xs)) (drop k xs)"
    using xs(2) by (auto simp: list_all_iff dest: in_set_dropD)
  from l3_deliver_seen [OF t(2) this] have dup: "for_each (drop k xs) (l3_deliver e) t = (Inr (), t)" .
  have ys: "increasing (last (n # map ?num xs)) ys"
    using assms(2) by (cases xs rule: rev_cases) (auto simp: increasing_def sorted_wrt_append)
  obtain u where u: "for_each ys (l3_deliver e) t = (Inr (), u)" "l3p_req_cnt u = l3p_req_cnt t + int (length ys)"
    "\<And>j. j < m \<Longrightarrow> reads_for u j = reads_for t j @ filter (hashed_to m j) (map read_of ys)"
    by (rule l3_deliver_increasing [OF t(2) ys]) (use assms(3,4) t(3) in auto)
  have "for_each (xs @ drop k xs @ ys) (l3_deliver e) s = (Inr (), u)"
    by (simp add: for_each_append t(1) dup u(1))
  then show ?thesis using t(3,4) u(2,3) by (intro exI [of _ u]) simp
qed

definition example_l3 :: "string l3_proxy" where
  "example_l3 =
     l3_proxy_new\<lparr>l3p_storage := Some example_redis, l3p_storage2 := Some example_redis, l3p_last_seen := [- 1, - 1],
       l3p_ack_iface := Some example_rev,
       l3p_engine := Some \<lparr>encryption_string = [], iv_string = [], encryption_key = replicate 32 (CHR ''k''),
         enc_iv = replicate 16 (CHR ''v''), skey = None, vkey = None\<rparr>\<rparr>"

definition example_request :: "int \<Rightarrow> int \<Rightarrow> l3_request" where
  "example_request c n = \<lparr>rq_seq = sequence_id_new\<lparr>l2_idx := c, l2_seq_no := n\<rparr>, rq_label = ''7'', rq_value = [], rq_is_read = True\<rparr>"

lemma example_l3_at: "l3_at example_l3 1 1 (- 1)"
  using example_redis_ok by (simp add: l3_at_def example_l3_def vec_at_def) (simp add: example_redis_def)

theorem l3_exactly_once_witness:
  "\<exists>t. for_each [example_request 1 0, example_request 1 3, example_request 1 3, example_request 1 4]
        (l3_deliver example_env) example_l3 = (Inr (), t) \<and> l3p_req_cnt t = 3"
proof -
  let ?xs = "[example_request 1 0, example_request 1 3]" and ?ys = "[example_request 1 4]"
  have "increasing (- 1) (?xs @ ?ys)" "list_all (\<lambda>r. l2_idx (rq_seq r) = 1) (?xs @ ?ys)"
    "l3p_req_cnt example_l3 + int (length (?xs @ ?ys)) \<le> int32_max"
    by (simp_all add: increasing_def example_request_def example_l3_def l3_proxy_new_def)
  from l3_exactly_once [OF example_l3_at this, of 1 example_env] show ?thesis
    by (auto simp: example_l3_def l3_proxy_new_def)
qed

text \<open>
  C18. Every operation is answered once: when the storage has confirmed a batch of writes, each operation of a real client gets exactly one response,
  in order, with the text for a read and nothing for a write; operations of the fake client get none; and the second
  layer gets exactly one acknowledgement for each operation, fake or not, on the connection of the column that sent it.
\<close>

theorem l3_answers_each_operation:
  assumes "l3p_ack_delivery s" "l3p_ack_iface s = Some a" "rv_ok a" "rv_open a"
    and "list_all (\<lambda>op. 0 \<le> l2_idx (l3_seq_id op) \<and> l2_idx (l3_seq_id op) < int (length (rv_arr a))) ops"
    and "wq_ok (l3p_respond_queue s)"
  shows "\<exists>t a' rs. l3_put_cb e ops s = (Inr (), t) \<and> l3p_ack_iface t = Some a' \<and>
           wq_items (l3p_respond_queue t) = wq_items (l3p_respond_queue s) @ rs \<and>
           map strip_resp rs = map (strip_resp \<circ> l3_response_of) (filter real_op ops) \<and>
           (\<forall>k < length (rv_arr a). acks_for a' k = acks_for a k @
              map l3_seq_id (filter (\<lambda>op. l2_idx (l3_seq_id op) = int k) ops))"
  using assms
proof (induction ops arbitrary: s a)
  case Nil
  then show ?case by (simp add: l3_put_cb_def ret_apply)
next
  case (Cons op ops)
  obtain a1 where a1: "send_ack l2ack_route (l3_seq_id op) a = (Inr (), a1)" "rv_ok a1" "rv_open a1" "rv_arr a1 = rv_arr a"
    "\<forall>l < length (rv_arr a). acks_for a1 l = acks_for a l @ (if int l = l2_idx (l3_seq_id op) then [l3_seq_id op] else [])"
    using send_ack_step [of a l2ack_route "l3_seq_id op"] Cons.prems by (auto simp: l2ack_route_def)
  obtain n rs where one: "l3_put_cb e [op] s =
      (Inr (), s\<lparr>l3p_tick := n, l3p_respond_queue := fold wq_push rs (l3p_respond_queue s), l3p_ack_iface := Some a1\<rparr>)"
    "map strip_resp rs = map (strip_resp \<circ> l3_response_of) (filter real_op [op])"
    by (rule l3_put_cb_one [OF Cons.prems(1,2) a1(1)])
  let ?s1 = "s\<lparr>l3p_tick := n, l3p_respond_queue := fold wq_push rs (l3p_respond_queue s), l3p_ack_iface := Some a1\<rparr>"
  have q: "wq_ok (fold wq_push rs (l3p_respond_queue s))"
    "wq_items (fold wq_push rs (l3p_respond_queue s)) = wq_items (l3p_respond_queue s) @ rs"
    using wq.push_all_elems [OF Cons.prems(6)] by blast+
  obtain t a' rs' where t: "l3_put_cb e ops ?s1 = (Inr (), t)" "l3p_ack_iface t = Some a'"
    "wq_items (l3p_respond_queue t) = wq_items (l3p_respond_queue ?s1) @ rs'"
    "map strip_resp rs' = map (strip_resp \<circ> l3_response_of) (filter real_op ops)"
    "\<forall>k < length (rv_arr a1). acks_for a' k = acks_for a1 k @ map l3_seq_id (filter (\<lambda>op. l2_idx (l3_seq_id op) = int k) ops)"
    using Cons.IH [of ?s1 a1] Cons.prems a1 q(1) by auto
  have "l3_put_cb e (op # ops) s = (Inr (), t)" using t(1) one(1) by (subst l3_put_cb_Cons) simp
  moreover have "map strip_resp (rs @ rs') = map (strip_resp \<circ> l3_response_of) (filter real_op (op # ops))"
    using one(2) t(4) by simp
  moreover have "wq_items (l3p_respond_queue t) = wq_items (l3p_respond_queue s) @ rs @ rs'" using t(3) q(2) by simp
  moreover have "\<forall>k < length (rv_arr a). acks_for a' k = acks_for a k @
      map l3_seq_id (filter (\<lambda>op. l2_idx (l3_seq_id op) = int k) (op # ops))"
    using t(5) a1(4,5) by auto
  ultimately show ?case using t(2) by blast
qed

definition example_op :: "int \<Rightarrow> bool \<Rightarrow> l3_operation" where
  "example_op cid rd = (l3_op_of (sequence_id_new\<lparr>client_id := cid, l2_idx := 1\<rparr>) ''7'' [] rd True)\<lparr>l3_plaintext := ''v''\<rparr>"

theorem l3_answers_each_operation_witness:
  "\<exists>t rs. l3_put_cb example_env [example_op 5 True, example_op (- 1995) True] example_l3 = (Inr (), t) \<and>
     wq_items (l3p_respond_queue t) = rs \<and> map cr_result rs = [''v'']"
proof -
  let ?ops = "[example_op 5 True, example_op (- 1995) True]"
  have s: "l3p_ack_delivery example_l3" "l3p_ack_iface example_l3 = Some example_rev" "wq_ok (l3p_respond_queue example_l3)"
    "wq_items (l3p_respond_queue example_l3) = []"
    by (simp_all add: example_l3_def l3_proxy_new_def) (simp add: wq_new_def)
  have "list_all (\<lambda>op. 0 \<le> l2_idx (l3_seq_id op) \<and> l2_idx (l3_seq_id op) < int (length (rv_arr example_rev))) ?ops"
    by (simp add: example_op_def l3_op_of_def example_rev_simps)
  from l3_answers_each_operation [OF s(1,2) example_rev_ok this s(3), of example_env] s(4)
  obtain t rs where t: "l3_put_cb example_env ?ops example_l3 = (Inr (), t)" "wq_items (l3p_respond_queue t) = rs"
    "map strip_resp rs = map (strip_resp \<circ> l3_response_of) (filter real_op ?ops)"
    by (elim exE conjE) (rule that, simp_all only: append_Nil)
  have "map cr_result (map strip_resp rs) = [''v'']"
    unfolding t(3) by (simp add: example_op_def l3_op_of_def real_op_def l3_fake_client_id_def l3_response_of_def strip_resp_def)
  moreover have "map cr_result (map strip_resp rs) = map cr_result rs" by (simp add: strip_resp_def)
  ultimately have "map cr_result rs = [''v'']" by (simp only:)
  with t(1,2) show ?thesis by (intro exI conjI)
qed

text \<open>
  A read is visible to the storage: if the storage holds the cipher text of a value, an operation that carries no new value writes the
  very same cipher text back, because the key and the IV are constants. So the storage can tell which accesses change a value.
\<close>

lemma l3_read_rewrites_same_ciphertext:
  assumes "engine_works os (l3p_engine s)" "stores os (l3p_encryption_enabled s) (l3p_engine s) p c"
    and "l3_value op = []" "l3p_storage2 s = Some i"
    and "l3_crypto_op e os \<lparr>co_l3_op = op, co_kv_response = c\<rparr> s = (Inr (), t)"
  shows "\<exists>op' i'. ri_async_put (l3_label op) c op' i = (Inr (), i') \<and> l3p_storage2 t = Some i' \<and> l3_plaintext op' = p"
proof -
  obtain n i' c' p' op' where r: "t = s\<lparr>l3p_tick := n, l3p_storage2 := Some i'\<rparr>"
    "ri_async_put (l3_label op) c' op' i = (Inr (), i')" "l3_plaintext op' = p'"
    "stores os (l3p_encryption_enabled s) (l3p_engine s) p' c'"
    "\<exists>u. l3_decrypt os c (s\<lparr>l3p_tick := u\<rparr>) = (Inr p', s\<lparr>l3p_tick := u\<rparr>)"
    by (rule l3_crypto_op_result [OF assms(5,4)]) (rule that, use assms(3) in simp_all)
  from r(5) obtain u where "l3_decrypt os c (s\<lparr>l3p_tick := u\<rparr>) = (Inr p', s\<lparr>l3p_tick := u\<rparr>)" ..
  from decrypt_stored [OF assms(1,2) _ _ this] have "p' = p" by simp
  moreover from this r(4) assms(2) have "c' = c" by (auto simp: stores_def split: if_splits option.splits)
  ultimately show ?thesis using r by auto
qed

lemma example_l3_engine: "engine_works example_openssl (l3p_engine example_l3)"
  using example_aes by (auto simp: engine_works_def example_l3_def engine_ready_def)

end
