(* ===== verification/L3_System.thy ===== *)
theory L3_System
  imports L3_Proxy
begin

text \<open>
  An L3 worker together with its storage server. The state is the worker, the contents of the server and what is on the
  way between the two; a step is a call of the handler, the execution of a command by the server, a reply callback, or a
  turn of one of the worker's threads, in any interleaving that keeps each connection in order. The theorem
  says that the operations go through this pipeline as if they were executed one after the other in the
  order in which they were accepted, provided that the second layer keeps sending the new value of a label until the write has
  been acknowledged, which is what its update cache is for.
\<close>

section \<open>The specification\<close>

text \<open>A key-value store on plain texts that executes an operation at once.\<close>

definition kv_apply :: "l3_operation \<Rightarrow> (string \<Rightarrow> string) \<Rightarrow> string \<Rightarrow> string" where
  "kv_apply op m = m(l3_label op := (if l3_value op \<noteq> [] then l3_value op else m (l3_label op)))"

primrec kv_answers :: "(string \<Rightarrow> string) \<Rightarrow> l3_operation list \<Rightarrow> string list" where
  "kv_answers m [] = []"
| "kv_answers m (op # ops) = kv_apply op m (l3_label op) # kv_answers (kv_apply op m) ops"

lemma kv_answers_append: "kv_answers m (xs @ ys) = kv_answers m xs @ kv_answers (fold kv_apply xs m) ys"
  by (induction xs arbitrary: m) auto

lemma kv_apply_strip: "strip_op a = strip_op b \<Longrightarrow> kv_apply a = kv_apply b"
  by (auto simp: kv_apply_def fun_eq_iff dest: strip_op_eqD)

lemma fold_kv_strip: "map strip_op xs = map strip_op ys \<Longrightarrow> fold kv_apply xs = fold kv_apply ys"
proof (induction xs arbitrary: ys)
  case (Cons x xs)
  then obtain y ys' where ys: "ys = y # ys'" "strip_op x = strip_op y" "map strip_op xs = map strip_op ys'"
    by (cases ys) auto
  show ?case unfolding ys(1) using Cons.IH [OF ys(3)] kv_apply_strip [OF ys(2)] by simp
qed simp

lemma kv_answers_strip: "map strip_op xs = map strip_op ys \<Longrightarrow> kv_answers m xs = kv_answers m ys"
proof (induction xs arbitrary: ys m)
  case (Cons x xs)
  then obtain y ys' where ys: "ys = y # ys'" "strip_op x = strip_op y" "map strip_op xs = map strip_op ys'"
    by (cases ys) auto
  show ?case unfolding ys(1) using Cons.IH [OF ys(3)] kv_apply_strip [OF ys(2)] strip_op_eqD(1) [OF ys(2)] by simp
qed simp

text \<open>Operations that bring no new value for a label leave it as it is.\<close>

lemma kv_unchanged: "(\<And>x. x \<in> set xs \<Longrightarrow> l3_label x = l \<Longrightarrow> l3_value x = []) \<Longrightarrow> fold kv_apply xs m l = m l"
  by (induction xs arbitrary: m) (auto simp: kv_apply_def)

section \<open>The worker and its server\<close>

datatype stage = Waiting | Fetched string | Writing string | Written

record 'k l3_system =
  sy_proxy :: "'k l3_proxy"
  sy_store :: "string \<Rightarrow> string option"
  sy_gets_served :: nat
  sy_replies :: "(l3_operation list \<times> string list) list"
  sy_puts_served :: nat
  sy_confirms :: "l3_operation list list"
  sy_accepted :: "l3_operation list"
  sy_answered :: "l3_operation list"

definition rd_sent :: "'a redis_conns \<Rightarrow> 'a redis_call list" where
  "rd_sent i = cl_sent (rd_clients i ! 0)"

definition wait_gets :: "'a redis_conns \<Rightarrow> nat \<Rightarrow> (string \<times> 'a) list" where
  "wait_gets i n = concat (map call_gets (drop n (rd_sent i))) @ rd_get_queues i ! 0"

definition wait_puts :: "'a redis_conns \<Rightarrow> nat \<Rightarrow> (string \<times> string \<times> 'a) list" where
  "wait_puts i n = concat (map call_puts (drop n (rd_sent i))) @ rd_put_queues i ! 0"

text \<open>All operations on the way, oldest first, with what they carry.\<close>

definition written_part :: "'k l3_system \<Rightarrow> (l3_operation \<times> stage) list" where
  "written_part s = map (\<lambda>op. (op, Written)) (concat (sy_confirms s))"

definition writing_part :: "'k l3_system \<Rightarrow> (l3_operation \<times> stage) list" where
  "writing_part s = map (\<lambda>(k, v, op). (op, Writing v)) (wait_puts (the (l3p_storage2 (sy_proxy s))) (sy_puts_served s))"

definition crypto_part :: "'k l3_system \<Rightarrow> (l3_operation \<times> stage) list" where
  "crypto_part s = map (\<lambda>c. (co_l3_op c, Fetched (co_kv_response c))) (concat (l3p_crypto_queue (sy_proxy s)))"

definition reply_part :: "'k l3_system \<Rightarrow> (l3_operation \<times> stage) list" where
  "reply_part s = concat (map (\<lambda>(ops, vals). zip ops (map Fetched vals)) (sy_replies s))"

definition waiting_part :: "'k l3_system \<Rightarrow> (l3_operation \<times> stage) list" where
  "waiting_part s = map (\<lambda>(k, op). (op, Waiting)) (wait_gets (the (l3p_storage (sy_proxy s))) (sy_gets_served s))"

definition pipeline :: "'k l3_system \<Rightarrow> (l3_operation \<times> stage) list" where
  "pipeline s = written_part s @ writing_part s @ crypto_part s @ reply_part s @ waiting_part s"

lemmas part_defs = written_part_def writing_part_def crypto_part_def reply_part_def waiting_part_def

text \<open>Documented behaviour of the server: \<^verbatim>\<open>MGET\<close> returns the values in order, \<^verbatim>\<open>MSET\<close> sets the keys in order.\<close>

definition mset_store :: "(string \<times> string) list \<Rightarrow> (string \<Rightarrow> string option) \<Rightarrow> string \<Rightarrow> string option" where
  "mset_store kvs st = fold (\<lambda>(k, v) m. m(k \<mapsto> v)) kvs st"

inductive l3_step :: "env \<Rightarrow> 'k openssl \<Rightarrow> 'r reply_api \<Rightarrow> 'k l3_system \<Rightarrow> 'k l3_system \<Rightarrow> bool"
  for e :: env and os :: "'k openssl" and api :: "'r reply_api" where
  duplicate:
    "l3_async_operation e q label val is_read True (sy_proxy s) = (Inr (), sy_proxy s) \<Longrightarrow>
     l3_step e os api s s"
| accept:
    "l3_async_operation e q label val is_read dedup (sy_proxy s) = (Inr (), p) \<Longrightarrow>
     l3p_req_cnt p \<noteq> l3p_req_cnt (sy_proxy s) \<Longrightarrow>
     l3_step e os api s (s\<lparr>sy_proxy := p, sy_accepted := sy_accepted s @ [l3_op_of q label val is_read dedup]\<rparr>)"
| serve_get:
    "sy_gets_served s < length (rd_sent (the (l3p_storage (sy_proxy s)))) \<Longrightarrow>
     rd_sent (the (l3p_storage (sy_proxy s))) ! sy_gets_served s = Mget ks ops \<Longrightarrow>
     map (sy_store s) ks = map Some vals \<Longrightarrow>
     l3_step e os api s (s\<lparr>sy_gets_served := sy_gets_served s + 1, sy_replies := sy_replies s @ [(ops, vals)]\<rparr>)"
| get_reply:
    "sy_replies s = (ops, vals) # rest \<Longrightarrow> mget_values api r = Inr vals \<Longrightarrow>
     on_mget_reply api (l3_get_cb e) ops r (sy_proxy s) = (Inr (), p) \<Longrightarrow>
     l3_step e os api s (s\<lparr>sy_proxy := p, sy_replies := rest\<rparr>)"
| crypto_turn:
    "\<not> l3p_finished (sy_proxy s) \<Longrightarrow> l3_crypto_step e os (sy_proxy s) = Some (Inr (), p) \<Longrightarrow>
     l3_step e os api s (s\<lparr>sy_proxy := p\<rparr>)"
| serve_put:
    "sy_puts_served s < length (rd_sent (the (l3p_storage2 (sy_proxy s)))) \<Longrightarrow>
     rd_sent (the (l3p_storage2 (sy_proxy s))) ! sy_puts_served s = Mset kvs ops \<Longrightarrow>
     l3_step e os api s (s\<lparr>sy_puts_served := sy_puts_served s + 1, sy_confirms := sy_confirms s @ [ops],
       sy_store := mset_store kvs (sy_store s)\<rparr>)"
| put_reply:
    "sy_confirms s = ops # rest \<Longrightarrow> on_mset_reply api (l3_put_cb e) ops r (sy_proxy s) = (Inr (), p) \<Longrightarrow>
     l3_step e os api s (s\<lparr>sy_proxy := p, sy_confirms := rest, sy_answered := sy_answered s @ ops\<rparr>)"
| responder_turn:
    "l3_responder_step e (sy_proxy s) = Some (Inr (), p) \<Longrightarrow> l3_step e os api s (s\<lparr>sy_proxy := p\<rparr>)"
| reconnect:
    "l3_update_connections e t col hname pt n (sy_proxy s) = (Inr (), p) \<Longrightarrow> l3_step e os api s (s\<lparr>sy_proxy := p\<rparr>)"

definition l3_reachable :: "env \<Rightarrow> 'k openssl \<Rightarrow> 'r reply_api \<Rightarrow> 'k l3_system \<Rightarrow> 'k l3_system \<Rightarrow> bool" where
  "l3_reachable e os api = (l3_step e os api)\<^sup>*\<^sup>*"

text \<open>
  The worker accepts whatever it is sent; l3\_proxy.cpp does not check it. A request without a value writes back what it read, and undoes a write to its label that is under way. That this does not
  happen is a promise of the second layer: its update cache gives a value to every request until the write has been executed. A run in which the promise is kept is \<open>promised_run\<close>.
\<close>

definition no_pending_write :: "'k l3_system \<Rightarrow> string \<Rightarrow> bool" where
  "no_pending_write s label \<longleftrightarrow> list_all (\<lambda>(op, st). l3_label op = label \<longrightarrow> l3_value op = []) (pipeline s)"

definition keeps_promise :: "'k l3_system \<Rightarrow> 'k l3_system \<Rightarrow> bool" where
  "keeps_promise s t \<longleftrightarrow> (\<forall>op. sy_accepted t = sy_accepted s @ [op] \<longrightarrow> l3_value op \<noteq> [] \<or> no_pending_write s (l3_label op))"

definition promised_run :: "env \<Rightarrow> 'k openssl \<Rightarrow> 'r reply_api \<Rightarrow> 'k l3_system \<Rightarrow> 'k l3_system \<Rightarrow> bool" where
  "promised_run e os api = (\<lambda>s t. l3_step e os api s t \<and> keeps_promise s t)\<^sup>*\<^sup>*"

section \<open>The invariant\<close>

text \<open>What an operation in the pipeline carries, if the store of the specification is \<open>m\<close> when its turn comes.\<close>

definition item_ok :: "(string \<Rightarrow> string \<Rightarrow> bool) \<Rightarrow> (string \<Rightarrow> string) \<Rightarrow> l3_operation \<times> stage \<Rightarrow> bool" where
  "item_ok enc m = (\<lambda>(op, st). case st of
       Waiting \<Rightarrow> True
     | Fetched c \<Rightarrow> l3_value op = [] \<longrightarrow> enc (m (l3_label op)) c
     | Writing c \<Rightarrow> enc (kv_apply op m (l3_label op)) c \<and> l3_plaintext op = kv_apply op m (l3_label op)
     | Written \<Rightarrow> l3_plaintext op = kv_apply op m (l3_label op))"

primrec items_ok :: "(string \<Rightarrow> string \<Rightarrow> bool) \<Rightarrow> (string \<Rightarrow> string) \<Rightarrow> (l3_operation \<times> stage) list \<Rightarrow> bool" where
  "items_ok enc m [] = True"
| "items_ok enc m (x # xs) = (item_ok enc m x \<and> items_ok enc (kv_apply (fst x) m) xs)"

definition ordered :: "l3_operation list \<Rightarrow> bool" where
  "ordered ops \<longleftrightarrow> sorted_wrt (\<lambda>a b. l3_label a = l3_label b \<and> l3_value b = [] \<longrightarrow> l3_value a = []) ops"

definition agrees :: "(string \<Rightarrow> string \<Rightarrow> bool) \<Rightarrow> (string \<Rightarrow> string) \<Rightarrow> (string \<Rightarrow> string option) \<Rightarrow> bool" where
  "agrees enc m st \<longleftrightarrow> (\<forall>l c. st l = Some c \<longrightarrow> enc (m l) c)"

lemma items_ok_append:
  "items_ok enc m (xs @ ys) \<longleftrightarrow> items_ok enc m xs \<and> items_ok enc (fold kv_apply (map fst xs) m) ys"
  by (induction xs arbitrary: m) auto

lemma items_ok_cong:
  assumes "map snd xs = map snd ys" "map (\<lambda>x. strip_op (fst x)) xs = map (\<lambda>x. strip_op (fst x)) ys"
    "map (\<lambda>x. l3_plaintext (fst x)) xs = map (\<lambda>x. l3_plaintext (fst x)) ys"
  shows "items_ok enc m xs = items_ok enc m ys"
  using assms
proof (induction xs arbitrary: ys m)
  case (Cons x xs)
  obtain y ys' where ys: "ys = y # ys'" "snd x = snd y" "strip_op (fst x) = strip_op (fst y)"
    "l3_plaintext (fst x) = l3_plaintext (fst y)"
    using Cons.prems by (cases ys) auto
  have "item_ok enc m x = item_ok enc m y"
    using ys(2,4) kv_apply_strip [OF ys(3)] strip_op_eqD [OF ys(3)]
    by (simp add: item_ok_def split_beta split: stage.splits)
  then show ?case unfolding ys(1) using Cons.IH [of ys'] Cons.prems kv_apply_strip [OF ys(3)] by (simp add: ys(1))
qed simp

text \<open>Waiting operations fetch what the specification has for them, since no write of the label is in front of them.\<close>

lemma items_ok_fetch:
  assumes "agrees enc m st" "ordered (mid @ ops)" "map st (map l3_label ops) = map Some vals"
  shows "items_ok enc (fold kv_apply mid m) (zip ops (map Fetched vals))"
  using assms(2,3)
proof (induction ops arbitrary: mid vals)
  case (Cons op ops)
  then obtain v vals' where v: "vals = v # vals'" "st (l3_label op) = Some v" "map st (map l3_label ops) = map Some vals'"
    by (cases vals) auto
  have "enc (fold kv_apply mid m (l3_label op)) v" if "l3_value op = []"
  proof -
    have "fold kv_apply mid m (l3_label op) = m (l3_label op)"
      by (rule kv_unchanged) (use Cons.prems(1) that in \<open>auto simp: ordered_def sorted_wrt_append\<close>)
    with assms(1) v(2) show ?thesis by (simp add: agrees_def)
  qed
  then have "item_ok enc (fold kv_apply mid m) (op, Fetched v)" by (simp add: item_ok_def)
  moreover have "items_ok enc (fold kv_apply (mid @ [op]) m) (zip ops (map Fetched vals'))"
    by (rule Cons.IH) (use Cons.prems(1) v(3) in simp_all)
  ultimately show ?case by (simp add: v(1))
qed (auto intro: items_ok.simps)

text \<open>Executing writes keeps the store in step with the specification.\<close>

lemma agrees_mset:
  assumes "agrees enc m st" "items_ok enc m (map (\<lambda>(k, v, op). (op, Writing v)) q)" "list_all (\<lambda>(k, v, op). k = l3_label op) q"
  shows "agrees enc (fold kv_apply (map (\<lambda>(k, v, op). op) q) m) (mset_store (map (\<lambda>(k, v, op). (k, v)) q) st)"
  using assms
proof (induction q arbitrary: m st)
  case (Cons x q)
  obtain k v op where x: "x = (k, v, op)" by (cases x)
  have "agrees enc (kv_apply op m) (st(k \<mapsto> v))"
    using Cons.prems x by (auto simp: agrees_def item_ok_def kv_apply_def)
  moreover have "items_ok enc (kv_apply op m) (map (\<lambda>(k, v, op). (op, Writing v)) q)" "list_all (\<lambda>(k, v, op). k = l3_label op) q"
    using Cons.prems(2,3) by (simp_all add: x)
  ultimately have "agrees enc (fold kv_apply (map (\<lambda>(k, v, op). op) q) (kv_apply op m))
      (mset_store (map (\<lambda>(k, v, op). (k, v)) q) (st(k \<mapsto> v)))"
    by (rule Cons.IH)
  then show ?case by (simp add: x mset_store_def)
qed (simp add: mset_store_def)

lemma items_ok_written:
  "items_ok enc m (map (\<lambda>(k, v, op). (op, Writing v)) q) \<Longrightarrow> items_ok enc m (map (\<lambda>(k, v, op). (op, Written)) q)"
  by (induction q arbitrary: m) (auto simp: item_ok_def)

lemma answers_of_written:
  "items_ok enc m (map (\<lambda>op. (op, Written)) ops) \<Longrightarrow> map l3_plaintext ops = kv_answers m ops"
  by (induction ops arbitrary: m) (auto simp: item_ok_def)

section \<open>The connections of the worker\<close>

definition iface_ok :: "redis_interface option \<Rightarrow> nat \<Rightarrow> bool" where
  "iface_ok x n \<longleftrightarrow>
     (case x of None \<Rightarrow> False
      | Some i \<Rightarrow> rd_ok i \<and> length (rd_clients i) = 1 \<and> list_all rd_wf (rd_sent i) \<and> n \<le> length (rd_sent i) \<and>
          list_all (\<lambda>(k, op). k = l3_label op) (gets_for i 0) \<and> list_all (\<lambda>(k, v, op). k = l3_label op) (puts_for i 0))"

lemma iface_okE:
  assumes "iface_ok x n"
  obtains i where "x = Some i" "rd_ok i" "length (rd_clients i) = 1" "list_all rd_wf (rd_sent i)" "n \<le> length (rd_sent i)"
    "list_all (\<lambda>(k, op). k = l3_label op) (gets_for i 0)" "list_all (\<lambda>(k, v, op). k = l3_label op) (puts_for i 0)"
  using assms by (auto simp: iface_ok_def split: option.splits)

lemma waits_split:
  "n \<le> length (rd_sent i) \<Longrightarrow> gets_for i 0 = concat (map call_gets (take n (rd_sent i))) @ wait_gets i n"
  "n \<le> length (rd_sent i) \<Longrightarrow> puts_for i 0 = concat (map call_puts (take n (rd_sent i))) @ wait_puts i n"
  by (simp_all add: gets_for_def puts_for_def wait_gets_def wait_puts_def rd_sent_def
      flip: append.assoc concat_append map_append)

text \<open>An interface that only appends keeps what waits, in front of what is new.\<close>

lemma waits_grow:
  assumes "grows i j" "length (rd_clients i) = 1" "n \<le> length (rd_sent i)"
  shows "n \<le> length (rd_sent j)" "list_all rd_wf (rd_sent i) \<Longrightarrow> list_all rd_wf (rd_sent j)"
    "gets_for j 0 = gets_for i 0 @ xs \<Longrightarrow> wait_gets j n = wait_gets i n @ xs"
    "puts_for j 0 = puts_for i 0 @ ys \<Longrightarrow> wait_puts j n = wait_puts i n @ ys"
proof -
  obtain cs where cs: "rd_sent j = rd_sent i @ cs" "list_all rd_wf cs"
    using assms(1,2) by (auto simp: grows_def rd_sent_def)
  show n: "n \<le> length (rd_sent j)" using cs assms(3) by simp
  show "list_all rd_wf (rd_sent i) \<Longrightarrow> list_all rd_wf (rd_sent j)" using cs by simp
  have t: "take n (rd_sent j) = take n (rd_sent i)" using cs(1) assms(3) by simp
  show "gets_for j 0 = gets_for i 0 @ xs \<Longrightarrow> wait_gets j n = wait_gets i n @ xs"
    unfolding waits_split(1) [OF n] waits_split(1) [OF assms(3)] t by simp
  show "puts_for j 0 = puts_for i 0 @ ys \<Longrightarrow> wait_puts j n = wait_puts i n @ ys"
    unfolding waits_split(2) [OF n] waits_split(2) [OF assms(3)] t by simp
qed

text \<open>Serving the next command takes its operations off the front of what waits.\<close>

lemma waits_serve:
  assumes "n < length (rd_sent i)"
  shows "wait_gets i n = call_gets (rd_sent i ! n) @ wait_gets i (n + 1)"
    and "wait_puts i n = call_puts (rd_sent i ! n) @ wait_puts i (n + 1)"
  using assms by (simp_all add: wait_gets_def wait_puts_def flip: Cons_nth_drop_Suc)

section \<open>The invariant holds\<close>

definition enc_of :: "'k openssl \<Rightarrow> 'k l3_proxy \<Rightarrow> string \<Rightarrow> string \<Rightarrow> bool" where
  "enc_of os p = stores os (l3p_encryption_enabled p) (l3p_engine p)"

definition l3_inv :: "'k openssl \<Rightarrow> (string \<Rightarrow> string) \<Rightarrow> 'k l3_system \<Rightarrow> bool" where
  "l3_inv os m0 s \<longleftrightarrow>
     (let p = sy_proxy s; m = fold kv_apply (sy_answered s) m0 in
      iface_ok (l3p_storage p) (sy_gets_served s) \<and> iface_ok (l3p_storage2 p) (sy_puts_served s) \<and>
      list_all (\<lambda>(ops, vals). length ops = length vals) (sy_replies s) \<and> engine_works os (l3p_engine p) \<and>
      map strip_op (sy_accepted s) = map strip_op (sy_answered s) @ map (\<lambda>x. strip_op (fst x)) (pipeline s) \<and>
      agrees (enc_of os p) (fold kv_apply (concat (sy_confirms s)) m) (sy_store s) \<and>
      items_ok (enc_of os p) m (pipeline s) \<and> ordered (map fst (pipeline s)) \<and>
      map l3_plaintext (sy_answered s) = kv_answers m0 (sy_answered s))"

lemma ordered_strip: "ordered (map strip_op xs) = ordered xs"
  by (simp add: ordered_def sorted_wrt_map)

lemma ordered_cong: "map strip_op xs = map strip_op ys \<Longrightarrow> ordered xs = ordered ys"
  by (metis ordered_strip)

lemma ordered_infix: "ordered (xs @ ys @ zs) \<Longrightarrow> ordered ys"
  by (simp add: ordered_def sorted_wrt_append)

lemma map_of_fst: "map (\<lambda>x. f (fst x)) xs = map f (map fst xs)"
  by simp

text \<open>
  A step that moves operations through the pipeline without changing them (but for time stamps) keeps the invariant, if
  what they carry is right.
\<close>

lemma l3_inv_move:
  assumes inv: "l3_inv os m0 s"
    and same: "sy_accepted t = sy_accepted s" "sy_answered t = sy_answered s"
      "map (\<lambda>x. strip_op (fst x)) (pipeline t) = map (\<lambda>x. strip_op (fst x)) (pipeline s)"
    and cfg: "l3p_engine (sy_proxy t) = l3p_engine (sy_proxy s)"
      "l3p_encryption_enabled (sy_proxy t) = l3p_encryption_enabled (sy_proxy s)"
    and new: "iface_ok (l3p_storage (sy_proxy t)) (sy_gets_served t)" "iface_ok (l3p_storage2 (sy_proxy t)) (sy_puts_served t)"
      "list_all (\<lambda>(ops, vals). length ops = length vals) (sy_replies t)"
      "agrees (enc_of os (sy_proxy s)) (fold kv_apply (concat (sy_confirms t)) (fold kv_apply (sy_answered s) m0)) (sy_store t)"
      "items_ok (enc_of os (sy_proxy s)) (fold kv_apply (sy_answered s) m0) (pipeline t)"
  shows "l3_inv os m0 t"
proof -
  have "map strip_op (map fst (pipeline t)) = map strip_op (map fst (pipeline s))" using same(3) by (simp add: comp_def)
  then have "ordered (map fst (pipeline t))" using ordered_cong inv unfolding l3_inv_def Let_def by blast
  moreover have "enc_of os (sy_proxy t) = enc_of os (sy_proxy s)" using cfg by (simp add: enc_of_def)
  ultimately show ?thesis using inv same cfg new unfolding l3_inv_def Let_def by simp
qed

lemma l3_inv_accept:
  assumes inv: "l3_inv os m0 s" and promise: "val \<noteq> [] \<or> no_pending_write s label"
    and run: "l3_async_operation e q label val is_read dedup (sy_proxy s) = (Inr (), p)"
    and cnt: "l3p_req_cnt p \<noteq> l3p_req_cnt (sy_proxy s)"
  shows "l3_inv os m0 (s\<lparr>sy_proxy := p, sy_accepted := sy_accepted s @ [l3_op_of q label val is_read dedup]\<rparr>)"
proof -
  let ?t = "s\<lparr>sy_proxy := p, sy_accepted := sy_accepted s @ [l3_op_of q label val is_read dedup]\<rparr>"
  obtain i where i: "l3p_storage (sy_proxy s) = Some i" "rd_ok i" "length (rd_clients i) = 1" "list_all rd_wf (rd_sent i)"
    "sy_gets_served s \<le> length (rd_sent i)" "list_all (\<lambda>(k, op). k = l3_label op) (gets_for i 0)"
    "list_all (\<lambda>(k, v, op). k = l3_label op) (puts_for i 0)"
    using inv by (auto simp: l3_inv_def Let_def elim: iface_okE)
  obtain n where n: "vec_at (l3p_last_seen (sy_proxy s)) (l2_idx q) = Inr n" "\<not> (dedup \<and> l2_seq_no q \<le> n)"
    "l3p_req_cnt (sy_proxy s) \<noteq> int32_max"
    using run cnt by (auto simp: l3_async_operation_def cpp_simps split: sum.splits if_splits)
  obtain sid u where a: "strip sid = strip q" "l3_async_operation e q label val is_read dedup (sy_proxy s) =
       (fst (ri_async_get label (l3_op_of sid label val is_read dedup) i),
        (sy_proxy s)\<lparr>l3p_last_seen := (l3p_last_seen (sy_proxy s))[nat (l2_idx q) := max n (l2_seq_no q)],
          l3p_req_cnt := l3p_req_cnt (sy_proxy s) + 1,
          l3p_tick := u, l3p_storage := Some (snd (ri_async_get label (l3_op_of sid label val is_read dedup) i))\<rparr>)"
    by (rule l3_accepted [OF n i(1)]) (rule that)
  let ?op = "l3_op_of sid label val is_read dedup"
  obtain x j where j: "ri_async_get label ?op i = (x, j)" by fastforce
  note g = ri_async_get_requests [OF i(2) j]
  have p: "p = (sy_proxy s)\<lparr>l3p_last_seen := (l3p_last_seen (sy_proxy s))[nat (l2_idx q) := max n (l2_seq_no q)],
      l3p_req_cnt := l3p_req_cnt (sy_proxy s) + 1, l3p_tick := u, l3p_storage := Some j\<rparr>"
    using run unfolding a(2) by (simp add: j)
  have gf: "gets_for j 0 = gets_for i 0 @ [(label, ?op)]" "puts_for j 0 = puts_for i 0"
    using g(6,7) [of 0] rd_server_single [OF i(3,2)] i(3) by simp_all
  have gr: "grows i j" using grows_async(1) [OF i(2), of label ?op] by (simp add: j)
  note w = waits_grow [OF gr i(3,5)]
  have if1: "iface_ok (Some j) (sy_gets_served s)"
    using g(2,3) i gf w(1,2) by (simp add: iface_ok_def l3_op_of_def)
  have pl: "pipeline ?t = pipeline s @ [(?op, Waiting)]"
    using w(3) [OF gf(1)] i(1) by (simp add: pipeline_def part_defs p)
  have enc: "enc_of os p = enc_of os (sy_proxy s)" by (simp add: enc_of_def p)
  have "strip_op ?op = strip_op (l3_op_of q label val is_read dedup)" using a(1) by (simp add: l3_op_of_def strip_op_def)
  moreover have "ordered (map fst (pipeline s @ [(?op, Waiting)]))"
    using inv promise unfolding l3_inv_def Let_def no_pending_write_def ordered_def
    by (auto simp: sorted_wrt_append list_all_iff l3_op_of_def)
  moreover have "items_ok (enc_of os p) (fold kv_apply (sy_answered s) m0) (pipeline s @ [(?op, Waiting)])"
    using inv unfolding l3_inv_def Let_def enc items_ok_append by (simp add: item_ok_def)
  ultimately show ?thesis
    using inv if1 unfolding l3_inv_def Let_def pl by (simp add: p enc [unfolded p])
qed

lemma l3_inv_serve_get:
  assumes inv: "l3_inv os m0 s"
    and n: "sy_gets_served s < length (rd_sent (the (l3p_storage (sy_proxy s))))"
      "rd_sent (the (l3p_storage (sy_proxy s))) ! sy_gets_served s = Mget ks ops"
    and vals: "map (sy_store s) ks = map Some vals"
  shows "l3_inv os m0 (s\<lparr>sy_gets_served := sy_gets_served s + 1, sy_replies := sy_replies s @ [(ops, vals)]\<rparr>)"
proof -
  let ?t = "s\<lparr>sy_gets_served := sy_gets_served s + 1, sy_replies := sy_replies s @ [(ops, vals)]\<rparr>"
  let ?m = "fold kv_apply (sy_answered s) m0" and ?enc = "enc_of os (sy_proxy s)"
  obtain i where i: "l3p_storage (sy_proxy s) = Some i" "iface_ok (Some i) (sy_gets_served s)" "list_all rd_wf (rd_sent i)"
    "list_all (\<lambda>(k, op). k = l3_label op) (gets_for i 0)"
    using inv by (auto simp: l3_inv_def Let_def elim: iface_okE) (metis iface_okE option.sel)
  have n': "sy_gets_served s < length (rd_sent i)" "rd_sent i ! sy_gets_served s = Mget ks ops" using n i(1) by simp_all
  have len: "length ks = length ops" using i(3) n' by (auto simp: list_all_length)
  have len2: "length vals = length ops" using len vals map_eq_imp_length_eq by fastforce
  note w = waits_serve(1) [OF n'(1), unfolded n'(2), simplified]
  have "list_all (\<lambda>(k, op). k = l3_label op) (zip ks ops)"
    using i(4) unfolding waits_split(1) [OF less_imp_le [OF n'(1)]] w by simp
  then have ks: "ks = map l3_label ops" using len by (auto simp: list_all_length intro!: nth_equalityI)
  let ?front = "written_part s @ writing_part s @ crypto_part s @ reply_part s"
  let ?rest = "map (\<lambda>(k, op). (op, Waiting)) (wait_gets i (sy_gets_served s + 1))"
  have old: "pipeline s = ?front @ map (\<lambda>op. (op, Waiting)) ops @ ?rest"
  proof -
    have "map (\<lambda>(k, op). (op, Waiting)) (zip ks ops) = map (\<lambda>op. (op, Waiting)) ops"
      using len by (induction ks ops rule: list_induct2) auto
    then show ?thesis by (simp add: pipeline_def waiting_part_def i(1) w)
  qed
  have new: "pipeline ?t = ?front @ zip ops (map Fetched vals) @ ?rest"
    by (simp add: pipeline_def part_defs i(1))
  have fst_new: "map fst (zip ops (map Fetched vals)) = ops" using len2 by simp
  show ?thesis
  proof (rule l3_inv_move [OF inv])
    show "map (\<lambda>x. strip_op (fst x)) (pipeline ?t) = map (\<lambda>x. strip_op (fst x)) (pipeline s)"
    proof -
      have "map fst (map (\<lambda>op. (op, Waiting)) ops) = ops" by (simp add: comp_def)
      then have "map fst (pipeline ?t) = map fst (pipeline s)" unfolding old new map_append fst_new by (simp only:)
      then show ?thesis unfolding map_of_fst by (simp only:)
    qed
    show "iface_ok (l3p_storage (sy_proxy ?t)) (sy_gets_served ?t)"
      using i(1,2) n'(1) by (simp add: iface_ok_def)
    show "items_ok ?enc ?m (pipeline ?t)"
    proof -
      let ?mid = "map fst (writing_part s @ crypto_part s @ reply_part s)"
      have ag: "agrees ?enc (fold kv_apply (concat (sy_confirms s)) ?m) (sy_store s)"
        and ord: "ordered (map fst (pipeline s))" and ok: "items_ok ?enc ?m (pipeline s)"
        using inv by (simp_all add: l3_inv_def Let_def)
      have "map fst (pipeline s) = map fst (written_part s) @ (?mid @ ops) @ map fst ?rest"
        unfolding old by (simp add: comp_def)
      with ord have "ordered (?mid @ ops)" by (metis ordered_infix)
      from items_ok_fetch [OF ag this] vals ks
      have "items_ok ?enc (fold kv_apply (map fst ?front) ?m) (zip ops (map Fetched vals))"
        by (simp add: written_part_def comp_def)
      then show ?thesis using ok unfolding old new items_ok_append map_append fold_append comp_apply fst_new
        by (simp add: comp_def)
    qed
  qed (use inv len2 in \<open>simp_all add: l3_inv_def Let_def\<close>)
qed

lemma l3_inv_get_reply:
  assumes inv: "l3_inv os m0 s" and r: "sy_replies s = (ops, vals) # rest" "mget_values api r = Inr vals"
    "on_mget_reply api (l3_get_cb e) ops r (sy_proxy s) = (Inr (), p)"
  shows "l3_inv os m0 (s\<lparr>sy_proxy := p, sy_replies := rest\<rparr>)"
proof -
  let ?t = "s\<lparr>sy_proxy := p, sy_replies := rest\<rparr>"
  have len: "length vals = length ops" using inv r(1) by (simp add: l3_inv_def Let_def)
  obtain batch n where b: "l3_get_cb e ops vals (sy_proxy s) =
      (Inr (), (sy_proxy s)\<lparr>l3p_tick := n, l3p_crypto_queue := l3p_crypto_queue (sy_proxy s) @ [batch]\<rparr>)"
    "map (\<lambda>c. strip_op (co_l3_op c)) batch = map strip_op ops" "map co_kv_response batch = vals"
    "map (\<lambda>c. l3_plaintext (co_l3_op c)) batch = map l3_plaintext ops"
    by (rule l3_get_cb_result [OF len])
  have p: "p = (sy_proxy s)\<lparr>l3p_tick := n, l3p_crypto_queue := l3p_crypto_queue (sy_proxy s) @ [batch]\<rparr>"
    using r(2,3) b(1) by (simp add: on_mget_reply_def bnd_apply lift_out_apply)
  let ?new = "map (\<lambda>c. (co_l3_op c, Fetched (co_kv_response c))) batch" and ?old = "zip ops (map Fetched vals)"
  have pl: "pipeline s = written_part s @ writing_part s @ crypto_part s @ ?old @ reply_part ?t @ waiting_part s"
    "pipeline ?t = written_part s @ writing_part s @ crypto_part s @ ?new @ reply_part ?t @ waiting_part s"
    by (simp_all add: pipeline_def part_defs p r(1))
  have fst_old: "map fst ?old = ops" "map snd ?old = map Fetched vals" using len by simp_all
  have eq: "map (\<lambda>x. strip_op (fst x)) ?new = map (\<lambda>x. strip_op (fst x)) ?old" "map snd ?new = map snd ?old"
    "map (\<lambda>x. l3_plaintext (fst x)) ?new = map (\<lambda>x. l3_plaintext (fst x)) ?old"
    using b(2-4) fst_old map_map [of strip_op fst ?old] map_map [of l3_plaintext fst ?old]
    by (simp_all add: comp_def flip: b(3))
  show ?thesis
  proof (rule l3_inv_move [OF inv])
    show "map (\<lambda>x. strip_op (fst x)) (pipeline ?t) = map (\<lambda>x. strip_op (fst x)) (pipeline s)"
      unfolding pl map_append eq ..
    have "items_ok enc m (pipeline ?t) = items_ok enc m (pipeline s)" for enc m
      by (rule items_ok_cong) (simp_all only: pl map_append eq)
    then show "items_ok (enc_of os (sy_proxy s)) (fold kv_apply (sy_answered s) m0) (pipeline ?t)"
      using inv by (simp add: l3_inv_def Let_def)
  qed (use inv r(1) in \<open>simp_all add: l3_inv_def Let_def p\<close>)
qed

text \<open>The crypto thread turns a batch of fetched values into writes that the specification expects.\<close>

definition extends_puts :: "redis_interface \<Rightarrow> (string \<times> string \<times> l3_operation) list \<Rightarrow> redis_interface \<Rightarrow> bool" where
  "extends_puts i q j \<longleftrightarrow>
     rd_ok j \<and> length (rd_clients j) = length (rd_clients i) \<and> grows i j \<and> gets_for j 0 = gets_for i 0 \<and>
     puts_for j 0 = puts_for i 0 @ q"

lemma extends_puts_trans: "extends_puts i q j \<Longrightarrow> extends_puts j r k \<Longrightarrow> extends_puts i (q @ r) k"
  using grows_trans by (auto simp: extends_puts_def)

lemma extends_puts_flush:
  assumes "rd_ok i" "length (rd_clients i) = 1"
  shows "\<exists>j. ri_flush i = (Inr (), j) \<and> extends_puts i [] j"
  using ri_flush_requests [OF assms(1)] assms(2) by (auto simp: same_requests_def extends_puts_def)

lemma l3_crypto_op_writes:
  assumes run: "l3_crypto_op e os co p = (Inr (), p')"
    and i: "l3p_storage2 p = Some i" "rd_ok i" "length (rd_clients i) = 1" and eng: "engine_works os (l3p_engine p)"
    and ok: "item_ok (enc_of os p) m (co_l3_op co, Fetched (co_kv_response co))"
  obtains n j c op where "p' = p\<lparr>l3p_tick := n, l3p_storage2 := Some j\<rparr>" "extends_puts i [(l3_label op, c, op)] j"
    "strip_op op = strip_op (co_l3_op co)" "item_ok (enc_of os p) m (op, Writing c)"
proof -
  obtain n j c x op where r: "p' = p\<lparr>l3p_tick := n, l3p_storage2 := Some j\<rparr>"
    "ri_async_put (l3_label (co_l3_op co)) c op i = (Inr (), j)" "strip_op op = strip_op (co_l3_op co)" "l3_plaintext op = x"
    "stores os (l3p_encryption_enabled p) (l3p_engine p) x c"
    "if l3_value (co_l3_op co) \<noteq> [] then x = l3_value (co_l3_op co)
     else \<exists>u. l3_decrypt os (co_kv_response co) (p\<lparr>l3p_tick := u\<rparr>) = (Inr x, p\<lparr>l3p_tick := u\<rparr>)"
    by (rule l3_crypto_op_result [OF run i(1)])
  note f = strip_op_eqD [OF r(3)]
  have x: "x = kv_apply op m (l3_label op)"
  proof (cases "l3_value op = []")
    case True
    then obtain u where u: "l3_decrypt os (co_kv_response co) (p\<lparr>l3p_tick := u\<rparr>) = (Inr x, p\<lparr>l3p_tick := u\<rparr>)"
      using r(6) f(2) by auto
    have "stores os (l3p_encryption_enabled p) (l3p_engine p) (m (l3_label op)) (co_kv_response co)"
      using ok True f by (simp add: item_ok_def enc_of_def)
    from decrypt_stored [OF eng this _ _ u] have "x = m (l3_label op)" by simp
    with True show ?thesis by (simp add: kv_apply_def)
  next
    case False
    then show ?thesis using r(6) f(2) by (simp add: kv_apply_def)
  qed
  have "rd_server i k = 0" for k using rd_server_single [OF i(3,2)] .
  with ri_async_put_requests [OF i(2) r(2)] i(3) grows_async(2) [OF i(2), of "l3_label (co_l3_op co)" c op] r(2) f(1)
  have "extends_puts i [(l3_label op, c, op)] j" by (simp add: extends_puts_def)
  moreover have "item_ok (enc_of os p) m (op, Writing c)" using r(4,5) x by (simp add: item_ok_def enc_of_def)
  ultimately show thesis using that r(1,3) by blast
qed

lemma l3_crypto_batch_writes:
  assumes "for_each batch (l3_crypto_op e os) p = (Inr (), p')"
    and "l3p_storage2 p = Some i" "rd_ok i" "length (rd_clients i) = 1" "engine_works os (l3p_engine p)"
    and "items_ok (enc_of os p) m (map (\<lambda>c. (co_l3_op c, Fetched (co_kv_response c))) batch)"
  shows "\<exists>n j q. p' = p\<lparr>l3p_tick := n, l3p_storage2 := Some j\<rparr> \<and> extends_puts i q j \<and>
           list_all (\<lambda>(k, v, op). k = l3_label op) q \<and>
           map (\<lambda>(k, v, op). strip_op op) q = map (\<lambda>c. strip_op (co_l3_op c)) batch \<and>
           items_ok (enc_of os p) m (map (\<lambda>(k, v, op). (op, Writing v)) q)"
  using assms
proof (induction batch arbitrary: p i m)
  case Nil
  then have "p' = p\<lparr>l3p_tick := l3p_tick p, l3p_storage2 := Some i\<rparr>" by (simp add: ret_apply)
  moreover have "extends_puts i [] i" using Nil.prems by (simp add: extends_puts_def grows_refl)
  ultimately show ?case by (intro exI [of _ "l3p_tick p"] exI [of _ i] exI [of _ "[]"] conjI) simp_all
next
  case (Cons co batch)
  obtain p1 where p1: "l3_crypto_op e os co p = (Inr (), p1)" "for_each batch (l3_crypto_op e os) p1 = (Inr (), p')"
    using Cons.prems(1) by (auto simp: for_each_Cons simp del: for_each.simps split: prod.splits sum.splits)
  have ok: "item_ok (enc_of os p) m (co_l3_op co, Fetched (co_kv_response co))"
    "items_ok (enc_of os p) (kv_apply (co_l3_op co) m) (map (\<lambda>c. (co_l3_op c, Fetched (co_kv_response c))) batch)"
    using Cons.prems(6) by simp_all
  obtain n j c op where j: "p1 = p\<lparr>l3p_tick := n, l3p_storage2 := Some j\<rparr>" "extends_puts i [(l3_label op, c, op)] j"
    "strip_op op = strip_op (co_l3_op co)" "item_ok (enc_of os p) m (op, Writing c)"
    by (rule l3_crypto_op_writes [OF p1(1) Cons.prems(2-5) ok(1)])
  have enc: "enc_of os p1 = enc_of os p" "l3p_engine p1 = l3p_engine p" by (simp_all add: enc_of_def j(1))
  have "l3p_storage2 p1 = Some j" "rd_ok j" "length (rd_clients j) = 1"
    using j(1,2) Cons.prems(4) by (simp_all add: extends_puts_def)
  from Cons.IH [OF p1(2) this, of "kv_apply (co_l3_op co) m"] Cons.prems(5) ok(2)
  obtain n' k q where q: "p' = p1\<lparr>l3p_tick := n', l3p_storage2 := Some k\<rparr>" "extends_puts j q k"
    "list_all (\<lambda>(k, v, op). k = l3_label op) q" "map (\<lambda>(k, v, op). strip_op op) q = map (\<lambda>c. strip_op (co_l3_op c)) batch"
    "items_ok (enc_of os p) (kv_apply (co_l3_op co) m) (map (\<lambda>(k, v, op). (op, Writing v)) q)"
    unfolding enc by blast
  let ?q = "(l3_label op, c, op) # q"
  have "p' = p\<lparr>l3p_tick := n', l3p_storage2 := Some k\<rparr>" using q(1) j(1) by simp
  moreover have "extends_puts i ?q k" using extends_puts_trans [OF j(2) q(2)] by simp
  moreover have "items_ok (enc_of os p) m (map (\<lambda>(k, v, op). (op, Writing v)) ?q)"
    using j(4) q(5) kv_apply_strip [OF j(3)] by simp
  moreover have "list_all (\<lambda>(k, v, op). k = l3_label op) ?q"
    "map (\<lambda>(k, v, op). strip_op op) ?q = map (\<lambda>c. strip_op (co_l3_op c)) (co # batch)"
    using q(3,4) j(3) by simp_all
  ultimately show ?case by blast
qed

lemma l3_inv_crypto:
  assumes inv: "l3_inv os m0 s" and run: "\<not> l3p_finished (sy_proxy s)" "l3_crypto_step e os (sy_proxy s) = Some (Inr (), p)"
  shows "l3_inv os m0 (s\<lparr>sy_proxy := p\<rparr>)"
proof -
  let ?t = "s\<lparr>sy_proxy := p\<rparr>" and ?m = "fold kv_apply (sy_answered s) m0" and ?enc = "enc_of os (sy_proxy s)"
  obtain batch rest where b: "l3p_crypto_queue (sy_proxy s) = batch # rest"
    using run(2) by (auto simp: l3_crypto_step_def split: list.splits)
  let ?p0 = "(sy_proxy s)\<lparr>l3p_crypto_queue := rest\<rparr>"
  let ?fetched = "map (\<lambda>c. (co_l3_op c, Fetched (co_kv_response c))) batch"
  have seq: "seqM (for_each batch (l3_crypto_op e os)) (on_storage2 ri_flush) ?p0 = (Inr (), p)"
    using run b by (simp add: l3_crypto_step_def Let_def)
  then obtain p1 where p1: "for_each batch (l3_crypto_op e os) ?p0 = (Inr (), p1)" "on_storage2 ri_flush p1 = (Inr (), p)"
    by (auto simp: seqM_apply split: prod.splits sum.splits)
  have fs: "iface_ok (l3p_storage2 (sy_proxy s)) (sy_puts_served s)" "engine_works os (l3p_engine (sy_proxy s))"
    "items_ok ?enc ?m (pipeline s)"
    using inv by (simp_all add: l3_inv_def Let_def)
  obtain i where i: "l3p_storage2 (sy_proxy s) = Some i" "rd_ok i" "length (rd_clients i) = 1" "list_all rd_wf (rd_sent i)"
    "sy_puts_served s \<le> length (rd_sent i)" "list_all (\<lambda>(k, op). k = l3_label op) (gets_for i 0)"
    "list_all (\<lambda>(k, v, op). k = l3_label op) (puts_for i 0)"
    using fs(1) by (rule iface_okE)
  let ?front = "written_part s @ writing_part s"
  let ?behind = "map (\<lambda>c. (co_l3_op c, Fetched (co_kv_response c))) (concat rest) @ reply_part s @ waiting_part s"
  have old: "pipeline s = ?front @ ?fetched @ ?behind" by (simp add: pipeline_def crypto_part_def b)
  have ok: "items_ok ?enc (fold kv_apply (map fst ?front) ?m) ?fetched"
    using fs(3) unfolding old items_ok_append by simp
  have enc0: "enc_of os ?p0 = ?enc" by (simp add: enc_of_def)
  obtain n j q where q: "p1 = ?p0\<lparr>l3p_tick := n, l3p_storage2 := Some j\<rparr>" "extends_puts i q j"
    "list_all (\<lambda>(k, v, op). k = l3_label op) q" "map (\<lambda>(k, v, op). strip_op op) q = map (\<lambda>c. strip_op (co_l3_op c)) batch"
    "items_ok ?enc (fold kv_apply (map fst ?front) ?m) (map (\<lambda>(k, v, op). (op, Writing v)) q)"
    using l3_crypto_batch_writes [OF p1(1) _ i(2,3), of "fold kv_apply (map fst ?front) ?m"] fs(2) i(1) ok unfolding enc0 by auto
  obtain k where k: "ri_flush j = (Inr (), k)" "extends_puts j [] k"
    using extends_puts_flush [of j] q(2) i(3) by (auto simp: extends_puts_def)
  have p: "p = ?p0\<lparr>l3p_tick := n, l3p_storage2 := Some k\<rparr>"
    using p1(2) k(1) q(1) by (simp add: on_storage2_def)
  have ik: "extends_puts i q k" using extends_puts_trans [OF q(2) k(2)] by simp
  then have gr: "grows i k" "gets_for k 0 = gets_for i 0" "puts_for k 0 = puts_for i 0 @ q" "rd_ok k" "length (rd_clients k) = 1"
    using i(3) by (simp_all add: extends_puts_def)
  note w = waits_grow [OF gr(1) i(3,5)]
  have new: "pipeline ?t = ?front @ map (\<lambda>(k, v, op). (op, Writing v)) q @ ?behind"
    using w(4) [OF gr(3)] by (simp add: pipeline_def part_defs p i(1))
  have fq: "map (\<lambda>x. strip_op (fst x)) (map (\<lambda>(k, v, op). (op, Writing v)) q) = map (\<lambda>x. strip_op (fst x)) ?fetched"
    using q(4) by (simp add: comp_def case_prod_unfold)
  show ?thesis
  proof (rule l3_inv_move [OF inv])
    show "map (\<lambda>x. strip_op (fst x)) (pipeline ?t) = map (\<lambda>x. strip_op (fst x)) (pipeline s)"
      unfolding old new map_append fq ..
    show "iface_ok (l3p_storage2 (sy_proxy ?t)) (sy_puts_served ?t)"
      using gr i(4,6,7) w(1,2) q(3) by (simp add: p iface_ok_def)
    have "fold kv_apply (map fst (map (\<lambda>(k, v, op). (op, Writing v)) q)) = fold kv_apply (map fst ?fetched)"
      by (rule fold_kv_strip) (use fq in \<open>simp add: comp_def\<close>)
    then show "items_ok ?enc ?m (pipeline ?t)"
      using fs(3) q(5) unfolding old new items_ok_append by simp
  qed (use inv in \<open>simp_all add: l3_inv_def Let_def p\<close>)
qed

lemma call_puts_Mset:
  assumes "length kvs = length ops"
  shows "map (\<lambda>(k, v, op). (k, v)) (call_puts (Mset kvs ops)) = kvs" "map (\<lambda>(k, v, op). op) (call_puts (Mset kvs ops)) = ops"
  using assms by (induction kvs ops rule: list_induct2) auto

lemma l3_inv_serve_put:
  assumes inv: "l3_inv os m0 s"
    and n: "sy_puts_served s < length (rd_sent (the (l3p_storage2 (sy_proxy s))))"
      "rd_sent (the (l3p_storage2 (sy_proxy s))) ! sy_puts_served s = Mset kvs ops"
  shows "l3_inv os m0 (s\<lparr>sy_puts_served := sy_puts_served s + 1, sy_confirms := sy_confirms s @ [ops],
           sy_store := mset_store kvs (sy_store s)\<rparr>)"
proof -
  let ?t = "s\<lparr>sy_puts_served := sy_puts_served s + 1, sy_confirms := sy_confirms s @ [ops], sy_store := mset_store kvs (sy_store s)\<rparr>"
  let ?m = "fold kv_apply (sy_answered s) m0" and ?enc = "enc_of os (sy_proxy s)"
  have fs: "iface_ok (l3p_storage2 (sy_proxy s)) (sy_puts_served s)" "items_ok ?enc ?m (pipeline s)"
    "agrees ?enc (fold kv_apply (concat (sy_confirms s)) ?m) (sy_store s)"
    using inv by (simp_all add: l3_inv_def Let_def)
  obtain i where i: "l3p_storage2 (sy_proxy s) = Some i" "rd_ok i" "length (rd_clients i) = 1" "list_all rd_wf (rd_sent i)"
    "sy_puts_served s \<le> length (rd_sent i)" "list_all (\<lambda>(k, op). k = l3_label op) (gets_for i 0)"
    "list_all (\<lambda>(k, v, op). k = l3_label op) (puts_for i 0)"
    using fs(1) by (rule iface_okE)
  have n': "sy_puts_served s < length (rd_sent i)" "rd_sent i ! sy_puts_served s = Mset kvs ops" using n i(1) by simp_all
  have len: "length kvs = length ops" using i(4) n' by (auto simp: list_all_length)
  define q where "q = call_puts (Mset kvs ops)"
  note q = call_puts_Mset [OF len, folded q_def]
  note w = waits_serve(2) [OF n'(1), unfolded n'(2), folded q_def]
  have lab: "list_all (\<lambda>(k, v, op). k = l3_label op) q"
    using i(7) unfolding waits_split(2) [OF i(5)] w by simp
  let ?wr = "map (\<lambda>(k, v, op). (op, Writing v)) q" and ?wn = "map (\<lambda>op. (op, Written)) ops"
  let ?rest = "map (\<lambda>(k, v, op). (op, Writing v)) (wait_puts i (sy_puts_served s + 1)) @ crypto_part s @ reply_part s @ waiting_part s"
  have old: "pipeline s = written_part s @ ?wr @ ?rest" by (simp add: pipeline_def writing_part_def i(1) w)
  have new: "pipeline ?t = written_part s @ ?wn @ ?rest" by (simp add: pipeline_def part_defs i(1))
  have fst_wr: "map fst ?wr = ops" "map fst ?wn = ops" using q(2) by (simp_all add: comp_def case_prod_unfold)
  have wr: "items_ok ?enc (fold kv_apply (map fst (written_part s)) ?m) ?wr" using fs(2) unfolding old items_ok_append by simp
  have "map fst (written_part s) = concat (sy_confirms s)" by (simp add: written_part_def comp_def)
  note ag = agrees_mset [OF fs(3) wr [unfolded this] lab, unfolded q]
  have "map (\<lambda>(k, v, op). (op, Written)) q = ?wn" unfolding q(2) [symmetric] by (simp add: case_prod_unfold comp_def)
  with items_ok_written [OF wr] have wn: "items_ok ?enc (fold kv_apply (map fst (written_part s)) ?m) ?wn" by simp
  show ?thesis
  proof (rule l3_inv_move [OF inv])
    show "map (\<lambda>x. strip_op (fst x)) (pipeline ?t) = map (\<lambda>x. strip_op (fst x)) (pipeline s)"
      unfolding map_of_fst old new map_append fst_wr ..
    show "iface_ok (l3p_storage2 (sy_proxy ?t)) (sy_puts_served ?t)" using i n'(1) by (simp add: iface_ok_def)
    show "agrees ?enc (fold kv_apply (concat (sy_confirms ?t)) ?m) (sy_store ?t)" using ag by simp
    show "items_ok ?enc ?m (pipeline ?t)" using fs(2) wn unfolding old new items_ok_append fst_wr by simp
  qed (use inv in \<open>simp_all add: l3_inv_def Let_def\<close>)
qed

text \<open>The parts of the worker that its pipeline lives in.\<close>

definition same_core :: "'k l3_proxy \<Rightarrow> 'k l3_proxy \<Rightarrow> bool" where
  "same_core p p' \<longleftrightarrow>
     l3p_storage p' = l3p_storage p \<and> l3p_storage2 p' = l3p_storage2 p \<and> l3p_crypto_queue p' = l3p_crypto_queue p \<and>
     l3p_engine p' = l3p_engine p \<and> l3p_encryption_enabled p' = l3p_encryption_enabled p"

lemma keeps_same_core_put_cb: "keeps (same_core p) (l3_put_cb e ops)"
proof -
  have "keeps (same_core p) l3_next_tick" by (rule keepsI) (simp add: l3_next_tick_def same_core_def)
  moreover have "keeps (same_core p) (l3_send_ack q)" for q
    by (rule keepsI) (auto simp: l3_send_ack_def same_core_def split: option.splits prod.splits)
  moreover have "keeps (same_core p) (modify (\<lambda>s. s\<lparr>l3p_respond_queue := f s\<rparr>))" for f
    by (rule keepsI) (simp add: modify_apply same_core_def)
  ultimately show ?thesis unfolding l3_put_cb_def l3_stamp_def by (intro keeps_intros)
qed

lemma same_core_put_reply:
  "on_mset_reply api (l3_put_cb e) ops r p = (Inr (), p') \<Longrightarrow> same_core p p'"
  using keepsD [OF keeps_same_core_put_cb, of p p e ops]
  by (auto simp: on_mset_reply_def throw_apply same_core_def split: if_splits)

lemma same_core_responder: "l3_responder_step e p = Some (r, p') \<Longrightarrow> same_core p p'"
  by (auto simp: l3_responder_step_def cpp_simps l3_next_tick_def same_core_def split: option.splits prod.splits if_splits)

lemma same_core_reconnect: "l3_update_connections e t col h pt n p = (r, p') \<Longrightarrow> same_core p p'"
  by (auto simp: l3_update_connections_def same_core_def Let_def split: option.splits prod.splits if_splits)

lemma l3_inv_same_core:
  assumes "same_core (sy_proxy s) p" "l3_inv os m0 s"
  shows "l3_inv os m0 (s\<lparr>sy_proxy := p\<rparr>)"
proof -
  have "pipeline (s\<lparr>sy_proxy := p\<rparr>) = pipeline s" using assms(1) by (simp add: pipeline_def part_defs same_core_def)
  then show ?thesis using assms by (simp add: l3_inv_def Let_def same_core_def enc_of_def)
qed

lemma l3_inv_answer:
  assumes inv: "l3_inv os m0 s" and c: "sy_confirms s = ops # rest"
  shows "l3_inv os m0 (s\<lparr>sy_confirms := rest, sy_answered := sy_answered s @ ops\<rparr>)"
proof -
  let ?t = "s\<lparr>sy_confirms := rest, sy_answered := sy_answered s @ ops\<rparr>"
  let ?m = "fold kv_apply (sy_answered s) m0" and ?enc = "enc_of os (sy_proxy s)"
  have pl: "pipeline s = map (\<lambda>op. (op, Written)) ops @ pipeline ?t" by (simp add: pipeline_def part_defs c)
  have ok: "items_ok ?enc ?m (pipeline s)" "ordered (map fst (pipeline s))"
    "map l3_plaintext (sy_answered s) = kv_answers m0 (sy_answered s)"
    using inv by (simp_all add: l3_inv_def Let_def)
  have "map l3_plaintext ops = kv_answers ?m ops"
    using ok(1) unfolding pl items_ok_append by (blast intro: answers_of_written)
  then have "map l3_plaintext (sy_answered ?t) = kv_answers m0 (sy_answered ?t)" using ok(3) by (simp add: kv_answers_append)
  moreover have "ordered (map fst (pipeline ?t))"
    using ok(2) ordered_infix [of "map fst (map (\<lambda>op. (op, Written)) ops)" "map fst (pipeline ?t)" "[]"] unfolding pl by simp
  moreover have "items_ok ?enc (fold kv_apply (sy_answered ?t) m0) (pipeline ?t)"
    using ok(1) unfolding pl items_ok_append by (simp add: comp_def)
  ultimately show ?thesis using inv c unfolding l3_inv_def Let_def pl by (simp add: comp_def)
qed

lemma l3_inv_step: "l3_step e os api s t \<Longrightarrow> keeps_promise s t \<Longrightarrow> l3_inv os m0 s \<Longrightarrow> l3_inv os m0 t"
proof (induction rule: l3_step.induct)
  case (accept q label val is_read dedup s p)
  then have "val \<noteq> [] \<or> no_pending_write s label" by (simp add: keeps_promise_def l3_op_of_def)
  with accept show ?case by (blast intro: l3_inv_accept)
next
  case (put_reply s ops rest r p)
  from l3_inv_same_core [OF same_core_put_reply [OF put_reply.hyps(2)] put_reply.prems(2)] put_reply.hyps(1)
  show ?case by (auto dest: l3_inv_answer)
qed (blast intro: l3_inv_serve_get l3_inv_get_reply l3_inv_crypto l3_inv_serve_put l3_inv_same_core
    same_core_responder same_core_reconnect)+

lemma l3_step_accepted: "l3_step e os api s t \<Longrightarrow> prefix (sy_accepted s) (sy_accepted t)"
  by (induction rule: l3_step.induct) auto

text \<open>Runs in which nothing is accepted keep the promise.\<close>

lemma promised_inner:
  assumes "l3_reachable e os api s t" "length (sy_accepted t) = length (sy_accepted s)"
  shows "promised_run e os api s t"
  using assms unfolding l3_reachable_def
proof (induction rule: rtranclp_induct)
  case base
  then show ?case by (simp add: promised_run_def)
next
  case (step t u)
  have "prefix (sy_accepted s) (sy_accepted t)"
    using step.hyps(1) by (induction rule: rtranclp_induct) (auto dest: l3_step_accepted intro: prefix_order.trans)
  with l3_step_accepted [OF step.hyps(2)] step.prems have a: "sy_accepted u = sy_accepted t" "length (sy_accepted t) = length (sy_accepted s)"
    by (auto simp: prefix_def)
  then have "keeps_promise t u" by (simp add: keeps_promise_def)
  with step a(2) show ?case unfolding promised_run_def by (auto intro: rtranclp.rtrancl_into_rtrancl)
qed

section \<open>Properties\<close>

text \<open>A worker with nothing under way, whose server holds the cipher texts of \<open>m0\<close>.\<close>

definition l3_start :: "'k openssl \<Rightarrow> (string \<Rightarrow> string) \<Rightarrow> 'k l3_system \<Rightarrow> bool" where
  "l3_start os m0 s \<longleftrightarrow>
     iface_ok (l3p_storage (sy_proxy s)) (sy_gets_served s) \<and> iface_ok (l3p_storage2 (sy_proxy s)) (sy_puts_served s) \<and>
     engine_works os (l3p_engine (sy_proxy s)) \<and> sy_replies s = [] \<and> sy_confirms s = [] \<and> pipeline s = [] \<and>
     sy_accepted s = [] \<and> sy_answered s = [] \<and> agrees (enc_of os (sy_proxy s)) m0 (sy_store s)"

lemma l3_inv_start: "l3_start os m0 s \<Longrightarrow> l3_inv os m0 s"
  by (simp add: l3_start_def l3_inv_def ordered_def)

lemma l3_inv_reachable:
  assumes "promised_run e os api s0 s" "l3_start os m0 s0"
  shows "l3_inv os m0 s"
  using assms(1) unfolding promised_run_def
  by (induction rule: rtranclp_induct) (auto intro: l3_inv_step l3_inv_start [OF assms(2)])

text \<open>
  C8. The third layer refines a store that executes one operation after the other, if the second layer keeps its promise that no request without a value arrives while a write to its label is
  under way: then in every reachable state, whatever the interleaving of handler,
  server, callbacks and threads and however requests were batched, the operations answered so far are the first ones
  accepted, in order and each once; each was answered with the value that the sequential store has at that
  point; and when nothing is under way, all are answered and the server holds the cipher texts of the
  contents of the sequential store.
\<close>

theorem l3_refines_sequential_store:
  assumes "promised_run e os api s0 s" "l3_start os m0 s0"
  shows "map strip_op (sy_answered s) = map strip_op (take (length (sy_answered s)) (sy_accepted s)) \<and>
         map l3_plaintext (sy_answered s) = kv_answers m0 (take (length (sy_answered s)) (sy_accepted s)) \<and>
         (pipeline s = [] \<longrightarrow>
            length (sy_answered s) = length (sy_accepted s) \<and>
            agrees (enc_of os (sy_proxy s)) (fold kv_apply (sy_accepted s) m0) (sy_store s))"
proof -
  have inv: "map strip_op (sy_accepted s) = map strip_op (sy_answered s) @ map (\<lambda>x. strip_op (fst x)) (pipeline s)"
    "agrees (enc_of os (sy_proxy s)) (fold kv_apply (concat (sy_confirms s)) (fold kv_apply (sy_answered s) m0)) (sy_store s)"
    "map l3_plaintext (sy_answered s) = kv_answers m0 (sy_answered s)"
    using l3_inv_reachable [OF assms] by (simp_all add: l3_inv_def Let_def)
  have eq: "map strip_op (sy_answered s) = map strip_op (take (length (sy_answered s)) (sy_accepted s))"
    unfolding take_map [symmetric] inv(1) by simp
  have "length (sy_answered s) = length (sy_accepted s) \<and>
      agrees (enc_of os (sy_proxy s)) (fold kv_apply (sy_accepted s) m0) (sy_store s)" if "pipeline s = []"
  proof -
    have "concat (sy_confirms s) = []" using that by (simp add: pipeline_def written_part_def)
    moreover have all: "map strip_op (sy_accepted s) = map strip_op (sy_answered s)" using inv(1) that by simp
    ultimately show ?thesis using inv(2) fold_kv_strip [OF all] map_eq_imp_length_eq [OF all]
      by (simp del: concat_eq_Nil_conv)
  qed
  with eq inv(3) kv_answers_strip [OF eq, of m0] show ?thesis by simp
qed

text \<open>A run for an example: one server, batches of one, no encryption, and a write of label 7 that goes all the way.\<close>

definition example_api :: "string list reply_api" where
  "example_api =
     \<lparr>rp_is_error = \<lambda>_. False, rp_error = \<lambda>_. [], rp_is_null = \<lambda>_. False, rp_as_array = \<lambda>r. Inr (map (\<lambda>v. [v]) r),
      rp_as_string = \<lambda>r. Inr (concat r)\<rparr>"

definition example_conn :: "l3_operation redis_call list \<Rightarrow> redis_interface" where
  "example_conn cs =
     \<lparr>rd_batch_size = 1, rd_clients = [\<lparr>cl_host = ''kv'', cl_port = 6379, cl_sent = cs\<rparr>], rd_get_queues = [[]], rd_put_queues = [[]]\<rparr>"

definition example_worker :: "string l3_proxy" where
  "example_worker =
     l3_proxy_new\<lparr>l3p_storage := Some (example_conn []), l3p_storage2 := Some (example_conn []), l3p_last_seen := [- 1],
       l3p_encryption_enabled := False, l3p_ack_delivery := False\<rparr>"

definition example_system :: "string l3_system" where
  "example_system =
     \<lparr>sy_proxy = example_worker, sy_store = [''7'' \<mapsto> ''old''], sy_gets_served = 0, sy_replies = [], sy_puts_served = 0,
      sy_confirms = [], sy_accepted = [], sy_answered = []\<rparr>"

definition example_op :: "sequence_id \<Rightarrow> l3_operation" where
  "example_op q = l3_op_of q ''7'' ''new'' False True"

abbreviation example_write :: "l3_operation" where
  "example_write \<equiv> example_op sequence_id_new"

lemma example_conn_ok: "rd_ok (example_conn cs)"
  by (simp add: example_conn_def rd_ok_def)

lemma example_conn_get: "ri_async_get k a (example_conn cs) = (Inr (), example_conn (cs @ [Mget [k] [a]]))"
  unfolding ri_async_get_eq [OF example_conn_ok]
  by (simp add: rd_server_def example_conn_def one_server sent_on_def mget_of_def)

lemma example_conn_put: "ri_async_put k v a (example_conn cs) = (Inr (), example_conn (cs @ [Mset [(k, v)] [a]]))"
  unfolding ri_async_put_eq [OF example_conn_ok]
  by (simp add: rd_server_def example_conn_def one_server sent_on_def mset_of_def)

lemma example_conn_flush: "ri_flush (example_conn cs) = (Inr (), example_conn cs)"
  by (simp add: ri_flush_def cpp_simps example_conn_def flush_get_queue_def flush_put_queue_def)

lemma example_system_start: "l3_start example_openssl (\<lambda>_. ''old'') example_system"
  by (simp add: l3_start_def example_system_def example_worker_def iface_ok_def example_conn_ok l3_proxy_new_def engine_works_def
      pipeline_def part_defs agrees_def enc_of_def stores_def gets_for_def puts_for_def wait_puts_def wait_gets_def)
    (simp add: example_conn_def rd_sent_def)

lemma example_run:
  assumes q: "l2_idx q = 0" "0 \<le> l2_seq_no q" "client_id q = 0"
  obtains p s where
    "l3_async_operation example_env q ''7'' ''new'' False True (sy_proxy example_system) = (Inr (), p)"
    "l3p_req_cnt p \<noteq> l3p_req_cnt (sy_proxy example_system)"
    "l3_reachable example_env example_openssl example_api (example_system\<lparr>sy_proxy := p, sy_accepted := [example_op q]\<rparr>) s"
    "sy_answered s = [(example_op q)\<lparr>l3_plaintext := ''new''\<rparr>]" "sy_accepted s = [example_op q]" "pipeline s = []"
    "sy_store s = [''7'' \<mapsto> ''new'']"
proof -
  let ?step = "l3_step example_env example_openssl example_api" and ?op = "example_op q"
  let ?op' = "?op\<lparr>l3_plaintext := ''new''\<rparr>"
  define p1 where "p1 = example_worker\<lparr>l3p_last_seen := [max (- 1) (l2_seq_no q)], l3p_req_cnt := 1, l3p_storage := Some (example_conn [Mget [''7''] [?op]])\<rparr>"
  define s1 where "s1 = example_system\<lparr>sy_proxy := p1, sy_accepted := [?op]\<rparr>"
  define s2 where "s2 = s1\<lparr>sy_gets_served := 1, sy_replies := [([?op], [''old''])]\<rparr>"
  define p3 where "p3 = p1\<lparr>l3p_crypto_queue := [[\<lparr>co_l3_op = ?op, co_kv_response = ''old''\<rparr>]]\<rparr>"
  define s3 where "s3 = s2\<lparr>sy_proxy := p3, sy_replies := []\<rparr>"
  define p4 where "p4 = p3\<lparr>l3p_crypto_queue := [], l3p_storage2 := Some (example_conn [Mset [(''7'', ''new'')] [?op']])\<rparr>"
  define s4 where "s4 = s3\<lparr>sy_proxy := p4\<rparr>"
  define s5 where "s5 = s4\<lparr>sy_puts_served := 1, sy_confirms := [[?op']], sy_store := [''7'' \<mapsto> ''new'']\<rparr>"
  define p6 where "p6 = p4\<lparr>l3p_respond_queue := wq_push (l3_response_of ?op') (l3p_respond_queue p4)\<rparr>"
  define s6 where "s6 = s5\<lparr>sy_proxy := p6, sy_confirms := [], sy_answered := [?op']\<rparr>"
  note states = s6_def s5_def s4_def s3_def s2_def s1_def p6_def p4_def p3_def p1_def
  note base = example_system_def example_worker_def l3_proxy_new_def example_op_def l3_op_of_def
  have 0: "l3_async_operation example_env q ''7'' ''new'' False True (sy_proxy example_system) = (Inr (), p1)"
    using q by (simp add: l3_async_operation_def cpp_simps on_storage_def example_conn_get states base)
  have 2: "?step s1 s2"
    using l3_step.serve_get [of s1 "[''7'']" "[?op]" "[''old'']"] by (simp add: states base example_conn_def rd_sent_def)
  have "mget_values example_api [''old''] = Inr [''old'']"
    by (simp add: mget_values_def nested_value_def example_api_def)
  moreover from this have "on_mget_reply example_api (l3_get_cb example_env) [?op] [''old''] (sy_proxy s2) = (Inr (), p3)"
    by (simp add: on_mget_reply_def cpp_simps l3_get_cb_def l3_stamp_def states base upt_rec)
  ultimately have 3: "?step s2 s3"
    using l3_step.get_reply [of s2 "[?op]" "[''old'']" "[]" example_api "[''old'']" example_env p3] by (simp add: s3_def s2_def)
  have "l3_crypto_step example_env example_openssl (sy_proxy s3) = Some (Inr (), p4)"
    by (simp add: l3_crypto_step_def l3_crypto_op_def Let_def cpp_simps l3_stamp_def l3_decrypt_def l3_encrypt_def on_storage2_def
        example_conn_put example_conn_flush states base)
  then have 4: "?step s3 s4"
    using l3_step.crypto_turn [of s3 example_env example_openssl p4] by (simp add: s4_def) (simp add: states base)
  have 5: "?step s4 s5"
    using l3_step.serve_put [of s4 "[(''7'', ''new'')]" "[?op']"]
    by (simp add: states base example_conn_def rd_sent_def mset_store_def)
  have "on_mset_reply example_api (l3_put_cb example_env) [?op'] [] (sy_proxy s5) = (Inr (), p6)"
    using q(3) by (simp add: on_mset_reply_def l3_put_cb_def cpp_simps l3_stamp_def l3_fake_client_id_def l3_response_of_def example_api_def
        states base)
  then have 6: "?step s5 s6"
    using l3_step.put_reply [of s5 "[?op']" "[]" example_api example_env "[]" p6] by (simp add: s6_def s5_def) (simp add: states base)
  show thesis
  proof (rule that)
    show "l3_reachable example_env example_openssl example_api (example_system\<lparr>sy_proxy := p1, sy_accepted := [?op]\<rparr>) s6"
      unfolding l3_reachable_def s1_def [symmetric] using 2 3 4 5 6 by (meson converse_rtranclp_into_rtranclp r_into_rtranclp)
    show "pipeline s6 = []"
      by (simp add: pipeline_def part_defs wait_gets_def wait_puts_def states base example_conn_def rd_sent_def)
    show "l3_async_operation example_env q ''7'' ''new'' False True (sy_proxy example_system) = (Inr (), p1)" by (rule 0)
  qed (simp_all add: states base)
qed

theorem l3_refines_sequential_store_witness:
  "\<exists>s. promised_run example_env example_openssl example_api example_system s \<and>
     map l3_plaintext (sy_answered s) = kv_answers (\<lambda>_. ''old'') [example_write] \<and>
     agrees (enc_of example_openssl (sy_proxy s)) (kv_apply example_write (\<lambda>_. ''old'')) (sy_store s)"
proof -
  obtain p s where p: "l3_async_operation example_env sequence_id_new ''7'' ''new'' False True (sy_proxy example_system) = (Inr (), p)"
      "l3p_req_cnt p \<noteq> l3p_req_cnt (sy_proxy example_system)"
    and r: "l3_reachable example_env example_openssl example_api (example_system\<lparr>sy_proxy := p, sy_accepted := [example_write]\<rparr>) s"
    and s: "sy_answered s = [example_write\<lparr>l3_plaintext := ''new''\<rparr>]" "sy_accepted s = [example_write]" "pipeline s = []"
    by (rule example_run [of sequence_id_new]) (simp_all add: sequence_id_new_def)
  have "l3_step example_env example_openssl example_api example_system (example_system\<lparr>sy_proxy := p, sy_accepted := [example_write]\<rparr>)"
    using l3_step.accept [OF p, of example_openssl example_api] by (simp add: example_system_def example_op_def)
  moreover have "keeps_promise example_system (example_system\<lparr>sy_proxy := p, sy_accepted := [example_write]\<rparr>)"
    by (simp add: keeps_promise_def example_system_def example_op_def l3_op_of_def)
  moreover have "promised_run example_env example_openssl example_api (example_system\<lparr>sy_proxy := p, sy_accepted := [example_write]\<rparr>) s"
    by (rule promised_inner [OF r]) (simp add: s)
  ultimately have "promised_run example_env example_openssl example_api example_system s"
    unfolding promised_run_def by (intro converse_rtranclp_into_rtranclp [of _ example_system]) auto
  with l3_refines_sequential_store [OF this example_system_start] s show ?thesis by auto
qed

end
