(* ===== verification/Layers.thy ===== *)
theory Layers
  imports L2_Proxy L3_System
begin

text \<open>
  The second and the third layer together. A worker of the second layer turns requests on keys into operations on
  labels, an operation per request, and its update cache decides which value each of them carries. The connection to
  a worker of the third layer hands it those of its labels, in order. What comes back is what a store by
  key, which executes each request once and at once, would answer. The write that only one replica's label receives
  is not visible at the other labels of the key, which is what makes this more than the composition of two stores.
\<close>

section \<open>The specification: a store by key\<close>

type_synonym l2_req = "sequence_id \<times> string \<times> int \<times> string"

definition put_key :: "string \<Rightarrow> string \<Rightarrow> (string \<Rightarrow> string) \<Rightarrow> string \<Rightarrow> string" where
  "put_key k v m = m(k := (if v \<noteq> [] then v else m k))"

fun key_answers :: "(string \<Rightarrow> string) \<Rightarrow> l2_req list \<Rightarrow> string list" where
  "key_answers m [] = []"
| "key_answers m ((q, k, rep, v) # rs) = put_key k v m k # key_answers (put_key k v m) rs"

text \<open>The requests that are not repetitions, if \<open>ls\<close> holds the last number of each worker of the first layer.\<close>

fun fresh_requests :: "int list \<Rightarrow> l2_req list \<Rightarrow> l2_req list" where
  "fresh_requests ls [] = []"
| "fresh_requests ls ((q, k, rep, v) # rs) =
     (if l1_seq_no q \<le> ls ! nat (l1_idx q) then fresh_requests ls rs
      else (q, k, rep, v) # fresh_requests (ls[nat (l1_idx q) := l1_seq_no q]) rs)"

text \<open>What is forwarded: the label of the replica, and the last value written to the key, empty if there is none.\<close>

fun forwarded :: "(string \<Rightarrow> int \<Rightarrow> string) \<Rightarrow> (string \<Rightarrow> string) \<Rightarrow> l2_req list \<Rightarrow> (string \<times> string) list" where
  "forwarded lab w [] = []"
| "forwarded lab w ((q, k, rep, v) # rs) = (lab k rep, put_key k v w k) # forwarded lab (put_key k v w) rs"

lemma set_fresh_requests: "set (fresh_requests ls rs) \<subseteq> set rs"
  by (induction ls rs rule: fresh_requests.induct) auto

lemma length_key_answers [simp]: "length (key_answers m rs) = length rs"
  by (induction m rs rule: key_answers.induct) simp_all

abbreviation label_value :: "l3_operation \<Rightarrow> string \<times> string" where
  "label_value m \<equiv> (l3_label m, l3_value m)"

section \<open>Labels of different keys are different\<close>

definition labels_apart :: "(string \<Rightarrow> int \<Rightarrow> bool) \<Rightarrow> (string \<Rightarrow> int \<Rightarrow> string) \<Rightarrow> bool" where
  "labels_apart known lab \<longleftrightarrow>
     (\<forall>k r k' r'. known k r \<longrightarrow> known k' r' \<longrightarrow> lab k r = lab k' r' \<longrightarrow> k = k')"

lemma labels_apartD: "labels_apart known lab \<Longrightarrow> known k r \<Longrightarrow> known k' r' \<Longrightarrow> lab k r = lab k' r' \<Longrightarrow> k = k'"
  by (auto simp: labels_apart_def)

abbreviation known_requests :: "(string \<Rightarrow> int \<Rightarrow> bool) \<Rightarrow> l2_req list \<Rightarrow> bool" where
  "known_requests known rs \<equiv> list_all (\<lambda>(q, k, rep, v). known k rep) rs"

text \<open>Once a key is written, every operation on it carries a value.\<close>

lemma forwarded_keeps_value:
  assumes "(lab k rep, []) \<in> set (forwarded lab w rs)" "labels_apart known lab" "known k rep" "known_requests known rs"
  shows "w k = []"
  using assms
proof (induction lab w rs rule: forwarded.induct)
  case (2 lab w q k' rep' v rs)
  have "put_key k' v w k = []"
  proof (cases "(lab k rep, []) = (lab k' rep', put_key k' v w k')")
    case True
    with 2 have "k = k'" by (auto dest: labels_apartD)
    with True show ?thesis by simp
  next
    case False
    with 2 show ?thesis by auto
  qed
  then show ?case by (simp add: put_key_def split: if_splits)
qed simp

lemma forwarded_ordered:
  assumes "map label_value ms = forwarded lab w rs" "labels_apart known lab" "known_requests known rs"
  shows "ordered ms"
  using assms
proof (induction lab w rs arbitrary: ms rule: forwarded.induct)
  case (2 lab w q k rep v rs)
  then obtain m ms' where ms: "ms = m # ms'" "l3_label m = lab k rep" "l3_value m = put_key k v w k"
    "map label_value ms' = forwarded lab (put_key k v w) rs" by (cases ms) auto
  have "l3_value m = []" if "x \<in> set ms'" "l3_label m = l3_label x" "l3_value x = []" for x
  proof -
    have "(lab k rep, []) \<in> set (forwarded lab (put_key k v w) rs)"
      unfolding ms(4) [symmetric] using that ms(2) by force
    with 2 ms(3) show ?thesis using forwarded_keeps_value [of lab k rep "put_key k v w" rs known] by simp
  qed
  with 2 ms show ?case by (auto simp: ordered_def)
qed (simp add: ordered_def)

text \<open>
  The labels of a key may lag behind: only the label that an operation went to has the new value. But as long as the
  cache has no value for a key, all of its labels hold the value of the key.
\<close>

definition lagging :: "(string \<Rightarrow> int \<Rightarrow> bool) \<Rightarrow> (string \<Rightarrow> int \<Rightarrow> string) \<Rightarrow> (string \<Rightarrow> string) \<Rightarrow> (string \<Rightarrow> string) \<Rightarrow> (string \<Rightarrow> string) \<Rightarrow> bool" where
  "lagging known lab w store keys \<longleftrightarrow>
     (\<forall>k r. known k r \<longrightarrow> (if w k = [] then store (lab k r) = keys k else keys k = w k))"

lemma lagging_put:
  assumes "lagging known lab w store keys" "labels_apart known lab" "known k rep"
    and "l3_label m = lab k rep" "l3_value m = put_key k v w k"
  shows "lagging known lab (put_key k v w) (kv_apply m store) (put_key k v keys)"
    and "kv_apply m store (l3_label m) = put_key k v keys k"
  using assms unfolding lagging_def labels_apart_def put_key_def kv_apply_def
  by (auto split: if_splits)

lemma forwarded_answers:
  assumes "map label_value ms = forwarded lab w rs" "labels_apart known lab" "known_requests known rs"
    and "lagging known lab w store keys"
  shows "kv_answers store ms = key_answers keys rs"
  using assms
proof (induction lab w rs arbitrary: ms store keys rule: forwarded.induct)
  case (2 lab w q k rep v rs)
  then obtain m ms' where ms: "ms = m # ms'" "l3_label m = lab k rep" "l3_value m = put_key k v w k"
    "map label_value ms' = forwarded lab (put_key k v w) rs" by (cases ms) auto
  note l = lagging_put [OF "2.prems"(4,2) _ ms(2,3)]
  show ?case using 2 ms l by simp
qed simp

text \<open>
  The answers to some of the operations do not depend on the others, if the others bring no value for the labels of these:
  this holds for the labels of another worker of the third layer and for the operations of another column.
\<close>

lemma kv_answers_agree:
  assumes "\<forall>m \<in> set ms. a (l3_label m) = b (l3_label m)"
  shows "kv_answers a ms = kv_answers b ms"
  using assms
proof (induction ms arbitrary: a b)
  case (Cons m ms)
  then show ?case using Cons.IH [of "kv_apply m a" "kv_apply m b"] by (simp add: kv_apply_def)
qed simp

lemma kv_answers_filter:
  assumes "\<forall>m \<in> set ms. \<forall>m' \<in> set ms. P m \<longrightarrow> \<not> P m' \<longrightarrow> l3_label m = l3_label m' \<longrightarrow> l3_value m' = []"
  shows "kv_answers store (filter P ms) = map snd (filter (\<lambda>(m, a). P m) (zip ms (kv_answers store ms)))"
  using assms
proof (induction ms arbitrary: store)
  case (Cons m ms)
  have "kv_answers store (filter P ms) = kv_answers (kv_apply m store) (filter P ms)" if "\<not> P m"
    using that Cons.prems by (intro kv_answers_agree) (auto simp: kv_apply_def)
  moreover have "kv_answers (kv_apply m store) (filter P ms) =
      map snd (filter (\<lambda>(m, a). P m) (zip ms (kv_answers (kv_apply m store) ms)))"
    by (rule Cons.IH) (use Cons.prems in auto)
  ultimately show ?case by (cases "P m") simp_all
qed simp

definition answers_at :: "(string \<Rightarrow> bool) \<Rightarrow> (string \<Rightarrow> int \<Rightarrow> string) \<Rightarrow> (string \<Rightarrow> string) \<Rightarrow> l2_req list \<Rightarrow> string list" where
  "answers_at P lab keys rs =
     map snd (filter (\<lambda>((q, k, rep, v), a). P (lab k rep)) (zip rs (key_answers keys rs)))"

lemma filter_zip_labels:
  assumes "map label_value ms = forwarded lab w rs"
  shows "map snd (filter (\<lambda>(m, a). P (l3_label m)) (zip ms as)) =
         map snd (filter (\<lambda>((q, k, rep, v), a). P (lab k rep)) (zip rs as))"
  using assms
proof (induction lab w rs arbitrary: ms as rule: forwarded.induct)
  case (2 lab w q k rep v rs)
  then show ?case by (cases ms; cases as) auto
qed simp

lemma forwarded_answers_at:
  assumes "map label_value ms = forwarded lab w rs" "labels_apart known lab" "known_requests known rs"
    and "lagging known lab w store keys"
  shows "kv_answers store (filter (\<lambda>m. P (l3_label m)) ms) = answers_at P lab keys rs"
proof -
  have "kv_answers store (filter (\<lambda>m. P (l3_label m)) ms) =
      map snd (filter (\<lambda>(m, a). P (l3_label m)) (zip ms (key_answers keys rs)))"
    unfolding forwarded_answers [OF assms, symmetric] by (rule kv_answers_filter) auto
  then show ?thesis unfolding answers_at_def filter_zip_labels [OF assms(1)] .
qed

text \<open>A value is forwarded for a label only after a write to its key.\<close>

lemma forwarded_origin:
  assumes "(l, val) \<in> set (forwarded lab w rs)"
  obtains q k rep v where "(q, k, rep, v) \<in> set rs" "l = lab k rep"
    "val \<noteq> [] \<Longrightarrow> w k \<noteq> [] \<or> (\<exists>q' rep' v'. (q', k, rep', v') \<in> set rs \<and> v' \<noteq> [])"
proof -
  have "\<exists>q k rep v. (q, k, rep, v) \<in> set rs \<and> l = lab k rep \<and>
      (val \<noteq> [] \<longrightarrow> w k \<noteq> [] \<or> (\<exists>q' rep' v'. (q', k, rep', v') \<in> set rs \<and> v' \<noteq> []))"
    using assms
  proof (induction lab w rs rule: forwarded.induct)
    case (2 lab w q k rep v rs)
    then consider "l = lab k rep" "val = put_key k v w k" | "(l, val) \<in> set (forwarded lab (put_key k v w) rs)" by auto
    then show ?case
    proof cases
      case 1
      then show ?thesis
        by (intro exI [of _ q] exI [of _ k] exI [of _ rep] exI [of _ v]) (auto simp: put_key_def split: if_splits)
    next
      case 2
      with "2.IH" obtain q1 k1 rep1 v1 where o: "(q1, k1, rep1, v1) \<in> set rs" "l = lab k1 rep1"
        "val \<noteq> [] \<Longrightarrow> put_key k v w k1 \<noteq> [] \<or> (\<exists>q' rep' v'. (q', k1, rep', v') \<in> set rs \<and> v' \<noteq> [])" by blast
      from o show ?thesis
        by (intro exI [of _ q1] exI [of _ k1] exI [of _ rep1] exI [of _ v1]) (fastforce simp: put_key_def split: if_splits)
    qed
  qed simp
  then show thesis using that by blast
qed

section \<open>A run of a second-layer worker\<close>

definition replica_label :: "l2_proxy \<Rightarrow> string \<Rightarrow> int \<Rightarrow> string" where
  "replica_label s k rep = to_string (the (map_of (l2_replica_to_label s) (k @ to_string rep)))"

text \<open>The replica is in the tables: the key has more replicas than its number, and it has a label.\<close>

definition known_replica :: "l2_proxy \<Rightarrow> string \<Rightarrow> int \<Rightarrow> bool" where
  "known_replica s k rep \<longleftrightarrow>
     (case map_of (l2_replicas_of s) k of None \<Rightarrow> False | Some n \<Rightarrow> 0 \<le> rep \<and> rep < n \<and> n < 2 ^ 31) \<and>
     map_of (l2_replica_to_label s) (k @ to_string rep) \<noteq> None"

text \<open>A request as the first layer sends it: a known replica, and a sequence identifier whose numbers fit their types.\<close>

definition request_ok :: "l2_proxy \<Rightarrow> l2_req \<Rightarrow> bool" where
  "request_ok s = (\<lambda>(q, k, rep, v). known_replica s k rep \<and> 0 \<le> l1_idx q \<and> l1_idx q < int (length (last_seen_seq s)) \<and>
     int64_range (client_id q) \<and> int64_range (client_seq_no q) \<and> int64_range (ts q))"

text \<open>A worker that is its whole chain, whose update cache has the values \<open>w\<close>.\<close>

definition front :: "l2_proxy \<Rightarrow> l3_iface \<Rightarrow> (string \<Rightarrow> string) \<Rightarrow> bool" where
  "front s i w \<longleftrightarrow> role s = Singleton \<and> update_cache_enabled s \<and> l2_l3_iface s = Some i \<and> l3_ready i \<and>
     (\<forall>k n. map_of (l2_replicas_of s) k = Some n \<longrightarrow>
        map_of (l2_cache s) k = (if w k = [] then None else Some (w k, replicate (nat n) True)))"

definition same_tables :: "l2_proxy \<Rightarrow> l2_proxy \<Rightarrow> bool" where
  "same_tables s t \<longleftrightarrow> map_of (l2_replicas_of t) = map_of (l2_replicas_of s) \<and> l2_replica_to_label t = l2_replica_to_label s \<and>
     length (last_seen_seq t) = length (last_seen_seq s) \<and> l2_idx_no t = l2_idx_no s"

lemma same_tablesD:
  assumes "same_tables s t"
  shows "replica_label t = replica_label s" "known_replica t = known_replica s" "request_ok t = request_ok s" "l2_idx_no t = l2_idx_no s"
proof -
  show l: "replica_label t = replica_label s" "known_replica t = known_replica s"
    using assms by (simp_all add: same_tables_def replica_label_def known_replica_def fun_eq_iff)
  show "request_ok t = request_ok s" "l2_idx_no t = l2_idx_no s" using assms l(2) by (simp_all add: same_tables_def request_ok_def)
qed

lemma same_tables_trans: "same_tables s t \<Longrightarrow> same_tables t u \<Longrightarrow> same_tables s u"
  by (simp add: same_tables_def)

text \<open>Where an operation on a label goes: the column, and the worker of the column.\<close>

definition l3_route :: "l3_iface \<Rightarrow> string \<Rightarrow> nat \<times> nat" where
  "l3_route i label =
     (let c = nat (consistent_hash label (int (length (l3_clients i)))) in (c, l3_worker label (length (l3_clients i ! c))))"

lemma l3_route_call [simp]: "l3_route (i\<lparr>l3_clients := grid_call c x m (l3_clients i)\<rparr>) = l3_route i"
  by (simp add: l3_route_def fun_eq_iff)

text \<open>The command on the chain: the sequence number is recorded, and a write enters the cache for all replicas of the key.\<close>

lemma front_run_command:
  assumes "front s i w" "known_replica s k rep" "l2_op_ok op" "l2_key op = k" "l2_replica op = rep"
    and "0 \<le> l1_idx q" "l1_idx q < int (length (last_seen_seq s))" "last_seen_seq s ! nat (l1_idx q) < l1_seq_no q"
  obtains t where "l2_run_command q (l2_serialize op) s = (Inr (), t)" "front t i (put_key k (l2_value op) w)" "same_tables s t"
    "last_seen_seq t = (last_seen_seq s)[nat (l1_idx q) := l1_seq_no q]"
    "forwards t (l2_serialize op) (wire_op op) (the (map_of (l2_replica_to_label s) (k @ to_string rep))) (put_key k (l2_value op) w k)"
proof -
  obtain n where n: "map_of (l2_replicas_of s) k = Some n" "0 \<le> rep" "rep < n"
    and lab: "map_of (l2_replica_to_label s) (k @ to_string rep) \<noteq> None"
    using assms(2) by (auto simp: known_replica_def split: option.splits)
  note d = l2_deserialize_one [OF assms(3)]
  obtain t where t: "l2_run_command q (l2_serialize op) s = (Inr (), t)"
    using assms(1,6-8) d by (simp add: l2_run_command_def cpp_simps)
  have same: "map_of (l2_replicas_of t) = map_of (l2_replicas_of s)" "l2_replica_to_label t = l2_replica_to_label s"
    "last_seen_seq t = (last_seen_seq s)[nat (l1_idx q) := l1_seq_no q]" "role t = role s" "l2_l3_iface t = l2_l3_iface s"
    "update_cache_enabled t" "l2_idx_no t = l2_idx_no s"
    using t assms(1,4,6-8) d n(1)
    by (auto simp: l2_run_command_def cpp_simps front_def map_of_tab_insert fun_eq_iff)
  have cache: "map_of (l2_cache t) k' = (if put_key k (l2_value op) w k' = [] then None
      else Some (put_key k (l2_value op) w k', replicate (nat n') True))" if "map_of (l2_replicas_of s) k' = Some n'" for k' n'
  proof (cases "k' = k \<and> l2_value op \<noteq> []")
    case True
    then show ?thesis using l2_run_write(1) [OF t assms(3)] assms(1,4) n(1) that by (simp add: put_key_def front_def)
  next
    case False
    then have "map_of (l2_cache t) k' = map_of (l2_cache s) k'" using l2_run_other(1) [OF t d, of k'] assms(4) by auto
    with False assms(1) that show ?thesis by (auto simp: put_key_def front_def)
  qed
  have "front t i (put_key k (l2_value op) w)" using assms(1) same cache by (simp add: front_def)
  moreover have "forwards t (l2_serialize op) (wire_op op) (the (map_of (l2_replica_to_label s) (k @ to_string rep))) (put_key k (l2_value op) w k)"
    using d lab same(2,6) assms(4,5) cache [OF n(1)] n(2,3)
    by (simp add: forwards_def check_for_update_immutable_def vec_at_def nat_less_iff)
  ultimately show thesis using that [OF t] same by (simp add: same_tables_def)
qed

lemma front_dropped:
  "request_ok s (q, k, rep, v) \<Longrightarrow> l1_seq_no q \<le> last_seen_seq s ! nat (l1_idx q) \<Longrightarrow>
   l2_async_operation e q k rep v s = (Inr (), s)"
  by (rule l2_async_operation_dropped) (auto simp: seen_def request_ok_def vec_at_def)

lemma front_request:
  assumes f: "front s i w" and r: "request_ok s (q, k, rep, v)" and e: "env_ok e"
    and new: "last_seen_seq s ! nat (l1_idx q) < l1_seq_no q"
  obtains s' m c x where "l2_async_operation e q k rep v s = (Inr (), s')" "same_tables s s'"
    "front s' (i\<lparr>l3_clients := grid_call c x m (l3_clients i)\<rparr>) (put_key k v w)"
    "l3_route i (l3_label m) = (c, x)" "c < length (l3_clients i)" "x < length (l3_clients i ! c)"
    "label_value m = (replica_label s k rep, put_key k v w k)" "l3_plaintext m = []" "l2_idx (l3_seq_id m) = l2_idx_no s"
    "last_seen_seq s' = (last_seen_seq s)[nat (l1_idx q) := l1_seq_no q]"
proof -
  define t0 where "t0 = (if l2_stats s then s\<lparr>l2_tick := l2_tick s + 1\<rparr> else s)"
  define sid where "sid = (if l2_stats s then set_ts (env_now e (l2_tick s)) q else q)"
  define op where "op = \<lparr>l2_seq_id = sid, l2_key = k, l2_replica = rep, l2_value = v\<rparr>"
  have same: "front t0 i w" "same_tables s t0" "last_seen_seq t0 = last_seen_seq s" "l2_replica_to_label t0 = l2_replica_to_label s"
    using f by (simp_all add: t0_def front_def same_tables_def)
  have idx: "0 \<le> l1_idx q" "l1_idx q < int (length (last_seen_seq s))" using r by (auto simp: request_ok_def)
  obtain n where n: "map_of (l2_replicas_of s) k = Some n" "0 \<le> rep" "rep < n" "n < 2 ^ 31"
    using r by (auto simp: request_ok_def known_replica_def split: option.splits)
  have ok: "l2_op_ok op" using r e n(2-4)
    by (simp add: op_def sid_def l2_op_ok_def request_ok_def env_ok_def set_ts_def int32_range_def)
  have hd: "is_head s" "is_head t0" using f by (simp_all add: is_head_def front_def t0_def)
  have run: "l2_async_operation e q k rep v s = chain_request (l2_app e) sid (l2_serialize op) t0"
    using hd(1) idx new n(1)
    by (simp add: l2_async_operation_def cpp_simps l2_next_tick_def t0_def sid_def op_def)
  let ?q = "stamped t0 sid"
  have q: "l1_idx ?q = l1_idx q" "l1_seq_no ?q = l1_seq_no q" by (simp_all add: stamped_def sid_def set_ts_def)
  obtain t where t: "l2_run_command ?q (l2_serialize op) t0 = (Inr (), t)" "front t i (put_key k v w)" "same_tables t0 t"
      "last_seen_seq t = (last_seen_seq s)[nat (l1_idx q) := l1_seq_no q]"
    and fw: "forwards t (l2_serialize op) (wire_op op) (the (map_of (l2_replica_to_label s) (k @ to_string rep))) (put_key k v w k)"
    by (rule front_run_command [OF same(1) _ ok, of k rep ?q])
      (use r idx new in \<open>simp_all add: q same op_def request_ok_def same_tablesD(2) [OF same(2)]\<close>)
  let ?a = "accepted ?q (l2_serialize op) t"
  have a: "forwards ?a (l2_serialize op) (wire_op op) (the (map_of (l2_replica_to_label s) (k @ to_string rep))) (put_key k v w k)"
    "l2_l3_iface ?a = Some i" "l3_ready i" "is_tail t" "l2_idx_no ?a = l2_idx_no s"
    using fw t(2) same_tablesD(4) [OF t(3)] same_tablesD(4) [OF same(2)] by (simp_all add: forwards_def accepted_def add_pending_def front_def is_tail_def)
  obtain m c x y where m: "l2_forward_request e ?q (l2_serialize op) True ?a =
       (Inr (), ?a\<lparr>l2_tick := y, l2_l3_iface := Some (i\<lparr>l3_clients := grid_call c x m (l3_clients i)\<rparr>)\<rparr>)"
    "c < length (l3_clients i)" "x < length (l3_clients i ! c)"
    "l3_label m = to_string (the (map_of (l2_replica_to_label s) (k @ to_string rep)))" "l3_value m = put_key k v w k" "l3_plaintext m = []"
    "c = nat (consistent_hash (l3_label m) (int (length (l3_clients i))))" "x = l3_worker (l3_label m) (length (l3_clients i ! c))"
    "l2_idx (l3_seq_id m) = l2_idx_no ?a"
    by (rule l2_forward_ok [OF a(1-3), of e ?q True]) (rule that, assumption+)
  let ?s = "?a\<lparr>l2_tick := y, l2_l3_iface := Some (i\<lparr>l3_clients := grid_call c x m (l3_clients i)\<rparr>)\<rparr>"
  have "in_order t0 sid" using hd(2) by (rule in_order_head)
  then have "l2_async_operation e q k rep v s = (Inr (), ?s)"
    unfolding run chain_request_cases using t(1) a(4) m(1) by (simp add: in_order_def l2_replication_complete_def)
  moreover have "same_tables s ?s"
    using same_tables_trans [OF same(2) t(3)] by (simp add: same_tables_def accepted_def add_pending_def)
  moreover have "front ?s (i\<lparr>l3_clients := grid_call c x m (l3_clients i)\<rparr>) (put_key k v w)"
    using t(2) by (simp add: front_def accepted_def add_pending_def l3_ready_def)
  moreover have "l3_route i (l3_label m) = (c, x)" using m(7,8) by (simp add: l3_route_def Let_def)
  moreover have "last_seen_seq ?s = (last_seen_seq s)[nat (l1_idx q) := l1_seq_no q]"
    using t(4) by (simp add: accepted_def add_pending_def)
  ultimately show thesis using that [of ?s] m(2-6,9) a(5) by (simp add: replica_label_def)
qed

text \<open>
  A run: every fresh request sends one operation, repetitions send nothing, and each connection carries the operations
  on its labels in order.
\<close>

lemma front_requests:
  assumes "front s i w" "list_all (request_ok s) rs" "env_ok e"
  shows "\<exists>s' i' ms. l2_requests e rs s = (Inr (), s') \<and> l2_l3_iface s' = Some i' \<and>
    map label_value ms = forwarded (replica_label s) w (fresh_requests (last_seen_seq s) rs) \<and>
    list_all (\<lambda>m. l3_plaintext m = [] \<and> l2_idx (l3_seq_id m) = l2_idx_no s) ms \<and> map length (l3_clients i') = map length (l3_clients i) \<and>
    (\<forall>c x. c < length (l3_clients i) \<longrightarrow> x < length (l3_clients i ! c) \<longrightarrow>
      cl_sent (l3_clients i' ! c ! x) = cl_sent (l3_clients i ! c ! x) @ filter (\<lambda>m. l3_route i (l3_label m) = (c, x)) ms)"
  using assms
proof (induction rs arbitrary: s i w)
  case Nil
  then show ?case by (intro exI [of _ s] exI [of _ i] exI [of _ "[]"]) (simp add: l2_requests_Nil front_def)
next
  case (Cons r rs)
  obtain q k rep v where r: "r = (q, k, rep, v)" by (cases r)
  have ok: "request_ok s (q, k, rep, v)" using Cons.prems(2) r by simp
  show ?case
  proof (cases "l1_seq_no q \<le> last_seen_seq s ! nat (l1_idx q)")
    case True
    with Cons.IH [OF Cons.prems(1) _ Cons.prems(3)] Cons.prems(2) show ?thesis
      by (simp add: r l2_requests_Cons front_dropped [OF ok True])
  next
    case False
    then have new: "last_seen_seq s ! nat (l1_idx q) < l1_seq_no q" by simp
    obtain s1 m c x where step: "l2_async_operation e q k rep v s = (Inr (), s1)" "same_tables s s1"
      "front s1 (i\<lparr>l3_clients := grid_call c x m (l3_clients i)\<rparr>) (put_key k v w)"
      "l3_route i (l3_label m) = (c, x)" "c < length (l3_clients i)" "x < length (l3_clients i ! c)"
      "label_value m = (replica_label s k rep, put_key k v w k)" "l3_plaintext m = []"
      "l2_idx (l3_seq_id m) = l2_idx_no s" "last_seen_seq s1 = (last_seen_seq s)[nat (l1_idx q) := l1_seq_no q]"
      by (rule front_request [OF Cons.prems(1) ok Cons.prems(3) new])
    note sm = same_tablesD [OF step(2)]
    let ?g = "grid_call c x m (l3_clients i)"
    have "list_all (request_ok s1) rs" using Cons.prems(2) by (simp add: sm)
    from Cons.IH [OF step(3) this Cons.prems(3)] obtain s' i' ms where
      ih: "l2_requests e rs s1 = (Inr (), s')" "l2_l3_iface s' = Some i'"
      "map label_value ms = forwarded (replica_label s) (put_key k v w) (fresh_requests (last_seen_seq s1) rs)"
      "list_all (\<lambda>m. l3_plaintext m = [] \<and> l2_idx (l3_seq_id m) = l2_idx_no s) ms" "map length (l3_clients i') = map length ?g"
      "\<And>c' x'. c' < length (l3_clients i) \<Longrightarrow> x' < length (l3_clients i ! c') \<Longrightarrow>
        cl_sent (l3_clients i' ! c' ! x') = cl_sent (?g ! c' ! x') @ filter (\<lambda>m. l3_route i (l3_label m) = (c', x')) ms"
      by (auto simp: sm)
    have "cl_sent (l3_clients i' ! c' ! x') = cl_sent (l3_clients i ! c' ! x') @
        filter (\<lambda>m. l3_route i (l3_label m) = (c', x')) (m # ms)"
      if "c' < length (l3_clients i)" "x' < length (l3_clients i ! c')" for c' x'
      using ih(6) [OF that] grid_call_nth [OF step(5,6), of c' x' m] that step(4) by auto
    moreover have "map length ?g = map length (l3_clients i)" by (intro nth_equalityI) simp_all
    ultimately show ?thesis
      using ih(1-5) step(1,7-10) new
      by (intro exI [of _ s'] exI [of _ i'] exI [of _ "m # ms"]) (simp add: r l2_requests_Cons)
  qed
qed

section \<open>A third-layer worker and the columns that feed it\<close>

text \<open>
  \<open>feeds j\<close> is what the second-layer worker with index \<open>j\<close> sends to this worker. The handler is called with the next operation
  of some connection; all other steps are those of the third layer. There is no condition on the values here: that a
  value is repeated until its label has it is what the feeds have to provide.
\<close>

definition accepted_from :: "int \<Rightarrow> 'k l3_system \<Rightarrow> l3_operation list" where
  "accepted_from j s = filter (\<lambda>m. l2_idx (l3_seq_id m) = j) (sy_accepted s)"

inductive fed_step :: "env \<Rightarrow> 'k openssl \<Rightarrow> 'r reply_api \<Rightarrow> (int \<Rightarrow> l3_operation list) \<Rightarrow> 'k l3_system \<Rightarrow> 'k l3_system \<Rightarrow> bool"
  for e :: env and os :: "'k openssl" and api :: "'r reply_api" and feeds :: "int \<Rightarrow> l3_operation list" where
  feed:
    "length (accepted_from j s) < length (feeds j) \<Longrightarrow> m = feeds j ! length (accepted_from j s) \<Longrightarrow>
     l3_async_operation e (l3_seq_id m) (l3_label m) (l3_value m) (l3_is_read m) (l3_dedup m) (sy_proxy s) = (Inr (), p) \<Longrightarrow>
     l3p_req_cnt p \<noteq> l3p_req_cnt (sy_proxy s) \<Longrightarrow>
     fed_step e os api feeds s (s\<lparr>sy_proxy := p, sy_accepted := sy_accepted s @
       [l3_op_of (l3_seq_id m) (l3_label m) (l3_value m) (l3_is_read m) (l3_dedup m)]\<rparr>)"
| inner:
    "l3_step e os api s t \<Longrightarrow> sy_accepted t = sy_accepted s \<Longrightarrow> fed_step e os api feeds s t"

definition fed_run :: "env \<Rightarrow> 'k openssl \<Rightarrow> 'r reply_api \<Rightarrow> (int \<Rightarrow> l3_operation list) \<Rightarrow> 'k l3_system \<Rightarrow> 'k l3_system \<Rightarrow> bool" where
  "fed_run e os api feeds = (fed_step e os api feeds)\<^sup>*\<^sup>*"

text \<open>The contract of the feeds: a feed keeps the promise for its labels, and a label that two of them use gets no values.\<close>

definition feeds_ok :: "(int \<Rightarrow> l3_operation list) \<Rightarrow> bool" where
  "feeds_ok feeds \<longleftrightarrow>
     (\<forall>j. ordered (feeds j) \<and> (\<forall>m \<in> set (feeds j). l2_idx (l3_seq_id m) = j \<and> l3_plaintext m = [])) \<and>
     (\<forall>j j'. j \<noteq> j' \<longrightarrow> (\<forall>m \<in> set (feeds j). \<forall>m' \<in> set (feeds j'). l3_label m = l3_label m' \<longrightarrow> l3_value m = []))"

definition feeds_prefix :: "(int \<Rightarrow> l3_operation list) \<Rightarrow> 'k l3_system \<Rightarrow> bool" where
  "feeds_prefix feeds s \<longleftrightarrow> (\<forall>j. prefix (accepted_from j s) (feeds j))"

lemma feeds_okD:
  assumes "feeds_ok feeds" "m \<in> set (feeds j)"
  shows "l2_idx (l3_seq_id m) = j" "l3_plaintext m = []"
    and "m' \<in> set (feeds j') \<Longrightarrow> j \<noteq> j' \<Longrightarrow> l3_label m = l3_label m' \<Longrightarrow> l3_value m = []"
  using assms unfolding feeds_ok_def by blast+

lemma accepted_in_feed:
  assumes "feeds_prefix feeds s" "a \<in> set (sy_accepted s)"
  shows "a \<in> set (accepted_from (l2_idx (l3_seq_id a)) s)" "a \<in> set (feeds (l2_idx (l3_seq_id a)))"
proof -
  show a: "a \<in> set (accepted_from (l2_idx (l3_seq_id a)) s)" using assms(2) by (simp add: accepted_from_def)
  show "a \<in> set (feeds (l2_idx (l3_seq_id a)))"
    using a assms(1) unfolding feeds_prefix_def by (blast dest: set_mono_prefix)
qed

lemma l3_op_of_fields:
  "l3_plaintext m = [] \<Longrightarrow> l3_op_of (l3_seq_id m) (l3_label m) (l3_value m) (l3_is_read m) (l3_dedup m) = m"
  by (simp add: l3_op_of_def)

text \<open>The promise holds for the next operation of every feed.\<close>

lemma fed_promise:
  assumes "feeds_ok feeds" "feeds_prefix feeds s" "l3_inv os m0 s"
    and n: "length (accepted_from j s) < length (feeds j)" and m: "m = feeds j ! length (accepted_from j s)"
  shows "l3_value m \<noteq> [] \<or> no_pending_write s (l3_label m)"
proof (cases "l3_value m = []")
  case True
  have mem: "m \<in> set (feeds j)" using n m by simp
  have "l3_value op = []" if "(op, st) \<in> set (pipeline s)" "l3_label op = l3_label m" for op st
  proof -
    have "strip_op op \<in> set (map strip_op (sy_accepted s))"
      using assms(3) that(1) by (force simp: l3_inv_def Let_def)
    then obtain a where a: "a \<in> set (sy_accepted s)" "strip_op a = strip_op op" by auto
    note f = accepted_in_feed [OF assms(2) a(1)] and la = strip_op_eqD(1,2) [OF a(2)]
    show ?thesis
    proof (cases "l2_idx (l3_seq_id a) = j")
      case False
      with feeds_okD(3) [OF assms(1) f(2) mem] la that(2) show ?thesis by simp
    next
      case j: True
      obtain i where i: "i < length (accepted_from j s)" "a = accepted_from j s ! i"
        using f(1) unfolding j by (metis in_set_conv_nth)
      have "feeds j ! i = a" using assms(2) i prefix_nth [of "accepted_from j s" "feeds j" i] by (simp add: feeds_prefix_def)
      moreover have "ordered (feeds j)" using assms(1) by (simp add: feeds_ok_def)
      ultimately have "l3_label a = l3_label m \<and> l3_value m = [] \<longrightarrow> l3_value a = []"
        using sorted_wrt_nth_less [of _ "feeds j" i "length (accepted_from j s)"] i(1) n m unfolding ordered_def by blast
      with True la that(2) show ?thesis by simp
    qed
  qed
  then show ?thesis by (auto simp: no_pending_write_def list_all_iff)
qed simp

lemma fed_step_ok:
  assumes "fed_step e os api feeds s t" "feeds_ok feeds" "feeds_prefix feeds s" "l3_inv os m0 s"
  shows "l3_step e os api s t \<and> keeps_promise s t \<and> feeds_prefix feeds t"
  using assms
proof (induction rule: fed_step.induct)
  case (feed j s m p)
  have mem: "m \<in> set (feeds j)" using feed.hyps(1,2) by simp
  note m = feeds_okD [OF feed.prems(1) mem]
  let ?t = "s\<lparr>sy_proxy := p, sy_accepted := sy_accepted s @ [m]\<rparr>"
  have "l3_step e os api s ?t"
    using l3_step.accept [OF feed.hyps(3,4), of os api] by (simp only: l3_op_of_fields [OF m(2)])
  moreover have "keeps_promise s ?t"
    using fed_promise [OF feed.prems(1-3) feed.hyps(1,2)] by (simp add: keeps_promise_def)
  moreover have "prefix (accepted_from j' ?t) (feeds j')" for j'
  proof (cases "j' = j")
    case True
    then show ?thesis
      using prefix_snoc_nth [of "accepted_from j s" "feeds j"] feed.prems(2) feed.hyps(1,2) m(1)
      by (simp add: accepted_from_def feeds_prefix_def)
  next
    case False
    then show ?thesis using feed.prems(2) m(1) by (simp add: accepted_from_def feeds_prefix_def)
  qed
  ultimately show ?case by (simp only: l3_op_of_fields [OF m(2)] feeds_prefix_def) blast
next
  case (inner s t)
  then show ?case by (simp add: feeds_prefix_def accepted_from_def keeps_promise_def)
qed

lemma map_filter_zip: "map snd (filter (\<lambda>(m, a). P m) (zip xs (map f xs))) = map f (filter P xs)"
  by (induction xs) simp_all

lemma fed_run_reachable:
  assumes "fed_run e os api feeds s0 s" "feeds_ok feeds" "l3_start os m0 s0"
  shows "promised_run e os api s0 s \<and> feeds_prefix feeds s"
  using assms(1) unfolding fed_run_def
proof (induction rule: rtranclp_induct)
  case base
  then show ?case using assms(3) by (simp add: promised_run_def feeds_prefix_def accepted_from_def l3_start_def)
next
  case (step s t)
  then have "l3_inv os m0 s" using l3_inv_reachable assms(3) by blast
  with fed_step_ok [OF step.hyps(2) assms(2)] step.IH have "l3_step e os api s t \<and> keeps_promise s t \<and> feeds_prefix feeds t" by blast
  with step.IH show ?case unfolding promised_run_def by (auto intro: rtranclp.rtrancl_into_rtrancl)
qed

text \<open>The answers to the operations of one feed are those that this feed alone would get.\<close>

lemma fed_answers:
  fixes j :: int
  assumes "fed_run e os api feeds s0 s" "feeds_ok feeds" "l3_start os m0 s0"
  defines "from_j \<equiv> \<lambda>m. l2_idx (l3_seq_id m) = j"
  shows "prefix (map l3_plaintext (filter from_j (sy_answered s))) (kv_answers m0 (feeds j))"
    and "pipeline s = [] \<Longrightarrow> accepted_from j s = feeds j \<Longrightarrow>
      map l3_plaintext (filter from_j (sy_answered s)) = kv_answers m0 (feeds j)"
proof -
  note r = fed_run_reachable [OF assms(1-3)]
  let ?a = "sy_answered s" and ?p = "map fst (pipeline s)"
  have inv: "map strip_op (sy_accepted s) = map strip_op (?a @ ?p)" "map l3_plaintext ?a = kv_answers m0 ?a"
    using l3_inv_reachable [OF conjunct1 [OF r] assms(3)] by (simp_all add: l3_inv_def Let_def comp_def)
  have idx: "from_j (strip_op m) = from_j m" for m by (simp add: from_j_def strip_op_def)
  have fl: "map strip_op (filter from_j xs) = filter from_j (map strip_op xs)" for xs
    by (simp add: filter_map comp_def idx)
  have acc: "map strip_op (accepted_from j s) = map strip_op (filter from_j ?a @ filter from_j ?p)"
    using inv(1) by (simp add: accepted_from_def from_j_def [symmetric] fl)
  have "\<forall>m \<in> set ?a. \<forall>m' \<in> set ?a. from_j m \<longrightarrow> \<not> from_j m' \<longrightarrow> l3_label m = l3_label m' \<longrightarrow> l3_value m' = []"
  proof (intro ballI impI)
    fix m m' assume m: "m \<in> set ?a" "m' \<in> set ?a" "from_j m" "\<not> from_j m'" "l3_label m = l3_label m'"
    have "\<exists>a \<in> set (sy_accepted s). strip_op a = strip_op x" if "x \<in> set ?a" for x
    proof -
      have "strip_op x \<in> set (map strip_op (sy_accepted s))" unfolding inv(1) using that by simp
      then show ?thesis by auto
    qed
    with m obtain a a' where a: "a \<in> set (sy_accepted s)" "strip_op a = strip_op m" "a' \<in> set (sy_accepted s)" "strip_op a' = strip_op m'"
      by blast
    have i: "from_j a" "\<not> from_j a'" using m(3,4) idx a(2,4) by metis+
    note f = accepted_in_feed(2) [OF conjunct2 [OF r]]
    from feeds_okD(3) [OF assms(2) f [OF a(3)] f [OF a(1)]] i m(5) strip_op_eqD(1,2) [OF a(2)] strip_op_eqD(1,2) [OF a(4)]
    show "l3_value m' = []" by (simp add: from_j_def)
  qed
  from kv_answers_filter [OF this, of m0]
  have ans: "map l3_plaintext (filter from_j ?a) = kv_answers m0 (filter from_j ?a)"
    unfolding inv(2) [symmetric] map_filter_zip by (rule sym)
  have pre: "prefix (accepted_from j s) (feeds j)" using r by (simp add: feeds_prefix_def)
  have "kv_answers m0 (accepted_from j s) = kv_answers m0 (filter from_j ?a @ filter from_j ?p)"
    by (rule kv_answers_strip [OF acc])
  then have all: "prefix (kv_answers m0 (filter from_j ?a)) (kv_answers m0 (accepted_from j s))"
    by (simp add: kv_answers_append)
  have "prefix (kv_answers m0 (accepted_from j s)) (kv_answers m0 (feeds j))"
    using pre by (auto simp: prefix_def kv_answers_append)
  with all ans show "prefix (map l3_plaintext (filter from_j ?a)) (kv_answers m0 (feeds j))"
    by (auto intro: prefix_order.trans)
  show "map l3_plaintext (filter from_j ?a) = kv_answers m0 (feeds j)" if "pipeline s = []" "accepted_from j s = feeds j"
    using kv_answers_strip [OF acc, of m0] that ans by simp
qed

section \<open>Properties\<close>

text \<open>
  A column: a second-layer worker with an empty update cache and unused connections, and the requests it is sent. Then
  what its connection to the worker \<open>x\<close> of column \<open>c\<close> of the third layer has carried afterwards.
\<close>

record column_input =
  co_worker :: l2_proxy
  co_iface :: l3_iface
  co_requests :: "l2_req list"

definition column_ok :: "column_input \<Rightarrow> bool" where
  "column_ok co \<longleftrightarrow> front (co_worker co) (co_iface co) (\<lambda>_. []) \<and> list_all (request_ok (co_worker co)) (co_requests co) \<and>
     list_all (list_all (\<lambda>cl. cl_sent cl = [])) (l3_clients (co_iface co))"

definition sent_to_l3 :: "l2_proxy \<Rightarrow> nat \<Rightarrow> nat \<Rightarrow> l3_operation list" where
  "sent_to_l3 s c x = (case l2_l3_iface s of None \<Rightarrow> [] | Some i \<Rightarrow> cl_sent (l3_clients i ! c ! x))"

definition column_feed :: "env \<Rightarrow> nat \<Rightarrow> nat \<Rightarrow> column_input list \<Rightarrow> int \<Rightarrow> l3_operation list" where
  "column_feed e c x cols j =
     (if 0 \<le> j \<and> j < int (length cols)
      then sent_to_l3 (snd (l2_requests e (co_requests (cols ! nat j)) (co_worker (cols ! nat j)))) c x else [])"

text \<open>
  The columns have the same tables, column \<open>j\<close> has index \<open>j\<close>, and a key that is sent to two columns is never written, as the dummy key.
\<close>

definition columns_ok :: "nat \<Rightarrow> nat \<Rightarrow> (string \<Rightarrow> int \<Rightarrow> bool) \<Rightarrow> (string \<Rightarrow> int \<Rightarrow> string) \<Rightarrow> column_input list \<Rightarrow> bool" where
  "columns_ok c x known lab cols \<longleftrightarrow>
     (\<forall>j < length cols. column_ok (cols ! j) \<and> l2_idx_no (co_worker (cols ! j)) = int j \<and>
        known_replica (co_worker (cols ! j)) = known \<and> replica_label (co_worker (cols ! j)) = lab \<and>
        c < length (l3_clients (co_iface (cols ! j))) \<and> x < length (l3_clients (co_iface (cols ! j)) ! c)) \<and>
     (\<forall>j < length cols. \<forall>j' < length cols. j \<noteq> j' \<longrightarrow>
        (\<forall>(q, k, rep, v) \<in> set (co_requests (cols ! j)). v \<noteq> [] \<longrightarrow> k \<notin> (\<lambda>(q, k, rep, v). k) ` set (co_requests (cols ! j'))))"

lemma column_run:
  assumes "column_ok co" "env_ok e" "c < length (l3_clients (co_iface co))" "x < length (l3_clients (co_iface co) ! c)"
  defines "s \<equiv> co_worker co" and "rs \<equiv> co_requests co"
  obtains ms where "fst (l2_requests e rs s) = Inr ()"
    "map label_value ms = forwarded (replica_label s) (\<lambda>_. []) (fresh_requests (last_seen_seq s) rs)"
    "list_all (\<lambda>m. l3_plaintext m = [] \<and> l2_idx (l3_seq_id m) = l2_idx_no s) ms"
    "sent_to_l3 (snd (l2_requests e rs s)) c x = filter (\<lambda>m. l3_route (co_iface co) (l3_label m) = (c, x)) ms"
proof -
  have f: "front s (co_iface co) (\<lambda>_. [])" and r: "list_all (request_ok s) rs" using assms(1) by (simp_all add: column_ok_def s_def rs_def)
  have "cl_sent (l3_clients (co_iface co) ! c ! x) = []"
    using assms(1,3,4) by (simp add: column_ok_def list_all_length)
  with front_requests [OF f r assms(2)] assms(3,4) show thesis
    by (elim exE conjE) (rule that, auto simp: sent_to_l3_def)
qed

lemma request_ok_known: "list_all (request_ok s) rs \<Longrightarrow> known_requests (known_replica s) (fresh_requests ls rs)"
  using set_fresh_requests [of ls rs] by (fastforce simp: list_all_iff request_ok_def)

lemma columns_okD:
  assumes "columns_ok c x known lab cols" "j < length cols"
  shows "column_ok (cols ! j)" "l2_idx_no (co_worker (cols ! j)) = int j" "known_replica (co_worker (cols ! j)) = known"
    "replica_label (co_worker (cols ! j)) = lab" "c < length (l3_clients (co_iface (cols ! j)))"
    "x < length (l3_clients (co_iface (cols ! j)) ! c)"
    "known_requests known (fresh_requests ls (co_requests (cols ! j)))"
    "j' < length cols \<Longrightarrow> j \<noteq> j' \<Longrightarrow> (q, k, rep, v) \<in> set (co_requests (cols ! j)) \<Longrightarrow> v \<noteq> [] \<Longrightarrow>
      (q', k, rep', v') \<notin> set (co_requests (cols ! j'))"
proof -
  show c: "column_ok (cols ! j)" "l2_idx_no (co_worker (cols ! j)) = int j" "known_replica (co_worker (cols ! j)) = known"
    "replica_label (co_worker (cols ! j)) = lab" "c < length (l3_clients (co_iface (cols ! j)))"
    "x < length (l3_clients (co_iface (cols ! j)) ! c)"
    using assms by (simp_all add: columns_ok_def)
  show "known_requests known (fresh_requests ls (co_requests (cols ! j)))"
    using request_ok_known [of "co_worker (cols ! j)"] c(1,3) by (simp add: column_ok_def)
  show "(q', k, rep', v') \<notin> set (co_requests (cols ! j'))"
    if "j' < length cols" "j \<noteq> j'" "(q, k, rep, v) \<in> set (co_requests (cols ! j))" "v \<noteq> []"
    using assms that unfolding columns_ok_def by fastforce
qed

lemma column_feed_run:
  assumes "columns_ok c x known lab cols" "env_ok e" "j < length cols"
  obtains ms where "fst (l2_requests e (co_requests (cols ! j)) (co_worker (cols ! j))) = Inr ()"
    "map label_value ms = forwarded lab (\<lambda>_. []) (fresh_requests (last_seen_seq (co_worker (cols ! j))) (co_requests (cols ! j)))"
    "list_all (\<lambda>m. l3_plaintext m = [] \<and> l2_idx (l3_seq_id m) = int j) ms"
    "column_feed e c x cols (int j) = filter (\<lambda>m. l3_route (co_iface (cols ! j)) (l3_label m) = (c, x)) ms"
proof -
  note d = columns_okD [OF assms(1,3)]
  show thesis
    by (rule column_run [OF d(1) assms(2) d(5,6)]) (rule that, use d(2,4) assms(3) in \<open>simp_all add: column_feed_def\<close>)
qed

lemma column_feed_origin:
  assumes "columns_ok c x known lab cols" "env_ok e" "m \<in> set (column_feed e c x cols j)"
  obtains q k rep v where "0 \<le> j" "nat j < length cols" "(q, k, rep, v) \<in> set (co_requests (cols ! nat j))" "l3_label m = lab k rep" "known k rep"
    "l2_idx (l3_seq_id m) = j" "l3_plaintext m = []"
    "l3_value m \<noteq> [] \<Longrightarrow> \<exists>q' rep' v'. (q', k, rep', v') \<in> set (co_requests (cols ! nat j)) \<and> v' \<noteq> []"
proof -
  have j: "0 \<le> j" "nat j < length cols" using assms(3) by (auto simp: column_feed_def split: if_splits)
  let ?rs = "fresh_requests (last_seen_seq (co_worker (cols ! nat j))) (co_requests (cols ! nat j))"
  obtain ms where ms: "map label_value ms = forwarded lab (\<lambda>_. []) ?rs"
    "list_all (\<lambda>m. l3_plaintext m = [] \<and> l2_idx (l3_seq_id m) = int (nat j)) ms"
    "column_feed e c x cols (int (nat j)) = filter (\<lambda>m. l3_route (co_iface (cols ! nat j)) (l3_label m) = (c, x)) ms"
    by (rule column_feed_run [OF assms(1,2) j(2)])
  have m: "m \<in> set ms" using assms(3) ms(3) j(1) by simp
  then have "(l3_label m, l3_value m) \<in> set (forwarded lab (\<lambda>_. []) ?rs)" unfolding ms(1) [symmetric] by force
  then obtain q k rep v where o: "(q, k, rep, v) \<in> set ?rs" "l3_label m = lab k rep"
    "l3_value m \<noteq> [] \<Longrightarrow> \<exists>q' rep' v'. (q', k, rep', v') \<in> set ?rs \<and> v' \<noteq> []"
    by (rule forwarded_origin) auto
  have "known k rep" using o(1) columns_okD(7) [OF assms(1) j(2)] by (force simp: list_all_iff)
  moreover have "\<exists>q' rep' v'. (q', k, rep', v') \<in> set (co_requests (cols ! nat j)) \<and> v' \<noteq> []" if "l3_value m \<noteq> []"
    using o(3) [OF that] set_fresh_requests by blast
  moreover have "l2_idx (l3_seq_id m) = j" "l3_plaintext m = []" using m ms(2) j(1) by (simp_all add: list_all_iff)
  ultimately show thesis using that [OF j subsetD [OF set_fresh_requests o(1)] o(2)] by blast
qed

lemma column_feeds_ok:
  assumes "columns_ok c x known lab cols" "env_ok e" "labels_apart known lab"
  shows "feeds_ok (column_feed e c x cols)"
  unfolding feeds_ok_def
proof (intro conjI allI impI ballI)
  fix j
  show "ordered (column_feed e c x cols j)"
  proof (cases "0 \<le> j \<and> j < int (length cols)")
    case True
    then have j: "nat j < length cols" "int (nat j) = j" by (simp_all add: nat_less_iff)
    obtain ms where ms: "map label_value ms = forwarded lab (\<lambda>_. []) (fresh_requests (last_seen_seq (co_worker (cols ! nat j))) (co_requests (cols ! nat j)))"
      "column_feed e c x cols (int (nat j)) = filter (\<lambda>m. l3_route (co_iface (cols ! nat j)) (l3_label m) = (c, x)) ms"
      by (rule column_feed_run [OF assms(1,2) j(1)])
    from forwarded_ordered [OF ms(1) assms(3) columns_okD(7) [OF assms(1) j(1)]] ms(2) j(2) show ?thesis
      by (simp add: ordered_def sorted_wrt_filter)
  next
    case False
    then show ?thesis by (auto simp: column_feed_def ordered_def)
  qed
  show "l2_idx (l3_seq_id m) = j" "l3_plaintext m = []" if "m \<in> set (column_feed e c x cols j)" for m
    using column_feed_origin [OF assms(1,2) that] by blast+
next
  fix j j' m m'
  assume h: "j \<noteq> j'" "m \<in> set (column_feed e c x cols j)" "m' \<in> set (column_feed e c x cols j')" "l3_label m = l3_label m'"
  obtain q k rep v where o: "0 \<le> j" "nat j < length cols" "l3_label m = lab k rep" "known k rep"
    "l3_value m \<noteq> [] \<Longrightarrow> \<exists>q' rep' v'. (q', k, rep', v') \<in> set (co_requests (cols ! nat j)) \<and> v' \<noteq> []"
    by (rule column_feed_origin [OF assms(1,2) h(2)]) (rule that, assumption+)
  obtain q' k' rep' v' where o': "0 \<le> j'" "nat j' < length cols" "(q', k', rep', v') \<in> set (co_requests (cols ! nat j'))"
    "l3_label m' = lab k' rep'" "known k' rep'"
    by (rule column_feed_origin [OF assms(1,2) h(3)]) (rule that, assumption+)
  have "k' = k" using labels_apartD [OF assms(3) o'(5) o(4)] o(3) o'(4) h(4) by simp
  moreover have "nat j \<noteq> nat j'" using h(1) o(1) o'(1) by simp
  ultimately show "l3_value m = []" using o(5) columns_okD(8) [OF assms(1) o(2) o'(2)] o'(3) by blast
qed

lemma layers_answers:
  assumes "columns_ok c x known lab cols" "labels_apart known lab" "env_ok e"
    and "\<forall>k r. known k r \<longrightarrow> m0 (lab k r) = keys k"
    and "l3_start os m0 s0" "fed_run e os api (column_feed e c x cols) s0 s"
    and "j < length cols"
  shows "fst (l2_requests e (co_requests (cols ! j)) (co_worker (cols ! j))) = Inr () \<and>
    (let as = map l3_plaintext (filter (\<lambda>m. l2_idx (l3_seq_id m) = int j) (sy_answered s));
         expected = answers_at (\<lambda>l. l3_route (co_iface (cols ! j)) l = (c, x)) lab keys
           (fresh_requests (last_seen_seq (co_worker (cols ! j))) (co_requests (cols ! j)))
     in prefix as expected \<and>
        (pipeline s = [] \<and> accepted_from (int j) s = column_feed e c x cols (int j) \<longrightarrow> as = expected))"
proof -
  let ?rs = "fresh_requests (last_seen_seq (co_worker (cols ! j))) (co_requests (cols ! j))"
  obtain ms where ms: "fst (l2_requests e (co_requests (cols ! j)) (co_worker (cols ! j))) = Inr ()"
    "map label_value ms = forwarded lab (\<lambda>_. []) ?rs"
    "column_feed e c x cols (int j) = filter (\<lambda>m. l3_route (co_iface (cols ! j)) (l3_label m) = (c, x)) ms"
    by (rule column_feed_run [OF assms(1,3,7)])
  have "lagging known lab (\<lambda>_. []) m0 keys" using assms(4) by (simp add: lagging_def)
  from forwarded_answers_at [OF ms(2) assms(2) columns_okD(7) [OF assms(1,7)] this]
  have "kv_answers m0 (column_feed e c x cols (int j)) =
      answers_at (\<lambda>l. l3_route (co_iface (cols ! j)) l = (c, x)) lab keys ?rs" unfolding ms(3) .
  with fed_answers [OF assms(6) column_feeds_ok [OF assms(1,3,2)] assms(5), of "int j"] ms(1) show ?thesis by (simp add: Let_def)
qed

text \<open>
  C7. The two layers refine a store by key: any number of second-layer columns, each a worker that is its whole chain and starts
  with an empty update cache, get requests that may contain repetitions, and an L3 worker takes their operations on its labels
  from its connections in any interleaving with its own threads and its storage server, with no condition on the values they
  carry. Then every worker of the second layer accepts all its requests, and at any time the answers to its operations
  at this L3 worker are a prefix of those of a store that executes each fresh request on the key at once, whichever of the
  replicas it names; once all operations of the column are accepted and nothing is under way, they are all of them. The
  initial contents must be the same under all labels of a key, labels of different keys must differ, and keys
  that are written must belong to one column.
\<close>

theorem layers_refine_key_store:
  assumes "columns_ok c x known lab cols" "labels_apart known lab" "env_ok e"
    and "\<forall>k r. known k r \<longrightarrow> m0 (lab k r) = keys k"
    and "l3_start os m0 s0" "fed_run e os api (column_feed e c x cols) s0 s"
    and "j < length cols"
  shows "fst (l2_requests e (co_requests (cols ! j)) (co_worker (cols ! j))) = Inr () \<and>
    (let as = map l3_plaintext (filter (\<lambda>m. l2_idx (l3_seq_id m) = int j) (sy_answered s));
         expected = answers_at (\<lambda>l. l3_route (co_iface (cols ! j)) l = (c, x)) lab keys
           (fresh_requests (last_seen_seq (co_worker (cols ! j))) (co_requests (cols ! j)))
     in prefix as expected \<and>
        (pipeline s = [] \<and> accepted_from (int j) s = column_feed e c x cols (int j) \<longrightarrow> as = expected))"
  by (rule layers_answers [OF assms])

text \<open>One column that gets a write twice, and the run of the third layer above.\<close>

definition example_column :: column_input where
  "example_column =
     \<lparr>co_worker = example_l2p\<lparr>l2_replica_to_label := [(''a0'', 7)], l2_replicas_of := [(''a'', 1)]\<rparr>, co_iface = L2_Proxy.example_l3,
      co_requests = [(sequence_id_new, ''a'', 0, ''new''), (sequence_id_new, ''a'', 0, ''new'')]\<rparr>"

definition example_stamp :: "sequence_id \<Rightarrow> sequence_id" where
  "example_stamp q = q\<lparr>server_seq_no := 1, l2_idx := 0, l2_seq_no := 1\<rparr>"

lemma example_digits: "to_string 0 = ''0''" "to_string 7 = ''7''"
  by code_simp+

text \<open>The first request of the column, under any sequence number.\<close>

lemma example_column_request:
  assumes q: "l1_idx q = 0" "0 \<le> l1_seq_no q" "int64_range (client_id q)" "int64_range (client_seq_no q)" "int64_range (ts q)"
  obtains u where "l2_async_operation example_env q ''a'' 0 ''new'' (co_worker example_column) = (Inr (), u)"
    "sent_to_l3 u 0 0 = [example_op (example_stamp q)]"
proof -
  let ?s = "co_worker example_column" and ?q = "q\<lparr>server_seq_no := 1\<rparr>"
  let ?op = "\<lparr>l2_seq_id = q, l2_key = ''a'', l2_replica = 0, l2_value = ''new''\<rparr>"
  note defs = example_column_def example_l2p_defs
  have ok: "l2_op_ok ?op" using q by (simp add: l2_op_ok_def int32_range_def)
  note d = l2_deserialize_one [OF ok]
  have req: "l2_async_operation example_env q ''a'' 0 ''new'' ?s = chain_request (l2_app example_env) q (l2_serialize ?op) ?s"
    using q(1,2) by (simp add: l2_async_operation_def cpp_simps defs is_head_def vec_at_def)
  define t where "t = ?s\<lparr>last_seen_seq := [l1_seq_no q], l2_cache := [(''a'', ''new'', [True])]\<rparr>"
  have run: "l2_run_command ?q (l2_serialize ?op) ?s = (Inr (), t)"
    using d q(1,2) by (simp add: l2_run_command_def cpp_simps vec_at_def populate_replica_updates_def tab_insert_def tab_put_def t_def defs)
  have st: "stamped ?s q = ?q" "in_order ?s q" "is_tail t"
    by (simp_all add: t_def stamped_def in_order_def defs is_head_def is_tail_def)
  let ?a = "accepted ?q (l2_serialize ?op) t"
  define u where "u = ?a\<lparr>l2_l3_iface := Some (L2_Proxy.example_l3\<lparr>l3_clients := grid_call 0 0 (example_op (example_stamp q)) (l3_clients L2_Proxy.example_l3)\<rparr>)\<rparr>"
  have "l2_forward_request example_env ?q (l2_serialize ?op) True ?a = (Inr (), u)"
    using d by (simp add: l2_forward_request_def l2_label_def cpp_simps t_def u_def accepted_def add_pending_def
        check_for_update_immutable_def vec_at_def example_digits l2_send_l3_def l3_send_op_def one_server l3_worker_def Let_def defs
        example_op_def l3_op_of_def example_stamp_def)
  with req run st have "l2_async_operation example_env q ''a'' 0 ''new'' ?s = (Inr (), u)"
    by (simp add: chain_request_cases in_order_def l2_replication_complete_def)
  then show thesis by (rule that) (simp add: sent_to_l3_def u_def L2_Proxy.example_l3_def grid_call_def)
qed

lemma example_column_feed: "column_feed example_env 0 0 [example_column] 0 = [example_op (example_stamp sequence_id_new)]"
proof -
  obtain u where u: "l2_async_operation example_env sequence_id_new ''a'' 0 ''new'' (co_worker example_column) = (Inr (), u)"
    "sent_to_l3 u 0 0 = [example_op (example_stamp sequence_id_new)]"
    by (rule example_column_request [of sequence_id_new]) (simp_all add: sequence_id_new_def int64_range_def)
  have "seen u sequence_id_new" using u(1) by (rule l2_async_operation_seen(1))
  with u(1) have "l2_requests example_env (co_requests example_column) (co_worker example_column) = (Inr (), u)"
    by (simp add: example_column_def l2_requests_Cons l2_requests_Nil l2_async_operation_dropped)
  with u(2) show ?thesis by (simp add: column_feed_def)
qed

lemma example_column_ok:
  "columns_ok 0 0 (known_replica (co_worker example_column)) (replica_label (co_worker example_column)) [example_column]"
  "labels_apart (known_replica (co_worker example_column)) (replica_label (co_worker example_column))"
proof -
  note defs = example_column_def example_l2p_defs sequence_id_new_def
  have "front (co_worker example_column) L2_Proxy.example_l3 (\<lambda>_. [])"
    using example_l3_ready by (simp add: front_def defs)
  moreover have "request_ok (co_worker example_column) (sequence_id_new, ''a'', 0, ''new'')"
    using example_digits(1) by (simp add: request_ok_def known_replica_def defs int64_range_def)
  ultimately have "column_ok example_column"
    by (simp add: column_ok_def example_column_def L2_Proxy.example_l3_def)
  then show "columns_ok 0 0 (known_replica (co_worker example_column)) (replica_label (co_worker example_column)) [example_column]"
    by (simp add: columns_ok_def) (simp add: defs)
  show "labels_apart (known_replica (co_worker example_column)) (replica_label (co_worker example_column))"
    by (auto simp: labels_apart_def known_replica_def example_column_def split: if_splits)
qed

text \<open>Steps that accept nothing are inner steps.\<close>

lemma fed_run_inner:
  assumes "l3_reachable e os api s t" "length (sy_accepted t) = length (sy_accepted s)"
  shows "fed_run e os api feeds s t"
  using assms unfolding l3_reachable_def
proof (induction rule: rtranclp_induct)
  case base
  then show ?case by (simp add: fed_run_def)
next
  case (step t u)
  have "prefix (sy_accepted s) (sy_accepted t)"
    using step.hyps(1) by (induction rule: rtranclp_induct) (auto dest: l3_step_accepted intro: prefix_order.trans)
  with l3_step_accepted [OF step.hyps(2)] step.prems have "sy_accepted u = sy_accepted t" "length (sy_accepted t) = length (sy_accepted s)"
    by (auto simp: prefix_def)
  with step fed_step.inner [of e os api t u feeds] show ?case
    unfolding fed_run_def by (auto intro: rtranclp.rtrancl_into_rtrancl)
qed

text \<open>The worker of the example takes the write from its feed and answers it.\<close>

lemma example_fed_run:
  assumes q: "l2_idx q = 0" "0 \<le> l2_seq_no q" "client_id q = 0" and feeds: "feeds 0 = [example_op q]"
  obtains s where "fed_run example_env example_openssl example_api feeds example_system s"
    "sy_answered s = [(example_op q)\<lparr>l3_plaintext := ''new''\<rparr>]" "pipeline s = []" "accepted_from 0 s = feeds 0"
proof -
  obtain p s where p: "l3_async_operation example_env q ''7'' ''new'' False True (sy_proxy example_system) = (Inr (), p)"
      "l3p_req_cnt p \<noteq> l3p_req_cnt (sy_proxy example_system)"
    and r: "l3_reachable example_env example_openssl example_api (example_system\<lparr>sy_proxy := p, sy_accepted := [example_op q]\<rparr>) s"
    and s: "sy_answered s = [(example_op q)\<lparr>l3_plaintext := ''new''\<rparr>]" "sy_accepted s = [example_op q]" "pipeline s = []"
    by (rule example_run [OF q])
  have "fed_step example_env example_openssl example_api feeds example_system
      (example_system\<lparr>sy_proxy := p, sy_accepted := [example_op q]\<rparr>)"
    using fed_step.feed [of 0 example_system feeds "example_op q" example_env p example_openssl example_api] p
    by (simp add: feeds accepted_from_def example_system_def example_op_def l3_op_of_def)
  moreover have "fed_run example_env example_openssl example_api feeds (example_system\<lparr>sy_proxy := p, sy_accepted := [example_op q]\<rparr>) s"
    by (rule fed_run_inner [OF r]) (simp add: s)
  ultimately have run: "fed_run example_env example_openssl example_api feeds example_system s"
    unfolding fed_run_def by (rule converse_rtranclp_into_rtranclp)
  have "accepted_from 0 s = feeds 0" using s(2) q(1) by (simp add: accepted_from_def feeds example_op_def l3_op_of_def)
  with run s(1,3) show thesis by (rule that)
qed

lemma example_route: "l3_route L2_Proxy.example_l3 l = (0, 0)"
  by (simp add: l3_route_def L2_Proxy.example_l3_def one_server l3_worker_def)

theorem layers_refine_key_store_witness:
  "\<exists>s. fed_run example_env example_openssl example_api (column_feed example_env 0 0 [example_column]) example_system s \<and>
     map l3_plaintext (sy_answered s) = [''new'']"
proof -
  let ?q = "example_stamp sequence_id_new" and ?feeds = "column_feed example_env 0 0 [example_column]" and ?w = "co_worker example_column"
  have q: "l2_idx ?q = 0" "0 \<le> l2_seq_no ?q" "client_id ?q = 0" by (simp_all add: example_stamp_def sequence_id_new_def)
  obtain s where run: "fed_run example_env example_openssl example_api ?feeds example_system s"
    and s: "sy_answered s = [(example_op ?q)\<lparr>l3_plaintext := ''new''\<rparr>]" "pipeline s = []" "accepted_from 0 s = ?feeds 0"
    by (rule example_fed_run [where feeds = ?feeds, OF q example_column_feed])
  have "answers_at (\<lambda>l. l3_route (co_iface example_column) l = (0, 0)) (replica_label ?w) (\<lambda>_. ''old'')
      (fresh_requests (last_seen_seq ?w) (co_requests example_column)) = [''new'']"
    by (simp add: answers_at_def example_column_def put_key_def example_l2p_defs sequence_id_new_def
        example_route [unfolded L2_Proxy.example_l3_def])
  with layers_refine_key_store [OF example_column_ok example_env_ok, of "\<lambda>_. ''old''" "\<lambda>_. ''old''" example_openssl example_system example_api s 0]
    example_system_start run s
  have "map l3_plaintext (filter (\<lambda>m. l2_idx (l3_seq_id m) = 0) (sy_answered s)) = [''new'']" by (simp add: Let_def)
  with run s(1) q(1) show ?thesis by (intro exI [of _ s]) (simp add: example_op_def l3_op_of_def)
qed

end
