(* ===== verification/L1_Proxy.thy ===== *)
theory L1_Proxy
  imports Proxy_Env L2_Interface "HOL-Library.Signed_Division"
begin

text \<open>
  proxy/src/l1_proxy.h and l1_proxy.cpp: the first layer. A client request is hidden in a batch of
  real and fake requests, the batch is replicated along the chain of L1 proxies, and the tail of the chain
  sends its operations to the second layer. An acknowledgement of every operation of a batch releases it.
\<close>

record l1_operation =
  l1_seq_id :: sequence_id
  l1_key :: string
  l1_value :: string

record l1_proxy = chain_module +
  l1_instance_name :: string
  security_batch_size :: int
  disable_all_false :: bool
  l1_stats :: bool
  l1_num_keys :: int
  l1_dummy_key :: string
  l1_delta :: rat
  l1_replicas_of :: "(string, int) table"
  l1_fake :: distribution
  l1_real :: distribution
  l1_l2_iface :: "l2_iface option"
  internal_queue :: "l1_operation list"
  l1_idx_no :: int
  l1_hosts :: "host list"
  pending_count :: "(int, int) table"
  l1_tick :: nat

definition l1_proxy_new :: l1_proxy where
  "l1_proxy_new = chain_module.extend chain_module_new
     (l1_proxy.fields [] 3 False False 0 [] 0 [] distribution_empty distribution_empty None [] 0 [] [] 0)"

definition fake_client_id :: int where
  "fake_client_id = - 1995"

text \<open>The next index into the draws and clock readings of the environment.\<close>

definition l1_next_tick :: "(l1_proxy, nat) cpp" where
  "l1_next_tick s = (Inr (l1_tick s), s\<lparr>l1_tick := l1_tick s + 1\<rparr>)"

section \<open>The security batch\<close>

definition is_true_distribution :: "env \<Rightarrow> (l1_proxy, bool) cpp" where
  "is_true_distribution e = bnd l1_next_tick (\<lambda>t. gets (\<lambda>s. prob (l1_delta s) (env_unit e t)))"

definition toss_coins :: "env \<Rightarrow> (l1_proxy, bool list) cpp" where
  "toss_coins e =
     bnd (gets (\<lambda>s. nat (security_batch_size s))) (\<lambda>n.
     bnd (collect (\<lambda>_. is_true_distribution e) [0..<n]) (\<lambda>coins.
     bnd (gets disable_all_false) (\<lambda>no_false.
       if no_false \<and> \<not> list_ex id coins
       then (if coins = [] then throw (Undefined_behaviour ''vector index'') else ret (coins[0 := True]))
       else ret coins)))"

definition fake_operation :: "env \<Rightarrow> (l1_proxy \<Rightarrow> distribution) \<Rightarrow> (l1_proxy, l2_operation) cpp" where
  "fake_operation e d =
     bnd l1_next_tick (\<lambda>t.
     bnd (gets d) (\<lambda>dist.
     bnd (lift_out (dist_sample dist (env_pick e t (dist_probs dist)))) (\<lambda>k.
       ret (l2_operation_new\<lparr>l2_seq_id := sequence_id_new\<lparr>client_id := fake_client_id\<rparr>, l2_key := k, l2_value := []\<rparr>))))"

definition batch_operation :: "env \<Rightarrow> bool \<Rightarrow> (l1_proxy, l2_operation \<times> bool) cpp" where
  "batch_operation e coin =
     bnd (if coin then
            bnd (gets internal_queue) (\<lambda>q.
              case q of
                [] \<Rightarrow> bnd (fake_operation e l1_real) (\<lambda>operat. ret (operat, False))
              | op # rest \<Rightarrow>
                  seqM (modify (\<lambda>s. s\<lparr>internal_queue := rest\<rparr>))
                    (ret (l2_operation_new\<lparr>l2_seq_id := l1_seq_id op, l2_key := l1_key op, l2_value := l1_value op\<rparr>, True)))
          else bnd (fake_operation e l1_fake) (\<lambda>operat. ret (operat, False))) (\<lambda>(operat, is_true).
     bnd (gets (\<lambda>s. map_of (l1_replicas_of s) (l2_key operat))) (\<lambda>it.
       case it of
         None \<Rightarrow> throw (Runtime_error (''key not found: '' @ l2_key operat))
       | Some n \<Rightarrow>
           bnd l1_next_tick (\<lambda>t.
             ret (operat\<lparr>l2_replica := sint (rand_uint32 0 (word_of_int (n - 1)) (env_rand e t))\<rparr>, is_true))))"

definition create_security_batch :: "env \<Rightarrow> (l1_proxy, (l2_operation \<times> bool) list) cpp" where
  "create_security_batch e = bnd (toss_coins e) (collect (batch_operation e))"

section \<open>The application on the chain\<close>

definition l1_run_command :: "sequence_id \<Rightarrow> string list \<Rightarrow> (l1_proxy, unit) cpp" where
  "l1_run_command seq args =
     modify (\<lambda>s. s\<lparr>pending_count := tab_insert (server_seq_no seq) (security_batch_size s) (pending_count s)\<rparr>)"

lemma l2_deserialize_count:
  "l2_deserialize op args idx = Inr (op', n) \<Longrightarrow> 5 \<le> n"
  by (auto simp: l2_deserialize_def l2_opt_ts_def l2_opt_diag_def bind_out_eq_Inr Let_def split: if_splits)

function read_batch :: "string list \<Rightarrow> nat \<Rightarrow> l2_operation list outcome" where
  "read_batch args idx =
     (if idx < length args
      then (case l2_deserialize l2_operation_new args idx of
              Inl e \<Rightarrow> Inl e
            | Inr (op, used) \<Rightarrow> bind_out (read_batch args (idx + used)) (\<lambda>ops. Inr (op # ops)))
      else Inr [])"
  by auto
termination
  by (relation "measure (\<lambda>(args, idx). length args - idx)") (auto dest: l2_deserialize_count)

definition l1_send_l2 :: "env \<Rightarrow> l2_operation \<Rightarrow> (l1_proxy, unit) cpp" where
  "l1_send_l2 e op =
     bnd l1_next_tick (\<lambda>t s.
       case l1_l2_iface s of
         None \<Rightarrow> (Inl (Undefined_behaviour ''null pointer''), s)
       | Some i \<Rightarrow> (let (r, i') = l2_send_op (env_rand e t) op i in (r, s\<lparr>l1_l2_iface := Some i'\<rparr>)))"

definition l1_forward :: "env \<Rightarrow> sequence_id \<Rightarrow> nat \<times> l2_operation \<Rightarrow> (l1_proxy, unit) cpp" where
  "l1_forward e seq iop =
     (case iop of (i, op) \<Rightarrow>
        bnd (gets (\<lambda>s. op\<lparr>l2_seq_id := (l2_seq_id op)\<lparr>l1_idx := l1_idx_no s,
               l1_seq_no := security_batch_size s * server_seq_no seq + int i\<rparr>\<rparr>)) (\<lambda>op1.
        bnd (gets l1_stats) (\<lambda>st.
        bnd (if st then bnd l1_next_tick (\<lambda>t.
               ret (op1\<lparr>l2_seq_id := set_diag (diag (l2_seq_id op1) @
                 to_string (env_now e t - ts (l2_seq_id op1)) @ '','') (l2_seq_id op1)\<rparr>))
             else ret op1) (l1_send_l2 e))))"

definition l1_replication_complete :: "env \<Rightarrow> sequence_id \<Rightarrow> string list \<Rightarrow> (l1_proxy, unit) cpp" where
  "l1_replication_complete e seq args =
     bnd (lift_out (read_batch args 0)) (\<lambda>batch.
     bnd (gets security_batch_size) (\<lambda>n.
       if int (length batch) \<noteq> n mod 2 ^ 64 then throw (Logic_error ''Incorrectly sized security batch'')
       else bnd (gets l1_l2_iface) (\<lambda>i.
         if i = None then ret () else for_each (enumerate 0 batch) (l1_forward e seq))))"

definition l1_setup_callback :: "env \<Rightarrow> (l1_proxy, unit) cpp" where
  "l1_setup_callback e s =
     (if is_tail s \<and> l1_l2_iface s = None
      then (let (r, i) = l2_connect (env_up e) (l2_iface_new (l1_hosts s) (l1_dummy_key s))
            in (r, s\<lparr>l1_l2_iface := Some i\<rparr>))
      else (Inr (), s))"

definition l1_ack_callback :: "sequence_id \<Rightarrow> (l1_proxy, unit) cpp" where
  "l1_ack_callback seq = modify (\<lambda>s. s\<lparr>pending_count := tab_erase (server_seq_no seq) (pending_count s)\<rparr>)"

definition l1_app :: "env \<Rightarrow> l1_proxy vtable" where
  "l1_app e =
     \<lparr>run_command = l1_run_command, replication_complete = l1_replication_complete e,
      setup_callback = l1_setup_callback e, ack_callback = l1_ack_callback\<rparr>"

section \<open>Operations\<close>

definition l1_init_proxy ::
  "env \<Rightarrow> host list \<Rightarrow> string \<Rightarrow> distribution_info \<Rightarrow> int \<Rightarrow> bool \<Rightarrow> bool \<Rightarrow> int \<Rightarrow> (l1_proxy, unit) cpp" where
  "l1_init_proxy e hs name dinfo local_idx no_all_false st batch_size =
     seqM (modify (\<lambda>s. s\<lparr>l1_hosts := hs, l1_instance_name := name, disable_all_false := no_all_false, l1_stats := st,
             chain_ack_batch_size := batch_size, l1_num_keys := num_keys dinfo, l1_dummy_key := dummy_key dinfo,
             l1_delta := 1 / 2, l1_replicas_of := key_to_number_of_replicas dinfo,
             l1_fake := fake_distribution dinfo, l1_real := real_distribution dinfo\<rparr>))
       (case get_host hs name of
          None \<Rightarrow> throw (Runtime_error (''Unkown instance name: '' @ name))
        | Some this \<Rightarrow>
            seqM (modify (\<lambda>s. s\<lparr>l1_idx_no := the (get_base_idx hs name) + local_idx\<rparr>))
              (let reps = get_replicas hs HOST_TYPE_L1 (column this) in
               chain_setup (l1_app e) (env_up e) (map (worker_block local_idx) reps)
                 (chain_role_at reps this) (next_block_at local_idx reps this)))"

definition l1_process_op :: "env \<Rightarrow> l1_operation \<Rightarrow> (l1_proxy, unit) cpp" where
  "l1_process_op e inp =
     bnd (gets is_head) (\<lambda>h.
       if \<not> h then ret ()
       else
         bnd (gets l1_stats) (\<lambda>st.
         bnd (if st then bnd l1_next_tick (\<lambda>t. ret (inp\<lparr>l1_seq_id := set_ts (env_now e t) (l1_seq_id inp)\<rparr>)) else ret inp) (\<lambda>op.
         seqM (modify (\<lambda>s. s\<lparr>internal_queue := internal_queue s @ [op]\<rparr>))
           (bnd (create_security_batch e) (\<lambda>batch.
              chain_request (l1_app e)
                (sequence_id_new\<lparr>client_id := - 1, client_seq_no := - 1, server_seq_no := - 1\<rparr>)
                (concat (map (l2_serialize \<circ> fst) batch)))))))"

definition l1_async_get :: "env \<Rightarrow> sequence_id \<Rightarrow> string \<Rightarrow> (l1_proxy, unit) cpp" where
  "l1_async_get e seq k = l1_process_op e \<lparr>l1_seq_id = seq, l1_key = k, l1_value = []\<rparr>"

definition l1_async_put :: "env \<Rightarrow> sequence_id \<Rightarrow> string \<Rightarrow> string \<Rightarrow> (l1_proxy, unit) cpp" where
  "l1_async_put e seq k v = l1_process_op e \<lparr>l1_seq_id = seq, l1_key = k, l1_value = v\<rparr>"

definition l1_async_get_batch :: "env \<Rightarrow> sequence_id \<Rightarrow> string list \<Rightarrow> (l1_proxy, unit) cpp" where
  "l1_async_get_batch e seq ks = for_each ks (l1_async_get e seq)"

text \<open>\<^verbatim>\<open>values[i]\<close> is read past the end when there are fewer values than keys.\<close>

definition l1_async_put_batch :: "env \<Rightarrow> sequence_id \<Rightarrow> string list \<Rightarrow> string list \<Rightarrow> (l1_proxy, unit) cpp" where
  "l1_async_put_batch e seq ks vs =
     for_each [0..<length ks] (\<lambda>i. bnd (lift_out (vec_at vs (int i))) (\<lambda>v. l1_async_put e seq (ks ! i) v))"

text \<open>
  The overloads without a queue number draw one, \<^verbatim>\<open>rand_uint32(0, RAND_MAX)\<close>; the operations do not use it, so that the draw is their
  only effect.
\<close>

definition queue_draw :: "env \<Rightarrow> nat \<Rightarrow> int" where
  "queue_draw e t = sint (rand_uint32 0 (2 ^ 31 - 1) (env_rand e t))"

definition l1_async_get_any :: "env \<Rightarrow> sequence_id \<Rightarrow> string \<Rightarrow> (l1_proxy, unit) cpp" where
  "l1_async_get_any e seq k = bnd l1_next_tick (\<lambda>_. l1_async_get e seq k)"

definition l1_async_put_any :: "env \<Rightarrow> sequence_id \<Rightarrow> string \<Rightarrow> string \<Rightarrow> (l1_proxy, unit) cpp" where
  "l1_async_put_any e seq k v = bnd l1_next_tick (\<lambda>_. l1_async_put e seq k v)"

definition l1_async_get_batch_any :: "env \<Rightarrow> sequence_id \<Rightarrow> string list \<Rightarrow> (l1_proxy, unit) cpp" where
  "l1_async_get_batch_any e seq ks = bnd l1_next_tick (\<lambda>_. l1_async_get_batch e seq ks)"

definition l1_async_put_batch_any :: "env \<Rightarrow> sequence_id \<Rightarrow> string list \<Rightarrow> string list \<Rightarrow> (l1_proxy, unit) cpp" where
  "l1_async_put_batch_any e seq ks vs = bnd l1_next_tick (\<lambda>_. l1_async_put_batch e seq ks vs)"

definition l1_update_connections :: "env \<Rightarrow> int \<Rightarrow> int \<Rightarrow> string \<Rightarrow> int \<Rightarrow> int \<Rightarrow> (l1_proxy, unit) cpp" where
  "l1_update_connections e t col hname p n s =
     (if t \<noteq> HOST_TYPE_L2 then (Inl (Runtime_error ''Invalid update_connections call''), s)
      else if \<not> is_tail s then (Inl (Runtime_error ''Invalid update_connections call''), s)
      else case l1_l2_iface s of
          None \<Rightarrow> (Inl (Runtime_error ''Invalid update_connections call''), s)
        | Some i \<Rightarrow> (let (r, i') = l2_update_connections (env_up e) col hname p n i in (r, s\<lparr>l1_l2_iface := Some i'\<rparr>)))"

text \<open>The synchronous operations are not offered by this proxy.\<close>

definition l1_not_implemented :: "(l1_proxy, 'a) cpp" where
  "l1_not_implemented = throw (Logic_error ''Not implemented'')"

definition l1_external_ack :: "env \<Rightarrow> sequence_id \<Rightarrow> (l1_proxy, unit) cpp" where
  "l1_external_ack e seq =
     bnd (gets security_batch_size) (\<lambda>n.
       if n = 0 then throw (Undefined_behaviour ''division by zero'')
       else
         (let batch_seq_no = l1_seq_no seq sdiv n in
          bnd (gets (\<lambda>s. map_of (pending_count s) batch_seq_no = Some 1)) (\<lambda>zero.
          seqM (modify (\<lambda>s. s\<lparr>pending_count := tab_update_fn batch_seq_no (\<lambda>c. c - 1) (pending_count s)\<rparr>))
            (if zero then ack (l1_app e) (sequence_id_new\<lparr>server_seq_no := batch_seq_no\<rparr>) else ret ()))))"

definition l1_external_ack_batch :: "env \<Rightarrow> sequence_id list \<Rightarrow> (l1_proxy, unit) cpp" where
  "l1_external_ack_batch e seqs = for_each seqs (l1_external_ack e)"

section \<open>The derived class keeps the base class\<close>

lemma base_l1 [simp]:
  "base (s\<lparr>l1_tick := t\<rparr>) = base s" "base (s\<lparr>l1_l2_iface := i\<rparr>) = base s"
  "base (s\<lparr>internal_queue := q\<rparr>) = base s" "base (s\<lparr>pending_count := c\<rparr>) = base s"
  for s :: l1_proxy
  by (simp_all add: chain_module.truncate_def)

lemma keeps_l1_next_tick [keeps_intros]: "keeps (\<lambda>t. base t = b) l1_next_tick"
  by (rule keepsI) (simp add: l1_next_tick_def)

lemma keeps_l1_send_l2 [keeps_intros]: "keeps (\<lambda>t. base t = b) (l1_send_l2 e op)"
  unfolding l1_send_l2_def
  by (intro keeps_intros) (rule keepsI, simp split: option.splits prod.splits)

lemma keeps_l1_replication_complete: "keeps (\<lambda>t. base t = b) (l1_replication_complete e seq args)"
  unfolding l1_replication_complete_def l1_forward_def by (auto intro!: keeps_intros split: prod.splits)

interpretation l1c: chain_app "l1_app e" for e
proof
  fix seq args s
  show "base (snd (run_command (l1_app e) seq args s)) = base s"
    by (simp add: l1_app_def l1_run_command_def modify_apply)
  show "base (snd (replication_complete (l1_app e) seq args s)) = base s"
    using keepsD [OF keeps_l1_replication_complete] by (simp add: l1_app_def)
  show "base (snd (setup_callback (l1_app e) s)) = base s"
    by (simp add: l1_app_def l1_setup_callback_def Let_def split: prod.splits)
  show "base (snd (ack_callback (l1_app e) seq s)) = base s"
    by (simp add: l1_app_def l1_ack_callback_def modify_apply)
qed

section \<open>What a batch contains\<close>

definition l1_op_ok :: "(string, int) table \<Rightarrow> l1_operation \<Rightarrow> bool" where
  "l1_op_ok tab op \<longleftrightarrow>
     int64_range (client_id (l1_seq_id op)) \<and> int64_range (client_seq_no (l1_seq_id op)) \<and>
     int64_range (ts (l1_seq_id op)) \<and> map_of tab (l1_key op) \<noteq> None"

definition samples_ok :: "(string, int) table \<Rightarrow> distribution \<Rightarrow> bool" where
  "samples_ok tab d \<longleftrightarrow>
     dist_probs d \<noteq> [] \<and> length (dist_items d) = length (dist_probs d) \<and>
     (\<forall>k \<in> set (dist_items d). map_of tab k \<noteq> None)"

text \<open>The state after \<^verbatim>\<open>init_proxy\<close> with a loaded distribution, at any later time.\<close>

definition l1_ok :: "l1_proxy \<Rightarrow> bool" where
  "l1_ok s \<longleftrightarrow>
     0 < security_batch_size s \<and> security_batch_size s < 2 ^ 31 \<and>
     samples_ok (l1_replicas_of s) (l1_real s) \<and> samples_ok (l1_replicas_of s) (l1_fake s) \<and>
     (\<forall>n \<in> ran (map_of (l1_replicas_of s)). 0 < n \<and> n < 2 ^ 31) \<and>
     list_all (l1_op_ok (l1_replicas_of s)) (internal_queue s)"

definition as_l1 :: "l2_operation \<Rightarrow> l1_operation" where
  "as_l1 op = \<lparr>l1_seq_id = l2_seq_id op, l1_key = l2_key op, l1_value = l2_value op\<rparr>"

definition is_fake :: "l2_operation \<Rightarrow> bool" where
  "is_fake op \<longleftrightarrow> l2_seq_id op = sequence_id_new\<lparr>client_id := fake_client_id\<rparr> \<and> l2_value op = []"

definition replica_in :: "(string, int) table \<Rightarrow> l2_operation \<Rightarrow> bool" where
  "replica_in tab op \<longleftrightarrow> (\<exists>n. map_of tab (l2_key op) = Some n \<and> 0 \<le> l2_replica op \<and> l2_replica op < n)"

lemma rand_replica:
  assumes "0 < n" "n < 2 ^ 31"
  shows "sint (rand_uint32 0 (word_of_int (n - 1)) d) = int (d mod nat n)"
proof -
  have "(word_of_int (n - 1) :: uint32) = of_nat (nat n) - 1"
    using assms(1) by (simp add: of_nat_nat)
  then show ?thesis using rand_index [of "nat n" d] assms by simp
qed

lemma fake_operation_ok:
  assumes "env_ok e" "samples_ok tab (d s)" "\<And>t. d (s\<lparr>l1_tick := t\<rparr>) = d s"
  obtains op where "fake_operation e d s = (Inr op, s\<lparr>l1_tick := l1_tick s + 1\<rparr>)"
    "is_fake op" "map_of tab (l2_key op) \<noteq> None"
proof -
  let ?i = "env_pick e (l1_tick s) (dist_probs (d s))"
  have i: "?i < length (dist_items (d s))" using assms(1,2) by (simp add: env_ok_def samples_ok_def)
  then have "dist_sample (d s) ?i = Inr (dist_items (d s) ! ?i)" by (simp add: dist_sample_def)
  then have "fake_operation e d s = (Inr (l2_operation_new\<lparr>l2_seq_id := sequence_id_new\<lparr>client_id := fake_client_id\<rparr>,
      l2_key := dist_items (d s) ! ?i, l2_value := []\<rparr>), s\<lparr>l1_tick := l1_tick s + 1\<rparr>)"
    using assms(3) by (simp add: fake_operation_def cpp_simps l1_next_tick_def)
  then show thesis
    by (rule that) (use assms(2) i in \<open>auto simp: is_fake_def samples_ok_def\<close>)
qed

lemma batch_operation_ok:
  assumes "env_ok e" "l1_ok s"
  obtains op k where
    "batch_operation e coin s =
       (Inr (op, coin \<and> internal_queue s \<noteq> []),
        s\<lparr>internal_queue := (if coin then tl (internal_queue s) else internal_queue s), l1_tick := k\<rparr>)"
    "replica_in (l1_replicas_of s) op" "int32_range (l2_replica op)"
    "if coin \<and> internal_queue s \<noteq> [] then as_l1 op = hd (internal_queue s) else is_fake op"
proof -
  let ?tab = "l1_replicas_of s"
  have real: "samples_ok ?tab (l1_real s)" and fake: "samples_ok ?tab (l1_fake s)"
    and tab: "\<And>k n. map_of ?tab k = Some n \<Longrightarrow> 0 < n \<and> n < 2 ^ 31"
    and q: "list_all (l1_op_ok ?tab) (internal_queue s)"
    using assms(2) by (auto simp: l1_ok_def intro: ranI)
  obtain op0 k0 where first:
    "(if coin then bnd (gets internal_queue) (\<lambda>q. case q of
        [] \<Rightarrow> bnd (fake_operation e l1_real) (\<lambda>operat. ret (operat, False))
      | op # rest \<Rightarrow> seqM (modify (\<lambda>s. s\<lparr>internal_queue := rest\<rparr>))
          (ret (l2_operation_new\<lparr>l2_seq_id := l1_seq_id op, l2_key := l1_key op, l2_value := l1_value op\<rparr>, True)))
      else bnd (fake_operation e l1_fake) (\<lambda>operat. ret (operat, False))) s =
     (Inr (op0, coin \<and> internal_queue s \<noteq> []),
      s\<lparr>internal_queue := (if coin then tl (internal_queue s) else internal_queue s), l1_tick := k0\<rparr>)"
    "map_of ?tab (l2_key op0) \<noteq> None"
    "if coin \<and> internal_queue s \<noteq> [] then as_l1 op0 = hd (internal_queue s) else is_fake op0"
  proof (cases "coin \<and> internal_queue s \<noteq> []")
    case True
    then obtain op rest where "internal_queue s = op # rest" by (cases "internal_queue s") auto
    with True q show thesis
      by (intro that [of "l2_operation_new\<lparr>l2_seq_id := l1_seq_id op, l2_key := l1_key op, l2_value := l1_value op\<rparr>" "l1_tick s"])
        (simp_all add: cpp_simps l1_op_ok_def as_l1_def)
  next
    case False
    define d :: "l1_proxy \<Rightarrow> distribution" where "d = (if coin then l1_real else l1_fake)"
    have "samples_ok ?tab (d s)" "\<And>t. d (s\<lparr>l1_tick := t\<rparr>) = d s" using real fake by (simp_all add: d_def)
    from fake_operation_ok [OF assms(1) this] obtain op where
      "fake_operation e d s = (Inr op, s\<lparr>l1_tick := l1_tick s + 1\<rparr>)" "is_fake op" "map_of ?tab (l2_key op) \<noteq> None" .
    with False show thesis
      by (intro that [of op "l1_tick s + 1"]) (auto simp: cpp_simps d_def split: if_splits)
  qed
  obtain n where n: "map_of ?tab (l2_key op0) = Some n" using first(2) by auto
  let ?op = "op0\<lparr>l2_replica := sint (rand_uint32 0 (word_of_int (n - 1)) (env_rand e k0))\<rparr>"
  have r: "l2_replica ?op = int (env_rand e k0 mod nat n)" using rand_replica tab n by simp
  have lt: "int (env_rand e k0 mod nat n) < n" using tab [OF n] by (simp add: zmod_int)
  show thesis
  proof (rule that [of ?op "k0 + 1"])
    show "batch_operation e coin s = (Inr (?op, coin \<and> internal_queue s \<noteq> []),
        s\<lparr>internal_queue := (if coin then tl (internal_queue s) else internal_queue s), l1_tick := k0 + 1\<rparr>)"
      unfolding batch_operation_def using first(1) n
      by (simp add: bnd_apply gets_apply l1_next_tick_def ret_apply)
    show "replica_in ?tab ?op" using n r lt by (simp add: replica_in_def)
    show "int32_range (l2_replica ?op)" using r lt tab [OF n] by (simp add: int32_range_def)
    show "if coin \<and> internal_queue s \<noteq> [] then as_l1 ?op = hd (internal_queue s) else is_fake ?op"
      using first(3) by (auto simp: as_l1_def is_fake_def split: if_splits)
  qed
qed

text \<open>The operations of a batch: the real ones are taken from the front of the queue.\<close>

definition batch_from :: "l1_proxy \<Rightarrow> nat \<Rightarrow> (l2_operation \<times> bool) list \<Rightarrow> bool" where
  "batch_from s m batch \<longleftrightarrow>
     m \<le> length (internal_queue s) \<and>
     map (as_l1 \<circ> fst) (filter snd batch) = take m (internal_queue s) \<and>
     (\<forall>(op, real) \<in> set batch. replica_in (l1_replicas_of s) op \<and> int32_range (l2_replica op) \<and> (real \<or> is_fake op))"

lemma l1_ok_dequeue: "l1_ok s \<Longrightarrow> l1_ok (s\<lparr>internal_queue := drop m (internal_queue s), l1_tick := k\<rparr>)"
  by (auto simp: l1_ok_def list_all_iff dest: in_set_dropD)

lemma collect_batch_ok:
  assumes "env_ok e" "l1_ok s"
  obtains batch k where
    "collect (batch_operation e) coins s =
       (Inr batch, s\<lparr>internal_queue := drop (length (filter id coins)) (internal_queue s), l1_tick := k\<rparr>)"
    "length batch = length coins" "batch_from s (min (length (filter id coins)) (length (internal_queue s))) batch"
proof -
  have "\<exists>batch k. collect (batch_operation e) coins s =
       (Inr batch, s\<lparr>internal_queue := drop (length (filter id coins)) (internal_queue s), l1_tick := k\<rparr>) \<and>
     length batch = length coins \<and> batch_from s (min (length (filter id coins)) (length (internal_queue s))) batch"
    using assms(2)
  proof (induction coins arbitrary: s)
    case Nil
    show ?case by (rule exI [of _ "[]"], rule exI [of _ "l1_tick s"]) (simp add: ret_apply batch_from_def)
  next
    case (Cons c cs)
    obtain op k where op: "batch_operation e c s =
       (Inr (op, c \<and> internal_queue s \<noteq> []),
        s\<lparr>internal_queue := (if c then tl (internal_queue s) else internal_queue s), l1_tick := k\<rparr>)"
      "replica_in (l1_replicas_of s) op" "int32_range (l2_replica op)"
      "if c \<and> internal_queue s \<noteq> [] then as_l1 op = hd (internal_queue s) else is_fake op"
      using batch_operation_ok [OF assms(1) Cons.prems] .
    define t where "t = s\<lparr>internal_queue := drop (if c then 1 else 0) (internal_queue s), l1_tick := k\<rparr>"
    have t: "l1_ok t" unfolding t_def by (rule l1_ok_dequeue [OF Cons.prems])
    have b: "batch_operation e c s = (Inr (op, c \<and> internal_queue s \<noteq> []), t)"
      using op(1) by (simp add: t_def drop_Suc)
    from Cons.IH [OF t] obtain batch k' where ih: "collect (batch_operation e) cs t =
       (Inr batch, t\<lparr>internal_queue := drop (length (filter id cs)) (internal_queue t), l1_tick := k'\<rparr>)"
      "length batch = length cs" "batch_from t (min (length (filter id cs)) (length (internal_queue t))) batch" by blast
    have "batch_from s (min (length (filter id (c # cs))) (length (internal_queue s)))
        ((op, c \<and> internal_queue s \<noteq> []) # batch)"
      using ih(3) op(2-4) by (cases "internal_queue s"; cases c) (auto simp: batch_from_def t_def)
    moreover have "collect (batch_operation e) (c # cs) s = (Inr ((op, c \<and> internal_queue s \<noteq> []) # batch),
        s\<lparr>internal_queue := drop (length (filter id (c # cs))) (internal_queue s), l1_tick := k'\<rparr>)"
      using b ih(1) by (cases c) (simp_all add: collect_Cons t_def del: collect.simps)
    ultimately show ?case using ih(2) by (metis length_Cons)
  qed
  then show thesis using that by blast
qed

lemma tosses_ok:
  obtains cs k where "collect (\<lambda>_. is_true_distribution e) xs s = (Inr cs, s\<lparr>l1_tick := k\<rparr>)" "length cs = length xs"
proof -
  have "\<exists>cs k. collect (\<lambda>_. is_true_distribution e) xs s = (Inr cs, s\<lparr>l1_tick := k\<rparr>) \<and> length cs = length xs"
  proof (induction xs arbitrary: s)
    case Nil
    show ?case by (rule exI [of _ "[]"], rule exI [of _ "l1_tick s"]) (simp add: ret_apply)
  next
    case (Cons x xs)
    obtain c where c: "is_true_distribution e s = (Inr c, s\<lparr>l1_tick := l1_tick s + 1\<rparr>)"
      by (simp add: is_true_distribution_def cpp_simps l1_next_tick_def)
    from Cons.IH [of "s\<lparr>l1_tick := l1_tick s + 1\<rparr>"] obtain cs k where
      "collect (\<lambda>_. is_true_distribution e) xs (s\<lparr>l1_tick := l1_tick s + 1\<rparr>) = (Inr cs, s\<lparr>l1_tick := k\<rparr>)"
      "length cs = length xs" by auto
    with c show ?case
      by (intro exI [of _ "c # cs"]) (auto simp: collect_Cons simp del: collect.simps)
  qed
  then show thesis using that by blast
qed

lemma toss_coins_ok:
  assumes "0 < security_batch_size s"
  obtains coins k where "toss_coins e s = (Inr coins, s\<lparr>l1_tick := k\<rparr>)" "length coins = nat (security_batch_size s)"
    "disable_all_false s \<longrightarrow> filter id coins \<noteq> []"
proof -
  obtain cs k where cs: "collect (\<lambda>_. is_true_distribution e) [0..<nat (security_batch_size s)] s = (Inr cs, s\<lparr>l1_tick := k\<rparr>)"
    "length cs = nat (security_batch_size s)"
    using tosses_ok [of e "[0..<nat (security_batch_size s)]" s] by auto
  have ne: "cs \<noteq> []" using cs(2) assms by auto
  show thesis
  proof (rule that)
    show "toss_coins e s = (Inr (if disable_all_false s \<and> \<not> list_ex id cs then cs[0 := True] else cs), s\<lparr>l1_tick := k\<rparr>)"
      using cs ne by (simp add: toss_coins_def cpp_simps)
    show "disable_all_false s \<longrightarrow> filter id (if disable_all_false s \<and> \<not> list_ex id cs then cs[0 := True] else cs) \<noteq> []"
      using ne by (cases cs) (auto simp: filter_empty_conv list_ex_iff)
  qed (use cs in simp)
qed

lemma create_security_batch_ok:
  assumes "env_ok e" "l1_ok s"
  obtains batch m k where
    "create_security_batch e s = (Inr batch, s\<lparr>internal_queue := drop m (internal_queue s), l1_tick := k\<rparr>)"
    "int (length batch) = security_batch_size s" "batch_from s m batch"
    "disable_all_false s \<and> internal_queue s \<noteq> [] \<longrightarrow> 0 < m"
proof -
  have pos: "0 < security_batch_size s" using assms(2) by (simp add: l1_ok_def)
  obtain coins k where coins: "toss_coins e s = (Inr coins, s\<lparr>l1_tick := k\<rparr>)"
    "length coins = nat (security_batch_size s)" "disable_all_false s \<longrightarrow> filter id coins \<noteq> []"
    using toss_coins_ok [OF pos, of e] by blast
  let ?s = "s\<lparr>l1_tick := k\<rparr>"
  have ok: "l1_ok ?s" using l1_ok_dequeue [OF assms(2), where m = 0 and k = k] by simp
  obtain batch k' where b: "collect (batch_operation e) coins ?s =
       (Inr batch, ?s\<lparr>internal_queue := drop (length (filter id coins)) (internal_queue ?s), l1_tick := k'\<rparr>)"
    "length batch = length coins" "batch_from ?s (min (length (filter id coins)) (length (internal_queue ?s))) batch"
    using collect_batch_ok [OF assms(1) ok] by blast
  let ?m = "min (length (filter id coins)) (length (internal_queue s))"
  have d: "drop (length (filter id coins)) (internal_queue s) = drop ?m (internal_queue s)"
    by (cases "length (filter id coins) \<le> length (internal_queue s)") (simp_all add: min_def)
  show thesis
  proof (rule that)
    show "create_security_batch e s = (Inr batch, s\<lparr>internal_queue := drop ?m (internal_queue s), l1_tick := k'\<rparr>)"
      using coins(1) b(1) d by (simp add: create_security_batch_def bnd_apply)
    show "batch_from s ?m batch" using b(3) by (simp add: batch_from_def)
    show "disable_all_false s \<and> internal_queue s \<noteq> [] \<longrightarrow> 0 < ?m"
      using coins(3) by (auto simp: min_def)
  qed (use b(2) coins(2) pos in simp)
qed

section \<open>Reading the batch back\<close>

declare read_batch.simps [simp del]

lemma read_batch_serialize:
  assumes "list_all l2_op_ok ops"
  shows "read_batch (pre @ concat (map l2_serialize ops)) (length pre) = Inr (map wire_op ops)"
  using assms
proof (induction ops arbitrary: pre)
  case Nil
  then show ?case by (simp add: read_batch.simps)
next
  case (Cons op ops)
  let ?rest = "concat (map l2_serialize ops)"
  have "length (l2_serialize op) \<noteq> 0" by (simp add: l2_serialize_def)
  then have lt: "length pre < length (pre @ l2_serialize op @ ?rest)" by simp
  have d: "l2_deserialize l2_operation_new (pre @ l2_serialize op @ ?rest) (length pre) =
      Inr (wire_op op, length (l2_serialize op))"
    using Cons.prems by (intro l2_deserialize_serialize no_marker_serialize) simp_all
  have "read_batch (pre @ l2_serialize op @ ?rest) (length pre + length (l2_serialize op)) = Inr (map wire_op ops)"
    using Cons.IH [of "pre @ l2_serialize op"] Cons.prems by simp
  with lt d show ?case by (subst read_batch.simps) simp
qed

lemma batch_ops_ok:
  assumes "batch_from s m batch" "list_all (l1_op_ok (l1_replicas_of s)) (internal_queue s)"
  shows "list_all l2_op_ok (map fst batch)"
  unfolding list_all_iff
proof
  fix op assume "op \<in> set (map fst batch)"
  then obtain real where b: "(op, real) \<in> set batch" by auto
  have r: "int32_range (l2_replica op)" "real \<or> is_fake op" using assms(1) b by (auto simp: batch_from_def)
  show "l2_op_ok op"
  proof (cases real)
    case True
    with b have "as_l1 op \<in> set (map (as_l1 \<circ> fst) (filter snd batch))" by force
    then have "as_l1 op \<in> set (internal_queue s)"
      using assms(1) by (metis batch_from_def in_set_takeD)
    with assms(2) have "l1_op_ok (l1_replicas_of s) (as_l1 op)" by (auto simp: list_all_iff)
    with r show ?thesis by (simp add: l1_op_ok_def l2_op_ok_def as_l1_def)
  next
    case False
    with r show ?thesis
      by (simp add: is_fake_def l2_op_ok_def sequence_id_new_def fake_client_id_def int64_range_def)
  qed
qed

section \<open>Properties\<close>

definition seqs_fresh :: "l1_proxy \<Rightarrow> bool" where
  "seqs_fresh s \<longleftrightarrow>
     (\<forall>k v. map_of (pending s) k = Some v \<longrightarrow> k \<le> chain_seq_no s) \<and>
     (\<forall>k v. map_of (pending_count s) k = Some v \<longrightarrow> k \<le> chain_seq_no s)"

definition l1_stamp :: "env \<Rightarrow> l1_proxy \<Rightarrow> l1_operation \<Rightarrow> l1_operation" where
  "l1_stamp e s op = (if l1_stats s then op\<lparr>l1_seq_id := set_ts (env_now e (l1_tick s)) (l1_seq_id op)\<rparr> else op)"

lemma l1_process_op_batch:
  assumes "env_ok e" "l1_ok s" "is_head s" "l1_op_ok (l1_replicas_of s) op"
  obtains batch m k where
    "l1_process_op e op s = chain_request (l1_app e)
       (sequence_id_new\<lparr>client_id := - 1, client_seq_no := - 1, server_seq_no := - 1\<rparr>) (concat (map (l2_serialize \<circ> fst) batch))
       (s\<lparr>internal_queue := drop m (internal_queue s @ [l1_stamp e s op]), l1_tick := k\<rparr>)"
    "int (length batch) = security_batch_size s"
    "batch_from (s\<lparr>internal_queue := internal_queue s @ [l1_stamp e s op]\<rparr>) m batch"
    "disable_all_false s \<longrightarrow> 0 < m" "list_all l2_op_ok (map fst batch)"
    "l1_ok (s\<lparr>internal_queue := drop m (internal_queue s @ [l1_stamp e s op]), l1_tick := k\<rparr>)"
proof -
  let ?op = "l1_stamp e s op"
  define s1 where "s1 = s\<lparr>l1_tick := l1_tick s + (if l1_stats s then 1 else 0), internal_queue := internal_queue s @ [?op]\<rparr>"
  have q: "list_all (l1_op_ok (l1_replicas_of s)) (internal_queue s @ [?op])"
    using assms by (auto simp: l1_ok_def l1_stamp_def l1_op_ok_def set_ts_def env_ok_def)
  then have ok: "l1_ok s1" using assms(2) by (simp add: l1_ok_def s1_def)
  obtain batch m k where b:
    "create_security_batch e s1 = (Inr batch, s1\<lparr>internal_queue := drop m (internal_queue s1), l1_tick := k\<rparr>)"
    "int (length batch) = security_batch_size s1" "batch_from s1 m batch"
    "disable_all_false s1 \<and> internal_queue s1 \<noteq> [] \<longrightarrow> 0 < m"
    using create_security_batch_ok [OF assms(1) ok] by blast
  have "l1_process_op e op s = bnd (create_security_batch e) (\<lambda>batch. chain_request (l1_app e)
       (sequence_id_new\<lparr>client_id := - 1, client_seq_no := - 1, server_seq_no := - 1\<rparr>) (concat (map (l2_serialize \<circ> fst) batch))) s1"
    using assms(3) by (cases "l1_stats s")
      (simp_all add: l1_process_op_def bnd_apply seqM_apply gets_apply ret_apply modify_apply l1_next_tick_def s1_def l1_stamp_def)
  with b(1) have run: "l1_process_op e op s = chain_request (l1_app e)
       (sequence_id_new\<lparr>client_id := - 1, client_seq_no := - 1, server_seq_no := - 1\<rparr>) (concat (map (l2_serialize \<circ> fst) batch))
       (s\<lparr>internal_queue := drop m (internal_queue s @ [?op]), l1_tick := k\<rparr>)"
    by (simp add: bnd_apply s1_def)
  have bf: "batch_from (s\<lparr>internal_queue := internal_queue s @ [?op]\<rparr>) m batch"
    using b(3) by (simp add: batch_from_def s1_def)
  show thesis
  proof (rule that [OF run _ bf])
    show "list_all l2_op_ok (map fst batch)" using batch_ops_ok [OF bf] q by simp
    show "l1_ok (s\<lparr>internal_queue := drop m (internal_queue s @ [?op]), l1_tick := k\<rparr>)"
      using l1_ok_dequeue [OF ok, where m = m and k = k] by (simp add: s1_def)
  qed (use b(2,4) in \<open>simp_all add: s1_def\<close>)
qed

text \<open>
  C9. A client request at the head of an L1 chain becomes one replicated command: a batch of exactly
  \<^verbatim>\<open>security_batch_size_\<close> operations, the real ones taken from the front of the waiting requests in order and
  unchanged, all others fake; every operation has an existing key and a replica number in range. When batches without
  a real request are disabled at least one waiting request leaves with the batch. The command is recorded as pending under the next sequence
  number with a full count and sent to the successor, and the tail's reading loop decodes the batch from it.
\<close>

theorem l1_request_becomes_batch:
  assumes "env_ok e" "l1_ok s" "seqs_fresh s" "role s = Head" "rc_client (next_cxn s)" "rc_open (next_cxn s)"
    and "l1_op_ok (l1_replicas_of s) op"
  shows "\<exists>batch m args s'.
     l1_process_op e op s = (Inr (), s') \<and> l1_ok s' \<and> seqs_fresh s' \<and>
     int (length batch) = security_batch_size s \<and>
     batch_from (s\<lparr>internal_queue := internal_queue s @ [l1_stamp e s op]\<rparr>) m batch \<and>
     (disable_all_false s \<longrightarrow> 0 < m) \<and> internal_queue s' = drop m (internal_queue s @ [l1_stamp e s op]) \<and>
     read_batch args 0 = Inr (map (wire_op \<circ> fst) batch) \<and>
     chain_seq_no s' = chain_seq_no s + 1 \<and>
     map_option op_args (map_of (pending s') (chain_seq_no s + 1)) = Some args \<and>
     map_of (pending_count s') (chain_seq_no s + 1) = Some (security_batch_size s) \<and>
     map (op_args \<circ> snd) (rc_sent (next_cxn s')) = map (op_args \<circ> snd) (rc_sent (next_cxn s)) @ [args]"
proof -
  have head: "is_head s" using assms(4) by (simp add: is_head_def)
  obtain batch m k where b:
    "l1_process_op e op s = chain_request (l1_app e)
       (sequence_id_new\<lparr>client_id := - 1, client_seq_no := - 1, server_seq_no := - 1\<rparr>) (concat (map (l2_serialize \<circ> fst) batch))
       (s\<lparr>internal_queue := drop m (internal_queue s @ [l1_stamp e s op]), l1_tick := k\<rparr>)"
    "int (length batch) = security_batch_size s"
    "batch_from (s\<lparr>internal_queue := internal_queue s @ [l1_stamp e s op]\<rparr>) m batch"
    "disable_all_false s \<longrightarrow> 0 < m" "list_all l2_op_ok (map fst batch)"
    "l1_ok (s\<lparr>internal_queue := drop m (internal_queue s @ [l1_stamp e s op]), l1_tick := k\<rparr>)"
    using l1_process_op_batch [OF assms(1,2) head assms(7)] by metis
  let ?seq = "sequence_id_new\<lparr>client_id := - 1, client_seq_no := - 1, server_seq_no := chain_seq_no s + 1\<rparr>"
  let ?args = "concat (map (l2_serialize \<circ> fst) batch)"
  let ?s1 = "s\<lparr>internal_queue := drop m (internal_queue s @ [l1_stamp e s op]), l1_tick := k,
    pending_count := tab_insert (chain_seq_no s + 1) (security_batch_size s) (pending_count s)\<rparr>"
  let ?s' = "(accepted ?seq ?args ?s1)\<lparr>next_cxn := (next_cxn s)\<lparr>rc_sent := rc_sent (next_cxn s) @
    [(rc_block_id (next_cxn s), \<lparr>op_seq = ?seq, op_args = ?args\<rparr>)]\<rparr>\<rparr>"
  have fresh: "map_of (pending s) (chain_seq_no s + 1) = None" "map_of (pending_count s) (chain_seq_no s + 1) = None"
    using assms(3) by (fastforce simp: seqs_fresh_def)+
  have run: "l1_process_op e op s = (Inr (), ?s')"
    using assms(4-6) unfolding b(1) chain_request_cases
    by (simp add: in_order_def stamped_def is_head_def is_tail_def l1_app_def l1_run_command_def modify_apply
        on_next_def rc_request_open)
  moreover have "l1_ok ?s'" using b(6) by (simp add: l1_ok_def accepted_def add_pending_def)
  moreover have "seqs_fresh ?s'"
    using assms(3) fresh
    by (auto simp: seqs_fresh_def accepted_def add_pending_def map_of_tab_insert intro: order_trans [of _ "chain_seq_no s"])
  moreover have "read_batch ?args 0 = Inr (map (wire_op \<circ> fst) batch)"
    using read_batch_serialize [OF b(5), of "[]"] by (simp add: comp_def)
  moreover have "map_option op_args (map_of (pending ?s') (chain_seq_no s + 1)) = Some ?args"
    "map_of (pending_count ?s') (chain_seq_no s + 1) = Some (security_batch_size s)"
    using fresh by (simp_all add: accepted_def add_pending_def map_of_tab_insert)
  ultimately show ?thesis using b(2-4)
    by (intro exI [of _ batch], intro exI [of _ m], intro exI [of _ ?args], intro exI [of _ ?s'])
      (simp add: accepted_def add_pending_def)
qed

section \<open>Forwarding to the second layer\<close>

lemma sdiv_nonneg: "0 \<le> x \<Longrightarrow> 0 < n \<Longrightarrow> x sdiv n = x div n" for x n :: int
  by (cases "x = 0") (simp_all add: signed_divide_int_def sgn_if)

definition undiag :: "l2_operation \<Rightarrow> l2_operation" where
  "undiag op = op\<lparr>l2_seq_id := (l2_seq_id op)\<lparr>diag := [], isset_diag := False\<rparr>\<rparr>"

lemma undiag_l1_seq_no [simp]: "l1_seq_no (l2_seq_id (undiag op)) = l1_seq_no (l2_seq_id op)"
  by (simp add: undiag_def)

text \<open>The number of the \<open>j\<close>-th operation of a batch.\<close>

definition l1_numbered :: "l1_proxy \<Rightarrow> sequence_id \<Rightarrow> nat \<Rightarrow> l2_operation \<Rightarrow> l2_operation" where
  "l1_numbered s seq j op =
     op\<lparr>l2_seq_id := (l2_seq_id op)\<lparr>l1_idx := l1_idx_no s, l1_seq_no := security_batch_size s * server_seq_no seq + int j\<rparr>\<rparr>"

lemma l1_forward_ok:
  assumes "l1_l2_iface s = Some i" "l2_ready i"
  obtains m c w k where
    "l1_forward e seq (j, op) s = (Inr (), s\<lparr>l1_tick := k, l1_l2_iface := Some (i\<lparr>l2_clients := grid_call c w m (l2_clients i)\<rparr>)\<rparr>)"
    "c < length (l2_clients i)" "w < length (l2_clients i ! c)" "undiag m = undiag (l1_numbered s seq j op)"
    "l2_key op \<noteq> l2_dummy_key i \<longrightarrow> int c = consistent_hash (l2_key op) (int (length (l2_clients i)))"
proof -
  define m where "m = (if l1_stats s then (l1_numbered s seq j op)\<lparr>l2_seq_id := set_diag (diag (l2_seq_id (l1_numbered s seq j op)) @
      to_string (env_now e (l1_tick s) - ts (l2_seq_id (l1_numbered s seq j op))) @ '','') (l2_seq_id (l1_numbered s seq j op))\<rparr>
    else l1_numbered s seq j op)"
  define t where "t = (if l1_stats s then l1_tick s + 1 else l1_tick s)"
  let ?c = "nat (l2_column (env_rand e t) m i)"
  have c: "?c < length (l2_clients i)" using l2_column_range [OF assms(2), of "env_rand e t" m] by (simp add: nat_less_iff)
  have "l1_forward e seq (j, op) s = l1_send_l2 e m (s\<lparr>l1_tick := t\<rparr>)"
    by (cases "l1_stats s")
      (simp_all add: l1_forward_def bnd_apply gets_apply ret_apply l1_next_tick_def m_def t_def l1_numbered_def)
  also have "\<dots> = (Inr (), s\<lparr>l1_tick := t + 1, l1_l2_iface := Some (i\<lparr>l2_clients :=
      grid_call ?c (l2_worker m (length (l2_clients i ! ?c))) m (l2_clients i)\<rparr>)\<rparr>)"
    using l2_send_op_ready(1) [OF assms(2), of "env_rand e t" m] assms(1)
    by (simp add: l1_send_l2_def bnd_apply l1_next_tick_def)
  finally show thesis
    by (rule that) (use c l2_send_op_ready(2) [OF assms(2), of m "env_rand e t"] l2_column_range [OF assms(2), of "env_rand e t" m] in
        \<open>simp_all add: m_def undiag_def set_diag_def l1_numbered_def l2_column_def\<close>)
qed

text \<open>On every connection the numbers increase and stay below a bound.\<close>

definition numbers_below :: "int \<Rightarrow> l2_iface \<Rightarrow> bool" where
  "numbers_below b i \<longleftrightarrow>
     (\<forall>c < length (l2_clients i). \<forall>w < length (l2_clients i ! c).
        sorted_wrt (<) (map (l1_seq_no \<circ> l2_seq_id) (cl_sent (l2_clients i ! c ! w))) \<and>
        (\<forall>m \<in> set (cl_sent (l2_clients i ! c ! w)). l1_seq_no (l2_seq_id m) < b))"

lemma numbers_below_call:
  assumes "numbers_below b i" "c < length (l2_clients i)" "w < length (l2_clients i ! c)" "b \<le> l1_seq_no (l2_seq_id m)"
  shows "numbers_below (l1_seq_no (l2_seq_id m) + 1) (i\<lparr>l2_clients := grid_call c w m (l2_clients i)\<rparr>)"
  using assms by (fastforce simp: numbers_below_def grid_call_nth sorted_wrt_append)

text \<open>
  A message on its way: the column and the worker it was sent to, and the operation. On every connection the new messages follow the old ones in the order in which they were sent.
\<close>

type_synonym l1_message = "(nat \<times> nat) \<times> l2_operation"

definition sent_after :: "l2_iface \<Rightarrow> l1_message list \<Rightarrow> l2_iface \<Rightarrow> bool" where
  "sent_after i ms i' \<longleftrightarrow>
     map length (l2_clients i') = map length (l2_clients i) \<and> l2_dummy_key i' = l2_dummy_key i \<and>
     (\<forall>((c, w), m) \<in> set ms. c < length (l2_clients i) \<and> w < length (l2_clients i ! c) \<and>
        (l2_key m \<noteq> l2_dummy_key i \<longrightarrow> int c = consistent_hash (l2_key m) (int (length (l2_clients i))))) \<and>
     (\<forall>c w. c < length (l2_clients i) \<longrightarrow> w < length (l2_clients i ! c) \<longrightarrow>
        cl_sent (l2_clients i' ! c ! w) = cl_sent (l2_clients i ! c ! w) @ map snd (filter (\<lambda>x. fst x = (c, w)) ms))"

lemma sent_after_Nil [simp]: "sent_after i [] i"
  by (simp add: sent_after_def)

lemma sent_after_lengths:
  assumes "sent_after i ms j"
  shows "length (l2_clients j) = length (l2_clients i)" "c < length (l2_clients i) \<Longrightarrow> length (l2_clients j ! c) = length (l2_clients i ! c)"
proof -
  have eq: "map length (l2_clients j) = map length (l2_clients i)" using assms by (simp add: sent_after_def)
  then show len: "length (l2_clients j) = length (l2_clients i)" by (rule map_eq_imp_length_eq)
  show "length (l2_clients j ! c) = length (l2_clients i ! c)" if "c < length (l2_clients i)"
    using arg_cong [OF eq, of "\<lambda>xs. xs ! c"] that len by simp
qed

lemma sent_after_trans:
  assumes "sent_after i ms j" "sent_after j ns k"
  shows "sent_after i (ms @ ns) k"
proof -
  note l = sent_after_lengths [OF assms(1)]
  have d: "l2_dummy_key j = l2_dummy_key i" using assms(1) by (simp add: sent_after_def)
  show ?thesis using assms l unfolding sent_after_def d by (auto simp: ball_Un)
qed

lemma sent_after_call:
  assumes "c < length (l2_clients i)" "w < length (l2_clients i ! c)"
    and "l2_key m \<noteq> l2_dummy_key i \<longrightarrow> int c = consistent_hash (l2_key m) (int (length (l2_clients i)))"
  shows "sent_after i [((c, w), m)] (i\<lparr>l2_clients := grid_call c w m (l2_clients i)\<rparr>)"
proof -
  have "map length (grid_call c w m (l2_clients i)) = map length (l2_clients i)" by (intro nth_equalityI) simp_all
  then show ?thesis using assms grid_call_nth [OF assms(1,2)] by (auto simp: sent_after_def)
qed

lemma undiag_fields [simp]:
  "l2_key (undiag op) = l2_key op" "l2_replica (undiag op) = l2_replica op" "l2_value (undiag op) = l2_value op"
  "client_id (l2_seq_id (undiag op)) = client_id (l2_seq_id op)" "client_seq_no (l2_seq_id (undiag op)) = client_seq_no (l2_seq_id op)"
  "ts (l2_seq_id (undiag op)) = ts (l2_seq_id op)" "l1_idx (l2_seq_id (undiag op)) = l1_idx (l2_seq_id op)"
  by (simp_all add: undiag_def)

lemma undiag_eqD:
  assumes "undiag a = undiag b"
  shows "l2_key a = l2_key b" "l2_replica a = l2_replica b" "l2_value a = l2_value b"
    "client_id (l2_seq_id a) = client_id (l2_seq_id b)" "client_seq_no (l2_seq_id a) = client_seq_no (l2_seq_id b)"
    "ts (l2_seq_id a) = ts (l2_seq_id b)" "l1_idx (l2_seq_id a) = l1_idx (l2_seq_id b)" "l1_seq_no (l2_seq_id a) = l1_seq_no (l2_seq_id b)"
  using assms by (metis undiag_fields undiag_l1_seq_no)+

lemma forward_batch:
  assumes "l1_l2_iface s = Some i" "l2_ready i"
  obtains i' k ms where
    "for_each (enumerate j ops) (l1_forward e seq) s = (Inr (), s\<lparr>l1_tick := k, l1_l2_iface := Some i'\<rparr>)" "l2_ready i'"
    "image_mset undiag (mset (grid_sent (l2_clients i'))) = image_mset undiag (mset (grid_sent (l2_clients i))) +
       mset (map (\<lambda>(j, op). undiag (l1_numbered s seq j op)) (enumerate j ops))"
    "numbers_below (security_batch_size s * server_seq_no seq + int j) i \<longrightarrow>
     numbers_below (security_batch_size s * server_seq_no seq + int (j + length ops)) i'"
    "sent_after i ms i'" "map (undiag \<circ> snd) ms = map (\<lambda>(j, op). undiag (l1_numbered s seq j op)) (enumerate j ops)"
proof -
  let ?b = "security_batch_size s * server_seq_no seq"
  have "\<exists>i' k ms. for_each (enumerate j ops) (l1_forward e seq) s = (Inr (), s\<lparr>l1_tick := k, l1_l2_iface := Some i'\<rparr>) \<and> l2_ready i' \<and>
    image_mset undiag (mset (grid_sent (l2_clients i'))) = image_mset undiag (mset (grid_sent (l2_clients i))) +
       mset (map (\<lambda>(j, op). undiag (l1_numbered s seq j op)) (enumerate j ops)) \<and>
    (numbers_below (security_batch_size s * server_seq_no seq + int j) i \<longrightarrow>
     numbers_below (security_batch_size s * server_seq_no seq + int (j + length ops)) i') \<and>
    sent_after i ms i' \<and> map (undiag \<circ> snd) ms = map (\<lambda>(j, op). undiag (l1_numbered s seq j op)) (enumerate j ops)"
    using assms
  proof (induction ops arbitrary: s i j)
    case Nil
    then show ?case by (intro exI [of _ i] exI [of _ "l1_tick s"] exI [of _ "[]"]) (simp add: ret_apply)
  next
    case (Cons op ops)
    obtain m c w k where f:
      "l1_forward e seq (j, op) s = (Inr (), s\<lparr>l1_tick := k, l1_l2_iface := Some (i\<lparr>l2_clients := grid_call c w m (l2_clients i)\<rparr>)\<rparr>)"
      "c < length (l2_clients i)" "w < length (l2_clients i ! c)" "undiag m = undiag (l1_numbered s seq j op)"
      "l2_key op \<noteq> l2_dummy_key i \<longrightarrow> int c = consistent_hash (l2_key op) (int (length (l2_clients i)))"
      by (rule l1_forward_ok [OF Cons.prems, of e seq j op]) (rule that)
    define t where "t = s\<lparr>l1_tick := k, l1_l2_iface := Some (i\<lparr>l2_clients := grid_call c w m (l2_clients i)\<rparr>)\<rparr>"
    have t: "l1_l2_iface t = Some (i\<lparr>l2_clients := grid_call c w m (l2_clients i)\<rparr>)"
      "l2_ready (i\<lparr>l2_clients := grid_call c w m (l2_clients i)\<rparr>)"
      using Cons.prems(2) by (simp_all add: t_def l2_ready_def)
    have sn: "l1_seq_no (l2_seq_id m) = security_batch_size s * server_seq_no seq + int j"
      using arg_cong [OF f(4), of "\<lambda>x. l1_seq_no (l2_seq_id x)"] by (simp add: l1_numbered_def)
    have num: "l1_numbered t = l1_numbered s" "security_batch_size t = security_batch_size s"
      by (simp_all add: t_def l1_numbered_def fun_eq_iff)
    have cl: "l2_clients (i\<lparr>l2_clients := grid_call c w m (l2_clients i)\<rparr>) = grid_call c w m (l2_clients i)" by simp
    from Cons.IH [OF t, of "Suc j"] obtain i' k' ms where ih:
      "for_each (enumerate (Suc j) ops) (l1_forward e seq) t = (Inr (), t\<lparr>l1_tick := k', l1_l2_iface := Some i'\<rparr>)" "l2_ready i'"
      "image_mset undiag (mset (grid_sent (l2_clients i'))) =
         image_mset undiag (mset (grid_sent (grid_call c w m (l2_clients i)))) +
         mset (map (\<lambda>(j, op). undiag (l1_numbered s seq j op)) (enumerate (Suc j) ops))"
      "numbers_below (security_batch_size s * server_seq_no seq + int (Suc j)) (i\<lparr>l2_clients := grid_call c w m (l2_clients i)\<rparr>) \<longrightarrow>
       numbers_below (security_batch_size s * server_seq_no seq + int (Suc j + length ops)) i'"
      "sent_after (i\<lparr>l2_clients := grid_call c w m (l2_clients i)\<rparr>) ms i'"
      "map (undiag \<circ> snd) ms = map (\<lambda>(j, op). undiag (l1_numbered s seq j op)) (enumerate (Suc j) ops)"
      unfolding num cl by (elim exE conjE) (rule that)
    have "l2_key m = l2_key op" using undiag_eqD(1) [OF f(4)] by (simp add: l1_numbered_def)
    then have "sent_after i (((c, w), m) # ms) i'" using sent_after_trans [OF sent_after_call [OF f(2,3)] ih(5)] f(5) by simp
    moreover
    have "numbers_below (security_batch_size s * server_seq_no seq + int (Suc j)) (i\<lparr>l2_clients := grid_call c w m (l2_clients i)\<rparr>)"
      if "numbers_below (security_batch_size s * server_seq_no seq + int j) i"
      using numbers_below_call [OF that f(2,3), of m] sn by (simp add: add.assoc add.commute)
    moreover have "for_each (enumerate j (op # ops)) (l1_forward e seq) s = (Inr (), s\<lparr>l1_tick := k', l1_l2_iface := Some i'\<rparr>)"
      using f(1) ih(1) by (simp add: for_each_Cons t_def del: for_each.simps)
    ultimately show ?case
      using ih(2-4,6) f(4) mset_grid_sent_call [OF f(2,3), of m]
      by (intro exI [of _ i'] exI [of _ k'] exI [of _ "((c, w), m) # ms"]) (simp add: comp_def)
  qed
  then show thesis using that by blast
qed

lemma l1_complete_batch:
  assumes "l1_l2_iface s = Some i" "l2_ready i" "list_all l2_op_ok batch"
    and "int (length batch) = security_batch_size s" "security_batch_size s < 2 ^ 31" "0 < security_batch_size s"
  obtains i' k ms where
    "l1_replication_complete e seq (concat (map l2_serialize batch)) s = (Inr (), s\<lparr>l1_tick := k, l1_l2_iface := Some i'\<rparr>)" "l2_ready i'"
    "image_mset undiag (mset (grid_sent (l2_clients i'))) = image_mset undiag (mset (grid_sent (l2_clients i))) +
       mset (map (\<lambda>(j, op). undiag (l1_numbered s seq j (wire_op op))) (enumerate 0 batch))"
    "numbers_below (security_batch_size s * server_seq_no seq) i \<longrightarrow> numbers_below (security_batch_size s * (server_seq_no seq + 1)) i'"
    "sent_after i ms i'" "map (undiag \<circ> snd) ms = map (\<lambda>(j, op). undiag (l1_numbered s seq j (wire_op op))) (enumerate 0 batch)"
proof -
  have rd: "read_batch (concat (map l2_serialize batch)) 0 = Inr (map wire_op batch)"
    using read_batch_serialize [OF assms(3), of "[]"] by simp
  obtain i' k ms where f:
    "for_each (enumerate 0 (map wire_op batch)) (l1_forward e seq) s = (Inr (), s\<lparr>l1_tick := k, l1_l2_iface := Some i'\<rparr>)" "l2_ready i'"
    "image_mset undiag (mset (grid_sent (l2_clients i'))) = image_mset undiag (mset (grid_sent (l2_clients i))) +
       mset (map (\<lambda>(j, op). undiag (l1_numbered s seq j op)) (enumerate 0 (map wire_op batch)))"
    "numbers_below (security_batch_size s * server_seq_no seq + int 0) i \<longrightarrow>
     numbers_below (security_batch_size s * server_seq_no seq + int (0 + length (map wire_op batch))) i'"
    "sent_after i ms i'" "map (undiag \<circ> snd) ms = map (\<lambda>(j, op). undiag (l1_numbered s seq j op)) (enumerate 0 (map wire_op batch))"
    by (rule forward_batch [OF assms(1,2), of 0 "map wire_op batch" e seq])
  have "enumerate 0 (map wire_op batch) = map (\<lambda>(j, op). (j, wire_op op)) (enumerate 0 batch)"
    by (simp add: enumerate_eq_zip zip_map2)
  then have en: "map (\<lambda>(j, op). undiag (l1_numbered s seq j op)) (enumerate 0 (map wire_op batch)) =
      map (\<lambda>(j, op). undiag (l1_numbered s seq j (wire_op op))) (enumerate 0 batch)"
    by auto
  have size: "security_batch_size s * server_seq_no seq + int (0 + length (map wire_op batch)) =
      security_batch_size s * (server_seq_no seq + 1)"
    using assms(4) by (simp add: algebra_simps)
  show thesis
  proof (rule that)
    show "l1_replication_complete e seq (concat (map l2_serialize batch)) s = (Inr (), s\<lparr>l1_tick := k, l1_l2_iface := Some i'\<rparr>)"
      using rd f(1) assms(1,4-6) by (simp add: l1_replication_complete_def bnd_apply gets_apply lift_out_apply)
    show "numbers_below (security_batch_size s * server_seq_no seq) i \<longrightarrow> numbers_below (security_batch_size s * (server_seq_no seq + 1)) i'"
      using f(4) unfolding size by simp
  qed (use f(2,3,5,6) en in simp_all)
qed

text \<open>
  C10. When a batch is replicated, the tail sends each of its operations exactly once to the second layer, whatever the
  draws and the statistics setting, numbered with consecutive numbers of this worker from which the batch is recovered by division;
  and if the numbers sent so far increase on every connection and belong to earlier batches, they do so afterwards:
  a worker of the second layer that drops numbers it has passed drops none of them.
\<close>

theorem l1_batch_sent_once_in_order:
  assumes "l1_l2_iface s = Some i" "l2_ready i" "list_all l2_op_ok batch"
    and "int (length batch) = security_batch_size s" "security_batch_size s < 2 ^ 31" "0 < security_batch_size s" "0 \<le> server_seq_no seq"
  shows "\<exists>s' i'. l1_replication_complete e seq (concat (map l2_serialize batch)) s = (Inr (), s') \<and>
     base s' = base s \<and> l1_l2_iface s' = Some i' \<and> l2_ready i' \<and>
     image_mset undiag (mset (grid_sent (l2_clients i'))) = image_mset undiag (mset (grid_sent (l2_clients i))) +
       mset (map (\<lambda>(j, op). undiag (l1_numbered s seq j (wire_op op))) (enumerate 0 batch)) \<and>
     (\<forall>j < length batch. l1_seq_no (l2_seq_id (l1_numbered s seq j (batch ! j))) sdiv security_batch_size s = server_seq_no seq) \<and>
     (numbers_below (security_batch_size s * server_seq_no seq) i \<longrightarrow>
      numbers_below (security_batch_size s * (server_seq_no seq + 1)) i')"
proof -
  obtain i' k where f:
    "l1_replication_complete e seq (concat (map l2_serialize batch)) s = (Inr (), s\<lparr>l1_tick := k, l1_l2_iface := Some i'\<rparr>)" "l2_ready i'"
    "image_mset undiag (mset (grid_sent (l2_clients i'))) = image_mset undiag (mset (grid_sent (l2_clients i))) +
       mset (map (\<lambda>(j, op). undiag (l1_numbered s seq j (wire_op op))) (enumerate 0 batch))"
    "numbers_below (security_batch_size s * server_seq_no seq) i \<longrightarrow> numbers_below (security_batch_size s * (server_seq_no seq + 1)) i'"
    by (rule l1_complete_batch [OF assms(1-6), of e seq]) (rule that)
  have "(security_batch_size s * server_seq_no seq + int j) sdiv security_batch_size s = server_seq_no seq"
    if "j < length batch" for j
    using that assms(4,6,7) by (simp add: sdiv_nonneg)
  then have "\<forall>j < length batch. l1_seq_no (l2_seq_id (l1_numbered s seq j (batch ! j))) sdiv security_batch_size s = server_seq_no seq"
    by (simp add: l1_numbered_def)
  with f show ?thesis
    by (intro exI [of _ "s\<lparr>l1_tick := k, l1_l2_iface := Some i'\<rparr>"] exI [of _ i']) simp
qed

section \<open>Acknowledgements\<close>

text \<open>What has been passed on towards the head so far, sent or still collected in the queue.\<close>

definition acks_out :: "'a chain_module_scheme \<Rightarrow> sequence_id list" where
  "acks_out s = concat (map snd (rs_sent (prev_cxn s))) @ ack_queue s"

lemma ack_l1:
  assumes "is_head s \<or> is_set_prev s"
  obtains s' where "ack (l1_app e) seq s = (Inr (), s')"
    "pending s' = tab_erase (server_seq_no seq) (pending s)" "pending_count s' = tab_erase (server_seq_no seq) (pending_count s)"
    "security_batch_size s' = security_batch_size s" "is_head s' = is_head s" "is_set_prev s' = is_set_prev s"
    "acks_out s' = acks_out s @ (if is_head s then [] else [seq])"
proof -
  let ?s' = "snd (ack (l1_app e) seq s)"
  obtain p where p: "is_head s \<or> rs_prot (prev_cxn s) = Some p"
    using assms by (auto simp: is_set_prev_def rs_is_set_def)
  show thesis
    by (rule that [of ?s'])
      (use p in \<open>auto simp: ack_def cpp_simps l1_app_def l1_ack_callback_def remove_pending_def ack_queue_full_def
        flush_acks_def on_prev_def rs_ack_batch_def acks_out_def is_head_def is_set_prev_def rs_is_set_def\<close>)
qed

lemma external_ack_step:
  assumes "0 < security_batch_size s" "is_head s \<or> is_set_prev s"
  obtains s' where "l1_external_ack e q s = (Inr (), s')"
    "security_batch_size s' = security_batch_size s" "is_head s' = is_head s" "is_set_prev s' = is_set_prev s"
    "map_of (pending_count s') = (let b = l1_seq_no q sdiv security_batch_size s in
       case map_of (pending_count s) b of None \<Rightarrow> map_of (pending_count s)
       | Some c \<Rightarrow> (map_of (pending_count s))(b := if c = 1 then None else Some (c - 1)))"
    "map_of (pending s') = (let b = l1_seq_no q sdiv security_batch_size s in
       if map_of (pending_count s) b = Some 1 then (map_of (pending s))(b := None) else map_of (pending s))"
    "map server_seq_no (acks_out s') = map server_seq_no (acks_out s) @ (let b = l1_seq_no q sdiv security_batch_size s in
       if map_of (pending_count s) b = Some 1 \<and> \<not> is_head s then [b] else [])"
proof -
  define b where "b = l1_seq_no q sdiv security_batch_size s"
  define t where "t = s\<lparr>pending_count := tab_update_fn b (\<lambda>c. c - 1) (pending_count s)\<rparr>"
  have run: "l1_external_ack e q s =
      (if map_of (pending_count s) b = Some 1 then ack (l1_app e) (sequence_id_new\<lparr>server_seq_no := b\<rparr>) t else (Inr (), t))"
    using assms(1) by (simp add: l1_external_ack_def cpp_simps b_def t_def Let_def)
  have t: "is_head t = is_head s" "is_set_prev t = is_set_prev s" "pending t = pending s" "acks_out t = acks_out s"
    "security_batch_size t = security_batch_size s"
    by (simp_all add: t_def is_head_def is_set_prev_def acks_out_def)
  show thesis
  proof (cases "map_of (pending_count s) b = Some 1")
    case True
    from assms(2) t have "is_head t \<or> is_set_prev t" by simp
    from ack_l1 [OF this, of e "sequence_id_new\<lparr>server_seq_no := b\<rparr>"] obtain s' where
      "ack (l1_app e) (sequence_id_new\<lparr>server_seq_no := b\<rparr>) t = (Inr (), s')"
      "pending s' = tab_erase b (pending t)" "pending_count s' = tab_erase b (pending_count t)"
      "security_batch_size s' = security_batch_size t" "is_head s' = is_head t" "is_set_prev s' = is_set_prev t"
      "acks_out s' = acks_out t @ (if is_head t then [] else [sequence_id_new\<lparr>server_seq_no := b\<rparr>])" by auto
    with True run t show thesis
      by (intro that [of s']) (auto simp: b_def [symmetric] t_def map_of_tab_update_fn)
  next
    case False
    with run t show thesis
      by (intro that [of t])
        (auto simp: b_def [symmetric] t_def map_of_tab_update_fn Let_def fun_eq_iff split: option.splits)
  qed
qed

text \<open>How many of the acknowledgements belong to batch \<open>b\<close>.\<close>

definition acks_for_batch :: "int \<Rightarrow> int \<Rightarrow> sequence_id list \<Rightarrow> nat" where
  "acks_for_batch n b seqs = length (filter (\<lambda>q. l1_seq_no q sdiv n = b) seqs)"

lemma external_acks_count:
  assumes "0 < security_batch_size s" "is_head s \<or> is_set_prev s" "map_of (pending_count s) b = c" "pred_option ((<) 0) c"
  shows "\<exists>s'. l1_external_ack_batch e seqs s = (Inr (), s') \<and> security_batch_size s' = security_batch_size s \<and>
    (let k = int (acks_for_batch (security_batch_size s) b seqs); full = (\<exists>n. c = Some n \<and> n \<le> k) in
     map_of (pending s') b = (if full then None else map_of (pending s) b) \<and>
     map_of (pending_count s') b = (if full then None else map_option (\<lambda>n. n - k) c) \<and>
     (\<not> is_head s \<longrightarrow> count_list (map server_seq_no (acks_out s')) b =
        count_list (map server_seq_no (acks_out s)) b + (if full then 1 else 0)))"
  using assms
proof (induction seqs arbitrary: s c)
  case Nil
  then show ?case by (cases c) (auto simp: l1_external_ack_batch_def ret_apply acks_for_batch_def)
next
  case (Cons q seqs)
  define d where "d = l1_seq_no q sdiv security_batch_size s"
  obtain t where t: "l1_external_ack e q s = (Inr (), t)"
    "security_batch_size t = security_batch_size s" "is_head t = is_head s" "is_set_prev t = is_set_prev s"
    "map_of (pending_count t) = (case map_of (pending_count s) d of None \<Rightarrow> map_of (pending_count s)
       | Some c \<Rightarrow> (map_of (pending_count s))(d := if c = 1 then None else Some (c - 1)))"
    "map_of (pending t) = (if map_of (pending_count s) d = Some 1 then (map_of (pending s))(d := None) else map_of (pending s))"
    "map server_seq_no (acks_out t) = map server_seq_no (acks_out s) @
       (if map_of (pending_count s) d = Some 1 \<and> \<not> is_head s then [d] else [])"
    by (rule external_ack_step [OF Cons.prems(1,2), of e q, unfolded Let_def, folded d_def]) (rule that)
  define c' where "c' = map_of (pending_count t) b"
  have c': "c' = (if d = b then (case c of None \<Rightarrow> None | Some n \<Rightarrow> if n = 1 then None else Some (n - 1)) else c)"
    using t(5) Cons.prems(3) by (auto simp: c'_def split: option.splits)
  have pos: "pred_option ((<) 0) c'" using c' Cons.prems(4) by (auto split: option.splits)
  from Cons.IH [of t c'] Cons.prems(1,2) t(2-4) pos obtain s' where ih:
    "l1_external_ack_batch e seqs t = (Inr (), s')" "security_batch_size s' = security_batch_size s"
    "let k = int (acks_for_batch (security_batch_size s) b seqs); full = (\<exists>n. c' = Some n \<and> n \<le> k) in
     map_of (pending s') b = (if full then None else map_of (pending t) b) \<and>
     map_of (pending_count s') b = (if full then None else map_option (\<lambda>n. n - k) c') \<and>
     (\<not> is_head s \<longrightarrow> count_list (map server_seq_no (acks_out s')) b =
        count_list (map server_seq_no (acks_out t)) b + (if full then 1 else 0))"
    using c'_def by auto
  have run: "l1_external_ack_batch e (q # seqs) s = (Inr (), s')"
    using t(1) ih(1) by (simp add: l1_external_ack_batch_def for_each_Cons del: for_each.simps)
  have k: "int (acks_for_batch (security_batch_size s) b (q # seqs)) =
      int (acks_for_batch (security_batch_size s) b seqs) + (if d = b then 1 else 0)"
    by (simp add: acks_for_batch_def d_def)
  have "map_of (pending_count s) b = Some 1 \<longleftrightarrow> c = Some 1" using Cons.prems(3) by simp
  with run ih(2,3) k c' t(6,7) Cons.prems(3,4) show ?case
    by (cases c; cases "d = b") (auto simp: Let_def split: if_splits)
qed

lemma div_block: "0 < n \<Longrightarrow> x div n = b \<longleftrightarrow> n * b \<le> x \<and> x < n * b + n" for x n b :: int
proof
  assume n: "0 < n" and b: "x div n = b"
  have "n * b + x mod n = x" using mult_div_mod_eq [of n x] unfolding b .
  with n pos_mod_bound [of n x] pos_mod_sign [of n x] show "n * b \<le> x \<and> x < n * b + n" by linarith
next
  assume "0 < n" "n * b \<le> x \<and> x < n * b + n"
  then show "x div n = b" using int_div_pos_eq [of x n b "x - n * b"] by simp
qed

lemma batch_numbers_complete:
  assumes "0 < n" "0 \<le> b" "distinct (map l1_seq_no seqs)" "\<forall>q \<in> set seqs. 0 \<le> l1_seq_no q"
  shows "n \<le> int (acks_for_batch n b seqs) \<longleftrightarrow> (\<forall>j. 0 \<le> j \<and> j < n \<longrightarrow> n * b + j \<in> l1_seq_no ` set seqs)"
proof -
  let ?N = "l1_seq_no ` set seqs \<inter> {n * b..<n * b + n}"
  have div: "x sdiv n = b \<longleftrightarrow> x \<in> {n * b..<n * b + n}" if "0 \<le> x" for x
    using that assms(1) by (simp add: sdiv_nonneg div_block)
  have "acks_for_batch n b seqs = length (filter (\<lambda>x. x \<in> {n * b..<n * b + n}) (map l1_seq_no seqs))"
    using div assms(4) by (auto simp: acks_for_batch_def filter_map comp_def intro!: arg_cong [where f = length] filter_cong)
  also have "\<dots> = card (set (filter (\<lambda>x. x \<in> {n * b..<n * b + n}) (map l1_seq_no seqs)))"
    by (rule distinct_card [symmetric]) (rule distinct_filter [OF assms(3)])
  also have "set (filter (\<lambda>x. x \<in> {n * b..<n * b + n}) (map l1_seq_no seqs)) = ?N" by auto
  finally have k: "acks_for_batch n b seqs = card ?N" .
  have full: "card {n * b..<n * b + n} = nat n" by simp
  have "n \<le> int (card ?N) \<longleftrightarrow> {n * b..<n * b + n} \<subseteq> l1_seq_no ` set seqs"
  proof
    assume "n \<le> int (card ?N)"
    then have "card {n * b..<n * b + n} \<le> card ?N" using full by linarith
    then have "?N = {n * b..<n * b + n}" by (intro card_seteq) auto
    then show "{n * b..<n * b + n} \<subseteq> l1_seq_no ` set seqs" by blast
  next
    assume "{n * b..<n * b + n} \<subseteq> l1_seq_no ` set seqs"
    then have "?N = {n * b..<n * b + n}" by blast
    then show "n \<le> int (card ?N)" using full assms(1) by simp
  qed
  also have "\<dots> \<longleftrightarrow> (\<forall>j. 0 \<le> j \<and> j < n \<longrightarrow> n * b + j \<in> l1_seq_no ` set seqs)"
  proof
    assume sub: "{n * b..<n * b + n} \<subseteq> l1_seq_no ` set seqs"
    show "\<forall>j. 0 \<le> j \<and> j < n \<longrightarrow> n * b + j \<in> l1_seq_no ` set seqs" by (intro allI impI subsetD [OF sub]) simp
  next
    assume all: "\<forall>j. 0 \<le> j \<and> j < n \<longrightarrow> n * b + j \<in> l1_seq_no ` set seqs"
    show "{n * b..<n * b + n} \<subseteq> l1_seq_no ` set seqs"
    proof
      fix x assume "x \<in> {n * b..<n * b + n}"
      with all [rule_format, of "x - n * b"] show "x \<in> l1_seq_no ` set seqs" by simp
    qed
  qed
  finally show ?thesis using k by simp
qed

text \<open>
  C11. A replicated batch is released exactly when every one of its operations has been acknowledged: whatever the order of the
  acknowledgements and however those of other batches are mixed in, if no operation is acknowledged twice, the batch leaves
  the pending table, and an acknowledgement for it is passed to the predecessor once, if and only if all numbers
  of the batch have come in.
\<close>

theorem l1_batch_released_when_complete:
  assumes "0 < security_batch_size s" "is_head s \<or> is_set_prev s" "0 \<le> b"
    and "map_of (pending_count s) b = Some (security_batch_size s)"
    and "distinct (map l1_seq_no seqs)" "\<forall>q \<in> set seqs. 0 \<le> l1_seq_no q"
  shows "\<exists>s'. l1_external_ack_batch e seqs s = (Inr (), s') \<and>
     (let complete = (\<forall>j. 0 \<le> j \<and> j < security_batch_size s \<longrightarrow> security_batch_size s * b + j \<in> l1_seq_no ` set seqs) in
      map_of (pending s') b = (if complete then None else map_of (pending s) b) \<and>
      (\<not> is_head s \<longrightarrow> count_list (map server_seq_no (acks_out s')) b =
         count_list (map server_seq_no (acks_out s)) b + (if complete then 1 else 0)))"
  using external_acks_count [OF assms(1,2,4), of e seqs] assms(1)
  unfolding batch_numbers_complete [OF assms(1,3,5,6), symmetric] Let_def by auto

text \<open>
  C36. Acknowledgements are counted and not identified: as many acknowledgements of one and the same operation as a batch has
  operations release the whole batch, although the other operations have not been acknowledged.
\<close>

theorem l1_duplicate_acks_release_batch:
  assumes "0 < security_batch_size s" "is_head s \<or> is_set_prev s" "0 \<le> b"
    and "map_of (pending_count s) b = Some (security_batch_size s)"
  shows "\<exists>s'. l1_external_ack_batch e
       (replicate (nat (security_batch_size s)) (sequence_id_new\<lparr>l1_seq_no := security_batch_size s * b\<rparr>)) s = (Inr (), s') \<and>
     map_of (pending s') b = None"
proof -
  let ?seqs = "replicate (nat (security_batch_size s)) (sequence_id_new\<lparr>l1_seq_no := security_batch_size s * b\<rparr>)"
  have "(security_batch_size s * b) sdiv security_batch_size s = b" using assms(1,3) by (simp add: sdiv_nonneg)
  then have "int (acks_for_batch (security_batch_size s) b ?seqs) = security_batch_size s"
    using assms(1) by (simp add: acks_for_batch_def)
  with external_acks_count [OF assms(1,2,4), of e ?seqs] assms(1) show ?thesis by (auto simp: Let_def)
qed

section \<open>The chain of L1 proxies as a replicated log\<close>

text \<open>
  The callbacks of the L1 proxy leave the members of the base class alone: if they agree with those of the recording replica of the chain protocol,
  they agree after a chain request and after an acknowledgement.
\<close>

lemma l1_simulates_replica:
  fixes l :: logged
  assumes "base s = base l"
  shows "base (snd (handler_chain_request (l1_app e) prot seq args s)) = base (snd (handler_chain_request log_app prot seq args l)) \<and>
         base (snd (chain_request (l1_app e) seq args s)) = base (snd (chain_request log_app seq args l)) \<and>
         base (snd (ack (l1_app e) q s)) = base (snd (ack log_app q l)) \<and>
         fetch_seq s = fetch_seq l"
proof -
  have req: "base (snd (chain_request (l1_app e) seq args t)) = base (snd (chain_request log_app seq args k))"
    if "base t = base k" for t and k :: logged
    using that l1c.chain_request_base [where s = t and seq = seq and args = args and e = e]
      la.chain_request_base [where s = k and seq = seq and args = args]
    by (simp add: l1_app_def l1_run_command_def log_app_def modify_apply)
  have prev: "base (if is_set_prev s then s else reset_prev prot s) = base (if is_set_prev l then l else reset_prev prot l)"
    using assms by (auto simp: is_set_prev_def reset_prev_def base_eq_iff)
  have "base (snd (ack (l1_app e) q s)) = base (snd (ack log_app q l))"
    using assms l1c.ack_base_sim(1) [where s = s and seq = q and e = e] la.ack_base_sim(1) [where s = l and seq = q]
    by (simp add: l1_app_def l1_ack_callback_def log_app_def modify_apply ret_apply)
  with req [OF assms] req [OF prev] assms show ?thesis
    by (simp add: handler_chain_request_def seqM_apply modify_apply fetch_seq_def base_eq_iff)
qed

section \<open>Witnesses\<close>

definition example_cxn :: request_client where
  "example_cxn = \<lparr>rc_host = ''b'', rc_port = 9090, rc_block_id = 0, rc_client = True, rc_open = True, rc_sent = []\<rparr>"

definition example_l2 :: l2_iface where
  "example_l2 = \<lparr>l2_hosts = [], l2_clients = [[\<lparr>cl_host = ''c'', cl_port = 9090, cl_sent = []\<rparr>]], l2_dummy_key = ''d''\<rparr>"

definition example_l1 :: l1_proxy where
  "example_l1 = l1_proxy_new\<lparr>role := Head, next_cxn := example_cxn, l1_delta := 1 / 2,
     l1_replicas_of := [(''a'', 2), (''d'', 1)], l1_real := distribution_new [''a''] [1],
     l1_fake := distribution_new [''a'', ''d''] [1 / 2, 1 / 2], disable_all_false := True, l1_l2_iface := Some example_l2\<rparr>"

lemmas example_l1_defs = example_l1_def l1_proxy_new_def chain_module.extend_def l1_proxy.fields_def chain_module_new_def
  example_cxn_def example_l2_def

theorem l1_request_becomes_batch_witness:
  "\<exists>(batch :: (l2_operation \<times> bool) list) (m :: nat) args s'. l1_process_op example_env \<lparr>l1_seq_id = sequence_id_new, l1_key = ''a'', l1_value = ''v''\<rparr> example_l1 = (Inr (), s') \<and>
     int (length batch) = 3 \<and> 0 < m \<and> read_batch args 0 = Inr (map (wire_op \<circ> fst) batch) \<and> chain_seq_no s' = 1"
proof -
  have a: "l1_ok example_l1"
    by (auto simp: example_l1_defs l1_ok_def samples_ok_def distribution_new_def ran_def split: if_splits)
  have b: "seqs_fresh example_l1" "role example_l1 = Head" "rc_client (next_cxn example_l1)" "rc_open (next_cxn example_l1)"
    "l1_op_ok (l1_replicas_of example_l1) \<lparr>l1_seq_id = sequence_id_new, l1_key = ''a'', l1_value = ''v''\<rparr>"
    "security_batch_size example_l1 = 3" "disable_all_false example_l1" "chain_seq_no example_l1 = 0"
    by (simp_all add: example_l1_defs seqs_fresh_def l1_op_ok_def sequence_id_new_def int64_range_def)
  from l1_request_becomes_batch [OF example_env_ok a b(1-5)] obtain batch :: "(l2_operation \<times> bool) list" and m :: nat and args s' where
    "l1_process_op example_env \<lparr>l1_seq_id = sequence_id_new, l1_key = ''a'', l1_value = ''v''\<rparr> example_l1 = (Inr (), s')"
    "int (length batch) = security_batch_size example_l1" "disable_all_false example_l1 \<longrightarrow> 0 < m"
    "read_batch args 0 = Inr (map (wire_op \<circ> fst) batch)" "chain_seq_no s' = chain_seq_no example_l1 + 1"
    by (elim exE conjE) (rule that, assumption+)
  with b(6-8) show ?thesis by (intro exI [of _ batch] exI [of _ m] exI [of _ args] exI [of _ s']) simp
qed

theorem l1_batch_sent_once_in_order_witness:
  "\<exists>s' i'. l1_replication_complete example_env (sequence_id_new\<lparr>server_seq_no := 4\<rparr>) (concat (map l2_serialize [l2_operation_new, l2_operation_new, l2_operation_new])) example_l1 = (Inr (), s') \<and>
     l1_l2_iface s' = Some i' \<and> length (grid_sent (l2_clients i')) = 3 \<and> numbers_below 15 i'"
proof -
  have a: "l1_l2_iface example_l1 = Some example_l2" "l2_ready example_l2" "list_all l2_op_ok [l2_operation_new, l2_operation_new, l2_operation_new]"
    "int (length [l2_operation_new, l2_operation_new, l2_operation_new]) = security_batch_size example_l1"
    "security_batch_size example_l1 < 2 ^ 31" "0 < security_batch_size example_l1" "0 \<le> server_seq_no (sequence_id_new\<lparr>server_seq_no := 4\<rparr>)"
    "security_batch_size example_l1 = 3" "grid_sent (l2_clients example_l2) = []" "numbers_below 12 example_l2"
    by (simp_all add: example_l1_defs l2_ready_def l2_op_ok_def l2_operation_new_def sequence_id_new_def int64_range_def int32_range_def
        grid_sent_def numbers_below_def)
  from l1_batch_sent_once_in_order [OF a(1-7), of example_env] obtain s' i' where
    r: "l1_replication_complete example_env (sequence_id_new\<lparr>server_seq_no := 4\<rparr>)
        (concat (map l2_serialize [l2_operation_new, l2_operation_new, l2_operation_new])) example_l1 = (Inr (), s')"
      "l1_l2_iface s' = Some i'"
      "image_mset undiag (mset (grid_sent (l2_clients i'))) = image_mset undiag (mset (grid_sent (l2_clients example_l2))) +
       mset (map (\<lambda>(j, op). undiag (l1_numbered example_l1 (sequence_id_new\<lparr>server_seq_no := 4\<rparr>) j (wire_op op)))
         (enumerate 0 [l2_operation_new, l2_operation_new, l2_operation_new]))"
      "numbers_below (security_batch_size example_l1 * 4) example_l2 \<longrightarrow> numbers_below (security_batch_size example_l1 * (4 + 1)) i'"
    by auto
  from arg_cong [OF r(3), of size] a(9) have "length (grid_sent (l2_clients i')) = 3" by simp
  with r(1,2,4) a(8,10) show ?thesis by auto
qed

definition example_counting :: l1_proxy where
  "example_counting = example_l1\<lparr>pending := [(4, \<lparr>op_seq = sequence_id_new, op_args = []\<rparr>)], pending_count := [(4, 3)]\<rparr>"

lemma example_counting_ok:
  "0 < security_batch_size example_counting" "is_head example_counting \<or> is_set_prev example_counting" "(0 :: int) \<le> 4"
  "map_of (pending_count example_counting) 4 = Some (security_batch_size example_counting)" "security_batch_size example_counting = 3"
  by (simp_all add: example_counting_def example_l1_defs is_head_def)

theorem l1_batch_released_when_complete_witness:
  "\<exists>s'. l1_external_ack_batch example_env (map (\<lambda>n. sequence_id_new\<lparr>l1_seq_no := n\<rparr>) [13, 2, 12, 14]) example_counting = (Inr (), s') \<and>
     map_of (pending s') 4 = None"
proof -
  have "\<forall>j. 0 \<le> j \<and> j < (3 :: int) \<longrightarrow> 3 * 4 + j \<in> {13, 2, 12, 14}" by auto
  then show ?thesis
    using l1_batch_released_when_complete [OF example_counting_ok(1-4),
        of "map (\<lambda>n. sequence_id_new\<lparr>l1_seq_no := n\<rparr>) [13, 2, 12, 14]" example_env]
      example_counting_ok(5) by (simp add: Let_def) blast
qed

theorem l1_duplicate_acks_release_batch_witness:
  "\<exists>s'. l1_external_ack_batch example_env (replicate 3 (sequence_id_new\<lparr>l1_seq_no := 12\<rparr>)) example_counting = (Inr (), s') \<and>
     map_of (pending s') 4 = None"
  using l1_duplicate_acks_release_batch [OF example_counting_ok(1-4), of example_env] example_counting_ok(5)
  by (simp add: numeral_3_eq_3)

end
