(* ===== verification/Initializer.thy ===== *)
theory Initializer
  imports Distribution Util
begin

text \<open>
  proxy/src/initializer.h and initializer.cpp: smoothing. Every key gets a number of replicas in proportion to its access
  probability, a dummy key fills up to twice the number of keys, each replica gets a label of its own, and the
  labels are written to the storage in batches. The storage is the list of the batches put so far; the
  cipher text of the initial value is an argument, which \<^verbatim>\<open>init\<close> in the theory Server computes. The last part shows that the tables meet what the
  proxies rely on (\<open>tables_ok\<close>), also after they went through the distribution file.
\<close>

record init_state =
  in_info :: distribution_info
  label_count :: int
  in_labels :: "string list"
  in_puts :: "(string list \<times> string list) list"

definition put_batch_labels :: "string \<Rightarrow> init_state \<Rightarrow> init_state" where
  "put_batch_labels value_cipher s =
     s\<lparr>in_puts := in_puts s @ [(in_labels s, replicate (length (in_labels s)) value_cipher)]\<rparr>"

text \<open>One turn of the loop of \<^verbatim>\<open>insert_replicas\<close>.\<close>

definition insert_replica :: "string \<Rightarrow> string \<Rightarrow> nat \<Rightarrow> init_state \<Rightarrow> init_state" where
  "insert_replica key value_cipher i s =
     (let s1 = s\<lparr>in_info := (in_info s)\<lparr>replica_to_label :=
                   tab_put (key @ to_string (int i)) (label_count s) (replica_to_label (in_info s))\<rparr>,
                 in_labels := in_labels s @ [to_string (label_count s)]\<rparr>;
          s2 = (if 50 \<le> length (in_labels s1) then (put_batch_labels value_cipher s1)\<lparr>in_labels := []\<rparr> else s1)
      in s2\<lparr>label_count := label_count s2 + 1\<rparr>)"

definition insert_replicas :: "string \<Rightarrow> int \<Rightarrow> string \<Rightarrow> init_state \<Rightarrow> init_state" where
  "insert_replicas key num_replicas value_cipher s =
     fold (insert_replica key value_cipher) [0..<nat num_replicas] s"

text \<open>
  \<^verbatim>\<open>ceil(pi/alpha_)\<close> and \<^verbatim>\<open>r_i * (alpha_-pi/r_i)/(1/delta_ - 1)\<close> with \<^verbatim>\<open>delta_ = 0.5\<close>, each operation rounded. A key of
  probability 0 has no replica, and the code divides by 0 in floating point; \<open>smoothing_ok\<close> below excludes such keys.
\<close>

definition init_alpha :: "nat \<Rightarrow> rat" where
  "init_alpha n = ddiv 1 (of_nat n)"

definition replica_count :: "rat \<Rightarrow> rat \<Rightarrow> int" where
  "replica_count alpha p = \<lceil>ddiv p alpha\<rceil>"

definition fake_prob :: "rat \<Rightarrow> rat \<Rightarrow> int \<Rightarrow> rat" where
  "fake_prob alpha p r =
     ddiv (dmul (of_int r) (dsub alpha (ddiv p (of_int r)))) (dsub (ddiv 1 (1 / 2)) 1)"

text \<open>The loop over the keys; the second component collects the fake probabilities, the third \<^verbatim>\<open>keys_created\<close>.\<close>

definition create_key :: "rat \<Rightarrow> string \<Rightarrow> string \<times> rat \<Rightarrow> init_state \<times> rat list \<times> int \<Rightarrow> init_state \<times> rat list \<times> int" where
  "create_key alpha value_cipher kp st =
     (let (key, p) = kp; (s, fps, created) = st; r = replica_count alpha p;
          s1 = s\<lparr>in_info := (in_info s)\<lparr>key_to_number_of_replicas :=
                  tab_put key r (key_to_number_of_replicas (in_info s))\<rparr>\<rparr>
      in (insert_replicas key r value_cipher s1, fps @ [fake_prob alpha p r], created + r))"

text \<open>
  \<^verbatim>\<open>0 > 2*keys.size()-keys_created\<close> compares unsigned numbers and is never true; the difference is
  converted to \<^verbatim>\<open>int\<close>.
\<close>

definition dummy_count :: "nat \<Rightarrow> int \<Rightarrow> int" where
  "dummy_count n created = sint (word_of_int (2 * int n - created) :: uint32)"

definition create_replicas :: "string \<Rightarrow> init_state \<Rightarrow> init_state" where
  "create_replicas value_cipher s =
     (let d = real_distribution (in_info s); keys = dist_items d; alpha = init_alpha (length keys);
          (s1, fps, created) = fold (create_key alpha value_cipher) (zip keys (dist_probs d)) (s, [], 0);
          dummy = dummy_key (in_info s1);
          dummy_r = dummy_count (length keys) created;
          (s2, fps2) =
            (if dummy_r \<noteq> 0
             then (insert_replicas dummy dummy_r value_cipher
                     (s1\<lparr>in_info := (in_info s1)\<lparr>key_to_number_of_replicas :=
                          tab_put dummy dummy_r (key_to_number_of_replicas (in_info s1))\<rparr>\<rparr>),
                   fps @ [dmul (ddiv alpha (dsub (ddiv 1 (1 / 2)) 1)) (of_int dummy_r)])
             else (s1, fps));
          s3 = (if in_labels s2 \<noteq> [] then put_batch_labels value_cipher s2 else s2)
      in s3\<lparr>in_info := (in_info s3)\<lparr>fake_distribution := distribution_new (keys @ [dummy]) fps2\<rparr>\<rparr>)"

definition init_info :: "distribution \<Rightarrow> string \<Rightarrow> init_state" where
  "init_info rdist dummy =
     \<lparr>in_info = distribution_info_new\<lparr>real_distribution := rdist, num_keys := int (length (dist_items rdist)),
        dummy_key := dummy\<rparr>,
      label_count = 0, in_labels = [], in_puts = []\<rparr>"

section \<open>Labels\<close>

text \<open>
  \<open>init_log c s names\<close>: the replicas \<open>names\<close> have been inserted so far, in this order; they have the labels 0, 1, and so
  on, and every label has been put or is waiting to be put.
\<close>

definition init_log :: "string \<Rightarrow> init_state \<Rightarrow> string list \<Rightarrow> bool" where
  "init_log c s names \<longleftrightarrow>
     label_count s = int (length names) \<and>
     replica_to_label (in_info s) = umap.put_all (zip names (map int [0..<length names])) [] \<and>
     concat (map fst (in_puts s)) @ in_labels s = map (\<lambda>i. to_string (int i)) [0..<length names] \<and>
     length (in_labels s) < 50 \<and>
     (\<forall>b \<in> set (in_puts s). length (fst b) = 50 \<and> snd b = replicate 50 c)"

lemma put_all_snoc: "umap.put_all (kvs @ [(k, x)]) t = tab_put k x (umap.put_all kvs t)"
  by (simp add: umap.put_all_def)

lemma zip_labels_snoc:
  "zip (names @ [nm]) (map int [0..<length (names @ [nm])]) = zip names (map int [0..<length names]) @ [(nm, int (length names))]"
  by simp

lemma insert_replica_log:
  assumes "init_log c s names"
  shows "init_log c (insert_replica key c i s) (names @ [key @ to_string (int i)])"
proof -
  let ?nm = "key @ to_string (int i)"
  have f: "label_count s = int (length names)"
    "concat (map fst (in_puts s)) @ in_labels s = map (\<lambda>i. to_string (int i)) [0..<length names]"
    "length (in_labels s) < 50"
    using assms by (simp_all add: init_log_def)
  have r: "replica_to_label (in_info (insert_replica key c i s)) =
      umap.put_all (zip (names @ [?nm]) (map int [0..<length (names @ [?nm])])) []"
    using assms unfolding zip_labels_snoc put_all_snoc
    by (simp add: insert_replica_def put_batch_labels_def Let_def init_log_def)
  let ?lab = "in_labels s @ [to_string (label_count s)]"
  let ?t = "insert_replica key c i s"
  have count: "label_count ?t = int (length (names @ [?nm]))"
    using f(1) by (simp add: insert_replica_def put_batch_labels_def Let_def)
  have all: "(concat (map fst (in_puts s)) @ in_labels s) @ [to_string (label_count s)] =
      map (\<lambda>i. to_string (int i)) [0..<length (names @ [?nm])]"
    unfolding f(2) by (simp add: f(1))
  show ?thesis
  proof (cases "50 \<le> length ?lab")
    case True
    then have fifty: "length ?lab = 50" using f(3) by simp
    have "in_puts ?t = in_puts s @ [(?lab, replicate 50 c)]" "in_labels ?t = []"
      using fifty by (simp_all add: insert_replica_def put_batch_labels_def Let_def)
    with r count all fifty assms show ?thesis by (simp add: init_log_def)
  next
    case False
    then have "in_puts ?t = in_puts s" "in_labels ?t = ?lab"
      by (simp_all add: insert_replica_def put_batch_labels_def Let_def)
    with r count all False assms show ?thesis by (simp add: init_log_def)
  qed
qed

definition replica_names :: "string \<Rightarrow> int \<Rightarrow> string list" where
  "replica_names key r = map (\<lambda>i. key @ to_string (int i)) [0..<nat r]"

lemma insert_replicas_log:
  assumes "init_log c s names"
  shows "init_log c (insert_replicas key r c s) (names @ replica_names key r)"
proof -
  have "init_log c (fold (insert_replica key c) is s) (names @ map (\<lambda>i. key @ to_string (int i)) is)" for "is"
    using assms
  proof (induction "is" arbitrary: s names)
    case (Cons i "is")
    from Cons.IH [OF insert_replica_log [OF Cons.prems, of key i]] show ?case by simp
  qed simp
  then show ?thesis by (simp add: insert_replicas_def replica_names_def)
qed

lemma insert_replicas_frame:
  "\<exists>t. in_info (insert_replicas key r c s) = (in_info s)\<lparr>replica_to_label := t\<rparr>"
proof -
  have "\<exists>t. in_info (fold (insert_replica key c) is s) = (in_info s)\<lparr>replica_to_label := t\<rparr>" for "is"
  proof (induction "is" arbitrary: s)
    case Nil
    show ?case by (intro exI [of _ "replica_to_label (in_info s)"]) simp
  next
    case (Cons i "is")
    have "\<exists>t. in_info (insert_replica key c i s) = (in_info s)\<lparr>replica_to_label := t\<rparr>"
      by (auto simp: insert_replica_def put_batch_labels_def Let_def)
    with Cons.IH [of "insert_replica key c i s"] show ?case by auto
  qed
  then show ?thesis by (simp add: insert_replicas_def)
qed

section \<open>All keys\<close>

definition all_names :: "rat \<Rightarrow> (string \<times> rat) list \<Rightarrow> string list" where
  "all_names alpha kps = concat (map (\<lambda>(k, p). replica_names k (replica_count alpha p)) kps)"

definition total_replicas :: "rat \<Rightarrow> (string \<times> rat) list \<Rightarrow> int" where
  "total_replicas alpha kps = sum_list (map (\<lambda>(k, p). replica_count alpha p) kps)"

lemma create_keys_log:
  assumes "init_log c s names"
  shows "\<exists>s' fps' t. fold (create_key alpha c) kps (s, fps, created) = (s', fps', created + total_replicas alpha kps) \<and>
           init_log c s' (names @ all_names alpha kps) \<and> length fps' = length fps + length kps \<and>
           in_info s' = (in_info s)\<lparr>key_to_number_of_replicas :=
             umap.put_all (map (\<lambda>(k, p). (k, replica_count alpha p)) kps) (key_to_number_of_replicas (in_info s)),
             replica_to_label := t\<rparr>"
  using assms
proof (induction kps arbitrary: s names fps created)
  case Nil
  then show ?case
    by (intro exI [of _ s] exI [of _ fps] exI [of _ "replica_to_label (in_info s)"])
      (simp add: all_names_def total_replicas_def umap.put_all_def)
next
  case (Cons kp kps)
  obtain k p where kp: "kp = (k, p)" by (cases kp)
  let ?r = "replica_count alpha p"
  let ?s0 = "s\<lparr>in_info := (in_info s)\<lparr>key_to_number_of_replicas := tab_put k ?r (key_to_number_of_replicas (in_info s))\<rparr>\<rparr>"
  let ?s1 = "insert_replicas k ?r c ?s0"
  have "init_log c ?s0 names" using Cons.prems by (simp add: init_log_def)
  then have one: "init_log c ?s1 (names @ replica_names k ?r)" by (rule insert_replicas_log)
  obtain t1 where fr: "in_info ?s1 = (in_info ?s0)\<lparr>replica_to_label := t1\<rparr>"
    using insert_replicas_frame [of k ?r c ?s0] by blast
  have step: "create_key alpha c kp (s, fps, created) = (?s1, fps @ [fake_prob alpha p ?r], created + ?r)"
    by (simp add: create_key_def kp Let_def)
  obtain s' fps' t where rec: "fold (create_key alpha c) kps (?s1, fps @ [fake_prob alpha p ?r], created + ?r) =
        (s', fps', created + ?r + total_replicas alpha kps)"
      "init_log c s' ((names @ replica_names k ?r) @ all_names alpha kps)"
      "length fps' = length fps + 1 + length kps"
      "in_info s' = (in_info ?s1)\<lparr>key_to_number_of_replicas :=
         umap.put_all (map (\<lambda>(k, p). (k, replica_count alpha p)) kps) (key_to_number_of_replicas (in_info ?s1)),
         replica_to_label := t\<rparr>"
    using Cons.IH [OF one, of "fps @ [fake_prob alpha p ?r]" "created + ?r"] by auto
  then show ?case
    using step fr kp by (intro exI [of _ s'] exI [of _ fps'] exI [of _ t])
      (simp add: all_names_def total_replicas_def umap.put_all_def add.assoc)
qed

lemma length_all_names:
  "\<forall>(k, p) \<in> set kps. 0 \<le> replica_count alpha p \<Longrightarrow> int (length (all_names alpha kps)) = total_replicas alpha kps"
  by (induction kps) (auto simp: all_names_def total_replicas_def replica_names_def)

text \<open>Rounding up adds less than one per key.\<close>

lemma total_replicas_bound:
  "(of_int (total_replicas alpha kps) :: rat) \<le> sum_list (map (\<lambda>(k, p). ddiv p alpha) kps) + of_nat (length kps)"
  "kps \<noteq> [] \<Longrightarrow>
     (of_int (total_replicas alpha kps) :: rat) < sum_list (map (\<lambda>(k, p). ddiv p alpha) kps) + of_nat (length kps)"
proof -
  have one: "(of_int (replica_count alpha p) :: rat) < ddiv p alpha + 1" for p
    using ceiling_correct [of "ddiv p alpha"] by (simp add: replica_count_def)
  show le: "(of_int (total_replicas alpha kps) :: rat) \<le> sum_list (map (\<lambda>(k, p). ddiv p alpha) kps) + of_nat (length kps)" for kps
  proof (induction kps)
    case (Cons kp kps)
    with one [of "snd kp"] show ?case by (cases kp) (simp add: total_replicas_def)
  qed (simp add: total_replicas_def)
  show "(of_int (total_replicas alpha kps) :: rat) < sum_list (map (\<lambda>(k, p). ddiv p alpha) kps) + of_nat (length kps)"
    if "kps \<noteq> []"
  proof (cases kps)
    case (Cons kp rest)
    with one [of "snd kp"] le [of rest] show ?thesis by (cases kp) (simp add: total_replicas_def)
  qed (use that in simp)
qed

lemma dummy_count_exact:
  assumes "0 \<le> created" "created \<le> 2 * int n" "int n < 2 ^ 30"
  shows "dummy_count n created = 2 * int n - created"
  using assms unfolding dummy_count_def
  by (simp only: signed_of_int) (simp add: signed_take_bit_int_eq_self)

text \<open>What is asked of the real distribution, and the replica names in the order of their creation.\<close>

definition smoothing_ok :: "distribution \<Rightarrow> bool" where
  "smoothing_ok d \<longleftrightarrow>
     (let n = length (dist_items d); kps = zip (dist_items d) (dist_probs d); alpha = init_alpha n in
      length (dist_probs d) = n \<and> int n < 2 ^ 30 \<and>
      (\<forall>(k, p) \<in> set kps. 0 < replica_count alpha p) \<and>
      sum_list (map (\<lambda>(k, p). ddiv p alpha) kps) \<le> of_nat n)"

definition smoothing_names :: "distribution \<Rightarrow> string \<Rightarrow> string list" where
  "smoothing_names d dummy =
     (let n = length (dist_items d); kps = zip (dist_items d) (dist_probs d); alpha = init_alpha n in
      all_names alpha kps @ replica_names dummy (2 * int n - total_replicas alpha kps))"

text \<open>How many replicas are left for the dummy key: at least one.\<close>

definition dummy_replicas :: "distribution \<Rightarrow> int" where
  "dummy_replicas d =
     (let n = length (dist_items d) in 2 * int n - total_replicas (init_alpha n) (zip (dist_items d) (dist_probs d)))"

definition replica_counts :: "distribution \<Rightarrow> (string \<times> int) list" where
  "replica_counts d = map (\<lambda>(k, p). (k, replica_count (init_alpha (length (dist_items d))) p)) (zip (dist_items d) (dist_probs d))"

lemma smoothing_names_dummy:
  "smoothing_names d dummy =
     all_names (init_alpha (length (dist_items d))) (zip (dist_items d) (dist_probs d)) @ replica_names dummy (dummy_replicas d)"
  by (simp add: smoothing_names_def dummy_replicas_def Let_def)

lemma smoothing_totals:
  assumes "smoothing_ok d"
  defines "n \<equiv> length (dist_items d)"
  shows "0 \<le> dummy_replicas d" "dummy_replicas d \<le> 2 * int n" "n \<noteq> 0 \<Longrightarrow> 0 < dummy_replicas d"
    and "dummy_count n (2 * int n - dummy_replicas d) = dummy_replicas d"
    and "length (smoothing_names d dummy) = 2 * n"
proof -
  define kps where "kps = zip (dist_items d) (dist_probs d)"
  have hyp: "length kps = n" "int n < 2 ^ 30" "\<forall>(k, p) \<in> set kps. 0 \<le> replica_count (init_alpha n) p"
    "sum_list (map (\<lambda>(k, p). ddiv p (init_alpha n)) kps) \<le> of_nat n"
    using assms by (auto simp: smoothing_ok_def kps_def Let_def)
  let ?T = "total_replicas (init_alpha n) kps"
  have r: "dummy_replicas d = 2 * int n - ?T" by (simp add: dummy_replicas_def n_def kps_def Let_def)
  have pos: "0 \<le> ?T" using length_all_names [OF hyp(3)] by linarith
  have up: "?T \<le> 2 * int n"
  proof -
    have "(of_int ?T :: rat) \<le> of_int (2 * int n)"
      using total_replicas_bound(1) [of "init_alpha n" kps] hyp(1,4) by simp
    then show ?thesis by (simp only: of_int_le_iff)
  qed
  show "0 \<le> dummy_replicas d" "dummy_replicas d \<le> 2 * int n" using pos up r by simp_all
  show "0 < dummy_replicas d" if "n \<noteq> 0"
  proof -
    have "kps \<noteq> []" using that hyp(1) by auto
    then have "(of_int ?T :: rat) < of_int (2 * int n)"
      using total_replicas_bound(2) [of kps "init_alpha n"] hyp(1,4) by simp
    then show ?thesis using r by (simp only: of_int_less_iff)
  qed
  show "dummy_count n (2 * int n - dummy_replicas d) = dummy_replicas d"
    unfolding r using dummy_count_exact [OF pos up hyp(2)] by simp
  have "int (length (smoothing_names d dummy)) = 2 * int n"
    using length_all_names [OF hyp(3)] up r
    by (simp add: smoothing_names_dummy n_def [symmetric] kps_def [symmetric] replica_names_def)
  then show "length (smoothing_names d dummy) = 2 * n" by linarith
qed

text \<open>The state before the last labels are put, and the state at the end.\<close>

lemma create_replicas_run:
  assumes "smoothing_ok rdist"
  obtains s2 fps t where "init_log c s2 (smoothing_names rdist dummy)"
    "in_info s2 = (in_info (init_info rdist dummy))\<lparr>key_to_number_of_replicas := umap.put_all
       (replica_counts rdist @ (if dummy_replicas rdist \<noteq> 0 then [(dummy, dummy_replicas rdist)] else [])) [], replica_to_label := t\<rparr>"
    "length fps = length (dist_items rdist) + (if dummy_replicas rdist \<noteq> 0 then 1 else 0)"
    "create_replicas c (init_info rdist dummy) =
       (let s3 = (if in_labels s2 \<noteq> [] then put_batch_labels c s2 else s2) in
        s3\<lparr>in_info := (in_info s3)\<lparr>fake_distribution := distribution_new (dist_items rdist @ [dummy]) fps\<rparr>\<rparr>)"
proof -
  define n where "n = length (dist_items rdist)"
  define kps where "kps = zip (dist_items rdist) (dist_probs rdist)"
  let ?i = "init_info rdist dummy" and ?d = "dummy_replicas rdist" and ?alpha = "init_alpha n"
  have start: "init_log c ?i []" by (simp add: init_log_def init_info_def distribution_info_new_def umap.put_all_def)
  have len: "length kps = n" using assms by (simp add: smoothing_ok_def kps_def n_def Let_def)
  obtain s1 fps t where loop: "fold (create_key ?alpha c) kps (?i, [], 0) = (s1, fps, total_replicas ?alpha kps)"
    and log1: "init_log c s1 (all_names ?alpha kps)" and lf: "length fps = n"
    and info1: "in_info s1 = (in_info ?i)\<lparr>key_to_number_of_replicas := umap.put_all (replica_counts rdist) [], replica_to_label := t\<rparr>"
    using create_keys_log [OF start, of ?alpha kps "[]" 0] len
    by (auto simp: init_info_def replica_counts_def kps_def n_def distribution_info_new_def)
  have dk: "dummy_key (in_info s1) = dummy" by (simp add: info1 init_info_def)
  have T: "total_replicas ?alpha kps = 2 * int n - ?d" by (simp add: dummy_replicas_def n_def kps_def Let_def)
  note dc = smoothing_totals(4) [OF assms, folded n_def]
  have items: "dist_items (real_distribution (in_info ?i)) = dist_items rdist"
    "dist_probs (real_distribution (in_info ?i)) = dist_probs rdist" by (simp_all add: init_info_def)
  note run = create_replicas_def [of c ?i, unfolded Let_def items n_def [symmetric] kps_def [symmetric] loop prod.case T dk dc]
  show thesis
  proof (cases "?d = 0")
    case True
    have fin: "create_replicas c ?i = (let s3 = (if in_labels s1 \<noteq> [] then put_batch_labels c s1 else s1) in
        s3\<lparr>in_info := (in_info s3)\<lparr>fake_distribution := distribution_new (dist_items rdist @ [dummy]) fps\<rparr>\<rparr>)"
      unfolding run by (simp add: True dk Let_def)
    show thesis
      by (rule that [OF _ _ _ fin])
        (use True log1 info1 lf in \<open>simp_all add: smoothing_names_dummy replica_names_def n_def kps_def\<close>)
  next
    case False
    define s0 where "s0 = s1\<lparr>in_info := (in_info s1)\<lparr>key_to_number_of_replicas :=
        tab_put dummy ?d (key_to_number_of_replicas (in_info s1))\<rparr>\<rparr>"
    have "init_log c s0 (all_names ?alpha kps)" using log1 by (simp add: init_log_def s0_def)
    then have log2: "init_log c (insert_replicas dummy ?d c s0) (smoothing_names rdist dummy)"
      using insert_replicas_log by (simp add: smoothing_names_dummy n_def kps_def)
    obtain t2 where "in_info (insert_replicas dummy ?d c s0) = (in_info s0)\<lparr>replica_to_label := t2\<rparr>"
      using insert_replicas_frame by blast
    then have info2: "in_info (insert_replicas dummy ?d c s0) = (in_info ?i)\<lparr>key_to_number_of_replicas :=
        umap.put_all (replica_counts rdist @ [(dummy, ?d)]) [], replica_to_label := t2\<rparr>"
      by (simp add: s0_def info1 put_all_snoc)
    let ?fps = "fps @ [dmul (ddiv ?alpha (dsub (ddiv 1 (1 / 2)) 1)) (of_int ?d)]"
    have fin: "create_replicas c ?i =
        (let s3 = (if in_labels (insert_replicas dummy ?d c s0) \<noteq> [] then put_batch_labels c (insert_replicas dummy ?d c s0)
                   else insert_replicas dummy ?d c s0) in
        s3\<lparr>in_info := (in_info s3)\<lparr>fake_distribution := distribution_new (dist_items rdist @ [dummy]) ?fps\<rparr>\<rparr>)"
      unfolding run by (simp add: False dk s0_def [symmetric] Let_def)
    show thesis
      by (rule that [OF log2 _ _ fin]) (use False info2 lf in \<open>simp_all add: n_def\<close>)
  qed
qed

section \<open>The tables\<close>

lemma map_of_replica_counts:
  assumes "dist_ok d" "k \<in> set (dist_items d)"
  shows "\<exists>p. (k, p) \<in> set (zip (dist_items d) (dist_probs d)) \<and>
           map_of (replica_counts d) k = Some (replica_count (init_alpha (length (dist_items d))) p)"
proof -
  have "map_of (zip (dist_items d) (dist_probs d)) k \<noteq> None" using assms by (simp add: dist_ok_def map_of_zip_is_None)
  then show ?thesis by (auto simp: replica_counts_def map_of_map dest: map_of_SomeD)
qed

lemma fst_replica_counts: "dist_ok d \<Longrightarrow> map fst (replica_counts d) = dist_items d"
  by (simp add: replica_counts_def dist_ok_def comp_def case_prod_beta)

lemma in_replica_names: "0 \<le> r \<Longrightarrow> r < n \<Longrightarrow> k @ to_string r \<in> set (replica_names k n)"
  by (auto simp: replica_names_def intro!: image_eqI [of _ _ "nat r"])

lemma in_all_names: "(k, p) \<in> set kps \<Longrightarrow> x \<in> set (replica_names k (replica_count alpha p)) \<Longrightarrow> x \<in> set (all_names alpha kps)"
  by (auto simp: all_names_def)

lemma total_replicas_ge:
  "\<forall>(k, p) \<in> set kps. 0 \<le> replica_count alpha p \<Longrightarrow> (k, p) \<in> set kps \<Longrightarrow> replica_count alpha p \<le> total_replicas alpha kps"
proof (induction kps)
  case (Cons kp kps)
  have "0 \<le> total_replicas alpha kps" using length_all_names [of kps alpha] Cons.prems(1) by fastforce
  moreover have "0 \<le> replica_count alpha (snd kp)" using Cons.prems(1) by auto
  ultimately show ?case using Cons by (cases kp) (auto simp: total_replicas_def)
qed simp

text \<open>
  What the proxies rely on: every item of the two distributions has a number of replicas, which is positive and fits
  its 32-bit type, and each of these replicas has a label.
\<close>

definition tables_ok :: "distribution_info \<Rightarrow> bool" where
  "tables_ok d \<longleftrightarrow>
     distribution_info_ok d \<and> dist_items (real_distribution d) \<noteq> [] \<and> dist_items (fake_distribution d) \<noteq> [] \<and>
     set (dist_items (real_distribution d)) \<union> set (dist_items (fake_distribution d)) \<subseteq> dom (map_of (key_to_number_of_replicas d)) \<and>
     (\<forall>k n. map_of (key_to_number_of_replicas d) k = Some n \<longrightarrow>
        0 < n \<and> n < 2 ^ 31 \<and> (\<forall>r. 0 \<le> r \<and> r < n \<longrightarrow> map_of (replica_to_label d) (k @ to_string r) \<noteq> None))"

lemma initializer_info:
  fixes rdist :: distribution and dummy c k x :: string
  assumes ok: "smoothing_ok rdist" "dist_ok rdist" "dist_items rdist \<noteq> []" and dummy: "dummy \<notin> set (dist_items rdist)"
  defines "i \<equiv> in_info (create_replicas c (init_info rdist dummy))"
  shows "real_distribution i = rdist" "dummy_key i = dummy" "distribution_info_ok i"
    and "dist_items (fake_distribution i) = dist_items rdist @ [dummy]"
    and "map_of (key_to_number_of_replicas i) k = (if k = dummy then Some (dummy_replicas rdist) else map_of (replica_counts rdist) k)"
    and "x \<in> set (smoothing_names rdist dummy) \<Longrightarrow> map_of (replica_to_label i) x \<noteq> None"
proof -
  let ?names = "smoothing_names rdist dummy" and ?d = "dummy_replicas rdist"
  have d: "0 < ?d" using smoothing_totals(3) [OF ok(1)] ok(3) by simp
  obtain fps where info: "real_distribution i = rdist" "dummy_key i = dummy"
    "key_to_number_of_replicas i = umap.put_all (replica_counts rdist @ [(dummy, ?d)]) []"
    "fake_distribution i = distribution_new (dist_items rdist @ [dummy]) fps" "length fps = Suc (length (dist_items rdist))"
    "replica_to_label i = umap.put_all (zip ?names (map int [0..<length ?names])) []"
    by (rule create_replicas_run [OF ok(1), of c dummy])
      (use d in \<open>simp_all add: i_def Let_def put_batch_labels_def init_info_def init_log_def\<close>)
  show "real_distribution i = rdist" "dummy_key i = dummy" "dist_items (fake_distribution i) = dist_items rdist @ [dummy]"
    using info(1,2,4) by (simp_all add: distribution_new_def)
  show "distribution_info_ok i"
    using ok(2) dummy info by (simp add: distribution_info_ok_def dist_ok_def distribution_new_def umap.invar_put_all)
  have keys: "map fst (replica_counts rdist) = dist_items rdist" using fst_replica_counts [OF ok(2)] .
  then have "distinct (map fst (replica_counts rdist @ [(dummy, ?d)]))" using dummy ok(2) by (simp add: dist_ok_def)
  moreover have "map_of (replica_counts rdist) dummy = None"
    using dummy keys by (simp add: map_of_eq_None_iff flip: set_map)
  ultimately show "map_of (key_to_number_of_replicas i) k = (if k = dummy then Some ?d else map_of (replica_counts rdist) k)"
    by (simp add: info(3) umap.lookup_put_all map_add_def split: option.splits)
  have "x \<in> set ?names \<Longrightarrow> map_of (rev (zip ?names (map int [0..<length ?names]))) x \<noteq> None"
    by (simp add: map_of_eq_None_iff flip: set_map)
  then show "x \<in> set ?names \<Longrightarrow> map_of (replica_to_label i) x \<noteq> None"
    by (auto simp: info(6) umap.lookup_put_all_last split: option.splits)
qed

lemma initializer_tables:
  assumes ok: "smoothing_ok rdist" "dist_ok rdist" "dist_items rdist \<noteq> []" and dummy: "dummy \<notin> set (dist_items rdist)"
  shows "tables_ok (in_info (create_replicas c (init_info rdist dummy)))"
proof -
  define i where "i = in_info (create_replicas c (init_info rdist dummy))"
  let ?names = "smoothing_names rdist dummy" and ?d = "dummy_replicas rdist" and ?n = "length (dist_items rdist)"
  let ?kps = "zip (dist_items rdist) (dist_probs rdist)"
  note info = initializer_info [OF assms, where c = c, folded i_def]
  have d: "0 < ?d" "?d \<le> 2 * int ?n" using smoothing_totals(2,3) [OF ok(1)] ok(3) by simp_all
  have nonneg: "\<forall>(k, p) \<in> set ?kps. 0 < replica_count (init_alpha ?n) p" "int ?n < 2 ^ 30"
    using ok(1) by (auto simp: smoothing_ok_def Let_def)
  have entry: "0 < m \<and> m < 2 ^ 31 \<and> set (replica_names k m) \<subseteq> set ?names" if "map_of (key_to_number_of_replicas i) k = Some m" for k m
  proof (cases "k = dummy")
    case True
    then show ?thesis using that d nonneg(2) by (auto simp: info(5) smoothing_names_dummy)
  next
    case False
    then have "map_of (replica_counts rdist) k = Some m" using that by (simp add: info(5))
    then obtain p where p: "(k, p) \<in> set ?kps" "m = replica_count (init_alpha ?n) p"
      by (auto simp: replica_counts_def dest!: map_of_SomeD)
    have "m \<le> total_replicas (init_alpha ?n) ?kps" unfolding p(2) by (rule total_replicas_ge [OF _ p(1)]) (use nonneg in fastforce)
    also have "\<dots> < 2 * int ?n" using d(1) by (simp add: dummy_replicas_def Let_def)
    finally have "m < 2 ^ 31" using nonneg(2) by simp
    moreover have "0 < m" using nonneg(1) p by auto
    moreover have "set (replica_names k m) \<subseteq> set ?names"
      using in_all_names [OF p(1)] by (auto simp: p(2) smoothing_names_dummy)
    ultimately show ?thesis by simp
  qed
  have "k \<in> dom (map_of (key_to_number_of_replicas i))" if "k \<in> set (dist_items rdist) \<or> k = dummy" for k
    using that map_of_replica_counts [OF ok(2)] by (fastforce simp: dom_def info(5))
  then have items: "set (dist_items (real_distribution i)) \<union> set (dist_items (fake_distribution i)) \<subseteq> dom (map_of (key_to_number_of_replicas i))"
    using info(1,4) by auto
  have labels: "map_of (replica_to_label i) (k @ to_string r) \<noteq> None"
    if "map_of (key_to_number_of_replicas i) k = Some m" "0 \<le> r \<and> r < m" for k m r
    using entry [OF that(1)] in_replica_names [of r m k] that(2) by (intro info(6)) auto
  show ?thesis unfolding tables_ok_def i_def [symmetric]
    by (intro conjI allI impI items info(3)) (use entry labels ok(3) info(1,4) in auto)
qed

text \<open>The tables keep their property on the way through the distribution file.\<close>

lemma tables_ok_file:
  assumes "iter_ok iter" "tables_ok d"
  shows "\<exists>file d'. distinfo_dump iter d = Inr file \<and> distinfo_load file distribution_info_new = Inr d' \<and> tables_ok d' \<and>
           dummy_key d' = dummy_key d \<and> set (dist_items (real_distribution d')) = set (dist_items (real_distribution d))"
proof -
  have dok: "distribution_info_ok d" using assms(2) by (simp add: tables_ok_def)
  obtain f d' where r: "distinfo_dump iter d = Inr f" "distinfo_load f distribution_info_new = Inr d'"
    "dummy_key d' = dummy_key d" "map_of (key_to_number_of_replicas d') = map_of (key_to_number_of_replicas d)"
    "map_of (replica_to_label d') = map_of (replica_to_label d)"
    "dist_prob (fake_distribution d') = dist_prob (fake_distribution d)"
    "dist_prob (real_distribution d') = dist_prob (real_distribution d)" "distribution_info_ok d'"
    using distinfo_dump_load [OF assms(1) dok] by blast
  have items: "set (dist_items (fake_distribution d')) = set (dist_items (fake_distribution d))"
    "set (dist_items (real_distribution d')) = set (dist_items (real_distribution d))"
    using r(6,7,8) dok dom_dist_prob by (metis distribution_info_ok_def)+
  then have "tables_ok d'" using assms(2) r(4,5,8) unfolding tables_ok_def by (metis empty_set set_empty2)
  with r items show ?thesis by blast
qed

section \<open>Properties\<close>

text \<open>
  C31. Smoothing creates exactly two labels per key: if the distribution has a probability for each of its \<open>n\<close> keys
  and the rounded quotients \<^verbatim>\<open>pi/alpha_\<close> are not negative and add up to no more than \<open>n\<close>, then the labels put into the storage are
  0, ..., 2n-1, each once and in order, in batches of at most 50 that all carry the initial cipher text; the \<open>i\<close>-th
  replica name gets label \<open>i\<close>; the dummy key takes the labels that the keys leave over. If moreover
  the replica names are distinct, looking a replica up gives its own label.
\<close>

theorem smoothing_labels:
  assumes "smoothing_ok rdist"
  shows "let s = create_replicas c (init_info rdist dummy); n = length (dist_items rdist); names = smoothing_names rdist dummy in
         concat (map fst (in_puts s)) = map (\<lambda>i. to_string (int i)) [0..<2 * n] \<and>
         (\<forall>b \<in> set (in_puts s). length (fst b) \<le> 50 \<and> snd b = replicate (length (fst b)) c) \<and>
         length names = 2 * n \<and>
         replica_to_label (in_info s) = umap.put_all (zip names (map int [0..<2 * n])) [] \<and>
         (distinct names \<longrightarrow> (\<forall>i < 2 * n. map_of (replica_to_label (in_info s)) (names ! i) = Some (int i)))"
proof -
  define n where "n = length (dist_items rdist)"
  define names where "names = smoothing_names rdist dummy"
  define s where "s = create_replicas c (init_info rdist dummy)"
  obtain s2 where log: "init_log c s2 names" and puts: "in_puts s = in_puts (if in_labels s2 \<noteq> [] then put_batch_labels c s2 else s2)"
    "replica_to_label (in_info s) = replica_to_label (in_info s2)"
    by (rule create_replicas_run [OF assms, of c dummy]) (simp add: s_def names_def Let_def put_batch_labels_def)
  have ln: "length names = 2 * n" using smoothing_totals(5) [OF assms] by (simp add: names_def n_def)
  have c1: "concat (map fst (in_puts s)) = map (\<lambda>i. to_string (int i)) [0..<2 * n]"
    using log ln by (auto simp: puts(1) put_batch_labels_def init_log_def)
  have c2: "\<forall>b \<in> set (in_puts s). length (fst b) \<le> 50 \<and> snd b = replicate (length (fst b)) c"
    using log by (auto simp: puts(1) put_batch_labels_def init_log_def)
  have c3: "replica_to_label (in_info s) = umap.put_all (zip names (map int [0..<2 * n])) []"
    using log ln by (simp add: puts(2) init_log_def)
  have c4: "map_of (replica_to_label (in_info s)) (names ! i) = Some (int i)" if "distinct names" "i < 2 * n" for i
  proof -
    have "map_of (zip names (map int [0..<2 * n])) (names ! i) = Some (int i)"
      using that ln by (simp add: map_of_zip_nth)
    then show ?thesis using that(1) ln unfolding c3 by (simp add: umap.lookup_put_all)
  qed
  show ?thesis using c1 c2 c3 c4 ln by (simp add: Let_def s_def names_def n_def)
qed

definition example_real :: distribution where
  "example_real = distribution_new [''a'', ''b''] [3 / 4, 1 / 4]"

lemma double_round_half: "double_round (1 / 2) = 1 / 2" "double_round (3 / 2) = 3 / 2"
  by (simp_all add: double_round_def ulp_def expo_def floorlog_def log_def round_even_def)

lemma example_real_counts:
  "init_alpha 2 = 1 / 2" "ddiv (3 / 4) (1 / 2) = 3 / 2" "ddiv (1 / 4) (1 / 2) = 1 / 2"
  "replica_count (1 / 2) (3 / 4) = 2" "replica_count (1 / 2) (1 / 4) = 1"
proof -
  have c: "\<lceil>3 / 2 :: rat\<rceil> = 2" "\<lceil>1 / 2 :: rat\<rceil> = 1" by (simp_all add: ceiling_eq_iff)
  show "init_alpha 2 = 1 / 2" "ddiv (3 / 4) (1 / 2) = 3 / 2" "ddiv (1 / 4) (1 / 2) = 1 / 2"
    "replica_count (1 / 2) (3 / 4) = 2" "replica_count (1 / 2) (1 / 4) = 1"
    by (simp_all add: init_alpha_def ddiv_def replica_count_def double_round_half c)
qed

theorem smoothing_labels_witness:
  "smoothing_ok example_real \<and>
   map_of (replica_to_label (in_info (create_replicas ''c'' (init_info example_real ''7'')))) ''a1'' = Some 1 \<and>
   concat (map fst (in_puts (create_replicas ''c'' (init_info example_real ''7'')))) = map (\<lambda>i. to_string (int i)) [0..<4]"
proof -
  have items: "dist_items example_real = [''a'', ''b'']" "dist_probs example_real = [3 / 4, 1 / 4]"
    by (simp_all add: example_real_def distribution_new_def)
  have ok: "smoothing_ok example_real"
    by (simp add: smoothing_ok_def items example_real_counts Let_def numeral_2_eq_2 [symmetric])
  have d: "to_string 0 = ''0''" "to_string 1 = ''1''"
    by code_simp+
  have names: "smoothing_names example_real ''7'' = [''a0'', ''a1'', ''b0'', ''70'']"
    by (simp add: smoothing_names_def items example_real_counts all_names_def replica_names_def total_replicas_def
        upt_conv_Cons d Let_def numeral_2_eq_2 [symmetric])
  define s where "s = create_replicas ''c'' (init_info example_real ''7'')"
  have n: "2 * length (dist_items example_real) = 4" by (simp add: items)
  have dn: "distinct [''a0'', ''a1'', ''b0'', ''70'']" by simp
  note gen = smoothing_labels [OF ok, of "''c''" "''7''", folded s_def, unfolded Let_def names n]
  have put: "concat (map fst (in_puts s)) = map (\<lambda>i. to_string (int i)) [0..<4]"
    using gen by (elim conjE)
  have lab: "\<forall>i < 4. map_of (replica_to_label (in_info s)) ([''a0'', ''a1'', ''b0'', ''70''] ! i) = Some (int i)"
    using gen by (elim conjE) (drule mp [OF _ dn])
  have "map_of (replica_to_label (in_info s)) ([''a0'', ''a1'', ''b0'', ''70''] ! 1) = Some (int 1)"
    by (rule lab [rule_format]) simp
  with put ok show ?thesis by (simp add: s_def)
qed

text \<open>
  Replica names are ambiguous: the name of a replica is the key followed by the decimal replica
  number, so that replica 11 of one key and replica 1 of the same key followed by the digit 1 have the same name, and the
  table keeps only the label that was written last: both replicas are then served by one label.
\<close>

lemma replica_names_collide:
  "map_of (replica_to_label (in_info (insert_replicas (key @ ''1'') 2 c (insert_replicas key 12 c s)))) (key @ to_string 11) =
   map_of (replica_to_label (in_info (insert_replicas (key @ ''1'') 2 c (insert_replicas key 12 c s)))) ((key @ ''1'') @ to_string 1) \<and>
   label_count (insert_replicas (key @ ''1'') 2 c (insert_replicas key 12 c s)) = label_count s + 14"
proof -
  have d: "to_string 11 = ''11''" "to_string 1 = ''1''"
    by code_simp+
  have "label_count (fold (insert_replica k c) is t) = label_count t + int (length is)" for k "is" t
    by (induction "is" arbitrary: t) (simp_all add: insert_replica_def put_batch_labels_def Let_def)
  then show ?thesis by (simp add: d insert_replicas_def)
qed

end
