(* ===== verification/End_To_End.thy ===== *)
theory End_To_End
  imports Layers L1_Proxy Initializer
begin

text \<open>
  The three layers together. A worker of the first layer turns the requests of clients into security batches and sends
  their operations to the columns of the second layer; the columns send them on to the third layer, as in Layers. The order
  in which the first layer numbers the operations is the order in which a store by key has to execute them: every
  answer of the third layer, to a client or to a fake request, is the one this store gives.
\<close>

section \<open>A run of the first layer\<close>

text \<open>What was sent: whether a client waits for the operation, the connection, and the operation.\<close>

type_synonym sent_op = "bool \<times> l1_message"

abbreviation sent_l2 :: "sent_op \<Rightarrow> l2_operation" where
  "sent_l2 x \<equiv> snd (snd x)"

definition client_view :: "l2_operation \<Rightarrow> int \<times> int \<times> string \<times> string" where
  "client_view m = (client_id (l2_seq_id m), client_seq_no (l2_seq_id m), l2_key m, l2_value m)"

definition request_view :: "l1_operation \<Rightarrow> int \<times> int \<times> string \<times> string" where
  "request_view op = (client_id (l1_seq_id op), client_seq_no (l1_seq_id op), l1_key op, l1_value op)"

definition sent_ok :: "l1_proxy \<Rightarrow> sent_op \<Rightarrow> bool" where
  "sent_ok s = (\<lambda>(real, r, m). l1_idx (l2_seq_id m) = l1_idx_no s \<and> replica_in (l1_replicas_of s) m \<and>
     int64_range (client_id (l2_seq_id m)) \<and> int64_range (client_seq_no (l2_seq_id m)) \<and> int64_range (ts (l2_seq_id m)) \<and>
     (real \<or> l2_value m = [] \<and> client_id (l2_seq_id m) = fake_client_id))"

text \<open>From one state of a worker to a later one: the requests \<open>ops\<close> have come in, and \<open>sent\<close> has gone out.\<close>

definition l1_effect :: "l1_proxy \<Rightarrow> l1_operation list \<Rightarrow> sent_op list \<Rightarrow> l1_proxy \<Rightarrow> bool" where
  "l1_effect s ops sent t \<longleftrightarrow>
     l1_ok t \<and> role t = role s \<and> l1_replicas_of t = l1_replicas_of s \<and> l1_idx_no t = l1_idx_no s \<and>
     security_batch_size t = security_batch_size s \<and> chain_seq_no s \<le> chain_seq_no t \<and>
     (\<exists>i j. l1_l2_iface s = Some i \<and> l1_l2_iface t = Some j \<and> l2_ready j \<and> sent_after i (map snd sent) j) \<and>
     sorted_wrt (<) (map (\<lambda>x. l1_seq_no (l2_seq_id (sent_l2 x))) sent) \<and>
     (\<forall>x \<in> set sent. security_batch_size s * (chain_seq_no s + 1) \<le> l1_seq_no (l2_seq_id (sent_l2 x)) \<and>
        l1_seq_no (l2_seq_id (sent_l2 x)) < security_batch_size s * (chain_seq_no t + 1)) \<and>
     list_all (sent_ok s) sent \<and>
     map (client_view \<circ> sent_l2) (filter fst sent) @ map request_view (internal_queue t) = map request_view (internal_queue s @ ops)"

lemma l1_effect_trans:
  assumes "l1_effect s ops sent t" "l1_effect t ops' sent' u"
  shows "l1_effect s (ops @ ops') (sent @ sent') u"
proof -
  have same: "role t = role s" "l1_replicas_of t = l1_replicas_of s" "l1_idx_no t = l1_idx_no s" "security_batch_size t = security_batch_size s"
    using assms(1) by (simp_all add: l1_effect_def)
  obtain i j where ij: "l1_l2_iface s = Some i" "l1_l2_iface t = Some j" "sent_after i (map snd sent) j"
    using assms(1) by (auto simp: l1_effect_def)
  obtain k where k: "l1_l2_iface u = Some k" "l2_ready k" "sent_after j (map snd sent') k"
    using assms(2) ij(2) by (auto simp: l1_effect_def)
  have pos: "0 \<le> security_batch_size s" using assms(1) same(4) by (auto simp: l1_effect_def l1_ok_def)
  have le: "security_batch_size s * (chain_seq_no s + 1) \<le> security_batch_size s * (chain_seq_no t + 1)"
    "security_batch_size s * (chain_seq_no t + 1) \<le> security_batch_size s * (chain_seq_no u + 1)"
    using assms pos by (auto simp: l1_effect_def intro!: mult_left_mono)
  have ok: "sent_ok t = sent_ok s" by (simp add: sent_ok_def same fun_eq_iff)
  have v: "map (client_view \<circ> sent_l2) (filter fst sent) @ map request_view (internal_queue t) = map request_view (internal_queue s @ ops)"
    "map (client_view \<circ> sent_l2) (filter fst sent') @ map request_view (internal_queue u) = map request_view (internal_queue t @ ops')"
    using assms by (simp_all add: l1_effect_def)
  have "map (client_view \<circ> sent_l2) (filter fst (sent @ sent')) @ map request_view (internal_queue u) =
      map request_view (internal_queue s @ ops @ ops')"
    unfolding filter_append map_append append_assoc v(2) [unfolded map_append]
    unfolding append_assoc [symmetric] v(1) [unfolded map_append] ..
  moreover have "sorted_wrt (<) (map (\<lambda>x. l1_seq_no (l2_seq_id (sent_l2 x))) (sent @ sent'))"
    using assms by (fastforce simp: l1_effect_def sorted_wrt_append same)
  moreover have "\<forall>x \<in> set (sent @ sent'). security_batch_size s * (chain_seq_no s + 1) \<le> l1_seq_no (l2_seq_id (sent_l2 x)) \<and>
        l1_seq_no (l2_seq_id (sent_l2 x)) < security_batch_size s * (chain_seq_no u + 1)"
    using assms le by (fastforce simp: l1_effect_def same)
  moreover have "sent_after i (map snd (sent @ sent')) k" using sent_after_trans [OF ij(3) k(3)] by simp
  ultimately show ?thesis using assms ij(1) k(1,2) by (auto simp: l1_effect_def same ok)
qed

lemma wire_seq_simps [simp]:
  "client_id (wire_seq q) = client_id q" "client_seq_no (wire_seq q) = client_seq_no q"
  by (simp_all add: wire_seq_def)

lemma wire_ts: "int64_range (ts q) \<Longrightarrow> int64_range (ts (wire_seq q))"
  by (simp add: wire_seq_def int64_range_def)

text \<open>The messages of a batch, with the flags of the batch.\<close>

lemma batch_sent:
  assumes "map (undiag \<circ> snd) ms = map (\<lambda>(j, op). undiag (l1_numbered s seq j (wire_op op))) (enumerate 0 (map fst batch))"
    and "batch_from s m batch" "list_all l2_op_ok (map fst batch)"
  defines "sent \<equiv> zip (map snd batch) ms"
  shows "length ms = length batch" "map snd sent = ms" "list_all (sent_ok s) sent"
    and "map (client_view \<circ> sent_l2) (filter fst sent) = map request_view (take m (internal_queue s))"
    and "map (\<lambda>x. l1_seq_no (l2_seq_id (sent_l2 x))) sent = map (\<lambda>j. security_batch_size s * server_seq_no seq + int j) [0..<length batch]"
proof -
  show len: "length ms = length batch" using map_eq_imp_length_eq [OF assms(1)] by simp
  then show snds: "map snd sent = ms" by (simp add: sent_def)
  have nth: "undiag (snd (ms ! j)) = undiag (l1_numbered s seq j (wire_op (fst (batch ! j))))" if "j < length batch" for j
    using arg_cong [OF assms(1), of "\<lambda>xs. xs ! j"] that len by (simp add: nth_enumerate_eq)
  have sent: "length sent = length batch" "\<And>j. j < length batch \<Longrightarrow> sent ! j = (snd (batch ! j), ms ! j)"
    using len by (simp_all add: sent_def)
  note d = undiag_eqD [OF nth]
  show "list_all (sent_ok s) sent"
    unfolding list_all_length sent(1)
  proof (intro allI impI)
    fix j assume j: "j < length batch"
    then have mem: "(fst (batch ! j), snd (batch ! j)) \<in> set batch" by simp
    then have b: "replica_in (l1_replicas_of s) (fst (batch ! j))" "snd (batch ! j) \<or> is_fake (fst (batch ! j))"
      using assms(2) unfolding batch_from_def by fast+
    have "l2_op_ok (fst (batch ! j))" using assms(3) j by (simp add: list_all_length)
    with b d [OF j] show "sent_ok s (sent ! j)"
      using wire_ts by (auto simp: sent(2) [OF j] sent_ok_def l1_numbered_def wire_op_def replica_in_def l2_op_ok_def is_fake_def fake_client_id_def)
  qed
  have "map (client_view \<circ> sent_l2) (filter fst sent) = map (request_view \<circ> as_l1 \<circ> fst) (filter snd batch)"
  proof -
    have "map (\<lambda>x. (fst x, client_view (sent_l2 x))) sent = map (\<lambda>x. (snd x, request_view (as_l1 (fst x)))) batch"
      by (intro nth_equalityI) (use sent d in \<open>simp_all add: client_view_def request_view_def as_l1_def l1_numbered_def wire_op_def\<close>)
    from arg_cong [OF this, of "\<lambda>xs. map snd (filter fst xs)"] show ?thesis by (simp add: filter_map comp_def)
  qed
  also have "\<dots> = map request_view (take m (internal_queue s))"
    using assms(2) by (simp add: batch_from_def comp_assoc flip: map_map)
  finally show "map (client_view \<circ> sent_l2) (filter fst sent) = map request_view (take m (internal_queue s))" .
  show "map (\<lambda>x. l1_seq_no (l2_seq_id (sent_l2 x))) sent = map (\<lambda>j. security_batch_size s * server_seq_no seq + int j) [0..<length batch]"
    by (intro nth_equalityI) (use sent d in \<open>simp_all add: l1_numbered_def\<close>)
qed

lemma sorted_numbers: "sorted_wrt (<) (map (\<lambda>j. b + int j) [0..<n])"
  by (simp add: sorted_wrt_map sorted_wrt_upt)

lemma l1_request_effect:
  assumes e: "env_ok e" and ok: "l1_ok s" and rl: "role s = Singleton" and op: "l1_op_ok (l1_replicas_of s) op"
    and i: "l1_l2_iface s = Some i" "l2_ready i"
  obtains s' sent where "l1_process_op e op s = (Inr (), s')" "l1_effect s [op] sent s'"
proof -
  let ?q = "internal_queue s @ [l1_stamp e s op]"
  have head: "is_head s" using rl by (simp add: is_head_def)
  obtain batch m k where b:
    "l1_process_op e op s = chain_request (l1_app e)
       (sequence_id_new\<lparr>client_id := - 1, client_seq_no := - 1, server_seq_no := - 1\<rparr>) (concat (map (l2_serialize \<circ> fst) batch))
       (s\<lparr>internal_queue := drop m ?q, l1_tick := k\<rparr>)"
    "int (length batch) = security_batch_size s" "batch_from (s\<lparr>internal_queue := ?q\<rparr>) m batch" "list_all l2_op_ok (map fst batch)"
    "l1_ok (s\<lparr>internal_queue := drop m ?q, l1_tick := k\<rparr>)"
    by (rule l1_process_op_batch [OF e ok head op]) (rule that, assumption+)
  let ?seq = "sequence_id_new\<lparr>client_id := - 1, client_seq_no := - 1, server_seq_no := chain_seq_no s + 1\<rparr>"
  let ?args = "concat (map l2_serialize (map fst batch))"
  let ?s1 = "s\<lparr>internal_queue := drop m ?q, l1_tick := k,
    pending_count := tab_insert (chain_seq_no s + 1) (security_batch_size s) (pending_count s)\<rparr>"
  let ?a = "accepted ?seq ?args ?s1"
  have run: "l1_process_op e op s = l1_replication_complete e ?seq ?args ?a"
    using rl unfolding b(1) chain_request_cases
    by (simp add: in_order_def stamped_def is_head_def is_tail_def l1_app_def l1_run_command_def modify_apply comp_def)
  have a: "l1_l2_iface ?a = Some i" "int (length (map fst batch)) = security_batch_size ?a" "security_batch_size ?a < 2 ^ 31"
    "0 < security_batch_size ?a" "l1_idx_no ?a = l1_idx_no s" "security_batch_size ?a = security_batch_size s"
    using i(1) b(2) ok by (simp_all add: accepted_def add_pending_def l1_ok_def)
  obtain i' k' ms where f: "l1_replication_complete e ?seq ?args ?a = (Inr (), ?a\<lparr>l1_tick := k', l1_l2_iface := Some i'\<rparr>)" "l2_ready i'"
    "sent_after i ms i'" "map (undiag \<circ> snd) ms = map (\<lambda>(j, op). undiag (l1_numbered ?a ?seq j (wire_op op))) (enumerate 0 (map fst batch))"
    by (rule l1_complete_batch [OF a(1) i(2) b(4) a(2-4), of e ?seq]) (rule that, assumption+)
  let ?s' = "?a\<lparr>l1_tick := k', l1_l2_iface := Some i'\<rparr>" and ?t = "s\<lparr>internal_queue := ?q\<rparr>"
  have "l1_numbered ?a = l1_numbered ?t" by (simp add: l1_numbered_def accepted_def add_pending_def fun_eq_iff)
  note sent = batch_sent [OF f(4) [unfolded this] b(3,4)]
  let ?sent = "zip (map snd batch) ms"
  have ok': "sent_ok ?t = sent_ok s" by (simp add: sent_ok_def fun_eq_iff)
  have views: "request_view (l1_stamp e s op) = request_view op"
    by (simp add: request_view_def l1_stamp_def set_ts_def)
  have nums: "map (\<lambda>x. l1_seq_no (l2_seq_id (sent_l2 x))) ?sent =
      map (\<lambda>j. security_batch_size s * (chain_seq_no s + 1) + int j) [0..<length batch]" using sent(5) by simp
  have "l1_effect s [op] ?sent ?s'"
    unfolding l1_effect_def
  proof (intro conjI)
    show "l1_ok ?s'" using b(5) by (simp add: l1_ok_def accepted_def add_pending_def)
    show "sorted_wrt (<) (map (\<lambda>x. l1_seq_no (l2_seq_id (sent_l2 x))) ?sent)" unfolding nums by (rule sorted_numbers)
    show "\<forall>x \<in> set ?sent. security_batch_size s * (chain_seq_no s + 1) \<le> l1_seq_no (l2_seq_id (sent_l2 x)) \<and>
        l1_seq_no (l2_seq_id (sent_l2 x)) < security_batch_size s * (chain_seq_no ?s' + 1)"
    proof
      fix x assume "x \<in> set ?sent"
      then have "l1_seq_no (l2_seq_id (sent_l2 x)) \<in> set (map (\<lambda>x. l1_seq_no (l2_seq_id (sent_l2 x))) ?sent)"
        unfolding set_map by (rule imageI)
      then obtain j where "j < length batch" "l1_seq_no (l2_seq_id (sent_l2 x)) = security_batch_size s * (chain_seq_no s + 1) + int j"
        unfolding nums by auto
      then show "security_batch_size s * (chain_seq_no s + 1) \<le> l1_seq_no (l2_seq_id (sent_l2 x)) \<and>
          l1_seq_no (l2_seq_id (sent_l2 x)) < security_batch_size s * (chain_seq_no ?s' + 1)"
        using b(2) by (simp add: accepted_def add_pending_def algebra_simps)
    qed
    show "list_all (sent_ok s) ?sent" using sent(3) unfolding ok' .
    have "map request_view (take m ?q) @ map request_view (drop m ?q) = map request_view (internal_queue s @ [op])"
      unfolding map_append [symmetric] append_take_drop_id by (simp add: views)
    then show "map (client_view \<circ> sent_l2) (filter fst ?sent) @ map request_view (internal_queue ?s') = map request_view (internal_queue s @ [op])"
      using sent(4) by (simp add: accepted_def add_pending_def)
  qed (use i(1) f(2,3) sent(2) in \<open>simp_all add: accepted_def add_pending_def\<close>)
  with run f(1) that show thesis by simp
qed

definition l1_requests :: "env \<Rightarrow> l1_operation list \<Rightarrow> (l1_proxy, unit) cpp" where
  "l1_requests e ops = for_each ops (l1_process_op e)"

lemma l1_requests_effect:
  assumes "env_ok e" "l1_ok s" "role s = Singleton" "list_all (l1_op_ok (l1_replicas_of s)) ops" "l1_l2_iface s = Some i" "l2_ready i"
  shows "\<exists>s' sent. l1_requests e ops s = (Inr (), s') \<and> l1_effect s ops sent s'"
  using assms
proof (induction ops arbitrary: s i)
  case Nil
  then show ?case by (intro exI [of _ s] exI [of _ "[]"]) (simp add: l1_requests_def ret_apply l1_effect_def)
next
  case (Cons op ops)
  obtain s1 sent where s1: "l1_process_op e op s = (Inr (), s1)" "l1_effect s [op] sent s1"
    by (rule l1_request_effect [OF Cons.prems(1-3) _ Cons.prems(5,6), of op]) (use Cons.prems(4) in simp)
  obtain j where j: "l1_l2_iface s1 = Some j" "l2_ready j" "l1_ok s1" "role s1 = Singleton" "l1_replicas_of s1 = l1_replicas_of s"
    using s1(2) Cons.prems(3) by (auto simp: l1_effect_def)
  obtain s' sent' where s': "l1_requests e ops s1 = (Inr (), s')" "l1_effect s1 ops sent' s'"
    using Cons.IH [OF Cons.prems(1) j(3,4) _ j(1,2)] Cons.prems(4) j(5) by auto
  have "l1_requests e (op # ops) s = (Inr (), s')"
    using s1(1) s'(1) by (simp add: l1_requests_def for_each_Cons del: for_each.simps)
  with l1_effect_trans [OF s1(2) s'(2)] show ?case by auto
qed

section \<open>From the first to the second layer\<close>

text \<open>What the handler of a second-layer worker is called with, and the columns that have received it all.\<close>

definition request_of :: "l2_operation \<Rightarrow> l2_req" where
  "request_of m = (l2_seq_id m, l2_key m, l2_replica m, l2_value m)"

definition deliver :: "l2_iface \<Rightarrow> column_input list \<Rightarrow> column_input list" where
  "deliver i ws = map (\<lambda>(cl, w). w\<lparr>co_requests := map request_of (cl_sent (cl ! 0))\<rparr>) (zip (l2_clients i) ws)"

text \<open>A worker of the first layer that is its whole chain, with unused connections to columns of one worker each.\<close>

definition l1_front :: "l1_proxy \<Rightarrow> l2_iface \<Rightarrow> bool" where
  "l1_front s i \<longleftrightarrow>
     l1_ok s \<and> role s = Singleton \<and> l1_l2_iface s = Some i \<and> l2_ready i \<and> 0 \<le> chain_seq_no s \<and> internal_queue s = [] \<and>
     list_all (\<lambda>cl. length cl = 1 \<and> cl_sent (cl ! 0) = []) (l2_clients i)"

text \<open>The replicas and labels of a distribution file, and second-layer workers that have loaded it and have seen nothing yet.\<close>

definition label_of :: "distribution_info \<Rightarrow> string \<Rightarrow> int \<Rightarrow> string" where
  "label_of d k r = to_string (the (map_of (replica_to_label d) (k @ to_string r)))"

definition replica_of :: "distribution_info \<Rightarrow> string \<Rightarrow> int \<Rightarrow> bool" where
  "replica_of d k r \<longleftrightarrow> (case map_of (key_to_number_of_replicas d) k of None \<Rightarrow> False | Some n \<Rightarrow> 0 \<le> r \<and> r < n)"

definition second_layer :: "nat \<Rightarrow> nat \<Rightarrow> distribution_info \<Rightarrow> int \<Rightarrow> column_input list \<Rightarrow> bool" where
  "second_layer c x d a ws \<longleftrightarrow>
     (\<forall>j < length ws. front (co_worker (ws ! j)) (co_iface (ws ! j)) (\<lambda>_. []) \<and> l2_idx_no (co_worker (ws ! j)) = int j \<and>
        list_all (list_all (\<lambda>cl. cl_sent cl = [])) (l3_clients (co_iface (ws ! j))) \<and>
        l2_replicas_of (co_worker (ws ! j)) = key_to_number_of_replicas d \<and> l2_replica_to_label (co_worker (ws ! j)) = replica_to_label d \<and>
        list_all (\<lambda>n. n = - 1) (last_seen_seq (co_worker (ws ! j))) \<and> 0 \<le> a \<and> a < int (length (last_seen_seq (co_worker (ws ! j)))) \<and>
        c < length (l3_clients (co_iface (ws ! j))) \<and> x < length (l3_clients (co_iface (ws ! j)) ! c))"

lemma loaded_tables:
  assumes "tables_ok d" "l2_replicas_of w = key_to_number_of_replicas d" "l2_replica_to_label w = replica_to_label d"
  shows "known_replica w = replica_of d" "replica_label w = label_of d"
proof -
  show "replica_label w = label_of d" using assms(3) by (simp add: replica_label_def label_of_def fun_eq_iff)
  show "known_replica w = replica_of d"
  proof (intro ext)
    show "known_replica w k r = replica_of d k r" for k r
      using assms by (cases "map_of (key_to_number_of_replicas d) k") (auto simp: known_replica_def replica_of_def tables_ok_def)
  qed
qed

text \<open>Increasing numbers are all fresh.\<close>

lemma fresh_requests_all:
  assumes "sorted_wrt (<) (map (\<lambda>r. l1_seq_no (fst r)) rs)" "\<forall>r \<in> set rs. l1_idx (fst r) = a \<and> ls ! nat a < l1_seq_no (fst r)" "nat a < length ls"
  shows "fresh_requests ls rs = rs"
  using assms
proof (induction ls rs rule: fresh_requests.induct)
  case (2 ls q k rep v rs)
  then show ?case by (auto simp: not_le)
qed simp

text \<open>The answers of the store by key to some requests, if the others write to none of their keys.\<close>

lemma key_answers_agree:
  assumes "\<forall>(q, k, rep, v) \<in> set rs. a k = b k"
  shows "key_answers a rs = key_answers b rs"
  using assms
proof (induction a rs arbitrary: b rule: key_answers.induct)
  case (2 m q k rep v rs)
  have "\<forall>(q', k', rep', v') \<in> set rs. put_key k v m k' = put_key k v b k'" using 2(2) by (auto simp: put_key_def)
  then have "key_answers (put_key k v m) rs = key_answers (put_key k v b) rs" by (rule 2(1))
  moreover have "put_key k v m k = put_key k v b k" using 2(2) by (simp add: put_key_def)
  ultimately show ?case by simp
qed simp

lemma key_answers_filter:
  assumes "\<forall>x \<in> set xs. \<forall>y \<in> set xs. P x \<longrightarrow> \<not> P y \<longrightarrow> l2_key (f x) = l2_key (f y) \<longrightarrow> l2_value (f y) = []"
  shows "key_answers keys (map (\<lambda>x. request_of (f x)) (filter P xs)) =
         map snd (filter (\<lambda>(x, a). P x) (zip xs (key_answers keys (map (\<lambda>x. request_of (f x)) xs))))"
  using assms
proof (induction xs arbitrary: keys)
  case (Cons y xs)
  let ?keys = "put_key (l2_key (f y)) (l2_value (f y)) keys"
  have "key_answers keys (map (\<lambda>x. request_of (f x)) (filter P xs)) = key_answers ?keys (map (\<lambda>x. request_of (f x)) (filter P xs))" if "\<not> P y"
    using that Cons.prems by (intro key_answers_agree) (auto simp: request_of_def put_key_def)
  moreover have "key_answers ?keys (map (\<lambda>x. request_of (f x)) (filter P xs)) =
      map snd (filter (\<lambda>(x, a). P x) (zip xs (key_answers ?keys (map (\<lambda>x. request_of (f x)) xs))))"
    by (rule Cons.IH) (use Cons.prems in auto)
  ultimately show ?case by (cases "P y") (simp_all add: request_of_def)
qed simp

lemma zip_map_filter:
  "zip (map g (filter P xs)) (map snd (filter (\<lambda>(x, a). P x) (zip xs as))) =
     map (\<lambda>(x, a). (g x, a)) (filter (\<lambda>(x, a). P x) (zip xs as))" if "length as = length xs"
  using that
proof (induction xs arbitrary: as)
  case (Cons x xs)
  then show ?case by (cases as) auto
qed simp

lemma answers_at_filter:
  assumes "\<forall>x \<in> set xs. \<forall>y \<in> set xs. P x \<longrightarrow> \<not> P y \<longrightarrow> l2_key (f x) = l2_key (f y) \<longrightarrow> l2_value (f y) = []"
  shows "answers_at Q lab keys (map (\<lambda>x. request_of (f x)) (filter P xs)) =
    map snd (filter (\<lambda>(x, a). P x \<and> Q (lab (l2_key (f x)) (l2_replica (f x)))) (zip xs (key_answers keys (map (\<lambda>x. request_of (f x)) xs))))"
  unfolding answers_at_def key_answers_filter [OF assms]
  by (subst zip_map_filter) (simp_all add: filter_map comp_def request_of_def case_prod_beta conj_commute cong: filter_cong)

section \<open>The columns after a run\<close>

abbreviation sent_col :: "sent_op \<Rightarrow> nat" where
  "sent_col x \<equiv> fst (fst (snd x))"

lemma delivered_requests:
  assumes f: "l1_front s i" and eff: "l1_effect s ops sent t" and t: "l1_l2_iface t = Some i'" and j: "j < length ws" "length ws = length (l2_clients i)"
  shows "deliver i' ws ! j = (ws ! j)\<lparr>co_requests := map (\<lambda>x. request_of (sent_l2 x)) (filter (\<lambda>x. sent_col x = j) sent)\<rparr>"
    and "length (deliver i' ws) = length ws"
proof -
  have sa: "sent_after i (map snd sent) i'" using eff f t by (auto simp: l1_effect_def l1_front_def)
  have one: "length (l2_clients i ! c) = 1" "cl_sent (l2_clients i ! c ! 0) = []" if "c < length (l2_clients i)" for c
    using f that by (auto simp: l1_front_def list_all_length)
  have len: "length (l2_clients i') = length (l2_clients i)" by (rule sent_after_lengths(1) [OF sa])
  show "length (deliver i' ws) = length ws" using j len by (simp add: deliver_def)
  have col: "(fst (snd x) = (j, 0)) = (sent_col x = j)" if "x \<in> set sent" for x
  proof -
    have "fst (fst (snd x)) < length (l2_clients i) \<and> snd (fst (snd x)) < length (l2_clients i ! fst (fst (snd x)))"
      using sa that unfolding sent_after_def by (auto simp: case_prod_beta)
    with one(1) show ?thesis by (auto simp: prod_eq_iff)
  qed
  have "cl_sent (l2_clients i' ! j ! 0) = map snd (filter (\<lambda>x. fst x = (j, 0)) (map snd sent))"
    using sa one j unfolding sent_after_def by simp
  also have "\<dots> = map sent_l2 (filter (\<lambda>x. fst (snd x) = (j, 0)) sent)" by (simp add: filter_map comp_def)
  also have "\<dots> = map sent_l2 (filter (\<lambda>x. sent_col x = j) sent)" using col by (simp cong: filter_cong)
  finally show "deliver i' ws ! j = (ws ! j)\<lparr>co_requests := map (\<lambda>x. request_of (sent_l2 x)) (filter (\<lambda>x. sent_col x = j) sent)\<rparr>"
    using j len by (simp add: deliver_def comp_def)
qed

text \<open>A key that is written is sent to one column only.\<close>

lemma written_key_column:
  assumes f: "l1_front s i" and eff: "l1_effect s ops sent t" and ops: "list_all (\<lambda>op. l1_key op \<noteq> l2_dummy_key i) ops"
    and xy: "x \<in> set sent" "y \<in> set sent" "l2_key (sent_l2 x) = l2_key (sent_l2 y)" "l2_value (sent_l2 y) \<noteq> []"
  shows "sent_col x = sent_col y"
proof -
  obtain i' where sa: "sent_after i (map snd sent) i'" using eff f by (auto simp: l1_effect_def l1_front_def)
  have "sent_ok s y" using eff xy(2) by (auto simp: l1_effect_def list_all_iff)
  then have "fst y" using xy(4) by (auto simp: sent_ok_def)
  then have "client_view (sent_l2 y) \<in> set (map (client_view \<circ> sent_l2) (filter fst sent))" using xy(2) by simp
  moreover have "map (client_view \<circ> sent_l2) (filter fst sent) @ map request_view (internal_queue t) = map request_view ops"
    using eff f by (simp add: l1_effect_def l1_front_def)
  then have "set (map (client_view \<circ> sent_l2) (filter fst sent)) \<subseteq> set (map request_view ops)"
    by (metis Un_upper1 set_append)
  ultimately have "client_view (sent_l2 y) \<in> set (map request_view ops)" by blast
  then obtain op where "op \<in> set ops" "client_view (sent_l2 y) = request_view op" by auto
  then have nd: "l2_key (sent_l2 y) \<noteq> l2_dummy_key i" using ops by (auto simp: list_all_iff client_view_def request_view_def)
  have "int (sent_col z) = consistent_hash (l2_key (sent_l2 z)) (int (length (l2_clients i)))"
    if "z \<in> set sent" "l2_key (sent_l2 z) \<noteq> l2_dummy_key i" for z
    using sa that unfolding sent_after_def by (fastforce simp: case_prod_beta)
  with xy nd show ?thesis by (metis of_nat_eq_iff)
qed

lemma delivered_columns_ok:
  assumes f: "l1_front s i" and eff: "l1_effect s ops sent t" and t: "l1_l2_iface t = Some i'"
    and ops: "list_all (\<lambda>op. l1_key op \<noteq> l2_dummy_key i) ops"
    and tab: "tables_ok d" "l1_replicas_of s = key_to_number_of_replicas d"
    and l2: "second_layer c x d (l1_idx_no s) ws" "length ws = length (l2_clients i)"
  shows "columns_ok c x (replica_of d) (label_of d) (deliver i' ws)"
    and "j < length ws \<Longrightarrow> fresh_requests (last_seen_seq (co_worker (ws ! j))) (co_requests (deliver i' ws ! j)) =
      map (\<lambda>x. request_of (sent_l2 x)) (filter (\<lambda>x. sent_col x = j) sent)"
proof -
  note del = delivered_requests [OF f eff t _ l2(2)]
  have w: "front (co_worker (ws ! j)) (co_iface (ws ! j)) (\<lambda>_. [])" "l2_idx_no (co_worker (ws ! j)) = int j"
    "list_all (list_all (\<lambda>cl. cl_sent cl = [])) (l3_clients (co_iface (ws ! j)))"
    "l2_replicas_of (co_worker (ws ! j)) = key_to_number_of_replicas d" "l2_replica_to_label (co_worker (ws ! j)) = replica_to_label d"
    "list_all (\<lambda>n. n = - 1) (last_seen_seq (co_worker (ws ! j)))" "0 \<le> l1_idx_no s" "l1_idx_no s < int (length (last_seen_seq (co_worker (ws ! j))))"
    "c < length (l3_clients (co_iface (ws ! j)))" "x < length (l3_clients (co_iface (ws ! j)) ! c)" if "j < length ws" for j
    using l2(1) that by (simp_all add: second_layer_def)
  have sent: "sent_ok s y" "0 < l1_seq_no (l2_seq_id (sent_l2 y))" if "y \<in> set sent" for y
  proof -
    show "sent_ok s y" using eff that by (auto simp: l1_effect_def list_all_iff)
    have "0 < security_batch_size s * (chain_seq_no s + 1)" using f by (auto simp: l1_front_def l1_ok_def)
    then show "0 < l1_seq_no (l2_seq_id (sent_l2 y))" using eff that by (auto simp: l1_effect_def dest: bspec)
  qed
  show "fresh_requests (last_seen_seq (co_worker (ws ! j))) (co_requests (deliver i' ws ! j)) =
      map (\<lambda>x. request_of (sent_l2 x)) (filter (\<lambda>x. sent_col x = j) sent)" if j: "j < length ws"
  proof -
    let ?rs = "map (\<lambda>x. request_of (sent_l2 x)) (filter (\<lambda>x. sent_col x = j) sent)"
    have "sorted_wrt (<) (map (\<lambda>x. l1_seq_no (l2_seq_id (sent_l2 x))) sent)" using eff by (simp add: l1_effect_def)
    then have "sorted_wrt (<) (map (\<lambda>r. l1_seq_no (fst r)) ?rs)"
      by (simp add: sorted_wrt_map sorted_wrt_filter request_of_def comp_def)
    moreover have "nat (l1_idx_no s) < length (last_seen_seq (co_worker (ws ! j)))" using w(7,8) [OF j] by simp
    moreover from this have "last_seen_seq (co_worker (ws ! j)) ! nat (l1_idx_no s) = - 1" using w(6) [OF j] by (simp add: list_all_length)
    ultimately have "fresh_requests (last_seen_seq (co_worker (ws ! j))) ?rs = ?rs"
      using sent by (intro fresh_requests_all [of _ "l1_idx_no s"]) (fastforce simp: request_of_def sent_ok_def)+
    then show ?thesis using del(1) [OF j] by simp
  qed
  have ok: "column_ok (deliver i' ws ! j)" if j: "j < length ws" for j
  proof -
    have "request_ok (co_worker (ws ! j)) (request_of (sent_l2 y))" if "y \<in> set sent" for y
    proof -
      have "replica_of d (l2_key (sent_l2 y)) (l2_replica (sent_l2 y))"
        using sent(1) [OF that] tab(2) by (auto simp: sent_ok_def replica_in_def replica_of_def)
      then show ?thesis using sent(1) [OF that] w(7,8) [OF j] loaded_tables(1) [OF tab(1) w(4,5) [OF j]]
        by (auto simp: request_ok_def request_of_def sent_ok_def)
    qed
    then show ?thesis using w(1,3) [OF j] del(1) [OF j] by (auto simp: column_ok_def list_all_iff)
  qed
  have apart: "j = j'" if "j < length ws" "j' < length ws" "(q, k, rep, v) \<in> set (co_requests (deliver i' ws ! j))" "v \<noteq> []"
      "(q', k, rep', v') \<in> set (co_requests (deliver i' ws ! j'))" for j j' q k rep v q' rep' v'
  proof -
    note h = that
    obtain y where y: "y \<in> set sent" "sent_col y = j" "request_of (sent_l2 y) = (q, k, rep, v)"
      using h(3) unfolding del(1) [OF h(1)] by auto
    obtain z where z: "z \<in> set sent" "sent_col z = j'" "request_of (sent_l2 z) = (q', k, rep', v')"
      using h(5) unfolding del(1) [OF h(2)] by auto
    have "sent_col z = sent_col y" using written_key_column [OF f eff ops z(1) y(1)] y(3) z(3) h(4) by (simp add: request_of_def)
    with y(2) z(2) show ?thesis by simp
  qed
  show "columns_ok c x (replica_of d) (label_of d) (deliver i' ws)"
    unfolding columns_ok_def
  proof (intro conjI allI impI ballI)
    fix j assume "j < length (deliver i' ws)"
    then have j: "j < length ws" by (simp add: deliver_def)
    show "column_ok (deliver i' ws ! j)" by (rule ok [OF j])
    show "l2_idx_no (co_worker (deliver i' ws ! j)) = int j" "known_replica (co_worker (deliver i' ws ! j)) = replica_of d"
      "replica_label (co_worker (deliver i' ws ! j)) = label_of d" "c < length (l3_clients (co_iface (deliver i' ws ! j)))"
      "x < length (l3_clients (co_iface (deliver i' ws ! j)) ! c)"
      using w [OF j] loaded_tables [OF tab(1) w(4,5) [OF j]] del(1) [OF j] by simp_all
  next
    fix j j' r assume h: "j < length (deliver i' ws)" "j' < length (deliver i' ws)" "j \<noteq> j'" "r \<in> set (co_requests (deliver i' ws ! j))"
    have jj: "j < length ws" "j' < length ws" using h(1,2) by (simp_all add: deliver_def)
    obtain q k rep v where r: "r = (q, k, rep, v)" by (cases r)
    show "case r of (q, k, rep, v) \<Rightarrow> v \<noteq> [] \<longrightarrow> k \<notin> (\<lambda>(q, k, rep, v). k) ` set (co_requests (deliver i' ws ! j'))"
      using apart [OF jj, of q k rep v] h(3,4) by (auto simp: r)
  qed
qed

section \<open>Properties\<close>

text \<open>
  C3. The three layers refine a store by key: a worker of the first layer, columns of the second and a worker of the third, each chain
  of one replica, with the tables of one distribution file, serve client requests. The first layer accepts all of them; what it sends consists of the
  requests of the clients in order, apart from those that still wait in its queue, and of fake requests without a value. Let a store by key
  execute the operations in the order in which the first layer numbered them. Then, whatever the draws, the batches, and the
  interleaving of the third layer's threads, its storage server and its connections, each column accepts everything that was sent to it, and
  the answers to its operations at the L3 worker are a prefix of the answers of that store to the operations of this column
  on labels of this worker, and all of them once everything is accepted and nothing is under way.
\<close>

theorem pipeline_refines_key_store:
  assumes e: "env_ok e" and f: "l1_front s i"
    and ops: "list_all (\<lambda>op. l1_op_ok (l1_replicas_of s) op \<and> l1_key op \<noteq> l2_dummy_key i) ops"
    and tab: "tables_ok d" "l1_replicas_of s = key_to_number_of_replicas d"
    and l2: "second_layer c x d (l1_idx_no s) ws" "length ws = length (l2_clients i)"
    and lab: "labels_apart (replica_of d) (label_of d)" "\<forall>k r. replica_of d k r \<longrightarrow> m0 (label_of d k r) = keys k"
    and l3: "l3_start os m0 u"
      "fed_run e os api (column_feed e c x (deliver (the (l1_l2_iface (snd (l1_requests e ops s)))) ws)) u v"
  shows "\<exists>s' i' sent. l1_requests e ops s = (Inr (), s') \<and> l1_l2_iface s' = Some i' \<and> sent_after i (map snd sent) i' \<and>
    map (client_view \<circ> sent_l2) (filter fst sent) @ map request_view (internal_queue s') = map request_view ops \<and>
    list_all (sent_ok s) sent \<and> sorted_wrt (<) (map (\<lambda>y. l1_seq_no (l2_seq_id (sent_l2 y))) sent) \<and>
    (\<forall>j < length ws. fst (l2_requests e (co_requests (deliver i' ws ! j)) (co_worker (ws ! j))) = Inr () \<and>
      (let as = map l3_plaintext (filter (\<lambda>m. l2_idx (l3_seq_id m) = int j) (sy_answered v));
           expected = map snd (filter (\<lambda>(y, a). sent_col y = j \<and>
             l3_route (co_iface (ws ! j)) (label_of d (l2_key (sent_l2 y)) (l2_replica (sent_l2 y))) = (c, x))
             (zip sent (key_answers keys (map (\<lambda>y. request_of (sent_l2 y)) sent))))
       in prefix as expected \<and>
          (pipeline v = [] \<and> accepted_from (int j) v = column_feed e c x (deliver i' ws) (int j) \<longrightarrow> as = expected)))"
proof -
  have ops': "list_all (l1_op_ok (l1_replicas_of s)) ops" "list_all (\<lambda>op. l1_key op \<noteq> l2_dummy_key i) ops"
    using ops by (simp_all add: list_all_iff)
  obtain s' sent where s': "l1_requests e ops s = (Inr (), s')" and eff: "l1_effect s ops sent s'"
    using l1_requests_effect [OF e _ _ ops'(1), of i] f by (auto simp: l1_front_def)
  obtain i' where i': "l1_l2_iface s' = Some i'" "sent_after i (map snd sent) i'"
    using eff f by (auto simp: l1_effect_def l1_front_def)
  note del = delivered_requests [OF f eff i'(1) _ l2(2)] and col = delivered_columns_ok [OF f eff i'(1) ops'(2) tab l2]
  have run: "fed_run e os api (column_feed e c x (deliver i' ws)) u v" using l3(2) s' i'(1) by simp
  have "fst (l2_requests e (co_requests (deliver i' ws ! j)) (co_worker (ws ! j))) = Inr () \<and>
      (let as = map l3_plaintext (filter (\<lambda>m. l2_idx (l3_seq_id m) = int j) (sy_answered v));
           expected = map snd (filter (\<lambda>(y, a). sent_col y = j \<and>
             l3_route (co_iface (ws ! j)) (label_of d (l2_key (sent_l2 y)) (l2_replica (sent_l2 y))) = (c, x))
             (zip sent (key_answers keys (map (\<lambda>y. request_of (sent_l2 y)) sent))))
       in prefix as expected \<and>
          (pipeline v = [] \<and> accepted_from (int j) v = column_feed e c x (deliver i' ws) (int j) \<longrightarrow> as = expected))"
    if j: "j < length ws" for j
  proof -
    have "\<forall>y \<in> set sent. \<forall>z \<in> set sent. sent_col y = j \<longrightarrow> \<not> sent_col z = j \<longrightarrow>
        l2_key (sent_l2 y) = l2_key (sent_l2 z) \<longrightarrow> l2_value (sent_l2 z) = []"
      using written_key_column [OF f eff ops'(2)] by metis
    note at = answers_at_filter [OF this, of "\<lambda>l. l3_route (co_iface (ws ! j)) l = (c, x)" "label_of d" keys]
    have "j < length (deliver i' ws)" using del(2) [OF j] j by simp
    from layers_answers [OF col(1) lab(1) e lab(2) l3(1) run this] del(1) [OF j] col(2) [OF j] at
    show ?thesis by (simp add: Let_def)
  qed
  moreover have "map (client_view \<circ> sent_l2) (filter fst sent) @ map request_view (internal_queue s') = map request_view ops"
    "list_all (sent_ok s) sent" "sorted_wrt (<) (map (\<lambda>y. l1_seq_no (l2_seq_id (sent_l2 y))) sent)"
    using eff f by (simp_all add: l1_effect_def l1_front_def)
  ultimately show ?thesis using s' i' by blast
qed

text \<open>A write through all layers: batches of one operation, one key with one replica, and the run of the third layer above.\<close>

definition example_tables :: distribution_info where
  "example_tables = distribution_info_new\<lparr>num_keys := 1, dummy_key := ''d'', key_to_number_of_replicas := [(''a'', 1)],
     fake_distribution := distribution_new [''a''] [1], real_distribution := distribution_new [''a''] [1], replica_to_label := [(''a0'', 7)]\<rparr>"

definition example_first :: l1_proxy where
  "example_first = l1_proxy_new\<lparr>security_batch_size := 1, disable_all_false := True, l1_delta := 1 / 2, l1_replicas_of := [(''a'', 1)],
     l1_real := distribution_new [''a''] [1], l1_fake := distribution_new [''a''] [1], l1_l2_iface := Some example_l2\<rparr>"

definition example_put :: l1_operation where
  "example_put = \<lparr>l1_seq_id = sequence_id_new, l1_key = ''a'', l1_value = ''new''\<rparr>"

definition example_number :: sequence_id where
  "example_number = sequence_id_new\<lparr>l1_seq_no := 1\<rparr>"

lemmas example_first_defs = example_first_def l1_proxy_new_def chain_module.extend_def l1_proxy.fields_def chain_module_new_def example_l2_def

lemma example_l1_run:
  obtains s' where "l1_requests example_env [example_put] example_first = (Inr (), s')" "internal_queue s' = []"
    "l1_l2_iface s' = Some (example_l2\<lparr>l2_clients := [[\<lparr>cl_host = ''c'', cl_port = 9090,
       cl_sent = [\<lparr>l2_seq_id = example_number, l2_key = ''a'', l2_replica = 0, l2_value = ''new''\<rparr>]\<rparr>]]\<rparr>)"
proof -
  let ?op = "\<lparr>l2_seq_id = sequence_id_new, l2_key = ''a'', l2_replica = 0, l2_value = ''new''\<rparr>"
  let ?m = "\<lparr>l2_seq_id = example_number, l2_key = ''a'', l2_replica = 0, l2_value = ''new''\<rparr>"
  define s1 where "s1 = example_first\<lparr>internal_queue := [example_put]\<rparr>"
  have batch: "create_security_batch example_env s1 = (Inr [(?op, True)], s1\<lparr>internal_queue := [], l1_tick := 2\<rparr>)"
    by (simp add: create_security_batch_def toss_coins_def is_true_distribution_def batch_operation_def cpp_simps l1_next_tick_def prob_def
        s1_def example_put_def example_env_def example_first_defs rand_uint32_def l2_operation_new_def sequence_id_new_def)
  let ?seq = "sequence_id_new\<lparr>client_id := - 1, client_seq_no := - 1, server_seq_no := 1\<rparr>"
  let ?t = "s1\<lparr>internal_queue := [], l1_tick := 2, pending_count := [(1, 1)]\<rparr>"
  let ?a = "accepted ?seq (l2_serialize ?op) ?t"
  have "list_all l2_op_ok [?op]" by (simp add: l2_op_ok_def sequence_id_new_def int64_range_def int32_range_def)
  from read_batch_serialize [OF this, of "[]"] have rd: "read_batch (l2_serialize ?op) 0 = Inr [wire_op ?op]" by simp
  have w: "wire_op ?op = ?op" by (simp add: wire_op_def wire_seq_def sequence_id_new_def)
  define s' where "s' = ?a\<lparr>l1_tick := 3, l1_l2_iface := Some (example_l2\<lparr>l2_clients := grid_call 0 0 ?m (l2_clients example_l2)\<rparr>)\<rparr>"
  have "l1_forward example_env ?seq (0, ?op) ?a = (Inr (), s')"
    by (simp add: l1_forward_def cpp_simps l1_send_l2_def l1_next_tick_def l2_send_op_def l2_column_def l2_worker_def one_server Let_def
        s'_def s1_def accepted_def add_pending_def example_first_defs example_number_def sequence_id_new_def)
  then have "l1_replication_complete example_env ?seq (l2_serialize ?op) ?a = (Inr (), s')"
    using rd w by (simp add: l1_replication_complete_def cpp_simps s1_def accepted_def add_pending_def example_first_defs)
  moreover have "l1_process_op example_env example_put example_first = l1_replication_complete example_env ?seq (l2_serialize ?op) ?a"
  proof -
    have "l1_process_op example_env example_put example_first = chain_request (l1_app example_env)
        (sequence_id_new\<lparr>client_id := - 1, client_seq_no := - 1, server_seq_no := - 1\<rparr>) (l2_serialize ?op) (s1\<lparr>internal_queue := [], l1_tick := 2\<rparr>)"
      using batch by (simp add: l1_process_op_def cpp_simps s1_def example_first_defs is_head_def)
    then show ?thesis unfolding chain_request_cases
      by (simp add: in_order_def stamped_def is_head_def is_tail_def l1_app_def l1_run_command_def modify_apply s1_def
          tab_insert_def tab_put_def example_first_defs)
  qed
  ultimately have "l1_requests example_env [example_put] example_first = (Inr (), s')"
    by (simp add: l1_requests_def for_each_Cons ret_apply del: for_each.simps(2))
  then show thesis
    by (rule that) (simp_all add: s'_def s1_def accepted_def add_pending_def example_l2_def grid_call_def)
qed

lemma example_layers:
  "l1_front example_first example_l2" "tables_ok example_tables" "second_layer 0 0 example_tables 0 [example_column]"
  "labels_apart (replica_of example_tables) (label_of example_tables)"
proof -
  have "l1_ok example_first" by (auto simp: l1_ok_def samples_ok_def example_first_defs distribution_new_def)
  then show "l1_front example_first example_l2" by (simp add: l1_front_def example_first_defs l2_ready_def)
  have zero: "to_string r = ''0''" if "0 \<le> r" "r < 1" for r :: int
  proof -
    have "r = 0" using that by linarith
    then show ?thesis using example_digits(1) by simp
  qed
  show "tables_ok example_tables"
    by (auto simp: zero tables_ok_def example_tables_def distribution_info_ok_def dist_ok_def distribution_new_def table_ok_def split: if_splits)
  have "l2_idx_no (co_worker example_column) = 0" "l2_replicas_of (co_worker example_column) = [(''a'', 1)]"
    "l2_replica_to_label (co_worker example_column) = [(''a0'', 7)]" "last_seen_seq (co_worker example_column) = [- 1]"
    by (simp_all add: example_column_def example_l2p_defs)
  moreover have "front (co_worker example_column) L2_Proxy.example_l3 (\<lambda>_. [])" "co_iface example_column = L2_Proxy.example_l3"
    using example_column_ok(1) by (simp_all add: columns_ok_def column_ok_def example_column_def)
  ultimately show "second_layer 0 0 example_tables 0 [example_column]"
    by (simp add: second_layer_def example_tables_def L2_Proxy.example_l3_def)
  show "labels_apart (replica_of example_tables) (label_of example_tables)"
    by (auto simp: labels_apart_def replica_of_def example_tables_def split: if_splits)
qed

theorem pipeline_refines_key_store_witness:
  "\<exists>i' v. l1_l2_iface (snd (l1_requests example_env [example_put] example_first)) = Some i' \<and>
     fed_run example_env example_openssl example_api (column_feed example_env 0 0 (deliver i' [example_column])) example_system v \<and>
     map l3_plaintext (sy_answered v) = [''new'']"
proof -
  let ?q = "example_stamp example_number" and ?m = "\<lparr>l2_seq_id = example_number, l2_key = ''a'', l2_replica = 0, l2_value = ''new''\<rparr>"
  define i' where "i' = example_l2\<lparr>l2_clients := [[\<lparr>cl_host = ''c'', cl_port = 9090, cl_sent = [?m]\<rparr>]]\<rparr>"
  obtain s' where s': "l1_requests example_env [example_put] example_first = (Inr (), s')" "internal_queue s' = []" "l1_l2_iface s' = Some i'"
    unfolding i'_def by (rule example_l1_run)
  let ?cols = "deliver i' [example_column]" and ?feeds = "column_feed example_env 0 0 (deliver i' [example_column])"
  have cols: "?cols = [example_column\<lparr>co_requests := [(example_number, ''a'', 0, ''new'')]\<rparr>]"
    by (simp add: deliver_def i'_def request_of_def)
  obtain w where "l2_async_operation example_env example_number ''a'' 0 ''new'' (co_worker example_column) = (Inr (), w)"
    "sent_to_l3 w 0 0 = [example_op ?q]"
    by (rule example_column_request [of example_number]) (simp_all add: example_number_def sequence_id_new_def int64_range_def)
  then have feeds: "?feeds 0 = [example_op ?q]"
    by (simp add: column_feed_def cols l2_requests_Cons l2_requests_Nil)
  have q: "l2_idx ?q = 0" "0 \<le> l2_seq_no ?q" "client_id ?q = 0" by (simp_all add: example_stamp_def example_number_def sequence_id_new_def)
  obtain v where run: "fed_run example_env example_openssl example_api ?feeds example_system v"
    and v: "sy_answered v = [(example_op ?q)\<lparr>l3_plaintext := ''new''\<rparr>]" "pipeline v = []" "accepted_from 0 v = ?feeds 0"
    by (rule example_fed_run [where feeds = ?feeds, OF q feeds])
  have ops: "list_all (\<lambda>op. l1_op_ok (l1_replicas_of example_first) op \<and> l1_key op \<noteq> l2_dummy_key example_l2) [example_put]"
    by (simp add: l1_op_ok_def example_put_def example_first_defs sequence_id_new_def int64_range_def)
  have t: "l1_replicas_of example_first = key_to_number_of_replicas example_tables" "second_layer 0 0 example_tables (l1_idx_no example_first) [example_column]"
    "length [example_column] = length (l2_clients example_l2)"
    using example_layers(3) by (simp_all add: example_first_defs example_tables_def)
  have run': "fed_run example_env example_openssl example_api
      (column_feed example_env 0 0 (deliver (the (l1_l2_iface (snd (l1_requests example_env [example_put] example_first)))) [example_column])) example_system v"
    using run s' by simp
  from pipeline_refines_key_store [OF example_env_ok example_layers(1) ops example_layers(2) t example_layers(4) _ example_system_start run', of "\<lambda>_. ''old''"]
  obtain sent where sent: "sent_after example_l2 (map snd sent) i'"
    "map (client_view \<circ> sent_l2) (filter fst sent) = map request_view [example_put]"
    and as: "map l3_plaintext (filter (\<lambda>m. l2_idx (l3_seq_id m) = 0) (sy_answered v)) =
      map snd (filter (\<lambda>(y, a). sent_col y = 0 \<and>
             l3_route (co_iface example_column) (label_of example_tables (l2_key (sent_l2 y)) (l2_replica (sent_l2 y))) = (0, 0))
             (zip sent (key_answers (\<lambda>_. ''old'') (map (\<lambda>y. request_of (sent_l2 y)) sent))))"
    using s' v(2,3) by (auto simp: Let_def)
  have "(fst x = (0, 0)) = True" if "x \<in> set (map snd sent)" for x
    using sent(1) that unfolding sent_after_def by (fastforce simp: example_l2_def case_prod_beta prod_eq_iff)
  then have "filter (\<lambda>x. fst x = (0, 0)) (map snd sent) = map snd sent" by (simp add: filter_id_conv)
  then have "map sent_l2 sent = [?m]" using sent(1) by (auto simp: sent_after_def example_l2_def i'_def)
  moreover have "sent_col y = 0" if "y \<in> set sent" for y
    using sent(1) that unfolding sent_after_def by (fastforce simp: example_l2_def case_prod_beta)
  ultimately have "map l3_plaintext (filter (\<lambda>m. l2_idx (l3_seq_id m) = 0) (sy_answered v)) = [''new'']"
    unfolding as by (auto simp: map_eq_Cons_conv request_of_def put_key_def example_column_def example_route)
  with s' run v(1) q(1) show ?thesis by (intro exI [of _ i'] exI [of _ v]) (simp add: example_op_def l3_op_of_def)
qed

end
