(* ===== verification/Enc_Proxy.thy ===== *)
theory Enc_Proxy
  imports L3_Proxy L1_Proxy
begin

text \<open>
  proxy/src/enc_proxy.h and enc_proxy.cpp: the baseline that only encrypts. A read goes to the storage at once, a write waits in
  \<^verbatim>\<open>internal_queue_\<close> until there are enough writes for a batch, which the encryption thread encrypts and sends; the decryption thread decrypts what was
  read and queues the answers. Handler calls, storage callbacks and turns of the thread loops are steps, as in L3\_Proxy.

  The member \<^verbatim>\<open>dedup\<close> of an operation is neither set nor read here; it is False. Two engines are copied for the threads, the
  third one (made in \<^verbatim>\<open>init_proxy\<close>) is not used.
\<close>

section \<open>State\<close>

record 'k enc_proxy =
  ep_instance_name :: string
  ep_idx :: int
  ep_engine :: "'k encryption_engine"
  ep_encrypt_engine :: "'k encryption_engine option"
  ep_decrypt_engine :: "'k encryption_engine option"
  ep_finished :: bool
  ep_storage :: "redis_interface option"
  ep_storage2 :: "redis_interface option"
  ep_encrypt_queue :: "crypto_op_batch list"
  ep_decrypt_queue :: "crypto_op_batch list"
  ep_internal_queue :: "l3_operation list"
  ep_clients :: client_map
  ep_respond_queue :: "client_response work_queue"
  ep_storage_batch_size :: int
  ep_encryption_enabled :: bool
  ep_resp_delivery :: bool
  ep_kv_interaction :: bool
  ep_stats :: bool
  ep_tick :: nat

definition enc_proxy_new :: "'k openssl \<Rightarrow> 'k enc_proxy outcome" where
  "enc_proxy_new os =
     bind_out (encryption_engine_new os) (\<lambda>g.
       Inr \<lparr>ep_instance_name = [], ep_idx = 0, ep_engine = g, ep_encrypt_engine = None, ep_decrypt_engine = None,
            ep_finished = False, ep_storage = None, ep_storage2 = None, ep_encrypt_queue = [], ep_decrypt_queue = [],
            ep_internal_queue = [], ep_clients = [], ep_respond_queue = wq_new, ep_storage_batch_size = 0,
            ep_encryption_enabled = True, ep_resp_delivery = True, ep_kv_interaction = True, ep_stats = False, ep_tick = 0\<rparr>)"

section \<open>Callbacks\<close>

definition ep_get_cb :: "l3_operation list \<Rightarrow> string list \<Rightarrow> ('k enc_proxy, unit) cpp" where
  "ep_get_cb ops vals =
     bnd (lift_out (map_out (\<lambda>i. bind_out (vec_at vals (int i)) (\<lambda>v.
                                Inr \<lparr>co_l3_op = ops ! i, co_kv_response = v\<rparr>)) [0..<length ops])) (\<lambda>batch.
       modify (\<lambda>s. s\<lparr>ep_decrypt_queue := ep_decrypt_queue s @ [batch]\<rparr>))"

definition ep_put_cb :: "l3_operation list \<Rightarrow> ('k enc_proxy, unit) cpp" where
  "ep_put_cb ops =
     for_each ops (\<lambda>op. modify (\<lambda>s. s\<lparr>ep_respond_queue :=
        wq_push \<lparr>cr_seq_id = l3_seq_id op, cr_op_code = OP_PUT, cr_result = []\<rparr> (ep_respond_queue s)\<rparr>))"

section \<open>Operations\<close>

definition ep_on_storage :: "(redis_interface, unit) cpp \<Rightarrow> ('k enc_proxy, unit) cpp" where
  "ep_on_storage m s =
     (case ep_storage s of
        None \<Rightarrow> (Inl (Undefined_behaviour ''null pointer''), s)
      | Some i \<Rightarrow> (let (r, i') = m i in (r, s\<lparr>ep_storage := Some i'\<rparr>)))"

definition ep_on_storage2 :: "(redis_interface, unit) cpp \<Rightarrow> ('k enc_proxy, unit) cpp" where
  "ep_on_storage2 m s =
     (case ep_storage2 s of
        None \<Rightarrow> (Inl (Undefined_behaviour ''null pointer''), s)
      | Some i \<Rightarrow> (let (r, i') = m i in (r, s\<lparr>ep_storage2 := Some i'\<rparr>)))"

definition ep_init_proxy ::
  "env \<Rightarrow> 'k openssl \<Rightarrow> host list \<Rightarrow> string \<Rightarrow> int \<Rightarrow> client_map \<Rightarrow> int \<Rightarrow> ('k enc_proxy, unit) cpp" where
  "ep_init_proxy e os hs name local_idx clients batch_size =
     seqM (modify (\<lambda>s. s\<lparr>ep_instance_name := name\<rparr>))
       (case get_host hs name of
          None \<Rightarrow> throw (Runtime_error (''Unkown instance name: '' @ name))
        | Some this \<Rightarrow>
            seqM (modify (\<lambda>s. s\<lparr>ep_idx := the (get_base_idx hs name) + local_idx, ep_clients := clients,
                    ep_storage_batch_size := batch_size, ep_encrypt_queue := [], ep_decrypt_queue := [],
                    ep_respond_queue := wq_new\<rparr>))
            (bnd (lift_out (encryption_engine_new os)) (\<lambda>_.
             bnd (gets ep_kv_interaction) (\<lambda>kv_inter.
              if \<not> kv_inter then throw (Logic_error ''dummy KV Not implemented'')
              else
                bnd (lift_out (vec_at (get_hosts_by_type hs HOST_TYPE_KV) (get_host_idx hs HOST_TYPE_L1 (hostname this)))) (\<lambda>kv.
                bnd (lift_out (redis_interface_new (env_up e) (hostname kv) (port kv) batch_size)) (\<lambda>i1.
                seqM (modify (\<lambda>s. s\<lparr>ep_storage := Some i1\<rparr>))
                (bnd (lift_out (redis_interface_new (env_up e) (hostname kv) (port kv) batch_size)) (\<lambda>i2.
                seqM (modify (\<lambda>s. s\<lparr>ep_storage2 := Some i2, ep_finished := False\<rparr>))
                (bnd (gets ep_engine) (\<lambda>g.
                 bnd (lift_out (encryption_engine_copy os g)) (\<lambda>g1.
                 bnd (lift_out (encryption_engine_copy os g)) (\<lambda>g2.
                  modify (\<lambda>s. s\<lparr>ep_encrypt_engine := Some g1, ep_decrypt_engine := Some g2\<rparr>)))))))))))))"

definition ep_not_implemented :: "('k enc_proxy, 'r) cpp" where
  "ep_not_implemented = throw (Logic_error ''Not implemented'')"

text \<open>The size of the queue is compared with the batch size as an unsigned 64-bit number.\<close>

definition ep_process_op :: "l1_operation \<Rightarrow> ('k enc_proxy, unit) cpp" where
  "ep_process_op op =
     (if l1_value op \<noteq> [] then
        seqM (modify (\<lambda>s. s\<lparr>ep_internal_queue := ep_internal_queue s @
                [\<lparr>l3_seq_id = l1_seq_id op, l3_label = l1_key op, l3_value = l1_value op, l3_plaintext = [], l3_is_read = False,
                  l3_dedup = False\<rparr>]\<rparr>))
          (modify (\<lambda>s.
             if int (length (ep_internal_queue s)) \<ge> ep_storage_batch_size s mod 2 ^ 64
             then s\<lparr>ep_encrypt_queue := ep_encrypt_queue s @
                      [map (\<lambda>op. \<lparr>co_l3_op = op, co_kv_response = []\<rparr>) (ep_internal_queue s)],
                    ep_internal_queue := []\<rparr>
             else s))
      else
        ep_on_storage (ri_async_get (l1_key op)
          \<lparr>l3_seq_id = l1_seq_id op, l3_label = l1_key op, l3_value = [], l3_plaintext = [], l3_is_read = True,
           l3_dedup = False\<rparr>))"

definition ep_async_get :: "sequence_id \<Rightarrow> int \<Rightarrow> string \<Rightarrow> ('k enc_proxy, unit) cpp" where
  "ep_async_get seq queue_id k = ep_process_op \<lparr>l1_seq_id = seq, l1_key = k, l1_value = []\<rparr>"

definition ep_async_put :: "sequence_id \<Rightarrow> int \<Rightarrow> string \<Rightarrow> string \<Rightarrow> ('k enc_proxy, unit) cpp" where
  "ep_async_put seq queue_id k v = ep_process_op \<lparr>l1_seq_id = seq, l1_key = k, l1_value = v\<rparr>"

definition ep_async_get_batch :: "sequence_id \<Rightarrow> int \<Rightarrow> string list \<Rightarrow> ('k enc_proxy, unit) cpp" where
  "ep_async_get_batch seq queue_id ks = for_each ks (ep_async_get seq queue_id)"

definition ep_async_put_batch :: "sequence_id \<Rightarrow> int \<Rightarrow> string list \<Rightarrow> string list \<Rightarrow> ('k enc_proxy, unit) cpp" where
  "ep_async_put_batch seq queue_id ks vs =
     for_each [0..<length ks] (\<lambda>i. bnd (lift_out (vec_at vs (int i))) (\<lambda>v. ep_async_put seq queue_id (ks ! i) v))"

definition ep_next_tick :: "('k enc_proxy, nat) cpp" where
  "ep_next_tick s = (Inr (ep_tick s), s\<lparr>ep_tick := ep_tick s + 1\<rparr>)"

definition ep_async_get_any :: "env \<Rightarrow> sequence_id \<Rightarrow> string \<Rightarrow> ('k enc_proxy, unit) cpp" where
  "ep_async_get_any e seq k = bnd ep_next_tick (\<lambda>t. ep_async_get seq (queue_draw e t) k)"

definition ep_async_put_any :: "env \<Rightarrow> sequence_id \<Rightarrow> string \<Rightarrow> string \<Rightarrow> ('k enc_proxy, unit) cpp" where
  "ep_async_put_any e seq k v = bnd ep_next_tick (\<lambda>t. ep_async_put seq (queue_draw e t) k v)"

definition ep_async_get_batch_any :: "env \<Rightarrow> sequence_id \<Rightarrow> string list \<Rightarrow> ('k enc_proxy, unit) cpp" where
  "ep_async_get_batch_any e seq ks = bnd ep_next_tick (\<lambda>t. ep_async_get_batch seq (queue_draw e t) ks)"

definition ep_async_put_batch_any :: "env \<Rightarrow> sequence_id \<Rightarrow> string list \<Rightarrow> string list \<Rightarrow> ('k enc_proxy, unit) cpp" where
  "ep_async_put_batch_any e seq ks vs = bnd ep_next_tick (\<lambda>t. ep_async_put_batch seq (queue_draw e t) ks vs)"

definition ep_flush :: "('k enc_proxy, unit) cpp" where
  "ep_flush s = (if ep_storage s = None then (Inr (), s) else ep_on_storage ri_flush s)"

definition ep_close :: "('k enc_proxy, unit) cpp" where
  "ep_close = ret ()"

section \<open>Threads\<close>

definition ep_encrypt_op :: "'k openssl \<Rightarrow> crypto_operation \<Rightarrow> ('k enc_proxy, unit) cpp" where
  "ep_encrypt_op os co =
     (let op = co_l3_op co in
      bnd (gets (\<lambda>s. (ep_encryption_enabled s, ep_encrypt_engine s))) (\<lambda>(en, eng).
      bnd (if \<not> en then ret (l3_value op)
           else case eng of None \<Rightarrow> throw (Undefined_behaviour ''null pointer'') | Some g \<Rightarrow> lift_out (ee_encrypt os g (l3_value op)))
        (\<lambda>writeback. ep_on_storage2 (ri_async_put (l3_label op) writeback op))))"

definition ep_encrypt_step :: "'k openssl \<Rightarrow> 'k enc_proxy \<Rightarrow> (unit outcome \<times> 'k enc_proxy) option" where
  "ep_encrypt_step os s =
     (case ep_encrypt_queue s of
        [] \<Rightarrow> None
      | batch # rest \<Rightarrow>
          (let s' = s\<lparr>ep_encrypt_queue := rest\<rparr> in
           if ep_finished s then Some (Inr (), s')
           else Some (seqM (for_each batch (ep_encrypt_op os)) (ep_on_storage2 ri_flush) s')))"

definition ep_decrypt_op :: "'k openssl \<Rightarrow> crypto_operation \<Rightarrow> ('k enc_proxy, unit) cpp" where
  "ep_decrypt_op os co =
     bnd (gets (\<lambda>s. (ep_encryption_enabled s, ep_decrypt_engine s))) (\<lambda>(en, eng).
     bnd (if \<not> en then ret (co_kv_response co)
          else case eng of None \<Rightarrow> throw (Undefined_behaviour ''null pointer'') | Some g \<Rightarrow> lift_out (ee_decrypt os g (co_kv_response co)))
       (\<lambda>plaintext. modify (\<lambda>s. s\<lparr>ep_respond_queue :=
          wq_push \<lparr>cr_seq_id = l3_seq_id (co_l3_op co), cr_op_code = OP_GET, cr_result = plaintext\<rparr> (ep_respond_queue s)\<rparr>)))"

definition ep_decrypt_step :: "'k openssl \<Rightarrow> 'k enc_proxy \<Rightarrow> (unit outcome \<times> 'k enc_proxy) option" where
  "ep_decrypt_step os s =
     (case ep_decrypt_queue s of
        [] \<Rightarrow> None
      | batch # rest \<Rightarrow>
          (let s' = s\<lparr>ep_decrypt_queue := rest\<rparr> in
           if ep_finished s then Some (Inr (), s') else Some (for_each batch (ep_decrypt_op os) s')))"

definition ep_responder_step :: "env \<Rightarrow> 'k enc_proxy \<Rightarrow> (unit outcome \<times> 'k enc_proxy) option" where
  "ep_responder_step e s =
     (case wq_pop (ep_respond_queue s) of
        None \<Rightarrow> None
      | Some (resp, q) \<Rightarrow>
          (let sid = (if ep_stats s
                      then set_diag (diag (cr_seq_id resp) @ to_string (env_now e (ep_tick s) - ts (cr_seq_id resp)) @ '','')
                             (cr_seq_id resp)
                      else cr_seq_id resp)
           in Some (Inr (), s\<lparr>ep_respond_queue := q, ep_tick := (if ep_stats s then ep_tick s + 1 else ep_tick s),
                ep_clients := async_respond_client sid (cr_op_code resp) [if ep_resp_delivery s then cr_result resp else []]
                                (ep_clients s)\<rparr>)))"

text \<open>\<^verbatim>\<open>chain_req\<close>, \<^verbatim>\<open>setup_chain_stub\<close> and \<^verbatim>\<open>resend_pending_stub\<close>.\<close>

definition ep_not_supported :: "('k enc_proxy, unit) cpp" where
  "ep_not_supported = throw (Logic_error ''Not supported'')"

section \<open>Writes\<close>

definition write_of :: "l1_operation \<Rightarrow> l3_operation" where
  "write_of op =
     \<lparr>l3_seq_id = l1_seq_id op, l3_label = l1_key op, l3_value = l1_value op, l3_plaintext = [], l3_is_read = False, l3_dedup = False\<rparr>"

definition read_of_op :: "l1_operation \<Rightarrow> l3_operation" where
  "read_of_op op =
     \<lparr>l3_seq_id = l1_seq_id op, l3_label = l1_key op, l3_value = [], l3_plaintext = [], l3_is_read = True, l3_dedup = False\<rparr>"

text \<open>The writes that wait, for the encryption thread or for a full batch.\<close>

definition ep_waiting :: "'k enc_proxy \<Rightarrow> l3_operation list" where
  "ep_waiting s = concat (map (map co_l3_op) (ep_encrypt_queue s)) @ ep_internal_queue s"

text \<open>The handler invariant: the interface is there and the internal queue does not hold a full batch.\<close>

definition ep_ok :: "'k enc_proxy \<Rightarrow> bool" where
  "ep_ok s \<longleftrightarrow>
     0 < ep_storage_batch_size s \<and> ep_storage_batch_size s < 2 ^ 31 \<and>
     int (length (ep_internal_queue s)) < ep_storage_batch_size s \<and>
     (\<forall>b \<in> set (ep_encrypt_queue s). int (length b) = ep_storage_batch_size s) \<and>
     (\<exists>i. ep_storage s = Some i \<and> rd_ok i)"

definition ep_reads :: "'k enc_proxy \<Rightarrow> nat \<Rightarrow> (string \<times> l3_operation) list" where
  "ep_reads s j = gets_for (the (ep_storage s)) j"

definition ep_servers :: "'k enc_proxy \<Rightarrow> nat" where
  "ep_servers s = length (rd_clients (the (ep_storage s)))"

definition ep_reads_at :: "'k enc_proxy \<Rightarrow> nat \<Rightarrow> l1_operation list \<Rightarrow> (string \<times> l3_operation) list" where
  "ep_reads_at s j ops =
     map (\<lambda>op. (l1_key op, read_of_op op)) (filter (\<lambda>op. l1_value op = [] \<and> rd_server (the (ep_storage s)) (l1_key op) = j) ops)"

lemma ep_process_op_step:
  assumes "ep_ok s"
  shows "\<exists>t. ep_process_op op s = (Inr (), t) \<and> ep_ok t \<and> ep_storage_batch_size t = ep_storage_batch_size s \<and>
           ep_servers t = ep_servers s \<and>
           ep_waiting t = ep_waiting s @ (if l1_value op \<noteq> [] then [write_of op] else []) \<and>
           (\<forall>j < ep_servers s. ep_reads t j = ep_reads s j @ ep_reads_at s j [op])"
proof (cases "l1_value op = []")
  case True
  obtain i where i: "ep_storage s = Some i" "rd_ok i" using assms by (auto simp: ep_ok_def)
  obtain r i' where g: "ri_async_get (l1_key op) (read_of_op op) i = (r, i')" by fastforce
  note f = ri_async_get_requests [OF i(2) g]
  have "ep_process_op op s = (Inr (), s\<lparr>ep_storage := Some i'\<rparr>)"
    using True i(1) g f(1) by (simp add: ep_process_op_def ep_on_storage_def read_of_op_def)
  then show ?thesis using assms True i f
    by (auto simp: ep_ok_def ep_waiting_def ep_reads_def ep_servers_def ep_reads_at_def)
next
  case False
  let ?q = "ep_internal_queue s @ [write_of op]"
  have n: "ep_storage_batch_size s mod 2 ^ 64 = ep_storage_batch_size s" using assms by (simp add: ep_ok_def)
  have "ep_process_op op s = (Inr (),
      if int (length ?q) \<ge> ep_storage_batch_size s
      then s\<lparr>ep_encrypt_queue := ep_encrypt_queue s @ [map (\<lambda>op. \<lparr>co_l3_op = op, co_kv_response = []\<rparr>) ?q], ep_internal_queue := []\<rparr>
      else s\<lparr>ep_internal_queue := ?q\<rparr>)"
    using False n by (simp add: ep_process_op_def seqM_apply modify_apply write_of_def)
  then show ?thesis using assms False
    by (auto simp: ep_ok_def ep_waiting_def ep_reads_def ep_servers_def ep_reads_at_def comp_def)
qed

lemma ep_process_ops:
  assumes "ep_ok s"
  shows "\<exists>t. for_each ops ep_process_op s = (Inr (), t) \<and> ep_ok t \<and> ep_storage_batch_size t = ep_storage_batch_size s \<and>
           ep_servers t = ep_servers s \<and> ep_waiting t = ep_waiting s @ map write_of (filter (\<lambda>op. l1_value op \<noteq> []) ops) \<and>
           (\<forall>j < ep_servers s. ep_reads t j = ep_reads s j @ ep_reads_at s j ops)"
  using assms
proof (induction ops arbitrary: s)
  case Nil
  then show ?case by (simp add: ret_apply ep_reads_at_def)
next
  case (Cons op ops)
  obtain t where t: "ep_process_op op s = (Inr (), t)" "ep_ok t" "ep_storage_batch_size t = ep_storage_batch_size s"
    "ep_servers t = ep_servers s" "ep_waiting t = ep_waiting s @ (if l1_value op \<noteq> [] then [write_of op] else [])"
    "\<forall>j < ep_servers s. ep_reads t j = ep_reads s j @ ep_reads_at s j [op]"
    using ep_process_op_step [OF Cons.prems, of op] by blast
  have at: "ep_reads_at t j = ep_reads_at s j" for j using t(4) by (simp add: ep_reads_at_def rd_server_def ep_servers_def fun_eq_iff)
  obtain u where u: "for_each ops ep_process_op t = (Inr (), u)" "ep_ok u" "ep_storage_batch_size u = ep_storage_batch_size t"
    "ep_servers u = ep_servers t" "ep_waiting u = ep_waiting t @ map write_of (filter (\<lambda>op. l1_value op \<noteq> []) ops)"
    "\<forall>j < ep_servers t. ep_reads u j = ep_reads t j @ ep_reads_at t j ops"
    using Cons.IH [OF t(2)] by blast
  have "for_each (op # ops) ep_process_op s = (Inr (), u)" using t(1) u(1) by (simp add: for_each_Cons del: for_each.simps)
  moreover have "ep_reads_at s j (op # ops) = ep_reads_at s j [op] @ ep_reads_at s j ops" for j by (simp add: ep_reads_at_def)
  ultimately show ?case using t u at by auto
qed

section \<open>The threads\<close>

text \<open>The engines of the threads are copies of one engine, and the library does what it documents.\<close>

definition ep_engines :: "'k openssl \<Rightarrow> 'k enc_proxy \<Rightarrow> bool" where
  "ep_engines os s \<longleftrightarrow>
     ep_encryption_enabled s \<and>
     (\<exists>g g'. ep_encrypt_engine s = Some g \<and> ep_decrypt_engine s = Some g' \<and> engine_ready g \<and> engine_ready g' \<and>
        encryption_key g' = encryption_key g \<and> enc_iv g' = enc_iv g \<and> (\<forall>p. aes_law os (encryption_key g) (enc_iv g) p))"

definition cipher_for :: "'k openssl \<Rightarrow> 'k enc_proxy \<Rightarrow> crypto_operation \<Rightarrow> string" where
  "cipher_for os s co = projr (ee_encrypt os (the (ep_encrypt_engine s)) (l3_value (co_l3_op co)))"

lemma cipher_for:
  assumes "ep_engines os s" "l3_value (co_l3_op co) \<noteq> []" "length (l3_value (co_l3_op co)) < SCRATCH_SIZE"
  shows "ee_encrypt os (the (ep_encrypt_engine s)) (l3_value (co_l3_op co)) = Inr (cipher_for os s co)"
    and "ee_decrypt os (the (ep_decrypt_engine s)) (cipher_for os s co) = Inr (l3_value (co_l3_op co))"
proof -
  let ?p = "l3_value (co_l3_op co)"
  obtain g g' where g: "ep_encrypt_engine s = Some g" "ep_decrypt_engine s = Some g'" "engine_ready g" "engine_ready g'"
    "encryption_key g' = encryption_key g" "enc_iv g' = enc_iv g" "aes_law os (encryption_key g) (enc_iv g) ?p"
    using assms(1) by (auto simp: ep_engines_def)
  obtain c where "\<forall>h. encryption_key h = encryption_key g \<and> enc_iv h = enc_iv g \<and> engine_ready h \<longrightarrow>
      ee_encrypt os h ?p = Inr c \<and> ee_decrypt os h c = Inr ?p"
    using ee_inverse [OF g(7) assms(2,3)] by blast
  then have "ee_encrypt os g ?p = Inr c" "ee_decrypt os g' c = Inr ?p" using g by simp_all
  then show "ee_encrypt os (the (ep_encrypt_engine s)) ?p = Inr (cipher_for os s co)"
    "ee_decrypt os (the (ep_decrypt_engine s)) (cipher_for os s co) = Inr ?p"
    by (simp_all add: cipher_for_def g(1,2))
qed

text \<open>What the encryption thread hands to the storage for a batch.\<close>

definition stored_for :: "'k openssl \<Rightarrow> 'k enc_proxy \<Rightarrow> crypto_operation \<Rightarrow> string \<times> string \<times> l3_operation" where
  "stored_for os s co = (l3_label (co_l3_op co), cipher_for os s co, co_l3_op co)"

lemma encrypt_ops:
  assumes "ep_engines os s" "ep_storage2 s = Some i"
    and "\<forall>co \<in> set batch. l3_value (co_l3_op co) \<noteq> [] \<and> length (l3_value (co_l3_op co)) < SCRATCH_SIZE"
  shows "for_each batch (ep_encrypt_op os) s =
           (let (r, i') = for_each (map (\<lambda>co. Inr (stored_for os s co)) batch) rd_request i in (r, s\<lparr>ep_storage2 := Some i'\<rparr>))"
  using assms
proof (induction batch arbitrary: s i)
  case Nil
  then show ?case by (simp add: ret_apply)
next
  case (Cons co batch)
  obtain r i1 where r: "rd_request (Inr (stored_for os s co)) i = (r, i1)" by fastforce
  let ?s1 = "s\<lparr>ep_storage2 := Some i1\<rparr>"
  have c: "ee_encrypt os (the (ep_encrypt_engine s)) (l3_value (co_l3_op co)) = Inr (cipher_for os s co)"
    using cipher_for(1) [OF Cons.prems(1), of co] Cons.prems(3) by simp
  have one: "ep_encrypt_op os co s = (r, ?s1)"
    using r c Cons.prems(1,2)
    by (auto simp: ep_encrypt_op_def Let_def cpp_simps ep_engines_def ep_on_storage2_def rd_request_def stored_for_def)
  have e1: "ep_engines os ?s1" using Cons.prems(1) by (simp add: ep_engines_def)
  have same: "stored_for os ?s1 = stored_for os s" by (simp add: stored_for_def cipher_for_def fun_eq_iff)
  have "for_each batch (ep_encrypt_op os) ?s1 =
      (let (r, i') = for_each (map (\<lambda>co. Inr (stored_for os s co)) batch) rd_request i1 in (r, ?s1\<lparr>ep_storage2 := Some i'\<rparr>))"
    using Cons.IH [OF e1, of i1] Cons.prems(3) by (simp add: same)
  then show ?case using one r
    by (cases r) (auto simp: for_each_Cons case_prod_unfold Let_def simp del: for_each.simps)
qed

lemma decrypt_op:
  assumes "ep_engines os s" "l3_value (co_l3_op co) \<noteq> []" "length (l3_value (co_l3_op co)) < SCRATCH_SIZE"
    and "ep_encryption_enabled u" "ep_decrypt_engine u = ep_decrypt_engine s"
  shows "ep_decrypt_op os \<lparr>co_l3_op = op, co_kv_response = cipher_for os s co\<rparr> u =
           (Inr (), u\<lparr>ep_respond_queue := wq_push
              \<lparr>cr_seq_id = l3_seq_id op, cr_op_code = OP_GET, cr_result = l3_value (co_l3_op co)\<rparr> (ep_respond_queue u)\<rparr>)"
proof -
  obtain g' where "ep_decrypt_engine s = Some g'" using assms(1) by (auto simp: ep_engines_def)
  with cipher_for(2) [OF assms(1-3)] assms(4,5) show ?thesis by (simp add: ep_decrypt_op_def cpp_simps)
qed

section \<open>Properties\<close>

text \<open>
  C23. What the encrypting proxy writes it can read: for a full batch of writes, the encryption thread succeeds, and every server gets exactly one write
  for each operation whose key hashes to it, in order, with a cipher text that, when a later read returns it,
  the decryption thread answers with the value that was written.
\<close>

theorem enc_stores_and_reads_back:
  assumes "ep_engines os s" "ep_storage2 s = Some i" "rd_ok i" "\<not> ep_finished s" "ep_encrypt_queue s = batch # rest"
    and "\<forall>co \<in> set batch. l3_value (co_l3_op co) \<noteq> [] \<and> length (l3_value (co_l3_op co)) < SCRATCH_SIZE"
  shows "\<exists>t i'. ep_encrypt_step os s = Some (Inr (), t) \<and> t = s\<lparr>ep_encrypt_queue := rest, ep_storage2 := Some i'\<rparr> \<and>
     (\<forall>j < length (rd_clients i).
        concat (map call_puts (cl_sent (rd_clients i' ! j))) =
          puts_for i j @ map (stored_for os s) (filter (\<lambda>co. rd_server i (l3_label (co_l3_op co)) = j) batch)) \<and>
     (\<forall>co \<in> set batch. \<forall>u op. ep_encryption_enabled u \<and> ep_decrypt_engine u = ep_decrypt_engine s \<longrightarrow>
        ep_decrypt_op os \<lparr>co_l3_op = op, co_kv_response = fst (snd (stored_for os s co))\<rparr> u =
          (Inr (), u\<lparr>ep_respond_queue := wq_push
             \<lparr>cr_seq_id = l3_seq_id op, cr_op_code = OP_GET, cr_result = l3_value (co_l3_op co)\<rparr> (ep_respond_queue u)\<rparr>))"
proof -
  let ?s = "s\<lparr>ep_encrypt_queue := rest\<rparr>" and ?rs = "map (\<lambda>co. Inr (stored_for os s co)) batch"
  obtain i1 where i1: "for_each ?rs rd_request i = (Inr (), i1)" "rd_ok i1" "length (rd_clients i1) = length (rd_clients i)"
    "\<forall>j < length (rd_clients i). puts_for i1 j = puts_for i j @ writes_at i j ?rs"
    using rd_requests [OF assms(3), of ?rs] by blast
  obtain i2 where i2: "ri_flush i1 = (Inr (), i2)" "same_requests i1 i2" "rd_put_queues i2 = replicate (length (rd_clients i1)) []"
    using ri_flush_requests [OF i1(2)] by blast
  have same: "stored_for os ?s = stored_for os s" by (simp add: stored_for_def cipher_for_def fun_eq_iff)
  have "for_each batch (ep_encrypt_op os) ?s = (Inr (), ?s\<lparr>ep_storage2 := Some i1\<rparr>)"
    using encrypt_ops [of os ?s i batch] assms(1,2,6) i1(1) by (simp add: same ep_engines_def)
  then have step: "ep_encrypt_step os s = Some (Inr (), ?s\<lparr>ep_storage2 := Some i2\<rparr>)"
    using assms(4,5) i2(1) by (simp add: ep_encrypt_step_def seqM_apply ep_on_storage2_def)
  have w: "writes_at i j ?rs = map (stored_for os s) (filter (\<lambda>co. rd_server i (l3_label (co_l3_op co)) = j) batch)" for j
    by (induction batch) (simp_all add: writes_at_def List.map_filter_simps stored_for_def)
  have "concat (map call_puts (cl_sent (rd_clients i2 ! j))) = puts_for i2 j" if "j < length (rd_clients i)" for j
    using that i2(3) i1(3) by (simp add: puts_for_def)
  moreover have "puts_for i2 j = puts_for i1 j" if "j < length (rd_clients i)" for j
    using that i2(2) i1(3) by (simp add: same_requests_def)
  ultimately have "concat (map call_puts (cl_sent (rd_clients i2 ! j))) =
      puts_for i j @ map (stored_for os s) (filter (\<lambda>co. rd_server i (l3_label (co_l3_op co)) = j) batch)"
    if "j < length (rd_clients i)" for j
    using that i1(4) w by simp
  with step show ?thesis
    using decrypt_op [OF assms(1)] assms(6)
    by (intro exI [of _ "s\<lparr>ep_encrypt_queue := rest, ep_storage2 := Some i2\<rparr>"] exI [of _ i2]) (simp add: stored_for_def)
qed

lemma ep_process_ops_wait:
  fixes s :: "'k enc_proxy"
  assumes "ep_ok s" "rd_waits (the (ep_storage s))" "for_each ops ep_process_op s = (r, t)"
  shows "rd_waits (the (ep_storage t))"
proof -
  let ?P = "\<lambda>s :: 'k enc_proxy. \<exists>i. ep_storage s = Some i \<and> rd_ok i \<and> rd_waits i"
  have "keeps ?P (ep_process_op op)" for op :: l1_operation
  proof (rule keepsI)
    fix u :: "'k enc_proxy" assume "?P u"
    then obtain i where i: "ep_storage u = Some i" "rd_ok i \<and> rd_waits i" by blast
    have "rd_ok i' \<and> rd_waits i'" if "ri_async_get k a i = (x, i')" for k a x i'
      using keepsD [OF keeps_waits(1) i(2), of k a] that by simp
    with i show "?P (snd (ep_process_op op u))"
      by (auto simp: ep_process_op_def seqM_apply modify_apply ep_on_storage_def split: prod.split)
  qed
  then have "keeps ?P (for_each ops ep_process_op)" by (intro keeps_for_each)
  moreover have "?P s" using assms(1,2) by (auto simp: ep_ok_def)
  ultimately show ?thesis using keepsD [of ?P] assms(3) by fastforce
qed

text \<open>
  C24. Writes wait for a full batch, and a flush does not release them. Whatever requests arrive, none fails. Reads are handed to the
  storage interface in order: each server has been sent a prefix of its reads, and the rest, less than a batch of the interface, is in the queue
  of the interface; a flush sends the rest. Writes are kept in order and handed to the encryption thread in batches of exactly the storage batch
  size; fewer than a batch stay in the internal queue, and they stay there when the client flushes: \<^verbatim>\<open>flush\<close> reaches only the read side.
\<close>

theorem enc_writes_wait_for_batch:
  assumes "ep_ok s" "rd_waits (the (ep_storage s))"
  shows "\<exists>t u i i'. for_each ops ep_process_op s = (Inr (), t) \<and> ep_flush t = (Inr (), u) \<and>
     ep_storage t = Some i \<and> ep_storage u = Some i' \<and> rd_waits i \<and>
     (\<forall>j < ep_servers s.
        sent_gets i j @ rd_get_queues i ! j = ep_reads s j @ ep_reads_at s j ops \<and>
        sent_gets i' j = ep_reads s j @ ep_reads_at s j ops) \<and>
     ep_waiting t = ep_waiting s @ map write_of (filter (\<lambda>op. l1_value op \<noteq> []) ops) \<and>
     ep_internal_queue u = ep_internal_queue t \<and> ep_encrypt_queue u = ep_encrypt_queue t \<and> ep_storage2 u = ep_storage2 t \<and>
     int (length (ep_internal_queue t)) < ep_storage_batch_size s \<and>
     (\<forall>b \<in> set (ep_encrypt_queue t). int (length b) = ep_storage_batch_size s)"
proof -
  obtain t where t: "for_each ops ep_process_op s = (Inr (), t)" "ep_ok t" "ep_storage_batch_size t = ep_storage_batch_size s"
    "ep_waiting t = ep_waiting s @ map write_of (filter (\<lambda>op. l1_value op \<noteq> []) ops)" "ep_servers t = ep_servers s"
    "\<forall>j < ep_servers s. ep_reads t j = ep_reads s j @ ep_reads_at s j ops"
    using ep_process_ops [OF assms(1), of ops] by blast
  obtain i where i: "ep_storage t = Some i" "rd_ok i" using t(2) by (auto simp: ep_ok_def)
  have w: "rd_waits i" using ep_process_ops_wait [OF assms t(1)] i(1) by simp
  obtain i' where i': "ri_flush i = (Inr (), i')" "\<forall>j < length (rd_clients i). sent_gets i' j = gets_for i j \<and> sent_puts i' j = puts_for i j"
    by (rule ri_flush_sends [OF i(2)])
  then have "ep_flush t = (Inr (), t\<lparr>ep_storage := Some i'\<rparr>)" using i(1) by (simp add: ep_flush_def ep_on_storage_def)
  moreover have "\<forall>j < ep_servers s. sent_gets i j @ rd_get_queues i ! j = ep_reads s j @ ep_reads_at s j ops \<and>
      sent_gets i' j = ep_reads s j @ ep_reads_at s j ops"
    using t(5,6) i(1) i'(2) by (simp add: ep_servers_def ep_reads_def flip: gets_for_def)
  moreover have "int (length (ep_internal_queue t)) < ep_storage_batch_size s"
    "\<forall>b \<in> set (ep_encrypt_queue t). int (length b) = ep_storage_batch_size s"
    using t(2,3) by (simp_all add: ep_ok_def)
  ultimately show ?thesis using t(1,4) i(1) w
    by (rule_tac x = t in exI, rule_tac x = "t\<lparr>ep_storage := Some i'\<rparr>" in exI, rule_tac x = i in exI, rule_tac x = i' in exI) simp
qed

section \<open>Witnesses\<close>

definition example_enc :: "string enc_proxy" where
  "example_enc =
     (let g = projr (encryption_engine_new example_openssl); g' = projr (encryption_engine_copy example_openssl g) in
      (projr (enc_proxy_new example_openssl))
        \<lparr>ep_encrypt_engine := Some g', ep_decrypt_engine := Some g', ep_storage := Some example_redis, ep_storage2 := Some example_redis,
         ep_storage_batch_size := 2\<rparr>)"

definition example_put :: "string \<Rightarrow> string \<Rightarrow> l1_operation" where
  "example_put k v = \<lparr>l1_seq_id = sequence_id_new, l1_key = k, l1_value = v\<rparr>"

lemma example_enc_ok:
  "ep_engines example_openssl example_enc" "ep_ok example_enc" "\<not> ep_finished example_enc"
  "ep_storage2 example_enc = Some example_redis" "ep_waiting example_enc = []" "ep_storage_batch_size example_enc = 2"
proof -
  obtain g g' where g: "encryption_engine_new example_openssl = Inr g" "encryption_engine_copy example_openssl g = Inr g'"
    using example_engine by blast
  have e: "example_enc = (projr (enc_proxy_new example_openssl))
        \<lparr>ep_encrypt_engine := Some g', ep_decrypt_engine := Some g', ep_storage := Some example_redis, ep_storage2 := Some example_redis,
         ep_storage_batch_size := 2\<rparr>"
    by (simp add: example_enc_def Let_def g)
  show "ep_engines example_openssl example_enc"
    using copy_of_new [OF g] example_aes by (simp add: e ep_engines_def enc_proxy_new_def g)
  show "ep_ok example_enc" using example_redis_ok by (simp add: e ep_ok_def enc_proxy_new_def g)
  show "\<not> ep_finished example_enc" "ep_storage2 example_enc = Some example_redis" "ep_waiting example_enc = []"
    "ep_storage_batch_size example_enc = 2"
    by (simp_all add: e enc_proxy_new_def g ep_waiting_def)
qed

theorem enc_stores_and_reads_back_witness:
  "\<exists>t c. ep_encrypt_step example_openssl
       (example_enc\<lparr>ep_encrypt_queue := [[\<lparr>co_l3_op = write_of (example_put ''k'' ''v''), co_kv_response = []\<rparr>]]\<rparr>) = Some (Inr (), t) \<and>
     fst (ep_decrypt_op example_openssl \<lparr>co_l3_op = read_of_op (example_put ''k'' []), co_kv_response = c\<rparr> example_enc) = Inr ()"
proof -
  let ?co = "\<lparr>co_l3_op = write_of (example_put ''k'' ''v''), co_kv_response = []\<rparr>"
  let ?s = "example_enc\<lparr>ep_encrypt_queue := [[?co]]\<rparr>"
  have a: "ep_engines example_openssl ?s" "ep_storage2 ?s = Some example_redis" "\<not> ep_finished ?s" "ep_encrypt_queue ?s = [?co] # []"
    using example_enc_ok(1,3,4) by (simp_all add: ep_engines_def)
  have b: "\<forall>co \<in> set [?co]. l3_value (co_l3_op co) \<noteq> [] \<and> length (l3_value (co_l3_op co)) < SCRATCH_SIZE"
    by (simp add: write_of_def example_put_def SCRATCH_SIZE_def)
  have u: "ep_encryption_enabled example_enc \<and> ep_decrypt_engine example_enc = ep_decrypt_engine ?s" "?co \<in> set [?co]"
    using example_enc_ok(1) by (simp_all add: ep_engines_def)
  obtain t where t: "ep_encrypt_step example_openssl ?s = Some (Inr (), t)"
    and d: "\<forall>co \<in> set [?co]. \<forall>u op. ep_encryption_enabled u \<and> ep_decrypt_engine u = ep_decrypt_engine ?s \<longrightarrow>
        ep_decrypt_op example_openssl \<lparr>co_l3_op = op, co_kv_response = fst (snd (stored_for example_openssl ?s co))\<rparr> u =
          (Inr (), u\<lparr>ep_respond_queue := wq_push
             \<lparr>cr_seq_id = l3_seq_id op, cr_op_code = OP_GET, cr_result = l3_value (co_l3_op co)\<rparr> (ep_respond_queue u)\<rparr>)"
    using enc_stores_and_reads_back [OF a(1,2) example_redis_ok a(3,4) b] by (elim exE conjE) (rule that, assumption+)
  show ?thesis using t d [rule_format, OF u(2,1)] by (metis fst_conv)
qed

theorem enc_writes_wait_for_batch_witness:
  "\<exists>t u i'. for_each [example_put ''a'' ''1'', example_put ''a'' [], example_put ''b'' ''2'', example_put ''c'' ''3''] ep_process_op example_enc =
       (Inr (), t) \<and> ep_flush t = (Inr (), u) \<and> ep_storage u = Some i' \<and>
     sent_gets i' 0 = [(''a'', read_of_op (example_put ''a'' []))] \<and>
     ep_waiting t = [write_of (example_put ''a'' ''1''), write_of (example_put ''b'' ''2''), write_of (example_put ''c'' ''3'')] \<and>
     length (ep_internal_queue u) < 2"
proof -
  let ?ops = "[example_put ''a'' ''1'', example_put ''a'' [], example_put ''b'' ''2'', example_put ''c'' ''3'']"
  have st: "ep_storage example_enc = Some example_redis" by (simp add: example_enc_def Let_def)
  have one: "rd_server (example_redis :: redis_interface) k = 0" for k
    by (rule rd_server_single) (simp_all add: example_redis_ok, simp add: example_redis_def)
  have w: "rd_waits (the (ep_storage example_enc))" by (simp add: st) (simp add: example_redis_def rd_waits_def)
  have n: "ep_servers example_enc = 1" "ep_reads example_enc 0 = []"
    by (simp_all add: ep_servers_def ep_reads_def st) (simp_all add: example_redis_def gets_for_def)
  have r: "ep_reads_at example_enc 0 ?ops = [(''a'', read_of_op (example_put ''a'' []))]"
    by (simp add: ep_reads_at_def st one) (simp add: example_put_def)
  have v: "map write_of (filter (\<lambda>op. l1_value op \<noteq> []) ?ops) =
      [write_of (example_put ''a'' ''1''), write_of (example_put ''b'' ''2''), write_of (example_put ''c'' ''3'')]"
    by (simp add: example_put_def)
  from enc_writes_wait_for_batch [OF example_enc_ok(2) w, of ?ops, unfolded n(1) example_enc_ok(5,6) v] n(2) r show ?thesis
    by (elim exE conjE) (auto 0 3)
qed

end
