(* ===== verification/P_Proxy.thy ===== *)
theory P_Proxy
  imports Enc_Proxy L1_Proxy Update_Cache
begin

text \<open>
  proxy/src/p_proxy.h and p_proxy.cpp: Pancake in one process, the baseline that Shortstack distributes. A request is put into a
  security batch as in the first layer, each operation of the batch goes through the update cache and becomes a read of a
  label, and the crypto thread writes every label back, as in the third layer. The update cache is shared by the workers; the
  queue of the crypto thread has several producers, so the turn of the thread says which batch it takes.
\<close>

section \<open>State\<close>

record 'k p_proxy =
  pp_instance_name :: string
  pp_security_batch_size :: int
  pp_num_keys :: int
  pp_dummy_key :: string
  pp_delta :: rat
  pp_replicas_of :: "(string, int) table"
  pp_fake :: distribution
  pp_real :: distribution
  pp_replica_to_label :: "(string, int) table"
  pp_internal_queue :: "l1_operation list"
  pp_idx :: int
  pp_cache :: uc_map
  pp_cache_enabled :: bool
  pp_engine :: "'k encryption_engine"
  pp_crypto_engine :: "'k encryption_engine option"
  pp_finished :: bool
  pp_storage :: "redis_interface option"
  pp_crypto_queue :: "crypto_op_batch list"
  pp_storage2 :: "redis_interface option"
  pp_clients :: client_map
  pp_respond_queue :: "client_response work_queue"
  pp_storage_batch_size :: int
  pp_encryption_enabled :: bool
  pp_resp_delivery :: bool
  pp_kv_interaction :: bool
  pp_stats :: bool
  pp_tick :: nat

definition p_proxy_new :: "'k openssl \<Rightarrow> 'k p_proxy outcome" where
  "p_proxy_new os =
     bind_out (encryption_engine_new os) (\<lambda>g.
       Inr \<lparr>pp_instance_name = [], pp_security_batch_size = 3, pp_num_keys = 0, pp_dummy_key = [], pp_delta = 0, pp_replicas_of = [],
            pp_fake = distribution_empty, pp_real = distribution_empty, pp_replica_to_label = [], pp_internal_queue = [], pp_idx = 0,
            pp_cache = [], pp_cache_enabled = True, pp_engine = g, pp_crypto_engine = None, pp_finished = False, pp_storage = None,
            pp_crypto_queue = [], pp_storage2 = None, pp_clients = [], pp_respond_queue = wq_new, pp_storage_batch_size = 0,
            pp_encryption_enabled = True, pp_resp_delivery = True, pp_kv_interaction = True, pp_stats = False, pp_tick = 0\<rparr>)"

definition pp_next_tick :: "('k p_proxy, nat) cpp" where
  "pp_next_tick s = (Inr (pp_tick s), s\<lparr>pp_tick := pp_tick s + 1\<rparr>)"

section \<open>Callbacks and storage\<close>

text \<open>In both callbacks the statistics are switched off by a local constant.\<close>

definition pp_get_cb :: "l3_operation list \<Rightarrow> string list \<Rightarrow> ('k p_proxy, unit) cpp" where
  "pp_get_cb ops vals =
     bnd (lift_out (map_out (\<lambda>i. bind_out (vec_at vals (int i)) (\<lambda>v.
                                Inr \<lparr>co_l3_op = ops ! i, co_kv_response = v\<rparr>)) [0..<length ops])) (\<lambda>batch.
       modify (\<lambda>s. s\<lparr>pp_crypto_queue := pp_crypto_queue s @ [batch]\<rparr>))"

definition pp_put_cb :: "l3_operation list \<Rightarrow> ('k p_proxy, unit) cpp" where
  "pp_put_cb ops =
     for_each ops (\<lambda>op.
       if client_id (l3_seq_id op) \<noteq> fake_client_id
       then modify (\<lambda>s. s\<lparr>pp_respond_queue := wq_push (l3_response_of op) (pp_respond_queue s)\<rparr>)
       else ret ())"

definition pp_on_storage :: "(redis_interface, unit) cpp \<Rightarrow> ('k p_proxy, unit) cpp" where
  "pp_on_storage m s =
     (case pp_storage s of
        None \<Rightarrow> (Inl (Undefined_behaviour ''null pointer''), s)
      | Some i \<Rightarrow> (let (r, i') = m i in (r, s\<lparr>pp_storage := Some i'\<rparr>)))"

definition pp_on_storage2 :: "(redis_interface, unit) cpp \<Rightarrow> ('k p_proxy, unit) cpp" where
  "pp_on_storage2 m s =
     (case pp_storage2 s of
        None \<Rightarrow> (Inl (Undefined_behaviour ''null pointer''), s)
      | Some i \<Rightarrow> (let (r, i') = m i in (r, s\<lparr>pp_storage2 := Some i'\<rparr>)))"

definition pp_interface :: "env \<Rightarrow> host list \<Rightarrow> int \<Rightarrow> redis_interface outcome" where
  "pp_interface e kvs batch_size =
     bind_out (vec_at kvs 0) (\<lambda>kv.
     bind_out (redis_interface_new (env_up e) (hostname kv) (port kv) batch_size) (\<lambda>i.
       (case for_each (tl kvs) (\<lambda>h. ri_add_server (env_up e) (hostname h) (port h)) i of
          (Inl x, _) \<Rightarrow> Inl x
        | (Inr _, i') \<Rightarrow> Inr i')))"

definition pp_init_proxy ::
  "env \<Rightarrow> 'k openssl \<Rightarrow> host list \<Rightarrow> string \<Rightarrow> distribution_info \<Rightarrow> int \<Rightarrow> client_map \<Rightarrow> int \<Rightarrow> uc_map \<Rightarrow> ('k p_proxy, unit) cpp" where
  "pp_init_proxy e os hs name dinfo local_idx clients batch_size cache =
     seqM (modify (\<lambda>s. s\<lparr>pp_instance_name := name\<rparr>))
       (if get_host hs name = None then throw (Runtime_error (''Unkown instance name: '' @ name))
        else
          seqM (modify (\<lambda>s. s\<lparr>pp_idx := the (get_base_idx hs name) + local_idx, pp_num_keys := num_keys dinfo,
                  pp_dummy_key := dummy_key dinfo, pp_delta := 1 / 2, pp_replicas_of := key_to_number_of_replicas dinfo,
                  pp_fake := fake_distribution dinfo, pp_real := real_distribution dinfo,
                  pp_replica_to_label := replica_to_label dinfo, pp_cache := cache, pp_clients := clients,
                  pp_storage_batch_size := batch_size, pp_crypto_queue := [], pp_respond_queue := wq_new\<rparr>))
          (bnd (gets pp_kv_interaction) (\<lambda>kv_inter.
            if \<not> kv_inter then throw (Logic_error ''dummy KV Not implemented'')
            else
              (let kvs = get_hosts_by_type hs HOST_TYPE_KV in
               bnd (lift_out (pp_interface e kvs batch_size)) (\<lambda>i1.
               seqM (modify (\<lambda>s. s\<lparr>pp_storage := Some i1\<rparr>))
               (bnd (lift_out (pp_interface e kvs 10000000)) (\<lambda>i2.
               seqM (modify (\<lambda>s. s\<lparr>pp_storage2 := Some i2, pp_finished := False\<rparr>))
               (bnd (gets pp_engine) (\<lambda>g.
                bnd (lift_out (encryption_engine_copy os g)) (\<lambda>g1.
                 modify (\<lambda>s. s\<lparr>pp_crypto_engine := Some g1\<rparr>)))))))))))"

section \<open>The security batch\<close>

definition pp_is_true_distribution :: "env \<Rightarrow> ('k p_proxy, bool) cpp" where
  "pp_is_true_distribution e = bnd pp_next_tick (\<lambda>t. gets (\<lambda>s. prob (pp_delta s) (env_unit e t)))"

definition pp_fake_operation :: "env \<Rightarrow> ('k p_proxy \<Rightarrow> distribution) \<Rightarrow> ('k p_proxy, l2_operation) cpp" where
  "pp_fake_operation e d =
     bnd pp_next_tick (\<lambda>t.
     bnd (gets d) (\<lambda>dist.
     bnd (lift_out (dist_sample dist (env_pick e t (dist_probs dist)))) (\<lambda>k.
       ret (l2_operation_new\<lparr>l2_seq_id := sequence_id_new\<lparr>client_id := fake_client_id\<rparr>, l2_key := k, l2_value := []\<rparr>))))"

definition pp_choose :: "env \<Rightarrow> bool \<Rightarrow> ('k p_proxy, l2_operation \<times> bool) cpp" where
  "pp_choose e coin =
     (if coin then
        bnd (gets pp_internal_queue) (\<lambda>q.
          case q of
            [] \<Rightarrow> bnd (pp_fake_operation e pp_real) (\<lambda>operat. ret (operat, False))
          | op # rest \<Rightarrow>
              seqM (modify (\<lambda>s. s\<lparr>pp_internal_queue := rest\<rparr>))
                (ret (l2_operation_new\<lparr>l2_seq_id := l1_seq_id op, l2_key := l1_key op, l2_value := l1_value op\<rparr>, True)))
      else bnd (pp_fake_operation e pp_fake) (\<lambda>operat. ret (operat, False)))"

definition pp_batch_operation :: "env \<Rightarrow> ('k p_proxy, l2_operation \<times> bool) cpp" where
  "pp_batch_operation e =
     bnd (pp_is_true_distribution e) (\<lambda>coin.
     bnd (pp_choose e coin) (\<lambda>(operat, is_true).
     bnd (gets (\<lambda>s. map_of (pp_replicas_of s) (l2_key operat))) (\<lambda>it.
       case it of
         None \<Rightarrow> throw (Runtime_error (''key not found: '' @ l2_key operat))
       | Some n \<Rightarrow>
           bnd pp_next_tick (\<lambda>t.
             ret (operat\<lparr>l2_replica := sint (rand_uint32 0 (word_of_int (n - 1)) (env_rand e t))\<rparr>, is_true)))))"

definition pp_create_security_batch :: "env \<Rightarrow> ('k p_proxy, (l2_operation \<times> bool) list) cpp" where
  "pp_create_security_batch e =
     bnd (gets (\<lambda>s. nat (pp_security_batch_size s))) (\<lambda>n. collect (\<lambda>_. pp_batch_operation e) [0..<n])"

section \<open>Operations\<close>

definition pp_process_l2 :: "l2_operation \<Rightarrow> ('k p_proxy, unit) cpp" where
  "pp_process_l2 op =
     bnd (gets (\<lambda>s. map_of (pp_replicas_of s) (l2_key op))) (\<lambda>it.
       case it of
         None \<Rightarrow> throw (Runtime_error ''Key not found'')
       | Some n \<Rightarrow>
           seqM (modify (\<lambda>s. if pp_cache_enabled s \<and> l2_value op \<noteq> []
                             then s\<lparr>pp_cache := snd (populate_replica_updates (l2_key op) (l2_value op) n (pp_cache s))\<rparr> else s))
           (bnd (gets (\<lambda>s. if pp_cache_enabled s then check_for_update_immutable (pp_cache s) (l2_key op) (l2_replica op)
                           else Inr (l2_value op))) (\<lambda>upd.
            bnd (lift_out upd) (\<lambda>plaintext_update.
            bnd (gets (\<lambda>s. map_of (pp_replica_to_label s) (l2_key op @ to_string (l2_replica op)))) (\<lambda>lab.
              case lab of
                None \<Rightarrow> throw (Runtime_error ''Replica not found in label map'')
              | Some l \<Rightarrow>
                  pp_on_storage (ri_async_get (to_string l)
                    \<lparr>l3_seq_id = l2_seq_id op, l3_label = to_string l, l3_value = plaintext_update, l3_plaintext = [],
                     l3_is_read = (l2_value op = []), l3_dedup = False\<rparr>))))))"

definition pp_process_op :: "env \<Rightarrow> l1_operation \<Rightarrow> ('k p_proxy, unit) cpp" where
  "pp_process_op e op =
     seqM (modify (\<lambda>s. s\<lparr>pp_internal_queue := pp_internal_queue s @ [op]\<rparr>))
       (bnd (pp_create_security_batch e) (\<lambda>batch. for_each batch (\<lambda>(op, _). pp_process_l2 op)))"

definition pp_async_get :: "env \<Rightarrow> sequence_id \<Rightarrow> int \<Rightarrow> string \<Rightarrow> ('k p_proxy, unit) cpp" where
  "pp_async_get e seq queue_id k = pp_process_op e \<lparr>l1_seq_id = seq, l1_key = k, l1_value = []\<rparr>"

definition pp_async_put :: "env \<Rightarrow> sequence_id \<Rightarrow> int \<Rightarrow> string \<Rightarrow> string \<Rightarrow> ('k p_proxy, unit) cpp" where
  "pp_async_put e seq queue_id k v = pp_process_op e \<lparr>l1_seq_id = seq, l1_key = k, l1_value = v\<rparr>"

definition pp_async_get_batch :: "env \<Rightarrow> sequence_id \<Rightarrow> int \<Rightarrow> string list \<Rightarrow> ('k p_proxy, unit) cpp" where
  "pp_async_get_batch e seq queue_id ks = for_each ks (pp_async_get e seq queue_id)"

definition pp_async_put_batch :: "env \<Rightarrow> sequence_id \<Rightarrow> int \<Rightarrow> string list \<Rightarrow> string list \<Rightarrow> ('k p_proxy, unit) cpp" where
  "pp_async_put_batch e seq queue_id ks vs =
     for_each [0..<length ks] (\<lambda>i. bnd (lift_out (vec_at vs (int i))) (\<lambda>v. pp_async_put e seq queue_id (ks ! i) v))"

definition pp_async_get_any :: "env \<Rightarrow> sequence_id \<Rightarrow> string \<Rightarrow> ('k p_proxy, unit) cpp" where
  "pp_async_get_any e seq k = bnd pp_next_tick (\<lambda>t. pp_async_get e seq (queue_draw e t) k)"

definition pp_async_put_any :: "env \<Rightarrow> sequence_id \<Rightarrow> string \<Rightarrow> string \<Rightarrow> ('k p_proxy, unit) cpp" where
  "pp_async_put_any e seq k v = bnd pp_next_tick (\<lambda>t. pp_async_put e seq (queue_draw e t) k v)"

definition pp_async_get_batch_any :: "env \<Rightarrow> sequence_id \<Rightarrow> string list \<Rightarrow> ('k p_proxy, unit) cpp" where
  "pp_async_get_batch_any e seq ks = bnd pp_next_tick (\<lambda>t. pp_async_get_batch e seq (queue_draw e t) ks)"

definition pp_async_put_batch_any :: "env \<Rightarrow> sequence_id \<Rightarrow> string list \<Rightarrow> string list \<Rightarrow> ('k p_proxy, unit) cpp" where
  "pp_async_put_batch_any e seq ks vs = bnd pp_next_tick (\<lambda>t. pp_async_put_batch e seq (queue_draw e t) ks vs)"

definition pp_not_implemented :: "('k p_proxy, 'r) cpp" where
  "pp_not_implemented = throw (Logic_error ''Not implemented'')"

definition pp_flush :: "('k p_proxy, unit) cpp" where
  "pp_flush = throw (Logic_error ''not implemented'')"

definition pp_close :: "('k p_proxy, unit) cpp" where
  "pp_close = ret ()"

definition pp_not_supported :: "('k p_proxy, unit) cpp" where
  "pp_not_supported = throw (Logic_error ''Not supported'')"

section \<open>Threads\<close>

definition pp_stamp :: "env \<Rightarrow> sequence_id \<Rightarrow> ('k p_proxy, sequence_id) cpp" where
  "pp_stamp e seq =
     bnd (gets pp_stats) (\<lambda>st.
       if st then bnd pp_next_tick (\<lambda>t.
         ret ((set_diag (diag seq @ to_string (env_now e t - ts seq) @ '','') seq)\<lparr>ts := env_now e t\<rparr>))
       else ret seq)"

definition pp_crypt :: "('k encryption_engine \<Rightarrow> string outcome) \<Rightarrow> string \<Rightarrow> ('k p_proxy, string) cpp" where
  "pp_crypt f text =
     bnd (gets (\<lambda>s. (pp_encryption_enabled s, pp_crypto_engine s))) (\<lambda>(en, eng).
       if \<not> en then ret text
       else case eng of None \<Rightarrow> throw (Undefined_behaviour ''null pointer'') | Some g \<Rightarrow> lift_out (f g))"

definition pp_crypto_op :: "env \<Rightarrow> 'k openssl \<Rightarrow> crypto_operation \<Rightarrow> ('k p_proxy, unit) cpp" where
  "pp_crypto_op e os co =
     (let op = co_l3_op co in
      bnd (pp_stamp e (l3_seq_id op)) (\<lambda>sid1.
      bnd (pp_crypt (\<lambda>g. ee_decrypt os g (co_kv_response co)) (co_kv_response co)) (\<lambda>plain0.
      (let plaintext = (if l3_value op \<noteq> [] then l3_value op else plain0) in
      bnd (pp_crypt (\<lambda>g. ee_encrypt os g plaintext) plaintext) (\<lambda>writeback.
      bnd (pp_stamp e sid1) (\<lambda>sid2.
        pp_on_storage2 (ri_async_put (l3_label op) writeback (op\<lparr>l3_seq_id := sid2, l3_plaintext := plaintext\<rparr>))))))))"

definition pp_crypto_step :: "env \<Rightarrow> 'k openssl \<Rightarrow> nat \<Rightarrow> 'k p_proxy \<Rightarrow> (unit outcome \<times> 'k p_proxy) option" where
  "pp_crypto_step e os n s =
     (if n \<ge> length (pp_crypto_queue s) then None
      else
        (let batch = pp_crypto_queue s ! n;
             s' = s\<lparr>pp_crypto_queue := take n (pp_crypto_queue s) @ drop (Suc n) (pp_crypto_queue s)\<rparr>
         in if pp_finished s then Some (Inr (), s')
            else Some (seqM (for_each batch (pp_crypto_op e os)) (pp_on_storage2 ri_flush) s')))"

definition pp_responder_step :: "env \<Rightarrow> 'k p_proxy \<Rightarrow> (unit outcome \<times> 'k p_proxy) option" where
  "pp_responder_step e s =
     (case wq_pop (pp_respond_queue s) of
        None \<Rightarrow> None
      | Some (resp, q) \<Rightarrow>
          (let sid = (if pp_stats s
                      then set_diag (diag (cr_seq_id resp) @ to_string (env_now e (pp_tick s) - ts (cr_seq_id resp)) @ '','')
                             (cr_seq_id resp)
                      else cr_seq_id resp)
           in Some (Inr (), s\<lparr>pp_respond_queue := q, pp_tick := (if pp_stats s then pp_tick s + 1 else pp_tick s),
                pp_clients := async_respond_client sid (cr_op_code resp) [if pp_resp_delivery s then cr_result resp else []]
                                (pp_clients s)\<rparr>)))"

section \<open>What a request does to the storage\<close>

definition pp_tables_ok :: "(string, int) table \<Rightarrow> distribution \<Rightarrow> distribution \<Rightarrow> (string, int) table \<Rightarrow> bool" where
  "pp_tables_ok tab rd fd labels \<longleftrightarrow>
     samples_ok tab rd \<and> samples_ok tab fd \<and> (\<forall>n \<in> ran (map_of tab). 0 < n \<and> n < 2 ^ 31) \<and>
     (\<forall>k n r. map_of tab k = Some n \<and> 0 \<le> r \<and> r < n \<longrightarrow> map_of labels (k @ to_string r) \<noteq> None)"

definition pp_cache_ok :: "(string, int) table \<Rightarrow> uc_map \<Rightarrow> bool" where
  "pp_cache_ok tab cache \<longleftrightarrow>
     (\<forall>k n v bits. map_of tab k = Some n \<and> map_of cache k = Some (v, bits) \<longrightarrow> length bits = nat n)"

definition pp_queue_ok :: "(string, int) table \<Rightarrow> l1_operation list \<Rightarrow> bool" where
  "pp_queue_ok tab q \<longleftrightarrow> (\<forall>op \<in> set q. map_of tab (l1_key op) \<noteq> None)"

definition pp_storage_ok :: "redis_interface option \<Rightarrow> bool" where
  "pp_storage_ok st \<longleftrightarrow> (\<exists>i. st = Some i \<and> rd_ok i)"

definition pp_ok :: "'k p_proxy \<Rightarrow> bool" where
  "pp_ok s \<longleftrightarrow>
     pp_tables_ok (pp_replicas_of s) (pp_real s) (pp_fake s) (pp_replica_to_label s) \<and>
     pp_queue_ok (pp_replicas_of s) (pp_internal_queue s) \<and> pp_cache_ok (pp_replicas_of s) (pp_cache s) \<and>
     pp_storage_ok (pp_storage s)"

definition pp_reads :: "'k p_proxy \<Rightarrow> nat \<Rightarrow> (string \<times> l3_operation) list" where
  "pp_reads s j = gets_for (the (pp_storage s)) j"

definition pp_servers :: "'k p_proxy \<Rightarrow> nat" where
  "pp_servers s = length (rd_clients (the (pp_storage s)))"

text \<open>The read of a label that belongs to an operation of a batch; a write carries its value.\<close>

definition access_of :: "(string, int) table \<Rightarrow> l2_operation \<Rightarrow> l3_operation \<Rightarrow> bool" where
  "access_of labels op a \<longleftrightarrow>
     l3_seq_id a = l2_seq_id op \<and> l3_is_read a = (l2_value op = []) \<and>
     (\<exists>l. map_of labels (l2_key op @ to_string (l2_replica op)) = Some l \<and> l3_label a = to_string l)"

definition reads_of :: "'k p_proxy \<Rightarrow> nat \<Rightarrow> l3_operation list \<Rightarrow> (string \<times> l3_operation) list" where
  "reads_of s j as = map (\<lambda>a. (l3_label a, a)) (filter (\<lambda>a. rd_server (the (pp_storage s)) (l3_label a) = j) as)"

definition trues :: "(l2_operation \<times> bool) list \<Rightarrow> l1_operation list" where
  "trues batch = map (as_l1 \<circ> fst) (filter snd batch)"

lemma pp_ok_tick [simp]: "pp_ok (s\<lparr>pp_tick := k\<rparr>) = pp_ok s"
  by (simp add: pp_ok_def)

lemma pp_ok_queue: "pp_ok s \<Longrightarrow> pp_queue_ok (pp_replicas_of s) q \<Longrightarrow> pp_ok (s\<lparr>pp_internal_queue := q\<rparr>)"
  by (simp add: pp_ok_def)

lemma pp_queue_ok_subset: "pp_queue_ok tab q \<Longrightarrow> set q' \<subseteq> set q \<Longrightarrow> pp_queue_ok tab q'"
  unfolding pp_queue_ok_def by blast

lemma pp_ok_queued: "pp_ok s \<Longrightarrow> pp_queue_ok (pp_replicas_of s) (pp_internal_queue s)"
  by (simp add: pp_ok_def)

lemma pp_fake_operation_ok:
  assumes "env_ok e" "samples_ok tab (d s)" "\<And>t. d (s\<lparr>pp_tick := t\<rparr>) = d s"
  obtains op where "pp_fake_operation e d s = (Inr op, s\<lparr>pp_tick := pp_tick s + 1\<rparr>)" "is_fake op" "map_of tab (l2_key op) \<noteq> None"
proof -
  let ?i = "env_pick e (pp_tick s) (dist_probs (d s))"
  have i: "?i < length (dist_items (d s))" using assms(1,2) by (simp add: env_ok_def samples_ok_def)
  then have "dist_sample (d s) ?i = Inr (dist_items (d s) ! ?i)" by (simp add: dist_sample_def)
  then have "pp_fake_operation e d s = (Inr (l2_operation_new\<lparr>l2_seq_id := sequence_id_new\<lparr>client_id := fake_client_id\<rparr>,
      l2_key := dist_items (d s) ! ?i, l2_value := []\<rparr>), s\<lparr>pp_tick := pp_tick s + 1\<rparr>)"
    using assms(3) by (simp add: pp_fake_operation_def cpp_simps pp_next_tick_def)
  then show thesis by (rule that) (use assms(2) i in \<open>auto simp: is_fake_def samples_ok_def\<close>)
qed

lemma pp_choose_ok:
  assumes "env_ok e" "pp_ok s"
  obtains op b k where
    "pp_choose e coin s = (Inr (op, b), s\<lparr>pp_internal_queue := (if b then tl (pp_internal_queue s) else pp_internal_queue s), pp_tick := k\<rparr>)"
    "map_of (pp_replicas_of s) (l2_key op) \<noteq> None"
    "if b then pp_internal_queue s \<noteq> [] \<and> as_l1 op = hd (pp_internal_queue s) else is_fake op"
proof (cases "coin \<and> pp_internal_queue s \<noteq> []")
  case True
  then obtain op rest where q: "pp_internal_queue s = op # rest" by (cases "pp_internal_queue s") auto
  show thesis
    by (rule that [of "l2_operation_new\<lparr>l2_seq_id := l1_seq_id op, l2_key := l1_key op, l2_value := l1_value op\<rparr>" True "pp_tick s"])
      (use True q assms(2) in \<open>auto simp: pp_choose_def cpp_simps as_l1_def pp_ok_def pp_queue_ok_def\<close>)
next
  case False
  define d :: "'a p_proxy \<Rightarrow> distribution" where "d = (if coin then pp_real else pp_fake)"
  have "samples_ok (pp_replicas_of s) (d s)" "\<And>t. d (s\<lparr>pp_tick := t\<rparr>) = d s" using assms(2) by (simp_all add: d_def pp_ok_def pp_tables_ok_def)
  from pp_fake_operation_ok [OF assms(1) this] obtain op where
    "pp_fake_operation e d s = (Inr op, s\<lparr>pp_tick := pp_tick s + 1\<rparr>)" "is_fake op" "map_of (pp_replicas_of s) (l2_key op) \<noteq> None" .
  with False show thesis
    by (intro that [of op False "pp_tick s + 1"]) (auto simp: pp_choose_def cpp_simps d_def split: if_splits)
qed

lemma pp_batch_operation_ok:
  assumes "env_ok e" "pp_ok s"
  obtains op b k where
    "pp_batch_operation e s = (Inr (op, b), s\<lparr>pp_internal_queue := (if b then tl (pp_internal_queue s) else pp_internal_queue s), pp_tick := k\<rparr>)"
    "replica_in (pp_replicas_of s) op"
    "if b then pp_internal_queue s \<noteq> [] \<and> as_l1 op = hd (pp_internal_queue s) else is_fake op"
proof -
  let ?s = "s\<lparr>pp_tick := pp_tick s + 1\<rparr>"
  obtain coin where c: "pp_is_true_distribution e s = (Inr coin, ?s)"
    by (simp add: pp_is_true_distribution_def cpp_simps pp_next_tick_def)
  have "pp_ok ?s" using assms(2) by simp
  from pp_choose_ok [OF assms(1) this, of coin] obtain op b k where o:
    "pp_choose e coin ?s = (Inr (op, b), ?s\<lparr>pp_internal_queue := (if b then tl (pp_internal_queue ?s) else pp_internal_queue ?s), pp_tick := k\<rparr>)"
    "map_of (pp_replicas_of ?s) (l2_key op) \<noteq> None"
    "if b then pp_internal_queue ?s \<noteq> [] \<and> as_l1 op = hd (pp_internal_queue ?s) else is_fake op" .
  then obtain n where n: "map_of (pp_replicas_of s) (l2_key op) = Some n" by auto
  then have nb: "0 < n" "n < 2 ^ 31" using assms(2) by (auto simp: pp_ok_def pp_tables_ok_def intro: ranI)
  let ?op = "op\<lparr>l2_replica := sint (rand_uint32 0 (word_of_int (n - 1)) (env_rand e k))\<rparr>"
  have r: "l2_replica ?op = int (env_rand e k mod nat n)" using rand_replica [OF nb] by simp
  have lt: "int (env_rand e k mod nat n) < n" using nb by (simp add: zmod_int)
  show thesis
  proof (rule that [of ?op b "k + 1"])
    show "pp_batch_operation e s =
        (Inr (?op, b), s\<lparr>pp_internal_queue := (if b then tl (pp_internal_queue s) else pp_internal_queue s), pp_tick := k + 1\<rparr>)"
      using c o(1) n by (simp add: pp_batch_operation_def bnd_apply gets_apply pp_next_tick_def ret_apply cong: if_cong)
    show "replica_in (pp_replicas_of s) ?op" using n r lt by (simp add: replica_in_def)
    show "if b then pp_internal_queue s \<noteq> [] \<and> as_l1 ?op = hd (pp_internal_queue s) else is_fake ?op"
      using o(3) by (auto simp: as_l1_def is_fake_def split: if_splits)
  qed
qed

text \<open>A batch takes the real operations from the front of the queue.\<close>

lemma pp_batch_ok:
  assumes "env_ok e" "pp_ok s"
  shows "\<exists>batch q k. collect (\<lambda>_. pp_batch_operation e) xs s = (Inr batch, s\<lparr>pp_internal_queue := q, pp_tick := k\<rparr>) \<and>
           length batch = length xs \<and> trues batch @ q = pp_internal_queue s \<and>
           list_all (\<lambda>(op, b). replica_in (pp_replicas_of s) op \<and> (b \<or> is_fake op)) batch"
  using assms(2)
proof (induction xs arbitrary: s)
  case Nil
  then show ?case by (intro exI [of _ "[]"] exI [of _ "pp_internal_queue s"] exI [of _ "pp_tick s"]) (simp add: ret_apply trues_def)
next
  case (Cons x xs)
  obtain op b k where o:
    "pp_batch_operation e s = (Inr (op, b), s\<lparr>pp_internal_queue := (if b then tl (pp_internal_queue s) else pp_internal_queue s), pp_tick := k\<rparr>)"
    "replica_in (pp_replicas_of s) op" "if b then pp_internal_queue s \<noteq> [] \<and> as_l1 op = hd (pp_internal_queue s) else is_fake op"
    using pp_batch_operation_ok [OF assms(1) Cons.prems] .
  let ?t = "s\<lparr>pp_internal_queue := (if b then tl (pp_internal_queue s) else pp_internal_queue s), pp_tick := k\<rparr>"
  have "pp_queue_ok (pp_replicas_of s) (if b then tl (pp_internal_queue s) else pp_internal_queue s)"
    using pp_ok_queued [OF Cons.prems] by (rule pp_queue_ok_subset) (cases "pp_internal_queue s", auto)
  then have "pp_ok ?t" using pp_ok_queue [OF Cons.prems] by simp
  from Cons.IH [OF this] obtain batch q k' where i:
    "collect (\<lambda>_. pp_batch_operation e) xs ?t = (Inr batch, s\<lparr>pp_internal_queue := q, pp_tick := k'\<rparr>)"
    "length batch = length xs" "trues batch @ q = pp_internal_queue ?t"
    "list_all (\<lambda>(op, b). replica_in (pp_replicas_of s) op \<and> (b \<or> is_fake op)) batch"
    by auto
  have "collect (\<lambda>_. pp_batch_operation e) (x # xs) s = (Inr ((op, b) # batch), s\<lparr>pp_internal_queue := q, pp_tick := k'\<rparr>)"
    using o(1) i(1) by (simp add: collect_Cons del: collect.simps)
  moreover have "trues ((op, b) # batch) @ q = pp_internal_queue s"
    using o(3) i(3) by (cases "pp_internal_queue s") (auto simp: trues_def split: if_splits)
  ultimately show ?case using o(2,3) i(2,4)
    by (intro exI [of _ "(op, b) # batch"] exI [of _ q] exI [of _ k']) (auto split: if_splits)
qed

lemma pp_process_l2_ok:
  assumes "pp_ok s" "replica_in (pp_replicas_of s) op"
  shows "\<exists>t a. pp_process_l2 op s = (Inr (), t) \<and> pp_ok t \<and> access_of (pp_replica_to_label s) op a \<and>
           (pp_cache_enabled s \<and> l2_value op \<noteq> [] \<longrightarrow> l3_value a = l2_value op) \<and>
           (\<exists>c i. t = s\<lparr>pp_cache := c, pp_storage := Some i\<rparr>) \<and> pp_servers t = pp_servers s \<and>
           (\<forall>j < pp_servers s. pp_reads t j = pp_reads s j @ reads_of s j [a])"
proof -
  obtain n where n: "map_of (pp_replicas_of s) (l2_key op) = Some n" "0 \<le> l2_replica op" "l2_replica op < n"
    using assms(2) by (auto simp: replica_in_def)
  obtain i where i: "pp_storage s = Some i" "rd_ok i" using assms(1) by (auto simp: pp_ok_def pp_storage_ok_def)
  obtain l where l: "map_of (pp_replica_to_label s) (l2_key op @ to_string (l2_replica op)) = Some l"
    using assms(1) n unfolding pp_ok_def pp_tables_ok_def by blast
  define c where "c = (if pp_cache_enabled s \<and> l2_value op \<noteq> []
      then snd (populate_replica_updates (l2_key op) (l2_value op) n (pp_cache s)) else pp_cache s)"
  have bits: "length bits = nat m" if "map_of (pp_replicas_of s) k = Some m" "map_of c k = Some (v, bits)" for k m v bits
    using assms(1) that n(1) unfolding pp_ok_def pp_cache_ok_def by (auto simp: c_def populate_replica_updates_def split: if_splits)
  obtain upd where upd: "(if pp_cache_enabled s then check_for_update_immutable c (l2_key op) (l2_replica op) else Inr (l2_value op)) = Inr upd"
    and val: "pp_cache_enabled s \<and> l2_value op \<noteq> [] \<longrightarrow> upd = l2_value op"
  proof -
    have "\<exists>upd. check_for_update_immutable c (l2_key op) (l2_replica op) = Inr upd"
      using bits [OF n(1)] n(2,3) by (auto simp: check_for_update_immutable_def vec_at_def split: option.split)
    moreover have "check_for_update_immutable c (l2_key op) (l2_replica op) = Inr (l2_value op)" if "pp_cache_enabled s" "l2_value op \<noteq> []"
      using that n(2,3) by (simp add: c_def populate_replica_updates_def check_for_update_immutable_def vec_at_def)
    ultimately show thesis using that by (metis (full_types))
  qed
  let ?a = "\<lparr>l3_seq_id = l2_seq_id op, l3_label = to_string l, l3_value = upd, l3_plaintext = [],
                     l3_is_read = (l2_value op = []), l3_dedup = False\<rparr>"
  obtain r i' where g: "ri_async_get (to_string l) ?a i = (r, i')" by fastforce
  note f = ri_async_get_requests [OF i(2) g]
  let ?t = "s\<lparr>pp_cache := c, pp_storage := Some i'\<rparr>"
  have "pp_process_l2 op s = (Inr (), ?t)"
    using n(1) upd l i(1) g f(1)
    by (simp add: pp_process_l2_def bnd_apply gets_apply seqM_apply modify_apply lift_out_apply pp_on_storage_def c_def split: if_splits)
  moreover have "pp_ok ?t" using assms(1) bits f(2) by (simp add: pp_ok_def pp_storage_ok_def) (auto simp: pp_cache_ok_def)
  moreover have "access_of (pp_replica_to_label s) op ?a" using l by (simp add: access_of_def)
  moreover have "pp_servers ?t = pp_servers s" "\<forall>j < pp_servers s. pp_reads ?t j = pp_reads s j @ reads_of s j [?a]"
    using i(1) f(3,6) by (auto simp: pp_servers_def pp_reads_def reads_of_def)
  ultimately show ?thesis using val by (intro exI [of _ ?t] exI [of _ ?a]) auto
qed

lemma pp_process_batch_ok:
  assumes "pp_ok s" "list_all (\<lambda>(op, b). replica_in (pp_replicas_of s) op) batch"
  shows "\<exists>t as. for_each batch (\<lambda>(op, _). pp_process_l2 op) s = (Inr (), t) \<and> pp_ok t \<and> pp_internal_queue t = pp_internal_queue s \<and>
           list_all2 (\<lambda>(op, b) a. access_of (pp_replica_to_label s) op a \<and>
             (pp_cache_enabled s \<and> l2_value op \<noteq> [] \<longrightarrow> l3_value a = l2_value op)) batch as \<and>
           (\<forall>j < pp_servers s. pp_reads t j = pp_reads s j @ reads_of s j as)"
  using assms
proof (induction batch arbitrary: s)
  case Nil
  then show ?case by (intro exI [of _ s] exI [of _ "[]"]) (simp add: ret_apply reads_of_def)
next
  case (Cons p batch)
  obtain op b where p: "p = (op, b)" by (cases p)
  obtain t a c i where t: "pp_process_l2 op s = (Inr (), t)" "pp_ok t" "access_of (pp_replica_to_label s) op a"
    "pp_cache_enabled s \<and> l2_value op \<noteq> [] \<longrightarrow> l3_value a = l2_value op" "t = s\<lparr>pp_cache := c, pp_storage := Some i\<rparr>"
    "pp_servers t = pp_servers s" "\<forall>j < pp_servers s. pp_reads t j = pp_reads s j @ reads_of s j [a]"
    using pp_process_l2_ok [of s op] Cons.prems p by auto
  have same: "pp_replica_to_label t = pp_replica_to_label s" "pp_cache_enabled t = pp_cache_enabled s"
    "pp_internal_queue t = pp_internal_queue s" "pp_replicas_of t = pp_replicas_of s" using t(5) by simp_all
  have at: "reads_of t j = reads_of s j" for j using t(6) by (simp add: reads_of_def rd_server_def pp_servers_def fun_eq_iff)
  obtain u as where u: "for_each batch (\<lambda>(op, _). pp_process_l2 op) t = (Inr (), u)" "pp_ok u" "pp_internal_queue u = pp_internal_queue t"
    "list_all2 (\<lambda>(op, b) a. access_of (pp_replica_to_label s) op a \<and>
       (pp_cache_enabled s \<and> l2_value op \<noteq> [] \<longrightarrow> l3_value a = l2_value op)) batch as"
    "\<forall>j < pp_servers t. pp_reads u j = pp_reads t j @ reads_of t j as"
    using Cons.IH [OF t(2)] Cons.prems(2) same by auto
  have "for_each (p # batch) (\<lambda>(op, _). pp_process_l2 op) s = (Inr (), u)"
    using t(1) u(1) p by (simp add: for_each_Cons del: for_each.simps)
  moreover have "reads_of s j (a # as) = reads_of s j [a] @ reads_of s j as" for j by (simp add: reads_of_def)
  ultimately show ?case using t u p at same by (intro exI [of _ u] exI [of _ "a # as"]) auto
qed

section \<open>Properties\<close>

text \<open>
  C21. Every request of a client causes the same number of storage accesses: it is queued, and a batch of exactly \<^verbatim>\<open>security_batch_size_\<close> operations
  is made, each a request from the front of the queue or a fake read, on an existing replica of its key. Each of them becomes one read of the
  label of that replica, and an operation that writes carries its value. No other access is made, and no request is lost: those of the batch and
  those that stay in the queue are the requests that were queued, in order.
\<close>

theorem p_request_fixed_accesses:
  assumes "env_ok e" "pp_ok s" "map_of (pp_replicas_of s) (l1_key op) \<noteq> None"
  shows "\<exists>t batch as. pp_process_op e op s = (Inr (), t) \<and> pp_ok t \<and>
     length batch = nat (pp_security_batch_size s) \<and>
     trues batch @ pp_internal_queue t = pp_internal_queue s @ [op] \<and>
     list_all (\<lambda>(op, b). replica_in (pp_replicas_of s) op \<and> (b \<or> is_fake op)) batch \<and>
     list_all2 (\<lambda>(op, b) a. access_of (pp_replica_to_label s) op a \<and>
        (pp_cache_enabled s \<and> l2_value op \<noteq> [] \<longrightarrow> l3_value a = l2_value op)) batch as \<and>
     (\<forall>j < pp_servers s. pp_reads t j = pp_reads s j @ reads_of s j as)"
proof -
  let ?s = "s\<lparr>pp_internal_queue := pp_internal_queue s @ [op]\<rparr>"
  have q0: "pp_queue_ok (pp_replicas_of s) (pp_internal_queue s @ [op])"
    using pp_ok_queued [OF assms(2)] assms(3) by (auto simp: pp_queue_ok_def)
  then have ok: "pp_ok ?s" by (rule pp_ok_queue [OF assms(2)])
  obtain batch q k where b:
    "collect (\<lambda>_. pp_batch_operation e) [0..<nat (pp_security_batch_size s)] ?s = (Inr batch, ?s\<lparr>pp_internal_queue := q, pp_tick := k\<rparr>)"
    "length batch = nat (pp_security_batch_size s)" "trues batch @ q = pp_internal_queue s @ [op]"
    "list_all (\<lambda>(op, b). replica_in (pp_replicas_of s) op \<and> (b \<or> is_fake op)) batch"
    using pp_batch_ok [OF assms(1) ok, of "[0..<nat (pp_security_batch_size s)]"] by auto
  let ?u = "s\<lparr>pp_internal_queue := q, pp_tick := k\<rparr>"
  have "set q \<subseteq> set (pp_internal_queue s @ [op])" using b(3) by (metis set_append sup_ge2)
  then have ok: "pp_ok ?u" using pp_ok_queue [OF assms(2) pp_queue_ok_subset [OF q0]] by simp
  have la: "list_all (\<lambda>(op, b). replica_in (pp_replicas_of ?u) op) batch" using b(4) by (auto elim!: list.pred_mono_strong)
  have same: "pp_servers ?u = pp_servers s" "pp_reads ?u = pp_reads s" "reads_of ?u = reads_of s"
    by (simp_all add: pp_servers_def pp_reads_def reads_of_def fun_eq_iff)
  obtain t as where t: "for_each batch (\<lambda>(op, _). pp_process_l2 op) ?u = (Inr (), t)" "pp_ok t" "pp_internal_queue t = q"
    "list_all2 (\<lambda>(op, b) a. access_of (pp_replica_to_label s) op a \<and>
        (pp_cache_enabled s \<and> l2_value op \<noteq> [] \<longrightarrow> l3_value a = l2_value op)) batch as"
    "\<forall>j < pp_servers s. pp_reads t j = pp_reads s j @ reads_of s j as"
    using pp_process_batch_ok [OF ok la] unfolding same by auto
  have "pp_process_op e op s = (Inr (), t)"
    using b(1) t(1) by (simp add: pp_process_op_def pp_create_security_batch_def seqM_apply modify_apply bnd_apply gets_apply)
  with b t show ?thesis by (intro exI [of _ t] exI [of _ batch] exI [of _ as]) simp
qed

section \<open>Witnesses\<close>

definition example_pp :: "string p_proxy" where
  "example_pp = (projr (p_proxy_new example_openssl))
     \<lparr>pp_delta := 1 / 2, pp_replicas_of := [(''a'', 1), (''d'', 1)], pp_real := distribution_new [''a''] [1],
      pp_fake := distribution_new [''a'', ''d''] [1 / 2, 1 / 2], pp_replica_to_label := [(''a'' @ to_string 0, 7), (''d'' @ to_string 0, 8)],
      pp_storage := Some example_redis\<rparr>"

lemma example_pp_fields:
  "pp_replicas_of example_pp = [(''a'', 1), (''d'', 1)]" "pp_real example_pp = distribution_new [''a''] [1]"
  "pp_fake example_pp = distribution_new [''a'', ''d''] [1 / 2, 1 / 2]"
  "pp_replica_to_label example_pp = [(''a'' @ to_string 0, 7), (''d'' @ to_string 0, 8)]"
  "pp_internal_queue example_pp = []" "pp_cache example_pp = []" "pp_storage example_pp = Some example_redis"
  "pp_security_batch_size example_pp = 3"
proof -
  obtain g where "encryption_engine_new example_openssl = Inr g" using example_engine by blast
  then show "pp_replicas_of example_pp = [(''a'', 1), (''d'', 1)]" "pp_real example_pp = distribution_new [''a''] [1]"
    "pp_fake example_pp = distribution_new [''a'', ''d''] [1 / 2, 1 / 2]"
    "pp_replica_to_label example_pp = [(''a'' @ to_string 0, 7), (''d'' @ to_string 0, 8)]"
    "pp_internal_queue example_pp = []" "pp_cache example_pp = []" "pp_storage example_pp = Some example_redis"
    "pp_security_batch_size example_pp = 3"
    by (simp_all add: example_pp_def p_proxy_new_def)
qed

lemma example_pp_ok: "pp_ok example_pp"
proof -
  have "r = 0" if "0 \<le> r" "r < 1" for r :: int using that by simp
  then have "pp_tables_ok [(''a'', 1), (''d'', 1)] (distribution_new [''a''] [1]) (distribution_new [''a'', ''d''] [1 / 2, 1 / 2])
      [(''a'' @ to_string 0, 7), (''d'' @ to_string 0, 8)]"
    by (auto simp: pp_tables_ok_def samples_ok_def distribution_new_def ran_def split: if_splits)
  then show ?thesis
    by (simp add: pp_ok_def example_pp_fields pp_queue_ok_def pp_cache_ok_def pp_storage_ok_def example_redis_ok)
qed

theorem p_request_fixed_accesses_witness:
  "\<exists>t (batch :: (l2_operation \<times> bool) list) as. pp_process_op example_env (example_put ''a'' ''v'') example_pp = (Inr (), t) \<and>
     length batch = 3 \<and> trues batch @ pp_internal_queue t = [example_put ''a'' ''v''] \<and> pp_reads t 0 = map (\<lambda>a. (l3_label a, a)) as \<and>
     length as = 3"
proof -
  have k: "map_of (pp_replicas_of example_pp) (l1_key (example_put ''a'' ''v'')) \<noteq> None"
    by (simp add: example_pp_fields example_put_def)
  have srv: "rd_server (the (pp_storage example_pp)) k = 0" for k
    unfolding example_pp_fields option.sel by (rule rd_server_single [OF _ example_redis_ok]) (simp add: example_redis_def)
  have r: "pp_servers example_pp = 1" "pp_reads example_pp 0 = []" "reads_of example_pp 0 as = map (\<lambda>a. (l3_label a, a)) as" for as
    by (simp add: pp_servers_def example_pp_fields example_redis_def,
        simp add: pp_reads_def example_pp_fields example_redis_def gets_for_def, simp add: reads_of_def srv)
  from p_request_fixed_accesses [OF example_env_ok example_pp_ok k] obtain t batch as where
    t: "pp_process_op example_env (example_put ''a'' ''v'') example_pp = (Inr (), t)" "length batch = nat (pp_security_batch_size example_pp)"
      "trues batch @ pp_internal_queue t = pp_internal_queue example_pp @ [example_put ''a'' ''v'']"
      "list_all2 (\<lambda>(op, b) a. access_of (pp_replica_to_label example_pp) op a \<and>
        (pp_cache_enabled example_pp \<and> l2_value op \<noteq> [] \<longrightarrow> l3_value a = l2_value op)) batch as"
      "\<forall>j < pp_servers example_pp. pp_reads t j = pp_reads example_pp j @ reads_of example_pp j as"
    by (elim exE conjE) (rule that, assumption+)
  from t(2) list_all2_lengthD [OF t(4)] have "length batch = 3" "length as = 3" by (simp_all add: example_pp_fields)
  with t(1,3,5) r show ?thesis by (intro exI [of _ t] exI [of _ batch] exI [of _ as]) (simp add: example_pp_fields)
qed

end
