(* ===== verification/Storage.thy ===== *)
theory Storage
  imports Redis_Interface
begin

text \<open>
  libstorage/src/storage_interface.h, redis.h, redis.cpp, dummy_kv.h and dummy_kv.cpp: the storage of the baseline proxies. The asynchronous part of
  \<^verbatim>\<open>redis\<close> is the code of \<^verbatim>\<open>redis_interface\<close> with callbacks in the place of operations; the synchronous part waits for the reply of the
  server, which is a parameter: what each server answers at the time of the call. The traversal order of
  \<^verbatim>\<open>std::unordered_map\<close> is the parameter \<open>iter\<close>.
\<close>

type_synonym 'cb redis = "'cb redis_conns"

record 'r redis_server =
  sv_get :: "nat \<Rightarrow> string \<Rightarrow> 'r"
  sv_mget :: "nat \<Rightarrow> string list \<Rightarrow> 'r"
  sv_set :: "nat \<Rightarrow> string \<Rightarrow> string \<Rightarrow> 'r"
  sv_mset :: "nat \<Rightarrow> (string \<times> string) list \<Rightarrow> 'r"

section \<open>redis\<close>

definition redis_new :: "(string \<Rightarrow> int \<Rightarrow> bool) \<Rightarrow> string \<Rightarrow> int \<Rightarrow> int \<Rightarrow> 'cb redis outcome" where
  "redis_new up h p batch_size = redis_interface_new up h p batch_size"

definition redis_add_server :: "(string \<Rightarrow> int \<Rightarrow> bool) \<Rightarrow> string \<Rightarrow> int \<Rightarrow> ('cb redis, unit) cpp" where
  "redis_add_server up h p = ri_add_server up h p"

definition on_server :: "string \<Rightarrow> (nat \<Rightarrow> ('cb redis, 'v) cpp) \<Rightarrow> ('cb redis, 'v) cpp" where
  "on_server key f =
     bnd (gets (\<lambda>s. (consistent_hash key (int (length (rd_clients s))), rd_clients s))) (\<lambda>(idx, cs).
     bnd (lift_out (vec_at cs idx)) (\<lambda>_. f (nat idx)))"

definition redis_get :: "'r reply_api \<Rightarrow> 'r redis_server \<Rightarrow> string \<Rightarrow> ('cb redis, string) cpp" where
  "redis_get api srv key =
     on_server key (\<lambda>i. seqM (rd_send i (Get key))
       (let r = sv_get srv i key in
        if rp_is_error api r then throw (Runtime_error (rp_error api r)) else lift_out (rp_as_string api r)))"

definition redis_put :: "'r reply_api \<Rightarrow> 'r redis_server \<Rightarrow> string \<Rightarrow> string \<Rightarrow> ('cb redis, unit) cpp" where
  "redis_put api srv key val =
     on_server key (\<lambda>i. seqM (rd_send i (Set key val))
       (let r = sv_set srv i key val in if rp_is_error api r then throw (Runtime_error (rp_error api r)) else ret ()))"

text \<open>\<^verbatim>\<open>key_vectors[id].emplace_back(key)\<close> for each key in turn.\<close>

definition tab_append :: "'k \<Rightarrow> 'v \<Rightarrow> ('k, 'v list) table \<Rightarrow> ('k, 'v list) table" where
  "tab_append k v t = (case map_of t k of None \<Rightarrow> tab_put k [v] t | Some vs \<Rightarrow> tab_put k (vs @ [v]) t)"

definition group_by_server :: "nat \<Rightarrow> ('v \<Rightarrow> string) \<Rightarrow> 'v list \<Rightarrow> (int, 'v list) table" where
  "group_by_server n key_of vs = fold (\<lambda>v. tab_append (consistent_hash (key_of v) (int n)) v) vs []"

definition redis_get_batch ::
  "'r reply_api \<Rightarrow> 'r redis_server \<Rightarrow> ((int, string list) table \<Rightarrow> (int \<times> string list) list) \<Rightarrow> string list \<Rightarrow>
   ('cb redis, string list) cpp" where
  "redis_get_batch api srv iter keys =
     bnd (gets (\<lambda>s. iter (group_by_server (length (rd_clients s)) id keys))) (\<lambda>groups.
     seqM (for_each groups (\<lambda>(i, ks).
             bnd (gets rd_clients) (\<lambda>cs. bnd (lift_out (vec_at cs i)) (\<lambda>_. rd_send (nat i) (Mget ks [])))))
       (lift_out (bind_out (map_out (\<lambda>(i, ks). mget_values api (sv_mget srv (nat i) ks)) groups) (\<lambda>vss. Inr (concat vss)))))"

text \<open>\<^verbatim>\<open>values[i]\<close> is read for every key; the replies are awaited in the order of the requests.\<close>

definition redis_put_batch ::
  "'r reply_api \<Rightarrow> 'r redis_server \<Rightarrow> ((int, (string \<times> string) list) table \<Rightarrow> (int \<times> (string \<times> string) list) list) \<Rightarrow>
   string list \<Rightarrow> string list \<Rightarrow> ('cb redis, unit) cpp" where
  "redis_put_batch api srv iter keys vals =
     bnd (lift_out (map_out (\<lambda>i. bind_out (vec_at vals (int i)) (\<lambda>v. Inr (keys ! i, v))) [0..<length keys])) (\<lambda>kvs.
     bnd (gets (\<lambda>s. iter (group_by_server (length (rd_clients s)) fst kvs))) (\<lambda>groups.
     seqM (for_each groups (\<lambda>(i, g).
             bnd (gets rd_clients) (\<lambda>cs. bnd (lift_out (vec_at cs i)) (\<lambda>_. rd_send (nat i) (Mset g [])))))
       (for_each groups (\<lambda>(i, g).
          let r = sv_mset srv (nat i) g in if rp_is_error api r then throw (Runtime_error (rp_error api r)) else ret ()))))"

definition redis_async_get :: "string \<Rightarrow> 'cb \<Rightarrow> ('cb redis, unit) cpp" where
  "redis_async_get key cb = ri_async_get key cb"

definition redis_async_put :: "string \<Rightarrow> string \<Rightarrow> 'cb \<Rightarrow> ('cb redis, unit) cpp" where
  "redis_async_put key val cb = ri_async_put key val cb"

definition redis_flush_get_queue :: "int \<Rightarrow> ('cb redis, unit) cpp" where
  "redis_flush_get_queue idx = flush_get_queue idx"

definition redis_flush_put_queue :: "int \<Rightarrow> ('cb redis, unit) cpp" where
  "redis_flush_put_queue idx = flush_put_queue idx"

definition redis_flush :: "('cb redis, unit) cpp" where
  "redis_flush = ri_flush"

text \<open>The reply callbacks call back for one key after the other, also when a later value is missing.\<close>

definition redis_mget_reply :: "'r reply_api \<Rightarrow> (string \<Rightarrow> ('s, unit) cpp) list \<Rightarrow> 'r \<Rightarrow> ('s, unit) cpp" where
  "redis_mget_reply api cbs r =
     (if rp_is_error api r then throw (Runtime_error (rp_error api r))
      else if rp_is_null api r then throw (Runtime_error ''GET returned NULL value'')
      else bnd (lift_out (rp_as_array api r)) (\<lambda>rs.
             for_each (enumerate 0 rs) (\<lambda>(i, nested).
               bnd (lift_out (nested_value api nested)) (\<lambda>v.
               bnd (lift_out (vec_at cbs (int i))) (\<lambda>cb. cb v)))))"

definition redis_mset_reply :: "'r reply_api \<Rightarrow> ('s, unit) cpp list \<Rightarrow> 'r \<Rightarrow> ('s, unit) cpp" where
  "redis_mset_reply api cbs r =
     (if rp_is_error api r then throw (Runtime_error (rp_error api r)) else for_each cbs id)"

section \<open>dummy\_kv\<close>

record dummy_kv =
  val_size :: int
  dummy_val :: string

definition dummy_kv_new :: "int \<Rightarrow> dummy_kv" where
  "dummy_kv_new n = \<lparr>val_size = n, dummy_val = replicate (nat n) (CHR ''0'')\<rparr>"

definition dummy_add_server :: "string \<Rightarrow> int \<Rightarrow> dummy_kv \<Rightarrow> dummy_kv" where
  "dummy_add_server h p d = d"

definition dummy_get :: "dummy_kv \<Rightarrow> string \<Rightarrow> string" where
  "dummy_get d key = dummy_val d"

definition dummy_get_batch :: "dummy_kv \<Rightarrow> string list \<Rightarrow> string list" where
  "dummy_get_batch d keys = map (\<lambda>_. dummy_val d) keys"

definition dummy_put :: "string \<Rightarrow> string \<Rightarrow> dummy_kv \<Rightarrow> dummy_kv" where
  "dummy_put key val d = d"

definition dummy_put_batch :: "string list \<Rightarrow> string list \<Rightarrow> dummy_kv \<Rightarrow> dummy_kv" where
  "dummy_put_batch keys vals d = d"

definition dummy_async_get :: "dummy_kv \<Rightarrow> string \<Rightarrow> (string \<Rightarrow> ('s, unit) cpp) \<Rightarrow> ('s, unit) cpp" where
  "dummy_async_get d key cb = cb (dummy_val d)"

definition dummy_async_put :: "string \<Rightarrow> string \<Rightarrow> ('s, unit) cpp \<Rightarrow> ('s, unit) cpp" where
  "dummy_async_put key val cb = cb"

definition dummy_flush :: "dummy_kv \<Rightarrow> dummy_kv" where
  "dummy_flush d = d"

section \<open>Batches\<close>

lemma mset_tab_put_concat:
  assumes "map_of t k = Some vs" "distinct (map fst t)"
  shows "mset (concat (map snd (tab_put k (vs @ [v]) t))) = add_mset v (mset (concat (map snd t)))"
  using assms by (induction t) (auto simp: tab_put_def)

lemma mset_concat_snd_cong:
  assumes "mset xs = mset ys"
  shows "mset (concat (map snd xs)) = mset (concat (map snd ys))"
proof -
  have "mset (concat (map snd zs)) = \<Sum>\<^sub># (image_mset (\<lambda>g. mset (snd g)) (mset zs))" for zs :: "('a \<times> 'b list) list"
    by (induction zs) auto
  then show ?thesis by (simp only: assms)
qed

lemma distinct_keys_single:
  assumes "distinct (map fst t)" "t \<noteq> []" "\<forall>g \<in> set t. g = p"
  shows "t = [p]"
proof (cases t)
  case (Cons g gs)
  with assms show ?thesis by (cases gs) auto
qed (use assms in simp)

lemma group_step:
  assumes "table_ok t"
  shows "table_ok (tab_append k v t)"
    and "mset (concat (map snd (tab_append k v t))) = add_mset v (mset (concat (map snd t)))"
    and "map_of (tab_append k v t) = (map_of t)(k \<mapsto> (case map_of t k of None \<Rightarrow> [v] | Some vs \<Rightarrow> vs @ [v]))"
proof -
  show "table_ok (tab_append k v t)" using assms by (simp add: tab_append_def split: option.split)
  show "map_of (tab_append k v t) = (map_of t)(k \<mapsto> (case map_of t k of None \<Rightarrow> [v] | Some vs \<Rightarrow> vs @ [v]))"
    by (simp add: tab_append_def split: option.split)
  show "mset (concat (map snd (tab_append k v t))) = add_mset v (mset (concat (map snd t)))"
  proof (cases "map_of t k")
    case None
    then show ?thesis by (simp add: tab_append_def tab_put_fresh)
  next
    case (Some vs)
    then show ?thesis using assms mset_tab_put_concat [of t k vs v] by (simp add: tab_append_def table_ok_def)
  qed
qed

lemma group_by_server:
  "table_ok (group_by_server n f vs) \<and> mset (concat (map snd (group_by_server n f vs))) = mset vs \<and>
   (\<forall>i. map_of (group_by_server n f vs) i =
      (let ws = filter (\<lambda>v. consistent_hash (f v) (int n) = i) vs in if ws = [] then None else Some ws))"
proof (induction vs rule: rev_induct)
  case Nil
  then show ?case by (simp add: group_by_server_def)
next
  case (snoc v vs)
  let ?t = "group_by_server n f vs" and ?h = "consistent_hash (f v) (int n)"
  have step: "group_by_server n f (vs @ [v]) = tab_append ?h v ?t" by (simp add: group_by_server_def)
  have ok: "table_ok ?t" using snoc by simp
  show ?case unfolding step using group_step [OF ok, of ?h v] snoc by (auto simp: Let_def)
qed

lemma group_map_of:
  assumes "map_of (group_by_server n f vs) i = Some ks"
  shows "ks = filter (\<lambda>v. consistent_hash (f v) (int n) = i) vs" and "ks \<noteq> []"
proof -
  have "(let ws = filter (\<lambda>v. consistent_hash (f v) (int n) = i) vs in if ws = [] then None else Some ws) = Some ks"
    using group_by_server [of n f vs] assms by metis
  then show "ks = filter (\<lambda>v. consistent_hash (f v) (int n) = i) vs" "ks \<noteq> []"
    by (auto simp: Let_def split: if_splits)
qed

lemma group_members:
  assumes "(i, ks) \<in> set (group_by_server n f vs)"
  shows "ks = filter (\<lambda>v. consistent_hash (f v) (int n) = i) vs" and "ks \<noteq> []"
proof -
  have "distinct (map fst (group_by_server n f vs))" using group_by_server [of n f vs] by (simp only: table_ok_def)
  then have m: "map_of (group_by_server n f vs) i = Some ks" using assms by (rule map_of_is_SomeI)
  show "ks = filter (\<lambda>v. consistent_hash (f v) (int n) = i) vs" "ks \<noteq> []" by (rule group_map_of [OF m])+
qed

lemma send_groups_ok:
  assumes "list_all (\<lambda>(i, vs). 0 \<le> i \<and> i < int (length (rd_clients s))) gs"
  shows "\<exists>t. for_each gs (\<lambda>(i, vs). bnd (gets rd_clients) (\<lambda>cs. bnd (lift_out (vec_at cs i)) (\<lambda>_. rd_send (nat i) (cmd vs)))) s = (Inr (), t) \<and>
           length (rd_clients t) = length (rd_clients s)"
  using assms
proof (induction gs arbitrary: s)
  case Nil
  then show ?case by (simp add: ret_apply)
next
  case (Cons g gs)
  obtain i vs where g: "g = (i, vs)" by (cases g)
  let ?t = "s\<lparr>rd_clients := (rd_clients s)[nat i := (rd_clients s ! nat i)\<lparr>cl_sent := cl_sent (rd_clients s ! nat i) @ [cmd vs]\<rparr>]\<rparr>"
  have "bnd (gets rd_clients) (\<lambda>cs. bnd (lift_out (vec_at cs i)) (\<lambda>_. rd_send (nat i) (cmd vs))) s = (Inr (), ?t)"
    using Cons.prems by (auto simp: g cpp_simps rd_send_def)
  with Cons.IH [of ?t] Cons.prems show ?case by (auto simp: g for_each_Cons simp del: for_each.simps)
qed

text \<open>
  The batched read of libstorage returns the values grouped by server: for servers that answer every \<^verbatim>\<open>MGET\<close>, the result is the list of the values of all keys,
  each once, but in the order of the groups, which is the traversal order of a hash table, and not in the order of the
  keys, unless there is only one server.
\<close>

lemma redis_get_batch_grouped:
  assumes "rd_ok s" "iter_ok iter" "\<And>i ks. mget_values api (sv_mget srv i ks) = Inr (map (st i) ks)"
  shows "\<exists>t ks. redis_get_batch api srv iter keys s = (Inr (map (\<lambda>k. st (rd_server s k) k) ks), t) \<and>
           ks = concat (map snd (iter (group_by_server (length (rd_clients s)) id keys))) \<and> mset ks = mset keys \<and>
           (length (rd_clients s) = 1 \<longrightarrow> ks = keys)"
proof -
  let ?n = "length (rd_clients s)"
  let ?t = "group_by_server ?n id keys"
  let ?gs = "iter ?t"
  have set: "set ?gs = set ?t" and ms: "mset ?gs = mset ?t" using assms(2) by (auto simp: iter_ok_def dest: mset_eq_setD)
  have r: "0 \<le> consistent_hash k (int ?n)" "consistent_hash k (int ?n) < int ?n" for k
    using rd_server_in [OF assms(1), of k] by auto
  have mem: "i = consistent_hash k (int ?n)" if "(i, ks) \<in> set ?gs" "k \<in> set ks" for i ks k
    using group_members(1) [of i ks ?n id keys] that set by simp
  have ne: "ks \<noteq> []" if "(i, ks) \<in> set ?gs" for i ks
    using group_members(2) [of i ks ?n id keys] that set by simp
  have rng: "list_all (\<lambda>(i, vs). 0 \<le> i \<and> i < int ?n) ?gs"
    unfolding list_all_iff using mem ne r by (auto; metis hd_in_set)
  obtain u where u: "for_each ?gs (\<lambda>(i, ks). bnd (gets rd_clients) (\<lambda>cs. bnd (lift_out (vec_at cs i)) (\<lambda>_. rd_send (nat i) (Mget ks [])))) s = (Inr (), u)"
    using send_groups_ok [OF rng, of "\<lambda>ks. Mget ks []"] by blast
  have vals: "map_out (\<lambda>(i, ks). mget_values api (sv_mget srv (nat i) ks)) gs =
      Inr (map (\<lambda>(i, ks). map (\<lambda>k. st (rd_server s k) k) ks) gs)" if "set gs \<subseteq> set ?gs" for gs
    using that
  proof (induction gs)
    case (Cons g gs)
    obtain i ks where g: "g = (i, ks)" by (cases g)
    have "(i, ks) \<in> set ?gs" using Cons.prems unfolding g by (simp only: list.set insert_subset)
    then have "map (st (nat i)) ks = map (\<lambda>k. st (rd_server s k) k) ks"
      using mem [of i ks] unfolding rd_server_def by (intro map_cong refl) (metis (no_types))
    with Cons show ?case by (simp add: g assms(3))
  qed simp
  let ?ks = "concat (map snd ?gs)"
  have "redis_get_batch api srv iter keys s = (Inr (map (\<lambda>k. st (rd_server s k) k) ?ks), u)"
    using u vals [OF subset_refl] by (simp add: redis_get_batch_def bnd_apply gets_apply seqM_apply lift_out_apply map_concat case_prod_unfold comp_def)
  moreover have "mset ?ks = mset keys"
    using group_by_server [of ?n id keys] mset_concat_snd_cong [OF ms] by simp
  moreover have "?ks = keys" if one: "?n = 1"
  proof (cases "keys = []")
    case False
    have z: "consistent_hash k (int ?n) = 0" for k using r [of k] one by simp
    have all: "g = (0, keys)" if "g \<in> set ?t" for g
    proof -
      obtain i ks where g: "g = (i, ks)" by (cases g)
      note f = group_members [of i ks ?n id keys]
      have "ks = filter (\<lambda>v. consistent_hash (id v) (int ?n) = i) keys" "ks \<noteq> []" using f that g by auto
      then show ?thesis by (simp add: z g filter_empty_conv split: if_splits)
    qed
    have "distinct (map fst ?t)" using group_by_server [of ?n id keys] by (simp only: table_ok_def)
    moreover have "?t \<noteq> []" using group_by_server [of ?n id keys] False by (metis concat.simps(1) list.map(1) mset_zero_iff_right mset.simps(1))
    ultimately have "?t = [(0, keys)]" using all by (intro distinct_keys_single) blast+
    with ms show ?thesis by simp
  qed (use \<open>mset ?ks = mset keys\<close> in simp)
  ultimately show ?thesis by blast
qed

end
