(* ===== verification/Pancake_Proxy.thy ===== *)
theory Pancake_Proxy
  imports Storage L3_Proxy Initializer Update_Cache
begin

text \<open>
  proxy/src/pancake_proxy.h, pancake_proxy.cpp and operation.h: the first Pancake proxy, which the others were derived from. It is compiled
  into the server, and only the test program tests/src/pancake\_test.cpp creates it. It has a queue and a consumer thread per core, reads and
  writes the storage synchronously in batches, and can move labels between keys when the distribution changes. A promise is a
  position in \<open>pan_promises\<close>, \<open>None\<close> until its value is set, and a future is that position, or \<open>None\<close> when \<^verbatim>\<open>get\<close> has been called on it.
  Every function is one step of the thread that runs it: the accesses of several consumers to the hash tables are not interleaved. The test creates the proxy
  with \<^verbatim>\<open>std::make_shared<pancake_proxy>()\<close>, which value-initialises it: members without an initialiser, such as \<^verbatim>\<open>p_max_\<close>, are zero.
\<close>

section \<open>operation.h\<close>

record operation =
  po_key :: string
  po_value :: string

definition operation_new :: operation where
  "operation_new = \<lparr>po_key = [], po_value = []\<rparr>"

text \<open>The assignment operator returns its left operand as it is.\<close>

definition operation_assign :: "operation \<Rightarrow> operation \<Rightarrow> operation" where
  "operation_assign lhs rhs = lhs"

definition operation_eq :: "operation \<Rightarrow> operation \<Rightarrow> bool" where
  "operation_eq a b \<longleftrightarrow> (if po_key a \<noteq> po_key b then False else if po_value a \<noteq> po_value b then False else True)"

definition operation_ne :: "operation \<Rightarrow> operation \<Rightarrow> bool" where
  "operation_ne a b \<longleftrightarrow> \<not> operation_eq a b"

section \<open>State\<close>

record 'k pancake_proxy =
  pan_server_host :: string
  pan_server_port :: int
  pan_security_batch_size :: int
  pan_object_size :: int
  pan_server_count :: int
  pan_server_type :: string
  pan_storage_batch_size :: int
  pan_is_static :: bool
  pan_storage :: "unit redis option"
  pan_queues :: "(operation \<times> nat) work_queue list"
  pan_cache :: uc_map
  pan_missing :: uc_map
  pan_frequency :: "(string, int) table"
  pan_new_frequency :: "(string, int) table"
  pan_label_count :: int
  pan_dummy_keys :: int
  pan_p_max :: rat
  pan_alpha :: rat
  pan_delta :: rat
  pan_dummy_key :: string
  pan_replicas_of :: "(string, int) table"
  pan_replica_to_label :: "(string, int) table"
  pan_fake :: distribution
  pan_real :: distribution
  pan_engine :: "'k encryption_engine"
  pan_promises :: "string option list"
  pan_finished :: bool
  pan_clients :: client_map
  pan_respond_queue :: "(int \<times> nat option list) work_queue"
  pan_sequence_queue :: "sequence_id work_queue"
  pan_tick :: nat

definition pancake_proxy_new :: "'k openssl \<Rightarrow> string \<Rightarrow> 'k pancake_proxy outcome" where
  "pancake_proxy_new os dummy =
     bind_out (encryption_engine_new os) (\<lambda>g.
       Inr \<lparr>pan_server_host = ''127.0.0.1'', pan_server_port = 50054, pan_security_batch_size = 3, pan_object_size = 1024, pan_server_count = 1,
            pan_server_type = ''redis'', pan_storage_batch_size = 40, pan_is_static = True, pan_storage = None, pan_queues = [],
            pan_cache = [], pan_missing = [], pan_frequency = [], pan_new_frequency = [], pan_label_count = 0, pan_dummy_keys = 0,
            pan_p_max = 0, pan_alpha = 0, pan_delta = 0, pan_dummy_key = dummy, pan_replicas_of = [], pan_replica_to_label = [],
            pan_fake = distribution_empty, pan_real = distribution_empty, pan_engine = g, pan_promises = [], pan_finished = False,
            pan_clients = [], pan_respond_queue = wq_new, pan_sequence_queue = wq_new, pan_tick = 0\<rparr>)"

text \<open>What is not in the repository: the reply accessors, what the servers answer, and the traversal orders of hash tables.\<close>

record 'r pan_env =
  pe_api :: "'r reply_api"
  pe_server :: "'r redis_server"
  pe_get_iter :: "(int, string list) table \<Rightarrow> (int \<times> string list) list"
  pe_put_iter :: "(int, (string \<times> string) list) table \<Rightarrow> (int \<times> (string \<times> string) list) list"
  pe_cache_iter :: "uc_map \<Rightarrow> (string \<times> uc_entry) list"

definition pan_next_tick :: "('k pancake_proxy, nat) cpp" where
  "pan_next_tick s = (Inr (pan_tick s), s\<lparr>pan_tick := pan_tick s + 1\<rparr>)"

definition pan_assert :: "'k openssl \<Rightarrow> bool \<Rightarrow> ('s, unit) cpp" where
  "pan_assert os ok = (if ok \<or> ndebug os then ret () else throw Process_exit)"

definition pan_on_storage :: "(unit redis, 'v) cpp \<Rightarrow> ('k pancake_proxy, 'v) cpp" where
  "pan_on_storage m s =
     (case pan_storage s of
        None \<Rightarrow> (Inl (Undefined_behaviour ''null pointer''), s)
      | Some i \<Rightarrow> (let (r, i') = m i in (r, s\<lparr>pan_storage := Some i'\<rparr>)))"

section \<open>Replicas\<close>

text \<open>The loop of \<^verbatim>\<open>insert_replicas\<close>; \<open>labels\<close> is its local vector.\<close>

fun pan_insert_loop :: "(string list \<Rightarrow> ('k pancake_proxy, unit) cpp) \<Rightarrow> string \<Rightarrow> nat list \<Rightarrow> string list \<Rightarrow> ('k pancake_proxy, string list) cpp" where
  "pan_insert_loop put key [] labels = ret labels"
| "pan_insert_loop put key (i # is) labels =
     bnd (gets pan_label_count) (\<lambda>c.
     seqM (modify (\<lambda>s. s\<lparr>pan_replica_to_label := tab_put (key @ to_string (int i)) c (pan_replica_to_label s)\<rparr>))
       (let labels' = labels @ [to_string c] in
        bnd (if 50 \<le> length labels' then seqM (put labels') (ret []) else ret labels') (\<lambda>rest.
        seqM (modify (\<lambda>s. s\<lparr>pan_label_count := pan_label_count s + 1\<rparr>)) (pan_insert_loop put key is rest))))"

definition pan_insert_replicas :: "env \<Rightarrow> 'k openssl \<Rightarrow> 'r pan_env \<Rightarrow> string \<Rightarrow> int \<Rightarrow> ('k pancake_proxy, unit) cpp" where
  "pan_insert_replicas e os pe key num_replicas =
     bnd (gets (\<lambda>s. (pan_tick s, nat (pan_object_size s), pan_engine s))) (\<lambda>(t, n, g).
     seqM (modify (\<lambda>s. s\<lparr>pan_tick := t + n\<rparr>))
     (bnd (lift_out (ee_encrypt os g (rand_str (map (env_rand e) [t..<t + n])))) (\<lambda>value_cipher.
      let put = \<lambda>labels. pan_on_storage (redis_put_batch (pe_api pe) (pe_server pe) (pe_put_iter pe) labels (replicate (length labels) value_cipher)) in
      bnd (pan_insert_loop put key [0..<nat num_replicas] []) (\<lambda>labels. if labels \<noteq> [] then put labels else ret ()))))"

text \<open>
  The number of replicas, and the fake probability of a key. A quotient by zero is infinite or not a number: no such value converts to \<^verbatim>\<open>int\<close>, and
  \<^verbatim>\<open>std::discrete_distribution\<close> requires finite weights. A zero \<open>delta\<close> makes the divisor infinite and the quotient zero.
\<close>

definition pan_replica_count :: "rat \<Rightarrow> rat \<Rightarrow> int outcome" where
  "pan_replica_count alpha p =
     (if alpha = 0 then Inl (Undefined_behaviour ''conversion out of range'') else to_int (of_int (replica_count alpha p)))"

definition pan_divide :: "rat \<Rightarrow> rat \<Rightarrow> rat outcome" where
  "pan_divide x delta =
     (if delta = 0 then Inr 0
      else let d = dsub (ddiv 1 delta) 1 in
           if d = 0 then Inl (Undefined_behaviour ''weight of a distribution'') else Inr (ddiv x d))"

definition pan_fake_prob :: "rat \<Rightarrow> rat \<Rightarrow> rat \<Rightarrow> int \<Rightarrow> rat outcome" where
  "pan_fake_prob alpha delta p r =
     (if r = 0 then Inl (Undefined_behaviour ''weight of a distribution'')
      else pan_divide (dmul (of_int r) (dsub alpha (ddiv p (of_int r)))) delta)"

text \<open>One turn of the loop of \<^verbatim>\<open>create_replicas\<close>: the fake probability of the key and its number of replicas.\<close>

definition pan_create_key :: "env \<Rightarrow> 'k openssl \<Rightarrow> 'r pan_env \<Rightarrow> rat list \<Rightarrow> nat \<times> string \<Rightarrow> ('k pancake_proxy, rat \<times> string \<times> int) cpp" where
  "pan_create_key e os pe probabilities ik =
     (case ik of (index, key) \<Rightarrow>
        bnd (lift_out (vec_at probabilities (int index))) (\<lambda>p.
        bnd (lift_out (to_int p)) (\<lambda>f.
        seqM (modify (\<lambda>s. s\<lparr>pan_frequency := tab_put key f (pan_frequency s)\<rparr>))
        (bnd (gets (\<lambda>s. (pan_alpha s, pan_delta s))) (\<lambda>(alpha, delta).
         bnd (lift_out (pan_replica_count alpha p)) (\<lambda>r.
         bnd (lift_out (pan_fake_prob alpha delta p r)) (\<lambda>pf.
         seqM (modify (\<lambda>s. s\<lparr>pan_replicas_of := tab_put key r (pan_replicas_of s)\<rparr>))
           (seqM (pan_insert_replicas e os pe key r) (ret (pf, key, r))))))))))"

definition pan_create_replicas :: "env \<Rightarrow> 'k openssl \<Rightarrow> 'r pan_env \<Rightarrow> ('k pancake_proxy, unit) cpp" where
  "pan_create_replicas e os pe =
     bnd (gets pan_real) (\<lambda>d.
     bnd (collect (pan_create_key e os pe (dist_probs d)) (enumerate 0 (dist_items d))) (\<lambda>created.
     bnd (gets (\<lambda>s. (pan_dummy_key s, pan_alpha s, pan_delta s))) (\<lambda>(dummy, alpha, delta).
     let r = dummy_count (length (dist_items d)) (sum_list (map (\<lambda>(f, k, n). n) created)) in
     seqM (modify (\<lambda>s. s\<lparr>pan_dummy_keys := r\<rparr>))
     (bnd (if r \<noteq> 0
           then bnd (lift_out (pan_divide alpha delta)) (\<lambda>q.
                seqM (modify (\<lambda>s. s\<lparr>pan_replicas_of := tab_put dummy r (pan_replicas_of s)\<rparr>))
                  (seqM (pan_insert_replicas e os pe dummy r)
                    (ret (map fst created @ [dmul q (of_int r)], map snd created @ [(dummy, r)]))))
           else ret (map fst created, map snd created)) (\<lambda>(fps, pairs).
        modify (\<lambda>s. s\<lparr>pan_cache := uc_new pairs, pan_fake := distribution_new (dist_items d @ [dummy]) fps\<rparr>))))))"

text \<open>\<open>pan_open\<close> is the local storage of a consumer thread; \<open>cores\<close> is the number of processors that are online. The threads are steps below.\<close>

definition pan_add_servers :: "env \<Rightarrow> ('k pancake_proxy, unit) cpp" where
  "pan_add_servers e =
     bnd (gets (\<lambda>s. (pan_server_host s, pan_server_port s, pan_server_count s))) (\<lambda>(h, p, n).
       for_each [1..<nat n] (\<lambda>k. pan_on_storage (redis_add_server (env_up e) h (p + int k))))"

definition pan_init :: "env \<Rightarrow> 'k openssl \<Rightarrow> 'r pan_env \<Rightarrow> nat \<Rightarrow> distribution \<Rightarrow> rat \<Rightarrow> rat \<Rightarrow> client_map \<Rightarrow> ('k pancake_proxy, unit) cpp" where
  "pan_init e os pe cores rdist alpha delta clients =
     seqM (modify (\<lambda>s. s\<lparr>pan_real := rdist, pan_alpha := alpha, pan_delta := delta, pan_clients := clients\<rparr>))
     (bnd (gets (\<lambda>s. (pan_server_type s, pan_server_host s, pan_server_port s))) (\<lambda>(t, h, p).
      seqM (if t = ''redis'' then bnd (lift_out (redis_new (env_up e) h p 1)) (\<lambda>i. modify (\<lambda>s. s\<lparr>pan_storage := Some i\<rparr>)) else ret ())
      (seqM (pan_add_servers e)
      (seqM (pan_create_replicas e os pe)
        (modify (\<lambda>s. s\<lparr>pan_queues := pan_queues s @ replicate cores wq_new\<rparr>))))))"

definition pan_open :: "env \<Rightarrow> 'k pancake_proxy \<Rightarrow> unit redis option outcome" where
  "pan_open e s =
     bind_out (if pan_server_type s = ''redis'' then bind_out (redis_new (env_up e) (pan_server_host s) (pan_server_port s) 1) (\<lambda>i. Inr (Some i))
               else Inr None) (\<lambda>i.
       fst (seqM (pan_add_servers e) (gets pan_storage) (s\<lparr>pan_storage := i\<rparr>)))"

section \<open>A new distribution\<close>

text \<open>\<^verbatim>\<open>operator[]\<close> on a table of \<open>tab\<close>: a key that is not there is inserted with the value zero.\<close>

definition pan_at ::
  "('s \<Rightarrow> (string, int) table) \<Rightarrow> (((string, int) table \<Rightarrow> (string, int) table) \<Rightarrow> 's \<Rightarrow> 's) \<Rightarrow> string \<Rightarrow> ('s, int) cpp" where
  "pan_at tab upd key s =
     (case map_of (tab s) key of None \<Rightarrow> (Inr 0, upd (tab_put key 0) s) | Some v \<Rightarrow> (Inr v, s))"

text \<open>The loop over the locked table of missing replicas computes the new \<^verbatim>\<open>p_max_\<close>.\<close>

definition pan_max_step :: "'k openssl \<Rightarrow> string \<times> uc_entry \<Rightarrow> rat \<Rightarrow> ('k pancake_proxy, rat) cpp" where
  "pan_max_step os kb m =
     (case kb of (key, _, bits) \<Rightarrow>
        bnd (pan_at pan_replicas_of pan_replicas_of_update key) (\<lambda>r.
        seqM (pan_assert os (int (length bits) = r))
        (bnd (pan_at pan_new_frequency pan_new_frequency_update key) (\<lambda>p. ret (if m > of_int p then m else of_int p)))))"

fun pan_max_loop :: "'k openssl \<Rightarrow> (string \<times> uc_entry) list \<Rightarrow> rat \<Rightarrow> ('k pancake_proxy, rat) cpp" where
  "pan_max_loop os [] m = ret m"
| "pan_max_loop os (kb # kbs) m = bnd (pan_max_step os kb m) (pan_max_loop os kbs)"

definition pan_new_fake :: "rat \<Rightarrow> rat list \<Rightarrow> nat \<times> string \<Rightarrow> ('k pancake_proxy, rat) cpp" where
  "pan_new_fake p_max probabilities ik =
     (case ik of (index, key) \<Rightarrow>
        bnd (pan_at pan_replicas_of pan_replicas_of_update key) (\<lambda>r.
        bnd (lift_out (vec_at probabilities (int index))) (\<lambda>p. ret (dsub (dmul (of_int r) p_max) p))))"

text \<open>Without keys \<^verbatim>\<open>p_max_\<close> is infinite or its product with zero not a number, which is not a weight.\<close>

definition pan_recompute_fake_distribution :: "'k openssl \<Rightarrow> 'r pan_env \<Rightarrow> distribution \<Rightarrow> ('k pancake_proxy, unit) cpp" where
  "pan_recompute_fake_distribution os pe d =
     (let n = length (dist_items d) in
      if n = 0 then throw (Undefined_behaviour ''weight of a distribution'')
      else
        bnd (gets (\<lambda>s. pe_cache_iter pe (pan_missing s))) (\<lambda>locked.
        bnd (pan_max_loop os locked (ddiv 1 (of_nat n))) (\<lambda>p_max.
        seqM (modify (\<lambda>s. s\<lparr>pan_p_max := p_max\<rparr>))
        (bnd (collect (pan_new_fake p_max (dist_probs d)) (enumerate 0 (dist_items d))) (\<lambda>fps.
          modify (\<lambda>s. s\<lparr>pan_fake := distribution_new (dist_items d @ [pan_dummy_key s]) (fps @ [dmul (of_int (pan_dummy_keys s)) p_max])\<rparr>))))))"

text \<open>
  \<^verbatim>\<open>label = replica_to_label_[...]\<close> assigns an \<^verbatim>\<open>int\<close> to a \<^verbatim>\<open>std::string\<close>: the overload for \<^verbatim>\<open>char\<close> takes it, and
  the string is one character.
\<close>

definition freed_label :: "int \<Rightarrow> string" where
  "freed_label l = [char_of (nat (l mod 256))]"

definition pan_free_replica :: "'k openssl \<Rightarrow> string \<Rightarrow> int \<Rightarrow> ('k pancake_proxy, string) cpp" where
  "pan_free_replica os key i =
     (let replica = key @ to_string i in
      bnd (gets (\<lambda>s. map_of (pan_replica_to_label s) replica)) (\<lambda>it.
      seqM (pan_assert os (it \<noteq> None))
      (bnd (pan_at pan_replica_to_label pan_replica_to_label_update replica) (\<lambda>l.
       seqM (modify (\<lambda>s. s\<lparr>pan_replica_to_label := tab_erase replica (pan_replica_to_label s)\<rparr>)) (ret (freed_label l))))))"

text \<open>The two vectors are arguments and results.\<close>

definition pan_prepare_for_swapping ::
  "'k openssl \<Rightarrow> string \<Rightarrow> int \<Rightarrow> int \<Rightarrow> string list \<times> (string \<times> int) list \<Rightarrow> ('k pancake_proxy, string list \<times> (string \<times> int) list) cpp" where
  "pan_prepare_for_swapping os key r_new r_old un =
     (case un of (unassigned, needs) \<Rightarrow>
        if r_new > r_old
        then seqM (modify (\<lambda>s. if key \<noteq> pan_dummy_key s then s\<lparr>pan_missing := edit_bit_vector_size key r_new (pan_missing s)\<rparr> else s))
               (ret (unassigned, needs @ map (Pair key) [r_old..r_new - 1]))
        else if r_new < r_old
        then bnd (collect (pan_free_replica os key) [r_new..r_old - 1]) (\<lambda>labels. ret (unassigned @ labels, needs))
        else ret (unassigned, needs))"

definition pan_perform_swapping :: "string list \<Rightarrow> (string \<times> int) list \<Rightarrow> ('k pancake_proxy, int) cpp" where
  "pan_perform_swapping unassigned needs =
     seqM (for_each (enumerate 0 needs) (\<lambda>(i, key, r).
             bnd (lift_out (vec_at unassigned (int i))) (\<lambda>label.
             bnd (lift_out (stoi label)) (\<lambda>l.
               modify (\<lambda>s. s\<lparr>pan_replica_to_label := tab_put (key @ to_string r) l (pan_replica_to_label s)\<rparr>)))))
       (ret (int (length needs)))"

text \<open>One turn of the loop of \<^verbatim>\<open>update_distribution\<close>; \<open>num\<close> is \<^verbatim>\<open>new_num_real_replicas\<close>.\<close>

definition pan_update_key ::
  "'k openssl \<Rightarrow> rat list \<Rightarrow> nat \<times> string \<Rightarrow> int \<times> string list \<times> (string \<times> int) list \<Rightarrow>
   ('k pancake_proxy, int \<times> string list \<times> (string \<times> int) list) cpp" where
  "pan_update_key os probabilities ik acc =
     (case ik of (index, key) \<Rightarrow> case acc of (num, un) \<Rightarrow>
        bnd (lift_out (vec_at probabilities (int index))) (\<lambda>p.
        bnd (lift_out (to_int p)) (\<lambda>f.
        seqM (modify (\<lambda>s. s\<lparr>pan_new_frequency := tab_put key f (pan_new_frequency s)\<rparr>))
        (bnd (gets (\<lambda>s. (case map_of (pan_replicas_of s) key of None \<Rightarrow> 0 | Some r \<Rightarrow> r, pan_alpha s))) (\<lambda>(r_old, alpha).
         bnd (lift_out (pan_replica_count alpha p)) (\<lambda>r_new.
         seqM (modify (\<lambda>s. s\<lparr>pan_replicas_of := tab_put key r_new (pan_replicas_of s)\<rparr>))
         (seqM (pan_assert os (r_new > 0))
         (bnd (pan_prepare_for_swapping os key r_new r_old un) (\<lambda>un'. ret (num + r_new, un'))))))))))"

fun pan_update_loop ::
  "'k openssl \<Rightarrow> rat list \<Rightarrow> (nat \<times> string) list \<Rightarrow> int \<times> string list \<times> (string \<times> int) list \<Rightarrow>
   ('k pancake_proxy, int \<times> string list \<times> (string \<times> int) list) cpp" where
  "pan_update_loop os probabilities [] acc = ret acc"
| "pan_update_loop os probabilities (ik # iks) acc =
     bnd (pan_update_key os probabilities ik acc) (pan_update_loop os probabilities iks)"

definition pan_update_distribution :: "'k openssl \<Rightarrow> 'r pan_env \<Rightarrow> distribution \<Rightarrow> ('k pancake_proxy, unit) cpp" where
  "pan_update_distribution os pe d =
     (let n = int (length (dist_items d)) in
      bnd (pan_update_loop os (dist_probs d) (enumerate 0 (dist_items d)) (0, [], [])) (\<lambda>(num, un).
      seqM (pan_assert os (num < 2 * n))
      (bnd (gets (\<lambda>s. (pan_dummy_key s, pan_dummy_keys s))) (\<lambda>(dummy, r_old).
       seqM (modify (\<lambda>s. s\<lparr>pan_dummy_keys := 2 * n - num\<rparr>))
       (bnd (pan_prepare_for_swapping os dummy (2 * n - num) r_old un) (\<lambda>(unassigned, needs).
        seqM (pan_recompute_fake_distribution os pe d)
        (seqM (modify (\<lambda>s. s\<lparr>pan_real := d, pan_frequency := pan_new_frequency s\<rparr>))
        (seqM (pan_assert os (length needs = length unassigned))
        (bnd (pan_perform_swapping unassigned needs) (\<lambda>_. ret ()))))))))))"

definition pan_distribution_changed :: bool where
  "pan_distribution_changed = False"

definition pan_load_new_distribution :: distribution where
  "pan_load_new_distribution = distribution_empty"

text \<open>One turn of \<^verbatim>\<open>distribution_thread\<close>.\<close>

definition pan_distribution_step :: "'k openssl \<Rightarrow> 'r pan_env \<Rightarrow> ('k pancake_proxy, unit) cpp" where
  "pan_distribution_step os pe =
     bnd (gets pan_finished) (\<lambda>fin.
       if \<not> fin \<and> pan_distribution_changed then pan_update_distribution os pe pan_load_new_distribution else ret ())"

section \<open>The security batch\<close>

text \<open>A product that is zero makes the quotient infinite, and every draw is below it.\<close>

definition pan_is_true_distribution :: "env \<Rightarrow> ('k pancake_proxy, bool) cpp" where
  "pan_is_true_distribution e =
     bnd (gets pan_p_max) (\<lambda>p.
     bnd (gets (\<lambda>s. dmul (dmul 2 p) (of_nat (length (pan_frequency s))))) (\<lambda>d.
     bnd pan_next_tick (\<lambda>t. ret (if d = 0 then True else prob (ddiv 1 d) (env_unit e t)))))"

definition pan_sample :: "env \<Rightarrow> ('k pancake_proxy \<Rightarrow> distribution) \<Rightarrow> ('k pancake_proxy, operation) cpp" where
  "pan_sample e d =
     bnd pan_next_tick (\<lambda>t.
     bnd (gets d) (\<lambda>dist.
     bnd (lift_out (dist_sample dist (env_pick e t (dist_probs dist)))) (\<lambda>k. ret \<lparr>po_key = k, po_value = []\<rparr>)))"

text \<open>The queue of a consumer. Its consumer is the only one that waits on it, after \<^verbatim>\<open>size()\<close> was not zero.\<close>

definition pan_queue :: "nat \<Rightarrow> ('k pancake_proxy, (operation \<times> nat) work_queue) cpp" where
  "pan_queue i = bnd (gets pan_queues) (\<lambda>qs. lift_out (vec_at qs (int i)))"

definition pan_pop :: "nat \<Rightarrow> ('k pancake_proxy, operation \<times> nat) cpp" where
  "pan_pop i =
     bnd (pan_queue i) (\<lambda>q.
       case wq_pop q of
         None \<Rightarrow> throw (Undefined_behaviour ''waits without end'')
       | Some (x, q') \<Rightarrow> seqM (modify (\<lambda>s. s\<lparr>pan_queues := (pan_queues s)[i := q']\<rparr>)) (ret x))"

text \<open>One turn of the loop: the operation, whether it is one of a client, and its promise if it is.\<close>

definition pan_batch_operation :: "env \<Rightarrow> nat \<Rightarrow> ('k pancake_proxy, operation \<times> bool \<times> nat list) cpp" where
  "pan_batch_operation e i =
     bnd (pan_is_true_distribution e) (\<lambda>coin.
       if coin then
         bnd (pan_queue i) (\<lambda>q.
           if wq_length q = 0 then bnd (pan_sample e pan_real) (\<lambda>op. ret (op, False, []))
           else bnd (pan_pop i) (\<lambda>(op, prom). ret (op, True, [prom])))
       else bnd (pan_sample e pan_fake) (\<lambda>op. ret (op, False, [])))"

definition pan_create_security_batch :: "env \<Rightarrow> nat \<Rightarrow> ('k pancake_proxy, (operation \<times> bool \<times> nat list) list) cpp" where
  "pan_create_security_batch e i =
     bnd (gets (\<lambda>s. nat (pan_security_batch_size s))) (\<lambda>n. collect (\<lambda>_. pan_batch_operation e i) [0..<n])"

section \<open>Executing a batch\<close>

text \<open>\<open>pan_on_proxy\<close> and \<open>pan_on_local\<close> run code on the members and on the storage connection of the consumer thread.\<close>

definition pan_on_proxy :: "('k pancake_proxy, 'v) cpp \<Rightarrow> ('k pancake_proxy \<times> unit redis option, 'v) cpp" where
  "pan_on_proxy m si = (case si of (s, i) \<Rightarrow> let (r, s') = m s in (r, (s', i)))"

definition pan_on_local :: "(unit redis, 'v) cpp \<Rightarrow> ('k pancake_proxy \<times> unit redis option, 'v) cpp" where
  "pan_on_local m si =
     (case si of
        (s, None) \<Rightarrow> (Inl (Undefined_behaviour ''null pointer''), si)
      | (s, Some i) \<Rightarrow> (let (r, i') = m i in (r, (s, Some i'))))"

text \<open>The first loop: the replica that an operation accesses, and its label.\<close>

definition pan_choose_replica :: "env \<Rightarrow> bool list \<Rightarrow> nat \<times> operation \<Rightarrow> ('k pancake_proxy, int \<times> string) cpp" where
  "pan_choose_replica e is_trues iop =
     (case iop of (i, op) \<Rightarrow>
        bnd (pan_at pan_replicas_of pan_replicas_of_update (po_key op)) (\<lambda>n.
        bnd (lift_out (vec_at is_trues (int i))) (\<lambda>is_true.
        bnd (pan_at pan_frequency pan_frequency_update (po_key op)) (\<lambda>f.
        bnd (gets pan_p_max) (\<lambda>p_max.
        bnd pan_next_tick (\<lambda>t.
        bnd (gets (\<lambda>s. sample_a_replica (po_key op) n is_true f p_max (env_unit e t) (env_rand e t) (pan_missing s))) (\<lambda>x.
        bnd (lift_out x) (\<lambda>r.
        bnd (pan_at pan_replica_to_label pan_replica_to_label_update (po_key op @ to_string r)) (\<lambda>l. ret (r, to_string l))))))))))"

definition pan_set_value :: "nat \<Rightarrow> string \<Rightarrow> ('k pancake_proxy, unit) cpp" where
  "pan_set_value p v =
     bnd (gets pan_promises) (\<lambda>ps.
     bnd (lift_out (vec_at ps (int p))) (\<lambda>x.
       case x of
         None \<Rightarrow> modify (\<lambda>s. s\<lparr>pan_promises := (pan_promises s)[p := Some v]\<rparr>)
       | Some _ \<Rightarrow> throw (Logic_error ''promise already satisfied'')))"

definition pan_on_cache :: "(uc_map, 'v) cpp \<Rightarrow> ('k pancake_proxy, 'v) cpp" where
  "pan_on_cache m s = (let (r, c) = m (pan_cache s) in (r, s\<lparr>pan_cache := c\<rparr>))"

definition pan_on_caches :: "(uc_map \<times> uc_map, 'v) cpp \<Rightarrow> ('k pancake_proxy, 'v) cpp" where
  "pan_on_caches m s = (case m (pan_missing s, pan_cache s) of (r, (mi, c)) \<Rightarrow> (r, s\<lparr>pan_missing := mi, pan_cache := c\<rparr>))"

text \<open>One turn of the second loop. The result is the cipher text to write; \<open>j\<close> counts the promises.\<close>

definition pan_serve ::
  "'k openssl \<Rightarrow> 'k encryption_engine \<Rightarrow> string list \<Rightarrow> bool list \<Rightarrow> nat list \<Rightarrow> (int \<times> string) list \<Rightarrow> nat \<Rightarrow> nat \<times> operation \<Rightarrow>
   ('k pancake_proxy, string) cpp" where
  "pan_serve os g responses is_trues promises replicas j iop =
     (case iop of (i, op) \<Rightarrow>
        bnd (lift_out (vec_at responses (int i))) (\<lambda>cipher.
        bnd (lift_out (ee_decrypt os g cipher)) (\<lambda>plaintext.
        seqM (if po_value op \<noteq> []
              then bnd (pan_at pan_replicas_of pan_replicas_of_update (po_key op)) (\<lambda>n.
                     modify (\<lambda>s. s\<lparr>pan_cache := snd (populate_replica_updates (po_key op) (po_value op) n (pan_cache s))\<rparr>))
              else ret ())
        (bnd (pan_on_cache (check_for_update (po_key op) (fst (replicas ! i)))) (\<lambda>plaintext_update.
         let v = (if plaintext_update = [] then plaintext else plaintext_update) in
         seqM (pan_on_caches (check_if_missing (po_key op) v))
         (seqM (if is_trues ! i then bnd (lift_out (vec_at promises (int j))) (\<lambda>p. pan_set_value p v) else ret ())
           (lift_out (ee_encrypt os g v))))))))"

fun pan_serve_loop ::
  "'k openssl \<Rightarrow> 'k encryption_engine \<Rightarrow> string list \<Rightarrow> bool list \<Rightarrow> nat list \<Rightarrow> (int \<times> string) list \<Rightarrow> nat \<Rightarrow> (nat \<times> operation) list \<Rightarrow>
   ('k pancake_proxy, string list) cpp" where
  "pan_serve_loop os g responses is_trues promises replicas j [] = ret []"
| "pan_serve_loop os g responses is_trues promises replicas j (iop # rest) =
     bnd (pan_serve os g responses is_trues promises replicas j iop) (\<lambda>c.
     bnd (pan_serve_loop os g responses is_trues promises replicas (if is_trues ! fst iop then j + 1 else j) rest) (\<lambda>cs. ret (c # cs)))"

definition pan_execute_batch ::
  "env \<Rightarrow> 'k openssl \<Rightarrow> 'r pan_env \<Rightarrow> 'k encryption_engine \<Rightarrow> operation list \<Rightarrow> bool list \<Rightarrow> nat list \<Rightarrow>
   ('k pancake_proxy \<times> unit redis option, unit) cpp" where
  "pan_execute_batch e os pe g operations is_trues promises =
     bnd (pan_on_proxy (collect (pan_choose_replica e is_trues) (enumerate 0 operations))) (\<lambda>replicas.
     let storage_keys = map snd replicas in
     bnd (pan_on_local (redis_get_batch (pe_api pe) (pe_server pe) (pe_get_iter pe) storage_keys)) (\<lambda>responses.
     bnd (pan_on_proxy (pan_serve_loop os g responses is_trues promises replicas 0 (enumerate 0 operations))) (\<lambda>storage_values.
       pan_on_local (redis_put_batch (pe_api pe) (pe_server pe) (pe_put_iter pe) storage_keys storage_values))))"

section \<open>Requests\<close>

text \<open>\<^verbatim>\<open>queue_id % operation_queues_.size()\<close> converts the number to 64 bits without sign.\<close>

definition pan_enqueue :: "int \<Rightarrow> operation \<Rightarrow> ('k pancake_proxy, nat) cpp" where
  "pan_enqueue queue_id op =
     bnd (gets (\<lambda>s. (length (pan_promises s), length (pan_queues s)))) (\<lambda>(p, n).
     seqM (modify (\<lambda>s. s\<lparr>pan_promises := pan_promises s @ [None]\<rparr>))
       (if n = 0 then throw (Undefined_behaviour ''remainder by zero'')
        else let i = nat (queue_id mod 2 ^ 64 mod int n) in
             seqM (modify (\<lambda>s. s\<lparr>pan_queues := (pan_queues s)[i := wq_push (op, p) (pan_queues s ! i)]\<rparr>)) (ret p)))"

definition pan_get_future :: "int \<Rightarrow> string \<Rightarrow> ('k pancake_proxy, nat) cpp" where
  "pan_get_future queue_id key =
     bnd (gets pan_frequency) (\<lambda>f.
       if map_of f key = None then throw (Logic_error ''Key does not exist'')
       else pan_enqueue queue_id \<lparr>po_key = key, po_value = []\<rparr>)"

definition pan_put_future :: "int \<Rightarrow> string \<Rightarrow> string \<Rightarrow> ('k pancake_proxy, nat) cpp" where
  "pan_put_future queue_id key val = pan_enqueue queue_id \<lparr>po_key = key, po_value = val\<rparr>"

text \<open>
  \<^verbatim>\<open>future::get\<close> waits for the consumer: \<open>others\<close> is what the other threads do in the meantime, and the result is \<open>None\<close> when one of the promises has
  no value after that.
\<close>

definition pan_wait :: "('k pancake_proxy \<Rightarrow> 'k pancake_proxy) \<Rightarrow> nat list \<Rightarrow> ('k pancake_proxy, string list option) cpp" where
  "pan_wait others waiters =
     seqM (modify others) (gets (\<lambda>s. those (map (\<lambda>p. if p < length (pan_promises s) then pan_promises s ! p else None) waiters)))"

definition pan_get_futures :: "int \<Rightarrow> string list \<Rightarrow> ('k pancake_proxy, nat list) cpp" where
  "pan_get_futures queue_id keys = collect (pan_get_future queue_id) keys"

definition pan_put_futures :: "int \<Rightarrow> string list \<Rightarrow> string list \<Rightarrow> ('k pancake_proxy, nat list) cpp" where
  "pan_put_futures queue_id keys vals =
     collect (\<lambda>(i, key). bnd (lift_out (vec_at vals (int i))) (pan_put_future queue_id key)) (enumerate 0 keys)"

definition pan_get :: "('k pancake_proxy \<Rightarrow> 'k pancake_proxy) \<Rightarrow> int \<Rightarrow> string \<Rightarrow> ('k pancake_proxy, string option) cpp" where
  "pan_get others queue_id key =
     bnd (pan_get_future queue_id key) (\<lambda>p. bnd (pan_wait others [p]) (\<lambda>v. ret (map_option hd v)))"

definition pan_put :: "('k pancake_proxy \<Rightarrow> 'k pancake_proxy) \<Rightarrow> int \<Rightarrow> string \<Rightarrow> string \<Rightarrow> ('k pancake_proxy, unit option) cpp" where
  "pan_put others queue_id key val =
     bnd (pan_put_future queue_id key val) (\<lambda>p. bnd (pan_wait others [p]) (\<lambda>v. ret (map_option (\<lambda>_. ()) v)))"

definition pan_get_batch :: "('k pancake_proxy \<Rightarrow> 'k pancake_proxy) \<Rightarrow> int \<Rightarrow> string list \<Rightarrow> ('k pancake_proxy, string list option) cpp" where
  "pan_get_batch others queue_id keys = bnd (pan_get_futures queue_id keys) (pan_wait others)"

definition pan_put_batch ::
  "('k pancake_proxy \<Rightarrow> 'k pancake_proxy) \<Rightarrow> int \<Rightarrow> string list \<Rightarrow> string list \<Rightarrow> ('k pancake_proxy, unit option) cpp" where
  "pan_put_batch others queue_id keys vals =
     bnd (pan_put_futures queue_id keys vals) (\<lambda>ps. bnd (pan_wait others ps) (\<lambda>v. ret (map_option (\<lambda>_. ()) v)))"

text \<open>
  The asynchronous requests queue their futures for the responder. The sequence number they queue with them is a reference to a member of a temporary
  object; only \<^verbatim>\<open>async_get_batch\<close> also queues the number itself. \<^verbatim>\<open>async_put_batch\<close> waits for its futures, which have no state left after that.
\<close>

definition pan_respond_push :: "int \<Rightarrow> nat option list \<Rightarrow> ('k pancake_proxy, unit) cpp" where
  "pan_respond_push op_code waiters = modify (\<lambda>s. s\<lparr>pan_respond_queue := wq_push (op_code, waiters) (pan_respond_queue s)\<rparr>)"

definition pan_async_get :: "sequence_id \<Rightarrow> int \<Rightarrow> string \<Rightarrow> ('k pancake_proxy, unit) cpp" where
  "pan_async_get seq queue_id key = bnd (pan_get_future queue_id key) (\<lambda>p. pan_respond_push 0 [Some p])"

definition pan_async_put :: "sequence_id \<Rightarrow> int \<Rightarrow> string \<Rightarrow> string \<Rightarrow> ('k pancake_proxy, unit) cpp" where
  "pan_async_put seq queue_id key val = bnd (pan_put_future queue_id key val) (\<lambda>p. pan_respond_push 0 [Some p])"

definition pan_async_get_batch :: "sequence_id \<Rightarrow> int \<Rightarrow> string list \<Rightarrow> ('k pancake_proxy, unit) cpp" where
  "pan_async_get_batch seq queue_id keys =
     bnd (pan_get_futures queue_id keys) (\<lambda>ps.
     seqM (pan_respond_push 2 (map Some ps)) (modify (\<lambda>s. s\<lparr>pan_sequence_queue := wq_push seq (pan_sequence_queue s)\<rparr>)))"

definition pan_async_put_batch ::
  "('k pancake_proxy \<Rightarrow> 'k pancake_proxy) \<Rightarrow> sequence_id \<Rightarrow> int \<Rightarrow> string list \<Rightarrow> string list \<Rightarrow> ('k pancake_proxy, unit option) cpp" where
  "pan_async_put_batch others seq queue_id keys vals =
     bnd (pan_put_futures queue_id keys vals) (\<lambda>ps.
     bnd (pan_wait others ps) (\<lambda>v.
       case v of None \<Rightarrow> ret None | Some _ \<Rightarrow> seqM (pan_respond_push 3 (map (\<lambda>_. None) ps)) (ret (Some ()))))"

text \<open>The overloads without a queue number draw one, \<^verbatim>\<open>rand_uint32(0, RAND_MAX)\<close>.\<close>

definition pan_drawn :: "env \<Rightarrow> (int \<Rightarrow> ('k pancake_proxy, 'v) cpp) \<Rightarrow> ('k pancake_proxy, 'v) cpp" where
  "pan_drawn e f = bnd pan_next_tick (\<lambda>t. f (sint (rand_uint32 0 2147483647 (env_rand e t))))"

section \<open>Threads\<close>

record 'k pan_consumer =
  pc_storage :: "unit redis option"
  pc_engine :: "'k encryption_engine"
  pc_batch :: "(operation \<times> bool \<times> nat list) list"
  pc_serviced :: int
  pc_previous :: int
  pc_done :: bool

definition pan_consumer_start :: "env \<Rightarrow> 'k openssl \<Rightarrow> ('k pancake_proxy, 'k pan_consumer) cpp" where
  "pan_consumer_start e os =
     bnd (gets pan_engine) (\<lambda>g0.
     bnd (lift_out (encryption_engine_copy os g0)) (\<lambda>g.
     bnd (gets (pan_open e)) (\<lambda>x.
     bnd (lift_out x) (\<lambda>i.
     bnd (gets pan_finished) (\<lambda>fin.
       ret \<lparr>pc_storage = i, pc_engine = g, pc_batch = [], pc_serviced = 0, pc_previous = 0, pc_done = fin\<rparr>)))))"

text \<open>One turn of the inner loop of \<^verbatim>\<open>consumer_thread\<close> fills the batch.\<close>

definition pan_fill :: "env \<Rightarrow> nat \<Rightarrow> 'k pan_consumer \<Rightarrow> ('k pancake_proxy, 'k pan_consumer) cpp" where
  "pan_fill e i c =
     bnd (pan_queue i) (\<lambda>q.
     let total = wq_length q + pc_serviced c; n = total - pc_previous c in
     bnd (collect (\<lambda>_. pan_create_security_batch e i) [0..<nat n]) (\<lambda>bs.
       ret (if 0 < n then c\<lparr>pc_batch := pc_batch c @ concat bs, pc_serviced := pc_serviced c + n, pc_previous := total\<rparr> else c)))"

text \<open>
  A step is a turn of the inner loop, or, when that loop is left, the execution of the batch and the test of the outer loop.
  \<^verbatim>\<open>storage_batch.size() < storage_batch_size_\<close> compares numbers of 64 bits without sign.
\<close>

definition pan_consumer_step ::
  "env \<Rightarrow> 'k openssl \<Rightarrow> 'r pan_env \<Rightarrow> nat \<Rightarrow> ('k pancake_proxy \<times> 'k pan_consumer, unit) cpp" where
  "pan_consumer_step e os pe i sc =
     (case sc of (s, c) \<Rightarrow>
        if pc_done c then (Inr (), sc)
        else if int (length (pc_batch c)) < pan_storage_batch_size s mod 2 ^ 64 \<and> \<not> pan_finished s
        then (case pan_fill e i c s of (Inl x, s') \<Rightarrow> (Inl x, (s', c)) | (Inr c', s') \<Rightarrow> (Inr (), (s', c')))
        else (case pan_execute_batch e os pe (pc_engine c) (map fst (pc_batch c)) (map (fst \<circ> snd) (pc_batch c)) (concat (map (snd \<circ> snd) (pc_batch c)))
                     (s, pc_storage c) of
                (Inl x, (s', st)) \<Rightarrow> (Inl x, (s', c\<lparr>pc_storage := st\<rparr>))
              | (Inr _, (s', st)) \<Rightarrow> (Inr (), (s', c\<lparr>pc_storage := st, pc_batch := [], pc_done := pan_finished s'\<rparr>))))"

text \<open>
  \<^verbatim>\<open>responder_thread\<close> waits on the queue of futures, on the queue of sequence numbers, and on the futures: \<open>None\<close> while it waits. \<open>stale\<close> is what reading the
  object of the dangling reference gives, an exception of ours or a number that the next statement overwrites.
\<close>

datatype pan_responder =
    Pan_idle
  | Pan_popped int "nat option list"
  | Pan_numbered int sequence_id "nat option list"

fun pan_future_value :: "'k pancake_proxy \<Rightarrow> nat option \<Rightarrow> string option outcome" where
  "pan_future_value s None = Inl (Logic_error ''no associated state'')"
| "pan_future_value s (Some p) = vec_at (pan_promises s) (int p)"

fun pan_responder_step :: "sequence_id outcome \<Rightarrow> 'k pancake_proxy \<times> pan_responder \<Rightarrow> (unit outcome \<times> 'k pancake_proxy \<times> pan_responder) option" where
  "pan_responder_step stale (s, Pan_idle) =
     (case wq_pop (pan_respond_queue s) of
        None \<Rightarrow> None
      | Some ((op_code, fs), q) \<Rightarrow> Some (bind_out stale (\<lambda>_. Inr ()), s\<lparr>pan_respond_queue := q\<rparr>, Pan_popped op_code fs))"
| "pan_responder_step stale (s, Pan_popped op_code fs) =
     (case wq_pop (pan_sequence_queue s) of
        None \<Rightarrow> None
      | Some (seq, q) \<Rightarrow> Some (Inr (), s\<lparr>pan_sequence_queue := q\<rparr>, Pan_numbered op_code seq fs))"
| "pan_responder_step stale (s, Pan_numbered op_code seq fs) =
     (case map_out (pan_future_value s) fs of
        Inl x \<Rightarrow> Some (Inl x, s, Pan_numbered op_code seq fs)
      | Inr vs \<Rightarrow>
          (case those vs of
             None \<Rightarrow> None
           | Some results \<Rightarrow> Some (Inr (), s\<lparr>pan_clients := async_respond_client seq op_code results (pan_clients s)\<rparr>, Pan_idle)))"

text \<open>\<^verbatim>\<open>flush\<close> takes at most one operation of each queue and uses its key, not a label, at the storage.\<close>

definition pan_flush_queue :: "'r pan_env \<Rightarrow> nat \<Rightarrow> ('k pancake_proxy, unit) cpp" where
  "pan_flush_queue pe i =
     bnd (pan_queue i) (\<lambda>q.
       if wq_length q \<noteq> 0 then
         bnd (pan_pop i) (\<lambda>(op, prom).
         bnd (pan_on_storage (redis_get (pe_api pe) (pe_server pe) (po_key op))) (\<lambda>v.
         seqM (pan_on_storage (redis_put (pe_api pe) (pe_server pe) (po_key op) v)) (pan_set_value prom v)))
       else ret ())"

definition pan_flush :: "'r pan_env \<Rightarrow> ('k pancake_proxy, unit) cpp" where
  "pan_flush pe = bnd (gets (\<lambda>s. length (pan_queues s))) (\<lambda>n. for_each [0..<n] (pan_flush_queue pe))"

text \<open>\<^verbatim>\<open>close\<close> then joins the threads, of which the responder never ends.\<close>

definition pan_close :: "('k pancake_proxy, unit) cpp" where
  "pan_close = modify (\<lambda>s. s\<lparr>pan_finished := True\<rparr>)"

definition pan_chain_req :: "sequence_id \<Rightarrow> string list \<Rightarrow> ('k pancake_proxy, unit) cpp" where
  "pan_chain_req seq args = throw (Logic_error ''Not supported'')"

definition pan_setup_chain_stub :: "int \<Rightarrow> string \<Rightarrow> string list \<Rightarrow> int \<Rightarrow> string \<Rightarrow> ('k pancake_proxy, unit) cpp" where
  "pan_setup_chain_stub block_id path chain_blocks r next_block = throw (Logic_error ''Not supported'')"

definition pan_resend_pending_stub :: "int \<Rightarrow> ('k pancake_proxy, unit) cpp" where
  "pan_resend_pending_stub block_id = throw (Logic_error ''Not supported'')"

section \<open>A proxy whose distribution does not change\<close>

text \<open>What the constructor and \<^verbatim>\<open>init\<close> leave in the members that only a new distribution assigns, and what no request changes.\<close>

definition pan_fresh :: "distribution \<Rightarrow> 'k pancake_proxy \<Rightarrow> bool" where
  "pan_fresh d s \<longleftrightarrow> pan_p_max s = 0 \<and> pan_security_batch_size s = 3 \<and> pan_real s = d \<and> list_all wq_ok (pan_queues s)"

lemma keeps_pan_on_storage: "keeps (pan_fresh d) (pan_on_storage m)"
  by (auto simp: keeps_def pan_on_storage_def pan_fresh_def split: option.splits prod.splits)

lemma keeps_pan_insert_loop: "(\<And>ls. keeps (pan_fresh d) (put ls)) \<Longrightarrow> keeps (pan_fresh d) (pan_insert_loop put key is labels)"
  by (induction "is" arbitrary: labels) (auto simp: Let_def pan_fresh_def intro!: keeps_intros keeps_modify)

lemma keeps_pan_insert_replicas: "keeps (pan_fresh d) (pan_insert_replicas e os pe key n)"
  by (auto simp: pan_insert_replicas_def Let_def intro!: keeps_intros keeps_modify keeps_pan_insert_loop keeps_pan_on_storage) (simp_all add: pan_fresh_def)

lemma keeps_pan_create_key: "keeps (pan_fresh d) (pan_create_key e os pe ps ik)"
  by (cases ik) (auto simp: pan_create_key_def pan_fresh_def intro!: keeps_intros keeps_modify keeps_pan_insert_replicas)

lemma keeps_pan_create_replicas: "keeps (pan_fresh d) (pan_create_replicas e os pe)"
  by (auto simp: pan_create_replicas_def Let_def pan_fresh_def split: prod.splits intro!: keeps_intros keeps_modify keeps_pan_create_key keeps_pan_insert_replicas)

lemma pan_init_fresh:
  assumes "pan_fresh d0 s" "pan_init e os pe cores d alpha delta clients s = (r, t)"
  shows "pan_fresh d t"
proof -
  let ?rest = "bnd (gets (\<lambda>s. (pan_server_type s, pan_server_host s, pan_server_port s))) (\<lambda>(t, h, p).
      seqM (if t = ''redis'' then bnd (lift_out (redis_new (env_up e) h p 1)) (\<lambda>i. modify (\<lambda>s. s\<lparr>pan_storage := Some i\<rparr>)) else ret ())
      (seqM (pan_add_servers e)
      (seqM (pan_create_replicas e os pe)
        (modify (\<lambda>s. s\<lparr>pan_queues := pan_queues s @ replicate cores wq_new\<rparr>)))))"
  have "keeps (pan_fresh d) ?rest"
    by (auto simp: pan_add_servers_def pan_fresh_def list_all_iff split: prod.splits
        intro!: keeps_intros keeps_modify keeps_pan_create_replicas keeps_pan_on_storage)
  from keepsD [OF this, of "s\<lparr>pan_real := d, pan_alpha := alpha, pan_delta := delta, pan_clients := clients\<rparr>"] assms show ?thesis
    by (simp add: pan_init_def seqM_apply modify_apply pan_fresh_def)
qed

lemma list_all_update_nth:
  assumes "list_all P xs" "\<And>x. P x \<Longrightarrow> P (f x)"
  shows "list_all P (xs[i := f (xs ! i)])"
  using assms by (cases "i < length xs") (auto simp: list_all_length nth_list_update)

lemma keeps_pan_enqueue: "keeps (pan_fresh d) (pan_enqueue q op)"
proof (rule keepsI)
  fix s :: "'k pancake_proxy" assume s: "pan_fresh d s"
  then have "list_all wq_ok ((pan_queues s)[i := wq_push x (pan_queues s ! i)])" for i x
    by (intro list_all_update_nth wq.invar_push) (auto simp: pan_fresh_def)
  with s show "pan_fresh d (snd (pan_enqueue q op s))" by (auto simp: pan_enqueue_def cpp_simps Let_def pan_fresh_def)
qed

text \<open>A request of a client: the number of a queue, a key, and the value of a write.\<close>

definition pan_request :: "int \<times> string \<times> string option \<Rightarrow> ('k pancake_proxy, unit) cpp" where
  "pan_request r =
     (case r of (q, key, v) \<Rightarrow>
        bnd (case v of None \<Rightarrow> pan_get_future q key | Some w \<Rightarrow> pan_put_future q key w) (\<lambda>_. ret ()))"

lemma keeps_pan_request: "keeps (pan_fresh d) (pan_request r)"
  by (auto simp: pan_request_def pan_get_future_def pan_put_future_def split: prod.splits option.splits intro!: keeps_intros keeps_modify keeps_pan_enqueue)

lemma pan_fresh_new: "pancake_proxy_new os dummy = Inr s \<Longrightarrow> pan_fresh distribution_empty s"
  by (auto simp: pancake_proxy_new_def bind_out_eq_Inr pan_fresh_def)

text \<open>One operation of a security batch: the coin always says true, because the quotient by zero is infinite.\<close>

definition pan_samples_real :: "distribution \<Rightarrow> operation \<times> bool \<times> nat list \<Rightarrow> bool" where
  "pan_samples_real d x \<longleftrightarrow> (\<exists>k \<in> set (dist_items d). x = (\<lparr>po_key = k, po_value = []\<rparr>, False, []))"

lemma pan_coin_true: "pan_p_max s = 0 \<Longrightarrow> pan_is_true_distribution e s = (Inr True, s\<lparr>pan_tick := pan_tick s + 1\<rparr>)"
  by (simp add: pan_is_true_distribution_def cpp_simps pan_next_tick_def dmul_def double_round_def)

lemma pan_batch_operation_popped:
  assumes "pan_fresh d s" "i < length (pan_queues s)" "wq_items (pan_queues s ! i) = (op, p) # q"
  obtains t where "\<And>f. pan_batch_operation e i (s\<lparr>pan_fake := f\<rparr>) = (Inr (op, True, [p]), t\<lparr>pan_fake := f\<rparr>)" "pan_fresh d t"
    "length (pan_queues t) = length (pan_queues s)" "wq_items (pan_queues t ! i) = q" "pan_fake t = pan_fake s"
proof -
  let ?q = "pan_queues s ! i"
  let ?r = "?q\<lparr>wq_items := q, wq_size := wq_size ?q - 1\<rparr>"
  let ?t = "s\<lparr>pan_tick := pan_tick s + 1, pan_queues := (pan_queues s)[i := ?r]\<rparr>"
  have ok: "wq_ok ?q" "list_all wq_ok (pan_queues s)" using assms(1,2) by (simp_all add: pan_fresh_def list_all_length)
  then have "wq_ok ?r" using assms(3) by (simp add: wq_ok_def)
  with ok(2) have "list_all wq_ok ((pan_queues s)[i := ?r])"
    using list_all_update_nth [of wq_ok "pan_queues s" "\<lambda>_. ?r" i] by simp
  with assms(1) have "pan_fresh d ?t" by (simp add: pan_fresh_def)
  moreover have "wq_length ?q \<noteq> 0" using ok(1) assms(3) by (simp add: wq_ok_def wq_length_def)
  then have "pan_batch_operation e i (s\<lparr>pan_fake := f\<rparr>) = (Inr (op, True, [p]), ?t\<lparr>pan_fake := f\<rparr>)" for f
    using assms pan_coin_true [of "s\<lparr>pan_fake := f\<rparr>" e]
    by (simp add: pan_batch_operation_def bnd_apply pan_fresh_def pan_queue_def pan_pop_def cpp_simps wq_pop_def)
  ultimately show thesis using assms(2) by (intro that [of ?t]) simp_all
qed

lemma pan_batch_operation_sampled:
  assumes "pan_fresh d s" "i < length (pan_queues s)" "wq_items (pan_queues s ! i) = []"
    and "env_ok e" "dist_items d \<noteq> []" "length (dist_items d) = length (dist_probs d)"
  obtains t x where "\<And>f. pan_batch_operation e i (s\<lparr>pan_fake := f\<rparr>) = (Inr x, t\<lparr>pan_fake := f\<rparr>)" "pan_fresh d t"
    "pan_queues t = pan_queues s" "pan_samples_real d x" "pan_fake t = pan_fake s"
proof -
  let ?t = "s\<lparr>pan_tick := pan_tick s + 2\<rparr>"
  let ?k = "dist_items d ! env_pick e (pan_tick s + 1) (dist_probs d)"
  have k: "env_pick e (pan_tick s + 1) (dist_probs d) < length (dist_items d)"
    using assms(4-6) by (metis env_ok_def length_0_conv)
  then have "dist_sample d (env_pick e (pan_tick s + 1) (dist_probs d)) = Inr ?k"
    using assms(6) by (intro dist_sample_ok) (simp_all add: draw_ok_def)
  moreover have "wq_length (pan_queues s ! i) = 0"
    using assms(1-3) by (simp add: pan_fresh_def list_all_length wq_ok_def wq_length_def)
  ultimately have "pan_batch_operation e i (s\<lparr>pan_fake := f\<rparr>) = (Inr (\<lparr>po_key = ?k, po_value = []\<rparr>, False, []), ?t\<lparr>pan_fake := f\<rparr>)" for f
    using assms(1,2) pan_coin_true [of "s\<lparr>pan_fake := f\<rparr>" e]
    by (simp add: pan_batch_operation_def bnd_apply pan_fresh_def pan_queue_def pan_sample_def cpp_simps pan_next_tick_def)
  moreover have "pan_fresh d ?t" using assms(1) by (simp add: pan_fresh_def)
  ultimately show thesis using k by (intro that [of _ ?t]) (auto simp: pan_samples_real_def)
qed

lemma pan_security_batch_ops:
  assumes "pan_fresh d s" "i < length (pan_queues s)" "env_ok e" "dist_items d \<noteq> []" "length (dist_items d) = length (dist_probs d)"
  shows "\<exists>ops t. (\<forall>f. collect (\<lambda>_. pan_batch_operation e i) xs (s\<lparr>pan_fake := f\<rparr>) = (Inr ops, t\<lparr>pan_fake := f\<rparr>)) \<and>
     pan_fresh d t \<and> pan_fake t = pan_fake s \<and> length (pan_queues t) = length (pan_queues s) \<and> length ops = length xs \<and>
     take (length (wq_items (pan_queues s ! i))) ops = map (\<lambda>(op, p). (op, True, [p])) (take (length xs) (wq_items (pan_queues s ! i))) \<and>
     list_all (pan_samples_real d) (drop (length (wq_items (pan_queues s ! i))) ops) \<and>
     wq_items (pan_queues t ! i) = drop (length xs) (wq_items (pan_queues s ! i))"
  using assms(1,2)
proof (induction xs arbitrary: s)
  case Nil
  then show ?case by (intro exI [of _ "[]"] exI [of _ s]) (simp add: ret_apply)
next
  case (Cons y xs)
  show ?case
  proof (cases "wq_items (pan_queues s ! i)")
    case Nil
    obtain t x where t: "\<And>f. pan_batch_operation e i (s\<lparr>pan_fake := f\<rparr>) = (Inr x, t\<lparr>pan_fake := f\<rparr>)" "pan_fresh d t"
      "pan_queues t = pan_queues s" "pan_samples_real d x" "pan_fake t = pan_fake s"
      using pan_batch_operation_sampled [OF Cons.prems Nil assms(3-5)] by blast
    from Cons.IH [OF t(2)] t Cons.prems(2) Nil obtain ops u where
      "\<forall>f. collect (\<lambda>_. pan_batch_operation e i) xs (t\<lparr>pan_fake := f\<rparr>) = (Inr ops, u\<lparr>pan_fake := f\<rparr>)" "pan_fresh d u" "pan_fake u = pan_fake s"
      "length (pan_queues u) = length (pan_queues s)" "length ops = length xs" "list_all (pan_samples_real d) ops" "wq_items (pan_queues u ! i) = []"
      by auto
    with t(1,4) Nil show ?thesis by (intro exI [of _ "x # ops"] exI [of _ u]) (simp add: collect_Cons del: collect.simps)
  next
    case (Cons z q)
    obtain op p where z: "z = (op, p)" by (cases z)
    obtain t where t: "\<And>f. pan_batch_operation e i (s\<lparr>pan_fake := f\<rparr>) = (Inr (op, True, [p]), t\<lparr>pan_fake := f\<rparr>)" "pan_fresh d t"
      "length (pan_queues t) = length (pan_queues s)" "wq_items (pan_queues t ! i) = q" "pan_fake t = pan_fake s"
      using pan_batch_operation_popped [OF Cons.prems Cons [unfolded z]] by blast
    from Cons.IH [OF t(2)] t Cons.prems(2) obtain ops u where
      "\<forall>f. collect (\<lambda>_. pan_batch_operation e i) xs (t\<lparr>pan_fake := f\<rparr>) = (Inr ops, u\<lparr>pan_fake := f\<rparr>)" "pan_fresh d u" "pan_fake u = pan_fake s"
      "length (pan_queues u) = length (pan_queues s)" "length ops = length xs"
      "take (length q) ops = map (\<lambda>(op, p). (op, True, [p])) (take (length xs) q)"
      "list_all (pan_samples_real d) (drop (length q) ops)" "wq_items (pan_queues u ! i) = drop (length xs) q"
      by auto
    with t(1) Cons z show ?thesis by (intro exI [of _ "(op, True, [p]) # ops"] exI [of _ u]) (simp add: collect_Cons del: collect.simps)
  qed
qed

text \<open>What the threads do keeps the members that the coin reads.\<close>

lemma keeps_pan_at:
  assumes "\<And>s g. pan_fresh d s \<Longrightarrow> pan_fresh d (upd g s)"
  shows "keeps (pan_fresh d) (pan_at tab upd key)"
  using assms by (intro keepsI) (simp add: pan_at_def split: option.split)

lemma keeps_pan_pop: "keeps (pan_fresh d) (pan_pop i)"
proof (rule keepsI)
  fix s :: "'k pancake_proxy" assume s: "pan_fresh d s"
  have "list_all wq_ok ((pan_queues s)[i := r])" if "i < length (pan_queues s)" "wq_pop (pan_queues s ! i) = Some (x, r)" for x r
  proof -
    have "wq_ok (pan_queues s ! i)" using s that(1) by (simp add: pan_fresh_def list_all_length)
    then have "wq_ok r" using wq.pop_Some [OF _ that(2)] by simp
    then show ?thesis using s list_all_update_nth [of wq_ok "pan_queues s" "\<lambda>_. r" i] by (simp add: pan_fresh_def)
  qed
  with s show "pan_fresh d (snd (pan_pop i s))"
    by (auto simp: pan_pop_def pan_queue_def cpp_simps pan_fresh_def vec_at_def split: option.splits)
qed

lemma keeps_pan_step_parts:
  "keeps (pan_fresh d) (pan_batch_operation e i)" "keeps (pan_fresh d) (pan_choose_replica e bs iop)"
  "keeps (pan_fresh d) (pan_serve os g responses bs ps rs j iop)"
proof -
  have tick: "keeps (pan_fresh d) pan_next_tick" by (rule keepsI) (simp add: pan_next_tick_def pan_fresh_def)
  have at: "keeps (pan_fresh d) (pan_at pan_replicas_of pan_replicas_of_update key)" "keeps (pan_fresh d) (pan_at pan_frequency pan_frequency_update key)"
    "keeps (pan_fresh d) (pan_at pan_replica_to_label pan_replica_to_label_update key)" for key
    by (rule keeps_pan_at; simp add: pan_fresh_def)+
  have cache: "keeps (pan_fresh d) (pan_on_cache m)" "keeps (pan_fresh d) (pan_on_caches m')" for m :: "(uc_map, 'v) cpp" and m' :: "(uc_map \<times> uc_map, 'w) cpp"
    by (rule keepsI, simp add: pan_on_cache_def pan_on_caches_def pan_fresh_def split: prod.splits)+
  show "keeps (pan_fresh d) (pan_batch_operation e i)"
    unfolding pan_batch_operation_def pan_is_true_distribution_def pan_sample_def pan_queue_def
    by (intro keeps_intros tick keeps_pan_pop) (auto intro!: keeps_intros split: prod.splits)
  show "keeps (pan_fresh d) (pan_choose_replica e bs iop)"
    unfolding pan_choose_replica_def by (cases iop) (auto intro!: keeps_intros tick at)
  show "keeps (pan_fresh d) (pan_serve os g responses bs ps rs j iop)"
    unfolding pan_serve_def pan_set_value_def Let_def
    by (cases iop) (auto intro!: keeps_intros at cache keeps_modify simp: pan_fresh_def split: option.splits)
qed

lemma keeps_pan_serve_loop: "keeps (pan_fresh d) (pan_serve_loop os g responses bs ps rs j iops)"
  by (induction iops arbitrary: j) (auto intro!: keeps_intros keeps_pan_step_parts(3))

lemma pan_consumer_step_fresh:
  assumes "pan_fresh d s" "pan_consumer_step e os pe i (s, c) = (r, (s', c'))"
  shows "pan_fresh d s'"
proof -
  have fill: "keeps (pan_fresh d) (pan_fill e i c)"
    unfolding pan_fill_def pan_create_security_batch_def pan_queue_def Let_def
    by (intro keeps_intros keeps_collect keeps_pan_step_parts(1))
  let ?P = "\<lambda>(s, i :: unit redis option). pan_fresh d s"
  have proxy: "keeps ?P (pan_on_proxy m)" if "keeps (pan_fresh d) m" for m :: "('a pancake_proxy, 'v) cpp"
    using that by (auto simp: keeps_def pan_on_proxy_def split: prod.splits)
  have local: "keeps ?P (pan_on_local m)" for m :: "(unit redis, 'v) cpp"
    by (auto simp: keeps_def pan_on_local_def split: prod.splits option.splits)
  have "keeps ?P (pan_execute_batch e os pe g ops bs ps)" for g ops bs ps
    unfolding pan_execute_batch_def Let_def
    by (intro keeps_intros proxy local keeps_collect keeps_pan_step_parts(2) keeps_pan_serve_loop)
  from keepsD [OF this, of "(s, pc_storage c)"] keepsD [OF fill assms(1)] assms show ?thesis
    by (auto simp: pan_consumer_step_def split: if_splits prod.splits sum.splits) (metis case_prod_conv snd_conv)+
qed

text \<open>
  A run of the proxy after \<^verbatim>\<open>init\<close>: requests of clients (\<open>Inl\<close>) and turns of the consumer threads (\<open>Inr\<close>), in any order.
\<close>

fun pan_act ::
  "env \<Rightarrow> 'k openssl \<Rightarrow> 'r pan_env \<Rightarrow> (int \<times> string \<times> string option) + nat \<Rightarrow> 'k pancake_proxy \<times> 'k pan_consumer list \<Rightarrow>
   'k pancake_proxy \<times> 'k pan_consumer list" where
  "pan_act e os pe (Inl r) (s, cs) = (snd (pan_request r s), cs)"
| "pan_act e os pe (Inr i) (s, cs) =
     (if i < length cs then (case snd (pan_consumer_step e os pe i (s, cs ! i)) of (s', c) \<Rightarrow> (s', cs[i := c])) else (s, cs))"

lemma pan_run_fresh:
  assumes "pan_fresh d s" "fold (pan_act e os pe) acts (s, cs) = (t, cs')"
  shows "pan_fresh d t"
  using assms
proof (induction acts arbitrary: s cs)
  case Nil
  then show ?case by simp
next
  case (Cons a acts)
  obtain s1 cs1 where s1: "pan_act e os pe a (s, cs) = (s1, cs1)" by fastforce
  have "pan_fresh d s1"
  proof (cases a)
    case (Inl r)
    then show ?thesis using s1 keepsD [OF keeps_pan_request Cons.prems(1), of r] by simp
  next
    case (Inr i)
    obtain r s2 c where "pan_consumer_step e os pe i (s, cs ! i) = (r, (s2, c))" by (metis prod.exhaust)
    then show ?thesis using s1 Inr Cons.prems(1) pan_consumer_step_fresh [OF Cons.prems(1)] by (auto split: if_splits)
  qed
  then show ?case using Cons.IH [of s1 cs1] Cons.prems(2) s1 by simp
qed

text \<open>
  C37. While its distribution is the one it was started with, the legacy proxy issues no fake operation. However requests and turns of the consumer threads
  have followed a successful \<^verbatim>\<open>init\<close>, every security batch has three operations; the first ones are the operations that wait in the queue, in order, as
  many as there are, and the others are samples of the real distribution, which are not marked as real. The batch would be the same with any other fake
  distribution: \<^verbatim>\<open>p_max_\<close> is still zero, because only \<^verbatim>\<open>recompute_fake_distribution\<close> assigns it, the quotient in \<^verbatim>\<open>is_true_distribution\<close> is infinite, and
  the coin never falls on the fake side.
\<close>

theorem pan_static_proxy_no_fakes:
  assumes "pancake_proxy_new os dummy = Inr s0" "pan_init e os pe cores d alpha delta clients s0 = (Inr (), s1)"
    and "fold (pan_act e os pe) acts (s1, cs) = (s, cs')" "i < length (pan_queues s)"
    and "env_ok e" "dist_items d \<noteq> []" "length (dist_items d) = length (dist_probs d)"
  defines "q \<equiv> wq_items (pan_queues s ! i)"
  shows "\<exists>ops t. pan_create_security_batch e i s = (Inr ops, t) \<and> length ops = 3 \<and>
     take (length q) ops = map (\<lambda>(op, p). (op, True, [p])) (take 3 q) \<and> wq_items (pan_queues t ! i) = drop 3 q \<and>
     (\<forall>x \<in> set (drop (length q) ops). \<exists>k \<in> set (dist_items d). x = (\<lparr>po_key = k, po_value = []\<rparr>, False, [])) \<and>
     (\<forall>f. pan_create_security_batch e i (s\<lparr>pan_fake := f\<rparr>) = (Inr ops, t\<lparr>pan_fake := f\<rparr>))"
proof -
  have "pan_fresh d s1" by (rule pan_init_fresh [OF pan_fresh_new [OF assms(1)] assms(2)])
  then have s: "pan_fresh d s" using assms(3) by (rule pan_run_fresh)
  have b: "pan_create_security_batch e i (s\<lparr>pan_fake := f\<rparr>) = collect (\<lambda>_. pan_batch_operation e i) [0..<3] (s\<lparr>pan_fake := f\<rparr>)" for f
    using s by (simp add: pan_create_security_batch_def cpp_simps pan_fresh_def)
  obtain ops t where t: "\<forall>f. pan_create_security_batch e i (s\<lparr>pan_fake := f\<rparr>) = (Inr ops, t\<lparr>pan_fake := f\<rparr>)" "pan_fake t = pan_fake s"
    "length ops = 3" "take (length q) ops = map (\<lambda>(op, p). (op, True, [p])) (take 3 q)" "list_all (pan_samples_real d) (drop (length q) ops)"
    "wq_items (pan_queues t ! i) = drop 3 q"
    using pan_security_batch_ops [OF s assms(4-7), of "[0..<3]"] unfolding b q_def by auto
  have same: "u\<lparr>pan_fake := pan_fake u\<rparr> = u" for u :: "'a pancake_proxy" by simp
  have "pan_create_security_batch e i s = (Inr ops, t)"
    using t(1) [rule_format, of "pan_fake s"] same [of s] same [of t] unfolding t(2) by (simp only:)
  with t show ?thesis by (intro exI [of _ ops] exI [of _ t]) (auto simp: list_all_iff pan_samples_real_def)
qed

section \<open>Swapping labels\<close>

lemma stoi_freed_label:
  assumes "0 \<le> l"
  shows "stoi (freed_label l) = Inl (Invalid_argument ''stoi'') \<or> (\<exists>d. stoi (freed_label l) = Inr d \<and> 0 \<le> d \<and> d < 10 \<and> d \<noteq> l)"
proof -
  let ?n = "nat (l mod 256)"
  have n: "?n < 256" by simp
  have of: "(of_char (char_of ?n) :: nat) = ?n" using n by (simp add: of_char_of)
  show ?thesis
  proof (cases "is_digit (char_of ?n)")
    case True
    then have r: "48 \<le> ?n" "?n \<le> 57" by (simp_all add: is_digit_def of)
    have "\<not> is_digit (CHR ''-'')" "\<not> is_digit (CHR ''+'')" by (simp_all add: is_digit_def)
    with True have ns: "char_of ?n \<noteq> CHR ''-''" "char_of ?n \<noteq> CHR ''+''" by metis+
    have sp: "\<not> is_space (char_of ?n)" using r by (simp add: is_space_def of)
    have "stoi (freed_label l) = Inr (int ?n - 48)"
      using True r ns sp by (simp add: freed_label_def stoi_def strto_def read_sign_def dec_value_def digit_val_def of)
        (use pos_mod_bound [of 256 l] pos_mod_sign [of 256 l] in linarith)
    moreover have "int ?n \<le> l" using assms by (simp add: zmod_le_nonneg_dividend)
    ultimately show ?thesis using r by auto
  next
    case False
    then have "takeWhile is_digit (snd (read_sign (dropWhile is_space (freed_label l)))) = []"
      by (simp add: freed_label_def read_sign_def)
    then have "stoi (freed_label l) = Inl (Invalid_argument ''stoi'')"
      by (simp add: stoi_def strto_def Let_def case_prod_unfold)
    then show ?thesis by simp
  qed
qed

text \<open>
  A label that the legacy proxy takes from a replica never reaches the replica it is meant for: the label is stored as the one character whose code is its last
  byte, and reading that string as a number throws, or gives a digit that is not the label.
\<close>

lemma pan_swap_loses_label:
  assumes "map_of (pan_replica_to_label s) (a @ to_string i) = Some l" and "0 \<le> l"
    and "pan_free_replica os a i s = (Inr label, t)" and "pan_perform_swapping [label] [(b, j)] t = (r, u)"
  shows "map_of (pan_replica_to_label t) (a @ to_string i) = None \<and>
         (r = Inl (Invalid_argument ''stoi'') \<and> u = t \<or>
          r = Inr 1 \<and> (\<exists>d. map_of (pan_replica_to_label u) (b @ to_string j) = Some d \<and> 0 \<le> d \<and> d < 10 \<and> d \<noteq> l))"
proof -
  have f: "label = freed_label l" "t = s\<lparr>pan_replica_to_label := tab_erase (a @ to_string i) (pan_replica_to_label s)\<rparr>"
    using assms(1,3) by (auto simp: pan_free_replica_def Let_def cpp_simps pan_assert_def pan_at_def)
  have "pan_perform_swapping [label] [(b, j)] t =
      (case stoi label of Inl x \<Rightarrow> (Inl x, t) | Inr d \<Rightarrow> (Inr 1, t\<lparr>pan_replica_to_label := tab_put (b @ to_string j) d (pan_replica_to_label t)\<rparr>))"
    by (simp add: pan_perform_swapping_def cpp_simps split: sum.splits)
  then show ?thesis using stoi_freed_label [OF assms(2)] assms(4) f by (auto split: sum.splits)
qed

section \<open>One server\<close>

lemma group_one: "group_by_server (Suc 0) f vs = (if vs = [] then [] else [(0, vs)])"
proof (induction vs rule: rev_induct)
  case (snoc v vs)
  have "group_by_server (Suc 0) f (vs @ [v]) = tab_append 0 v (group_by_server (Suc 0) f vs)"
    by (simp add: group_by_server_def one_server)
  then show ?case using snoc by (simp add: tab_append_def tab_put_def)
qed (simp add: group_by_server_def)

lemma iter_one: "iter_ok iter \<Longrightarrow> iter [x] = [x]"
  unfolding iter_ok_def by (metis mset_single_iff_right mset.simps)

definition pan_sent :: "unit redis_call list \<Rightarrow> unit redis \<Rightarrow> unit redis" where
  "pan_sent calls i = i\<lparr>rd_clients := map (\<lambda>c. c\<lparr>cl_sent := cl_sent c @ calls\<rparr>) (rd_clients i)\<rparr>"

lemma redis_get_one:
  assumes "rd_clients i = [c]" "iter_ok iter" "keys \<noteq> []" "mget_values api (sv_mget srv 0 keys) = Inr vals"
  shows "redis_get_batch api srv iter keys i = (Inr vals, pan_sent [Mget keys []] i)"
  using assms by (simp add: redis_get_batch_def cpp_simps group_one iter_one rd_send_def pan_sent_def)

lemma redis_put_one:
  assumes "rd_clients i = [c]" "iter_ok iter" "keys \<noteq> []" "length vals = length keys" "\<not> rp_is_error api (sv_mset srv 0 (zip keys vals))"
  shows "redis_put_batch api srv iter keys vals i = (Inr (), pan_sent [Mset (zip keys vals) []] i)"
proof -
  have "map_out (\<lambda>i. bind_out (vec_at vals (int i)) (\<lambda>v. Inr (keys ! i, v))) [0..<length keys] = Inr (zip keys vals)"
    using assms(4) by (auto simp: map_out_Inr_iff list_all2_conv_all_nth)
  moreover have "zip keys vals \<noteq> []" using assms(3,4) by (cases keys; cases vals) auto
  ultimately show ?thesis
    using assms by (simp add: redis_put_batch_def cpp_simps group_one iter_one rd_send_def pan_sent_def)
qed

section \<open>Examples\<close>

text \<open>One server with the content \<open>st\<close>; a reply is the list of its strings.\<close>

definition example_pan_env :: "(string \<Rightarrow> string) \<Rightarrow> string list pan_env" where
  "example_pan_env st =
     \<lparr>pe_api = \<lparr>rp_is_error = \<lambda>_. False, rp_error = \<lambda>_. [], rp_is_null = \<lambda>_. False, rp_as_array = \<lambda>r. Inr (map (\<lambda>x. [x]) r), rp_as_string = \<lambda>r. Inr (hd r)\<rparr>,
      pe_server = \<lparr>sv_get = \<lambda>i k. [st k], sv_mget = \<lambda>i ks. map st ks, sv_set = \<lambda>i k v. [''OK''], sv_mset = \<lambda>i kvs. [''OK'']\<rparr>,
      pe_get_iter = \<lambda>t. t, pe_put_iter = \<lambda>t. t, pe_cache_iter = \<lambda>t. t\<rparr>"

text \<open>One key with two replicas, so that no dummy replica is needed.\<close>

definition example_pan_dist :: distribution where
  "example_pan_dist = \<lparr>dist_items = [''k''], dist_probs = [1]\<rparr>"

lemma example_pan_init:
  obtains s0 s1 where "pancake_proxy_new example_openssl ''d'' = Inr s0"
    "pan_init example_env example_openssl (example_pan_env id) 1 example_pan_dist (1 / 2) (1 / 2) [] s0 = (Inr (), s1)"
    "pan_queues s1 = [wq_new]" "pan_promises s1 = []"
proof -
  obtain g g' where g: "encryption_engine_new example_openssl = Inr g" "encryption_engine_copy example_openssl g = Inr g'"
    using example_engine by blast
  obtain s0 where s0: "pancake_proxy_new example_openssl ''d'' = Inr s0" "pan_engine s0 = g" "pan_server_type s0 = ''redis''" "pan_server_count s0 = 1"
      "pan_queues s0 = []" "pan_promises s0 = []" "pan_object_size s0 = 1024" "pan_label_count s0 = 0" "pan_tick s0 = 0"
    by (simp add: pancake_proxy_new_def g)
  let ?text = "rand_str (map (env_rand example_env) [0..<1024])"
  have "length ?text < SCRATCH_SIZE" "?text \<noteq> []" by (simp_all add: rand_str_def SCRATCH_SIZE_def)
  then obtain c where c: "ee_encrypt example_openssl g ?text = Inr c"
    using ee_inverse [OF example_aes, of ?text "encryption_key g" "enc_iv g"] copy_of_new(3) [OF g] by blast
  obtain i where i: "redis_new (\<lambda>_ _. True) (pan_server_host s0) (pan_server_port s0) 1 = Inr (i :: unit redis)" "length (rd_clients i) = 1"
    by (simp add: redis_new_def redis_interface_new_def redis_connect_def)
  then obtain cl where cl: "rd_clients i = [cl]" by (auto simp: length_Suc_conv)
  have num: "to_int 1 = Inr 1" "pan_replica_count (1 / 2) 1 = Inr 2" "pan_fake_prob (1 / 2) (1 / 2) 1 2 = Inr 0" "dummy_count (Suc 0) 2 = 0"
    by code_simp+
  let ?pe = "example_pan_env id"
  have put: "redis_put_batch (pe_api ?pe) (pe_server ?pe) (pe_put_iter ?pe) [to_string 0, to_string 1] (replicate 2 c) i =
      (Inr (), pan_sent [Mset (zip [to_string 0, to_string 1] (replicate 2 c)) []] i)"
    by (rule redis_put_one [OF cl]) (simp_all add: example_pan_env_def iter_ok_def)
  have two: "[0..<nat 2] = [0, 1]" by (simp add: upt_rec)
  have ins: "\<exists>t. pan_insert_replicas example_env example_openssl ?pe ''k'' 2 u = (Inr (), t) \<and> pan_queues t = pan_queues u \<and> pan_promises t = pan_promises u \<and>
      pan_dummy_key t = pan_dummy_key u \<and> pan_alpha t = pan_alpha u \<and> pan_delta t = pan_delta u \<and> pan_real t = pan_real u"
    if "pan_storage u = Some i" "pan_engine u = g" "pan_object_size u = 1024" "pan_label_count u = 0" "pan_tick u = 0" for u
    using that c put
    by (simp add: pan_insert_replicas_def cpp_simps two pan_on_storage_def Let_def numeral_2_eq_2)
  have "\<exists>s1. pan_init example_env example_openssl ?pe 1 example_pan_dist (1 / 2) (1 / 2) [] s0 = (Inr (), s1) \<and> pan_queues s1 = [wq_new] \<and> pan_promises s1 = []"
  proof -
    let ?u = "s0\<lparr>pan_real := example_pan_dist, pan_alpha := 1 / 2, pan_delta := 1 / 2, pan_clients := [], pan_storage := Some i,
      pan_frequency := tab_put ''k'' 1 (pan_frequency s0), pan_replicas_of := tab_put ''k'' 2 (pan_replicas_of s0)\<rparr>"
    obtain t where "pan_insert_replicas example_env example_openssl ?pe ''k'' 2 ?u = (Inr (), t)" "pan_queues t = []" "pan_promises t = []"
      using ins [of ?u] s0 by auto
    then show ?thesis
      using s0 i num by (simp add: pan_init_def pan_add_servers_def pan_create_replicas_def pan_create_key_def cpp_simps example_pan_dist_def
          example_env_def Let_def)
  qed
  with s0(1) that show thesis by blast
qed

theorem pan_static_proxy_no_fakes_witness:
  "\<exists>s0 s1 s t. pancake_proxy_new example_openssl ''d'' = Inr s0 \<and>
     pan_init example_env example_openssl (example_pan_env id) 1 example_pan_dist (1 / 2) (1 / 2) [] s0 = (Inr (), s1) \<and>
     fold (pan_act example_env example_openssl (example_pan_env id)) [Inl (0, ''k'', Some ''v'')] (s1, []) = (s, []) \<and>
     pan_create_security_batch example_env 0 s =
       (Inr [(\<lparr>po_key = ''k'', po_value = ''v''\<rparr>, True, [0]), (\<lparr>po_key = ''k'', po_value = []\<rparr>, False, []), (\<lparr>po_key = ''k'', po_value = []\<rparr>, False, [])], t)"
proof -
  obtain s0 s1 where s: "pancake_proxy_new example_openssl ''d'' = Inr s0"
    "pan_init example_env example_openssl (example_pan_env id) 1 example_pan_dist (1 / 2) (1 / 2) [] s0 = (Inr (), s1)"
    "pan_queues s1 = [wq_new]" "pan_promises s1 = []"
    by (rule example_pan_init)
  let ?op = "\<lparr>po_key = ''k'', po_value = ''v''\<rparr>"
  obtain s2 where r: "fold (pan_act example_env example_openssl (example_pan_env id)) [Inl (0, ''k'', Some ''v'')] (s1, []) = (s2, [])"
    "pan_queues s2 = [wq_push (?op, 0) wq_new]"
    using s(3,4) by (simp add: pan_request_def pan_put_future_def pan_enqueue_def cpp_simps Let_def)
  have q: "wq_items (pan_queues s2 ! 0) = [(?op, 0)]" "0 < length (pan_queues s2)" by (simp_all add: r(2) wq_push_def wq_new_def)
  have d: "dist_items example_pan_dist = [''k'']" "length (dist_items example_pan_dist) = length (dist_probs example_pan_dist)" by (simp_all add: example_pan_dist_def)
  obtain ops t where o: "pan_create_security_batch example_env 0 s2 = (Inr ops, t)" "length ops = 3" "take 1 ops = [(?op, True, [0])]"
    "\<forall>x \<in> set (drop 1 ops). x = (\<lparr>po_key = ''k'', po_value = []\<rparr>, False, [])"
    using pan_static_proxy_no_fakes [OF s(1,2) r(1) q(2) example_env_ok _ d(2)] q(1) d(1) by auto
  obtain x y z where "ops = [x, y, z]" using o(2) by (auto simp: numeral_3_eq_3 length_Suc_conv)
  with o(3,4) have "ops = [(?op, True, [0]), (\<lparr>po_key = ''k'', po_value = []\<rparr>, False, []), (\<lparr>po_key = ''k'', po_value = []\<rparr>, False, [])]" by simp
  with s(1,2) r(1) o(1) show ?thesis by blast
qed

end
