(* ===== verification/Pancake_Batch.thy ===== *)
theory Pancake_Batch
  imports Pancake_Proxy
begin

text \<open>
  A batch of the legacy proxy as operations of a store by key. The specification \<open>pan_apply\<close> and \<open>pan_answers\<close> executes the operations one after the other;
  \<open>pan_holds\<close> relates it to the proxy and its server: each replica of a key has the value of the key at the server, or the update cache has it for that
  replica. A batch reads all labels before it writes any of them, so the batch refines the specification when no label is accessed
  twice (\<open>pan_batch_refines_key_store\<close>), and loses a write when one is (\<open>pan_batch_loses_write\<close>).
\<close>

section \<open>The specification\<close>

definition pan_apply :: "operation \<Rightarrow> (string \<Rightarrow> string) \<Rightarrow> string \<Rightarrow> string" where
  "pan_apply op kv = kv(po_key op := (if po_value op \<noteq> [] then po_value op else kv (po_key op)))"

fun pan_answers :: "(string \<Rightarrow> string) \<Rightarrow> (operation \<times> bool) list \<Rightarrow> string list" where
  "pan_answers kv [] = []"
| "pan_answers kv ((op, is_true) # ops) =
     (if is_true then [pan_apply op kv (po_key op)] else []) @ pan_answers (pan_apply op kv) ops"

definition pan_stored :: "(string \<times> string) list \<Rightarrow> (string \<Rightarrow> string) \<Rightarrow> string \<Rightarrow> string" where
  "pan_stored kvs st = fold (\<lambda>(l, c) m. m(l := c)) kvs st"

section \<open>The abstraction\<close>

definition pan_label :: "'k pancake_proxy \<Rightarrow> string \<Rightarrow> nat \<Rightarrow> int option" where
  "pan_label s k i = map_of (pan_replica_to_label s) (k @ to_string (int i))"

definition pan_replica :: "'k pancake_proxy \<Rightarrow> string \<Rightarrow> nat \<Rightarrow> bool" where
  "pan_replica s k i \<longleftrightarrow> (\<exists>n. map_of (pan_replicas_of s) k = Some n \<and> i < nat n)"

text \<open>Every replica has a label of its own, and no replica waits for a label.\<close>

definition pan_tables_ok :: "'k pancake_proxy \<Rightarrow> bool" where
  "pan_tables_ok s \<longleftrightarrow>
     pan_missing s = [] \<and> (\<forall>k n. map_of (pan_replicas_of s) k = Some n \<longrightarrow> 0 < n) \<and>
     (\<forall>k i. pan_replica s k i \<longrightarrow> pan_label s k i \<noteq> None) \<and>
     (\<forall>k i k' i'. pan_replica s k i \<and> pan_replica s k' i' \<and> pan_label s k i = pan_label s k' i' \<longrightarrow> k = k' \<and> i = i')"

text \<open>The value that the cache has for replica \<open>i\<close>.\<close>

definition pan_pending :: "uc_map \<Rightarrow> string \<Rightarrow> nat \<Rightarrow> string option" where
  "pan_pending m k i = (case map_of m k of None \<Rightarrow> None | Some (w, bits) \<Rightarrow> if i < length bits \<and> bits ! i then Some w else None)"

definition pan_bits_ok :: "'k pancake_proxy \<Rightarrow> uc_map \<Rightarrow> bool" where
  "pan_bits_ok s m \<longleftrightarrow> (\<forall>k w bits i. map_of m k = Some (w, bits) \<and> pan_replica s k i \<longrightarrow> i < length bits)"

definition pan_value_at :: "'k openssl \<Rightarrow> 'k encryption_engine \<Rightarrow> (string \<Rightarrow> string) \<Rightarrow> int \<Rightarrow> string option \<Rightarrow> string \<Rightarrow> bool" where
  "pan_value_at os g st l upd v \<longleftrightarrow>
     (\<exists>x. ee_decrypt os g (st (to_string l)) = Inr x \<and> (case upd of None \<Rightarrow> x = v | Some w \<Rightarrow> w = v))"

definition pan_holds :: "'k openssl \<Rightarrow> 'k encryption_engine \<Rightarrow> 'k pancake_proxy \<Rightarrow> (string \<Rightarrow> string) \<Rightarrow> (string \<Rightarrow> string) \<Rightarrow> bool" where
  "pan_holds os g s st kv \<longleftrightarrow>
     pan_bits_ok s (pan_cache s) \<and>
     (\<forall>k i l. pan_replica s k i \<and> pan_label s k i = Some l \<longrightarrow> pan_value_at os g st l (pan_pending (pan_cache s) k i) (kv k))"

definition pan_text :: "string \<Rightarrow> bool" where
  "pan_text v \<longleftrightarrow> v \<noteq> [] \<and> length v < SCRATCH_SIZE"

definition pan_engine_ok :: "'k openssl \<Rightarrow> 'k encryption_engine \<Rightarrow> bool" where
  "pan_engine_ok os g \<longleftrightarrow> engine_ready g \<and> (\<forall>p. pan_text p \<longrightarrow> aes_law os (encryption_key g) (enc_iv g) p)"

lemma pan_encrypt:
  assumes "pan_engine_ok os g" "pan_text v"
  obtains c where "ee_encrypt os g v = Inr c" "ee_decrypt os g c = Inr v"
  using ee_inverse [of os "encryption_key g" "enc_iv g" v] assms by (auto simp: pan_engine_ok_def pan_text_def)

text \<open>Only the tables matter for labels and replicas.\<close>

lemma pan_frame [simp]:
  "pan_label (s\<lparr>pan_cache := c\<rparr>) = pan_label s" "pan_label (s\<lparr>pan_promises := p\<rparr>) = pan_label s"
  "pan_label (s\<lparr>pan_frequency := f\<rparr>) = pan_label s" "pan_label (s\<lparr>pan_tick := t\<rparr>) = pan_label s"
  "pan_replica (s\<lparr>pan_cache := c\<rparr>) = pan_replica s" "pan_replica (s\<lparr>pan_promises := p\<rparr>) = pan_replica s"
  "pan_replica (s\<lparr>pan_frequency := f\<rparr>) = pan_replica s" "pan_replica (s\<lparr>pan_tick := t\<rparr>) = pan_replica s"
  by (simp_all add: fun_eq_iff pan_label_def pan_replica_def)

lemma pan_tables_frame [simp]:
  "pan_tables_ok (s\<lparr>pan_cache := c\<rparr>) = pan_tables_ok s" "pan_tables_ok (s\<lparr>pan_promises := p\<rparr>) = pan_tables_ok s"
  "pan_tables_ok (s\<lparr>pan_frequency := f\<rparr>) = pan_tables_ok s" "pan_tables_ok (s\<lparr>pan_tick := t\<rparr>) = pan_tables_ok s"
  by (simp_all add: pan_tables_ok_def)

lemma pan_holds_frame [simp]:
  "pan_holds os g (s\<lparr>pan_promises := p\<rparr>) = pan_holds os g s" "pan_holds os g (s\<lparr>pan_frequency := f\<rparr>) = pan_holds os g s"
  "pan_holds os g (s\<lparr>pan_tick := t\<rparr>) = pan_holds os g s" "pan_holds os g (s\<lparr>pan_promises := p, pan_cache := c\<rparr>) = pan_holds os g (s\<lparr>pan_cache := c\<rparr>)"
  by (simp_all add: fun_eq_iff pan_holds_def pan_bits_ok_def)

section \<open>The cache\<close>

lemma pan_pending_populate:
  "pan_pending (snd (populate_replica_updates k v n m)) k' i =
     (if k' = k then (if i < nat n then Some v else None) else pan_pending m k' i)"
  by (auto simp: pan_pending_def populate_replica_updates_def)

lemma pan_pending_check:
  assumes "\<And>w bits. map_of m k = Some (w, bits) \<Longrightarrow> r < length bits"
  obtains m' where "check_for_update k (int r) m = (Inr (case pan_pending m k r of None \<Rightarrow> [] | Some w \<Rightarrow> w), m')"
    "\<And>k' i. pan_pending m' k' i = (if k' = k \<and> i = r then None else pan_pending m k' i)"
    "\<And>k' w bits. map_of m' k' = Some (w, bits) \<Longrightarrow> \<exists>old. map_of m k' = Some (w, old) \<and> length bits = length old"
proof (cases "map_of m k")
  case None
  show ?thesis by (rule that [of m]) (use None in \<open>auto simp: check_for_update_def pan_pending_def\<close>)
next
  case (Some e)
  obtain w bits where e: "e = (w, bits)" by (cases e)
  with Some assms have r: "r < length bits" by simp
  let ?bits = "bits[r := False]" and ?z = "hamming_weight (bits[r := False]) = 0"
  let ?m = "tab_erase_fn k (\<lambda>e. ((fst e, ?bits), ?z)) m"
  have b: "\<not> bits ! r \<Longrightarrow> bits[r := False] = bits" by (metis (full_types) list_update_id)
  have m: "map_of ?m = (map_of m)(k := (if ?z then None else Some (w, ?bits)))"
    using Some e by (simp add: map_of_tab_erase_fn)
  have nth: "i < length bits \<Longrightarrow> ?bits ! i \<longleftrightarrow> bits ! i \<and> i \<noteq> r" for i by (cases "i = r") auto
  have z: "?z \<Longrightarrow> i < length bits \<Longrightarrow> bits ! i \<Longrightarrow> i = r" for i
    unfolding hamming_weight_0 by (metis length_list_update nth_list_update_neq)
  show ?thesis
  proof (rule that [of ?m])
    show "check_for_update k (int r) m = (Inr (case pan_pending m k r of None \<Rightarrow> [] | Some w \<Rightarrow> w), ?m)"
      using r b by (simp add: check_for_update_def pan_pending_def Some e Let_def)
    show "pan_pending ?m k' i = (if k' = k \<and> i = r then None else pan_pending m k' i)" for k' i
      using z nth by (auto simp: pan_pending_def m Some e)
    show "\<exists>old. map_of m k' = Some (w', old) \<and> length b = length old" if "map_of ?m k' = Some (w', b)" for k' w' b
      using that by (auto simp: m Some e split: if_splits)
  qed
qed

section \<open>One operation\<close>

lemma pan_missing_same: "pan_missing s = [] \<Longrightarrow> s\<lparr>pan_missing := []\<rparr> = s"
  by (cases s) simp

text \<open>What the two calls on the cache do to the value of a key: the replica that is accessed gets it now, the others have it already or find it in the cache.\<close>

lemma pan_cache_step:
  assumes tab: "pan_tables_ok s" and hold: "pan_holds os g s st kv" and rep: "map_of (pan_replicas_of s) k = Some n" "r < nat n" "pan_label s k r = Some l"
    and kv: "\<And>x. pan_text (kv x)" and c: "ee_decrypt os g c = Inr (kv' k)" and kv': "kv' = kv(k := (if w \<noteq> [] then w else kv k))"
    and x: "ee_decrypt os g (st (to_string l)) = Inr x"
  obtains m u where "check_for_update k (int r) (if w \<noteq> [] then snd (populate_replica_updates k w n (pan_cache s)) else pan_cache s) = (Inr u, m)"
    "(if u = [] then x else u) = kv' k" "pan_holds os g (s\<lparr>pan_cache := m\<rparr>) (st(to_string l := c)) kv'" "pan_pending m k r = None"
proof -
  let ?m = "if w \<noteq> [] then snd (populate_replica_updates k w n (pan_cache s)) else pan_cache s"
  have r: "pan_replica s k r" using rep by (auto simp: pan_replica_def)
  have k_bits: "\<And>v b. map_of (pan_cache s) k = Some (v, b) \<Longrightarrow> r < length b" using hold r by (auto simp: pan_holds_def pan_bits_ok_def)
  have in_bits: "map_of ?m k = Some (v, b) \<Longrightarrow> r < length b" for v b
    using k_bits rep(2) by (auto simp: populate_replica_updates_def split: if_splits)
  obtain m where m: "check_for_update k (int r) ?m = (Inr (case pan_pending ?m k r of None \<Rightarrow> [] | Some w \<Rightarrow> w), m)"
    and p: "\<And>k' i. pan_pending m k' i = (if k' = k \<and> i = r then None else pan_pending ?m k' i)"
    and b: "\<And>k' w bits. map_of m k' = Some (w, bits) \<Longrightarrow> \<exists>old. map_of ?m k' = Some (w, old) \<and> length bits = length old"
    using pan_pending_check [of ?m k r] in_bits by blast
  have pm: "pan_pending ?m k' i = (if k' = k \<and> w \<noteq> [] then (if i < nat n then Some w else None) else pan_pending (pan_cache s) k' i)" for k' i
    by (simp add: pan_pending_populate)
  have old: "pan_value_at os g st l' (pan_pending (pan_cache s) k' i) (kv k')" if "pan_replica s k' i" "pan_label s k' i = Some l'" for k' i l'
    using hold that by (auto simp: pan_holds_def)
  have ne: "kv k \<noteq> []" using kv by (auto simp: pan_text_def)
  have val: "(if (case pan_pending ?m k r of None \<Rightarrow> [] | Some w \<Rightarrow> w) = [] then x else (case pan_pending ?m k r of None \<Rightarrow> [] | Some w \<Rightarrow> w)) = kv' k"
    using old [OF r rep(3)] x ne rep(2) unfolding pm by (auto simp: kv' pan_value_at_def split: option.splits)
  have bits: "pan_bits_ok s m"
    unfolding pan_bits_ok_def
  proof (intro allI impI, elim conjE)
    fix k' v bs i assume h: "map_of m k' = Some (v, bs)" "pan_replica s k' i"
    from b [OF h(1)] obtain bs' where "map_of ?m k' = Some (v, bs')" "length bs = length bs'" by blast
    moreover have "i < nat n" if "k' = k" using that h(2) rep(1) by (auto simp: pan_replica_def)
    moreover have "i < length bs'" if "map_of (pan_cache s) k' = Some (v, bs')"
      using hold that h(2) unfolding pan_holds_def pan_bits_ok_def by blast
    ultimately show "i < length bs" by (auto simp: populate_replica_updates_def split: if_splits)
  qed
  have new: "pan_value_at os g (st(to_string l := c)) l' (pan_pending m k' i) (kv' k')" if h: "pan_replica s k' i" "pan_label s k' i = Some l'" for k' i l'
  proof (cases "k' = k \<and> i = r")
    case True
    with rep(3) h(2) c show ?thesis by (simp add: p pan_value_at_def)
  next
    case False
    then have "l' \<noteq> l" using tab r rep(3) h unfolding pan_tables_ok_def by metis
    moreover have "i < nat n" if "k' = k" using that h(1) rep(1) by (auto simp: pan_replica_def)
    ultimately show ?thesis using False old [OF h] unfolding p pm by (auto simp: pan_value_at_def kv')
  qed
  show ?thesis
    by (rule that [OF m val]) (use bits new p in \<open>auto simp: pan_holds_def pan_bits_ok_def\<close>)
qed

lemma pan_serve_ok:
  assumes tab: "pan_tables_ok s" and hold: "pan_holds os g s st kv" and g: "pan_engine_ok os g"
    and rep: "map_of (pan_replicas_of s) (po_key op) = Some n" "r < nat n" "pan_label s (po_key op) r = Some l"
    and kv: "\<And>x. pan_text (kv x)" "\<And>x. pan_text (pan_apply op kv x)"
    and i: "i < length responses" "responses ! i = st (to_string l)" "fst (replicas ! i) = int r"
    and p: "bs ! i \<Longrightarrow> j < length ps \<and> ps ! j < length (pan_promises s) \<and> pan_promises s ! (ps ! j) = None"
  obtains c m where "pan_serve os g responses bs ps replicas j (i, op) s =
      (Inr c, s\<lparr>pan_cache := m, pan_promises := (if bs ! i then (pan_promises s)[ps ! j := Some (pan_apply op kv (po_key op))] else pan_promises s)\<rparr>)"
    "ee_decrypt os g c = Inr (pan_apply op kv (po_key op))"
    "pan_holds os g (s\<lparr>pan_cache := m\<rparr>) (st(to_string l := c)) (pan_apply op kv)" "pan_pending m (po_key op) r = None"
proof -
  let ?k = "po_key op" and ?w = "po_value op" and ?v = "pan_apply op kv (po_key op)"
  obtain c where c: "ee_encrypt os g ?v = Inr c" "ee_decrypt os g c = Inr ?v" using pan_encrypt [OF g kv(2)] .
  have "pan_replica s ?k r" using rep by (auto simp: pan_replica_def)
  then have "pan_value_at os g st l (pan_pending (pan_cache s) ?k r) (kv ?k)" using hold rep(3) by (simp add: pan_holds_def)
  then obtain x where x: "ee_decrypt os g (st (to_string l)) = Inr x" by (auto simp: pan_value_at_def)
  obtain m u where m: "check_for_update ?k (int r) (if ?w \<noteq> [] then snd (populate_replica_updates ?k ?w n (pan_cache s)) else pan_cache s) = (Inr u, m)"
    "(if u = [] then x else u) = ?v" "pan_holds os g (s\<lparr>pan_cache := m\<rparr>) (st(to_string l := c)) (pan_apply op kv)" "pan_pending m ?k r = None"
    using pan_cache_step [OF tab hold rep kv(1) c(2) pan_apply_def x] by blast
  have miss: "pan_missing s = []" using tab by (simp add: pan_tables_ok_def)
  have "pan_serve os g responses bs ps replicas j (i, op) s =
      (Inr c, s\<lparr>pan_cache := m, pan_promises := (if bs ! i then (pan_promises s)[ps ! j := Some ?v] else pan_promises s)\<rparr>)"
    using i p x m(1) rep(1) c(1) miss
    by (auto simp: pan_serve_def cpp_simps pan_at_def pan_on_cache_def pan_on_caches_def check_if_missing_def pan_set_value_def Let_def m(2) pan_missing_same
        split: if_splits)
  then show ?thesis using c(2) m(3,4) by (rule that)
qed

section \<open>The loops\<close>

definition pan_chosen :: "'k pancake_proxy \<Rightarrow> operation \<Rightarrow> int \<times> string \<Rightarrow> bool" where
  "pan_chosen s op rl \<longleftrightarrow> (\<exists>r l. rl = (int r, to_string l) \<and> pan_replica s (po_key op) r \<and> pan_label s (po_key op) r = Some l)"

lemma pan_chosen_frame [simp]:
  "pan_chosen (s\<lparr>pan_cache := c\<rparr>) = pan_chosen s" "pan_chosen (s\<lparr>pan_promises := p\<rparr>) = pan_chosen s"
  "pan_chosen (s\<lparr>pan_frequency := f\<rparr>) = pan_chosen s" "pan_chosen (s\<lparr>pan_tick := t\<rparr>) = pan_chosen s"
  by (simp_all add: fun_eq_iff pan_chosen_def)

lemma pan_choose_ok:
  assumes tab: "pan_tables_ok s" and n: "map_of (pan_replicas_of s) (po_key op) = Some n" and i: "i < length bs"
  obtains rl f t where "pan_choose_replica e bs (i, op) s = (Inr rl, s\<lparr>pan_frequency := f, pan_tick := t\<rparr>)" "pan_chosen s op rl"
proof -
  have pos: "0 < n" and miss: "pan_missing s = []" using tab n by (auto simp: pan_tables_ok_def)
  define r where "r = env_rand e (pan_tick s) mod nat n"
  have r: "int (env_rand e (pan_tick s)) mod \<bar>n\<bar> = int r" "r < nat n" using pos by (simp_all add: r_def zmod_int)
  then have rep: "pan_replica s (po_key op) r" using n by (auto simp: pan_replica_def)
  then obtain l where l: "pan_label s (po_key op) r = Some l" using tab unfolding pan_tables_ok_def by (metis option.exhaust)
  define f where "f = (if map_of (pan_frequency s) (po_key op) = None then tab_put (po_key op) 0 (pan_frequency s) else pan_frequency s)"
  have "pan_choose_replica e bs (i, op) s = (Inr (int r, to_string l), s\<lparr>pan_frequency := f, pan_tick := pan_tick s + 1\<rparr>)"
    using i n pos r l
    by (auto simp: pan_choose_replica_def cpp_simps pan_at_def pan_next_tick_def sample_a_replica_def rem_draw_def miss pan_label_def f_def
        split: option.splits)
  then show ?thesis by (rule that) (use rep l in \<open>auto simp: pan_chosen_def\<close>)
qed

lemma pan_choose_all:
  assumes "pan_tables_ok s" "\<And>op. op \<in> set ops \<Longrightarrow> map_of (pan_replicas_of s) (po_key op) \<noteq> None" "m + length ops \<le> length bs"
  shows "\<exists>rs f t. collect (pan_choose_replica e bs) (enumerate m ops) s = (Inr rs, s\<lparr>pan_frequency := f, pan_tick := t\<rparr>) \<and> list_all2 (pan_chosen s) ops rs"
  using assms
proof (induction ops arbitrary: m s)
  case Nil
  have "collect (pan_choose_replica e bs) (enumerate m []) s = (Inr [], s\<lparr>pan_frequency := pan_frequency s, pan_tick := pan_tick s\<rparr>)"
    by (cases s) (simp add: ret_apply)
  moreover have "list_all2 (pan_chosen s) [] []" by simp
  ultimately show ?case by blast
next
  case (Cons op ops)
  obtain n where n: "map_of (pan_replicas_of s) (po_key op) = Some n" using Cons.prems(2) [of op] by auto
  have m: "m < length bs" using Cons.prems(3) by simp
  obtain rl f t where c: "pan_choose_replica e bs (m, op) s = (Inr rl, s\<lparr>pan_frequency := f, pan_tick := t\<rparr>)" "pan_chosen s op rl"
    by (rule pan_choose_ok [OF Cons.prems(1) n m])
  let ?s = "s\<lparr>pan_frequency := f, pan_tick := t\<rparr>"
  have "\<exists>rs f t. collect (pan_choose_replica e bs) (enumerate (Suc m) ops) ?s = (Inr rs, ?s\<lparr>pan_frequency := f, pan_tick := t\<rparr>) \<and> list_all2 (pan_chosen ?s) ops rs"
    by (rule Cons.IH) (use Cons.prems in auto)
  then show ?case using c by (auto simp: collect_Cons simp del: collect.simps) blast
qed

lemma pan_text_apply: "(\<And>x. pan_text (kv x)) \<Longrightarrow> length (po_value op) < SCRATCH_SIZE \<Longrightarrow> pan_text (pan_apply op kv x)"
  by (auto simp: pan_text_def pan_apply_def)

text \<open>
  The second loop, from position \<open>length rs0\<close> on: \<open>rs\<close> are the replicas of the operations \<open>ops\<close>, \<open>bs\<close> their flags and \<open>ps\<close> the promises of those of clients; the lists
  with a zero are what has been dealt with.
\<close>

lemma pan_serve_loop_ok:
  assumes "list_all2 (pan_chosen s) ops rs" and "pan_tables_ok s" and "pan_holds os g s st kv" and "pan_engine_ok os g"
    and "\<And>x. pan_text (kv x)" and "\<And>op. op \<in> set ops \<Longrightarrow> length (po_value op) < SCRATCH_SIZE" and "distinct (map snd rs)"
    and "length bs = length ops" and "length bs0 = length rs0" and "length vs0 = length rs0"
    and "length (filter (\<lambda>b. b) bs) = length ps" and "distinct ps" and "\<And>p. p \<in> set ps \<Longrightarrow> p < length (pan_promises s) \<and> pan_promises s ! p = None"
  shows "\<exists>cs m prs. pan_serve_loop os g (vs0 @ map (st \<circ> snd) rs) (bs0 @ bs) (ps0 @ ps) (rs0 @ rs) (length ps0) (enumerate (length rs0) ops) s =
           (Inr cs, s\<lparr>pan_cache := m, pan_promises := prs\<rparr>) \<and> length cs = length rs \<and>
         pan_holds os g (s\<lparr>pan_cache := m\<rparr>) (pan_stored (zip (map snd rs) cs) st) (fold pan_apply ops kv) \<and>
         map ((!) prs) ps = map Some (pan_answers kv (zip ops bs)) \<and> length prs = length (pan_promises s) \<and> (\<forall>p. p \<notin> set ps \<longrightarrow> prs ! p = pan_promises s ! p)"
  using assms
proof (induction ops arbitrary: rs s st kv bs bs0 vs0 rs0 ps ps0)
  case Nil
  then have n: "rs = []" "ps = []" by simp_all
  have e: "s\<lparr>pan_cache := pan_cache s, pan_promises := pan_promises s\<rparr> = s" "s\<lparr>pan_cache := pan_cache s\<rparr> = s" by (cases s, simp)+
  show ?case
    by (rule exI [of _ "[]"], rule exI [of _ "pan_cache s"], rule exI [of _ "pan_promises s"], unfold e)
      (use Nil.prems(3) in \<open>simp add: n ret_apply pan_stored_def\<close>)
next
  case (Cons op ops)
  from Cons.prems(1) obtain rl rs' where rs': "rs = rl # rs'" "pan_chosen s op rl" "list_all2 (pan_chosen s) ops rs'"
    by (auto simp: list_all2_Cons1)
  then obtain r l where rs: "rs = (int r, to_string l) # rs'" "pan_replica s (po_key op) r" "pan_label s (po_key op) r = Some l"
    by (auto simp: pan_chosen_def)
  obtain b bs' where bs: "bs = b # bs'" using Cons.prems(8) by (cases bs) auto
  obtain n where n: "map_of (pan_replicas_of s) (po_key op) = Some n" "r < nat n" using rs(2) by (auto simp: pan_replica_def)
  obtain qs ps' where ps: "ps = qs @ ps'" "length (filter (\<lambda>b. b) bs') = length ps'" "if b then \<exists>p. qs = [p] else qs = []"
  proof (cases b)
    case True
    then obtain p ps' where "ps = p # ps'" using Cons.prems(11) by (cases ps) (auto simp: bs)
    with True Cons.prems(11) show ?thesis by (intro that [of "[p]" ps']) (simp_all add: bs)
  next
    case False
    with Cons.prems(11) show ?thesis by (intro that [of "[]" ps]) (simp_all add: bs)
  qed
  let ?kv = "pan_apply op kv" and ?i = "length rs0" and ?j = "length ps0"
  have kv: "\<And>x. pan_text (?kv x)" using Cons.prems(5,6) by (intro pan_text_apply) auto
  let ?rsp = "vs0 @ map (st \<circ> snd) rs" and ?bs = "bs0 @ bs" and ?ps = "ps0 @ ps" and ?rs = "rs0 @ rs"
  have at: "?i < length ?rsp" "?rsp ! ?i = st (to_string l)" "fst (?rs ! ?i) = int r" "?bs ! ?i = b"
    using Cons.prems(9,10) by (simp_all add: rs(1) bs nth_append)
  have pj: "b \<Longrightarrow> ?ps ! ?j = hd qs" using ps(1,3) by (auto simp: nth_append)
  obtain c m where c: "pan_serve os g ?rsp ?bs ?ps ?rs ?j (?i, op) s =
      (Inr c, s\<lparr>pan_cache := m, pan_promises := (if ?bs ! ?i then (pan_promises s)[?ps ! ?j := Some (?kv (po_key op))] else pan_promises s)\<rparr>)"
    "ee_decrypt os g c = Inr (?kv (po_key op))" "pan_holds os g (s\<lparr>pan_cache := m\<rparr>) (st(to_string l := c)) ?kv"
    by (rule pan_serve_ok [OF Cons.prems(2-4) n rs(3) Cons.prems(5) kv at(1-3), of ?bs ?j ?ps])
      (use at(4) pj ps(1,3) Cons.prems(13) in \<open>auto split: if_splits\<close>)
  define pr where "pr = (if b then (pan_promises s)[hd qs := Some (?kv (po_key op))] else pan_promises s)"
  define st' where "st' = st(to_string l := c)"
  let ?s = "s\<lparr>pan_cache := m, pan_promises := pr\<rparr>"
  have c': "pan_serve os g ?rsp ?bs ?ps ?rs ?j (?i, op) s = (Inr c, ?s)" using c(1) at(4) pj by (auto simp: pr_def)
  have ch: "list_all2 (pan_chosen ?s) ops rs'"
    using rs'(3) by simp
  have dis: "distinct (map snd rs')" "to_string l \<notin> snd ` set rs'" using Cons.prems(7) by (auto simp: rs(1))
  have dps: "distinct ps'" "set qs \<inter> set ps' = {}" using Cons.prems(12) by (auto simp: ps(1))
  have un: "p \<in> set ps' \<Longrightarrow> p < length (pan_promises ?s) \<and> pan_promises ?s ! p = None" for p
    using Cons.prems(13) [of p] dps(2) ps(1,3) by (auto simp: pr_def split: if_splits) (metis nth_list_update_neq)
  have IH: "\<exists>cs m' prs. pan_serve_loop os g ((vs0 @ [st (to_string l)]) @ map (st' \<circ> snd) rs') ((bs0 @ [b]) @ bs') ((ps0 @ qs) @ ps') ((rs0 @ [hd rs]) @ rs')
           (length (ps0 @ qs)) (enumerate (length (rs0 @ [hd rs])) ops) ?s = (Inr cs, ?s\<lparr>pan_cache := m', pan_promises := prs\<rparr>) \<and> length cs = length rs' \<and>
         pan_holds os g (?s\<lparr>pan_cache := m'\<rparr>) (pan_stored (zip (map snd rs') cs) st') (fold pan_apply ops ?kv) \<and>
         map ((!) prs) ps' = map Some (pan_answers ?kv (zip ops bs')) \<and> length prs = length (pan_promises ?s) \<and>
         (\<forall>p. p \<notin> set ps' \<longrightarrow> prs ! p = pan_promises ?s ! p)"
    by (rule Cons.IH [OF ch]) (use Cons.prems c(3) [folded st'_def] kv dis dps un ps bs in \<open>auto simp: rs(1)\<close>)
  have l1: "(vs0 @ [st (to_string l)]) @ map (st' \<circ> snd) rs' = ?rsp" using dis(2) by (force simp: rs(1) st'_def)
  obtain cs m' prs where u: "pan_serve_loop os g ?rsp ?bs ?ps ?rs (length (ps0 @ qs)) (enumerate (Suc ?i) ops) ?s = (Inr cs, s\<lparr>pan_cache := m', pan_promises := prs\<rparr>)"
      "length cs = length rs'" "pan_holds os g (s\<lparr>pan_cache := m'\<rparr>) (pan_stored (zip (map snd rs') cs) st') (fold pan_apply ops ?kv)"
      "map ((!) prs) ps' = map Some (pan_answers ?kv (zip ops bs'))" "length prs = length pr" "\<And>p. p \<notin> set ps' \<Longrightarrow> prs ! p = pr ! p"
    using IH unfolding l1 by (auto simp: rs(1) bs ps(1))
  have j: "length (ps0 @ qs) = (if b then ?j + 1 else ?j)" using ps(3) by (auto split: if_splits)
  have "pan_serve_loop os g ?rsp ?bs ?ps ?rs ?j (enumerate ?i (op # ops)) s = (Inr (c # cs), s\<lparr>pan_cache := m', pan_promises := prs\<rparr>)"
    using u(1) c' at(4) unfolding j by (simp add: bnd_apply ret_apply)
  moreover have "length (c # cs) = length rs" using u(2) by (simp add: rs(1))
  moreover have "pan_holds os g (s\<lparr>pan_cache := m'\<rparr>) (pan_stored (zip (map snd rs) (c # cs)) st) (fold pan_apply (op # ops) kv)"
    using u(3) by (simp add: rs(1) pan_stored_def st'_def)
  moreover have "map ((!) prs) ps = map Some (pan_answers kv (zip (op # ops) bs))"
    using u(4,6) ps(1,3) dps Cons.prems(13) by (auto simp: bs pr_def split: if_splits)
  moreover have "length prs = length (pan_promises s)" using u(5) by (simp add: pr_def)
  moreover have "\<forall>p. p \<notin> set ps \<longrightarrow> prs ! p = pan_promises s ! p"
    using u(6) ps(1,3) by (auto simp: pr_def split: if_splits)
  ultimately show ?case by blast
qed

section \<open>A batch\<close>

text \<open>One connection, and a server that answers a read with its content \<open>st\<close> and accepts writes.\<close>

definition pan_server_ok :: "'r pan_env \<Rightarrow> unit redis \<Rightarrow> (string \<Rightarrow> string) \<Rightarrow> bool" where
  "pan_server_ok pe i st \<longleftrightarrow>
     length (rd_clients i) = 1 \<and> iter_ok (pe_get_iter pe) \<and> iter_ok (pe_put_iter pe) \<and>
     (\<forall>ks. mget_values (pe_api pe) (sv_mget (pe_server pe) 0 ks) = Inr (map st ks)) \<and>
     (\<forall>kvs. \<not> rp_is_error (pe_api pe) (sv_mset (pe_server pe) 0 kvs))"

definition pan_batch_ok :: "'k pancake_proxy \<Rightarrow> operation list \<Rightarrow> bool list \<Rightarrow> nat list \<Rightarrow> bool" where
  "pan_batch_ok s ops bs ps \<longleftrightarrow>
     ops \<noteq> [] \<and> length bs = length ops \<and> length (filter (\<lambda>b. b) bs) = length ps \<and> distinct ps \<and>
     list_all (\<lambda>op. map_of (pan_replicas_of s) (po_key op) \<noteq> None \<and> length (po_value op) < SCRATCH_SIZE) ops \<and>
     list_all (\<lambda>p. p < length (pan_promises s) \<and> pan_promises s ! p = None) ps"

lemma pan_execute_steps:
  assumes srv: "pan_server_ok pe i st" and ne: "ops \<noteq> []"
    and rs: "collect (pan_choose_replica e bs) (enumerate 0 ops) s = (Inr rs, s1)" "length rs = length ops"
    and vs: "pan_serve_loop os g (map (st \<circ> snd) rs) bs ps rs 0 (enumerate 0 ops) s1 = (Inr cs, s2)" "length cs = length rs"
  shows "pan_execute_batch e os pe g ops bs ps (s, Some i) =
           (Inr (), (s2, Some (pan_sent [Mget (map snd rs) [], Mset (zip (map snd rs) cs) []] i)))"
proof -
  obtain c where c: "rd_clients i = [c]" using srv by (auto simp: pan_server_ok_def length_Suc_conv)
  have keys: "map snd rs \<noteq> []" using ne rs(2) by (cases rs) auto
  have g: "redis_get_batch (pe_api pe) (pe_server pe) (pe_get_iter pe) (map snd rs) i = (Inr (map (st \<circ> snd) rs), pan_sent [Mget (map snd rs) []] i)"
    using srv by (intro redis_get_one [OF c _ keys]) (auto simp: pan_server_ok_def)
  have p: "redis_put_batch (pe_api pe) (pe_server pe) (pe_put_iter pe) (map snd rs) cs (pan_sent [Mget (map snd rs) []] i) =
      (Inr (), pan_sent [Mset (zip (map snd rs) cs) []] (pan_sent [Mget (map snd rs) []] i))"
    using srv c vs(2) keys by (intro redis_put_one) (auto simp: pan_server_ok_def pan_sent_def)
  have "pan_sent ys (pan_sent xs i) = pan_sent (xs @ ys) i" for xs ys by (simp add: pan_sent_def)
  then show ?thesis using rs(1) g vs(1) p
    by (simp add: pan_execute_batch_def bnd_apply pan_on_proxy_def pan_on_local_def Let_def)
qed

text \<open>
  C22. A batch of the legacy proxy that accesses no replica twice is a sequence of operations of a store by key: it reads the labels of the chosen replicas with
  one \<^verbatim>\<open>MGET\<close> and writes the same labels with one \<^verbatim>\<open>MSET\<close>, the promises of the clients get the answers of the store in the order of the batch, and after the writes every
  replica has the value of its key at the server or in the update cache again.
\<close>

theorem pan_batch_refines_key_store:
  assumes tab: "pan_tables_ok s" and hold: "pan_holds os g s st kv" and eng: "pan_engine_ok os g" and kv: "\<And>k. pan_text (kv k)"
    and srv: "pan_server_ok pe i st" and batch: "pan_batch_ok s ops bs ps"
    and rs: "fst (collect (pan_choose_replica e bs) (enumerate 0 ops) s) = Inr rs" and dist: "distinct (map snd rs)"
  shows "\<exists>u cs. pan_execute_batch e os pe g ops bs ps (s, Some i) =
             (Inr (), (u, Some (pan_sent [Mget (map snd rs) [], Mset (zip (map snd rs) cs) []] i))) \<and>
           map ((!) (pan_promises u)) ps = map Some (pan_answers kv (zip ops bs)) \<and> (\<forall>p. p \<notin> set ps \<longrightarrow> pan_promises u ! p = pan_promises s ! p) \<and>
           pan_tables_ok u \<and> pan_holds os g u (pan_stored (zip (map snd rs) cs) st) (fold pan_apply ops kv)"
proof -
  have b: "ops \<noteq> []" "length bs = length ops" "length (filter (\<lambda>b. b) bs) = length ps" "distinct ps"
    "\<And>op. op \<in> set ops \<Longrightarrow> map_of (pan_replicas_of s) (po_key op) \<noteq> None" "\<And>op. op \<in> set ops \<Longrightarrow> length (po_value op) < SCRATCH_SIZE"
    "\<And>p. p \<in> set ps \<Longrightarrow> p < length (pan_promises s) \<and> pan_promises s ! p = None"
    using batch by (auto simp: pan_batch_ok_def list_all_iff)
  have "\<exists>rs f t. collect (pan_choose_replica e bs) (enumerate 0 ops) s = (Inr rs, s\<lparr>pan_frequency := f, pan_tick := t\<rparr>) \<and> list_all2 (pan_chosen s) ops rs"
    by (rule pan_choose_all [OF tab b(5)]) (simp_all add: b(2))
  then obtain rs' f t where c': "collect (pan_choose_replica e bs) (enumerate 0 ops) s = (Inr rs', s\<lparr>pan_frequency := f, pan_tick := t\<rparr>)" "list_all2 (pan_chosen s) ops rs'"
    by blast
  have "rs' = rs" using rs unfolding c'(1) by simp
  note c = c' [unfolded this]
  let ?s = "s\<lparr>pan_frequency := f, pan_tick := t\<rparr>"
  obtain cs m prs where l: "pan_serve_loop os g (map (st \<circ> snd) rs) bs ps rs 0 (enumerate 0 ops) ?s = (Inr cs, ?s\<lparr>pan_cache := m, pan_promises := prs\<rparr>)"
      "length cs = length rs" "pan_holds os g (?s\<lparr>pan_cache := m\<rparr>) (pan_stored (zip (map snd rs) cs) st) (fold pan_apply ops kv)"
      "map ((!) prs) ps = map Some (pan_answers kv (zip ops bs))" "\<And>p. p \<notin> set ps \<Longrightarrow> prs ! p = pan_promises s ! p"
    using pan_serve_loop_ok [of ?s ops rs os g st kv bs "[]" "[]" "[]" ps "[]"] c(2) tab hold eng kv b dist by auto
  let ?u = "?s\<lparr>pan_cache := m, pan_promises := prs\<rparr>"
  have "pan_execute_batch e os pe g ops bs ps (s, Some i) = (Inr (), (?u, Some (pan_sent [Mget (map snd rs) [], Mset (zip (map snd rs) cs) []] i)))"
    using pan_execute_steps [OF srv b(1) c(1) _ l(1,2)] c(2) by (simp add: list_all2_lengthD)
  moreover have "pan_tables_ok ?u" using tab by simp
  moreover have "pan_holds os g ?u (pan_stored (zip (map snd rs) cs) st) (fold pan_apply ops kv)" using l(3) by simp
  ultimately show ?thesis using l(4,5) by (intro exI [of _ ?u] exI [of _ cs] conjI) auto
qed

section \<open>A label that is accessed twice\<close>

text \<open>After a write to the only replica of a key, the state without what is still to be written is the one before it.\<close>

lemma pan_holds_unwritten:
  assumes "pan_holds os g s st kv" "pan_holds os g (s\<lparr>pan_cache := m\<rparr>) (st(to_string l := c)) (kv(k := w))" "pan_tables_ok s"
    and "map_of (pan_replicas_of s) k = Some 1" "pan_label s k 0 = Some l" "pan_pending (pan_cache s) k 0 = None" "pan_pending m k 0 = None"
  shows "pan_holds os g (s\<lparr>pan_cache := m\<rparr>) st kv"
proof -
  have "pan_value_at os g st l' (pan_pending m k' i) (kv k')" if h: "pan_replica s k' i" "pan_label s k' i = Some l'" for k' i l'
  proof (cases "k' = k")
    case True
    then have "i = 0" using h(1) assms(4) by (auto simp: pan_replica_def)
    then show ?thesis using True assms(1,5,6,7) h unfolding pan_holds_def by metis
  next
    case False
    have "pan_replica s k 0" using assms(4) by (simp add: pan_replica_def)
    then have "l' \<noteq> l" using False assms(3,5) h unfolding pan_tables_ok_def by metis
    moreover have "pan_value_at os g (st(to_string l := c)) l' (pan_pending m k' i) ((kv(k := w)) k')" using assms(2) h by (simp add: pan_holds_def)
    ultimately show ?thesis using False by (simp add: pan_value_at_def)
  qed
  then show ?thesis using assms(2) by (simp add: pan_holds_def)
qed

lemma pan_serve_write_read:
  assumes tab: "pan_tables_ok s" and hold: "pan_holds os g s st kv" and eng: "pan_engine_ok os g" and kv: "\<And>x. pan_text (kv x)"
    and k: "map_of (pan_replicas_of s) k = Some 1" "pan_label s k 0 = Some l" "pan_pending (pan_cache s) k 0 = None"
    and w: "pan_text w" and p: "p < length (pan_promises s)" "q < length (pan_promises s)" "p \<noteq> q" "pan_promises s ! p = None" "pan_promises s ! q = None"
  obtains c d m where "pan_serve_loop os g (map (st \<circ> snd) [(0 :: int, to_string l), (0, to_string l)]) [True, True] [p, q] [(0, to_string l), (0, to_string l)] 0
        (enumerate 0 [\<lparr>po_key = k, po_value = w\<rparr>, \<lparr>po_key = k, po_value = []\<rparr>]) s =
      (Inr [c, d], s\<lparr>pan_cache := m, pan_promises := (pan_promises s)[p := Some w, q := Some (kv k)]\<rparr>)"
    "pan_holds os g (s\<lparr>pan_cache := m\<rparr>) (st(to_string l := d)) kv"
proof -
  let ?a = "\<lparr>po_key = k, po_value = w\<rparr>" and ?b = "\<lparr>po_key = k, po_value = []\<rparr>" and ?L = "to_string l"
  let ?rs = "[(0 :: int, ?L), (0, ?L)]" and ?t = "[True, True]"
  let ?v = "map (st \<circ> snd) ?rs"
  have ap: "pan_apply ?a kv = kv(k := w)" "pan_apply ?b kv = kv" using w by (auto simp: pan_apply_def pan_text_def)
  have ka: "pan_text (pan_apply ?a kv x)" "pan_text (pan_apply ?b kv x)" for x using kv w by (simp_all add: ap)
  have at: "0 < length ?v" "?v ! 0 = st ?L" "fst (?rs ! 0) = int 0" "1 < length ?v" "?v ! 1 = st ?L" "fst (?rs ! 1) = int 0" "(0 :: nat) < nat 1" by simp_all
  have na: "map_of (pan_replicas_of s) (po_key ?a) = Some 1" "pan_label s (po_key ?a) 0 = Some l"
    "0 < length [p, q] \<and> [p, q] ! 0 < length (pan_promises s) \<and> pan_promises s ! ([p, q] ! 0) = None" using k p by simp_all
  obtain c m1 where s1: "pan_serve os g ?v ?t [p, q] ?rs 0 (0, ?a) s = (Inr c, s\<lparr>pan_cache := m1, pan_promises := (if ?t ! 0
        then (pan_promises s)[[p, q] ! 0 := Some (pan_apply ?a kv (po_key ?a))] else pan_promises s)\<rparr>)"
      "pan_holds os g (s\<lparr>pan_cache := m1\<rparr>) (st(?L := c)) (pan_apply ?a kv)" "pan_pending m1 (po_key ?a) 0 = None"
    by (rule pan_serve_ok [OF tab hold eng na(1) at(7) na(2) kv ka(1) at(1-3) na(3), where bs = ?t]) (rule that)
  let ?s1 = "s\<lparr>pan_cache := m1, pan_promises := (pan_promises s)[p := Some w]\<rparr>"
  have h1: "pan_tables_ok ?s1" "pan_holds os g ?s1 st kv"
    using pan_holds_unwritten [of os g s st kv m1 l c k w] s1(2,3) hold tab k by (simp_all add: ap)
  have nb: "map_of (pan_replicas_of ?s1) (po_key ?b) = Some 1" "pan_label ?s1 (po_key ?b) 0 = Some l"
    "1 < length [p, q] \<and> [p, q] ! 1 < length (pan_promises ?s1) \<and> pan_promises ?s1 ! ([p, q] ! 1) = None" using k p by simp_all
  obtain d m2 where s2: "pan_serve os g ?v ?t [p, q] ?rs 1 (1, ?b) ?s1 = (Inr d, ?s1\<lparr>pan_cache := m2, pan_promises := (if ?t ! 1
        then (pan_promises ?s1)[[p, q] ! 1 := Some (pan_apply ?b kv (po_key ?b))] else pan_promises ?s1)\<rparr>)"
      "pan_holds os g (?s1\<lparr>pan_cache := m2\<rparr>) (st(?L := d)) (pan_apply ?b kv)"
    by (rule pan_serve_ok [OF h1 eng nb(1) at(7) nb(2) kv ka(2) at(4-6) nb(3), where bs = ?t]) (rule that)
  show ?thesis
  proof (rule that [of c d m2])
    show "pan_serve_loop os g ?v ?t [p, q] ?rs 0 (enumerate 0 [?a, ?b]) s =
        (Inr [c, d], s\<lparr>pan_cache := m2, pan_promises := (pan_promises s)[p := Some w, q := Some (kv k)]\<rparr>)"
      using s1(1) s2(1) by (simp add: bnd_apply ret_apply ap)
    show "pan_holds os g (s\<lparr>pan_cache := m2\<rparr>) (st(?L := d)) kv" using s2(2) by (simp add: ap)
  qed
qed

text \<open>
  C38. A batch of the legacy proxy that reads a replica after writing it loses the write: with a write and then a read of a key with one replica, the read is answered with the
  old value, which is also what the \<^verbatim>\<open>MSET\<close> leaves at the server, and the proxy and its server then hold the values from before the write.
\<close>

theorem pan_batch_loses_write:
  assumes tab: "pan_tables_ok s" and hold: "pan_holds os g s st kv" and eng: "pan_engine_ok os g" and kv: "\<And>x. pan_text (kv x)"
    and srv: "pan_server_ok pe i st" and k: "map_of (pan_replicas_of s) k = Some 1" "pan_label s k 0 = Some l" "pan_pending (pan_cache s) k 0 = None"
    and w: "pan_text w" and p: "p < length (pan_promises s)" "q < length (pan_promises s)" "p \<noteq> q" "pan_promises s ! p = None" "pan_promises s ! q = None"
  shows "\<exists>u c d. pan_execute_batch e os pe g [\<lparr>po_key = k, po_value = w\<rparr>, \<lparr>po_key = k, po_value = []\<rparr>] [True, True] [p, q] (s, Some i) =
             (Inr (), (u, Some (pan_sent [Mget [to_string l, to_string l] [], Mset [(to_string l, c), (to_string l, d)] []] i))) \<and>
           pan_promises u ! p = Some w \<and> pan_promises u ! q = Some (kv k) \<and> pan_holds os g u (pan_stored [(to_string l, c), (to_string l, d)] st) kv"
proof -
  let ?a = "\<lparr>po_key = k, po_value = w\<rparr>" and ?b = "\<lparr>po_key = k, po_value = []\<rparr>" and ?L = "to_string l"
  have one: "pan_chosen s op rl \<longleftrightarrow> rl = (0, ?L)" if "po_key op = k" for op rl
    using k(1,2) that by (auto simp: pan_chosen_def pan_replica_def)
  have "\<exists>rs f t. collect (pan_choose_replica e [True, True]) (enumerate 0 [?a, ?b]) s = (Inr rs, s\<lparr>pan_frequency := f, pan_tick := t\<rparr>) \<and>
      list_all2 (pan_chosen s) [?a, ?b] rs"
    by (rule pan_choose_all [OF tab]) (use k(1) in auto)
  then obtain rs f t where c: "collect (pan_choose_replica e [True, True]) (enumerate 0 [?a, ?b]) s = (Inr rs, s\<lparr>pan_frequency := f, pan_tick := t\<rparr>)"
      "list_all2 (pan_chosen s) [?a, ?b] rs"
    by blast
  then have rs: "rs = [(0, ?L), (0, ?L)]" using one [of ?a] one [of ?b] by (auto simp: list_all2_Cons1)
  let ?s = "s\<lparr>pan_frequency := f, pan_tick := t\<rparr>"
  obtain c1 c2 m where l: "pan_serve_loop os g (map (st \<circ> snd) rs) [True, True] [p, q] rs 0 (enumerate 0 [?a, ?b]) ?s =
        (Inr [c1, c2], ?s\<lparr>pan_cache := m, pan_promises := (pan_promises ?s)[p := Some w, q := Some (kv k)]\<rparr>)"
      "pan_holds os g (?s\<lparr>pan_cache := m\<rparr>) (st(?L := c2)) kv"
    unfolding rs by (rule pan_serve_write_read [of ?s os g st kv k l w p q]) (use tab hold eng kv k w p in simp_all)
  let ?u = "?s\<lparr>pan_cache := m, pan_promises := (pan_promises ?s)[p := Some w, q := Some (kv k)]\<rparr>"
  have "pan_execute_batch e os pe g [?a, ?b] [True, True] [p, q] (s, Some i) = (Inr (), (?u, Some (pan_sent [Mget [?L, ?L] [], Mset [(?L, c1), (?L, c2)] []] i)))"
    using pan_execute_steps [OF srv _ c(1) _ l(1)] by (simp add: rs)
  moreover have "pan_promises ?u ! p = Some w \<and> pan_promises ?u ! q = Some (kv k)" using p by (simp add: nth_list_update)
  moreover have "pan_holds os g ?u (pan_stored [(?L, c1), (?L, c2)] st) kv" using l(2) by (simp add: pan_stored_def)
  ultimately show ?thesis by blast
qed

section \<open>Examples\<close>

text \<open>A key with one replica, whose value at the server is \<open>''old''\<close>, and two promises.\<close>

lemma example_pan_state:
  obtains g :: "string encryption_engine" and s st i where "pan_tables_ok s" "pan_holds example_openssl g s st (\<lambda>_. ''old'')" "pan_engine_ok example_openssl g"
    "pan_server_ok (example_pan_env st) i st" "map_of (pan_replicas_of s) ''k'' = Some 1" "pan_label s ''k'' 0 = Some 7" "pan_pending (pan_cache s) ''k'' 0 = None"
    "pan_promises s = [None, None]"
proof -
  obtain g g' where g: "encryption_engine_new example_openssl = Inr g" "encryption_engine_copy example_openssl g = Inr g'"
    using example_engine by blast
  have eng: "pan_engine_ok example_openssl g" using copy_of_new(3) [OF g] example_aes by (simp add: pan_engine_ok_def)
  obtain c where c: "ee_encrypt example_openssl g ''old'' = Inr c" "ee_decrypt example_openssl g c = Inr ''old''"
    using pan_encrypt [OF eng, of "''old''"] by (auto simp: pan_text_def SCRATCH_SIZE_def)
  obtain s0 where s0: "pancake_proxy_new example_openssl ''d'' = Inr s0" "pan_missing s0 = []" "pan_cache s0 = []" by (simp add: pancake_proxy_new_def g)
  obtain i where i: "redis_new (\<lambda>_ _. True) ''h'' 0 1 = Inr (i :: unit redis)" "length (rd_clients i) = 1"
    by (simp add: redis_new_def redis_interface_new_def redis_connect_def)
  let ?s = "s0\<lparr>pan_p_max := 1, pan_replicas_of := [(''k'', 1)], pan_replica_to_label := [(''k0'', 7)], pan_promises := [None, None]\<rparr>" and ?st = "\<lambda>_. c"
  have z: "to_string 0 = ''0''" by code_simp
  have rep: "pan_replica ?s k j \<longleftrightarrow> k = ''k'' \<and> j = 0" for k j by (simp add: pan_replica_def)
  have lab: "pan_label ?s ''k'' 0 = Some 7" by (simp add: pan_label_def z)
  have "map_out (nested_value (pe_api (example_pan_env st))) (map (\<lambda>x. [x]) xs) = Inr xs" for st xs
    by (induction xs) (simp_all add: nested_value_def example_pan_env_def)
  then have "pan_server_ok (example_pan_env ?st) i ?st"
    using i(2) by (simp add: pan_server_ok_def mget_values_def example_pan_env_def iter_ok_def del: map_map)
  moreover have "pan_tables_ok ?s" using s0(2) rep lab by (auto simp: pan_tables_ok_def)
  moreover have "pan_holds example_openssl g ?s ?st (\<lambda>_. ''old'')"
    using s0(3) c(2) by (simp add: pan_holds_def pan_bits_ok_def pan_value_at_def pan_pending_def)
  moreover have "pan_pending (pan_cache ?s) ''k'' 0 = None" using s0(3) by (simp add: pan_pending_def)
  ultimately show ?thesis using that [of ?s g ?st i] eng lab by simp
qed

theorem pan_batch_refines_key_store_witness:
  "\<exists>(s :: string pancake_proxy) g st i u cs.
     pan_execute_batch example_env example_openssl (example_pan_env st) g [\<lparr>po_key = ''k'', po_value = ''new''\<rparr>] [True] [0] (s, Some i) =
       (Inr (), (u, Some (pan_sent [Mget [''7''] [], Mset (zip [''7''] cs) []] i))) \<and>
     pan_promises u ! 0 = Some ''new'' \<and> pan_holds example_openssl g u (pan_stored (zip [''7''] cs) st) ((\<lambda>_. ''old'')(''k'' := ''new''))"
proof -
  obtain g :: "string encryption_engine" and s st i where x: "pan_tables_ok s" "pan_holds example_openssl g s st (\<lambda>_. ''old'')" "pan_engine_ok example_openssl g"
    "pan_server_ok (example_pan_env st) i st" "map_of (pan_replicas_of s) ''k'' = Some 1" "pan_label s ''k'' 0 = Some 7" "pan_promises s = [None, None]"
    by (rule example_pan_state)
  let ?op = "\<lparr>po_key = ''k'', po_value = ''new''\<rparr>"
  have "\<exists>rs f t. collect (pan_choose_replica example_env [True]) (enumerate 0 [?op]) s = (Inr rs, s\<lparr>pan_frequency := f, pan_tick := t\<rparr>) \<and> list_all2 (pan_chosen s) [?op] rs"
    by (rule pan_choose_all [OF x(1)]) (use x(5) in auto)
  moreover have "pan_chosen s ?op rl \<longleftrightarrow> rl = (0, to_string 7)" for rl using x(5,6) by (auto simp: pan_chosen_def pan_replica_def)
  ultimately have rs: "fst (collect (pan_choose_replica example_env [True]) (enumerate 0 [?op]) s) = Inr [(0, to_string 7)]"
    by (auto simp: list_all2_Cons1)
  have b: "pan_batch_ok s [?op] [True] [0]" using x(5,7) by (simp add: pan_batch_ok_def SCRATCH_SIZE_def)
  have t: "pan_text ''old''" by (simp add: pan_text_def SCRATCH_SIZE_def)
  have n: "to_string 7 = ''7''" by code_simp
  have "\<exists>u cs. pan_execute_batch example_env example_openssl (example_pan_env st) g [?op] [True] [0] (s, Some i) =
       (Inr (), (u, Some (pan_sent [Mget (map snd [(0 :: int, to_string 7)]) [], Mset (zip (map snd [(0 :: int, to_string 7)]) cs) []] i))) \<and>
     map ((!) (pan_promises u)) [0] = map Some (pan_answers (\<lambda>_. ''old'') (zip [?op] [True])) \<and> (\<forall>p. p \<notin> set [0] \<longrightarrow> pan_promises u ! p = pan_promises s ! p) \<and>
     pan_tables_ok u \<and> pan_holds example_openssl g u (pan_stored (zip (map snd [(0 :: int, to_string 7)]) cs) st) (fold pan_apply [?op] (\<lambda>_. ''old''))"
    by (rule pan_batch_refines_key_store [OF x(1-3) _ x(4) b rs]) (simp_all add: t)
  moreover have "map ((!) (pan_promises u)) [0] = map Some (pan_answers (\<lambda>_. ''old'') (zip [?op] [True])) \<longleftrightarrow> pan_promises u ! 0 = Some ''new''"
    for u :: "string pancake_proxy" by (simp add: pan_apply_def)
  moreover have "fold pan_apply [?op] (\<lambda>_. ''old'') = (\<lambda>_. ''old'')(''k'' := ''new'')" "map snd [(0 :: int, to_string 7)] = [''7'']" by (simp_all add: pan_apply_def n)
  ultimately show ?thesis by metis
qed

theorem pan_batch_loses_write_witness:
  "\<exists>(s :: string pancake_proxy) g st i u c d.
     pan_execute_batch example_env example_openssl (example_pan_env st) g [\<lparr>po_key = ''k'', po_value = ''new''\<rparr>, \<lparr>po_key = ''k'', po_value = []\<rparr>] [True, True] [0, 1]
       (s, Some i) = (Inr (), (u, Some (pan_sent [Mget [to_string 7, to_string 7] [], Mset [(to_string 7, c), (to_string 7, d)] []] i))) \<and>
     pan_promises u ! 0 = Some ''new'' \<and> pan_promises u ! 1 = Some ''old''"
proof -
  obtain g :: "string encryption_engine" and s st i where x: "pan_tables_ok s" "pan_holds example_openssl g s st (\<lambda>_. ''old'')" "pan_engine_ok example_openssl g"
    "pan_server_ok (example_pan_env st) i st" "map_of (pan_replicas_of s) ''k'' = Some 1" "pan_label s ''k'' 0 = Some 7" "pan_pending (pan_cache s) ''k'' 0 = None"
    "pan_promises s = [None, None]"
    by (rule example_pan_state)
  have t: "pan_text ''old''" "pan_text ''new''" by (simp_all add: pan_text_def SCRATCH_SIZE_def)
  have p: "0 < length (pan_promises s)" "1 < length (pan_promises s)" "(0 :: nat) \<noteq> 1" "pan_promises s ! 0 = None" "pan_promises s ! 1 = None" using x(8) by simp_all
  from pan_batch_loses_write [OF x(1-3) _ x(4-7) t(2) p, of example_env] t(1) show ?thesis by blast
qed

end
