(* ===== verification/Thrift_Service.thy ===== *)
theory Thrift_Service
  imports Thrift_Types
begin

text \<open>
  What the code that Thrift generated for a service does with a call: the client writes the arguments as a structure and
  sends a message, the processor finds the method, reads the arguments, calls the handler and writes the result or
  the exception, and the client reads the reply. The generated functions differ only in the fields of the argument and
  result structures, so a method is a description of them (Services gives the methods of the repository's six services) and the functions here take it as an
  argument. As in Thrift\_Types, the encoding of the values is that of the Thrift library; the event handlers of the
  processors are never set.
\<close>

section \<open>Arguments\<close>

datatype ttype = Ty_Bool | Ty_I32 | Ty_I64 | Ty_String | Ty_Seq | Ty_Strings | Ty_Seqs

datatype targ =
    A_Bool bool
  | A_I32 int
  | A_I64 int
  | A_String string
  | A_Seq sequence_id
  | A_Strings "string list"
  | A_Seqs "sequence_id list"

primrec type_of :: "targ \<Rightarrow> ttype" where
  "type_of (A_Bool b) = Ty_Bool"
| "type_of (A_I32 i) = Ty_I32"
| "type_of (A_I64 i) = Ty_I64"
| "type_of (A_String x) = Ty_String"
| "type_of (A_Seq x) = Ty_Seq"
| "type_of (A_Strings xs) = Ty_Strings"
| "type_of (A_Seqs xs) = Ty_Seqs"

text \<open>The values the constructor of an argument structure gives its members.\<close>

primrec default_of :: "ttype \<Rightarrow> targ" where
  "default_of Ty_Bool = A_Bool False"
| "default_of Ty_I32 = A_I32 0"
| "default_of Ty_I64 = A_I64 0"
| "default_of Ty_String = A_String []"
| "default_of Ty_Seq = A_Seq sequence_id_new"
| "default_of Ty_Strings = A_Strings []"
| "default_of Ty_Seqs = A_Seqs []"

primrec wire :: "targ \<Rightarrow> tvalue" where
  "wire (A_Bool b) = V_BOOL b"
| "wire (A_I32 i) = V_I32 i"
| "wire (A_I64 i) = V_I64 i"
| "wire (A_String x) = V_STRING x"
| "wire (A_Seq x) = V_STRUCT (seq_write x)"
| "wire (A_Strings xs) = V_LIST (map V_STRING xs)"
| "wire (A_Seqs xs) = V_LIST (map (\<lambda>x. V_STRUCT (seq_write x)) xs)"

definition read_string_elem :: "tvalue \<Rightarrow> string outcome" where
  "read_string_elem v = (case v of V_STRING x \<Rightarrow> Inr x | _ \<Rightarrow> Inl (Protocol_error ''element type''))"

definition read_seq_elem :: "tvalue \<Rightarrow> sequence_id outcome" where
  "read_seq_elem v = (case v of V_STRUCT fs \<Rightarrow> seq_read sequence_id_new fs | _ \<Rightarrow> Inl (Protocol_error ''element type''))"

text \<open>
  Reading into a member: a structure is read over its present value, a list is cleared first. \<open>None\<close> is
  \<^verbatim>\<open>skip(ftype)\<close>, for a value of another type.
\<close>

definition read_value :: "targ \<Rightarrow> tvalue \<Rightarrow> targ option outcome" where
  "read_value cur v =
     (case cur of
        A_Bool _ \<Rightarrow> (case v of V_BOOL b \<Rightarrow> Inr (Some (A_Bool b)) | _ \<Rightarrow> Inr None)
      | A_I32 _ \<Rightarrow> (case v of V_I32 i \<Rightarrow> Inr (Some (A_I32 i)) | _ \<Rightarrow> Inr None)
      | A_I64 _ \<Rightarrow> (case v of V_I64 i \<Rightarrow> Inr (Some (A_I64 i)) | _ \<Rightarrow> Inr None)
      | A_String _ \<Rightarrow> (case v of V_STRING x \<Rightarrow> Inr (Some (A_String x)) | _ \<Rightarrow> Inr None)
      | A_Seq s \<Rightarrow> (case v of V_STRUCT fs \<Rightarrow> bind_out (seq_read s fs) (\<lambda>x. Inr (Some (A_Seq x))) | _ \<Rightarrow> Inr None)
      | A_Strings _ \<Rightarrow> (case v of V_LIST vs \<Rightarrow> bind_out (map_out read_string_elem vs) (\<lambda>xs. Inr (Some (A_Strings xs))) | _ \<Rightarrow> Inr None)
      | A_Seqs _ \<Rightarrow> (case v of V_LIST vs \<Rightarrow> bind_out (map_out read_seq_elem vs) (\<lambda>xs. Inr (Some (A_Seqs xs))) | _ \<Rightarrow> Inr None))"

section \<open>Structures\<close>

text \<open>A description of a structure: its fields with their types. A member has its field id, its value and its \<^verbatim>\<open>__isset\<close> flag.\<close>

type_synonym tspec = "(int \<times> ttype) list"

record slot =
  slot_id :: int
  slot_val :: targ
  slot_set :: bool

definition struct_new :: "tspec \<Rightarrow> slot list" where
  "struct_new spec = map (\<lambda>(i, t). \<lparr>slot_id = i, slot_val = default_of t, slot_set = False\<rparr>) spec"

definition struct_write :: "tspec \<Rightarrow> targ list \<Rightarrow> tfield list" where
  "struct_write spec vs = map2 (\<lambda>(i, t) v. (i, wire v)) spec vs"

text \<open>The \<^verbatim>\<open>switch (fid)\<close> of \<^verbatim>\<open>read\<close>; its default is to skip the field.\<close>

fun read_field :: "tfield \<Rightarrow> slot list \<Rightarrow> slot list outcome" where
  "read_field f [] = Inr []"
| "read_field f (sl # sls) =
     (if fst f = slot_id sl then
        bind_out (read_value (slot_val sl) (snd f)) (\<lambda>r.
          case r of None \<Rightarrow> Inr (sl # sls) | Some v \<Rightarrow> Inr (sl\<lparr>slot_val := v, slot_set := True\<rparr> # sls))
      else bind_out (read_field f sls) (\<lambda>r. Inr (sl # r)))"

fun struct_read :: "tfield list \<Rightarrow> slot list \<Rightarrow> slot list outcome" where
  "struct_read [] sls = Inr sls"
| "struct_read (f # fs) sls = bind_out (read_field f sls) (struct_read fs)"

section \<open>Messages\<close>

text \<open>
  A call carries the name, whether it is \<^verbatim>\<open>T_ONEWAY\<close>, the sequence number and the arguments; a \<^verbatim>\<open>T_EXCEPTION\<close> message carries
  the text of a \<^verbatim>\<open>TApplicationException\<close>.
\<close>

datatype tmsg =
    Msg_call string bool int "tfield list"
  | Msg_reply string int "tfield list"
  | Msg_exception string int string

record tmethod =
  m_name :: string
  m_oneway :: bool
  m_args :: tspec
  m_result :: "ttype option"

text \<open>\<open>Service\<close> has the methods of its processor's \<^verbatim>\<open>processMap_\<close> and the service it extends.\<close>

datatype service = Service "tmethod list" "service option"

fun find_method :: "service \<Rightarrow> string \<Rightarrow> tmethod option" where
  "find_method (Service ms p) n =
     (case find (\<lambda>m. m_name m = n) ms of
        Some m \<Rightarrow> Some m
      | None \<Rightarrow> (case p of None \<Rightarrow> None | Some q \<Rightarrow> find_method q n))"

fun service_methods :: "service \<Rightarrow> tmethod list" where
  "service_methods (Service ms p) = ms @ (case p of None \<Rightarrow> [] | Some q \<Rightarrow> service_methods q)"

text \<open>\<^verbatim>\<open>send_\<close>\<open>method\<close>: the clients use the number 0.\<close>

definition client_send :: "tmethod \<Rightarrow> targ list \<Rightarrow> tmsg" where
  "client_send m vs = Msg_call (m_name m) (m_oneway m) 0 (struct_write (m_args m) vs)"

text \<open>
  \<^verbatim>\<open>recv_\<close>\<open>method\<close>. After a message that is no reply or that belongs to another method the code skips it and goes on to read the result from
  whatever the connection holds next; \<open>desync\<close> is what that gives.
\<close>

fun client_recv :: "tmethod \<Rightarrow> (tmsg \<Rightarrow> targ option outcome) \<Rightarrow> tmsg \<Rightarrow> targ option outcome" where
  "client_recv m desync (Msg_exception n sid text) = Inl (Application_error text)"
| "client_recv m desync (Msg_call n ow sid fs) = desync (Msg_call n ow sid fs)"
| "client_recv m desync (Msg_reply n sid fs) =
     (if n \<noteq> m_name m then desync (Msg_reply n sid fs)
      else
        (case m_result m of
           None \<Rightarrow> bind_out (struct_read fs []) (\<lambda>_. Inr None)
         | Some t \<Rightarrow> bind_out (struct_read fs (struct_new [(0, t)])) (\<lambda>sls.
             if slot_set (hd sls) then Inr (Some (slot_val (hd sls)))
             else Inl (Application_error (m_name m @ '' failed: unknown result'')))))"

section \<open>The processor\<close>

text \<open>A handler, by the name of the method and its arguments; a method without a result returns \<open>None\<close>.\<close>

type_synonym 's invoke = "string \<Rightarrow> targ list \<Rightarrow> ('s, targ option) cpp"

text \<open>\<^verbatim>\<open>catch (const std::exception& e)\<close>, and \<^verbatim>\<open>e.what()\<close>.\<close>

fun exn_what :: "exn \<Rightarrow> string option" where
  "exn_what (Runtime_error t) = Some t"
| "exn_what (Logic_error t) = Some t"
| "exn_what (Invalid_argument t) = Some t"
| "exn_what (Out_of_range t) = Some t"
| "exn_what (Protocol_error t) = Some t"
| "exn_what (Transport_error t) = Some t"
| "exn_what (Application_error t) = Some t"
| "exn_what (Undefined_behaviour t) = None"
| "exn_what Process_exit = None"

definition result_write :: "targ option \<Rightarrow> tfield list" where
  "result_write r = (case r of None \<Rightarrow> [] | Some v \<Rightarrow> [(0, wire v)])"

text \<open>\<^verbatim>\<open>process_\<close>\<open>method\<close>: the message it writes, if any.\<close>

definition process_method :: "tmethod \<Rightarrow> 's invoke \<Rightarrow> int \<Rightarrow> tfield list \<Rightarrow> ('s, tmsg option) cpp" where
  "process_method m h sid fs s =
     (case struct_read fs (struct_new (m_args m)) of
        Inl e \<Rightarrow> (Inl e, s)
      | Inr sls \<Rightarrow>
          (case h (m_name m) (map slot_val sls) s of
             (Inr r, t) \<Rightarrow> (Inr (if m_oneway m then None else Some (Msg_reply (m_name m) sid (result_write r))), t)
           | (Inl e, t) \<Rightarrow>
               (case exn_what e of
                  None \<Rightarrow> (Inl e, t)
                | Some text \<Rightarrow> (Inr (if m_oneway m then None else Some (Msg_exception (m_name m) sid text)), t))))"

definition invalid_method :: "string \<Rightarrow> string" where
  "invalid_method n = ''Invalid method name: '' @ [CHR 0x27] @ n @ [CHR 0x27]"

text \<open>\<^verbatim>\<open>dispatchCall\<close>; the library hands it only calls.\<close>

definition dispatch :: "service \<Rightarrow> 's invoke \<Rightarrow> string \<Rightarrow> int \<Rightarrow> tfield list \<Rightarrow> ('s, tmsg option) cpp" where
  "dispatch sv h n sid fs s =
     (case find_method sv n of
        None \<Rightarrow> (Inr (Some (Msg_exception n sid (invalid_method n))), s)
      | Some m \<Rightarrow> process_method m h sid fs s)"

section \<open>Reading what was written\<close>

text \<open>A \<^verbatim>\<open>sequence_id\<close> keeps everything but optional members that are not set.\<close>

definition canon_seq :: "sequence_id \<Rightarrow> sequence_id" where
  "canon_seq s = s\<lparr>ts := (if isset_ts s then ts s else 0), diag := (if isset_diag s then diag s else [])\<rparr>"

primrec canon :: "targ \<Rightarrow> targ" where
  "canon (A_Bool b) = A_Bool b"
| "canon (A_I32 i) = A_I32 i"
| "canon (A_I64 i) = A_I64 i"
| "canon (A_String x) = A_String x"
| "canon (A_Seq x) = A_Seq (canon_seq x)"
| "canon (A_Strings xs) = A_Strings xs"
| "canon (A_Seqs xs) = A_Seqs (map canon_seq xs)"

definition well_typed :: "tspec \<Rightarrow> targ list \<Rightarrow> bool" where
  "well_typed spec vs \<longleftrightarrow> map type_of vs = map snd spec"

lemma seq_eq_canon [simp]: "seq_eq (canon_seq s) s"
  by (simp add: seq_eq_def canon_seq_def)

lemma canon_seq_fields [simp]:
  "client_id (canon_seq s) = client_id s" "client_seq_no (canon_seq s) = client_seq_no s" "server_seq_no (canon_seq s) = server_seq_no s"
  "l1_idx (canon_seq s) = l1_idx s" "l1_seq_no (canon_seq s) = l1_seq_no s" "l2_idx (canon_seq s) = l2_idx s"
  "l2_seq_no (canon_seq s) = l2_seq_no s" "isset_diag (canon_seq s) = isset_diag s" "isset_ts (canon_seq s) = isset_ts s"
  by (simp_all add: canon_seq_def)

lemma type_of_canon [simp]: "type_of (canon v) = type_of v"
  by (cases v) simp_all

lemma type_of_default [simp]: "type_of (default_of t) = t"
  by (cases t) simp_all

lemma seq_read_write [simp]: "seq_read sequence_id_new (seq_write s) = Inr (canon_seq s)"
  by (simp add: seq_read_write_exact canon_seq_def)

lemma read_elems:
  "map_out read_string_elem (map V_STRING xs) = Inr xs"
  "map_out read_seq_elem (map (\<lambda>x. V_STRUCT (seq_write x)) ss) = Inr (map canon_seq ss)"
  by (simp_all add: map_out_Inr_iff list_all2_conv_all_nth read_string_elem_def read_seq_elem_def)

lemma read_wire: "read_value (default_of (type_of v)) (wire v) = Inr (Some (canon v))"
  by (cases v) (simp_all add: read_value_def read_elems)

lemma read_value_type: "read_value cur v = Inr (Some w) \<Longrightarrow> type_of w = type_of cur"
  by (auto simp: read_value_def bind_out_eq_Inr split: targ.splits tvalue.splits)

text \<open>Whatever arrives, the members keep their fields and their types.\<close>

lemma read_field_type:
  "read_field f sls = Inr r \<Longrightarrow> map slot_id r = map slot_id sls \<and> map (type_of \<circ> slot_val) r = map (type_of \<circ> slot_val) sls"
  by (induction f sls arbitrary: r rule: read_field.induct)
    (auto simp: bind_out_eq_Inr dest: read_value_type split: if_splits option.splits)

lemma struct_read_type:
  "struct_read fs sls = Inr r \<Longrightarrow> map slot_id r = map slot_id sls \<and> map (type_of \<circ> slot_val) r = map (type_of \<circ> slot_val) sls"
  by (induction fs sls arbitrary: r rule: struct_read.induct) (auto simp: bind_out_eq_Inr dest: read_field_type)

lemma struct_read_well_typed:
  assumes "struct_read fs (struct_new spec) = Inr sls"
  shows "well_typed spec (map slot_val sls)"
  using struct_read_type [OF assms] by (simp add: well_typed_def struct_new_def comp_def case_prod_unfold)

lemma read_field_unknown: "fst f \<notin> slot_id ` set sls \<Longrightarrow> read_field f sls = Inr sls"
  by (induction f sls rule: read_field.induct) auto

lemma read_field_append:
  "fst f \<notin> slot_id ` set before \<Longrightarrow> read_field f (before @ sls) = bind_out (read_field f sls) (\<lambda>r. Inr (before @ r))"
  by (induction "before") (auto simp: bind_out_assoc bind_out_def split: sum.split)

lemma struct_read_skips_unknown:
  "struct_read fs sls = struct_read (filter (\<lambda>f. fst f \<in> slot_id ` set sls) fs) sls"
proof (induction fs arbitrary: sls)
  case Nil
  then show ?case by simp
next
  case (Cons f fs)
  show ?case
  proof (cases "read_field f sls")
    case (Inl e)
    then show ?thesis using read_field_unknown [of f sls] by (cases "fst f \<in> slot_id ` set sls") auto
  next
    case (Inr r)
    have "slot_id ` set r = slot_id ` set sls" using read_field_type [OF Inr] by (metis list.set_map)
    then show ?thesis using Cons.IH [of r] read_field_unknown [of f sls] Inr by (cases "fst f \<in> slot_id ` set sls") auto
  qed
qed

definition slots_of :: "tspec \<Rightarrow> targ list \<Rightarrow> slot list" where
  "slots_of spec vs = map2 (\<lambda>(i, t) v. \<lparr>slot_id = i, slot_val = canon v, slot_set = True\<rparr>) spec vs"

lemma struct_read_written:
  assumes "distinct (map fst spec)" "well_typed spec vs" "slot_id ` set before \<inter> fst ` set spec = {}"
  shows "struct_read (struct_write spec vs) (before @ struct_new spec) = Inr (before @ slots_of spec vs)"
  using assms
proof (induction spec arbitrary: vs "before")
  case Nil
  then show ?case by (simp add: struct_write_def struct_new_def slots_of_def)
next
  case (Cons p spec)
  obtain i t where p: "p = (i, t)" by (cases p)
  from Cons.prems(2) obtain v vs' where v: "vs = v # vs'" "type_of v = t" "well_typed spec vs'"
    by (cases vs) (auto simp: well_typed_def p)
  let ?sl = "\<lparr>slot_id = i, slot_val = canon v, slot_set = True\<rparr>"
  have "read_field (i, wire v) (before @ struct_new (p # spec)) = Inr ((before @ [?sl]) @ struct_new spec)"
    using Cons.prems(3) read_wire [of v] v(2) by (simp add: read_field_append struct_new_def p)
  moreover have "struct_read (struct_write spec vs') ((before @ [?sl]) @ struct_new spec) = Inr ((before @ [?sl]) @ slots_of spec vs')"
    using Cons.prems(1,3) by (intro Cons.IH v(3)) (auto simp: p)
  moreover have "struct_write (p # spec) vs = (i, wire v) # struct_write spec vs'" "slots_of (p # spec) vs = ?sl # slots_of spec vs'"
    by (simp_all add: struct_write_def slots_of_def p v(1))
  ultimately show ?case by simp
qed

lemma struct_roundtrip:
  assumes "distinct (map fst spec)" "well_typed spec vs"
    and "filter (\<lambda>f. fst f \<in> fst ` set spec) fs = struct_write spec vs"
  shows "struct_read fs (struct_new spec) = Inr (slots_of spec vs)"
proof -
  have "slot_id ` set (struct_new spec) = fst ` set spec" by (force simp: struct_new_def)
  then have "struct_read fs (struct_new spec) = struct_read (struct_write spec vs) (struct_new spec)"
    using struct_read_skips_unknown [of fs "struct_new spec"] assms(3) by simp
  then show ?thesis using struct_read_written [OF assms(1,2), of "[]"] by simp
qed

lemma struct_write_known: "filter (\<lambda>f. fst f \<in> fst ` set spec) (struct_write spec vs) = struct_write spec vs"
  by (auto simp: struct_write_def filter_id_conv dest!: set_zip_leftD) (metis fst_conv image_eqI)

lemma slot_vals: "well_typed spec vs \<Longrightarrow> map slot_val (slots_of spec vs) = map canon vs"
proof -
  assume "well_typed spec vs"
  then have "length spec = length vs" unfolding well_typed_def by (metis length_map)
  then show ?thesis by (induction spec vs rule: list_induct2) (auto simp: slots_of_def)
qed

section \<open>A service with its handler\<close>

text \<open>
  The contract between a processor and the handler it calls: the argument structures have distinct fields, and a method returns a
  value of its declared type. Then a call of the client has the effect of the handler's method, and the client gets its result or its exception.
\<close>

definition method_ok :: "tmethod \<Rightarrow> bool" where
  "method_ok m \<longleftrightarrow> distinct (map fst (m_args m)) \<and> (m_oneway m \<longrightarrow> m_result m = None)"

definition handled :: "tmethod \<Rightarrow> targ option outcome \<Rightarrow> targ option outcome" where
  "handled m r =
     (if m_oneway m then Inr None
      else case r of Inr v \<Rightarrow> Inr (map_option canon v) | Inl e \<Rightarrow> Inl (Application_error (the (exn_what e))))"

definition ends :: "targ option outcome \<Rightarrow> bool" where
  "ends r \<longleftrightarrow> (case r of Inl e \<Rightarrow> exn_what e = None | Inr _ \<Rightarrow> False)"

text \<open>What the client returns: nothing is read after a one-way call.\<close>

definition client_result :: "tmethod \<Rightarrow> (tmsg \<Rightarrow> targ option outcome) \<Rightarrow> tmsg option \<Rightarrow> targ option outcome" where
  "client_result m desync reply = (case reply of None \<Rightarrow> Inr None | Some msg \<Rightarrow> client_recv m desync msg)"

lemma result_roundtrip:
  assumes "map_option type_of r = m_result m"
  shows "client_recv m desync (Msg_reply (m_name m) sid (result_write r)) = Inr (map_option canon r)"
proof (cases r)
  case None
  then show ?thesis using assms by (simp add: result_write_def)
next
  case (Some v)
  then have "m_result m = Some (type_of v)" using assms by simp
  then show ?thesis using read_wire [of v] by (simp add: result_write_def Some struct_new_def)
qed

locale thrift_service =
  fixes sv :: service and h :: "'s invoke"
  assumes methods_ok: "find_method sv n = Some m \<Longrightarrow> method_ok m \<and> m_name m = n"
    and typed: "find_method sv n = Some m \<Longrightarrow> well_typed (m_args m) vs \<Longrightarrow> h n vs s = (Inr r, t) \<Longrightarrow> map_option type_of r = m_result m"
begin

lemma call_served:
  assumes m: "find_method sv n = Some m" "well_typed (m_args m) vs"
    and fs: "filter (\<lambda>f. fst f \<in> fst ` set (m_args m)) fs = struct_write (m_args m) vs"
    and e: "\<not> ends (fst (h n (map canon vs) s))"
  obtains reply where "dispatch sv h n sid fs s = (Inr reply, snd (h n (map canon vs) s))"
    "client_result m desync reply = handled m (fst (h n (map canon vs) s))" "m_oneway m \<longleftrightarrow> reply = None"
proof -
  have ok: "distinct (map fst (m_args m))" "m_name m = n" using methods_ok [OF m(1)] by (simp_all add: method_ok_def)
  have rd: "struct_read fs (struct_new (m_args m)) = Inr (slots_of (m_args m) vs)" by (rule struct_roundtrip [OF ok(1) m(2) fs])
  obtain r t where h: "h n (map canon vs) s = (r, t)" by fastforce
  have wt: "well_typed (m_args m) (map canon vs)" using m(2) by (simp add: well_typed_def comp_def)
  note d = dispatch_def m(1) process_method_def rd slot_vals [OF m(2)] ok(2) h
  show thesis
  proof (cases r)
    case (Inr v)
    have "map_option type_of v = m_result m" using typed [OF m(1) wt] h Inr by simp
    from result_roundtrip [OF this, of desync sid] show thesis
      by (intro that [of "if m_oneway m then None else Some (Msg_reply n sid (result_write v))"])
        (simp_all add: d Inr client_result_def handled_def)
  next
    case (Inl x)
    then obtain what where "exn_what x = Some what" using e h by (auto simp: ends_def)
    then show thesis
      by (intro that [of "if m_oneway m then None else Some (Msg_exception n sid what)"])
        (simp_all add: d Inl client_result_def handled_def)
  qed
qed

lemma unknown_refused:
  "find_method sv n = None \<Longrightarrow> dispatch sv h n sid fs s = (Inr (Some (Msg_exception n sid (invalid_method n))), s)"
  by (simp add: dispatch_def)

end

end
