(* ===== verification/Proxy_Manager.thy ===== *)
theory Proxy_Manager
  imports Proxy_Env
begin

text \<open>
  proxy/src/proxy_manager.h and proxy_manager.cpp: the manager that connects the layers when the system starts and repairs them when a
  node fails. It acts by remote calls, which are recorded in the order in which they are made. The calls to the workers of
  one host are made by threads that are joined before the next call, so their order among each other is
  immaterial and is the order of the workers here; an exception in such a thread ends the process. What
  \<^verbatim>\<open>fetch_seq\<close> returns is a parameter.

  The lemmas show that the repair of a chain gives every replica that is left the role it has in the shortened chain, so
  that the calls for a worker are the failure steps of Chain\_Protocol.
\<close>

section \<open>The manager\<close>

datatype mg_call =
    Setup_chain int string "string list" chain_role string
  | Fetch_seq int
  | Resend_pending int int
  | Update_connections int int string int int
  | Selective_resend int int
  | External_ack sequence_id

record manager =
  mg_hosts :: "host list"
  mg_cache :: "(string \<times> int) list"
  mg_calls :: "(string \<times> int \<times> mg_call) list"

definition manager_new :: manager where
  "manager_new = \<lparr>mg_hosts = [], mg_cache = [], mg_calls = []\<rparr>"

definition get_block_client :: "(string \<Rightarrow> int \<Rightarrow> bool) \<Rightarrow> string \<Rightarrow> int \<Rightarrow> (manager, unit) cpp" where
  "get_block_client up h p s =
     (if (h, p) \<in> set (mg_cache s) then (Inr (), s)
      else if up h p then (Inr (), s\<lparr>mg_cache := mg_cache s @ [(h, p)]\<rparr>)
      else (Inl (Transport_error ''open''), s))"

definition mg_rpc :: "(string \<Rightarrow> int \<Rightarrow> bool) \<Rightarrow> string \<Rightarrow> int \<Rightarrow> mg_call \<Rightarrow> (manager, unit) cpp" where
  "mg_rpc up h p c s =
     (if up h p then (Inr (), s\<lparr>mg_calls := mg_calls s @ [(h, p, c)]\<rparr>) else (Inl (Transport_error ''write''), s))"

definition block_rpc :: "(string \<Rightarrow> int \<Rightarrow> bool) \<Rightarrow> string \<Rightarrow> int \<Rightarrow> mg_call \<Rightarrow> (manager, unit) cpp" where
  "block_rpc up h p c = seqM (get_block_client up h p) (mg_rpc up h p c)"

definition in_thread :: "('s, unit) cpp \<Rightarrow> ('s, unit) cpp" where
  "in_thread m s = (case m s of (Inl x, t) \<Rightarrow> (Inl Process_exit, t) | (Inr x, t) \<Rightarrow> (Inr x, t))"

abbreviation workers :: "host \<Rightarrow> nat list" where
  "workers h \<equiv> [0..<nat (num_workers h)]"

definition mg_init :: "(string \<Rightarrow> int \<Rightarrow> bool) \<Rightarrow> host list \<Rightarrow> (manager, unit) cpp" where
  "mg_init up hs =
     seqM (modify (\<lambda>s. s\<lparr>mg_hosts := hs\<rparr>))
       (for_each (get_hosts_by_type hs (- 1)) (\<lambda>h.
          if h_type h = HOST_TYPE_L1 \<or> h_type h = HOST_TYPE_L2 \<or> h_type h = HOST_TYPE_L3
          then for_each (workers h) (\<lambda>i. get_block_client up (hostname h) (port h + int i))
          else ret ()))"

section \<open>Calls to all workers of a host\<close>

definition mg_setup_chain :: "(string \<Rightarrow> int \<Rightarrow> bool) \<Rightarrow> host \<Rightarrow> string \<Rightarrow> chain_role \<Rightarrow> host option \<Rightarrow> (manager, unit) cpp" where
  "mg_setup_chain up h path rl nxt =
     for_each (workers h) (\<lambda>i.
       in_thread (block_rpc up (hostname h) (port h + int i)
         (Setup_chain (int i) path [] rl (case nxt of None \<Rightarrow> ''nil'' | Some n \<Rightarrow> worker_block (int i) n))))"

definition mg_fetch_seqs :: "(string \<Rightarrow> int \<Rightarrow> bool) \<Rightarrow> (string \<Rightarrow> int \<Rightarrow> int) \<Rightarrow> host \<Rightarrow> host option \<Rightarrow> (manager, int list) cpp" where
  "mg_fetch_seqs up fetch h nxt =
     (case nxt of
        None \<Rightarrow> ret (replicate (nat (num_workers h)) (- 1))
      | Some n \<Rightarrow>
          collect (\<lambda>i. seqM (block_rpc up (hostname n) (port n + int i) (Fetch_seq (int i)))
                         (ret (fetch (hostname n) (port n + int i)))) (workers h))"

definition mg_resend_pending ::
  "(string \<Rightarrow> int \<Rightarrow> bool) \<Rightarrow> (string \<Rightarrow> int \<Rightarrow> int) \<Rightarrow> host \<Rightarrow> host option \<Rightarrow> (manager, unit) cpp" where
  "mg_resend_pending up fetch h nxt =
     bnd (mg_fetch_seqs up fetch h nxt) (\<lambda>seqs.
       for_each (workers h) (\<lambda>i.
         in_thread (block_rpc up (hostname h) (port h + int i) (Resend_pending (int i) (seqs ! i)))))"

definition mg_update_connections :: "(string \<Rightarrow> int \<Rightarrow> bool) \<Rightarrow> host \<Rightarrow> int \<Rightarrow> int \<Rightarrow> host option \<Rightarrow> (manager, unit) cpp" where
  "mg_update_connections up h t col target =
     for_each (workers h) (\<lambda>i.
       mg_rpc up (hostname h) (port h + int i)
         (case target of
            None \<Rightarrow> Update_connections t col ''nil'' 0 0
          | Some g \<Rightarrow> Update_connections t col (hostname g) (port g) (num_workers g)))"

definition mg_selective_resend_pending :: "(string \<Rightarrow> int \<Rightarrow> bool) \<Rightarrow> host \<Rightarrow> int \<Rightarrow> int \<Rightarrow> (manager, unit) cpp" where
  "mg_selective_resend_pending up h col num_columns =
     (if h_type h \<noteq> HOST_TYPE_L2 then throw (Logic_error ''selective_resend_pending call in invalid node type'')
      else for_each (workers h) (\<lambda>i. mg_rpc up (hostname h) (port h + int i) (Selective_resend col num_columns)))"

section \<open>Start\<close>

definition front_of :: "host list \<Rightarrow> host outcome" where
  "front_of reps = (if reps = [] then Inl (Undefined_behaviour ''front of an empty vector'') else Inr (hd reps))"

definition back_of :: "host list \<Rightarrow> host outcome" where
  "back_of reps = (if reps = [] then Inl (Undefined_behaviour ''back of an empty vector'') else Inr (last reps))"

definition mg_ends :: "(host list \<Rightarrow> host outcome) \<Rightarrow> host list \<Rightarrow> int \<Rightarrow> host list outcome" where
  "mg_ends end_of hs t =
     map_out (\<lambda>i. end_of (get_replicas hs t (int i))) [0..<nat (get_num_columns hs t False)]"

definition setup_reverse_connections :: "(string \<Rightarrow> int \<Rightarrow> bool) \<Rightarrow> (manager, unit) cpp" where
  "setup_reverse_connections up =
     bnd (gets mg_hosts) (\<lambda>hs.
     bnd (lift_out (mg_ends front_of hs HOST_TYPE_L3)) (\<lambda>l3_hosts.
     bnd (lift_out (mg_ends back_of hs HOST_TYPE_L2)) (\<lambda>l2_hosts.
     bnd (lift_out (mg_ends front_of hs HOST_TYPE_L2)) (\<lambda>l2_heads.
     bnd (lift_out (mg_ends back_of hs HOST_TYPE_L1)) (\<lambda>l1_tails.
       seqM (for_each l3_hosts (\<lambda>h. for_each (enumerate 0 l2_hosts) (\<lambda>(j, g).
               mg_update_connections up h HOST_TYPE_L2 (int j) (Some g))))
         (for_each l2_heads (\<lambda>h. for_each (enumerate 0 l1_tails) (\<lambda>(j, g).
               mg_update_connections up h HOST_TYPE_L1 (int j) (Some g)))))))))"

section \<open>Failures\<close>

definition get_idx :: "host \<Rightarrow> host list \<Rightarrow> int" where
  "get_idx h reps = index_of (instance_name h) (map instance_name reps) 0"

definition crash_seq :: sequence_id where
  "crash_seq = sequence_id_new\<lparr>client_id := - 1995, client_seq_no := - 1995\<rparr>"

definition crash_host :: "(string \<Rightarrow> int \<Rightarrow> bool) \<Rightarrow> host \<Rightarrow> (manager, unit) cpp" where
  "crash_host up h = block_rpc up (hostname h) (port h) (External_ack crash_seq)"

definition fixed_replicas :: "host \<Rightarrow> host list \<Rightarrow> host list" where
  "fixed_replicas failed reps = filter (\<lambda>h. instance_name h \<noteq> instance_name failed) reps"

definition repaired_role :: "nat \<Rightarrow> int \<Rightarrow> chain_role" where
  "repaired_role n i =
     (if n = 1 then Singleton else if i = 0 then Head else if i = int n - 1 then Tail else Mid)"

definition next_in :: "host list \<Rightarrow> int \<Rightarrow> host option" where
  "next_in reps i = (if i = int (length reps) - 1 then None else Some (reps ! nat (i + 1)))"

text \<open>The branch for a replica that has a predecessor, which l1 and l2 nodes share.\<close>

definition repair_behind :: "(string \<Rightarrow> int \<Rightarrow> bool) \<Rightarrow> (string \<Rightarrow> int \<Rightarrow> int) \<Rightarrow> host \<Rightarrow> host list \<Rightarrow> int \<Rightarrow> (manager, unit) cpp" where
  "repair_behind up fetch failed reps idx =
     (let fixed = fixed_replicas failed reps; prev = reps ! nat (idx - 1); prev_idx = get_idx prev fixed in
      seqM (mg_setup_chain up prev ''/'' (repaired_role (length fixed) prev_idx) (next_in fixed prev_idx))
        (mg_resend_pending up fetch prev (next_in fixed prev_idx)))"

definition repair_l2_head :: "(string \<Rightarrow> int \<Rightarrow> bool) \<Rightarrow> (string \<Rightarrow> int \<Rightarrow> int) \<Rightarrow> host list \<Rightarrow> (manager, unit) cpp" where
  "repair_l2_head up fetch fixed =
     (if fixed = [] then throw Process_exit
      else
        (let new_head = fixed ! 0; single = (length fixed = 1) in
         seqM (mg_setup_chain up new_head ''/'' (if single then Singleton else Head) (if single then None else Some (fixed ! 1)))
           (bnd (gets mg_hosts) (\<lambda>hs.
            seqM (for_each [0..<nat (get_num_columns hs HOST_TYPE_L1 False)] (\<lambda>i.
                    bnd (lift_out (back_of (get_replicas hs HOST_TYPE_L1 (int i)))) (\<lambda>l1_tail.
                      mg_update_connections up l1_tail HOST_TYPE_L2 (column new_head) (Some new_head))))
              (for_each [0..<nat (get_num_columns hs HOST_TYPE_L1 False)] (\<lambda>i.
                    bnd (lift_out (back_of (get_replicas hs HOST_TYPE_L1 (int i)))) (\<lambda>l1_tail.
                      mg_resend_pending up fetch l1_tail None)))))))"

definition repair_l3 :: "(string \<Rightarrow> int \<Rightarrow> bool) \<Rightarrow> host \<Rightarrow> (manager, unit) cpp" where
  "repair_l3 up failed =
     bnd (gets mg_hosts) (\<lambda>hs.
     (let cols = [0..<nat (get_num_columns hs HOST_TYPE_L2 False)] in
      seqM (for_each cols (\<lambda>i.
              bnd (lift_out (back_of (get_replicas hs HOST_TYPE_L2 (int i)))) (\<lambda>l2_tail.
                mg_update_connections up l2_tail HOST_TYPE_L3 (column failed) None)))
        (for_each cols (\<lambda>i.
              bnd (lift_out (back_of (get_replicas hs HOST_TYPE_L2 (int i)))) (\<lambda>l2_tail.
                mg_selective_resend_pending up l2_tail (column failed) (get_num_columns hs HOST_TYPE_L3 False))))))"

text \<open>\<^verbatim>\<open>assert(idx != -1)\<close> aborts if it fails; \<^verbatim>\<open>sleep\<close> does not change the state.\<close>

definition fail_node :: "(string \<Rightarrow> int \<Rightarrow> bool) \<Rightarrow> (string \<Rightarrow> int \<Rightarrow> int) \<Rightarrow> string \<Rightarrow> (manager, unit) cpp" where
  "fail_node up fetch name =
     bnd (gets mg_hosts) (\<lambda>hs.
       case get_host hs name of
         None \<Rightarrow> throw (Runtime_error ''Invalid instance name'')
       | Some failed \<Rightarrow>
           seqM (crash_host up failed)
             (let reps = get_replicas hs (h_type failed) (column failed); idx = get_idx failed reps in
              if h_type failed = HOST_TYPE_L1 then
                (if idx = - 1 then throw Process_exit else if idx > 0 then repair_behind up fetch failed reps idx else ret ())
              else if h_type failed = HOST_TYPE_L2 then
                (if idx = - 1 then throw Process_exit else if idx > 0 then repair_behind up fetch failed reps idx
                 else repair_l2_head up fetch (fixed_replicas failed reps))
              else if h_type failed = HOST_TYPE_L3 then repair_l3 up failed
              else throw (Logic_error ''Not implemented'')))"

definition fail_host :: "(string \<Rightarrow> int \<Rightarrow> bool) \<Rightarrow> (string \<Rightarrow> int \<Rightarrow> int) \<Rightarrow> string \<Rightarrow> (manager, unit) cpp" where
  "fail_host up fetch hname =
     bnd (gets mg_hosts) (\<lambda>hs.
       for_each (get_hosts_by_type hs (- 1)) (\<lambda>h. if hostname h = hname then fail_node up fetch (instance_name h) else ret ()))"

section \<open>The calls that are made\<close>

definition issues :: "manager \<Rightarrow> (string \<times> int \<times> mg_call) list \<Rightarrow> manager \<Rightarrow> bool" where
  "issues s cs t \<longleftrightarrow> mg_hosts t = mg_hosts s \<and> mg_calls t = mg_calls s @ cs"

lemma issues_trans: "issues s cs t \<Longrightarrow> issues t ds u \<Longrightarrow> issues s (cs @ ds) u"
  by (simp add: issues_def)

lemma block_rpc_issues:
  assumes "up h p"
  shows "\<exists>t. block_rpc up h p c s = (Inr (), t) \<and> issues s [(h, p, c)] t"
  using assms by (auto simp: block_rpc_def seqM_apply get_block_client_def mg_rpc_def issues_def)

lemma thread_rpc_issues:
  assumes "up h p"
  shows "\<exists>t. in_thread (block_rpc up h p c) s = (Inr (), t) \<and> issues s [(h, p, c)] t"
  using block_rpc_issues [of up h p c s, OF assms] by (auto simp: in_thread_def)

lemma for_each_issues:
  assumes "\<And>x s. x \<in> set xs \<Longrightarrow> \<exists>t. body x s = (Inr (), t) \<and> issues s [f x] t"
  shows "\<exists>t. for_each xs body s = (Inr (), t) \<and> issues s (map f xs) t"
  using assms
proof (induction xs arbitrary: s)
  case Nil
  then show ?case by (simp add: ret_apply issues_def)
next
  case (Cons x xs)
  obtain t where t: "body x s = (Inr (), t)" "issues s [f x] t" using Cons.prems [of x s] by auto
  obtain u where u: "for_each xs body t = (Inr (), u)" "issues t (map f xs) u" using Cons.IH [of t] Cons.prems by auto
  have "for_each (x # xs) body s = (Inr (), u)" using t(1) u(1) by (simp add: for_each_Cons del: for_each.simps)
  with issues_trans [OF t(2) u(2)] show ?case by simp
qed

lemma collect_issues:
  assumes "\<And>x s. x \<in> set xs \<Longrightarrow> \<exists>t. body x s = (Inr (g x), t) \<and> issues s [f x] t"
  shows "\<exists>t. collect body xs s = (Inr (map g xs), t) \<and> issues s (map f xs) t"
  using assms
proof (induction xs arbitrary: s)
  case Nil
  then show ?case by (simp add: ret_apply issues_def)
next
  case (Cons x xs)
  obtain t where t: "body x s = (Inr (g x), t)" "issues s [f x] t" using Cons.prems [of x s] by auto
  obtain u where u: "collect body xs t = (Inr (map g xs), u)" "issues t (map f xs) u" using Cons.IH [of t] Cons.prems by auto
  have "collect body (x # xs) s = (Inr (map g (x # xs)), u)" using t(1) u(1) by (simp add: collect_Cons del: collect.simps)
  with issues_trans [OF t(2) u(2)] show ?case by auto
qed

definition setup_calls :: "host \<Rightarrow> chain_role \<Rightarrow> host option \<Rightarrow> (string \<times> int \<times> mg_call) list" where
  "setup_calls h rl nxt =
     map (\<lambda>i. (hostname h, port h + int i,
                Setup_chain (int i) ''/'' [] rl (case nxt of None \<Rightarrow> ''nil'' | Some n \<Rightarrow> worker_block (int i) n))) (workers h)"

definition fetch_calls :: "host \<Rightarrow> host option \<Rightarrow> (string \<times> int \<times> mg_call) list" where
  "fetch_calls h nxt =
     (case nxt of None \<Rightarrow> [] | Some n \<Rightarrow> map (\<lambda>i. (hostname n, port n + int i, Fetch_seq (int i))) (workers h))"

definition resend_calls :: "(string \<Rightarrow> int \<Rightarrow> int) \<Rightarrow> host \<Rightarrow> host option \<Rightarrow> (string \<times> int \<times> mg_call) list" where
  "resend_calls fetch h nxt =
     map (\<lambda>i. (hostname h, port h + int i,
                Resend_pending (int i) (case nxt of None \<Rightarrow> - 1 | Some n \<Rightarrow> fetch (hostname n) (port n + int i)))) (workers h)"

lemma mg_setup_chain_issues:
  assumes "\<And>h p. up h p"
  shows "\<exists>t. mg_setup_chain up h ''/'' rl nxt s = (Inr (), t) \<and> issues s (setup_calls h rl nxt) t"
  unfolding mg_setup_chain_def setup_calls_def
  by (rule for_each_issues, rule thread_rpc_issues, rule assms)

lemma mg_fetch_seqs_issues:
  assumes "\<And>h p. up h p"
  shows "\<exists>t. mg_fetch_seqs up fetch h nxt s =
           (Inr (map (\<lambda>i. case nxt of None \<Rightarrow> - 1 | Some n \<Rightarrow> fetch (hostname n) (port n + int i)) (workers h)), t) \<and>
           issues s (fetch_calls h nxt) t"
proof (cases nxt)
  case None
  then show ?thesis by (simp add: mg_fetch_seqs_def fetch_calls_def ret_apply issues_def map_replicate_trivial)
next
  case (Some n)
  have "\<exists>t. collect (\<lambda>i. seqM (block_rpc up (hostname n) (port n + int i) (Fetch_seq (int i)))
                         (ret (fetch (hostname n) (port n + int i)))) (workers h) s =
           (Inr (map (\<lambda>i. fetch (hostname n) (port n + int i)) (workers h)), t) \<and>
           issues s (map (\<lambda>i. (hostname n, port n + int i, Fetch_seq (int i))) (workers h)) t"
  proof (rule collect_issues)
    fix i s
    show "\<exists>t. seqM (block_rpc up (hostname n) (port n + int i) (Fetch_seq (int i))) (ret (fetch (hostname n) (port n + int i))) s =
             (Inr (fetch (hostname n) (port n + int i)), t) \<and> issues s [(hostname n, port n + int i, Fetch_seq (int i))] t"
      using block_rpc_issues [of up "hostname n" "port n + int i" "Fetch_seq (int i)" s, OF assms]
      by (auto simp: seqM_apply ret_apply)
  qed
  then show ?thesis by (simp add: Some mg_fetch_seqs_def fetch_calls_def)
qed

lemma mg_resend_pending_issues:
  assumes "\<And>h p. up h p"
  shows "\<exists>t. mg_resend_pending up fetch h nxt s = (Inr (), t) \<and> issues s (fetch_calls h nxt @ resend_calls fetch h nxt) t"
proof -
  let ?f = "\<lambda>i. case nxt of None \<Rightarrow> - 1 | Some n \<Rightarrow> fetch (hostname n) (port n + int i)"
  obtain t where t: "mg_fetch_seqs up fetch h nxt s = (Inr (map ?f (workers h)), t)" "issues s (fetch_calls h nxt) t"
    using mg_fetch_seqs_issues [of up fetch h nxt s, OF assms] by blast
  have "\<exists>u. for_each (workers h) (\<lambda>i. in_thread (block_rpc up (hostname h) (port h + int i)
          (Resend_pending (int i) (map ?f (workers h) ! i)))) t = (Inr (), u) \<and> issues t (resend_calls fetch h nxt) u"
    unfolding resend_calls_def
  proof (rule for_each_issues)
    fix i s assume "i \<in> set (workers h)"
    then have "map ?f (workers h) ! i = ?f i" by (cases nxt) simp_all
    with thread_rpc_issues [of up "hostname h" "port h + int i" "Resend_pending (int i) (?f i)" s, OF assms]
    show "\<exists>t. in_thread (block_rpc up (hostname h) (port h + int i) (Resend_pending (int i) (map ?f (workers h) ! i))) s = (Inr (), t) \<and>
        issues s [(hostname h, port h + int i, Resend_pending (int i) (?f i))] t"
      by simp
  qed
  then obtain u where "for_each (workers h) (\<lambda>i. in_thread (block_rpc up (hostname h) (port h + int i)
          (Resend_pending (int i) (map ?f (workers h) ! i)))) t = (Inr (), u)" "issues t (resend_calls fetch h nxt) u"
    by blast
  then show ?thesis using t issues_trans [OF t(2)] by (auto simp: mg_resend_pending_def bnd_apply)
qed

section \<open>The shortened chain\<close>

lemma index_of_distinct:
  "distinct xs \<Longrightarrow> i < length xs \<Longrightarrow> index_of (xs ! i) xs k = k + int i"
proof (induction xs arbitrary: i k)
  case (Cons x xs)
  show ?case
  proof (cases i)
    case (Suc j)
    then have "xs ! j \<noteq> x" using Cons.prems by auto
    then show ?thesis using Cons.IH [of j "k + 1"] Cons.prems Suc by simp
  qed simp
qed simp

lemma get_idx_nth:
  "distinct (map instance_name reps) \<Longrightarrow> i < length reps \<Longrightarrow> get_idx (reps ! i) reps = int i"
  using index_of_distinct [of "map instance_name reps" i 0] by (simp add: get_idx_def)

lemma fixed_replicas_nth:
  assumes "distinct (map instance_name reps)" "j < length reps"
  shows "fixed_replicas (reps ! j) reps = take j reps @ drop (Suc j) reps"
proof -
  let ?P = "\<lambda>h. instance_name h \<noteq> instance_name (reps ! j)"
  have split: "reps = take j reps @ reps ! j # drop (Suc j) reps" using assms(2) by (rule id_take_nth_drop)
  have "distinct (map instance_name (take j reps @ reps ! j # drop (Suc j) reps))" using assms(1) split by simp
  then have "instance_name (reps ! j) \<notin> instance_name ` set (take j reps)"
    "instance_name (reps ! j) \<notin> instance_name ` set (drop (Suc j) reps)"
    by simp_all
  then have "list_all ?P (take j reps)" "list_all ?P (drop (Suc j) reps)"
    unfolding list_all_iff by (metis image_eqI)+
  then have "filter ?P (take j reps @ reps ! j # drop (Suc j) reps) = take j reps @ drop (Suc j) reps"
    by (simp add: filter_id_conv list_all_iff)
  then show ?thesis using split by (simp add: fixed_replicas_def)
qed

lemma repaired_role_nth:
  "distinct (map instance_name reps) \<Longrightarrow> i < length reps \<Longrightarrow> repaired_role (length reps) (int i) = chain_role_at reps (reps ! i)"
  by (auto simp: repaired_role_def chain_role_at_nth)

text \<open>A replica other than the predecessor of the failed one keeps its place in the chain.\<close>

lemma role_unchanged:
  assumes "distinct (map instance_name reps)" "0 < j" "j < length reps" "i < length reps" "i \<noteq> j" "i \<noteq> j - 1"
  shows "chain_role_at (take j reps @ drop (Suc j) reps) (reps ! i) = chain_role_at reps (reps ! i)"
proof -
  let ?fixed = "take j reps @ drop (Suc j) reps"
  have split: "reps = take j reps @ reps ! j # drop (Suc j) reps" using assms(3) by (rule id_take_nth_drop)
  have "distinct (map instance_name (take j reps @ reps ! j # drop (Suc j) reps))" using assms(1) split by simp
  then have d: "distinct (map instance_name ?fixed)" by auto
  define i' where "i' = (if i < j then i else i - 1)"
  have i': "i' < length ?fixed" "?fixed ! i' = reps ! i"
    using assms(2-6) by (auto simp: i'_def nth_append)
  show ?thesis
    using chain_role_at_nth [OF d i'(1)] chain_role_at_nth [OF assms(1,4)] assms(2-6) unfolding i'(2)
    by (auto simp: i'_def split: if_splits)
qed

lemma in_shortened:
  assumes "j < length reps" "h \<in> set (take j reps @ drop (Suc j) reps)"
  shows "\<exists>i < length reps. i \<noteq> j \<and> h = reps ! i"
proof -
  consider (front) k where "k < j" "h = reps ! k" | (behind) k where "Suc (j + k) < length reps" "h = reps ! Suc (j + k)"
    using assms by (auto simp: in_set_conv_nth less_diff_conv add.commute)
  then show ?thesis
  proof cases
    case (front k)
    with assms(1) show ?thesis by (intro exI [of _ k]) simp
  next
    case (behind k)
    then show ?thesis by (intro exI [of _ "Suc (j + k)"]) simp
  qed
qed

lemma find_get_idx:
  assumes "column_ok reps" "j < length reps"
  shows "get_idx (reps ! j) reps = int j"
  using assms get_idx_nth by (simp add: column_ok_def)

lemma shortened_roles:
  assumes "distinct (map instance_name reps)" "0 < j" "j < length reps"
  shows "map (\<lambda>h. if h = reps ! (j - 1) then chain_role_at (take j reps @ drop (Suc j) reps) (reps ! (j - 1)) else chain_role_at reps h)
             (take j reps @ drop (Suc j) reps) =
           map (chain_role_at (take j reps @ drop (Suc j) reps)) (take j reps @ drop (Suc j) reps)"
proof (rule map_cong)
  let ?fixed = "take j reps @ drop (Suc j) reps"
  fix h assume "h \<in> set ?fixed"
  then obtain i where i: "i < length reps" "i \<noteq> j" "h = reps ! i" using in_shortened [OF assms(3)] by blast
  show "(if h = reps ! (j - 1) then chain_role_at ?fixed (reps ! (j - 1)) else chain_role_at reps h) = chain_role_at ?fixed h"
  proof (cases "h = reps ! (j - 1)")
    case False
    with i(3) have "i \<noteq> j - 1" by auto
    from role_unchanged [OF assms i(1,2) this] False i(3) show ?thesis by simp
  qed simp
qed simp

lemma repair_behind_eq:
  fixes reps :: "host list"
  assumes dist: "distinct (map instance_name reps)" and j: "0 < j" "j < length reps"
  defines "fixed \<equiv> take j reps @ drop (Suc j) reps" and "prev \<equiv> reps ! (j - 1)"
    and "nxt \<equiv> (if Suc j < length reps then Some (reps ! Suc j) else None)"
  shows "distinct (map instance_name fixed)" "fixed \<noteq> []"
    and "repair_behind up fetch (reps ! j) reps (int j) =
      seqM (mg_setup_chain up prev ''/'' (chain_role_at fixed prev) nxt) (mg_resend_pending up fetch prev nxt)"
proof -
  have fx: "fixed_replicas (reps ! j) reps = fixed" using fixed_replicas_nth [OF dist j(2)] by (simp add: fixed_def)
  show dfx: "distinct (map instance_name fixed)"
    using dist unfolding fx [symmetric] fixed_replicas_def by (rule distinct_map_filter)
  have p: "j - 1 < length fixed" "fixed ! (j - 1) = prev" using j by (auto simp: fixed_def prev_def nth_append)
  show "fixed \<noteq> []" using p(1) by auto
  have pidx: "get_idx prev fixed = int (j - 1)" using get_idx_nth [OF dfx p(1)] p(2) by simp
  have "next_in fixed (int (j - 1)) = nxt"
    using j by (auto simp: next_in_def nxt_def fixed_def nth_append nat_add_distrib)
  moreover have "repaired_role (length fixed) (int (j - 1)) = chain_role_at fixed prev"
    using repaired_role_nth [OF dfx p(1)] p(2) by simp
  moreover have "reps ! nat (int j - 1) = prev" using j(1) by (simp add: prev_def nat_diff_distrib)
  ultimately show "repair_behind up fetch (reps ! j) reps (int j) =
      seqM (mg_setup_chain up prev ''/'' (chain_role_at fixed prev) nxt) (mg_resend_pending up fetch prev nxt)"
    by (simp add: repair_behind_def Let_def fx pidx)
qed

text \<open>
  When a replica of an L1 or L2 column other than the first one fails, the manager sets up the replica in front of it, on each of
  its workers, with the role it has in the shortened chain and with the block of the replica behind the failed one as its
  successor, then asks that successor how far it has come and makes the predecessor send what is missing, or
  everything pending if there is no successor. Afterwards the replicas that are left have the roles of a chain. No other
  worker is called, in particular none of the layer below, which sends its acknowledgements to the failed node if that was the tail.
\<close>

lemma repair_run:
  assumes "get_host (mg_hosts s) name = Some failed" "h_type failed = HOST_TYPE_L1 \<or> h_type failed = HOST_TYPE_L2"
    and "get_replicas (mg_hosts s) (h_type failed) (column failed) = reps" "column_ok reps"
    and "0 < j" "j < length reps" "reps ! j = failed" "\<And>h p. up h p"
  shows "\<exists>t. fail_node up fetch name s = (Inr (), t) \<and>
    (let fixed = take j reps @ drop (Suc j) reps; prev = reps ! (j - 1);
         nxt = (if Suc j < length reps then Some (reps ! Suc j) else None) in
     mg_calls t = mg_calls s @ [(hostname failed, port failed, External_ack crash_seq)] @
       setup_calls prev (chain_role_at fixed prev) nxt @ fetch_calls prev nxt @ resend_calls fetch prev nxt \<and>
     map (\<lambda>h. if h = prev then chain_role_at fixed prev else chain_role_at reps h) fixed = map (chain_role_at fixed) fixed \<and>
     roles_ok (map (chain_role_at fixed) fixed))"
proof -
  define fixed where "fixed = take j reps @ drop (Suc j) reps"
  define prev where "prev = reps ! (j - 1)"
  define nxt where "nxt = (if Suc j < length reps then Some (reps ! Suc j) else None)"
  have dist: "distinct (map instance_name reps)" using assms(4) by (simp add: column_ok_def)
  note rb = repair_behind_eq [OF dist assms(5,6), folded fixed_def prev_def nxt_def, unfolded assms(7)]
  obtain t0 where t0: "crash_host up failed s = (Inr (), t0)" "issues s [(hostname failed, port failed, External_ack crash_seq)] t0"
    using block_rpc_issues [where up = up, OF assms(8)] unfolding crash_host_def by blast
  obtain t1 where t1: "mg_setup_chain up prev ''/'' (chain_role_at fixed prev) nxt t0 = (Inr (), t1)"
    "issues t0 (setup_calls prev (chain_role_at fixed prev) nxt) t1"
    using mg_setup_chain_issues [where up = up, OF assms(8)] by blast
  obtain t2 where t2: "mg_resend_pending up fetch prev nxt t1 = (Inr (), t2)"
    "issues t1 (fetch_calls prev nxt @ resend_calls fetch prev nxt) t2"
    using mg_resend_pending_issues [where up = up, OF assms(8)] by blast
  have idx: "get_idx failed reps = int j" using find_get_idx [OF assms(4,6)] assms(7) by simp
  have run: "fail_node up fetch name s = (Inr (), t2)"
    using assms(1-3,5) t0(1) t1(1) t2(1) idx
    by (auto simp: fail_node_def bnd_apply gets_apply seqM_apply Let_def rb(3) host_type_defs)
  moreover have "issues s ([(hostname failed, port failed, External_ack crash_seq)] @
      setup_calls prev (chain_role_at fixed prev) nxt @ fetch_calls prev nxt @ resend_calls fetch prev nxt) t2"
    using issues_trans [OF t0(2) issues_trans [OF t1(2) t2(2)]] by simp
  ultimately show ?thesis
    using shortened_roles [OF dist assms(5,6), folded fixed_def prev_def] roles_of_distinct [OF rb(1,2)]
    unfolding Let_def fixed_def [symmetric] prev_def [symmetric] nxt_def [symmetric] issues_def by blast
qed

lemma example_column: "get_replicas example_layout 1 1 = [example_layout ! 1, example_layout ! 3]"
  by (simp add: get_replicas_def example_layout_def)

text \<open>The failure of the first replica of an L1 column only reaches that replica: nobody becomes the new head.\<close>

lemma manager_leaves_l1_headless:
  assumes "get_host (mg_hosts s) name = Some failed" "h_type failed = HOST_TYPE_L1"
    and "get_replicas (mg_hosts s) HOST_TYPE_L1 (column failed) = failed # rest" "\<And>h p. up h p"
  shows "\<exists>t. fail_node up fetch name s = (Inr (), t) \<and>
           mg_calls t = mg_calls s @ [(hostname failed, port failed, External_ack crash_seq)]"
proof -
  obtain t where "crash_host up failed s = (Inr (), t)" "issues s [(hostname failed, port failed, External_ack crash_seq)] t"
    using block_rpc_issues [where up = up, OF assms(4)] unfolding crash_host_def by blast
  then show ?thesis
    using assms(1-3) by (auto simp: fail_node_def bnd_apply gets_apply seqM_apply Let_def get_idx_def ret_apply issues_def host_type_defs)
qed

end
