(* ===== verification/Chain_Repair.thy ===== *)
theory Chain_Repair
  imports Proxy_Manager
begin

text \<open>
  The manager and the chains it repairs, together. The calls of a repair are served by the workers of the column: for one
  worker index they reach the replicas of one chain of Chain\_Protocol. A call with the failure number ends the process that serves it, with all
  its workers; every other call is handled by the worker at its port, as in l1\_handler.cpp and l2\_handler.cpp.
  The result is that a repair is a failure step of the protocol followed by its resend step, so that a chain which was correct before the failure is correct after the repair.
\<close>

section \<open>Serving calls\<close>

text \<open>What the chain module of a worker does for a call; the two other calls are about other members of the proxies.\<close>

fun chain_call ::
  "'a chain_module_scheme vtable \<Rightarrow> (string \<Rightarrow> int \<Rightarrow> bool) \<Rightarrow> ((int, chain_op) table \<Rightarrow> (int \<times> chain_op) list) \<Rightarrow> mg_call \<Rightarrow>
   ('a chain_module_scheme, unit) cpp" where
  "chain_call v up iter (Setup_chain b path chn rl nxt) = chain_setup v up chn rl nxt"
| "chain_call v up iter (Fetch_seq b) = ret ()"
| "chain_call v up iter (Resend_pending b k) = resend_pending v iter k"
| "chain_call v up iter (External_ack seq) = ack v seq"
| "chain_call v up iter _ = ret ()"

text \<open>The recording replica notes that its connection was supplied again.\<close>

fun log_call ::
  "(string \<Rightarrow> int \<Rightarrow> bool) \<Rightarrow> ((int, chain_op) table \<Rightarrow> (int \<times> chain_op) list) \<Rightarrow> mg_call \<Rightarrow> (logged, unit) cpp" where
  "log_call up iter (Resend_pending b k) = seqM (chain_call log_app up iter (Resend_pending b k)) (modify (\<lambda>s. s\<lparr>link_cut := False\<rparr>))"
| "log_call up iter c = chain_call log_app up iter c"

lemma log_call_resend: "log_call up iter (Resend_pending b k) = log_resend iter k"
  by (simp add: log_resend_def)

fun ends_process :: "mg_call \<Rightarrow> bool" where
  "ends_process (External_ack seq) \<longleftrightarrow> client_id seq = - 1995 \<and> client_seq_no seq = - 1995"
| "ends_process (Fetch_seq b) \<longleftrightarrow> b = - 1995"
| "ends_process _ \<longleftrightarrow> False"

definition listens :: "host \<Rightarrow> string \<Rightarrow> int \<Rightarrow> bool" where
  "listens r h p \<longleftrightarrow> hostname r = h \<and> port r \<le> p \<and> p < port r + num_workers r"

text \<open>The chain of worker \<open>w\<close>: each replica with its host.\<close>

definition serve_at ::
  "(string \<Rightarrow> int \<Rightarrow> bool) \<Rightarrow> ((int, chain_op) table \<Rightarrow> (int \<times> chain_op) list) \<Rightarrow> nat \<Rightarrow> string \<times> int \<times> mg_call \<Rightarrow>
   host \<times> logged \<Rightarrow> (host \<times> logged) list" where
  "serve_at up iter w = (\<lambda>(h, p, c) (r, n).
     if \<not> listens r h p then [(r, n)]
     else if ends_process c then []
     else if p = port r + int w then [(r, snd (log_call up iter c n))]
     else [(r, n)])"

definition serve_calls ::
  "(string \<Rightarrow> int \<Rightarrow> bool) \<Rightarrow> ((int, chain_op) table \<Rightarrow> (int \<times> chain_op) list) \<Rightarrow> nat \<Rightarrow> (string \<times> int \<times> mg_call) list \<Rightarrow>
   (host \<times> logged) list \<Rightarrow> (host \<times> logged) list" where
  "serve_calls up iter w cs rs = fold (\<lambda>c rs. concat (map (serve_at up iter w c) rs)) cs rs"

text \<open>No two replicas listen on the same port.\<close>

definition apart :: "host list \<Rightarrow> bool" where
  "apart hs \<longleftrightarrow> distinct hs \<and> (\<forall>a \<in> set hs. \<forall>b \<in> set hs. \<forall>h p. listens a h p \<and> listens b h p \<longrightarrow> a = b)"

lemma apart_unique: "apart hs \<Longrightarrow> a \<in> set hs \<Longrightarrow> b \<in> set hs \<Longrightarrow> listens a h p \<Longrightarrow> listens b h p \<longleftrightarrow> b = a"
  by (auto simp: apart_def)

lemma apart_distinct: "apart hs \<Longrightarrow> distinct hs"
  by (simp add: apart_def)

lemma apart_subset: "apart hs \<Longrightarrow> distinct gs \<Longrightarrow> set gs \<subseteq> set hs \<Longrightarrow> apart gs"
  unfolding apart_def by blast

lemma serve_calls_simps [simp]:
  "serve_calls up iter w [] rs = rs"
  "serve_calls up iter w (c # cs) rs = serve_calls up iter w cs (concat (map (serve_at up iter w c) rs))"
  "serve_calls up iter w (cs @ ds) rs = serve_calls up iter w ds (serve_calls up iter w cs rs)"
  by (simp_all add: serve_calls_def)

lemma serve_elsewhere:
  "\<forall>r \<in> set rs. \<not> listens (fst r) h p \<Longrightarrow> concat (map (serve_at up iter w (h, p, c)) rs) = rs"
  by (induction rs) (auto simp: serve_at_def)

text \<open>A call reaches exactly the replica that listens.\<close>

lemma serve_one:
  assumes "apart (map fst (xs @ (a, n) # ys))" "listens a h p"
  shows "serve_calls up iter w [(h, p, c)] (xs @ (a, n) # ys) = xs @ serve_at up iter w (h, p, c) (a, n) @ ys"
proof -
  have "\<forall>r \<in> set xs \<union> set ys. \<not> listens (fst r) h p"
  proof
    fix r assume r: "r \<in> set xs \<union> set ys"
    have "fst r \<noteq> a" using apart_distinct [OF assms(1)] r by auto
    moreover have "fst r \<in> set (map fst (xs @ (a, n) # ys))" using r by auto
    ultimately show "\<not> listens (fst r) h p" using apart_unique [OF assms(1), of a "fst r" h p] assms(2) by auto
  qed
  then show ?thesis by (simp add: serve_elsewhere)
qed

lemma serve_workers:
  assumes "apart (map fst (xs @ (a, n) # ys))" "distinct ws" "\<forall>i \<in> set ws. int i < num_workers a" "\<And>i. \<not> ends_process (f i)"
  shows "serve_calls up iter w (map (\<lambda>i. (hostname a, port a + int i, f i)) ws) (xs @ (a, n) # ys) =
           xs @ (a, if w \<in> set ws then snd (log_call up iter (f w) n) else n) # ys"
  using assms(1-3)
proof (induction ws arbitrary: n)
  case (Cons i ws)
  let ?n = "if i = w then snd (log_call up iter (f i) n) else n"
  have l: "listens a (hostname a) (port a + int i)" using Cons.prems by (simp add: listens_def)
  have "serve_calls up iter w [(hostname a, port a + int i, f i)] (xs @ (a, n) # ys) = xs @ (a, ?n) # ys"
    unfolding serve_one [OF Cons.prems(1) l] using assms(4) [of i] l by (auto simp: serve_at_def)
  moreover have "apart (map fst (xs @ (a, ?n) # ys))" using Cons.prems(1) by simp
  ultimately show ?case using Cons.IH [of ?n] Cons.prems(2,3) by auto
qed simp

section \<open>The repair of one chain\<close>

lemma resend_succeeds:
  assumes "chain_setup log_app up [] r name n = (Inr (), n1)" "name = ''nil'' \<and> tail_role r \<or> name \<noteq> ''nil'' \<and> \<not> tail_role r"
  shows "log_resend iter k n1 = (Inr (), snd (log_resend iter k n1))"
proof -
  have rl: "role n1 = r" using setup_frame [OF assms(1)] by (simp add: setup_ok_def)
  have "fst (resend_pending log_app iter k n1) = Inr ()"
  proof (cases "tail_role r")
    case True
    then show ?thesis using resend_tail_noop [of n1] rl by (simp add: is_tail_role)
  next
    case False
    with assms(2) have "name \<noteq> ''nil''" by simp
    from setup_connects [OF assms(1) this] False rl show ?thesis
      using resend_pending_sends [of n1 log_app iter k] by (simp add: is_tail_role)
  qed
  then obtain n2 where "resend_pending log_app iter k n1 = (Inr (), n2)" by (metis prod.collapse)
  then show ?thesis by (simp add: log_resend_def seqM_apply modify_apply)
qed

lemma serve_fetch: "serve_calls up iter w (map (\<lambda>i. (h, p i, Fetch_seq (int i))) ws) rs = rs"
proof (induction ws)
  case (Cons i ws)
  have "concat (map (serve_at up iter w (h, p i, Fetch_seq (int i))) rs) = rs"
    by (induction rs) (auto simp: serve_at_def ret_apply)
  with Cons show ?case by simp
qed simp

definition repair_name :: "nat \<Rightarrow> host option \<Rightarrow> string" where
  "repair_name w nxt = (case nxt of None \<Rightarrow> ''nil'' | Some g \<Rightarrow> worker_block (int w) g)"

definition repair_seq :: "(string \<Rightarrow> int \<Rightarrow> int) \<Rightarrow> nat \<Rightarrow> host option \<Rightarrow> int" where
  "repair_seq fetch w nxt = (case nxt of None \<Rightarrow> - 1 | Some g \<Rightarrow> fetch (hostname g) (port g + int w))"

text \<open>The calls of a repair end the failed process and reach the worker of the replica in front of it.\<close>

lemma serve_repair:
  assumes ap: "apart (map fst (xs @ (a, m) # (b, k) # ys))" and w: "int w < num_workers a" and b: "0 < num_workers b"
  shows "serve_calls up iter w ([(hostname b, port b, External_ack crash_seq)] @ setup_calls a rl nxt @ fetch_calls a nxt @
             resend_calls fetch a nxt) (xs @ (a, m) # (b, k) # ys) =
           xs @ (a, snd (log_resend iter (repair_seq fetch w nxt)
                      (snd (chain_setup log_app up [] rl (repair_name w nxt) m)))) # ys"
proof -
  have kill: "serve_calls up iter w [(hostname b, port b, External_ack crash_seq)] (xs @ (a, m) # (b, k) # ys) = xs @ (a, m) # ys"
    using serve_one [of "xs @ [(a, m)]" b k ys "hostname b" "port b" up iter w "External_ack crash_seq"] ap b
    by (simp add: listens_def serve_at_def crash_seq_def)
  have ap': "apart (map fst (xs @ (a, u) # ys))" for u :: logged
    by (rule apart_subset [OF ap]) (use apart_distinct [OF ap] in auto)
  have ws: "distinct (workers a)" "\<forall>i \<in> set (workers a). int i < num_workers a" "w \<in> set (workers a)" using w by auto
  have linked: "serve_calls up iter w (setup_calls a rl nxt) (xs @ (a, u) # ys) =
      xs @ (a, snd (chain_setup log_app up [] rl (repair_name w nxt) u)) # ys" for u
    unfolding setup_calls_def using serve_workers [OF ap' ws(1,2), where w = w] ws(3) by (simp add: repair_name_def)
  have resent: "serve_calls up iter w (resend_calls fetch a nxt) (xs @ (a, u) # ys) =
      xs @ (a, snd (log_resend iter (repair_seq fetch w nxt) u)) # ys" for u
    unfolding resend_calls_def using serve_workers [OF ap' ws(1,2), where w = w] ws(3) by (simp add: repair_seq_def log_call_resend del: log_call.simps(1))
  have fetched: "serve_calls up iter w (fetch_calls a nxt) rs = rs" for rs
    by (simp add: fetch_calls_def serve_fetch split: option.split)
  show ?thesis by (simp only: serve_calls_simps(3) kill linked fetched resent)
qed

lemma zip_around:
  assumes "0 < j" "j < length xs" "length ys = length xs"
  shows "zip xs ys = zip (take (j - 1) xs) (take (j - 1) ys) @ (xs ! (j - 1), ys ! (j - 1)) # (xs ! j, ys ! j) #
           zip (drop (Suc j) xs) (drop (Suc j) ys)"
    and "xs = take (j - 1) xs @ xs ! (j - 1) # xs ! j # drop (Suc j) xs"
    and "take j xs = take (j - 1) xs @ [xs ! (j - 1)]"
proof -
  obtain i where j: "j = Suc i" using assms(1) by (cases j) auto
  have split: "zs = take (j - 1) zs @ zs ! (j - 1) # zs ! j # drop (Suc j) zs" if "j < length zs" for zs :: "'c list"
    using that by (simp add: j Cons_nth_drop_Suc)
  show "xs = take (j - 1) xs @ xs ! (j - 1) # xs ! j # drop (Suc j) xs" using split assms(2) .
  show "take j xs = take (j - 1) xs @ [xs ! (j - 1)]" using assms(2) by (simp add: j take_Suc_conv_app_nth)
  have "zip (take (j - 1) xs @ xs ! (j - 1) # xs ! j # drop (Suc j) xs) (take (j - 1) ys @ ys ! (j - 1) # ys ! j # drop (Suc j) ys) =
      zip (take (j - 1) xs) (take (j - 1) ys) @ (xs ! (j - 1), ys ! (j - 1)) # (xs ! j, ys ! j) # zip (drop (Suc j) xs) (drop (Suc j) ys)"
    using assms by (subst zip_append) auto
  note parts = this
  have "j < length ys" using assms by simp
  from arg_cong2 [of _ _ _ _ zip, OF split [OF assms(2)] split [OF this]] parts
  show "zip xs ys = zip (take (j - 1) xs) (take (j - 1) ys) @ (xs ! (j - 1), ys ! (j - 1)) # (xs ! j, ys ! j) #
           zip (drop (Suc j) xs) (drop (Suc j) ys)"
    by (rule trans)
qed

lemma repair_role:
  assumes "distinct (map instance_name reps)" "0 < j" "j < length reps"
  shows "chain_role_at (take j reps @ drop (Suc j) reps) (reps ! (j - 1)) =
           (if Suc j < length reps then if j = 1 then Head else Mid else if j = 1 then Singleton else Tail)"
proof -
  let ?fixed = "take j reps @ drop (Suc j) reps"
  have "distinct (map instance_name ?fixed)"
    using assms(1) set_take_disj_set_drop_if_distinct [of "map instance_name reps" j "Suc j"]
    by (simp add: take_map [symmetric] drop_map [symmetric])
  from chain_role_at_nth [OF this, of "j - 1"] assms(2,3) show ?thesis by (auto simp: nth_append)
qed

lemma worker_block_parses: "worker_addr_ok (int w) g \<Longrightarrow> \<exists>b. bid_parse (worker_block (int w) g) = Inr b"
  by (simp add: worker_block_def worker_addr_ok_def block_id_make_parse)

lemma repair_steps:
  fixes a :: logged
  assumes last: "ys = [] \<longrightarrow> nxt = None \<and> r = (if xs = [] then Singleton else Tail)"
    and inner: "ys \<noteq> [] \<longrightarrow> nxt = Some g \<and> worker_addr_ok (int w) g \<and> fetch (hostname g) (port g + int w) = fetch_seq (hd ys) \<and>
                  r = (if xs = [] then Head else Mid)"
    and up: "\<And>h p. up h p"
  defines "a1 \<equiv> snd (chain_setup log_app up [] r (repair_name w nxt) a)"
  shows "cstep up iter (xs @ a # b # ys) (xs @ a1 # ys)"
    and "cstep up iter (xs @ a1 # ys) (xs @ snd (log_resend iter (repair_seq fetch w nxt) a1) # ys)"
    and "log_resend iter (repair_seq fetch w nxt) a1 = (Inr (), snd (log_resend iter (repair_seq fetch w nxt) a1))"
proof -
  have name: "repair_name w nxt = ''nil'' \<or> (\<exists>b. bid_parse (repair_name w nxt) = Inr b)"
    using last inner worker_block_parses [of w g] by (cases "ys = []") (auto simp: repair_name_def)
  then have s: "chain_setup log_app up [] r (repair_name w nxt) a = (Inr (), a1)"
    unfolding a1_def using setup_succeeds [of _ up r a] up by (metis snd_conv)
  have nn: "ys = [] \<longleftrightarrow> repair_name w nxt = ''nil''"
    using last inner bid_make_not_nil by (cases "ys = []") (auto simp: repair_name_def worker_block_def)
  show "log_resend iter (repair_seq fetch w nxt) a1 = (Inr (), snd (log_resend iter (repair_seq fetch w nxt) a1))"
    using last inner nn by (intro resend_succeeds [OF s]) (auto simp: tail_role_def split: if_splits)
  then show "cstep up iter (xs @ a1 # ys) (xs @ snd (log_resend iter (repair_seq fetch w nxt) a1) # ys)"
    using inner by (intro cstep.resend) (auto simp: repair_seq_def)
  show "cstep up iter (xs @ a # b # ys) (xs @ a1 # ys)"
  proof (cases ys)
    case Nil
    then show ?thesis using cstep.fail_tail [OF _ s [unfolded nn [THEN iffD1, OF Nil]], of xs iter b] last by simp
  next
    case (Cons n zs)
    then show ?thesis using cstep.fail_inner [OF _ _ s, of xs iter b n zs] inner nn by simp
  qed
qed

section \<open>Properties\<close>

text \<open>
  C4. A repair keeps the replicas correct: when the manager repairs an L1 or L2 column after the failure of a replica that has a
  predecessor, and the workers of the column serve its calls, then each chain of workers makes exactly the step of the protocol for this failure and then the one that resends, after which
  the new connection is not cut. So a chain in which
  every replica has a prefix of the commands of the replica in front of it, and no acknowledged command can get lost, is such a chain again after the repair, without the failed
  replica.
\<close>

theorem repair_is_chain_step:
  assumes mg: "get_host (mg_hosts s) name = Some failed" "h_type failed = HOST_TYPE_L1 \<or> h_type failed = HOST_TYPE_L2"
      "get_replicas (mg_hosts s) (h_type failed) (column failed) = reps" "column_ok reps"
      "0 < j" "j < length reps" "reps ! j = failed" "\<And>h p. up h p"
    and addr: "apart reps" "list_all (\<lambda>h. worker_addr_ok (int w) h \<and> int w < num_workers h) reps"
    and chain: "length ns = length reps" "chain_ok ns" "iter_ok iter"
    and seq: "Suc j < length reps \<longrightarrow> fetch (hostname (reps ! Suc j)) (port (reps ! Suc j) + int w) = fetch_seq (ns ! Suc j)"
  shows "\<exists>t ks. fail_node up fetch name s = (Inr (), t) \<and>
           serve_calls up iter w (drop (length (mg_calls s)) (mg_calls t)) (zip reps ns) =
             zip (take j reps @ drop (Suc j) reps) ks \<and>
           (\<exists>ms. cstep up iter ns ms \<and> cstep up iter ms ks) \<and> chain_ok ks \<and> \<not> link_cut (ks ! (j - 1))"
proof -
  define fixed where "fixed = take j reps @ drop (Suc j) reps"
  define a where "a = reps ! (j - 1)"
  define nxt where "nxt = (if Suc j < length reps then Some (reps ! Suc j) else None)"
  define r where "r = chain_role_at fixed a"
  define xs where "xs = take (j - 1) ns"
  define ys where "ys = drop (Suc j) ns"
  obtain t where t: "fail_node up fetch name s = (Inr (), t)"
    and calls: "drop (length (mg_calls s)) (mg_calls t) =
      [(hostname failed, port failed, External_ack crash_seq)] @ setup_calls a r nxt @ fetch_calls a nxt @ resend_calls fetch a nxt"
    using repair_run [where up = up and fetch = fetch, OF mg] unfolding Let_def r_def a_def fixed_def nxt_def by auto
  let ?a1 = "snd (chain_setup log_app up [] r (repair_name w nxt) (ns ! (j - 1)))"
  let ?a' = "snd (log_resend iter (repair_seq fetch w nxt) ?a1)"
  note z = zip_around [OF mg(5,6) chain(1)] and zn = zip_around(2) [OF mg(5), of ns ns]
  have w: "int w < num_workers (reps ! i)" if "i < length reps" for i using addr(2) that by (simp add: list_all_length)
  have len: "length (take (j - 1) reps) = length xs" "length (drop (Suc j) reps) = length ys" using mg(6) chain(1) by (simp_all add: xs_def ys_def)
  have "apart (map fst (zip reps ns))" using addr(1) chain(1) by simp
  then have ap: "apart (map fst (zip (take (j - 1) reps) xs @ (a, ns ! (j - 1)) # (failed, ns ! j) # zip (drop (Suc j) reps) ys))"
    unfolding z(1) by (simp add: a_def mg(7) xs_def ys_def)
  have "serve_calls up iter w (drop (length (mg_calls s)) (mg_calls t)) (zip reps ns) =
      zip (take (j - 1) reps) xs @ (a, ?a') # zip (drop (Suc j) reps) ys"
    unfolding calls using serve_repair [OF ap] w [of "j - 1"] w [OF mg(6)] mg(6,7)
    by (simp add: z(1) a_def xs_def ys_def)
  also have "\<dots> = zip fixed (xs @ ?a' # ys)"
    unfolding fixed_def z(3) using len by (simp add: a_def)
  finally have served: "serve_calls up iter w (drop (length (mg_calls s)) (mg_calls t)) (zip reps ns) = zip fixed (xs @ ?a' # ys)" .
  have rl: "r = (if Suc j < length reps then if j = 1 then Head else Mid else if j = 1 then Singleton else Tail)"
    using repair_role [OF _ mg(5,6)] mg(4) by (simp add: r_def fixed_def a_def column_ok_def)
  have xs: "xs = [] \<longleftrightarrow> j = 1" using mg(5,6) chain(1) by (auto simp: xs_def)
  have ns: "ns = xs @ ns ! (j - 1) # ns ! j # ys" unfolding xs_def ys_def using zn mg(6) chain(1) by simp
  have some: "ys \<noteq> [] \<longrightarrow> nxt = Some (reps ! Suc j) \<and> worker_addr_ok (int w) (reps ! Suc j) \<and>
      fetch (hostname (reps ! Suc j)) (port (reps ! Suc j) + int w) = fetch_seq (hd ys) \<and> r = (if xs = [] then Head else Mid)"
    using rl xs seq addr(2) chain(1) by (auto simp: ys_def nxt_def hd_drop_conv_nth list_all_length)
  have none: "ys = [] \<longrightarrow> nxt = None \<and> r = (if xs = [] then Singleton else Tail)"
    using rl xs chain(1) by (auto simp: ys_def nxt_def)
  note st = repair_steps [where g = "reps ! Suc j" and fetch = fetch and w = w and iter = iter and a = "ns ! (j - 1)" and
      ys = ys and xs = xs and nxt = nxt and r = r and up = up, OF none some mg(8)]
  have 1: "cstep up iter ns (xs @ ?a1 # ys)" using st(1) [of "ns ! j"] by (simp only: ns [symmetric])
  have ok1: "chain_ok (xs @ ?a1 # ys)" using cstep_chain_ok [OF 1 chain(3,2)] .
  have "\<not> link_cut ?a'" using resend_frame(4) [OF ok1 st(3)] .
  moreover have "(xs @ ?a' # ys) ! (j - 1) = ?a'" using mg(5,6) chain(1) by (simp add: nth_append xs_def)
  ultimately show ?thesis
    using t served 1 st(2) cstep_chain_ok [OF st(2) chain(3) ok1] unfolding fixed_def by metis
qed

definition example_replica :: "nat \<Rightarrow> string \<Rightarrow> string \<Rightarrow> host" where
  "example_replica i name h =
     \<lparr>instance_name = name, h_type = HOST_TYPE_L2, hostname = h, port = 9090, row = int i, column = 0, num_workers = 1\<rparr>"

definition example_replicas :: "host list" where
  "example_replicas = [example_replica 0 ''l2_0'' ''a'', example_replica 1 ''l2_1'' ''b'', example_replica 2 ''l2_2'' ''c'']"

theorem repair_is_chain_step_witness:
  "\<exists>t ks. fail_node (\<lambda>_ _. True) (\<lambda>_ _. 0) ''l2_1'' (manager_new\<lparr>mg_hosts := example_replicas\<rparr>) = (Inr (), t) \<and>
     serve_calls (\<lambda>_ _. True) id 0 (mg_calls t) (zip example_replicas example_chain) =
       zip [example_replica 0 ''l2_0'' ''a'', example_replica 2 ''l2_2'' ''c''] ks \<and>
     (\<exists>ms. cstep (\<lambda>_ _. True) id example_chain ms \<and> cstep (\<lambda>_ _. True) id ms ks)"
proof -
  let ?s = "manager_new\<lparr>mg_hosts := example_replicas\<rparr>" and ?f = "example_replica 1 ''l2_1'' ''b''"
  note d = example_replicas_def example_replica_def
  have h: "get_host (mg_hosts ?s) ''l2_1'' = Some ?f" "h_type ?f = HOST_TYPE_L1 \<or> h_type ?f = HOST_TYPE_L2"
    "get_replicas (mg_hosts ?s) (h_type ?f) (column ?f) = example_replicas" "column_ok example_replicas"
    by (simp_all add: d get_host_def get_replicas_def column_ok_def upt_rec)
  have j: "0 < (1 :: nat)" "1 < length example_replicas" "example_replicas ! 1 = ?f" by (simp_all add: d)
  have ad: "apart example_replicas" "list_all (\<lambda>h. worker_addr_ok (int 0) h \<and> int 0 < num_workers h) example_replicas"
    by (auto simp: d apart_def listens_def worker_addr_ok_def int32_range_def)
  have "fetch_seq (example_chain ! Suc 1) = 0"
    using setup_frame [OF example_setup [of "''nil''" _ Tail]]
    by (simp add: example_chain_def setup_ok_def fetch_seq_def logged_new_def chain_module.extend_def chain_module_new_def)
  then show ?thesis
    using repair_is_chain_step [OF h j _ ad _ example_chain_ok iter_ok_id, of "\<lambda>_ _. True" "\<lambda>_ _. 0"]
    by (simp add: manager_new_def) (simp add: d example_chain_def, blast)
qed

end
