(* ===== verification/Handlers.thy ===== *)
theory Handlers
  imports L1_Proxy L2_Proxy L3_Proxy Chain_Repair
begin

text \<open>
  service/src/l1_handler, l2_handler, l3_handler, thrift_handler (.h and .cpp) and their handler factories, and the interface
  proxy/src/proxy.h: what the server of a worker does with a call that arrives on a connection. A factory makes one handler per
  connection; the handlers of a worker share its proxy, its client map and its generator of client identifiers, so
  the state of a handler holds them beside its own members. The l3 proxy already holds the client map.

  The last part shows that the handlers of the first two layers serve the calls of the manager as Chain\_Repair assumes.
\<close>

section \<open>Handlers\<close>

record 'p handler =
  hd_proxy :: 'p
  hd_proxy_type :: string
  hd_prot :: nat
  hd_client :: thrift_client
  hd_registered_client_id :: int
  hd_client_id_gen :: int
  hd_clients :: client_map
  hd_operation_count :: int

definition handler_new :: "'p \<Rightarrow> string \<Rightarrow> int \<Rightarrow> nat \<Rightarrow> client_map \<Rightarrow> 'p handler" where
  "handler_new p ptype gen prot m =
     \<lparr>hd_proxy = p, hd_proxy_type = ptype, hd_prot = prot, hd_client = \<lparr>tc_broken = False, tc_sent = []\<rparr>,
      hd_registered_client_id = - 1, hd_client_id_gen = gen, hd_clients = m, hd_operation_count = 0\<rparr>"

definition on_proxy :: "('p, 'r) cpp \<Rightarrow> ('p handler, 'r) cpp" where
  "on_proxy m s = (let (r, p) = m (hd_proxy s) in (r, s\<lparr>hd_proxy := p\<rparr>))"

text \<open>\<^verbatim>\<open>std::atomic<int64_t>::fetch_add\<close> wraps around; \<^verbatim>\<open>operation_count_++\<close> on the largest \<^verbatim>\<open>int\<close> is undefined.\<close>

definition int64_wrap :: "int \<Rightarrow> int" where
  "int64_wrap i = (i + 2 ^ 63) mod 2 ^ 64 - 2 ^ 63"

definition get_client_id :: "('p handler, int) cpp" where
  "get_client_id s = (Inr (hd_client_id_gen s), s\<lparr>hd_client_id_gen := int64_wrap (hd_client_id_gen s + 1)\<rparr>)"

definition register_client_id :: "int \<Rightarrow> int \<Rightarrow> ('p handler, unit) cpp" where
  "register_client_id block_id cid =
     modify (\<lambda>s. s\<lparr>hd_registered_client_id := cid, hd_clients := add_client cid (hd_client s) (hd_clients s)\<rparr>)"

definition next_count :: "('p handler, int) cpp" where
  "next_count s =
     (if hd_operation_count s = 2 ^ 31 - 1 then (Inl (Undefined_behaviour ''signed overflow''), s)
      else (Inr (hd_operation_count s), s\<lparr>hd_operation_count := hd_operation_count s + 1\<rparr>))"

text \<open>\<^verbatim>\<open>(chain_role) role\<close>: other numbers than those of the enumerators are outside its range.\<close>

definition role_cast :: "int \<Rightarrow> chain_role outcome" where
  "role_cast r =
     (if r = 0 then Inr Singleton else if r = 1 then Inr Head else if r = 2 then Inr Mid else if r = 3 then Inr Tail
      else Inl (Undefined_behaviour ''enum range''))"

definition role_number :: "chain_role \<Rightarrow> int" where
  "role_number r = (case r of Singleton \<Rightarrow> 0 | Head \<Rightarrow> 1 | Mid \<Rightarrow> 2 | Tail \<Rightarrow> 3)"

text \<open>The number with which a failure is injected: the process ends.\<close>

definition is_kill_seq :: "sequence_id \<Rightarrow> bool" where
  "is_kill_seq seq \<longleftrightarrow> client_id seq = - 1995 \<and> client_seq_no seq = - 1995"

subsection \<open>l1\_handler\<close>

definition l1h_async_get :: "env \<Rightarrow> sequence_id \<Rightarrow> string \<Rightarrow> (l1_proxy handler, unit) cpp" where
  "l1h_async_get e seq k = bnd next_count (\<lambda>_. on_proxy (l1_async_get e seq k))"

definition l1h_async_put :: "env \<Rightarrow> sequence_id \<Rightarrow> string \<Rightarrow> string \<Rightarrow> (l1_proxy handler, unit) cpp" where
  "l1h_async_put e seq k v = bnd next_count (\<lambda>_. on_proxy (l1_async_put e seq k v))"

definition l1h_async_get_batch :: "env \<Rightarrow> sequence_id \<Rightarrow> string list \<Rightarrow> (l1_proxy handler, unit) cpp" where
  "l1h_async_get_batch e seq ks = bnd next_count (\<lambda>_. on_proxy (l1_async_get_batch e seq ks))"

definition l1h_async_put_batch :: "env \<Rightarrow> sequence_id \<Rightarrow> string list \<Rightarrow> string list \<Rightarrow> (l1_proxy handler, unit) cpp" where
  "l1h_async_put_batch e seq ks vs = bnd next_count (\<lambda>_. on_proxy (l1_async_put_batch e seq ks vs))"

definition l1h_get :: "string \<Rightarrow> (l1_proxy handler, string) cpp" where
  "l1h_get k = bnd next_count (\<lambda>_. on_proxy l1_not_implemented)"

definition l1h_put :: "string \<Rightarrow> string \<Rightarrow> (l1_proxy handler, unit) cpp" where
  "l1h_put k v = bnd next_count (\<lambda>_. on_proxy l1_not_implemented)"

definition l1h_get_batch :: "string list \<Rightarrow> (l1_proxy handler, string list) cpp" where
  "l1h_get_batch ks = bnd next_count (\<lambda>_. on_proxy l1_not_implemented)"

definition l1h_put_batch :: "string list \<Rightarrow> string list \<Rightarrow> (l1_proxy handler, unit) cpp" where
  "l1h_put_batch ks vs = bnd next_count (\<lambda>_. on_proxy l1_not_implemented)"

definition l1h_chain_request :: "env \<Rightarrow> sequence_id \<Rightarrow> int \<Rightarrow> string list \<Rightarrow> (l1_proxy handler, unit) cpp" where
  "l1h_chain_request e seq block_id args =
     bnd (gets hd_prot) (\<lambda>prot. on_proxy (handler_chain_request (l1_app e) prot seq args))"

definition l1h_setup_chain :: "env \<Rightarrow> int \<Rightarrow> string \<Rightarrow> string list \<Rightarrow> int \<Rightarrow> string \<Rightarrow> (l1_proxy handler, unit) cpp" where
  "l1h_setup_chain e block_id path chn r nxt =
     bnd (lift_out (role_cast r)) (\<lambda>rl. on_proxy (chain_setup (l1_app e) (env_up e) chn rl nxt))"

definition l1h_resend_pending ::
  "env \<Rightarrow> ((int, chain_op) table \<Rightarrow> (int \<times> chain_op) list) \<Rightarrow> int \<Rightarrow> int \<Rightarrow> (l1_proxy handler, unit) cpp" where
  "l1h_resend_pending e iter block_id successor_seq = on_proxy (resend_pending (l1_app e) iter successor_seq)"

definition l1h_fetch_seq :: "int \<Rightarrow> (l1_proxy handler, int) cpp" where
  "l1h_fetch_seq block_id = (if block_id = - 1995 then throw Process_exit else on_proxy (gets fetch_seq))"

definition l1h_update_connections :: "env \<Rightarrow> int \<Rightarrow> int \<Rightarrow> string \<Rightarrow> int \<Rightarrow> int \<Rightarrow> (l1_proxy handler, unit) cpp" where
  "l1h_update_connections e t col hname p n = on_proxy (l1_update_connections e t col hname p n)"

definition l1h_external_ack :: "env \<Rightarrow> sequence_id \<Rightarrow> (l1_proxy handler, unit) cpp" where
  "l1h_external_ack e seq = (if is_kill_seq seq then throw Process_exit else on_proxy (l1_external_ack e seq))"

definition l1h_external_ack_batch :: "env \<Rightarrow> sequence_id list \<Rightarrow> (l1_proxy handler, unit) cpp" where
  "l1h_external_ack_batch e seqs = on_proxy (l1_external_ack_batch e seqs)"

subsection \<open>l2\_handler\<close>

definition l2h_l2request :: "env \<Rightarrow> sequence_id \<Rightarrow> string \<Rightarrow> int \<Rightarrow> string \<Rightarrow> (l2_proxy handler, unit) cpp" where
  "l2h_l2request e seq k rep v = on_proxy (l2_async_operation e seq k rep v)"

definition l2h_chain_request :: "env \<Rightarrow> sequence_id \<Rightarrow> int \<Rightarrow> string list \<Rightarrow> (l2_proxy handler, unit) cpp" where
  "l2h_chain_request e seq block_id args =
     bnd (gets hd_prot) (\<lambda>prot. on_proxy (handler_chain_request (l2_app e) prot seq args))"

definition l2h_setup_chain :: "env \<Rightarrow> int \<Rightarrow> string \<Rightarrow> string list \<Rightarrow> int \<Rightarrow> string \<Rightarrow> (l2_proxy handler, unit) cpp" where
  "l2h_setup_chain e block_id path chn r nxt =
     bnd (lift_out (role_cast r)) (\<lambda>rl. on_proxy (chain_setup (l2_app e) (env_up e) chn rl nxt))"

definition l2h_resend_pending ::
  "env \<Rightarrow> ((int, chain_op) table \<Rightarrow> (int \<times> chain_op) list) \<Rightarrow> int \<Rightarrow> int \<Rightarrow> (l2_proxy handler, unit) cpp" where
  "l2h_resend_pending e iter block_id successor_seq = on_proxy (resend_pending (l2_app e) iter successor_seq)"

definition l2h_fetch_seq :: "int \<Rightarrow> (l2_proxy handler, int) cpp" where
  "l2h_fetch_seq block_id = (if block_id = - 1995 then throw Process_exit else on_proxy (gets fetch_seq))"

definition l2h_update_connections :: "env \<Rightarrow> int \<Rightarrow> int \<Rightarrow> string \<Rightarrow> int \<Rightarrow> int \<Rightarrow> (l2_proxy handler, unit) cpp" where
  "l2h_update_connections e t col hname p n = on_proxy (l2_update_conns e t col hname p n)"

definition l2h_selective_resend_pending ::
  "env \<Rightarrow> ((int, chain_op) table \<Rightarrow> (int \<times> chain_op) list) \<Rightarrow> int \<Rightarrow> int \<Rightarrow> (l2_proxy handler, unit) cpp" where
  "l2h_selective_resend_pending e iter col num_columns = on_proxy (l2_selective_resend_pending e iter col num_columns)"

definition l2h_external_ack :: "env \<Rightarrow> sequence_id \<Rightarrow> (l2_proxy handler, unit) cpp" where
  "l2h_external_ack e seq = (if is_kill_seq seq then throw Process_exit else on_proxy (l2_external_ack e seq))"

definition l2h_external_ack_batch :: "env \<Rightarrow> sequence_id list \<Rightarrow> (l2_proxy handler, unit) cpp" where
  "l2h_external_ack_batch e seqs = on_proxy (l2_external_ack_batch e seqs)"

subsection \<open>l3\_handler\<close>

definition l3h_register_client_id :: "int \<Rightarrow> ('k l3_proxy handler, unit) cpp" where
  "l3h_register_client_id cid =
     modify (\<lambda>s. s\<lparr>hd_registered_client_id := cid,
                   hd_proxy := (hd_proxy s)\<lparr>l3p_clients := add_client cid (hd_client s) (l3p_clients (hd_proxy s))\<rparr>\<rparr>)"

definition l3h_l3request :: "env \<Rightarrow> sequence_id \<Rightarrow> string \<Rightarrow> string \<Rightarrow> bool \<Rightarrow> bool \<Rightarrow> ('k l3_proxy handler, unit) cpp" where
  "l3h_l3request e seq label v is_read dedup = on_proxy (l3_async_operation e seq label v is_read dedup)"

definition l3h_chain_request :: "sequence_id \<Rightarrow> int \<Rightarrow> string list \<Rightarrow> ('k l3_proxy handler, unit) cpp" where
  "l3h_chain_request seq block_id args = throw (Logic_error ''Not implemented'')"

definition l3h_setup_chain :: "int \<Rightarrow> string \<Rightarrow> string list \<Rightarrow> int \<Rightarrow> string \<Rightarrow> ('k l3_proxy handler, unit) cpp" where
  "l3h_setup_chain block_id path chn r nxt = throw (Logic_error ''Not implemented'')"

definition l3h_fetch_seq :: "int \<Rightarrow> ('k l3_proxy handler, int) cpp" where
  "l3h_fetch_seq block_id = (if block_id = - 1995 then throw Process_exit else throw (Logic_error ''Not implemented''))"

definition l3h_resend_pending :: "int \<Rightarrow> int \<Rightarrow> ('k l3_proxy handler, unit) cpp" where
  "l3h_resend_pending block_id successor_seq = throw (Logic_error ''Not implemented'')"

definition l3h_update_connections :: "env \<Rightarrow> int \<Rightarrow> int \<Rightarrow> string \<Rightarrow> int \<Rightarrow> int \<Rightarrow> ('k l3_proxy handler, unit) cpp" where
  "l3h_update_connections e t col hname p n = on_proxy (l3_update_connections e t col hname p n)"

definition l3h_external_ack :: "sequence_id \<Rightarrow> ('k l3_proxy handler, unit) cpp" where
  "l3h_external_ack seq = (if is_kill_seq seq then throw Process_exit else throw (Logic_error ''Not implemented''))"

definition l3h_external_ack_batch :: "sequence_id list \<Rightarrow> ('k l3_proxy handler, unit) cpp" where
  "l3h_external_ack_batch seqs = throw (Logic_error ''Not implemented'')"

subsection \<open>thrift\_handler\<close>

text \<open>The virtual functions of \<^verbatim>\<open>proxy\<close> that the handler calls, each with the queue number.\<close>

record 'p proxy_vtable =
  px_get :: "int \<Rightarrow> string \<Rightarrow> ('p, string) cpp"
  px_put :: "int \<Rightarrow> string \<Rightarrow> string \<Rightarrow> ('p, unit) cpp"
  px_get_batch :: "int \<Rightarrow> string list \<Rightarrow> ('p, string list) cpp"
  px_put_batch :: "int \<Rightarrow> string list \<Rightarrow> string list \<Rightarrow> ('p, unit) cpp"
  px_async_get :: "sequence_id \<Rightarrow> int \<Rightarrow> string \<Rightarrow> ('p, unit) cpp"
  px_async_put :: "sequence_id \<Rightarrow> int \<Rightarrow> string \<Rightarrow> string \<Rightarrow> ('p, unit) cpp"
  px_async_get_batch :: "sequence_id \<Rightarrow> int \<Rightarrow> string list \<Rightarrow> ('p, unit) cpp"
  px_async_put_batch :: "sequence_id \<Rightarrow> int \<Rightarrow> string list \<Rightarrow> string list \<Rightarrow> ('p, unit) cpp"
  px_chain_req :: "sequence_id \<Rightarrow> string list \<Rightarrow> ('p, unit) cpp"
  px_setup_chain_stub :: "int \<Rightarrow> string \<Rightarrow> string list \<Rightarrow> int \<Rightarrow> string \<Rightarrow> ('p, unit) cpp"
  px_flush :: "('p, unit) cpp"

definition th_async_get :: "'p proxy_vtable \<Rightarrow> sequence_id \<Rightarrow> string \<Rightarrow> ('p handler, unit) cpp" where
  "th_async_get v seq k = bnd next_count (\<lambda>n. on_proxy (px_async_get v seq n k))"

definition th_async_put :: "'p proxy_vtable \<Rightarrow> sequence_id \<Rightarrow> string \<Rightarrow> string \<Rightarrow> ('p handler, unit) cpp" where
  "th_async_put v seq k val = bnd next_count (\<lambda>n. on_proxy (px_async_put v seq n k val))"

definition th_async_get_batch :: "'p proxy_vtable \<Rightarrow> sequence_id \<Rightarrow> string list \<Rightarrow> ('p handler, unit) cpp" where
  "th_async_get_batch v seq ks = bnd next_count (\<lambda>n. on_proxy (px_async_get_batch v seq n ks))"

definition th_async_put_batch :: "'p proxy_vtable \<Rightarrow> sequence_id \<Rightarrow> string list \<Rightarrow> string list \<Rightarrow> ('p handler, unit) cpp" where
  "th_async_put_batch v seq ks vs = bnd next_count (\<lambda>n. on_proxy (px_async_put_batch v seq n ks vs))"

definition th_get :: "'p proxy_vtable \<Rightarrow> string \<Rightarrow> ('p handler, string) cpp" where
  "th_get v k = bnd next_count (\<lambda>n. on_proxy (px_get v n k))"

definition th_put :: "'p proxy_vtable \<Rightarrow> string \<Rightarrow> string \<Rightarrow> ('p handler, unit) cpp" where
  "th_put v k val =
     (if k = ''$flush$'' then on_proxy (px_flush v) else bnd next_count (\<lambda>n. on_proxy (px_put v n k val)))"

definition th_get_batch :: "'p proxy_vtable \<Rightarrow> string list \<Rightarrow> ('p handler, string list) cpp" where
  "th_get_batch v ks = bnd next_count (\<lambda>n. on_proxy (px_get_batch v n ks))"

definition th_put_batch :: "'p proxy_vtable \<Rightarrow> string list \<Rightarrow> string list \<Rightarrow> ('p handler, unit) cpp" where
  "th_put_batch v ks vs = bnd next_count (\<lambda>n. on_proxy (px_put_batch v n ks vs))"

definition th_chain_request :: "'p proxy_vtable \<Rightarrow> sequence_id \<Rightarrow> int \<Rightarrow> string list \<Rightarrow> ('p handler, unit) cpp" where
  "th_chain_request v seq block_id args = on_proxy (px_chain_req v seq args)"

definition th_setup_chain :: "'p proxy_vtable \<Rightarrow> int \<Rightarrow> string \<Rightarrow> string list \<Rightarrow> int \<Rightarrow> string \<Rightarrow> ('p handler, unit) cpp" where
  "th_setup_chain v block_id path chn r nxt = on_proxy (px_setup_chain_stub v block_id path chn r nxt)"

text \<open>\<^verbatim>\<open>resend_pending\<close>, \<^verbatim>\<open>update_connections\<close>, \<^verbatim>\<open>external_ack\<close>, \<^verbatim>\<open>external_ack_batch\<close> and \<^verbatim>\<open>fetch_seq\<close>.\<close>

definition th_not_implemented :: "('p handler, 'r) cpp" where
  "th_not_implemented = throw (Runtime_error ''Not implemented'')"

section \<open>Serving the manager\<close>

text \<open>The role travels as its number. A method that a service does not have is refused by the Thrift processor.\<close>

fun l1_serve ::
  "env \<Rightarrow> ((int, chain_op) table \<Rightarrow> (int \<times> chain_op) list) \<Rightarrow> mg_call \<Rightarrow> (l1_proxy handler, unit) cpp" where
  "l1_serve e iter (Setup_chain b path chn rl nxt) = l1h_setup_chain e b path chn (role_number rl) nxt"
| "l1_serve e iter (Fetch_seq b) = bnd (l1h_fetch_seq b) (\<lambda>_. ret ())"
| "l1_serve e iter (Resend_pending b k) = l1h_resend_pending e iter b k"
| "l1_serve e iter (Update_connections t col h p n) = l1h_update_connections e t col h p n"
| "l1_serve e iter (External_ack seq) = l1h_external_ack e seq"
| "l1_serve e iter (Selective_resend col n) = throw (Logic_error ''Invalid method name'')"

fun l2_serve ::
  "env \<Rightarrow> ((int, chain_op) table \<Rightarrow> (int \<times> chain_op) list) \<Rightarrow> mg_call \<Rightarrow> (l2_proxy handler, unit) cpp" where
  "l2_serve e iter (Setup_chain b path chn rl nxt) = l2h_setup_chain e b path chn (role_number rl) nxt"
| "l2_serve e iter (Fetch_seq b) = bnd (l2h_fetch_seq b) (\<lambda>_. ret ())"
| "l2_serve e iter (Resend_pending b k) = l2h_resend_pending e iter b k"
| "l2_serve e iter (Update_connections t col h p n) = l2h_update_connections e t col h p n"
| "l2_serve e iter (External_ack seq) = l2h_external_ack e seq"
| "l2_serve e iter (Selective_resend col n) = l2h_selective_resend_pending e iter col n"

lemma role_cast_number [simp]: "role_cast (role_number r) = Inr r"
  by (cases r) (simp_all add: role_cast_def role_number_def)

fun repair_call :: "mg_call \<Rightarrow> bool" where
  "repair_call (Setup_chain b path chn rl nxt) \<longleftrightarrow> True"
| "repair_call (Fetch_seq b) \<longleftrightarrow> True"
| "repair_call (Resend_pending b k) \<longleftrightarrow> True"
| "repair_call _ \<longleftrightarrow> False"

lemma on_proxy_apply: "on_proxy m s = (fst (m (hd_proxy s)), s\<lparr>hd_proxy := snd (m (hd_proxy s))\<rparr>)"
  by (simp add: on_proxy_def split: prod.split)

text \<open>A call of a repair acts on the proxy as on a replica of the protocol, and the process ends on the failure number.\<close>

lemma l1_serve_repair:
  assumes "repair_call c" "\<not> ends_process c"
  shows "hd_proxy (snd (l1_serve e iter c s)) = snd (chain_call (l1_app e) (env_up e) iter c (hd_proxy s))"
  using assms
  by (cases c) (simp_all add: l1h_setup_chain_def l1h_fetch_seq_def l1h_resend_pending_def on_proxy_apply bnd_apply lift_out_apply
      gets_apply ret_apply)

lemma l2_serve_repair:
  assumes "repair_call c" "\<not> ends_process c"
  shows "hd_proxy (snd (l2_serve e iter c s)) = snd (chain_call (l2_app e) (env_up e) iter c (hd_proxy s))"
  using assms
  by (cases c) (simp_all add: l2h_setup_chain_def l2h_fetch_seq_def l2h_resend_pending_def on_proxy_apply bnd_apply lift_out_apply
      gets_apply ret_apply)

lemma serve_ends:
  assumes "ends_process c"
  shows "l1_serve e iter c s = (Inl Process_exit, s)" and "l2_serve e' iter c s' = (Inl Process_exit, s')"
  using assms
  by (cases c, simp_all add: l1h_external_ack_def l2h_external_ack_def l1h_fetch_seq_def l2h_fetch_seq_def is_kill_seq_def
      bnd_apply throw_apply)+

end
