(* ===== verification/Services.thy ===== *)
theory Services
  imports Thrift_Service Handlers
begin

text \<open>
  The six services of thrift/proxy.thrift as generated under service/src: block\_request\_service, block\_response\_service,
  pancake\_thrift, pancake\_thrift\_response, l2proxy and l3proxy. For every method: the fields of its argument structure
  (\<^verbatim>\<open>_args::read\<close>, \<^verbatim>\<open>_args::write\<close>, \<^verbatim>\<open>_pargs::write\<close>), its result (\<^verbatim>\<open>_result\<close>, \<^verbatim>\<open>_presult\<close>), the method with its \<^verbatim>\<open>process_\<close> function,
  and the call of the client. A record holds the virtual functions of an \<^verbatim>\<open>If\<close> class, and \<open>_invoke\<close> is the call
  that the \<^verbatim>\<open>process_\<close> functions make on it. The last part connects the handlers of Handlers. The concurrent clients, the multiplexing interfaces and the
  null handlers that Thrift generates beside them are not used by the repository.
\<close>

definition void_result :: "('s, unit) cpp \<Rightarrow> ('s, targ option) cpp" where
  "void_result m = bnd m (\<lambda>_. ret None)"

definition value_result :: "('a \<Rightarrow> targ) \<Rightarrow> ('s, 'a) cpp \<Rightarrow> ('s, targ option) cpp" where
  "value_result f m = bnd m (\<lambda>x. ret (Some (f x)))"

text \<open>No call of a processor gets here: it passes arguments of the declared types, to its own methods.\<close>

definition ill_typed :: "('s, targ option) cpp" where
  "ill_typed = throw (Undefined_behaviour ''argument types'')"

definition no_method :: "('s, targ option) cpp" where
  "no_method = throw (Undefined_behaviour ''method'')"

section \<open>block\_request\_service\<close>

record 's block_request_serviceIf =
  br_chain_request :: "sequence_id \<Rightarrow> int \<Rightarrow> string list \<Rightarrow> ('s, unit) cpp"
  br_external_ack :: "sequence_id \<Rightarrow> ('s, unit) cpp"
  br_external_ack_batch :: "sequence_id list \<Rightarrow> ('s, unit) cpp"
  br_setup_chain :: "int \<Rightarrow> string \<Rightarrow> string list \<Rightarrow> int \<Rightarrow> string \<Rightarrow> ('s, unit) cpp"
  br_resend_pending :: "int \<Rightarrow> int \<Rightarrow> ('s, unit) cpp"
  br_update_connections :: "int \<Rightarrow> int \<Rightarrow> string \<Rightarrow> int \<Rightarrow> int \<Rightarrow> ('s, unit) cpp"
  br_fetch_seq :: "int \<Rightarrow> ('s, int) cpp"

definition block_request_service_chain_request_args :: tspec where
  "block_request_service_chain_request_args = [(1, Ty_Seq), (2, Ty_I32), (3, Ty_Strings)]"

definition block_request_service_chain_request :: tmethod where
  "block_request_service_chain_request = \<lparr>m_name = ''chain_request'', m_oneway = True, m_args = block_request_service_chain_request_args, m_result = None\<rparr>"

definition block_request_serviceClient_chain_request :: "sequence_id \<Rightarrow> int \<Rightarrow> string list \<Rightarrow> tmsg" where
  "block_request_serviceClient_chain_request seq block_id arguments = client_send block_request_service_chain_request [A_Seq seq, A_I32 block_id, A_Strings arguments]"

definition block_request_service_external_ack_args :: tspec where
  "block_request_service_external_ack_args = [(1, Ty_Seq)]"

definition block_request_service_external_ack :: tmethod where
  "block_request_service_external_ack = \<lparr>m_name = ''external_ack'', m_oneway = True, m_args = block_request_service_external_ack_args, m_result = None\<rparr>"

definition block_request_serviceClient_external_ack :: "sequence_id \<Rightarrow> tmsg" where
  "block_request_serviceClient_external_ack seq = client_send block_request_service_external_ack [A_Seq seq]"

definition block_request_service_external_ack_batch_args :: tspec where
  "block_request_service_external_ack_batch_args = [(1, Ty_Seqs)]"

definition block_request_service_external_ack_batch :: tmethod where
  "block_request_service_external_ack_batch = \<lparr>m_name = ''external_ack_batch'', m_oneway = True, m_args = block_request_service_external_ack_batch_args, m_result = None\<rparr>"

definition block_request_serviceClient_external_ack_batch :: "sequence_id list \<Rightarrow> tmsg" where
  "block_request_serviceClient_external_ack_batch seqs = client_send block_request_service_external_ack_batch [A_Seqs seqs]"

definition block_request_service_setup_chain_args :: tspec where
  "block_request_service_setup_chain_args = [(1, Ty_I32), (2, Ty_String), (6, Ty_Strings), (7, Ty_I32), (8, Ty_String)]"

definition block_request_service_setup_chain_result :: "ttype option" where
  "block_request_service_setup_chain_result = None"

definition block_request_service_setup_chain :: tmethod where
  "block_request_service_setup_chain = \<lparr>m_name = ''setup_chain'', m_oneway = False, m_args = block_request_service_setup_chain_args, m_result = block_request_service_setup_chain_result\<rparr>"

definition block_request_serviceClient_setup_chain :: "int \<Rightarrow> string \<Rightarrow> string list \<Rightarrow> int \<Rightarrow> string \<Rightarrow> tmsg" where
  "block_request_serviceClient_setup_chain block_id path chn rl nxt = client_send block_request_service_setup_chain [A_I32 block_id, A_String path, A_Strings chn, A_I32 rl, A_String nxt]"

definition block_request_service_resend_pending_args :: tspec where
  "block_request_service_resend_pending_args = [(1, Ty_I32), (2, Ty_I64)]"

definition block_request_service_resend_pending_result :: "ttype option" where
  "block_request_service_resend_pending_result = None"

definition block_request_service_resend_pending :: tmethod where
  "block_request_service_resend_pending = \<lparr>m_name = ''resend_pending'', m_oneway = False, m_args = block_request_service_resend_pending_args, m_result = block_request_service_resend_pending_result\<rparr>"

definition block_request_serviceClient_resend_pending :: "int \<Rightarrow> int \<Rightarrow> tmsg" where
  "block_request_serviceClient_resend_pending block_id successor_seq = client_send block_request_service_resend_pending [A_I32 block_id, A_I64 successor_seq]"

definition block_request_service_update_connections_args :: tspec where
  "block_request_service_update_connections_args = [(1, Ty_I32), (2, Ty_I32), (3, Ty_String), (4, Ty_I32), (5, Ty_I32)]"

definition block_request_service_update_connections_result :: "ttype option" where
  "block_request_service_update_connections_result = None"

definition block_request_service_update_connections :: tmethod where
  "block_request_service_update_connections = \<lparr>m_name = ''update_connections'', m_oneway = False, m_args = block_request_service_update_connections_args, m_result = block_request_service_update_connections_result\<rparr>"

definition block_request_serviceClient_update_connections :: "int \<Rightarrow> int \<Rightarrow> string \<Rightarrow> int \<Rightarrow> int \<Rightarrow> tmsg" where
  "block_request_serviceClient_update_connections t col hname p n = client_send block_request_service_update_connections [A_I32 t, A_I32 col, A_String hname, A_I32 p, A_I32 n]"

definition block_request_service_fetch_seq_args :: tspec where
  "block_request_service_fetch_seq_args = [(1, Ty_I32)]"

definition block_request_service_fetch_seq_result :: "ttype option" where
  "block_request_service_fetch_seq_result = Some Ty_I64"

definition block_request_service_fetch_seq :: tmethod where
  "block_request_service_fetch_seq = \<lparr>m_name = ''fetch_seq'', m_oneway = False, m_args = block_request_service_fetch_seq_args, m_result = block_request_service_fetch_seq_result\<rparr>"

definition block_request_serviceClient_fetch_seq :: "int \<Rightarrow> tmsg" where
  "block_request_serviceClient_fetch_seq block_id = client_send block_request_service_fetch_seq [A_I32 block_id]"

definition block_request_service_processor :: service where
  "block_request_service_processor = Service
     [block_request_service_chain_request,
      block_request_service_external_ack,
      block_request_service_external_ack_batch,
      block_request_service_setup_chain,
      block_request_service_resend_pending,
      block_request_service_update_connections,
      block_request_service_fetch_seq]
     None"

definition block_request_service_invoke :: "('s, 'z) block_request_serviceIf_scheme \<Rightarrow> 's invoke" where
  "block_request_service_invoke i n vs =
     (if n = ''chain_request'' then (case vs of [A_Seq seq, A_I32 block_id, A_Strings arguments] \<Rightarrow> void_result (br_chain_request i seq block_id arguments) | _ \<Rightarrow> ill_typed)
      else if n = ''external_ack'' then (case vs of [A_Seq seq] \<Rightarrow> void_result (br_external_ack i seq) | _ \<Rightarrow> ill_typed)
      else if n = ''external_ack_batch'' then (case vs of [A_Seqs seqs] \<Rightarrow> void_result (br_external_ack_batch i seqs) | _ \<Rightarrow> ill_typed)
      else if n = ''setup_chain'' then (case vs of [A_I32 block_id, A_String path, A_Strings chn, A_I32 rl, A_String nxt] \<Rightarrow> void_result (br_setup_chain i block_id path chn rl nxt) | _ \<Rightarrow> ill_typed)
      else if n = ''resend_pending'' then (case vs of [A_I32 block_id, A_I64 successor_seq] \<Rightarrow> void_result (br_resend_pending i block_id successor_seq) | _ \<Rightarrow> ill_typed)
      else if n = ''update_connections'' then (case vs of [A_I32 t, A_I32 col, A_String hname, A_I32 p, A_I32 n'] \<Rightarrow> void_result (br_update_connections i t col hname p n') | _ \<Rightarrow> ill_typed)
      else if n = ''fetch_seq'' then (case vs of [A_I32 block_id] \<Rightarrow> value_result A_I64 (br_fetch_seq i block_id) | _ \<Rightarrow> ill_typed)
      else no_method)"

section \<open>block\_response\_service\<close>

record 's block_response_serviceIf =
  bs_chain_ack :: "sequence_id \<Rightarrow> ('s, unit) cpp"
  bs_chain_ack_batch :: "sequence_id list \<Rightarrow> ('s, unit) cpp"

definition block_response_service_chain_ack_args :: tspec where
  "block_response_service_chain_ack_args = [(1, Ty_Seq)]"

definition block_response_service_chain_ack :: tmethod where
  "block_response_service_chain_ack = \<lparr>m_name = ''chain_ack'', m_oneway = True, m_args = block_response_service_chain_ack_args, m_result = None\<rparr>"

definition block_response_serviceClient_chain_ack :: "sequence_id \<Rightarrow> tmsg" where
  "block_response_serviceClient_chain_ack seq = client_send block_response_service_chain_ack [A_Seq seq]"

definition block_response_service_chain_ack_batch_args :: tspec where
  "block_response_service_chain_ack_batch_args = [(2, Ty_Seqs)]"

definition block_response_service_chain_ack_batch :: tmethod where
  "block_response_service_chain_ack_batch = \<lparr>m_name = ''chain_ack_batch'', m_oneway = True, m_args = block_response_service_chain_ack_batch_args, m_result = None\<rparr>"

definition block_response_serviceClient_chain_ack_batch :: "sequence_id list \<Rightarrow> tmsg" where
  "block_response_serviceClient_chain_ack_batch seqs = client_send block_response_service_chain_ack_batch [A_Seqs seqs]"

definition block_response_service_processor :: service where
  "block_response_service_processor = Service
     [block_response_service_chain_ack,
      block_response_service_chain_ack_batch]
     None"

definition block_response_service_invoke :: "('s, 'z) block_response_serviceIf_scheme \<Rightarrow> 's invoke" where
  "block_response_service_invoke i n vs =
     (if n = ''chain_ack'' then (case vs of [A_Seq seq] \<Rightarrow> void_result (bs_chain_ack i seq) | _ \<Rightarrow> ill_typed)
      else if n = ''chain_ack_batch'' then (case vs of [A_Seqs seqs] \<Rightarrow> void_result (bs_chain_ack_batch i seqs) | _ \<Rightarrow> ill_typed)
      else no_method)"

section \<open>pancake\_thrift\<close>

record 's pancake_thriftIf = "'s block_request_serviceIf" +
  pt_get_client_id :: "('s, int) cpp"
  pt_register_client_id :: "int \<Rightarrow> int \<Rightarrow> ('s, unit) cpp"
  pt_async_get :: "sequence_id \<Rightarrow> string \<Rightarrow> ('s, unit) cpp"
  pt_async_put :: "sequence_id \<Rightarrow> string \<Rightarrow> string \<Rightarrow> ('s, unit) cpp"
  pt_async_get_batch :: "sequence_id \<Rightarrow> string list \<Rightarrow> ('s, unit) cpp"
  pt_async_put_batch :: "sequence_id \<Rightarrow> string list \<Rightarrow> string list \<Rightarrow> ('s, unit) cpp"
  pt_get :: "string \<Rightarrow> ('s, string) cpp"
  pt_put :: "string \<Rightarrow> string \<Rightarrow> ('s, unit) cpp"
  pt_get_batch :: "string list \<Rightarrow> ('s, string list) cpp"
  pt_put_batch :: "string list \<Rightarrow> string list \<Rightarrow> ('s, unit) cpp"

definition pancake_thrift_get_client_id_args :: tspec where
  "pancake_thrift_get_client_id_args = []"

definition pancake_thrift_get_client_id_result :: "ttype option" where
  "pancake_thrift_get_client_id_result = Some Ty_I64"

definition pancake_thrift_get_client_id :: tmethod where
  "pancake_thrift_get_client_id = \<lparr>m_name = ''get_client_id'', m_oneway = False, m_args = pancake_thrift_get_client_id_args, m_result = pancake_thrift_get_client_id_result\<rparr>"

definition pancake_thriftClient_get_client_id :: "tmsg" where
  "pancake_thriftClient_get_client_id = client_send pancake_thrift_get_client_id []"

definition pancake_thrift_register_client_id_args :: tspec where
  "pancake_thrift_register_client_id_args = [(1, Ty_I32), (2, Ty_I64)]"

definition pancake_thrift_register_client_id_result :: "ttype option" where
  "pancake_thrift_register_client_id_result = None"

definition pancake_thrift_register_client_id :: tmethod where
  "pancake_thrift_register_client_id = \<lparr>m_name = ''register_client_id'', m_oneway = False, m_args = pancake_thrift_register_client_id_args, m_result = pancake_thrift_register_client_id_result\<rparr>"

definition pancake_thriftClient_register_client_id :: "int \<Rightarrow> int \<Rightarrow> tmsg" where
  "pancake_thriftClient_register_client_id block_id cid = client_send pancake_thrift_register_client_id [A_I32 block_id, A_I64 cid]"

definition pancake_thrift_async_get_args :: tspec where
  "pancake_thrift_async_get_args = [(1, Ty_Seq), (2, Ty_String)]"

definition pancake_thrift_async_get :: tmethod where
  "pancake_thrift_async_get = \<lparr>m_name = ''async_get'', m_oneway = True, m_args = pancake_thrift_async_get_args, m_result = None\<rparr>"

definition pancake_thriftClient_async_get :: "sequence_id \<Rightarrow> string \<Rightarrow> tmsg" where
  "pancake_thriftClient_async_get seq k = client_send pancake_thrift_async_get [A_Seq seq, A_String k]"

definition pancake_thrift_async_put_args :: tspec where
  "pancake_thrift_async_put_args = [(1, Ty_Seq), (2, Ty_String), (3, Ty_String)]"

definition pancake_thrift_async_put :: tmethod where
  "pancake_thrift_async_put = \<lparr>m_name = ''async_put'', m_oneway = True, m_args = pancake_thrift_async_put_args, m_result = None\<rparr>"

definition pancake_thriftClient_async_put :: "sequence_id \<Rightarrow> string \<Rightarrow> string \<Rightarrow> tmsg" where
  "pancake_thriftClient_async_put seq k v = client_send pancake_thrift_async_put [A_Seq seq, A_String k, A_String v]"

definition pancake_thrift_async_get_batch_args :: tspec where
  "pancake_thrift_async_get_batch_args = [(1, Ty_Seq), (2, Ty_Strings)]"

definition pancake_thrift_async_get_batch :: tmethod where
  "pancake_thrift_async_get_batch = \<lparr>m_name = ''async_get_batch'', m_oneway = True, m_args = pancake_thrift_async_get_batch_args, m_result = None\<rparr>"

definition pancake_thriftClient_async_get_batch :: "sequence_id \<Rightarrow> string list \<Rightarrow> tmsg" where
  "pancake_thriftClient_async_get_batch seq ks = client_send pancake_thrift_async_get_batch [A_Seq seq, A_Strings ks]"

definition pancake_thrift_async_put_batch_args :: tspec where
  "pancake_thrift_async_put_batch_args = [(1, Ty_Seq), (2, Ty_Strings), (3, Ty_Strings)]"

definition pancake_thrift_async_put_batch :: tmethod where
  "pancake_thrift_async_put_batch = \<lparr>m_name = ''async_put_batch'', m_oneway = True, m_args = pancake_thrift_async_put_batch_args, m_result = None\<rparr>"

definition pancake_thriftClient_async_put_batch :: "sequence_id \<Rightarrow> string list \<Rightarrow> string list \<Rightarrow> tmsg" where
  "pancake_thriftClient_async_put_batch seq ks vs = client_send pancake_thrift_async_put_batch [A_Seq seq, A_Strings ks, A_Strings vs]"

definition pancake_thrift_get_args :: tspec where
  "pancake_thrift_get_args = [(1, Ty_String)]"

definition pancake_thrift_get_result :: "ttype option" where
  "pancake_thrift_get_result = Some Ty_String"

definition pancake_thrift_get :: tmethod where
  "pancake_thrift_get = \<lparr>m_name = ''get'', m_oneway = False, m_args = pancake_thrift_get_args, m_result = pancake_thrift_get_result\<rparr>"

definition pancake_thriftClient_get :: "string \<Rightarrow> tmsg" where
  "pancake_thriftClient_get k = client_send pancake_thrift_get [A_String k]"

definition pancake_thrift_put_args :: tspec where
  "pancake_thrift_put_args = [(1, Ty_String), (2, Ty_String)]"

definition pancake_thrift_put_result :: "ttype option" where
  "pancake_thrift_put_result = None"

definition pancake_thrift_put :: tmethod where
  "pancake_thrift_put = \<lparr>m_name = ''put'', m_oneway = False, m_args = pancake_thrift_put_args, m_result = pancake_thrift_put_result\<rparr>"

definition pancake_thriftClient_put :: "string \<Rightarrow> string \<Rightarrow> tmsg" where
  "pancake_thriftClient_put k v = client_send pancake_thrift_put [A_String k, A_String v]"

definition pancake_thrift_get_batch_args :: tspec where
  "pancake_thrift_get_batch_args = [(1, Ty_Strings)]"

definition pancake_thrift_get_batch_result :: "ttype option" where
  "pancake_thrift_get_batch_result = Some Ty_Strings"

definition pancake_thrift_get_batch :: tmethod where
  "pancake_thrift_get_batch = \<lparr>m_name = ''get_batch'', m_oneway = False, m_args = pancake_thrift_get_batch_args, m_result = pancake_thrift_get_batch_result\<rparr>"

definition pancake_thriftClient_get_batch :: "string list \<Rightarrow> tmsg" where
  "pancake_thriftClient_get_batch ks = client_send pancake_thrift_get_batch [A_Strings ks]"

definition pancake_thrift_put_batch_args :: tspec where
  "pancake_thrift_put_batch_args = [(1, Ty_Strings), (2, Ty_Strings)]"

definition pancake_thrift_put_batch_result :: "ttype option" where
  "pancake_thrift_put_batch_result = None"

definition pancake_thrift_put_batch :: tmethod where
  "pancake_thrift_put_batch = \<lparr>m_name = ''put_batch'', m_oneway = False, m_args = pancake_thrift_put_batch_args, m_result = pancake_thrift_put_batch_result\<rparr>"

definition pancake_thriftClient_put_batch :: "string list \<Rightarrow> string list \<Rightarrow> tmsg" where
  "pancake_thriftClient_put_batch ks vs = client_send pancake_thrift_put_batch [A_Strings ks, A_Strings vs]"

definition pancake_thrift_processor :: service where
  "pancake_thrift_processor = Service
     [pancake_thrift_get_client_id,
      pancake_thrift_register_client_id,
      pancake_thrift_async_get,
      pancake_thrift_async_put,
      pancake_thrift_async_get_batch,
      pancake_thrift_async_put_batch,
      pancake_thrift_get,
      pancake_thrift_put,
      pancake_thrift_get_batch,
      pancake_thrift_put_batch]
     (Some block_request_service_processor)"

definition pancake_thrift_invoke :: "('s, 'z) pancake_thriftIf_scheme \<Rightarrow> 's invoke" where
  "pancake_thrift_invoke i n vs =
     (if n = ''get_client_id'' then (case vs of [] \<Rightarrow> value_result A_I64 (pt_get_client_id i) | _ \<Rightarrow> ill_typed)
      else if n = ''register_client_id'' then (case vs of [A_I32 block_id, A_I64 cid] \<Rightarrow> void_result (pt_register_client_id i block_id cid) | _ \<Rightarrow> ill_typed)
      else if n = ''async_get'' then (case vs of [A_Seq seq, A_String k] \<Rightarrow> void_result (pt_async_get i seq k) | _ \<Rightarrow> ill_typed)
      else if n = ''async_put'' then (case vs of [A_Seq seq, A_String k, A_String v] \<Rightarrow> void_result (pt_async_put i seq k v) | _ \<Rightarrow> ill_typed)
      else if n = ''async_get_batch'' then (case vs of [A_Seq seq, A_Strings ks] \<Rightarrow> void_result (pt_async_get_batch i seq ks) | _ \<Rightarrow> ill_typed)
      else if n = ''async_put_batch'' then (case vs of [A_Seq seq, A_Strings ks, A_Strings vs'] \<Rightarrow> void_result (pt_async_put_batch i seq ks vs') | _ \<Rightarrow> ill_typed)
      else if n = ''get'' then (case vs of [A_String k] \<Rightarrow> value_result A_String (pt_get i k) | _ \<Rightarrow> ill_typed)
      else if n = ''put'' then (case vs of [A_String k, A_String v] \<Rightarrow> void_result (pt_put i k v) | _ \<Rightarrow> ill_typed)
      else if n = ''get_batch'' then (case vs of [A_Strings ks] \<Rightarrow> value_result A_Strings (pt_get_batch i ks) | _ \<Rightarrow> ill_typed)
      else if n = ''put_batch'' then (case vs of [A_Strings ks, A_Strings vs'] \<Rightarrow> void_result (pt_put_batch i ks vs') | _ \<Rightarrow> ill_typed)
      else block_request_service_invoke i n vs)"

section \<open>pancake\_thrift\_response\<close>

record 's pancake_thrift_responseIf =
  pr_async_response :: "sequence_id \<Rightarrow> int \<Rightarrow> string list \<Rightarrow> ('s, unit) cpp"

definition pancake_thrift_response_async_response_args :: tspec where
  "pancake_thrift_response_async_response_args = [(1, Ty_Seq), (2, Ty_I32), (3, Ty_Strings)]"

definition pancake_thrift_response_async_response :: tmethod where
  "pancake_thrift_response_async_response = \<lparr>m_name = ''async_response'', m_oneway = True, m_args = pancake_thrift_response_async_response_args, m_result = None\<rparr>"

definition pancake_thrift_responseClient_async_response :: "sequence_id \<Rightarrow> int \<Rightarrow> string list \<Rightarrow> tmsg" where
  "pancake_thrift_responseClient_async_response seq op_code res = client_send pancake_thrift_response_async_response [A_Seq seq, A_I32 op_code, A_Strings res]"

definition pancake_thrift_response_processor :: service where
  "pancake_thrift_response_processor = Service
     [pancake_thrift_response_async_response]
     None"

definition pancake_thrift_response_invoke :: "('s, 'z) pancake_thrift_responseIf_scheme \<Rightarrow> 's invoke" where
  "pancake_thrift_response_invoke i n vs =
     (if n = ''async_response'' then (case vs of [A_Seq seq, A_I32 op_code, A_Strings res] \<Rightarrow> void_result (pr_async_response i seq op_code res) | _ \<Rightarrow> ill_typed)
      else no_method)"

section \<open>l2proxy\<close>

record 's l2proxyIf = "'s block_request_serviceIf" +
  l2i_l2request :: "sequence_id \<Rightarrow> string \<Rightarrow> int \<Rightarrow> string \<Rightarrow> ('s, unit) cpp"
  l2i_selective_resend_pending :: "int \<Rightarrow> int \<Rightarrow> ('s, unit) cpp"

definition l2proxy_l2request_args :: tspec where
  "l2proxy_l2request_args = [(1, Ty_Seq), (2, Ty_String), (3, Ty_I32), (4, Ty_String)]"

definition l2proxy_l2request :: tmethod where
  "l2proxy_l2request = \<lparr>m_name = ''l2request'', m_oneway = True, m_args = l2proxy_l2request_args, m_result = None\<rparr>"

definition l2proxyClient_l2request :: "sequence_id \<Rightarrow> string \<Rightarrow> int \<Rightarrow> string \<Rightarrow> tmsg" where
  "l2proxyClient_l2request seq k replica v = client_send l2proxy_l2request [A_Seq seq, A_String k, A_I32 replica, A_String v]"

definition l2proxy_selective_resend_pending_args :: tspec where
  "l2proxy_selective_resend_pending_args = [(1, Ty_I32), (2, Ty_I32)]"

definition l2proxy_selective_resend_pending_result :: "ttype option" where
  "l2proxy_selective_resend_pending_result = None"

definition l2proxy_selective_resend_pending :: tmethod where
  "l2proxy_selective_resend_pending = \<lparr>m_name = ''selective_resend_pending'', m_oneway = False, m_args = l2proxy_selective_resend_pending_args, m_result = l2proxy_selective_resend_pending_result\<rparr>"

definition l2proxyClient_selective_resend_pending :: "int \<Rightarrow> int \<Rightarrow> tmsg" where
  "l2proxyClient_selective_resend_pending col num_columns = client_send l2proxy_selective_resend_pending [A_I32 col, A_I32 num_columns]"

definition l2proxy_processor :: service where
  "l2proxy_processor = Service
     [l2proxy_l2request,
      l2proxy_selective_resend_pending]
     (Some block_request_service_processor)"

definition l2proxy_invoke :: "('s, 'z) l2proxyIf_scheme \<Rightarrow> 's invoke" where
  "l2proxy_invoke i n vs =
     (if n = ''l2request'' then (case vs of [A_Seq seq, A_String k, A_I32 replica, A_String v] \<Rightarrow> void_result (l2i_l2request i seq k replica v) | _ \<Rightarrow> ill_typed)
      else if n = ''selective_resend_pending'' then (case vs of [A_I32 col, A_I32 num_columns] \<Rightarrow> void_result (l2i_selective_resend_pending i col num_columns) | _ \<Rightarrow> ill_typed)
      else block_request_service_invoke i n vs)"

section \<open>l3proxy\<close>

record 's l3proxyIf = "'s block_request_serviceIf" +
  l3i_get_client_id :: "('s, int) cpp"
  l3i_register_client_id :: "int \<Rightarrow> ('s, unit) cpp"
  l3i_l3request :: "sequence_id \<Rightarrow> string \<Rightarrow> string \<Rightarrow> bool \<Rightarrow> bool \<Rightarrow> ('s, unit) cpp"

definition l3proxy_get_client_id_args :: tspec where
  "l3proxy_get_client_id_args = []"

definition l3proxy_get_client_id_result :: "ttype option" where
  "l3proxy_get_client_id_result = Some Ty_I64"

definition l3proxy_get_client_id :: tmethod where
  "l3proxy_get_client_id = \<lparr>m_name = ''get_client_id'', m_oneway = False, m_args = l3proxy_get_client_id_args, m_result = l3proxy_get_client_id_result\<rparr>"

definition l3proxyClient_get_client_id :: "tmsg" where
  "l3proxyClient_get_client_id = client_send l3proxy_get_client_id []"

definition l3proxy_register_client_id_args :: tspec where
  "l3proxy_register_client_id_args = [(1, Ty_I64)]"

definition l3proxy_register_client_id_result :: "ttype option" where
  "l3proxy_register_client_id_result = None"

definition l3proxy_register_client_id :: tmethod where
  "l3proxy_register_client_id = \<lparr>m_name = ''register_client_id'', m_oneway = False, m_args = l3proxy_register_client_id_args, m_result = l3proxy_register_client_id_result\<rparr>"

definition l3proxyClient_register_client_id :: "int \<Rightarrow> tmsg" where
  "l3proxyClient_register_client_id cid = client_send l3proxy_register_client_id [A_I64 cid]"

definition l3proxy_l3request_args :: tspec where
  "l3proxy_l3request_args = [(1, Ty_Seq), (2, Ty_String), (3, Ty_String), (4, Ty_Bool), (5, Ty_Bool)]"

definition l3proxy_l3request :: tmethod where
  "l3proxy_l3request = \<lparr>m_name = ''l3request'', m_oneway = True, m_args = l3proxy_l3request_args, m_result = None\<rparr>"

definition l3proxyClient_l3request :: "sequence_id \<Rightarrow> string \<Rightarrow> string \<Rightarrow> bool \<Rightarrow> bool \<Rightarrow> tmsg" where
  "l3proxyClient_l3request seq label v is_read dedup = client_send l3proxy_l3request [A_Seq seq, A_String label, A_String v, A_Bool is_read, A_Bool dedup]"

definition l3proxy_processor :: service where
  "l3proxy_processor = Service
     [l3proxy_get_client_id,
      l3proxy_register_client_id,
      l3proxy_l3request]
     (Some block_request_service_processor)"

definition l3proxy_invoke :: "('s, 'z) l3proxyIf_scheme \<Rightarrow> 's invoke" where
  "l3proxy_invoke i n vs =
     (if n = ''get_client_id'' then (case vs of [] \<Rightarrow> value_result A_I64 (l3i_get_client_id i) | _ \<Rightarrow> ill_typed)
      else if n = ''register_client_id'' then (case vs of [A_I64 cid] \<Rightarrow> void_result (l3i_register_client_id i cid) | _ \<Rightarrow> ill_typed)
      else if n = ''l3request'' then (case vs of [A_Seq seq, A_String label, A_String v, A_Bool is_read, A_Bool dedup] \<Rightarrow> void_result (l3i_l3request i seq label v is_read dedup) | _ \<Rightarrow> ill_typed)
      else block_request_service_invoke i n vs)"

section \<open>Calls are delivered\<close>

lemmas block_request_service_methods =
  block_request_service_chain_request_args_def block_request_service_chain_request_def block_request_service_external_ack_args_def
  block_request_service_external_ack_def block_request_service_external_ack_batch_args_def block_request_service_external_ack_batch_def
  block_request_service_setup_chain_args_def block_request_service_setup_chain_result_def block_request_service_setup_chain_def
  block_request_service_resend_pending_args_def block_request_service_resend_pending_result_def block_request_service_resend_pending_def
  block_request_service_update_connections_args_def block_request_service_update_connections_result_def block_request_service_update_connections_def
  block_request_service_fetch_seq_args_def block_request_service_fetch_seq_result_def block_request_service_fetch_seq_def

lemmas block_response_service_methods =
  block_response_service_chain_ack_args_def block_response_service_chain_ack_def block_response_service_chain_ack_batch_args_def
  block_response_service_chain_ack_batch_def

lemmas pancake_thrift_methods =
  pancake_thrift_get_client_id_args_def pancake_thrift_get_client_id_result_def pancake_thrift_get_client_id_def
  pancake_thrift_register_client_id_args_def pancake_thrift_register_client_id_result_def pancake_thrift_register_client_id_def
  pancake_thrift_async_get_args_def pancake_thrift_async_get_def pancake_thrift_async_put_args_def
  pancake_thrift_async_put_def pancake_thrift_async_get_batch_args_def pancake_thrift_async_get_batch_def
  pancake_thrift_async_put_batch_args_def pancake_thrift_async_put_batch_def pancake_thrift_get_args_def
  pancake_thrift_get_result_def pancake_thrift_get_def pancake_thrift_put_args_def
  pancake_thrift_put_result_def pancake_thrift_put_def pancake_thrift_get_batch_args_def
  pancake_thrift_get_batch_result_def pancake_thrift_get_batch_def pancake_thrift_put_batch_args_def
  pancake_thrift_put_batch_result_def pancake_thrift_put_batch_def

lemmas pancake_thrift_response_methods =
  pancake_thrift_response_async_response_args_def pancake_thrift_response_async_response_def

lemmas l2proxy_methods =
  l2proxy_l2request_args_def l2proxy_l2request_def l2proxy_selective_resend_pending_args_def
  l2proxy_selective_resend_pending_result_def l2proxy_selective_resend_pending_def

lemmas l3proxy_methods =
  l3proxy_get_client_id_args_def l3proxy_get_client_id_result_def l3proxy_get_client_id_def
  l3proxy_register_client_id_args_def l3proxy_register_client_id_result_def l3proxy_register_client_id_def
  l3proxy_l3request_args_def l3proxy_l3request_def

lemma type_of_iff:
  "type_of v = Ty_Bool \<longleftrightarrow> (\<exists>x. v = A_Bool x)" "type_of v = Ty_I32 \<longleftrightarrow> (\<exists>x. v = A_I32 x)" "type_of v = Ty_I64 \<longleftrightarrow> (\<exists>x. v = A_I64 x)"
  "type_of v = Ty_String \<longleftrightarrow> (\<exists>x. v = A_String x)" "type_of v = Ty_Seq \<longleftrightarrow> (\<exists>x. v = A_Seq x)"
  "type_of v = Ty_Strings \<longleftrightarrow> (\<exists>x. v = A_Strings x)" "type_of v = Ty_Seqs \<longleftrightarrow> (\<exists>x. v = A_Seqs x)"
  by (cases v; simp)+

lemma well_typed_simps:
  "well_typed [] vs \<longleftrightarrow> vs = []"
  "well_typed ((i, t) # spec) vs \<longleftrightarrow> (\<exists>v vs'. vs = v # vs' \<and> type_of v = t \<and> well_typed spec vs')"
  by (auto simp: well_typed_def map_eq_Cons_conv Cons_eq_map_conv)

lemma void_result_type: "void_result m s = (Inr r, t) \<Longrightarrow> r = None"
  by (auto simp: void_result_def cpp_simps split: prod.splits sum.splits)

lemma value_result_type: "value_result f m s = (Inr r, t) \<Longrightarrow> \<exists>x. r = Some (f x)"
  by (auto simp: value_result_def cpp_simps split: prod.splits sum.splits)

text \<open>A method is typed by a handler if it returns a value of the declared type for arguments of the declared types.\<close>

definition typed_by :: "'s invoke \<Rightarrow> tmethod \<Rightarrow> bool" where
  "typed_by h m \<longleftrightarrow>
     (\<forall>vs s r t. well_typed (m_args m) vs \<and> h (m_name m) vs s = (Inr r, t) \<longrightarrow> map_option type_of r = m_result m)"

lemma find_method_in: "find_method sv n = Some m \<Longrightarrow> m \<in> set (service_methods sv) \<and> m_name m = n"
  by (induction sv n rule: find_method.induct) (auto simp: find_Some_iff split: option.splits)

lemma typed_byD: "typed_by h m \<Longrightarrow> well_typed (m_args m) vs \<Longrightarrow> h (m_name m) vs s = (Inr r, t) \<Longrightarrow> map_option type_of r = m_result m"
  unfolding typed_by_def by blast

lemma thrift_serviceI:
  assumes "list_all method_ok (service_methods sv)" "list_all (typed_by h) (service_methods sv)"
  shows "thrift_service sv h"
proof
  fix n m
  assume "find_method sv n = Some m"
  from find_method_in [OF this] have m: "m \<in> set (service_methods sv)" "m_name m = n" by simp_all
  with assms show "method_ok m \<and> m_name m = n" by (simp add: list_all_iff)
  have "typed_by h m" using m(1) assms(2) by (simp add: list_all_iff)
  from typed_byD [OF this] m(2) show "map_option type_of r = m_result m" if "well_typed (m_args m) vs" "h n vs s = (Inr r, t)" for vs s r t
    using that by blast
qed

lemma typed_by_void:
  assumes "m_result m = None" "\<And>vs. well_typed (m_args m) vs \<Longrightarrow> \<exists>k. h (m_name m) vs = void_result k"
  shows "typed_by h m"
  unfolding typed_by_def using assms by (force dest: void_result_type)

lemma typed_by_value:
  assumes "m_result m = Some ty" "\<And>x. type_of (f x) = ty" "\<And>vs. well_typed (m_args m) vs \<Longrightarrow> \<exists>k. h (m_name m) vs = value_result f k"
  shows "typed_by h m"
  unfolding typed_by_def
proof (intro allI impI, elim conjE)
  fix vs s r t
  assume "well_typed (m_args m) vs" "h (m_name m) vs s = (Inr r, t)"
  moreover from this assms(3) obtain k where "h (m_name m) vs = value_result f k" by blast
  ultimately obtain x where "r = Some (f x)" using value_result_type [of f k s r t] by auto
  with assms(1,2) show "map_option type_of r = m_result m" by simp
qed

lemma typed_inherited:
  assumes "list_all (typed_by g) ms" "list_all (\<lambda>m. \<forall>vs. h (m_name m) vs = g (m_name m) vs) ms"
  shows "list_all (typed_by h) ms"
  using assms unfolding typed_by_def list_all_iff by metis

lemmas typed_simps = well_typed_simps type_of_iff

lemma block_request_typed:
  "list_all (typed_by (block_request_service_invoke i)) (service_methods block_request_service_processor)"
proof -
  note d = block_request_service_methods block_request_service_invoke_def [abs_def] typed_simps
  have
    "typed_by (block_request_service_invoke i) block_request_service_chain_request"
    "typed_by (block_request_service_invoke i) block_request_service_external_ack"
    "typed_by (block_request_service_invoke i) block_request_service_external_ack_batch"
    "typed_by (block_request_service_invoke i) block_request_service_setup_chain"
    "typed_by (block_request_service_invoke i) block_request_service_resend_pending"
    "typed_by (block_request_service_invoke i) block_request_service_update_connections"
    by (rule typed_by_void; auto simp: d)+
  moreover have "typed_by (block_request_service_invoke i) block_request_service_fetch_seq"
    by (rule typed_by_value [where f = A_I64]) (auto simp: d)
  ultimately show ?thesis by (simp add: block_request_service_processor_def)
qed

lemma block_request_ok: "list_all method_ok (service_methods block_request_service_processor)"
  by (simp add: block_request_service_processor_def block_request_service_methods method_ok_def)

interpretation br: thrift_service block_request_service_processor "block_request_service_invoke i" for i
  by (rule thrift_serviceI [OF block_request_ok block_request_typed])

lemma pancake_thrift_typed: "list_all (typed_by (pancake_thrift_invoke i)) (service_methods pancake_thrift_processor)"
proof -
  note d = pancake_thrift_methods pancake_thrift_invoke_def [abs_def] typed_simps
  have
    "typed_by (pancake_thrift_invoke i) pancake_thrift_register_client_id"
    "typed_by (pancake_thrift_invoke i) pancake_thrift_async_get"
    "typed_by (pancake_thrift_invoke i) pancake_thrift_async_put"
    "typed_by (pancake_thrift_invoke i) pancake_thrift_async_get_batch"
    "typed_by (pancake_thrift_invoke i) pancake_thrift_async_put_batch"
    "typed_by (pancake_thrift_invoke i) pancake_thrift_put"
    "typed_by (pancake_thrift_invoke i) pancake_thrift_put_batch"
    by (rule typed_by_void; auto simp: d)+
  moreover have "typed_by (pancake_thrift_invoke i) pancake_thrift_get_client_id"
    by (rule typed_by_value [where f = A_I64]) (auto simp: d)
  moreover have "typed_by (pancake_thrift_invoke i) pancake_thrift_get"
    by (rule typed_by_value [where f = A_String]) (auto simp: d)
  moreover have "typed_by (pancake_thrift_invoke i) pancake_thrift_get_batch"
    by (rule typed_by_value [where f = A_Strings]) (auto simp: d)
  moreover have "list_all (typed_by (pancake_thrift_invoke i)) (service_methods block_request_service_processor)"
    by (rule typed_inherited [OF block_request_typed [of i]]) (simp add: block_request_service_processor_def block_request_service_methods pancake_thrift_invoke_def)
  ultimately show ?thesis by (simp add: pancake_thrift_processor_def)
qed

lemma pancake_thrift_ok: "list_all method_ok (service_methods pancake_thrift_processor)"
  using block_request_ok by (simp add: pancake_thrift_processor_def pancake_thrift_methods method_ok_def)

interpretation pt: thrift_service pancake_thrift_processor "pancake_thrift_invoke i" for i
  by (rule thrift_serviceI [OF pancake_thrift_ok pancake_thrift_typed])

lemma l2proxy_typed: "list_all (typed_by (l2proxy_invoke i)) (service_methods l2proxy_processor)"
proof -
  note d = l2proxy_methods l2proxy_invoke_def [abs_def] typed_simps
  have "typed_by (l2proxy_invoke i) l2proxy_l2request" "typed_by (l2proxy_invoke i) l2proxy_selective_resend_pending"
    by (rule typed_by_void; auto simp: d)+
  moreover have "list_all (typed_by (l2proxy_invoke i)) (service_methods block_request_service_processor)"
    by (rule typed_inherited [OF block_request_typed [of i]])
      (simp add: block_request_service_processor_def block_request_service_methods l2proxy_invoke_def)
  ultimately show ?thesis by (simp add: l2proxy_processor_def)
qed

lemma l2proxy_ok: "list_all method_ok (service_methods l2proxy_processor)"
  using block_request_ok by (simp add: l2proxy_processor_def l2proxy_methods method_ok_def)

interpretation l2i: thrift_service l2proxy_processor "l2proxy_invoke i" for i
  by (rule thrift_serviceI [OF l2proxy_ok l2proxy_typed])

lemma l3proxy_typed: "list_all (typed_by (l3proxy_invoke i)) (service_methods l3proxy_processor)"
proof -
  note d = l3proxy_methods l3proxy_invoke_def [abs_def] typed_simps
  have "typed_by (l3proxy_invoke i) l3proxy_register_client_id" "typed_by (l3proxy_invoke i) l3proxy_l3request"
    by (rule typed_by_void; auto simp: d)+
  moreover have "typed_by (l3proxy_invoke i) l3proxy_get_client_id"
    by (rule typed_by_value [where f = A_I64]) (auto simp: d)
  moreover have "list_all (typed_by (l3proxy_invoke i)) (service_methods block_request_service_processor)"
    by (rule typed_inherited [OF block_request_typed [of i]])
      (simp add: block_request_service_processor_def block_request_service_methods l3proxy_invoke_def)
  ultimately show ?thesis by (simp add: l3proxy_processor_def)
qed

lemma l3proxy_ok: "list_all method_ok (service_methods l3proxy_processor)"
  using block_request_ok by (simp add: l3proxy_processor_def l3proxy_methods method_ok_def)

interpretation l3i: thrift_service l3proxy_processor "l3proxy_invoke i" for i
  by (rule thrift_serviceI [OF l3proxy_ok l3proxy_typed])

lemma block_response_typed: "list_all (typed_by (block_response_service_invoke i)) (service_methods block_response_service_processor)"
proof -
  note d = block_response_service_methods block_response_service_invoke_def [abs_def] typed_simps
  have "typed_by (block_response_service_invoke i) block_response_service_chain_ack"
    "typed_by (block_response_service_invoke i) block_response_service_chain_ack_batch"
    by (rule typed_by_void; auto simp: d)+
  then show ?thesis by (simp add: block_response_service_processor_def)
qed

lemma block_response_ok: "list_all method_ok (service_methods block_response_service_processor)"
  by (simp add: block_response_service_processor_def block_response_service_methods method_ok_def)

interpretation bs: thrift_service block_response_service_processor "block_response_service_invoke i" for i
  by (rule thrift_serviceI [OF block_response_ok block_response_typed])

lemma pancake_response_typed: "list_all (typed_by (pancake_thrift_response_invoke i)) (service_methods pancake_thrift_response_processor)"
proof -
  note d = pancake_thrift_response_methods pancake_thrift_response_invoke_def [abs_def] typed_simps
  have "typed_by (pancake_thrift_response_invoke i) pancake_thrift_response_async_response"
    by (rule typed_by_void; auto simp: d)
  then show ?thesis by (simp add: pancake_thrift_response_processor_def)
qed

lemma pancake_response_ok: "list_all method_ok (service_methods pancake_thrift_response_processor)"
  by (simp add: pancake_thrift_response_processor_def pancake_thrift_response_methods method_ok_def)

interpretation pr: thrift_service pancake_thrift_response_processor "pancake_thrift_response_invoke i" for i
  by (rule thrift_serviceI [OF pancake_response_ok pancake_response_typed])

section \<open>The handlers of the workers\<close>

definition l1_handler_if ::
  "env \<Rightarrow> ((int, chain_op) table \<Rightarrow> (int \<times> chain_op) list) \<Rightarrow> l1_proxy handler pancake_thriftIf" where
  "l1_handler_if e iter =
     \<lparr>br_chain_request = l1h_chain_request e, br_external_ack = l1h_external_ack e, br_external_ack_batch = l1h_external_ack_batch e,
      br_setup_chain = l1h_setup_chain e, br_resend_pending = l1h_resend_pending e iter,
      br_update_connections = l1h_update_connections e, br_fetch_seq = l1h_fetch_seq,
      pt_get_client_id = get_client_id, pt_register_client_id = register_client_id, pt_async_get = l1h_async_get e,
      pt_async_put = l1h_async_put e, pt_async_get_batch = l1h_async_get_batch e, pt_async_put_batch = l1h_async_put_batch e,
      pt_get = l1h_get, pt_put = l1h_put, pt_get_batch = l1h_get_batch, pt_put_batch = l1h_put_batch\<rparr>"

definition thrift_handler_if :: "'p proxy_vtable \<Rightarrow> 'p handler pancake_thriftIf" where
  "thrift_handler_if v =
     \<lparr>br_chain_request = th_chain_request v, br_external_ack = \<lambda>_. th_not_implemented, br_external_ack_batch = \<lambda>_. th_not_implemented,
      br_setup_chain = th_setup_chain v, br_resend_pending = \<lambda>_ _. th_not_implemented,
      br_update_connections = \<lambda>_ _ _ _ _. th_not_implemented, br_fetch_seq = \<lambda>_. th_not_implemented,
      pt_get_client_id = get_client_id, pt_register_client_id = register_client_id, pt_async_get = th_async_get v,
      pt_async_put = th_async_put v, pt_async_get_batch = th_async_get_batch v, pt_async_put_batch = th_async_put_batch v,
      pt_get = th_get v, pt_put = th_put v, pt_get_batch = th_get_batch v, pt_put_batch = th_put_batch v\<rparr>"

definition l2_handler_if ::
  "env \<Rightarrow> ((int, chain_op) table \<Rightarrow> (int \<times> chain_op) list) \<Rightarrow> l2_proxy handler l2proxyIf" where
  "l2_handler_if e iter =
     \<lparr>br_chain_request = l2h_chain_request e, br_external_ack = l2h_external_ack e, br_external_ack_batch = l2h_external_ack_batch e,
      br_setup_chain = l2h_setup_chain e, br_resend_pending = l2h_resend_pending e iter,
      br_update_connections = l2h_update_connections e, br_fetch_seq = l2h_fetch_seq,
      l2i_l2request = l2h_l2request e, l2i_selective_resend_pending = l2h_selective_resend_pending e iter\<rparr>"

definition l3_handler_if :: "env \<Rightarrow> 'k l3_proxy handler l3proxyIf" where
  "l3_handler_if e =
     \<lparr>br_chain_request = l3h_chain_request, br_external_ack = l3h_external_ack, br_external_ack_batch = l3h_external_ack_batch,
      br_setup_chain = l3h_setup_chain, br_resend_pending = l3h_resend_pending,
      br_update_connections = l3h_update_connections e, br_fetch_seq = l3h_fetch_seq,
      l3i_get_client_id = get_client_id, l3i_register_client_id = l3h_register_client_id, l3i_l3request = l3h_l3request e\<rparr>"

section \<open>Properties\<close>

lemma find_distinct: "distinct (map f ms) \<Longrightarrow> m \<in> set ms \<Longrightarrow> find (\<lambda>k. f k = f m) ms = Some m"
  by (induction ms) auto

lemma find_method_mem:
  "distinct (map m_name (service_methods sv)) \<Longrightarrow> m \<in> set (service_methods sv) \<Longrightarrow> find_method sv (m_name m) = Some m"
proof (induction sv "m_name m" rule: find_method.induct)
  case (1 ms p)
  show ?case
  proof (cases "m \<in> set ms")
    case True
    then have "find (\<lambda>k. m_name k = m_name m) ms = Some m" using "1.prems"(1) by (intro find_distinct) auto
    then show ?thesis by simp
  next
    case False
    then obtain q where q: "p = Some q" "m \<in> set (service_methods q)" using "1.prems"(2) by (cases p) auto
    then have "find (\<lambda>k. m_name k = m_name m) ms = None"
      using "1.prems"(1) by (auto simp: find_None_iff)
    with q "1.hyps" [OF _ q(1)] "1.prems"(1) show ?thesis by simp
  qed
qed

lemma pancake_method_names: "distinct (map m_name (service_methods pancake_thrift_processor))"
  by (simp add: pancake_thrift_processor_def block_request_service_processor_def pancake_thrift_methods block_request_service_methods)

text \<open>
  A call from the generated client's point of view: the message is dispatched by the processor, and the client reads the reply, if there is one; what
  it returns, and the state of the server afterwards. A handler that ends the process leaves no reply.
\<close>

definition client_call :: "service \<Rightarrow> 's invoke \<Rightarrow> (tmsg \<Rightarrow> targ option outcome) \<Rightarrow> tmethod \<Rightarrow> tmsg \<Rightarrow> ('s, targ option) cpp" where
  "client_call sv h desync m call s =
     (case call of
        Msg_call n ow sid fs \<Rightarrow>
          (case dispatch sv h n sid fs s of
             (Inl e, t) \<Rightarrow> (Inl e, t)
           | (Inr reply, t) \<Rightarrow> (client_result m desync reply, t))
      | _ \<Rightarrow> (Inr None, s))"

text \<open>
  What the client is to get of a method: its value, or its exception as a \<^verbatim>\<open>TApplicationException\<close> with the same text; of a one-way method
  nothing at all, not even its exception.
\<close>

definition remote :: "('a \<Rightarrow> targ option) \<Rightarrow> ('s, 'a) cpp \<Rightarrow> ('s, targ option) cpp" where
  "remote f m s =
     (case m s of
        (Inr x, t) \<Rightarrow> (Inr (f x), t)
      | (Inl e, t) \<Rightarrow> (Inl (case exn_what e of None \<Rightarrow> e | Some text \<Rightarrow> Application_error text), t))"

definition posted :: "('s, unit) cpp \<Rightarrow> ('s, targ option) cpp" where
  "posted m s =
     (case m s of
        (Inr x, t) \<Rightarrow> (Inr None, t)
      | (Inl e, t) \<Rightarrow> (case exn_what e of None \<Rightarrow> (Inl e, t) | Some text \<Rightarrow> (Inr None, t)))"

lemma client_call_send:
  assumes "thrift_service sv h" "find_method sv (m_name m) = Some m" "well_typed (m_args m) vs"
  shows "client_call sv h desync m (client_send m vs) s =
    (case h (m_name m) (map canon vs) s of
       (r, t) \<Rightarrow> (if ends r then (Inl (projl r), t) else (handled m r, t)))"
proof (cases "ends (fst (h (m_name m) (map canon vs) s))")
  case False
  obtain reply where "dispatch sv h (m_name m) 0 (struct_write (m_args m) vs) s = (Inr reply, snd (h (m_name m) (map canon vs) s))"
    "client_result m desync reply = handled m (fst (h (m_name m) (map canon vs) s))"
    by (rule thrift_service.call_served [OF assms struct_write_known False, of 0 desync])
  with False show ?thesis by (auto simp: client_call_def client_send_def split: prod.split)
next
  case True
  then obtain e t where e: "h (m_name m) (map canon vs) s = (Inl e, t)" "exn_what e = None"
    by (cases "h (m_name m) (map canon vs) s") (auto simp: ends_def split: sum.splits)
  have "method_ok m" using thrift_service.methods_ok [OF assms(1,2)] by simp
  then have "struct_read (struct_write (m_args m) vs) (struct_new (m_args m)) = Inr (slots_of (m_args m) vs)"
    using assms(3) by (intro struct_roundtrip struct_write_known) (simp_all add: method_ok_def)
  with e show ?thesis
    by (simp add: client_call_def client_send_def dispatch_def process_method_def assms(2) slot_vals [OF assms(3)] ends_def)
qed

lemma pancake_call_send:
  assumes "m \<in> set (service_methods pancake_thrift_processor)" "well_typed (m_args m) vs"
  shows "client_call pancake_thrift_processor (pancake_thrift_invoke i) desync m (client_send m vs) s =
    (case pancake_thrift_invoke i (m_name m) (map canon vs) s of
       (r, t) \<Rightarrow> (if ends r then (Inl (projl r), t) else (handled m r, t)))"
  by (rule client_call_send [OF pt.thrift_service_axioms find_method_mem [OF pancake_method_names assms(1)] assms(2)])

lemma pancake_call_value:
  assumes "m \<in> set (service_methods pancake_thrift_processor)" "well_typed (m_args m) vs"
    and "pancake_thrift_invoke i (m_name m) (map canon vs) = value_result f g" "\<not> m_oneway m" "\<And>x. canon (f x) = f x"
  shows "client_call pancake_thrift_processor (pancake_thrift_invoke i) desync m (client_send m vs) = remote (\<lambda>x. Some (f x)) g"
  using assms(3-) by (auto simp: fun_eq_iff pancake_call_send [OF assms(1,2)] value_result_def cpp_simps remote_def ends_def handled_def
      split: prod.split sum.split option.split)

lemma pancake_call_void:
  assumes "m \<in> set (service_methods pancake_thrift_processor)" "well_typed (m_args m) vs"
    and "pancake_thrift_invoke i (m_name m) (map canon vs) = void_result g"
  shows "client_call pancake_thrift_processor (pancake_thrift_invoke i) desync m (client_send m vs) =
    (if m_oneway m then posted g else remote (\<lambda>_. None) g)"
  using assms(3) by (auto simp: fun_eq_iff pancake_call_send [OF assms(1,2)] void_result_def cpp_simps remote_def posted_def ends_def handled_def
      split: prod.split sum.split option.split)

lemmas pancake_client_defs =
  pancake_thriftClient_get_client_id_def
  pancake_thriftClient_register_client_id_def
  pancake_thriftClient_async_get_def
  pancake_thriftClient_async_put_def
  pancake_thriftClient_async_get_batch_def
  pancake_thriftClient_async_put_batch_def
  pancake_thriftClient_get_def
  pancake_thriftClient_put_def
  pancake_thriftClient_get_batch_def
  pancake_thriftClient_put_batch_def

lemma pancake_served:
  "client_call pancake_thrift_processor (pancake_thrift_invoke i) desync pancake_thrift_get_client_id pancake_thriftClient_get_client_id =
       remote (\<lambda>x. Some (A_I64 x)) (pt_get_client_id i)"
  "client_call pancake_thrift_processor (pancake_thrift_invoke i) desync pancake_thrift_register_client_id (pancake_thriftClient_register_client_id b cid) =
       remote (\<lambda>_. None) (pt_register_client_id i b cid)"
  "client_call pancake_thrift_processor (pancake_thrift_invoke i) desync pancake_thrift_async_get (pancake_thriftClient_async_get q k) =
       posted (pt_async_get i (canon_seq q) k)"
  "client_call pancake_thrift_processor (pancake_thrift_invoke i) desync pancake_thrift_async_put (pancake_thriftClient_async_put q k v) =
       posted (pt_async_put i (canon_seq q) k v)"
  "client_call pancake_thrift_processor (pancake_thrift_invoke i) desync pancake_thrift_async_get_batch (pancake_thriftClient_async_get_batch q ks) =
       posted (pt_async_get_batch i (canon_seq q) ks)"
  "client_call pancake_thrift_processor (pancake_thrift_invoke i) desync pancake_thrift_async_put_batch (pancake_thriftClient_async_put_batch q ks vs) =
       posted (pt_async_put_batch i (canon_seq q) ks vs)"
  "client_call pancake_thrift_processor (pancake_thrift_invoke i) desync pancake_thrift_get (pancake_thriftClient_get k) =
       remote (\<lambda>x. Some (A_String x)) (pt_get i k)"
  "client_call pancake_thrift_processor (pancake_thrift_invoke i) desync pancake_thrift_put (pancake_thriftClient_put k v) =
       remote (\<lambda>_. None) (pt_put i k v)"
  "client_call pancake_thrift_processor (pancake_thrift_invoke i) desync pancake_thrift_get_batch (pancake_thriftClient_get_batch ks) =
       remote (\<lambda>x. Some (A_Strings x)) (pt_get_batch i ks)"
  "client_call pancake_thrift_processor (pancake_thrift_invoke i) desync pancake_thrift_put_batch (pancake_thriftClient_put_batch ks vs) =
       remote (\<lambda>_. None) (pt_put_batch i ks vs)"
proof -
  note d = pancake_thrift_processor_def pancake_thrift_methods well_typed_def pancake_thrift_invoke_def
  note v = pancake_call_value [where desync = desync and i = i] and u = trans [OF pancake_call_void [where desync = desync and i = i]]
  show "client_call pancake_thrift_processor (pancake_thrift_invoke i) desync pancake_thrift_get_client_id pancake_thriftClient_get_client_id =
       remote (\<lambda>x. Some (A_I64 x)) (pt_get_client_id i)"
    unfolding pancake_client_defs by (rule v; simp add: d)
  show "client_call pancake_thrift_processor (pancake_thrift_invoke i) desync pancake_thrift_register_client_id (pancake_thriftClient_register_client_id b cid) =
       remote (\<lambda>_. None) (pt_register_client_id i b cid)"
    unfolding pancake_client_defs by (rule u; simp add: d)
  show "client_call pancake_thrift_processor (pancake_thrift_invoke i) desync pancake_thrift_async_get (pancake_thriftClient_async_get q k) =
       posted (pt_async_get i (canon_seq q) k)"
    unfolding pancake_client_defs by (rule u; simp add: d)
  show "client_call pancake_thrift_processor (pancake_thrift_invoke i) desync pancake_thrift_async_put (pancake_thriftClient_async_put q k v) =
       posted (pt_async_put i (canon_seq q) k v)"
    unfolding pancake_client_defs by (rule u; simp add: d)
  show "client_call pancake_thrift_processor (pancake_thrift_invoke i) desync pancake_thrift_async_get_batch (pancake_thriftClient_async_get_batch q ks) =
       posted (pt_async_get_batch i (canon_seq q) ks)"
    unfolding pancake_client_defs by (rule u; simp add: d)
  show "client_call pancake_thrift_processor (pancake_thrift_invoke i) desync pancake_thrift_async_put_batch (pancake_thriftClient_async_put_batch q ks vs) =
       posted (pt_async_put_batch i (canon_seq q) ks vs)"
    unfolding pancake_client_defs by (rule u; simp add: d)
  show "client_call pancake_thrift_processor (pancake_thrift_invoke i) desync pancake_thrift_get (pancake_thriftClient_get k) =
       remote (\<lambda>x. Some (A_String x)) (pt_get i k)"
    unfolding pancake_client_defs by (rule v; simp add: d)
  show "client_call pancake_thrift_processor (pancake_thrift_invoke i) desync pancake_thrift_put (pancake_thriftClient_put k v) =
       remote (\<lambda>_. None) (pt_put i k v)"
    unfolding pancake_client_defs by (rule u; simp add: d)
  show "client_call pancake_thrift_processor (pancake_thrift_invoke i) desync pancake_thrift_get_batch (pancake_thriftClient_get_batch ks) =
       remote (\<lambda>x. Some (A_Strings x)) (pt_get_batch i ks)"
    unfolding pancake_client_defs by (rule v; simp add: d)
  show "client_call pancake_thrift_processor (pancake_thrift_invoke i) desync pancake_thrift_put_batch (pancake_thriftClient_put_batch ks vs) =
       remote (\<lambda>_. None) (pt_put_batch i ks vs)"
    unfolding pancake_client_defs by (rule u; simp add: d)
qed

text \<open>
  C20. Calls of the clients reach the workers. For each of the ten methods of the service that clients use, any arguments and any handler, a call
  of the generated client, dispatched by the processor, calls this method of the handler with the arguments of the client in their
  places (a sequence number without the optional members that are not set) and leaves the server as the method does. The client gets the
  value of the method, or its exception as a \<^verbatim>\<open>TApplicationException\<close> with the same text; after a one-way call nothing is sent back, not even
  an exception.
\<close>

theorem client_calls_served:
  "client_call pancake_thrift_processor (pancake_thrift_invoke i) desync pancake_thrift_get_client_id pancake_thriftClient_get_client_id =
       remote (\<lambda>x. Some (A_I64 x)) (pt_get_client_id i) \<and>
   client_call pancake_thrift_processor (pancake_thrift_invoke i) desync pancake_thrift_register_client_id (pancake_thriftClient_register_client_id b cid) =
       remote (\<lambda>_. None) (pt_register_client_id i b cid) \<and>
   client_call pancake_thrift_processor (pancake_thrift_invoke i) desync pancake_thrift_async_get (pancake_thriftClient_async_get q k) =
       posted (pt_async_get i (canon_seq q) k) \<and>
   client_call pancake_thrift_processor (pancake_thrift_invoke i) desync pancake_thrift_async_put (pancake_thriftClient_async_put q k v) =
       posted (pt_async_put i (canon_seq q) k v) \<and>
   client_call pancake_thrift_processor (pancake_thrift_invoke i) desync pancake_thrift_async_get_batch (pancake_thriftClient_async_get_batch q ks) =
       posted (pt_async_get_batch i (canon_seq q) ks) \<and>
   client_call pancake_thrift_processor (pancake_thrift_invoke i) desync pancake_thrift_async_put_batch (pancake_thriftClient_async_put_batch q ks vs) =
       posted (pt_async_put_batch i (canon_seq q) ks vs) \<and>
   client_call pancake_thrift_processor (pancake_thrift_invoke i) desync pancake_thrift_get (pancake_thriftClient_get k) =
       remote (\<lambda>x. Some (A_String x)) (pt_get i k) \<and>
   client_call pancake_thrift_processor (pancake_thrift_invoke i) desync pancake_thrift_put (pancake_thriftClient_put k v) =
       remote (\<lambda>_. None) (pt_put i k v) \<and>
   client_call pancake_thrift_processor (pancake_thrift_invoke i) desync pancake_thrift_get_batch (pancake_thriftClient_get_batch ks) =
       remote (\<lambda>x. Some (A_Strings x)) (pt_get_batch i ks) \<and>
   client_call pancake_thrift_processor (pancake_thrift_invoke i) desync pancake_thrift_put_batch (pancake_thriftClient_put_batch ks vs) =
       remote (\<lambda>_. None) (pt_put_batch i ks vs)"
  by (simp only: pancake_served simp_thms)

text \<open>The call of \<^verbatim>\<open>proxy_manager\<close> as a message; roles are sent as their numbers.\<close>

fun mg_msg :: "mg_call \<Rightarrow> tmsg" where
  "mg_msg (Setup_chain b path chn rl nxt) = block_request_serviceClient_setup_chain b path chn (role_number rl) nxt"
| "mg_msg (Fetch_seq b) = block_request_serviceClient_fetch_seq b"
| "mg_msg (Resend_pending b k) = block_request_serviceClient_resend_pending b k"
| "mg_msg (Update_connections t col h p n) = block_request_serviceClient_update_connections t col h p n"
| "mg_msg (External_ack seq) = block_request_serviceClient_external_ack seq"
| "mg_msg (Selective_resend col n) = l2proxyClient_selective_resend_pending col n"

definition msg_effect :: "service \<Rightarrow> 's invoke \<Rightarrow> tmsg \<Rightarrow> 's \<Rightarrow> 's" where
  "msg_effect sv h call s = (case call of Msg_call n ow sid fs \<Rightarrow> snd (dispatch sv h n sid fs s) | _ \<Rightarrow> s)"

lemma msg_effect_send:
  assumes "find_method sv (m_name m) = Some m" "method_ok m" "well_typed (m_args m) vs"
  shows "msg_effect sv h (client_send m vs) s = snd (h (m_name m) (map canon vs) s)"
proof -
  have "struct_read (struct_write (m_args m) vs) (struct_new (m_args m)) = Inr (slots_of (m_args m) vs)"
    using assms(2,3) by (intro struct_roundtrip struct_write_known) (simp_all add: method_ok_def)
  then show ?thesis
    by (simp add: msg_effect_def client_send_def dispatch_def process_method_def assms(1) slot_vals [OF assms(3)]
        split: prod.split sum.split option.split)
qed

lemmas client_defs =
  block_request_serviceClient_setup_chain_def block_request_serviceClient_fetch_seq_def block_request_serviceClient_resend_pending_def
  block_request_serviceClient_update_connections_def block_request_serviceClient_external_ack_def
  l2proxyClient_selective_resend_pending_def

lemma l2proxy_method_names: "distinct (map m_name (service_methods l2proxy_processor))"
  by (simp add: l2proxy_processor_def block_request_service_processor_def l2proxy_methods block_request_service_methods)

lemma inherited_methods:
  assumes "m \<in> set (service_methods block_request_service_processor)"
  shows "find_method pancake_thrift_processor (m_name m) = Some m" "find_method l2proxy_processor (m_name m) = Some m" "method_ok m"
proof -
  have "m \<in> set (service_methods pancake_thrift_processor)" "m \<in> set (service_methods l2proxy_processor)"
    using assms by (simp_all add: pancake_thrift_processor_def l2proxy_processor_def)
  then show "find_method pancake_thrift_processor (m_name m) = Some m" "find_method l2proxy_processor (m_name m) = Some m"
    by (simp_all add: find_method_mem pancake_method_names l2proxy_method_names)
  show "method_ok m" using assms block_request_ok by (simp add: list_all_iff)
qed

lemma snd_void [simp]: "snd (void_result m s) = snd (m s)"
  by (simp add: void_result_def cpp_simps split: prod.split sum.split)

lemma snd_value [simp]: "snd (value_result f m s) = snd (m s)"
  by (simp add: value_result_def cpp_simps split: prod.split sum.split)

lemma inherited_effect:
  assumes "m \<in> set (service_methods block_request_service_processor)" "well_typed (m_args m) vs"
  shows "msg_effect pancake_thrift_processor (pancake_thrift_invoke i) (client_send m vs) s = snd (block_request_service_invoke i (m_name m) (map canon vs) s)"
    and "msg_effect l2proxy_processor (l2proxy_invoke j) (client_send m vs) t = snd (block_request_service_invoke j (m_name m) (map canon vs) t)"
proof -
  note mm = inherited_methods [OF assms(1)]
  have "pancake_thrift_invoke i (m_name m) = block_request_service_invoke i (m_name m)"
    "l2proxy_invoke j (m_name m) = block_request_service_invoke j (m_name m)"
    using assms(1)
    by (auto simp: fun_eq_iff block_request_service_processor_def block_request_service_methods pancake_thrift_invoke_def l2proxy_invoke_def)
  then show "msg_effect pancake_thrift_processor (pancake_thrift_invoke i) (client_send m vs) s = snd (block_request_service_invoke i (m_name m) (map canon vs) s)"
    and "msg_effect l2proxy_processor (l2proxy_invoke j) (client_send m vs) t = snd (block_request_service_invoke j (m_name m) (map canon vs) t)"
    by (simp_all add: msg_effect_send [OF mm(1,3) assms(2)] msg_effect_send [OF mm(2,3) assms(2)])
qed

text \<open>The numbers that the manager sends have no optional members.\<close>

fun plain_call :: "mg_call \<Rightarrow> bool" where
  "plain_call (External_ack seq) \<longleftrightarrow> canon_seq seq = seq"
| "plain_call _ \<longleftrightarrow> True"

lemma no_selective_resend: "find_method pancake_thrift_processor (m_name l2proxy_selective_resend_pending) = None"
  by (simp add: pancake_thrift_processor_def block_request_service_processor_def pancake_thrift_methods block_request_service_methods
      l2proxy_methods)

lemma selective_resend_effect:
  "msg_effect pancake_thrift_processor h (mg_msg (Selective_resend col n)) s = s"
  "msg_effect l2proxy_processor (l2proxy_invoke j) (mg_msg (Selective_resend col n)) t = snd (l2i_selective_resend_pending j col n t)"
proof -
  show "msg_effect pancake_thrift_processor h (mg_msg (Selective_resend col n)) s = s"
    using no_selective_resend by (simp add: msg_effect_def l2proxyClient_selective_resend_pending_def client_send_def dispatch_def)
  have "l2proxy_selective_resend_pending \<in> set (service_methods l2proxy_processor)" by (simp add: l2proxy_processor_def)
  then have f: "find_method l2proxy_processor (m_name l2proxy_selective_resend_pending) = Some l2proxy_selective_resend_pending"
    by (rule find_method_mem [OF l2proxy_method_names])
  have "method_ok l2proxy_selective_resend_pending" "well_typed (m_args l2proxy_selective_resend_pending) [A_I32 col, A_I32 n]"
    by (simp_all add: method_ok_def l2proxy_methods well_typed_def)
  from msg_effect_send [OF f this, of "l2proxy_invoke j" t]
  show "msg_effect l2proxy_processor (l2proxy_invoke j) (mg_msg (Selective_resend col n)) t = snd (l2i_selective_resend_pending j col n t)"
    by (simp add: l2proxyClient_selective_resend_pending_def) (simp add: l2proxy_methods l2proxy_invoke_def)
qed

lemma manager_call_effect:
  assumes "plain_call c" "\<And>col n. c \<noteq> Selective_resend col n"
  obtains m vs where "mg_msg c = client_send m vs" "m \<in> set (service_methods block_request_service_processor)" "well_typed (m_args m) vs"
    "snd (block_request_service_invoke (l1_handler_if e iter) (m_name m) (map canon vs) s) = snd (l1_serve e iter c s)"
    "snd (block_request_service_invoke (l2_handler_if e iter) (m_name m) (map canon vs) t) = snd (l2_serve e iter c t)"
proof (cases c)
  case (Setup_chain b path chn rl nxt)
  show thesis
    by (rule that [of block_request_service_setup_chain "[A_I32 b, A_String path, A_Strings chn, A_I32 (role_number rl), A_String nxt]"])
      (simp_all add: Setup_chain client_defs block_request_service_processor_def well_typed_def block_request_service_methods
        block_request_service_invoke_def l1_handler_if_def l2_handler_if_def)
next
  case (Fetch_seq b)
  show thesis
    by (rule that [of block_request_service_fetch_seq "[A_I32 b]"])
      (simp_all add: Fetch_seq client_defs block_request_service_processor_def well_typed_def block_request_service_methods
        block_request_service_invoke_def l1_handler_if_def l2_handler_if_def bnd_apply ret_apply split: prod.split sum.split)
next
  case (Resend_pending b k)
  show thesis
    by (rule that [of block_request_service_resend_pending "[A_I32 b, A_I64 k]"])
      (simp_all add: Resend_pending client_defs block_request_service_processor_def well_typed_def block_request_service_methods
        block_request_service_invoke_def l1_handler_if_def l2_handler_if_def)
next
  case (Update_connections ty col h p n)
  show thesis
    by (rule that [of block_request_service_update_connections "[A_I32 ty, A_I32 col, A_String h, A_I32 p, A_I32 n]"])
      (simp_all add: Update_connections client_defs block_request_service_processor_def well_typed_def block_request_service_methods
        block_request_service_invoke_def l1_handler_if_def l2_handler_if_def)
next
  case (External_ack seq)
  then have "canon_seq seq = seq" using assms(1) by simp
  then show thesis
    by (intro that [of block_request_service_external_ack "[A_Seq seq]"])
      (simp_all add: External_ack client_defs block_request_service_processor_def well_typed_def block_request_service_methods
        block_request_service_invoke_def l1_handler_if_def l2_handler_if_def)
qed (use assms(2) in simp)

lemma manager_calls_served:
  assumes "plain_call c"
  shows "msg_effect pancake_thrift_processor (pancake_thrift_invoke (l1_handler_if e iter)) (mg_msg c) s = snd (l1_serve e iter c s) \<and>
         msg_effect l2proxy_processor (l2proxy_invoke (l2_handler_if e iter)) (mg_msg c) t = snd (l2_serve e iter c t)"
proof (cases "\<exists>col n. c = Selective_resend col n")
  case True
  then show ?thesis by (auto simp: selective_resend_effect throw_apply l2_handler_if_def simp del: mg_msg.simps)
next
  case False
  then obtain m vs where "mg_msg c = client_send m vs" "m \<in> set (service_methods block_request_service_processor)" "well_typed (m_args m) vs"
    "snd (block_request_service_invoke (l1_handler_if e iter) (m_name m) (map canon vs) s) = snd (l1_serve e iter c s)"
    "snd (block_request_service_invoke (l2_handler_if e iter) (m_name m) (map canon vs) t) = snd (l2_serve e iter c t)"
    using manager_call_effect [OF assms, of e iter s t] by blast
  then show ?thesis by (simp add: inherited_effect)
qed

text \<open>The calls between the layers and between the replicas of a chain.\<close>

lemma l3proxy_method_names: "distinct (map m_name (service_methods l3proxy_processor))"
  by (simp add: l3proxy_processor_def block_request_service_processor_def l3proxy_methods block_request_service_methods)

lemma l2request_served:
  "msg_effect l2proxy_processor (l2proxy_invoke (l2_handler_if e iter)) (l2proxyClient_l2request seq k rep v) t =
     snd (l2h_l2request e (canon_seq seq) k rep v t)"
proof -
  have "l2proxy_l2request \<in> set (service_methods l2proxy_processor)" by (simp add: l2proxy_processor_def)
  then have f: "find_method l2proxy_processor (m_name l2proxy_l2request) = Some l2proxy_l2request"
    by (rule find_method_mem [OF l2proxy_method_names])
  have "method_ok l2proxy_l2request" "well_typed (m_args l2proxy_l2request) [A_Seq seq, A_String k, A_I32 rep, A_String v]"
    by (simp_all add: method_ok_def l2proxy_methods well_typed_def)
  from msg_effect_send [OF f this, of "l2proxy_invoke (l2_handler_if e iter)" t] show ?thesis
    by (simp add: l2proxyClient_l2request_def) (simp add: l2proxy_methods l2proxy_invoke_def l2_handler_if_def)
qed

lemma l3request_served:
  "msg_effect l3proxy_processor (l3proxy_invoke (l3_handler_if e)) (l3proxyClient_l3request seq label v is_read dedup) u =
     snd (l3h_l3request e (canon_seq seq) label v is_read dedup u)"
proof -
  have "l3proxy_l3request \<in> set (service_methods l3proxy_processor)" by (simp add: l3proxy_processor_def)
  then have f: "find_method l3proxy_processor (m_name l3proxy_l3request) = Some l3proxy_l3request"
    by (rule find_method_mem [OF l3proxy_method_names])
  have "method_ok l3proxy_l3request" "well_typed (m_args l3proxy_l3request) [A_Seq seq, A_String label, A_String v, A_Bool is_read, A_Bool dedup]"
    by (simp_all add: method_ok_def l3proxy_methods well_typed_def)
  from msg_effect_send [OF f this, of "l3proxy_invoke (l3_handler_if e)" u] show ?thesis
    by (simp add: l3proxyClient_l3request_def) (simp add: l3proxy_methods l3proxy_invoke_def l3_handler_if_def)
qed

lemma chain_request_served:
  "msg_effect pancake_thrift_processor (pancake_thrift_invoke (l1_handler_if e iter)) (block_request_serviceClient_chain_request seq b args) s =
     snd (l1h_chain_request e (canon_seq seq) b args s)"
  "msg_effect l2proxy_processor (l2proxy_invoke (l2_handler_if e iter)) (block_request_serviceClient_chain_request seq b args) t =
     snd (l2h_chain_request e (canon_seq seq) b args t)"
proof -
  have m: "block_request_service_chain_request \<in> set (service_methods block_request_service_processor)"
    "well_typed (m_args block_request_service_chain_request) [A_Seq seq, A_I32 b, A_Strings args]"
    by (simp add: block_request_service_processor_def, simp add: well_typed_def block_request_service_methods)
  show "msg_effect pancake_thrift_processor (pancake_thrift_invoke (l1_handler_if e iter)) (block_request_serviceClient_chain_request seq b args) s =
     snd (l1h_chain_request e (canon_seq seq) b args s)"
    "msg_effect l2proxy_processor (l2proxy_invoke (l2_handler_if e iter)) (block_request_serviceClient_chain_request seq b args) t =
     snd (l2h_chain_request e (canon_seq seq) b args t)"
    unfolding block_request_serviceClient_chain_request_def inherited_effect [OF m]
    by (simp_all add: block_request_service_methods block_request_service_invoke_def l1_handler_if_def l2_handler_if_def)
qed

lemma external_ack_batch_served:
  "msg_effect pancake_thrift_processor (pancake_thrift_invoke (l1_handler_if e iter)) (block_request_serviceClient_external_ack_batch seqs) s =
     snd (l1h_external_ack_batch e (map canon_seq seqs) s)"
  "msg_effect l2proxy_processor (l2proxy_invoke (l2_handler_if e iter)) (block_request_serviceClient_external_ack_batch seqs) t =
     snd (l2h_external_ack_batch e (map canon_seq seqs) t)"
proof -
  have m: "block_request_service_external_ack_batch \<in> set (service_methods block_request_service_processor)"
    "well_typed (m_args block_request_service_external_ack_batch) [A_Seqs seqs]"
    by (simp add: block_request_service_processor_def, simp add: well_typed_def block_request_service_methods)
  show "msg_effect pancake_thrift_processor (pancake_thrift_invoke (l1_handler_if e iter)) (block_request_serviceClient_external_ack_batch seqs) s =
     snd (l1h_external_ack_batch e (map canon_seq seqs) s)"
    "msg_effect l2proxy_processor (l2proxy_invoke (l2_handler_if e iter)) (block_request_serviceClient_external_ack_batch seqs) t =
     snd (l2h_external_ack_batch e (map canon_seq seqs) t)"
    unfolding block_request_serviceClient_external_ack_batch_def inherited_effect [OF m]
    by (simp_all add: block_request_service_methods block_request_service_invoke_def l1_handler_if_def l2_handler_if_def)
qed

text \<open>
  C5. What the servers send each other is what they do: every call that the manager makes, the requests from the first to the second and from the
  second to the third layer, the requests along a chain and the acknowledgements back to the layer above, sent by the
  generated client and dispatched by the processor of the worker, leave the worker as the method of its handler does when it is called
  directly with the same arguments. A call of the manager that the service does not have is refused and changes nothing.
\<close>

theorem server_calls_served:
  assumes "plain_call c"
  shows "msg_effect pancake_thrift_processor (pancake_thrift_invoke (l1_handler_if e iter)) (mg_msg c) s = snd (l1_serve e iter c s) \<and>
    msg_effect l2proxy_processor (l2proxy_invoke (l2_handler_if e iter)) (mg_msg c) t = snd (l2_serve e iter c t) \<and>
    msg_effect l2proxy_processor (l2proxy_invoke (l2_handler_if e iter)) (l2proxyClient_l2request seq k rep v) t =
      snd (l2h_l2request e (canon_seq seq) k rep v t) \<and>
    msg_effect l3proxy_processor (l3proxy_invoke (l3_handler_if e)) (l3proxyClient_l3request seq label v is_read dedup) u =
      snd (l3h_l3request e (canon_seq seq) label v is_read dedup u) \<and>
    msg_effect pancake_thrift_processor (pancake_thrift_invoke (l1_handler_if e iter)) (block_request_serviceClient_chain_request seq b args) s =
      snd (l1h_chain_request e (canon_seq seq) b args s) \<and>
    msg_effect l2proxy_processor (l2proxy_invoke (l2_handler_if e iter)) (block_request_serviceClient_chain_request seq b args) t =
      snd (l2h_chain_request e (canon_seq seq) b args t) \<and>
    msg_effect pancake_thrift_processor (pancake_thrift_invoke (l1_handler_if e iter)) (block_request_serviceClient_external_ack_batch seqs) s =
      snd (l1h_external_ack_batch e (map canon_seq seqs) s) \<and>
    msg_effect l2proxy_processor (l2proxy_invoke (l2_handler_if e iter)) (block_request_serviceClient_external_ack_batch seqs) t =
      snd (l2h_external_ack_batch e (map canon_seq seqs) t)"
  using manager_calls_served [OF assms, of e iter s t]
  by (simp add: l2request_served l3request_served chain_request_served external_ack_batch_served)

section \<open>Witnesses\<close>

theorem server_calls_served_witness:
  "msg_effect l2proxy_processor (l2proxy_invoke (l2_handler_if example_env id)) (mg_msg (External_ack crash_seq)) (handler_new example_l2p [] 0 4 []) =
     snd (l2_serve example_env id (External_ack crash_seq) (handler_new example_l2p [] 0 4 []))"
proof -
  have "plain_call (External_ack crash_seq)" by (simp add: crash_seq_def canon_seq_def sequence_id_new_def)
  from server_calls_served [OF this] show ?thesis by blast
qed

end
