(* ===== verification/Client.thy ===== *)
theory Client
  imports Services
begin

text \<open>
  libclient/src: the clients of the store. \<^verbatim>\<open>shortstack_client\<close> sends each request to a random worker at the head of an L1 chain and
  reads the responses from its connections to all L3 workers, one thread per connection; \<^verbatim>\<open>pancake_client\<close> does the same against
  the single-layer proxies; \<^verbatim>\<open>async_proxy_client\<close> keeps a bounded number of requests in flight on one connection, and
  \<^verbatim>\<open>proxy_client\<close> waits for each reply. \<^verbatim>\<open>command_response_reader\<close> reads one response message.

  A connection is the list of the messages sent on it (Rpc). The environment says which servers can be reached: opening or writing a connection to another one
  throws. What a thread reads is an event: a message, or the text of a transport exception.
\<close>

section \<open>Reading a response\<close>

datatype net_event = N_msg tmsg | N_error string

text \<open>
  \<^verbatim>\<open>recv_response\<close>: the number of the request and the new \<^verbatim>\<open>out\<close>. The name of the message is not looked at; when the number or the result is
  missing, the function ends without a return statement.
\<close>

definition response_args :: "slot list \<Rightarrow> (sequence_id \<times> string list) option" where
  "response_args sls =
     (case sls of
        [a, b, c] \<Rightarrow>
          (case (slot_val a, slot_val c) of
             (A_Seq seq, A_Strings res) \<Rightarrow> if slot_set a \<and> slot_set c then Some (seq, res) else None
           | _ \<Rightarrow> None)
      | _ \<Rightarrow> None)"

definition read_response :: "tfield list \<Rightarrow> (int \<times> string list) outcome" where
  "read_response fs =
     bind_out (struct_read fs (struct_new pancake_thrift_response_async_response_args)) (\<lambda>sls.
       case response_args sls of
         None \<Rightarrow> Inl (Undefined_behaviour ''no return'')
       | Some (seq, res) \<Rightarrow> Inr (client_seq_no seq, if isset_diag seq then res @ [diag seq] else res))"

fun recv_response :: "net_event \<Rightarrow> (int \<times> string list) outcome" where
  "recv_response (N_error what) = Inl (Transport_error what)"
| "recv_response (N_msg (Msg_exception n sid what)) = Inl (Application_error what)"
| "recv_response (N_msg (Msg_call n ow sid fs)) = read_response fs"
| "recv_response (N_msg (Msg_reply n sid fs)) = read_response fs"

section \<open>shortstack\_client\<close>

record l3_response =
  lr_sequence_num :: int
  lr_value :: string
  lr_diag :: string

record shortstack_client =
  sc_client_id :: int
  sc_l1_clients :: "tmsg rpc_client list"
  sc_l3_clients :: "tmsg rpc_client list"
  sc_sequence_num :: int
  sc_readers :: nat
  sc_response_queue :: "l3_response work_queue"
  sc_done :: bool
  sc_tick :: nat

definition shortstack_client_new :: shortstack_client where
  "shortstack_client_new =
     \<lparr>sc_client_id = 0, sc_l1_clients = [], sc_l3_clients = [], sc_sequence_num = 0, sc_readers = 0, sc_response_queue = wq_new,
      sc_done = False, sc_tick = 0\<rparr>"

definition sc_open_l1 :: "env \<Rightarrow> host \<Rightarrow> nat \<Rightarrow> ('a shortstack_client_scheme, unit) cpp" where
  "sc_open_l1 e h j =
     bnd (lift_out (open_worker (env_up e) (hostname h) (port h) j)) (\<lambda>c. modify (\<lambda>s. s\<lparr>sc_l1_clients := sc_l1_clients s @ [c]\<rparr>))"

text \<open>A worker of the third layer that cannot be reached is left out.\<close>

definition sc_open_l3 :: "env \<Rightarrow> host \<Rightarrow> nat \<Rightarrow> ('a shortstack_client_scheme, unit) cpp" where
  "sc_open_l3 e h j =
     (case open_worker (env_up e) (hostname h) (port h) j of
        Inl _ \<Rightarrow> ret ()
      | Inr c \<Rightarrow> modify (\<lambda>s. s\<lparr>sc_l3_clients := sc_l3_clients s @ [c]\<rparr>))"

text \<open>A call on connection \<open>i\<close>.\<close>

definition conn_call :: "env \<Rightarrow> nat \<Rightarrow> tmsg \<Rightarrow> tmsg rpc_client list \<Rightarrow> tmsg rpc_client list outcome" where
  "conn_call e i mes cs =
     (if \<not> i < length cs then Inl (Undefined_behaviour ''vector index'')
      else if \<not> env_up e (cl_host (cs ! i)) (cl_port (cs ! i)) then Inl (Transport_error ''write'')
      else Inr (cs[i := (cs ! i)\<lparr>cl_sent := cl_sent (cs ! i) @ [mes]\<rparr>]))"

definition sc_register :: "env \<Rightarrow> nat \<Rightarrow> ('a shortstack_client_scheme, unit) cpp" where
  "sc_register e i =
     bnd (gets (\<lambda>s. conn_call e i (l3proxyClient_register_client_id (sc_client_id s)) (sc_l3_clients s))) (\<lambda>r.
     bnd (lift_out r) (\<lambda>cs. modify (\<lambda>s. s\<lparr>sc_l3_clients := cs\<rparr>)))"

definition sc_init :: "env \<Rightarrow> int \<Rightarrow> host list \<Rightarrow> (shortstack_client, unit) cpp" where
  "sc_init e cid hs =
     seqM (modify (\<lambda>s. s\<lparr>sc_client_id := cid, sc_done := False\<rparr>))
     (seqM (for_each (filter (\<lambda>h. row h = 0) (get_hosts_by_type hs HOST_TYPE_L1)) (\<lambda>h. for_each [0..<nat (num_workers h)] (sc_open_l1 e h)))
     (seqM (for_each (get_hosts_by_type hs HOST_TYPE_L3) (\<lambda>h. for_each [0..<nat (num_workers h)] (sc_open_l3 e h)))
     (bnd (gets (\<lambda>s. length (sc_l3_clients s))) (\<lambda>n.
      seqM (for_each [0..<n] (sc_register e))
        (modify (\<lambda>s. s\<lparr>sc_response_queue := wq_new, sc_readers := sc_readers s + n\<rparr>))))))"

definition sc_get_client_id :: "shortstack_client \<Rightarrow> int" where
  "sc_get_client_id s = sc_client_id s"

text \<open>
  \<^verbatim>\<open>get\<close> and \<^verbatim>\<open>put\<close> up to the call: the index of the worker is a 32-bit draw modulo the number of connections, the number of the request is used up
  before the call is made.
\<close>

definition sc_send :: "env \<Rightarrow> (sequence_id \<Rightarrow> tmsg) \<Rightarrow> ('a shortstack_client_scheme, int) cpp" where
  "sc_send e mk s =
     (if sc_l1_clients s = [] then (Inl (Undefined_behaviour ''modulo by zero''), s)
      else
        (let idx = unat (rand_uint32 0 (2 ^ 31 - 1) (env_rand e (sc_tick s))) mod length (sc_l1_clients s);
             k = sc_sequence_num s;
             seq = sequence_id_new\<lparr>client_id := sc_client_id s, client_seq_no := k\<rparr>;
             s' = s\<lparr>sc_tick := sc_tick s + 1, sc_sequence_num := k + 1\<rparr>
         in if k = 2 ^ 63 - 1 then (Inl (Undefined_behaviour ''signed overflow''), s)
            else case conn_call e idx (mk seq) (sc_l1_clients s) of
              Inl x \<Rightarrow> (Inl x, s')
            | Inr cs \<Rightarrow> (Inr k, s'\<lparr>sc_l1_clients := cs\<rparr>)))"

definition sc_get :: "env \<Rightarrow> string \<Rightarrow> ('a shortstack_client_scheme, int) cpp" where
  "sc_get e k = sc_send e (\<lambda>seq. pancake_thriftClient_async_get seq k)"

definition sc_put :: "env \<Rightarrow> string \<Rightarrow> string \<Rightarrow> ('a shortstack_client_scheme, int) cpp" where
  "sc_put e k v = sc_send e (\<lambda>seq. pancake_thriftClient_async_put seq k v)"

text \<open>\<^verbatim>\<open>poll_responses\<close> waits while the queue is empty (\<open>None\<close>): number, value, diagnostics.\<close>

definition sc_poll_responses :: "'a shortstack_client_scheme \<Rightarrow> ((int \<times> string \<times> string) \<times> 'a shortstack_client_scheme) option" where
  "sc_poll_responses s =
     (case wq_pop (sc_response_queue s) of
        None \<Rightarrow> None
      | Some (r, q) \<Rightarrow> Some ((lr_sequence_num r, lr_value r, lr_diag r), s\<lparr>sc_response_queue := q\<rparr>))"

text \<open>\<^verbatim>\<open>finish\<close>, up to the joins.\<close>

definition sc_finish :: "'a shortstack_client_scheme \<Rightarrow> 'a shortstack_client_scheme" where
  "sc_finish s = s\<lparr>sc_done := True\<rparr>"

definition response_of :: "int \<Rightarrow> string list \<Rightarrow> l3_response outcome" where
  "response_of k out =
     bind_out (vec_at out 0) (\<lambda>v.
       Inr \<lparr>lr_sequence_num = k, lr_value = v, lr_diag = (if length out \<ge> 2 then out ! 1 else [])\<rparr>)"

text \<open>
  One turn of \<^verbatim>\<open>response_thread\<close>; the result says whether the loop goes on. An exception other than a
  \<^verbatim>\<open>TTransportException\<close> leaves the thread, which ends the process.
\<close>

definition sc_response_step :: "net_event \<Rightarrow> (shortstack_client, bool) cpp" where
  "sc_response_step ev =
     bnd (gets sc_done) (\<lambda>d.
       if d then ret False
       else
         (case recv_response ev of
            Inl (Transport_error what) \<Rightarrow>
              (if what = ''THRIFT_EAGAIN (timed out)'' then ret True
               else if what = ''No more data to read.'' then ret False
               else ret True)
          | Inl (Undefined_behaviour w) \<Rightarrow> throw (Undefined_behaviour w)
          | Inl _ \<Rightarrow> throw Process_exit
          | Inr (k, out) \<Rightarrow>
              bnd (lift_out (response_of k out)) (\<lambda>r.
                seqM (modify (\<lambda>s. s\<lparr>sc_response_queue := wq_push r (sc_response_queue s)\<rparr>)) (ret True))))"

text \<open>The thread on the events that its connection yields: it is done (\<open>True\<close>), or waits for the next event.\<close>

fun sc_response_thread :: "net_event list \<Rightarrow> (shortstack_client, bool) cpp" where
  "sc_response_thread [] = ret False"
| "sc_response_thread (ev # evs) = bnd (sc_response_step ev) (\<lambda>go. if go then sc_response_thread evs else ret True)"

section \<open>pancake\_client\<close>

text \<open>
  The members and most functions are those of \<^verbatim>\<open>shortstack_client\<close>, of which the record is an extension; the connections named after the third layer
  go to the same proxies as the requests, and the extra connections for flushing are opened but not used: \<^verbatim>\<open>flush_thread\<close> only sleeps.
\<close>

record pancake_client = shortstack_client +
  pk_flush_clients :: "tmsg rpc_client list"
  pk_num_servers :: int
  pk_num_workers :: int

definition pancake_client_new :: pancake_client where
  "pancake_client_new =
     \<lparr>sc_client_id = 0, sc_l1_clients = [], sc_l3_clients = [], sc_sequence_num = 0, sc_readers = 0, sc_response_queue = wq_new,
      sc_done = False, sc_tick = 0, pk_flush_clients = [], pk_num_servers = 0, pk_num_workers = 0\<rparr>"

definition pk_open_flush :: "env \<Rightarrow> host \<Rightarrow> nat \<Rightarrow> (pancake_client, unit) cpp" where
  "pk_open_flush e h j =
     bnd (lift_out (open_worker (env_up e) (hostname h) (port h) j)) (\<lambda>c. modify (\<lambda>s. s\<lparr>pk_flush_clients := pk_flush_clients s @ [c]\<rparr>))"

definition pk_register :: "env \<Rightarrow> nat \<Rightarrow> (pancake_client, unit) cpp" where
  "pk_register e i =
     bnd (gets (\<lambda>s. conn_call e i (pancake_thriftClient_register_client_id 0 (sc_client_id s)) (sc_l3_clients s))) (\<lambda>r.
     bnd (lift_out r) (\<lambda>cs. modify (\<lambda>s. s\<lparr>sc_l3_clients := cs\<rparr>)))"

definition pk_init :: "env \<Rightarrow> int \<Rightarrow> host list \<Rightarrow> (pancake_client, unit) cpp" where
  "pk_init e cid hs =
     (let heads = filter (\<lambda>h. row h = 0) (get_hosts_by_type hs HOST_TYPE_L1) in
      seqM (modify (\<lambda>s. s\<lparr>sc_client_id := cid, sc_done := False,
              pk_num_workers := (if heads = [] then pk_num_workers s else num_workers (last heads)), pk_num_servers := int (length heads)\<rparr>))
      (seqM (for_each heads (\<lambda>h. for_each [0..<nat (num_workers h)] (sc_open_l1 e h)))
      (seqM (for_each heads (\<lambda>h. for_each [0..<nat (num_workers h)] (pk_open_flush e h)))
      (seqM (for_each heads (\<lambda>h. for_each [0..<nat (num_workers h)] (sc_open_l3 e h)))
      (bnd (gets (\<lambda>s. length (sc_l3_clients s))) (\<lambda>n.
       seqM (for_each [0..<n] (pk_register e))
         (modify (\<lambda>s. s\<lparr>sc_response_queue := wq_new, sc_readers := sc_readers s + n\<rparr>))))))))"

definition pk_response_step :: "net_event \<Rightarrow> (pancake_client, bool) cpp" where
  "pk_response_step ev =
     bnd (gets sc_done) (\<lambda>d.
       if d then ret False
       else
         (case recv_response ev of
            Inl (Transport_error what) \<Rightarrow> ret True
          | Inl (Undefined_behaviour w) \<Rightarrow> throw (Undefined_behaviour w)
          | Inl _ \<Rightarrow> throw Process_exit
          | Inr (k, out) \<Rightarrow>
              bnd (lift_out (response_of k out)) (\<lambda>r.
                seqM (modify (\<lambda>s. s\<lparr>sc_response_queue := wq_push r (sc_response_queue s)\<rparr>)) (ret True))))"

fun pk_response_thread :: "net_event list \<Rightarrow> (pancake_client, bool) cpp" where
  "pk_response_thread [] = ret False"
| "pk_response_thread (ev # evs) = bnd (pk_response_step ev) (\<lambda>go. if go then pk_response_thread evs else ret True)"

definition pk_flush_step :: "pancake_client \<Rightarrow> pancake_client" where
  "pk_flush_step s = s"

section \<open>async\_proxy\_client\<close>

datatype request_kind = GET | PUT | GET_BATCH | PUT_BATCH

record async_proxy_client =
  ap_client :: "tmsg rpc_client"
  ap_requests :: "request_kind work_queue"
  ap_total :: int
  ap_done :: bool
  ap_sequence_num :: int
  ap_client_id :: int
  ap_seq_id :: sequence_id
  ap_in_flight_limit :: int

text \<open>
  \<^verbatim>\<open>int\<close> variables keep the low 32 bits of a 64-bit number. \<open>reply\<close> is the number that the proxy's \<^verbatim>\<open>get_client_id\<close> returns; it is registered for the
  connection as it is, and kept as an \<^verbatim>\<open>int\<close>.
\<close>

definition int32_wrap :: "int \<Rightarrow> int" where
  "int32_wrap i = (i + 2 ^ 31) mod 2 ^ 32 - 2 ^ 31"

definition ap_init :: "env \<Rightarrow> string \<Rightarrow> int \<Rightarrow> int \<Rightarrow> async_proxy_client outcome" where
  "ap_init e h p reply =
     bind_out (open_worker (env_up e) h p 0) (\<lambda>c.
       Inr \<lparr>ap_client = c\<lparr>cl_sent := cl_sent c @ [pancake_thriftClient_get_client_id, pancake_thriftClient_register_client_id 1 reply]\<rparr>,
            ap_requests = wq_new, ap_total = 0, ap_done = False, ap_sequence_num = 0, ap_client_id = int32_wrap reply,
            ap_seq_id = sequence_id_new\<lparr>client_id := int32_wrap reply\<rparr>, ap_in_flight_limit = 16\<rparr>)"

text \<open>A request under the mutex; it waits (\<open>None\<close>) while the limit is reached. The queue's size is an unsigned number.\<close>

definition ap_request :: "env \<Rightarrow> request_kind \<Rightarrow> (sequence_id \<Rightarrow> tmsg) \<Rightarrow> async_proxy_client \<Rightarrow> (unit outcome \<times> async_proxy_client) option" where
  "ap_request e kind mk s =
     (if wq_length (ap_requests s) \<ge> ap_in_flight_limit s then None
      else if ap_sequence_num s = 2 ^ 31 - 1 then Some (Inl (Undefined_behaviour ''signed overflow''), s)
      else
        (let seq = (ap_seq_id s)\<lparr>client_seq_no := ap_sequence_num s\<rparr>;
             s' = s\<lparr>ap_seq_id := seq, ap_sequence_num := ap_sequence_num s + 1\<rparr>;
             c = ap_client s
         in if \<not> env_up e (cl_host c) (cl_port c) then Some (Inl (Transport_error ''write''), s')
            else Some (Inr (), s'\<lparr>ap_client := c\<lparr>cl_sent := cl_sent c @ [mk seq]\<rparr>, ap_requests := wq_push kind (ap_requests s)\<rparr>)))"

definition ap_get :: "env \<Rightarrow> string \<Rightarrow> async_proxy_client \<Rightarrow> (unit outcome \<times> async_proxy_client) option" where
  "ap_get e k = ap_request e GET (\<lambda>seq. pancake_thriftClient_async_get seq k)"

definition ap_put :: "env \<Rightarrow> string \<Rightarrow> string \<Rightarrow> async_proxy_client \<Rightarrow> (unit outcome \<times> async_proxy_client) option" where
  "ap_put e k v = ap_request e PUT (\<lambda>seq. pancake_thriftClient_async_put seq k v)"

text \<open>\<^verbatim>\<open>get_batch\<close> sleeps afterwards while more than 63 requests are queued, holding the mutex.\<close>

definition ap_get_batch :: "env \<Rightarrow> string list \<Rightarrow> async_proxy_client \<Rightarrow> (unit outcome \<times> async_proxy_client) option" where
  "ap_get_batch e ks = ap_request e GET_BATCH (\<lambda>seq. pancake_thriftClient_async_get_batch seq ks)"

definition ap_get_batch_sleeps :: "async_proxy_client \<Rightarrow> bool" where
  "ap_get_batch_sleeps s \<longleftrightarrow> wq_length (ap_requests s) > 63"

definition ap_put_batch :: "env \<Rightarrow> string list \<Rightarrow> string list \<Rightarrow> async_proxy_client \<Rightarrow> (unit outcome \<times> async_proxy_client) option" where
  "ap_put_batch e ks vs = ap_request e PUT_BATCH (\<lambda>seq. pancake_thriftClient_async_put_batch seq ks vs)"

text \<open>
  \<^verbatim>\<open>read_responses\<close> in two steps: taking a request from the queue, which wakes a waiting caller, and reading a response, which is counted. An exception other than a
  \<^verbatim>\<open>TTransportException\<close> ends the process.
\<close>

definition ap_take :: "async_proxy_client \<Rightarrow> (request_kind \<times> async_proxy_client) option" where
  "ap_take s =
     (if ap_done s then None
      else case wq_pop (ap_requests s) of None \<Rightarrow> None | Some (k, q) \<Rightarrow> Some (k, s\<lparr>ap_requests := q\<rparr>))"

definition ap_read :: "net_event \<Rightarrow> (async_proxy_client, unit) cpp" where
  "ap_read ev s =
     (case recv_response ev of
        Inr (k, out) \<Rightarrow> (Inr (), s\<lparr>ap_total := ap_total s + int (length out)\<rparr>)
      | Inl (Transport_error what) \<Rightarrow> (Inr (), s)
      | Inl (Undefined_behaviour w) \<Rightarrow> (Inl (Undefined_behaviour w), s)
      | Inl _ \<Rightarrow> (Inl Process_exit, s))"

definition ap_num_requests_satisfied :: "async_proxy_client \<Rightarrow> int" where
  "ap_num_requests_satisfied s = ap_total s"

definition ap_finish :: "async_proxy_client \<Rightarrow> async_proxy_client" where
  "ap_finish s = s\<lparr>ap_done := True, ap_requests := fold wq_push (replicate 5 GET_BATCH) (ap_requests s)\<rparr>"

section \<open>proxy\_client\<close>

text \<open>The state is the connection. Each call is written and then waits for \<open>reply\<close>; \<open>desync\<close> is as in Thrift\_Service.\<close>

definition pc_init :: "env \<Rightarrow> string \<Rightarrow> int \<Rightarrow> tmsg rpc_client outcome" where
  "pc_init e h p = open_worker (env_up e) h p 0"

definition pc_call :: "env \<Rightarrow> tmsg \<Rightarrow> (tmsg rpc_client, unit) cpp" where
  "pc_call e mes c =
     (if env_up e (cl_host c) (cl_port c) then (Inr (), c\<lparr>cl_sent := cl_sent c @ [mes]\<rparr>) else (Inl (Transport_error ''write''), c))"

definition pc_get :: "env \<Rightarrow> (tmsg \<Rightarrow> targ option outcome) \<Rightarrow> tmsg \<Rightarrow> string \<Rightarrow> (tmsg rpc_client, string) cpp" where
  "pc_get e desync reply k =
     seqM (pc_call e (pancake_thriftClient_get k))
       (bnd (lift_out (client_recv pancake_thrift_get desync reply)) (\<lambda>r. case r of Some (A_String x) \<Rightarrow> ret x | _ \<Rightarrow> ret []))"

definition pc_put :: "env \<Rightarrow> (tmsg \<Rightarrow> targ option outcome) \<Rightarrow> tmsg \<Rightarrow> string \<Rightarrow> string \<Rightarrow> (tmsg rpc_client, unit) cpp" where
  "pc_put e desync reply k v =
     seqM (pc_call e (pancake_thriftClient_put k v)) (bnd (lift_out (client_recv pancake_thrift_put desync reply)) (\<lambda>_. ret ()))"

definition pc_get_batch :: "env \<Rightarrow> (tmsg \<Rightarrow> targ option outcome) \<Rightarrow> tmsg \<Rightarrow> string list \<Rightarrow> (tmsg rpc_client, string list) cpp" where
  "pc_get_batch e desync reply ks =
     seqM (pc_call e (pancake_thriftClient_get_batch ks))
       (bnd (lift_out (client_recv pancake_thrift_get_batch desync reply)) (\<lambda>r. case r of Some (A_Strings xs) \<Rightarrow> ret xs | _ \<Rightarrow> ret []))"

definition pc_put_batch ::
  "env \<Rightarrow> (tmsg \<Rightarrow> targ option outcome) \<Rightarrow> tmsg \<Rightarrow> string list \<Rightarrow> string list \<Rightarrow> (tmsg rpc_client, unit) cpp" where
  "pc_put_batch e desync reply ks vs =
     seqM (pc_call e (pancake_thriftClient_put_batch ks vs)) (bnd (lift_out (client_recv pancake_thrift_put_batch desync reply)) (\<lambda>_. ret ()))"

section \<open>Responses\<close>

text \<open>The message that \<^verbatim>\<open>thrift_response_client\<close> sends for a response, and what the client makes of it.\<close>

definition response_msg :: "sequence_id \<times> int \<times> string list \<Rightarrow> tmsg" where
  "response_msg = (\<lambda>(seq, op_code, res). pancake_thrift_responseClient_async_response seq op_code res)"

definition client_answer :: "sequence_id \<times> int \<times> string list \<Rightarrow> l3_response" where
  "client_answer = (\<lambda>(seq, op_code, res).
     \<lparr>lr_sequence_num = client_seq_no seq, lr_value = hd res, lr_diag = (if isset_diag seq then diag seq else [])\<rparr>)"

definition conn_closed :: string where
  "conn_closed = ''No more data to read.''"

fun event_msgs :: "net_event list \<Rightarrow> tmsg list" where
  "event_msgs [] = []"
| "event_msgs (N_msg m # evs) = m # event_msgs evs"
| "event_msgs (N_error w # evs) = event_msgs evs"

lemma recv_response_msg:
  "recv_response (N_msg (response_msg (seq, opc, res))) = Inr (client_seq_no seq, if isset_diag seq then res @ [diag seq] else res)"
proof -
  let ?sp = pancake_thrift_response_async_response_args and ?vs = "[A_Seq seq, A_I32 opc, A_Strings res]"
  have "well_typed ?sp ?vs" "distinct (map fst ?sp)" by (simp_all add: well_typed_def pancake_thrift_response_async_response_args_def)
  then have "struct_read (struct_write ?sp ?vs) (struct_new ?sp) = Inr (slots_of ?sp ?vs)"
    by (intro struct_roundtrip struct_write_known)
  moreover have "response_args (slots_of ?sp ?vs) = Some (canon_seq seq, res)"
    by (simp add: response_args_def slots_of_def pancake_thrift_response_async_response_args_def)
  moreover have "diag (canon_seq seq) = diag seq" if "isset_diag seq" using that by (simp add: canon_seq_def)
  ultimately show ?thesis
    by (simp add: response_msg_def pancake_thrift_responseClient_async_response_def client_send_def
        pancake_thrift_response_async_response_def read_response_def)
qed

lemma sc_response_step_msg:
  assumes "\<not> sc_done s" "snd (snd r) = [v]"
  shows "sc_response_step (N_msg (response_msg r)) s = (Inr True, s\<lparr>sc_response_queue := wq_push (client_answer r) (sc_response_queue s)\<rparr>)"
  using assms
  by (cases r) (simp add: sc_response_step_def recv_response_msg response_of_def client_answer_def vec_at_def cpp_simps)

lemma sc_response_thread_reads:
  assumes "\<not> sc_done s" "N_error conn_closed \<notin> set evs" "event_msgs evs = map response_msg sent" "\<forall>(seq, opc, res) \<in> set sent. \<exists>v. res = [v]"
  shows "sc_response_thread (evs @ rest) s =
     sc_response_thread rest (s\<lparr>sc_response_queue := fold wq_push (map client_answer sent) (sc_response_queue s)\<rparr>)"
  using assms
proof (induction evs arbitrary: s sent)
  case Nil
  then show ?case by simp
next
  case (Cons ev evs)
  show ?case
  proof (cases ev)
    case (N_error w)
    then have "sc_response_step ev s = (Inr True, s)"
      using Cons.prems(1,2) by (auto simp: sc_response_step_def conn_closed_def cpp_simps)
    with Cons N_error show ?thesis by (simp add: bnd_apply)
  next
    case (N_msg m)
    then obtain r rs where r: "sent = r # rs" "m = response_msg r" "event_msgs evs = map response_msg rs"
      using Cons.prems(3) by (auto simp: Cons_eq_map_conv)
    then obtain v where "snd (snd r) = [v]" using Cons.prems(4) by (auto split: prod.splits)
    from sc_response_step_msg [OF Cons.prems(1) this] Cons.IH [OF _ _ r(3)] Cons.prems N_msg r show ?thesis
      by (simp add: bnd_apply)
  qed
qed

text \<open>
  C19. A client gets every answer once and in order, and its thread ends when the proxy closes the connection: when the messages that a connection
  yields, interrupted by any number of time-outs and other errors, are the responses that the proxy wrote to it, then the thread has queued for
  each of them the number of the request with its value and diagnostics, in order, and has terminated, at the point where the connection was closed.
\<close>

theorem client_reads_responses:
  assumes "\<not> sc_done s" "N_error conn_closed \<notin> set evs" "event_msgs evs = map response_msg (received m (sc_client_id s))"
    and "\<forall>(seq, opc, res) \<in> set (received m (sc_client_id s)). \<exists>v. res = [v]"
  shows "sc_response_thread (evs @ N_error conn_closed # rest) s =
     (Inr True, s\<lparr>sc_response_queue := fold wq_push (map client_answer (received m (sc_client_id s))) (sc_response_queue s)\<rparr>)"
proof -
  have "sc_response_step (N_error conn_closed) t = (Inr False, t)" if "\<not> sc_done t" for t :: shortstack_client
    using that by (simp add: sc_response_step_def conn_closed_def cpp_simps)
  with assms(1) show ?thesis by (simp add: sc_response_thread_reads [OF assms] bnd_apply ret_apply)
qed

section \<open>Requests\<close>

definition sc_request :: "env \<Rightarrow> string \<times> string option \<Rightarrow> ('a shortstack_client_scheme, int) cpp" where
  "sc_request e r = (case snd r of None \<Rightarrow> sc_get e (fst r) | Some v \<Rightarrow> sc_put e (fst r) v)"

definition request_msg :: "int \<Rightarrow> string \<times> string option \<Rightarrow> int \<Rightarrow> tmsg" where
  "request_msg cid r k =
     (let seq = sequence_id_new\<lparr>client_id := cid, client_seq_no := k\<rparr> in
      case snd r of
        None \<Rightarrow> pancake_thriftClient_async_get seq (fst r)
      | Some v \<Rightarrow> pancake_thriftClient_async_put seq (fst r) v)"

definition conns_up :: "env \<Rightarrow> 'm rpc_client list \<Rightarrow> bool" where
  "conns_up e cs \<longleftrightarrow> cs \<noteq> [] \<and> list_all (\<lambda>c. env_up e (cl_host c) (cl_port c)) cs"

definition sent_msgs :: "'m rpc_client list \<Rightarrow> 'm list" where
  "sent_msgs cs = concat (map cl_sent cs)"

lemma conn_call_ok:
  assumes "conns_up e cs" "i < length cs"
  shows "\<exists>ds. conn_call e i mes cs = Inr ds \<and> conns_up e ds \<and> length ds = length cs \<and> mset (sent_msgs ds) = add_mset mes (mset (sent_msgs cs))"
proof -
  let ?ds = "cs[i := (cs ! i)\<lparr>cl_sent := cl_sent (cs ! i) @ [mes]\<rparr>]"
  have "env_up e (cl_host (cs ! i)) (cl_port (cs ! i))" using assms by (simp add: conns_up_def list_all_length)
  then have "conn_call e i mes cs = Inr ?ds" using assms(2) by (simp add: conn_call_def)
  moreover have "conns_up e ?ds" using assms by (auto simp: conns_up_def list_all_length nth_list_update)
  moreover have "mset (sent_msgs ?ds) = add_mset mes (mset (sent_msgs cs))"
    using concat_map_list_update [OF assms(2), of cl_sent] concat_map_split [OF assms(2), of cl_sent] by (simp add: sent_msgs_def)
  ultimately show ?thesis by simp
qed


lemma sc_request_ok:
  assumes "conns_up e (sc_l1_clients s)" "sc_sequence_num s < 2 ^ 63 - 1"
  obtains t where "sc_request e r s = (Inr (sc_sequence_num s), t)" "conns_up e (sc_l1_clients t)"
    "sc_sequence_num t = sc_sequence_num s + 1" "sc_client_id t = sc_client_id s"
    "mset (sent_msgs (sc_l1_clients t)) = add_mset (request_msg (sc_client_id s) r (sc_sequence_num s)) (mset (sent_msgs (sc_l1_clients s)))"
proof -
  let ?i = "unat (rand_uint32 0 (2 ^ 31 - 1) (env_rand e (sc_tick s))) mod length (sc_l1_clients s)"
  let ?m = "request_msg (sc_client_id s) r (sc_sequence_num s)"
  have ne: "sc_l1_clients s \<noteq> []" using assms(1) by (simp add: conns_up_def)
  then have i: "?i < length (sc_l1_clients s)" by simp
  from conn_call_ok [OF assms(1) i] obtain ds where ds: "conn_call e ?i ?m (sc_l1_clients s) = Inr ds" "conns_up e ds"
      "mset (sent_msgs ds) = add_mset ?m (mset (sent_msgs (sc_l1_clients s)))" by blast
  then have "sc_request e r s =
      (Inr (sc_sequence_num s), s\<lparr>sc_tick := sc_tick s + 1, sc_sequence_num := sc_sequence_num s + 1, sc_l1_clients := ds\<rparr>)"
    using ne assms(2)
    by (cases "snd r") (simp_all add: sc_request_def sc_get_def sc_put_def sc_send_def request_msg_def Let_def)
  then show thesis by (rule that) (use ds(2,3) in simp_all)
qed

lemma sc_requests_ok:
  assumes "conns_up e (sc_l1_clients s)" "sc_sequence_num s + int (length rs) < 2 ^ 63"
  shows "\<exists>t. collect (sc_request e) rs s = (Inr (map (\<lambda>i. sc_sequence_num s + int i) [0..<length rs]), t) \<and>
           mset (sent_msgs (sc_l1_clients t)) = mset (sent_msgs (sc_l1_clients s)) +
             mset (map2 (\<lambda>i r. request_msg (sc_client_id s) r (sc_sequence_num s + int i)) [0..<length rs] rs)"
  using assms
proof (induction rs arbitrary: s)
  case Nil
  then show ?case by (simp add: ret_apply)
next
  case (Cons r rs)
  have "sc_sequence_num s < 2 ^ 63 - 1" using Cons.prems(2) by simp
  from sc_request_ok [OF Cons.prems(1) this, of r] obtain t where
    t: "sc_request e r s = (Inr (sc_sequence_num s), t)" "conns_up e (sc_l1_clients t)"
      "sc_sequence_num t = sc_sequence_num s + 1" "sc_client_id t = sc_client_id s"
      "mset (sent_msgs (sc_l1_clients t)) = add_mset (request_msg (sc_client_id s) r (sc_sequence_num s)) (mset (sent_msgs (sc_l1_clients s)))" .
  from Cons.IH [OF t(2)] t(3) Cons.prems(2) obtain u where
    u: "collect (sc_request e) rs t = (Inr (map (\<lambda>i. sc_sequence_num t + int i) [0..<length rs]), u)"
      "mset (sent_msgs (sc_l1_clients u)) = mset (sent_msgs (sc_l1_clients t)) +
         mset (map2 (\<lambda>i r. request_msg (sc_client_id t) r (sc_sequence_num t + int i)) [0..<length rs] rs)" by auto
  have up: "[0..<length (r # rs)] = 0 # map Suc [0..<length rs]" by (simp add: upt_conv_Cons map_Suc_upt del: upt_Suc)
  show ?case
    unfolding up using t u by (simp add: collect_Cons comp_def add.assoc zip_map1 case_prod_unfold del: collect.simps)
qed

text \<open>What a request is at a worker of the first layer.\<close>

definition l1_request :: "env \<Rightarrow> int \<Rightarrow> string \<times> string option \<Rightarrow> int \<Rightarrow> (l1_proxy handler, unit) cpp" where
  "l1_request e cid r k =
     (let seq = sequence_id_new\<lparr>client_id := cid, client_seq_no := k\<rparr> in
      case snd r of None \<Rightarrow> l1h_async_get e seq (fst r) | Some v \<Rightarrow> l1h_async_put e seq (fst r) v)"

lemma request_served:
  "msg_effect pancake_thrift_processor (pancake_thrift_invoke (l1_handler_if e iter)) (request_msg cid r k) w = snd (l1_request e cid r k w)"
proof -
  let ?seq = "sequence_id_new\<lparr>client_id := cid, client_seq_no := k\<rparr>"
  have c: "canon_seq ?seq = ?seq" by (simp add: canon_seq_def sequence_id_new_def)
  have "pancake_thrift_async_get \<in> set (service_methods pancake_thrift_processor)"
    "pancake_thrift_async_put \<in> set (service_methods pancake_thrift_processor)" by (simp_all add: pancake_thrift_processor_def)
  note f = this [THEN find_method_mem [OF pancake_method_names]]
  have ok: "method_ok pancake_thrift_async_get" "method_ok pancake_thrift_async_put"
    "well_typed (m_args pancake_thrift_async_get) [A_Seq ?seq, A_String x]"
    "well_typed (m_args pancake_thrift_async_put) [A_Seq ?seq, A_String x, A_String v]" for x v
    by (simp_all add: method_ok_def well_typed_def pancake_thrift_methods)
  have names: "m_name pancake_thrift_async_get = ''async_get''" "m_name pancake_thrift_async_put = ''async_put''"
    by (simp_all add: pancake_thrift_methods)
  note eff = msg_effect_send [OF f(1) ok(1,3), unfolded names] msg_effect_send [OF f(2) ok(2,4), unfolded names]
  show ?thesis
    by (cases "snd r")
      (simp_all add: request_msg_def l1_request_def pancake_thriftClient_async_get_def pancake_thriftClient_async_put_def eff c,
       simp_all add: pancake_thrift_invoke_def l1_handler_if_def)
qed

text \<open>
  C12. The requests of a client are numbered one after the other, each is sent exactly once, to one of the workers it is connected to, and reaches that worker as
  the read or write of the key with the client's identifier and this number.
\<close>

theorem client_requests_sent:
  assumes "conns_up e (sc_l1_clients s)" "sc_sequence_num s + int (length rs) < 2 ^ 63"
  shows "\<exists>t. collect (sc_request e) rs s = (Inr (map (\<lambda>i. sc_sequence_num s + int i) [0..<length rs]), t) \<and>
           mset (sent_msgs (sc_l1_clients t)) = mset (sent_msgs (sc_l1_clients s)) +
             mset (map2 (\<lambda>i r. request_msg (sc_client_id s) r (sc_sequence_num s + int i)) [0..<length rs] rs) \<and>
           (\<forall>r k e' iter w. msg_effect pancake_thrift_processor (pancake_thrift_invoke (l1_handler_if e' iter)) (request_msg (sc_client_id s) r k) w =
              snd (l1_request e' (sc_client_id s) r k w))"
  using sc_requests_ok [OF assms] by (simp add: request_served)

section \<open>Requests in flight\<close>

text \<open>
  The threads that use an \<^verbatim>\<open>async_proxy_client\<close> and its reader, interleaved: the reader takes a request and then reads a response. The
  number counts the turns of the reader that are complete.
\<close>

datatype reader_phase = Taking | Reading

inductive ap_step :: "env \<Rightarrow> async_proxy_client \<times> reader_phase \<times> nat \<Rightarrow> async_proxy_client \<times> reader_phase \<times> nat \<Rightarrow> bool" for e where
  get: "ap_get e k s = Some (r, t) \<Longrightarrow> ap_step e (s, ph, n) (t, ph, n)"
| put: "ap_put e k v s = Some (r, t) \<Longrightarrow> ap_step e (s, ph, n) (t, ph, n)"
| get_batch: "ap_get_batch e ks s = Some (r, t) \<Longrightarrow> ap_step e (s, ph, n) (t, ph, n)"
| put_batch: "ap_put_batch e ks vs s = Some (r, t) \<Longrightarrow> ap_step e (s, ph, n) (t, ph, n)"
| take: "ap_take s = Some (k, t) \<Longrightarrow> ap_step e (s, Taking, n) (t, Reading, n)"
| read: "ap_read ev s = (Inr (), t) \<Longrightarrow> ap_step e (s, Reading, n) (t, Taking, Suc n)"

definition ap_sent :: "async_proxy_client \<Rightarrow> nat" where
  "ap_sent s = length (cl_sent (ap_client s)) - 2"

definition ap_invar :: "async_proxy_client \<times> reader_phase \<times> nat \<Rightarrow> bool" where
  "ap_invar = (\<lambda>(s, ph, n). wq_ok (ap_requests s) \<and> wq_length (ap_requests s) \<le> 16 \<and> ap_in_flight_limit s = 16 \<and>
     length (cl_sent (ap_client s)) = 2 + n + (if ph = Reading then 1 else 0) + length (wq_items (ap_requests s)))"

lemma ap_request_invar: "ap_request e kind mk s = Some (r, t) \<Longrightarrow> ap_invar (s, ph, n) \<Longrightarrow> ap_invar (t, ph, n)"
  by (auto simp: ap_request_def ap_invar_def Let_def wq_push_def wq_ok_def wq_length_def split: if_splits)

lemma ap_step_invar: "ap_step e x y \<Longrightarrow> ap_invar x \<Longrightarrow> ap_invar y"
proof (induction rule: ap_step.induct)
  case (take s k t n)
  then show ?case
    by (auto simp: ap_take_def ap_invar_def wq_pop_def wq_ok_def wq_length_def split: if_splits option.splits list.splits)
next
  case (read ev s t n)
  then show ?case by (auto simp: ap_read_def ap_invar_def split: sum.splits exn.splits)
qed (auto simp: ap_get_def ap_put_def ap_get_batch_def ap_put_batch_def dest: ap_request_invar)

lemma ap_init_invar: "ap_init e h p reply = Inr s \<Longrightarrow> ap_invar (s, Taking, 0)"
  by (auto simp: ap_init_def ap_invar_def open_worker_def wq_length_def wq_ok_def wq_new_def bind_out_eq_Inr split: if_splits)

text \<open>
  However the threads that use the client and its reader interleave, at most 16 requests wait in its queue, so that \<^verbatim>\<open>get_batch\<close> never sleeps with the mutex held, and at
  most one request more than the limit has been sent without its response having been read: the reader takes a request from the queue before it reads the response.
\<close>

lemma in_flight_bounded:
  assumes "ap_init e h p reply = Inr s0" "(ap_step e)\<^sup>*\<^sup>* (s0, Taking, 0) (s, ph, n)"
  shows "wq_length (ap_requests s) \<le> 16 \<and> \<not> ap_get_batch_sleeps s \<and> ap_sent s \<le> n + 17"
proof -
  have "ap_invar (s, ph, n)"
    using assms(2) ap_init_invar [OF assms(1)] by (induction rule: rtranclp_induct) (auto dest: ap_step_invar)
  then show ?thesis by (auto simp: ap_invar_def ap_get_batch_sleeps_def ap_sent_def wq_length_def wq_ok_def)
qed

text \<open>The thread of \<^verbatim>\<open>pancake_client\<close> does not notice that its connection is closed: it goes on until \<^verbatim>\<open>finish\<close> is called.\<close>

lemma pk_thread_goes_on: "\<not> sc_done s \<Longrightarrow> pk_response_thread (replicate n (N_error conn_closed)) s = (Inr False, s)"
  by (induction n) (simp_all add: pk_response_step_def cpp_simps)

lemma pk_thread_finish: "sc_done s \<Longrightarrow> pk_response_thread (ev # evs) s = (Inr True, s)"
  by (simp add: pk_response_step_def cpp_simps)

section \<open>Witnesses\<close>

definition example_client :: shortstack_client where
  "example_client = shortstack_client_new\<lparr>sc_client_id := 7, sc_l1_clients := [\<lparr>cl_host = ''a'', cl_port = 9090, cl_sent = []\<rparr>]\<rparr>"

definition example_answer :: "sequence_id \<times> int \<times> string list" where
  "example_answer = (sequence_id_new\<lparr>client_id := 7, client_seq_no := 3\<rparr>, 0, [''v''])"

theorem client_reads_responses_witness:
  "sc_response_thread ([N_error ''THRIFT_EAGAIN (timed out)'', N_msg (response_msg example_answer)] @ N_error conn_closed # [N_error ''x'']) example_client =
     (Inr True, example_client\<lparr>sc_response_queue := wq_push \<lparr>lr_sequence_num = 3, lr_value = ''v'', lr_diag = []\<rparr> wq_new\<rparr>)"
proof -
  let ?m = "[(7, \<lparr>tc_broken = False, tc_sent = [example_answer]\<rparr>)] :: client_map"
  have r: "received ?m (sc_client_id example_client) = [example_answer]"
    by (simp add: received_def example_client_def)
  have "\<not> sc_done example_client" "N_error conn_closed \<notin> set [N_error ''THRIFT_EAGAIN (timed out)'', N_msg (response_msg example_answer)]"
    "event_msgs [N_error ''THRIFT_EAGAIN (timed out)'', N_msg (response_msg example_answer)] =
       map response_msg (received ?m (sc_client_id example_client))"
    "\<forall>(seq, opc, res) \<in> set (received ?m (sc_client_id example_client)). \<exists>v. res = [v]"
    unfolding r by (simp_all add: example_client_def shortstack_client_new_def conn_closed_def example_answer_def)
  from client_reads_responses [OF this, of "[N_error ''x'']"] show ?thesis
    unfolding r by (simp add: client_answer_def example_answer_def example_client_def shortstack_client_new_def sequence_id_new_def)
qed

theorem client_requests_sent_witness:
  "\<exists>t. collect (sc_request example_env) [(''k'', Some ''v''), (''k'', None)] example_client = (Inr [0, 1], t) \<and>
     mset (sent_msgs (sc_l1_clients t)) = {# request_msg 7 (''k'', Some ''v'') 0, request_msg 7 (''k'', None) 1 #}"
proof -
  have "conns_up example_env (sc_l1_clients example_client)"
    "sc_sequence_num example_client + int (length [(''k'', Some ''v''), (''k'', None)]) < 2 ^ 63"
    by (simp_all add: conns_up_def example_client_def example_env_def shortstack_client_new_def)
  from client_requests_sent [OF this] show ?thesis
    by (auto simp: sent_msgs_def example_client_def shortstack_client_new_def upt_rec)
qed

end
