(* ===== verification/Trace.thy ===== *)
theory Trace
  imports Initializer
begin

text \<open>
  server/src/proxy_server.cpp, \<^verbatim>\<open>load_frequencies_from_trace\<close>: the access distribution that the initializer smooths is counted
  from a workload file of lines \<^verbatim>\<open>GET key\<close> and \<^verbatim>\<open>PUT key value\<close>; on the way the operations are collected into batches. The
  order in which \<^verbatim>\<open>key_to_frequency\<close> is traversed is the parameter \<open>iter\<close>; \<open>ndebug\<close> says whether \<^verbatim>\<open>assert\<close> is compiled out.
\<close>

section \<open>Counting\<close>

type_synonym trace_vector = "(string list \<times> string list) list"

record trace_state =
  get_keys :: "string list"
  put_keys :: "string list"
  put_values :: "string list"
  tr_trace :: trace_vector
  key_to_frequency :: "(string, int) table"
  frequency_sum :: int

text \<open>
  \<^verbatim>\<open>s.substr(0, s.find(" "))\<close> and \<^verbatim>\<open>s.substr(s.find(" ")+1)\<close>. Without a space \<^verbatim>\<open>find\<close> gives \<^verbatim>\<open>npos\<close>, and \<^verbatim>\<open>npos + 1\<close> is 0: both are the whole
  string then.
\<close>

definition before_space :: "string \<Rightarrow> string" where
  "before_space s = takeWhile (\<lambda>c. c \<noteq> CHR '' '') s"

definition after_space :: "string \<Rightarrow> string" where
  "after_space s = (if CHR '' '' \<in> set s then tl (dropWhile (\<lambda>c. c \<noteq> CHR '' '') s) else s)"

definition trace_entry :: "string \<Rightarrow> string \<times> string" where
  "trace_entry line =
     (let key = after_space line in
      if CHR '' '' \<in> set key then (before_space key, after_space key) else (key, []))"

text \<open>\<^verbatim>\<open>size() == client_batch_size_\<close> compares a \<^verbatim>\<open>size_t\<close> with an \<^verbatim>\<open>int\<close>, which is converted.\<close>

definition full_batch :: "int \<Rightarrow> string list \<Rightarrow> bool" where
  "full_batch n ks \<longleftrightarrow> int (length ks) = n mod 2 ^ 64"

definition push_get :: "int \<Rightarrow> string \<Rightarrow> trace_state \<Rightarrow> trace_state" where
  "push_get n key st =
     (let ks = get_keys st @ [key] in
      if full_batch n ks then st\<lparr>tr_trace := tr_trace st @ [(ks, [])], get_keys := []\<rparr> else st\<lparr>get_keys := ks\<rparr>)"

definition push_put :: "int \<Rightarrow> string \<Rightarrow> string \<Rightarrow> trace_state \<Rightarrow> trace_state" where
  "push_put n key val st =
     (let ks = put_keys st @ [key]; vs = put_values st @ [val] in
      if full_batch n ks then st\<lparr>tr_trace := tr_trace st @ [(ks, vs)], put_keys := [], put_values := []\<rparr>
      else st\<lparr>put_keys := ks, put_values := vs\<rparr>)"

text \<open>A frequency is never larger than the sum, so the sum is the counter that overflows first.\<close>

definition count_key :: "string \<Rightarrow> (trace_state, unit) cpp" where
  "count_key key st =
     (if frequency_sum st = int32_max then (Inl (Undefined_behaviour ''signed overflow''), st)
      else (Inr (), st\<lparr>key_to_frequency :=
              tab_put key (case map_of (key_to_frequency st) key of None \<Rightarrow> 1 | Some c \<Rightarrow> c + 1) (key_to_frequency st),
              frequency_sum := frequency_sum st + 1\<rparr>))"

definition trace_line :: "bool \<Rightarrow> int \<Rightarrow> string \<Rightarrow> (trace_state, unit) cpp" where
  "trace_line ndebug n line =
     (let (key, val) = trace_entry line in
      seqM (modify (if val = [] then push_get n key else push_put n key val))
        (if \<not> ndebug \<and> (key = ''PUT'' \<or> key = ''GET'') then throw Process_exit else count_key key))"

definition trace_flush :: "trace_state \<Rightarrow> trace_vector" where
  "trace_flush st =
     tr_trace st @ (if get_keys st \<noteq> [] then [(get_keys st, [])] else []) @
     (if put_keys st \<noteq> [] then [(put_keys st, put_values st)] else [])"

text \<open>
  A file that cannot be opened is reported on the standard error stream and then read as if it were empty. The frequency of a
  key is a rounded quotient.
\<close>

definition load_frequencies_from_trace ::
  "((string, int) table \<Rightarrow> (string \<times> int) list) \<Rightarrow> bool \<Rightarrow> string option \<Rightarrow> trace_vector \<Rightarrow> int \<Rightarrow>
   (distribution \<times> trace_vector) outcome" where
  "load_frequencies_from_trace iter ndebug file trace n =
     (let lines = (case file of None \<Rightarrow> [] | Some str \<Rightarrow> split_on (CHR 0x0A) str) in
      case for_each lines (trace_line ndebug n)
             \<lparr>get_keys = [], put_keys = [], put_values = [], tr_trace = trace, key_to_frequency = [], frequency_sum = 0\<rparr> of
        (Inl x, _) \<Rightarrow> Inl x
      | (Inr _, st) \<Rightarrow>
          (let pairs = iter (key_to_frequency st) in
           Inr (distribution_new (map fst pairs) (map (\<lambda>p. ddiv (of_int (snd p)) (of_int (frequency_sum st))) pairs),
                trace_flush st)))"

section \<open>What has been read\<close>

definition get_batches :: "trace_vector \<Rightarrow> string list" where
  "get_batches tr = concat (map (\<lambda>(ks, vs). if vs = [] then ks else []) tr)"

definition put_batches :: "trace_vector \<Rightarrow> (string \<times> string) list" where
  "put_batches tr = concat (map (\<lambda>(ks, vs). zip ks vs) tr)"

text \<open>A batch holds between 1 and \<open>n\<close> operations, and a batch of writes has a value for every key.\<close>

definition trace_batch_ok :: "int \<Rightarrow> string list \<times> string list \<Rightarrow> bool" where
  "trace_batch_ok n b \<longleftrightarrow> (case b of (ks, vs) \<Rightarrow> ks \<noteq> [] \<and> int (length ks) \<le> n \<and> (vs = [] \<or> length vs = length ks))"

text \<open>\<open>trace_log n st es\<close>: the entries \<open>es\<close> have been read so far.\<close>

definition trace_log :: "int \<Rightarrow> trace_state \<Rightarrow> (string \<times> string) list \<Rightarrow> bool" where
  "trace_log n st es \<longleftrightarrow>
     get_batches (tr_trace st) @ get_keys st = map fst (filter (\<lambda>e. snd e = []) es) \<and>
     put_batches (tr_trace st) @ zip (put_keys st) (put_values st) = filter (\<lambda>e. snd e \<noteq> []) es \<and>
     list_all (trace_batch_ok n) (tr_trace st) \<and>
     int (length (get_keys st)) < n \<and> int (length (put_keys st)) < n \<and> length (put_values st) = length (put_keys st) \<and>
     table_ok (key_to_frequency st) \<and>
     (\<forall>k. map_of (key_to_frequency st) k =
            (if k \<in> fst ` set es then Some (int (count_list (map fst es) k)) else None)) \<and>
     frequency_sum st = int (length es)"

lemma batches_snoc [simp]:
  "get_batches (tr @ [(ks, vs)]) = get_batches tr @ (if vs = [] then ks else [])"
  "put_batches (tr @ [(ks, vs)]) = put_batches tr @ zip ks vs"
  by (simp_all add: get_batches_def put_batches_def)

lemma count_list_zero: "k \<notin> set ks \<Longrightarrow> count_list ks k = 0"
  by (induction ks) auto

lemma full_batch_iff: "0 < n \<Longrightarrow> n < 2 ^ 31 \<Longrightarrow> full_batch n ks \<longleftrightarrow> int (length ks) = n"
  by (simp add: full_batch_def)

lemma trace_line_log:
  assumes log: "trace_log n st es" and n: "0 < n" "n < 2 ^ 31"
    and key: "fst (trace_entry line) \<notin> {''PUT'', ''GET''}" and len: "int (length es) < int32_max"
  shows "\<exists>st'. trace_line ndebug n line st = (Inr (), st') \<and> trace_log n st' (es @ [trace_entry line])"
proof -
  obtain k v where e: "trace_entry line = (k, v)" by (cases "trace_entry line")
  define st1 where "st1 = (if v = [] then push_get n k else push_put n k v) st"
  define st2 where "st2 = st1\<lparr>key_to_frequency :=
      tab_put k (case map_of (key_to_frequency st) k of None \<Rightarrow> 1 | Some c \<Rightarrow> c + 1) (key_to_frequency st),
      frequency_sum := frequency_sum st + 1\<rparr>"
  have keep: "key_to_frequency st1 = key_to_frequency st" "frequency_sum st1 = frequency_sum st"
    by (simp_all add: st1_def push_get_def push_put_def Let_def)
  have "trace_line ndebug n line st = (Inr (), st2)"
    using key len log keep by (simp add: trace_line_def e cpp_simps count_key_def st1_def [symmetric] st2_def trace_log_def)
  moreover have "trace_log n st2 (es @ [(k, v)])"
  proof -
    have tab: "table_ok (key_to_frequency st)"
      "\<And>j. map_of (key_to_frequency st) j = (if j \<in> fst ` set es then Some (int (count_list (map fst es) j)) else None)"
      using log by (simp_all add: trace_log_def)
    have freq: "table_ok (key_to_frequency st2)"
      "\<And>j. map_of (key_to_frequency st2) j =
        (if j \<in> fst ` set (es @ [(k, v)]) then Some (int (count_list (map fst (es @ [(k, v)])) j)) else None)"
      using tab by (auto simp: st2_def umap.lookup_put umap.invar_put count_list_zero)
    have ops: "get_batches (tr_trace st1) @ get_keys st1 = map fst (filter (\<lambda>e. snd e = []) (es @ [(k, v)]))"
      "put_batches (tr_trace st1) @ zip (put_keys st1) (put_values st1) = filter (\<lambda>e. snd e \<noteq> []) (es @ [(k, v)])"
      "list_all (trace_batch_ok n) (tr_trace st1)" "int (length (get_keys st1)) < n" "int (length (put_keys st1)) < n"
      "length (put_values st1) = length (put_keys st1)"
      using log n
      by (auto simp: st1_def push_get_def push_put_def full_batch_iff trace_log_def trace_batch_ok_def Let_def)
    then show ?thesis using freq log by (auto simp: trace_log_def st2_def)
  qed
  ultimately show ?thesis by (auto simp: e)
qed

lemma trace_lines_log:
  assumes "trace_log n st es" "0 < n" "n < 2 ^ 31"
    and "\<forall>l \<in> set lines. fst (trace_entry l) \<notin> {''PUT'', ''GET''}" "int (length es + length lines) \<le> int32_max"
  shows "\<exists>st'. for_each lines (trace_line ndebug n) st = (Inr (), st') \<and> trace_log n st' (es @ map trace_entry lines)"
  using assms
proof (induction lines arbitrary: st es)
  case Nil
  then show ?case by (simp add: for_each_Nil del: for_each.simps)
next
  case (Cons l lines)
  have key: "fst (trace_entry l) \<notin> {''PUT'', ''GET''}" using Cons.prems(4) by (meson list.set_intros(1))
  obtain st1 where st1: "trace_line ndebug n l st = (Inr (), st1)" "trace_log n st1 (es @ [trace_entry l])"
    using trace_line_log [OF Cons.prems(1-3) key] Cons.prems(5) by fastforce
  obtain st2 where "for_each lines (trace_line ndebug n) st1 = (Inr (), st2)"
    "trace_log n st2 ((es @ [trace_entry l]) @ map trace_entry lines)"
    using Cons.IH [OF st1(2) Cons.prems(2,3)] Cons.prems(4,5) by fastforce
  with st1(1) show ?case by (simp add: for_each_Cons del: for_each.simps)
qed

lemma trace_flush_log:
  assumes "trace_log n st es"
  shows "get_batches (trace_flush st) = map fst (filter (\<lambda>e. snd e = []) es)"
    and "put_batches (trace_flush st) = filter (\<lambda>e. snd e \<noteq> []) es"
    and "list_all (trace_batch_ok n) (trace_flush st)"
proof -
  have "put_values st = [] \<longleftrightarrow> put_keys st = []" using assms by (metis trace_log_def length_0_conv)
  then show "get_batches (trace_flush st) = map fst (filter (\<lambda>e. snd e = []) es)"
    "put_batches (trace_flush st) = filter (\<lambda>e. snd e \<noteq> []) es" "list_all (trace_batch_ok n) (trace_flush st)"
    using assms by (auto simp: trace_flush_def trace_log_def get_batches_def put_batches_def trace_batch_ok_def)
qed

text \<open>The entries of a workload file, and what is asked of them.\<close>

definition trace_entries :: "string option \<Rightarrow> (string \<times> string) list" where
  "trace_entries file = (case file of None \<Rightarrow> [] | Some str \<Rightarrow> map trace_entry (split_on (CHR 0x0A) str))"

definition trace_ok :: "string option \<Rightarrow> bool" where
  "trace_ok file \<longleftrightarrow>
     (\<forall>e \<in> set (trace_entries file). fst e \<noteq> ''PUT'' \<and> fst e \<noteq> ''GET'') \<and> int (length (trace_entries file)) \<le> int32_max"

lemma map_of_zip_values: "map_of (zip (map fst ps) (map (\<lambda>p. f (snd p)) ps)) k = map_option f (map_of ps k)"
  by (induction ps) auto

lemma load_frequencies_run:
  assumes it: "iter_ok iter" and ok: "trace_ok file" and n: "0 < n" "n < 2 ^ 31"
  obtains d tr where "load_frequencies_from_trace iter ndebug file [] n = Inr (d, tr)"
    "dist_ok d" "set (dist_items d) = fst ` set (trace_entries file)"
    "\<And>k. k \<in> set (dist_items d) \<Longrightarrow> dist_prob d k =
       Some (ddiv (of_nat (count_list (map fst (trace_entries file)) k)) (of_nat (length (trace_entries file))))"
    "get_batches tr = map fst (filter (\<lambda>e. snd e = []) (trace_entries file))"
    "put_batches tr = filter (\<lambda>e. snd e \<noteq> []) (trace_entries file)" "list_all (trace_batch_ok n) tr"
proof -
  define lines where "lines = (case file of None \<Rightarrow> [] | Some str \<Rightarrow> split_on (CHR 0x0A) str)"
  define es where "es = trace_entries file"
  define st0 where "st0 = \<lparr>get_keys = [], put_keys = [], put_values = [], tr_trace = [], key_to_frequency = [], frequency_sum = 0\<rparr>"
  have es: "es = map trace_entry lines" by (simp add: es_def trace_entries_def lines_def split: option.splits)
  have log0: "trace_log n st0 []" using n by (simp add: trace_log_def st0_def get_batches_def put_batches_def table_ok_def)
  obtain st where run: "for_each lines (trace_line ndebug n) st0 = (Inr (), st)" and log: "trace_log n st es"
    using trace_lines_log [OF log0 n, of lines ndebug] ok
    by (auto simp: trace_ok_def es_def [symmetric] es simp del: for_each.simps)
  let ?pairs = "iter (key_to_frequency st)"
  let ?p = "\<lambda>p. ddiv (of_int (snd p)) (of_int (frequency_sum st))"
  define d where "d = distribution_new (map fst ?pairs) (map ?p ?pairs)"
  have load: "load_frequencies_from_trace iter ndebug file [] n = Inr (d, trace_flush st)"
    using run by (simp add: load_frequencies_from_trace_def lines_def [symmetric] st0_def [symmetric] d_def Let_def)
  have tab: "table_ok (key_to_frequency st)" "frequency_sum st = int (length es)"
    "\<And>k. map_of (key_to_frequency st) k = (if k \<in> fst ` set es then Some (int (count_list (map fst es) k)) else None)"
    using log by (simp_all add: trace_log_def)
  have dist: "distinct (map fst ?pairs)" using iter_ok_distinct [OF it] tab(1) by (simp add: table_ok_def)
  have items: "set (dist_items d) = fst ` set es"
  proof -
    have "set (dist_items d) = fst ` set (key_to_frequency st)" by (simp add: d_def distribution_new_def iter_ok_set [OF it])
    also have "\<dots> = dom (map_of (key_to_frequency st))" by (simp add: dom_map_of_conv_image_fst)
    also have "\<dots> = fst ` set es" using tab(3) by (auto simp: dom_def)
    finally show ?thesis .
  qed
  have prob: "dist_prob d k = Some (ddiv (of_nat (count_list (map fst es) k)) (of_nat (length es)))" if "k \<in> set (dist_items d)" for k
  proof -
    have "map_of ?pairs k = map_of (key_to_frequency st) k"
      using dist tab(1) by (metis iter_ok_set [OF it] map_of_inject_set table_ok_def)
    moreover have "dist_prob d k = map_option (\<lambda>c. ddiv (of_int c) (of_int (frequency_sum st))) (map_of ?pairs k)"
      by (simp add: dist_prob_def d_def distribution_new_def
          map_of_zip_values [where f = "\<lambda>c. ddiv (of_int c) (of_int (frequency_sum st))"])
    ultimately show ?thesis using that items tab(2,3) by simp
  qed
  show thesis
    by (rule that [OF load]) (use dist items prob trace_flush_log [OF log] in \<open>simp_all add: es_def dist_ok_def d_def distribution_new_def\<close>)
qed

section \<open>Uniform workloads\<close>

text \<open>
  A workload that uses every key equally often can be smoothed: all frequencies are the same rounded number as \<^verbatim>\<open>alpha_\<close>, so
  that their quotient is exactly 1.
\<close>

lemma double_round_pos:
  assumes "0 < x"
  shows "0 < double_round x"
proof -
  have "2 powi expo x \<le> double_round x" by (rule double_round_ge_power2) (use expo_bounds(1) [OF assms] in simp)
  moreover have "(0 :: rat) < 2 powi expo x" by simp
  ultimately show ?thesis by linarith
qed

lemma uniform_smoothing_ok:
  assumes "dist_ok d" "dist_items d \<noteq> []" "int (length (dist_items d)) < 2 ^ 30" "0 < c"
    and "\<And>k. k \<in> set (dist_items d) \<Longrightarrow> dist_prob d k = Some (ddiv (of_nat c) (of_nat (c * length (dist_items d))))"
  shows "smoothing_ok d"
proof -
  let ?n = "length (dist_items d)"
  have quot: "ddiv (of_nat c) (of_nat (c * ?n)) = init_alpha ?n" using assms(4) by (simp add: ddiv_def init_alpha_def)
  have "0 < init_alpha ?n" using assms(2) double_round_pos [of "1 / of_nat ?n"] by (simp add: init_alpha_def ddiv_def)
  then have one: "ddiv (init_alpha ?n) (init_alpha ?n) = 1"
    using double_round_int_exact [of 1] by (simp add: ddiv_def)
  have kp: "p = init_alpha ?n" if "(k, p) \<in> set (zip (dist_items d) (dist_probs d))" for k p
  proof -
    have "dist_prob d k = Some p" using that assms(1) by (simp add: dist_prob_def dist_ok_def map_of_eq_Some_iff)
    with assms(5) [OF set_zip_leftD [OF that]] quot show ?thesis by simp
  qed
  have "sum_list (map (\<lambda>(k, p). ddiv p (init_alpha ?n)) (zip (dist_items d) (dist_probs d))) =
      of_nat (length (zip (dist_items d) (dist_probs d))) * 1"
    by (rule sum_list_map_eq_length_mult) (use kp one in auto)
  then show ?thesis
    using assms(1,3) kp one by (auto simp: smoothing_ok_def dist_ok_def replica_count_def Let_def)
qed

section \<open>Properties\<close>

text \<open>
  C32. The distribution counted from a workload file: if no key of the file is PUT or GET and the file has less than 2^31 lines, then
  whatever order the hash table is traversed in, the distribution has exactly the keys of the file, each once, and the
  frequency of a key is the number of its lines divided by the number of lines, rounded once. The
  operations of the file are collected in order, reads and writes apart, into batches of 1 to \<open>n\<close> operations, and none is left out. If moreover every
  key occurs equally often, the distribution meets what smoothing asks for.
\<close>

theorem trace_frequencies:
  assumes "iter_ok iter" "trace_ok file" "0 < n" "n < 2 ^ 31"
  shows "\<exists>d tr. load_frequencies_from_trace iter ndebug file [] n = Inr (d, tr) \<and> dist_ok d \<and>
           (let es = trace_entries file; ks = map fst es in
            set (dist_items d) = set ks \<and>
            (\<forall>k. dist_prob d k = (if k \<in> set ks then Some (ddiv (of_nat (count_list ks k)) (of_nat (length es))) else None)) \<and>
            get_batches tr = map fst (filter (\<lambda>e. snd e = []) es) \<and> put_batches tr = filter (\<lambda>e. snd e \<noteq> []) es \<and>
            list_all (trace_batch_ok n) tr \<and>
            (\<forall>c. es \<noteq> [] \<and> length ks < 2 ^ 30 \<and> (\<forall>k \<in> set ks. count_list ks k = c) \<longrightarrow> smoothing_ok d))"
proof -
  define es where "es = trace_entries file"
  obtain d tr where r: "load_frequencies_from_trace iter ndebug file [] n = Inr (d, tr)" "dist_ok d"
    "set (dist_items d) = fst ` set es"
    "\<And>k. k \<in> set (dist_items d) \<Longrightarrow> dist_prob d k = Some (ddiv (of_nat (count_list (map fst es) k)) (of_nat (length es)))"
    "get_batches tr = map fst (filter (\<lambda>e. snd e = []) es)"
    "put_batches tr = filter (\<lambda>e. snd e \<noteq> []) es" "list_all (trace_batch_ok n) tr"
    using load_frequencies_run [OF assms] by (metis es_def)
  have none: "dist_prob d k = None" if "k \<notin> set (dist_items d)" for k
    using that r(2) by (simp add: dist_prob_def dist_ok_def map_of_zip_is_None)
  have smooth: "smoothing_ok d" if ne: "es \<noteq> []" and len: "length es < 2 ^ 30"
    and c: "\<forall>k \<in> set (map fst es). count_list (map fst es) k = c" for c
  proof (rule uniform_smoothing_ok [OF r(2)])
    have card: "card (set (map fst es)) = length (dist_items d)"
      using r(2,3) distinct_card [of "dist_items d"] by (simp add: dist_ok_def)
    have "length es = (\<Sum>k \<in> set (map fst es). count_list (map fst es) k)" using sum_count_set [of "map fst es" "set (map fst es)"] by simp
    then have total: "length es = c * length (dist_items d)" using c card by (simp add: mult.commute)
    then show "dist_prob d k = Some (ddiv (of_nat c) (of_nat (c * length (dist_items d))))" if "k \<in> set (dist_items d)" for k
      using r(4) [OF that] c that r(3) by auto
    show "0 < c" using total ne by (cases c) auto
    with total len show "int (length (dist_items d)) < 2 ^ 30"
      by (metis One_nat_def Suc_leI le_less_trans mult_le_mono1 mult_1 of_nat_less_iff of_nat_numeral of_nat_power)
    show "dist_items d \<noteq> []" using ne r(3) by auto
  qed
  have all: "\<forall>c. es \<noteq> [] \<and> length (map fst es) < 2 ^ 30 \<and> (\<forall>k \<in> set (map fst es). count_list (map fst es) k = c) \<longrightarrow> smoothing_ok d"
    using smooth by auto
  show ?thesis unfolding es_def [symmetric] Let_def
    by (intro exI [of _ d] exI [of _ tr] conjI all) (use r none in auto)
qed

definition example_workload :: string where
  "example_workload = ''GET a'' @ [CHR 0x0A] @ ''PUT b 1 2'' @ [CHR 0x0A] @ ''PUT a 3'' @ [CHR 0x0A] @ ''GET b'' @ [CHR 0x0A]"

lemma example_workload_entries:
  "trace_entries (Some example_workload) = [(''a'', []), (''b'', ''1 2''), (''a'', ''3''), (''b'', [])]"
  by code_simp

theorem trace_frequencies_witness:
  "\<exists>d tr. load_frequencies_from_trace rev False (Some example_workload) [] 50 = Inr (d, tr) \<and> smoothing_ok d \<and>
     dist_prob d ''b'' = Some (ddiv 2 4) \<and> get_batches tr = [''a'', ''b''] \<and> put_batches tr = [(''b'', ''1 2''), (''a'', ''3'')]"
proof -
  have it: "iter_ok rev" by (simp add: iter_ok_def)
  have ok: "trace_ok (Some example_workload)" by (simp add: trace_ok_def example_workload_entries)
  obtain d tr where r: "load_frequencies_from_trace rev False (Some example_workload) [] 50 = Inr (d, tr)"
    "dist_prob d ''b'' = Some (ddiv 2 4)" "get_batches tr = [''a'', ''b'']" "put_batches tr = [(''b'', ''1 2''), (''a'', ''3'')]"
    "\<forall>c. (\<forall>k \<in> {''a'', ''b''}. count_list [''a'', ''b'', ''a'', ''b''] k = c) \<longrightarrow> smoothing_ok d"
    using trace_frequencies [OF it ok, of 50 False] by (auto simp: example_workload_entries Let_def)
  moreover have "smoothing_ok d" using r(5) by (elim allE [of _ 2]) simp
  ultimately show ?thesis by blast
qed

end
