(* ===== verification/Server.thy ===== *)
theory Server
  imports Trace P_Proxy Handlers Storage
begin

text \<open>
  server/src/proxy_server.cpp, and the servers and handler factories of service/src: the programs that the command line starts. A
  program reads its options, the hosts file and the distribution file, creates one proxy per worker of its instance and a
  server for each, worker \<open>i\<close> on port \<^verbatim>\<open>port + i\<close>. The result of a program is the list of its servers, from then on it only serves; the
  initializer results in the file it writes, the manager in the calls it has made.

  \<open>world\<close> is what a program finds outside: the options that \<^verbatim>\<open>getopt\<close> returns for an option string and the arguments (\<^verbatim>\<open>'?'\<close> for one that it
  does not know), the files, the environment of each worker, the OpenSSL functions, the traversal order of hash tables, random draws, how
  far each replica has come (\<^verbatim>\<open>fetch_seq\<close>), and how the output stream prints a \<^verbatim>\<open>double\<close>. Log messages, the number of cores and the wait until the own
  server accepts connections leave no trace in the state.
\<close>

record 'k world =
  w_getopt :: "string \<Rightarrow> string list \<Rightarrow> (char \<times> string) list"
  w_text :: "string \<Rightarrow> string option"
  w_dist :: "string \<Rightarrow> tfield list option"
  w_env :: "nat \<Rightarrow> env"
  w_openssl :: "'k openssl"
  w_iter :: "(string, int) table \<Rightarrow> (string \<times> int) list"
  w_draw :: "nat \<Rightarrow> nat"
  w_fetch :: "string \<Rightarrow> int \<Rightarrow> int"
  w_show :: "rat \<Rightarrow> string"
  w_memory :: int

section \<open>Servers\<close>

text \<open>
  The state behind a listening socket. \<open>srv_gen\<close> is the first client identifier that the factory hands out: \<^verbatim>\<open>l3_handler_factory\<close> starts
  with 0, the other factories leave the member uninitialised, and \<open>w_memory\<close> is what is found there.
\<close>

record 'p server =
  srv_proxy :: 'p
  srv_type :: string
  srv_clients :: client_map
  srv_gen :: int
  srv_port :: int

definition thrift_server_create :: "'k world \<Rightarrow> 'p \<Rightarrow> string \<Rightarrow> client_map \<Rightarrow> int \<Rightarrow> 'p server" where
  "thrift_server_create w p ptype m pt = \<lparr>srv_proxy = p, srv_type = ptype, srv_clients = m, srv_gen = w_memory w, srv_port = pt\<rparr>"

definition l1_server_create :: "'k world \<Rightarrow> l1_proxy \<Rightarrow> string \<Rightarrow> client_map \<Rightarrow> int \<Rightarrow> l1_proxy server" where
  "l1_server_create w p ptype m pt = \<lparr>srv_proxy = p, srv_type = ptype, srv_clients = m, srv_gen = w_memory w, srv_port = pt\<rparr>"

text \<open>The handler of the second layer has neither a client map nor client identifiers.\<close>

definition l2_server_create :: "l2_proxy \<Rightarrow> int \<Rightarrow> l2_proxy server" where
  "l2_server_create p pt = \<lparr>srv_proxy = p, srv_type = [], srv_clients = [], srv_gen = 0, srv_port = pt\<rparr>"

definition l3_server_create :: "'k l3_proxy \<Rightarrow> client_map \<Rightarrow> int \<Rightarrow> 'k l3_proxy server" where
  "l3_server_create p m pt = \<lparr>srv_proxy = p, srv_type = [], srv_clients = m, srv_gen = 0, srv_port = pt\<rparr>"

text \<open>A new connection, whose protocol object is \<open>prot\<close>, gets a handler of its own.\<close>

definition get_handler :: "'p server \<Rightarrow> nat \<Rightarrow> 'p handler" where
  "get_handler s prot = handler_new (srv_proxy s) (srv_type s) (srv_gen s) prot (srv_clients s)"

section \<open>Options\<close>

text \<open>
  \<^verbatim>\<open>std::atoi\<close> is \<^verbatim>\<open>std::stoi\<close> without errors: no number is 0, a number out of range is undefined behaviour.
\<close>

definition atoi :: "string \<Rightarrow> int outcome" where
  "atoi s =
     (case stoi s of
        Inr v \<Rightarrow> Inr v
      | Inl (Invalid_argument _) \<Rightarrow> Inr 0
      | Inl _ \<Rightarrow> Inl (Undefined_behaviour ''atoi''))"

record options =
  o_hosts_file :: string
  o_dist_file :: string
  o_instance :: string
  o_no_all_false :: bool
  o_stats :: bool
  o_uc_enabled :: bool
  o_security_batch :: int
  o_ack_batch :: int
  o_storage_batch :: "int option"
  o_num_cores :: int
  o_encryption :: bool
  o_resp_delivery :: bool
  o_kv_interaction :: bool
  o_ack_delivery :: bool
  o_multi_threaded :: bool
  o_object_size :: int
  o_trace_file :: string
  o_fail_node :: string
  o_fail_host :: "string option"
  o_setup :: bool
  o_delay_sec :: int

text \<open>The initial values of the local variables; \<^verbatim>\<open>storage_batch_size\<close> of \<^verbatim>\<open>l3_main\<close> has none.\<close>

definition options_new :: options where
  "options_new =
     \<lparr>o_hosts_file = [], o_dist_file = [], o_instance = [], o_no_all_false = False, o_stats = False, o_uc_enabled = True,
      o_security_batch = 3, o_ack_batch = 1, o_storage_batch = None, o_num_cores = 1, o_encryption = True, o_resp_delivery = True,
      o_kv_interaction = True, o_ack_delivery = True, o_multi_threaded = False, o_object_size = 1000, o_trace_file = [],
      o_fail_node = [], o_fail_host = None, o_setup = False, o_delay_sec = 15\<rparr>"

type_synonym option_reader = "char \<Rightarrow> string \<Rightarrow> options \<Rightarrow> options outcome"

fun parse_options :: "option_reader \<Rightarrow> (char \<times> string) list \<Rightarrow> options \<Rightarrow> options outcome" where
  "parse_options rd [] opts = Inr opts"
| "parse_options rd ((c, arg) # rest) opts = bind_out (rd c arg opts) (parse_options rd rest)"

text \<open>\<^verbatim>\<open>pancake_main\<close> and \<^verbatim>\<open>enc_main\<close> read the same options; \<^verbatim>\<open>-g\<close> changes the log level. Any other option ends the program.\<close>

definition pancake_option :: option_reader where
  "pancake_option c arg opts =
     (if c = CHR ''h'' then Inr (opts\<lparr>o_hosts_file := arg\<rparr>)
      else if c = CHR ''d'' then Inr (opts\<lparr>o_dist_file := arg\<rparr>)
      else if c = CHR ''i'' then Inr (opts\<lparr>o_instance := arg\<rparr>)
      else if c = CHR ''g'' then Inr opts
      else if c = CHR ''c'' then bind_out (atoi arg) (\<lambda>v. Inr (opts\<lparr>o_num_cores := v\<rparr>))
      else if c = CHR ''f'' then Inr (opts\<lparr>o_no_all_false := True\<rparr>)
      else if c = CHR ''l'' then Inr (opts\<lparr>o_stats := True\<rparr>)
      else if c = CHR ''b'' then bind_out (atoi arg) (\<lambda>v. Inr (opts\<lparr>o_security_batch := v\<rparr>))
      else if c = CHR ''s'' then bind_out (atoi arg) (\<lambda>v. Inr (opts\<lparr>o_storage_batch := Some v\<rparr>))
      else Inl Process_exit)"

definition l1_option :: option_reader where
  "l1_option c arg opts =
     (if c = CHR ''h'' then Inr (opts\<lparr>o_hosts_file := arg\<rparr>)
      else if c = CHR ''d'' then Inr (opts\<lparr>o_dist_file := arg\<rparr>)
      else if c = CHR ''i'' then Inr (opts\<lparr>o_instance := arg\<rparr>)
      else if c = CHR ''g'' then Inr opts
      else if c = CHR ''c'' then bind_out (atoi arg) (\<lambda>v. Inr (opts\<lparr>o_num_cores := v\<rparr>))
      else if c = CHR ''f'' then Inr (opts\<lparr>o_no_all_false := True\<rparr>)
      else if c = CHR ''l'' then Inr (opts\<lparr>o_stats := True\<rparr>)
      else if c = CHR ''b'' then bind_out (atoi arg) (\<lambda>v. Inr (opts\<lparr>o_security_batch := v\<rparr>))
      else if c = CHR ''y'' then bind_out (atoi arg) (\<lambda>v. Inr (opts\<lparr>o_ack_batch := v\<rparr>))
      else Inl Process_exit)"

definition l2_option :: option_reader where
  "l2_option c arg opts =
     (if c = CHR ''h'' then Inr (opts\<lparr>o_hosts_file := arg\<rparr>)
      else if c = CHR ''d'' then Inr (opts\<lparr>o_dist_file := arg\<rparr>)
      else if c = CHR ''i'' then Inr (opts\<lparr>o_instance := arg\<rparr>)
      else if c = CHR ''g'' then Inr opts
      else if c = CHR ''c'' then bind_out (atoi arg) (\<lambda>v. Inr (opts\<lparr>o_num_cores := v\<rparr>))
      else if c = CHR ''u'' then Inr (opts\<lparr>o_uc_enabled := False\<rparr>)
      else if c = CHR ''l'' then Inr (opts\<lparr>o_stats := True\<rparr>)
      else if c = CHR ''y'' then bind_out (atoi arg) (\<lambda>v. Inr (opts\<lparr>o_ack_batch := v\<rparr>))
      else Inl Process_exit)"

definition l3_option :: option_reader where
  "l3_option c arg opts =
     (if c = CHR ''h'' then Inr (opts\<lparr>o_hosts_file := arg\<rparr>)
      else if c = CHR ''i'' then Inr (opts\<lparr>o_instance := arg\<rparr>)
      else if c = CHR ''s'' then bind_out (atoi arg) (\<lambda>v. Inr (opts\<lparr>o_storage_batch := Some v\<rparr>))
      else if c = CHR ''g'' then Inr opts
      else if c = CHR ''c'' then bind_out (atoi arg) (\<lambda>v. Inr (opts\<lparr>o_num_cores := v\<rparr>))
      else if c = CHR ''p'' then Inr (opts\<lparr>o_encryption := False\<rparr>)
      else if c = CHR ''r'' then Inr (opts\<lparr>o_resp_delivery := False\<rparr>)
      else if c = CHR ''k'' then Inr (opts\<lparr>o_kv_interaction := False\<rparr>)
      else if c = CHR ''a'' then Inr (opts\<lparr>o_ack_delivery := False\<rparr>)
      else if c = CHR ''l'' then Inr (opts\<lparr>o_stats := True\<rparr>)
      else if c = CHR ''y'' then bind_out (atoi arg) (\<lambda>v. Inr (opts\<lparr>o_ack_batch := v\<rparr>))
      else if c = CHR ''m'' then Inr (opts\<lparr>o_multi_threaded := True\<rparr>)
      else Inl Process_exit)"

definition init_option :: option_reader where
  "init_option c arg opts =
     (if c = CHR ''h'' then Inr (opts\<lparr>o_hosts_file := arg\<rparr>)
      else if c = CHR ''o'' then bind_out (atoi arg) (\<lambda>v. Inr (opts\<lparr>o_object_size := v\<rparr>))
      else if c = CHR ''t'' then Inr (opts\<lparr>o_trace_file := arg\<rparr>)
      else if c = CHR ''d'' then Inr (opts\<lparr>o_dist_file := arg\<rparr>)
      else Inl Process_exit)"

definition dump_option :: option_reader where
  "dump_option c arg opts = (if c = CHR ''d'' then Inr (opts\<lparr>o_dist_file := arg\<rparr>) else Inl Process_exit)"

definition manager_option :: option_reader where
  "manager_option c arg opts =
     (if c = CHR ''h'' then Inr (opts\<lparr>o_hosts_file := arg\<rparr>)
      else if c = CHR ''f'' then Inr (opts\<lparr>o_fail_node := arg\<rparr>)
      else if c = CHR ''s'' then Inr (opts\<lparr>o_setup := True\<rparr>)
      else if c = CHR ''k'' then Inr (opts\<lparr>o_fail_host := Some arg\<rparr>)
      else if c = CHR ''z'' then bind_out (atoi arg) (\<lambda>v. Inr (opts\<lparr>o_delay_sec := v\<rparr>))
      else Inl Process_exit)"

section \<open>Starting the workers\<close>

definition load_hosts :: "'k world \<Rightarrow> options \<Rightarrow> host list outcome" where
  "load_hosts w opts =
     (case hi_load (w_text w (o_hosts_file opts)) [] of (ok, hs) \<Rightarrow> if ok then Inr hs else Inl Process_exit)"

definition find_instance :: "host list \<Rightarrow> options \<Rightarrow> host outcome" where
  "find_instance hs opts = (case get_host hs (o_instance opts) of None \<Rightarrow> Inl Process_exit | Some h \<Rightarrow> Inr h)"

text \<open>Opening a distribution file that does not exist throws.\<close>

definition load_distinfo :: "'k world \<Rightarrow> options \<Rightarrow> distribution_info outcome" where
  "load_distinfo w opts =
     (case w_dist w (o_dist_file opts) of
        None \<Rightarrow> Inl (Transport_error ''open'')
      | Some f \<Rightarrow> distinfo_load f distribution_info_new)"

text \<open>The vectors of \<^verbatim>\<open>num_workers\<close> elements are created first; a negative number throws \<^verbatim>\<open>std::length_error\<close>.\<close>

definition start_workers :: "host \<Rightarrow> (nat \<Rightarrow> 'p server outcome) \<Rightarrow> 'p server list outcome" where
  "start_workers this f =
     (if num_workers this < 0 then Inl (Logic_error ''length_error'') else map_out f [0..<nat (num_workers this)])"

definition run_init :: "('s, unit) cpp \<Rightarrow> 's \<Rightarrow> 's outcome" where
  "run_init m s = (case m s of (Inl e, _) \<Rightarrow> Inl e | (Inr _, t) \<Rightarrow> Inr t)"

definition pancake_main :: "'k world \<Rightarrow> string list \<Rightarrow> 'k p_proxy server list outcome" where
  "pancake_main w args =
     bind_out (parse_options pancake_option (w_getopt w ''h:d:i:gc:flb:s:'' args) (options_new\<lparr>o_storage_batch := Some 1\<rparr>)) (\<lambda>opts.
     bind_out (load_hosts w opts) (\<lambda>hs.
     bind_out (find_instance hs opts) (\<lambda>this.
     bind_out (load_distinfo w opts) (\<lambda>dinfo.
       start_workers this (\<lambda>i.
         bind_out (p_proxy_new (w_openssl w)) (\<lambda>p0.
         bind_out (run_init (pp_init_proxy (w_env w i) (w_openssl w) hs (o_instance opts) dinfo (int i) client_map_new
                     (the (o_storage_batch opts)) (uc_new [])) p0) (\<lambda>p.
           Inr (thrift_server_create w (p\<lparr>pp_security_batch_size := o_security_batch opts\<rparr>) ''pancake'' client_map_new
                 (port this + int i)))))))))"

definition enc_main :: "'k world \<Rightarrow> string list \<Rightarrow> 'k enc_proxy server list outcome" where
  "enc_main w args =
     bind_out (parse_options pancake_option (w_getopt w ''h:d:i:gc:flb:s:'' args) (options_new\<lparr>o_storage_batch := Some 1\<rparr>)) (\<lambda>opts.
     bind_out (load_hosts w opts) (\<lambda>hs.
     bind_out (find_instance hs opts) (\<lambda>this.
       start_workers this (\<lambda>i.
         bind_out (enc_proxy_new (w_openssl w)) (\<lambda>p0.
         bind_out (run_init (ep_init_proxy (w_env w i) (w_openssl w) hs (o_instance opts) (int i) client_map_new
                     (the (o_storage_batch opts))) p0) (\<lambda>p.
           Inr (thrift_server_create w p ''enc'' client_map_new (port this + int i))))))))"

definition l1_main :: "'k world \<Rightarrow> string list \<Rightarrow> l1_proxy server list outcome" where
  "l1_main w args =
     bind_out (parse_options l1_option (w_getopt w ''h:d:i:gc:flb:y:'' args) options_new) (\<lambda>opts.
     bind_out (load_hosts w opts) (\<lambda>hs.
     bind_out (find_instance hs opts) (\<lambda>this.
     bind_out (load_distinfo w opts) (\<lambda>dinfo.
       start_workers this (\<lambda>i.
         bind_out (run_init (l1_init_proxy (w_env w i) hs (o_instance opts) dinfo (int i) (o_no_all_false opts) (o_stats opts)
                     (o_ack_batch opts)) l1_proxy_new) (\<lambda>p.
           Inr (l1_server_create w (p\<lparr>security_batch_size := o_security_batch opts\<rparr>) ''l1'' client_map_new (port this + int i))))))))"

definition l2_main :: "'k world \<Rightarrow> string list \<Rightarrow> l2_proxy server list outcome" where
  "l2_main w args =
     bind_out (parse_options l2_option (w_getopt w ''h:d:i:gc:u:ly:'' args) options_new) (\<lambda>opts.
     bind_out (load_hosts w opts) (\<lambda>hs.
     bind_out (find_instance hs opts) (\<lambda>this.
     bind_out (load_distinfo w opts) (\<lambda>dinfo.
       start_workers this (\<lambda>i.
         bind_out (run_init (l2_init_proxy (w_env w i) hs (o_instance opts) dinfo (uc_new []) (o_uc_enabled opts) (int i) (o_stats opts)
                     (o_ack_batch opts)) l2_proxy_new) (\<lambda>p.
           Inr (l2_server_create p (port this + int i))))))))"

text \<open>Without \<^verbatim>\<open>-s\<close> the storage batch size is read uninitialised.\<close>

definition l3_main :: "'k world \<Rightarrow> string list \<Rightarrow> 'k l3_proxy server list outcome" where
  "l3_main w args =
     bind_out (parse_options l3_option (w_getopt w ''h:i:s:gc:prkaly:m'' args) options_new) (\<lambda>opts.
     bind_out (load_hosts w opts) (\<lambda>hs.
     bind_out (find_instance hs opts) (\<lambda>this.
       start_workers this (\<lambda>i.
         bind_out (case o_storage_batch opts of None \<Rightarrow> Inl (Undefined_behaviour ''uninitialised variable'') | Some n \<Rightarrow> Inr n) (\<lambda>n.
         bind_out (run_init (l3_init_proxy (w_env w i) (w_openssl w) hs (o_instance opts) n client_map_new (o_encryption opts)
                     (o_resp_delivery opts) (o_kv_interaction opts) (int i) 1000000 (o_ack_delivery opts) (o_stats opts)
                     (o_ack_batch opts)) l3_proxy_new) (\<lambda>p.
           Inr (l3_server_create p client_map_new (port this + int i))))))))"

section \<open>The other programs\<close>

text \<open>
  \<^verbatim>\<open>initializer::init\<close>: connect to the storage servers, draw the dummy key and the initial value, and create the replicas. The batches that
  are put are in the state that results; that the storage servers accept them is taken for granted.
\<close>

definition initializer_connect :: "(string \<Rightarrow> int \<Rightarrow> bool) \<Rightarrow> host list \<Rightarrow> unit redis outcome" where
  "initializer_connect up hs =
     (let kvs = get_hosts_by_type hs HOST_TYPE_KV in
      bind_out (vec_at kvs 0) (\<lambda>kv.
      bind_out (redis_new up (hostname kv) (port kv) 1) (\<lambda>st.
        run_init (for_each (tl kvs) (\<lambda>h. redis_add_server up (hostname h) (port h))) st)))"

definition initial_dummy :: "'k world \<Rightarrow> string" where
  "initial_dummy w = rand_str (map (w_draw w) [0..<16])"

definition initial_value :: "'k world \<Rightarrow> int \<Rightarrow> string" where
  "initial_value w object_size = rand_str (map (w_draw w) [16..<16 + nat object_size])"

definition initializer_init :: "'k world \<Rightarrow> distribution \<Rightarrow> int \<Rightarrow> host list \<Rightarrow> init_state outcome" where
  "initializer_init w rdist object_size hs =
     bind_out (encryption_engine_new (w_openssl w)) (\<lambda>g.
     bind_out (initializer_connect (env_up (w_env w 0)) hs) (\<lambda>_.
     bind_out (ee_encrypt (w_openssl w) g (initial_value w object_size)) (\<lambda>c.
       Inr (create_replicas c (init_info rdist (initial_dummy w))))))"

text \<open>The result is the name and the content of the distribution file and the batches put into the storage.\<close>

definition init_main :: "'k world \<Rightarrow> string list \<Rightarrow> (string \<times> tfield list \<times> (string list \<times> string list) list) outcome" where
  "init_main w args =
     bind_out (parse_options init_option (w_getopt w ''h:o:t:d:'' args) options_new) (\<lambda>opts.
     bind_out (load_hosts w opts) (\<lambda>hs.
     bind_out (load_frequencies_from_trace (w_iter w) (ndebug (w_openssl w)) (w_text w (o_trace_file opts)) [] 50) (\<lambda>(dist, tr).
     bind_out (initializer_init w dist (o_object_size opts) hs) (\<lambda>s.
     bind_out (distinfo_dump (w_iter w) (in_info s)) (\<lambda>f. Inr (o_dist_file opts, f, in_puts s))))))"

definition dump_dist :: "'k world \<Rightarrow> distribution \<Rightarrow> string list outcome" where
  "dump_dist w d =
     map_out (\<lambda>i. bind_out (vec_at (dist_probs d) (int i)) (\<lambda>p. Inr (dist_items d ! i @ '' '' @ w_show w p))) [0..<length (dist_items d)]"

definition dump_main :: "'k world \<Rightarrow> string list \<Rightarrow> string list outcome" where
  "dump_main w args =
     bind_out (parse_options dump_option (w_getopt w ''d:'' args) options_new) (\<lambda>opts.
     bind_out (load_distinfo w opts) (\<lambda>dinfo.
     bind_out (dump_dist w (real_distribution dinfo)) (\<lambda>rl.
     bind_out (dump_dist w (fake_distribution dinfo)) (\<lambda>fk.
       Inr ([''dummy_key: '' @ dummy_key dinfo, ''num_keys: '' @ to_string (num_keys dinfo), ''real_distribution:''] @ rl @
            [''fake_distribution:''] @ fk @
            [''key_to_number_of_replicas:''] @ map (\<lambda>(k, n). k @ '' '' @ to_string n) (w_iter w (key_to_number_of_replicas dinfo)) @
            [''replica_to_label:''] @ map (\<lambda>(k, n). k @ '' '' @ to_string n) (w_iter w (replica_to_label dinfo)))))))"

text \<open>\<^verbatim>\<open>-s\<close> comes first, then \<^verbatim>\<open>-k\<close>; without either the node named by \<^verbatim>\<open>-f\<close> fails.\<close>

definition manager_main :: "'k world \<Rightarrow> string list \<Rightarrow> manager outcome" where
  "manager_main w args =
     (let up = env_up (w_env w 0) in
      bind_out (parse_options manager_option (w_getopt w ''h:f:sk:z:'' args) options_new) (\<lambda>opts.
      bind_out (load_hosts w opts) (\<lambda>hs.
        run_init (seqM (mg_init up hs)
          (if o_setup opts then setup_reverse_connections up
           else case o_fail_host opts of
               Some h \<Rightarrow> fail_host up (w_fetch w) h
             | None \<Rightarrow> fail_node up (w_fetch w) (o_fail_node opts))) manager_new)))"

text \<open>
  \<^verbatim>\<open>redisdbg_main\<close> adds up the frequencies of the keys of each of at most 16 buckets; \<open>args\<close> begins with the name of the program.
\<close>

definition add_load :: "int \<Rightarrow> string \<times> rat \<Rightarrow> (rat list, unit) cpp" where
  "add_load n kp ld =
     (case vec_at ld (consistent_hash (fst kp) n) of
        Inl e \<Rightarrow> (Inl e, ld)
      | Inr x \<Rightarrow> (Inr (), ld[nat (consistent_hash (fst kp) n) := dadd x (snd kp)]))"

definition redisdbg_main :: "'k world \<Rightarrow> string list \<Rightarrow> rat list outcome" where
  "redisdbg_main w args =
     (if length args < 3 then Inl (Undefined_behaviour ''null pointer'')
      else
        bind_out (load_frequencies_from_trace (w_iter w) (ndebug (w_openssl w)) (w_text w (args ! 1)) [] 50) (\<lambda>(dist, tr).
        bind_out (atoi (args ! 2)) (\<lambda>n.
          if 16 < n then Inl (Undefined_behaviour ''array index'')
          else run_init (for_each (zip (dist_items dist) (dist_probs dist)) (add_load n)) (replicate (nat n) 0))))"

datatype 'k process =
    Pancake_servers "'k p_proxy server list"
  | Enc_servers "'k enc_proxy server list"
  | L1_servers "l1_proxy server list"
  | L2_servers "l2_proxy server list"
  | L3_servers "'k l3_proxy server list"
  | Initialised string "tfield list" "(string list \<times> string list) list"
  | Dumped "string list"
  | Managed manager
  | Loads "rat list"

definition map_out_with :: "('a \<Rightarrow> 'b) \<Rightarrow> 'a outcome \<Rightarrow> 'b outcome" where
  "map_out_with f r = bind_out r (\<lambda>x. Inr (f x))"

definition server_main :: "'k world \<Rightarrow> string list \<Rightarrow> 'k process outcome" where
  "server_main w argv =
     (if length argv < 2 then Inl Process_exit
      else
        (let t = argv ! 1; args = drop 1 argv in
         if t = ''pancake'' then map_out_with Pancake_servers (pancake_main w args)
         else if t = ''l1'' then map_out_with L1_servers (l1_main w args)
         else if t = ''l2'' then map_out_with L2_servers (l2_main w args)
         else if t = ''l3'' then map_out_with L3_servers (l3_main w args)
         else if t = ''init'' then map_out_with (\<lambda>(n, f, p). Initialised n f p) (init_main w args)
         else if t = ''dump'' then map_out_with Dumped (dump_main w args)
         else if t = ''manager'' then map_out_with Managed (manager_main w args)
         else if t = ''redisdbg'' then map_out_with Loads (redisdbg_main w args)
         else if t = ''enc'' then map_out_with Enc_servers (enc_main w args)
         else Inl Process_exit))"

section \<open>Workers of the first layer\<close>

lemma for_each_succeeds:
  "(\<And>x t. x \<in> set xs \<Longrightarrow> fst (body x t) = Inr ()) \<Longrightarrow> fst (for_each xs body s) = Inr ()"
proof (induction xs arbitrary: s)
  case (Cons x xs)
  obtain t where "body x s = (Inr (), t)" using Cons.prems [of x s] by (cases "body x s") auto
  then show ?case using Cons by (simp add: for_each_Cons del: for_each.simps)
qed (simp add: for_each_Nil del: for_each.simps)

lemma run_init_succeeds: "fst (m s) = Inr () \<Longrightarrow> run_init m s = Inr (snd (m s))"
  by (cases "m s") (simp add: run_init_def)

text \<open>What the environment and the layout have to provide.\<close>

definition all_up :: "'k world \<Rightarrow> bool" where
  "all_up w \<longleftrightarrow> (\<forall>i h p. env_up (w_env w i) h p)"

definition columns_filled :: "host list \<Rightarrow> int \<Rightarrow> bool" where
  "columns_filled hs t \<longleftrightarrow> (\<forall>i < nat (get_num_columns hs t False). get_replicas hs t (int i) \<noteq> [])"

lemma l2_connect_succeeds:
  assumes "\<And>h p. up h p" "columns_filled hs HOST_TYPE_L2"
  shows "\<exists>i. l2_connect up (l2_iface_new hs dummy) = (Inr (), i)"
proof -
  have "fst (for_each [0..<nat (get_num_columns hs HOST_TYPE_L2 False)] (\<lambda>i.
         bnd (lift_out (vec_at (get_replicas hs HOST_TYPE_L2 (int i)) 0)) (\<lambda>h.
         bnd (lift_out (open_workers up (hostname h) (port h) (num_workers h))) (\<lambda>clients.
           modify (\<lambda>s. s\<lparr>l2_clients := l2_clients s @ [clients]\<rparr>)))) s) = Inr ()" for s :: l2_iface
    by (rule for_each_succeeds)
      (use assms in \<open>auto simp: columns_filled_def cpp_simps vec_at_def open_workers_ok\<close>)
  then have "fst (l2_connect up (l2_iface_new hs dummy)) = Inr ()"
    by (simp add: l2_connect_def bnd_apply gets_apply l2_iface_new_def del: for_each.simps)
  then show ?thesis by (cases "l2_connect up (l2_iface_new hs dummy)") simp
qed

lemma next_reset_succeeds:
  assumes "\<And>h p. up h p" "bid_parse name = Inr b"
  shows "name = ''nil'' \<or>
    next_reset up name c = (Inr True, \<lparr>rc_host = bid_host b, rc_port = service_port b, rc_block_id = bid_id b, rc_client = True,
      rc_open = True, rc_sent = []\<rparr>)"
  using assms by (simp add: next_reset_def cpp_simps rc_connect_def)

text \<open>The connection of a replica to the worker with the same index of the next replica of its column.\<close>

definition connected_to :: "int \<Rightarrow> host \<Rightarrow> request_client \<Rightarrow> bool" where
  "connected_to l h c \<longleftrightarrow> rc_client c \<and> rc_open c \<and> rc_host c = hostname h \<and> rc_port c = port h + l \<and> rc_block_id c = l"

text \<open>A worker of the first layer as \<^verbatim>\<open>init_proxy\<close> leaves it.\<close>

definition l1_started :: "distribution_info \<Rightarrow> host list \<Rightarrow> nat \<Rightarrow> int \<Rightarrow> l1_proxy \<Rightarrow> bool" where
  "l1_started dinfo reps j l p \<longleftrightarrow>
     role p = chain_role_at reps (reps ! j) \<and> l1_replicas_of p = key_to_number_of_replicas dinfo \<and>
     l1_real p = real_distribution dinfo \<and> l1_fake p = fake_distribution dinfo \<and> l1_dummy_key p = dummy_key dinfo \<and>
     internal_queue p = [] \<and> seqs_fresh p \<and>
     (j + 1 < length reps \<longrightarrow> connected_to l (reps ! (j + 1)) (next_cxn p)) \<and>
     (j + 1 = length reps \<longrightarrow> l1_l2_iface p \<noteq> None)"

lemma l1_setup_started:
  assumes up: "\<And>h p. env_up e h p" and filled: "columns_filled (l1_hosts s) HOST_TYPE_L2"
    and reps: "column_ok reps" "list_all (worker_addr_ok l) reps" "j < length reps"
    and s: "l1_replicas_of s = key_to_number_of_replicas dinfo" "l1_real s = real_distribution dinfo"
      "l1_fake s = fake_distribution dinfo" "l1_dummy_key s = dummy_key dinfo" "internal_queue s = []" "seqs_fresh s" "l1_l2_iface s = None"
  shows "\<exists>p. chain_setup (l1_app e) (env_up e) chn (chain_role_at reps (reps ! j)) (next_block_at l reps (reps ! j)) s = (Inr (), p) \<and>
           l1_started dinfo reps j l p"
proof -
  let ?rl = "chain_role_at reps (reps ! j)"
  have role: "?rl = (if length reps = 1 then Singleton else if j = 0 then Head else if j + 1 = length reps then Tail else Mid)"
    using chain_role_at_nth [OF _ reps(3)] reps(1) by (simp add: column_ok_def)
  obtain c r where c: "next_reset (env_up e) (next_block_at l reps (reps ! j)) (next_cxn s) = (Inr r, c)"
    "j + 1 < length reps \<Longrightarrow> connected_to l (reps ! (j + 1)) c"
  proof (cases "j + 1 < length reps")
    case True
    let ?h = "reps ! (j + 1)"
    have addr: "worker_addr_ok l ?h" using reps(2) True by (simp add: list_all_length)
    then have "bid_parse (worker_block l ?h) =
        Inr \<lparr>bid_host = hostname ?h, service_port = port ?h + l, management_port = port ?h + l, bid_id = l\<rparr>"
      by (simp add: worker_block_def block_id_make_parse worker_addr_ok_def)
    moreover have "bid_parse ''nil'' \<noteq> Inr b" for b
      by code_simp
    ultimately show thesis
      using next_reset_succeeds [where up = "env_up e", OF up] next_block_at_nth [OF reps(1,3), of l] True that
      by (fastforce simp: connected_to_def)
  next
    case False
    then have "next_block_at l reps (reps ! j) = ''nil''" using next_block_at_nth [OF reps(1,3), of l] by simp
    with False that show thesis by (simp add: next_reset_def cpp_simps)
  qed
  define s1 where "s1 = s\<lparr>replica_chain := chn, role := ?rl, next_cxn := c\<rparr>"
  define s2 where "s2 = (if r \<and> ?rl \<noteq> Tail then s1\<lparr>response_processor := True\<rparr> else s1)"
  have run: "chain_setup (l1_app e) (env_up e) chn ?rl (next_block_at l reps (reps ! j)) s = l1_setup_callback e s2"
    using c(1) by (simp add: chain_setup_def cpp_simps on_next_def s2_def s1_def l1_app_def)
  have "columns_filled (l1_hosts s2) HOST_TYPE_L2" using filled by (simp add: s2_def s1_def)
  then obtain i where i: "l2_connect (env_up e) (l2_iface_new (l1_hosts s2) (l1_dummy_key s2)) = (Inr (), i)"
    using l2_connect_succeeds [of "env_up e", OF up] by blast
  have tail: "is_tail s2 \<longleftrightarrow> j + 1 = length reps"
    using role reps(3) by (auto simp: s2_def s1_def is_tail_def)
  show ?thesis unfolding run l1_setup_callback_def
    using c(2) s i tail by (auto simp: l1_started_def s2_def s1_def seqs_fresh_def)
qed

lemma l1_started_ok:
  assumes "l1_started dinfo reps j l p" "tables_ok dinfo" "0 < b" "b < 2 ^ 31"
  shows "l1_ok (p\<lparr>security_batch_size := b\<rparr>)"
proof -
  have sub: "set (dist_items (real_distribution dinfo)) \<union> set (dist_items (fake_distribution dinfo)) \<subseteq> dom (map_of (key_to_number_of_replicas dinfo))"
    and len: "length (dist_probs (real_distribution dinfo)) = length (dist_items (real_distribution dinfo))"
      "length (dist_probs (fake_distribution dinfo)) = length (dist_items (fake_distribution dinfo))"
    and ne: "dist_items (real_distribution dinfo) \<noteq> []" "dist_items (fake_distribution dinfo) \<noteq> []"
    using assms(2) by (simp_all add: tables_ok_def distribution_info_ok_def dist_ok_def)
  have "samples_ok (key_to_number_of_replicas dinfo) (real_distribution dinfo)"
    "samples_ok (key_to_number_of_replicas dinfo) (fake_distribution dinfo)"
    unfolding samples_ok_def using sub len ne by (auto simp flip: length_greater_0_conv)
  moreover have "\<forall>n \<in> ran (map_of (key_to_number_of_replicas dinfo)). 0 < n \<and> n < 2 ^ 31"
    using assms(2) by (auto simp: tables_ok_def ran_def)
  ultimately show ?thesis using assms(1,3,4) by (simp add: l1_ok_def l1_started_def)
qed

lemma replica_of_instance:
  assumes "get_host hs name = Some this" "h_type this = t"
  obtains j where "j < length (get_replicas hs t (column this))" "get_replicas hs t (column this) ! j = this"
proof -
  have "this \<in> set hs" using assms(1) by (auto simp: get_host_def find_Some_iff)
  then have "this \<in> set (get_replicas hs t (column this))" using assms(2) by (simp add: get_replicas_def)
  then show thesis using that by (auto simp: in_set_conv_nth)
qed

lemma l1_init_started:
  assumes up: "\<And>h p. env_up e h p" and inst: "get_host hs name = Some this"
    and reps: "reps = get_replicas hs HOST_TYPE_L1 (column this)" "column_ok reps" "list_all (worker_addr_ok l) reps"
      "j < length reps" "reps ! j = this" and filled: "columns_filled hs HOST_TYPE_L2"
  shows "\<exists>p. run_init (l1_init_proxy e hs name dinfo l naf st n) l1_proxy_new = Inr p \<and> l1_started dinfo reps j l p"
proof -
  define s where "s = l1_proxy_new\<lparr>l1_hosts := hs, l1_instance_name := name, disable_all_false := naf, l1_stats := st,
      chain_ack_batch_size := n, l1_num_keys := num_keys dinfo, l1_dummy_key := dummy_key dinfo,
      l1_delta := 1 / 2, l1_replicas_of := key_to_number_of_replicas dinfo,
      l1_fake := fake_distribution dinfo, l1_real := real_distribution dinfo, l1_idx_no := the (get_base_idx hs name) + l\<rparr>"
  have f: "l1_hosts s = hs" "l1_replicas_of s = key_to_number_of_replicas dinfo" "l1_real s = real_distribution dinfo"
    "l1_fake s = fake_distribution dinfo" "l1_dummy_key s = dummy_key dinfo" "internal_queue s = []" "seqs_fresh s" "l1_l2_iface s = None"
    by (simp_all add: s_def l1_proxy_new_def chain_module.extend_def l1_proxy.fields_def chain_module_new_def seqs_fresh_def)
  have "l1_init_proxy e hs name dinfo l naf st n l1_proxy_new =
      chain_setup (l1_app e) (env_up e) (map (worker_block l) reps) (chain_role_at reps this) (next_block_at l reps this) s"
    using inst by (simp add: l1_init_proxy_def cpp_simps s_def reps(1) Let_def)
  then show ?thesis
    using l1_setup_started [where e = e and s = s and chn = "map (worker_block l) reps", OF up _ reps(2,3,4) f(2-)] filled f(1) reps(5)
    by (auto simp: run_init_def)
qed

section \<open>Programs that meet their requirements\<close>

definition encryption_works :: "'k openssl \<Rightarrow> string \<Rightarrow> bool" where
  "encryption_works os v \<longleftrightarrow> (\<exists>g c. encryption_engine_new os = Inr g \<and> ee_encrypt os g v = Inr c)"

definition init_ready :: "'k world \<Rightarrow> string list \<Rightarrow> options \<Rightarrow> bool" where
  "init_ready w args opts \<longleftrightarrow>
     parse_options init_option (w_getopt w ''h:o:t:d:'' args) options_new = Inr opts \<and>
     (\<exists>hs. load_hosts w opts = Inr hs \<and> get_hosts_by_type hs HOST_TYPE_KV \<noteq> []) \<and>
     encryption_works (w_openssl w) (initial_value w (o_object_size opts))"

definition workload_ok :: "'k world \<Rightarrow> options \<Rightarrow> distribution \<Rightarrow> bool" where
  "workload_ok w opts d \<longleftrightarrow>
     (\<exists>tr. load_frequencies_from_trace (w_iter w) (ndebug (w_openssl w)) (w_text w (o_trace_file opts)) [] 50 = Inr (d, tr)) \<and>
     smoothing_ok d \<and> dist_items d \<noteq> [] \<and> initial_dummy w \<notin> set (dist_items d)"

definition l1_ready :: "'k world \<Rightarrow> string list \<Rightarrow> options \<Rightarrow> host list \<Rightarrow> host \<Rightarrow> bool" where
  "l1_ready w args opts hs this \<longleftrightarrow>
     parse_options l1_option (w_getopt w ''h:d:i:gc:flb:y:'' args) options_new = Inr opts \<and> load_hosts w opts = Inr hs \<and>
     get_host hs (o_instance opts) = Some this \<and> h_type this = HOST_TYPE_L1 \<and> 0 \<le> num_workers this \<and>
     column_ok (get_replicas hs HOST_TYPE_L1 (column this)) \<and>
     (\<forall>i < nat (num_workers this). list_all (worker_addr_ok (int i)) (get_replicas hs HOST_TYPE_L1 (column this))) \<and>
     columns_filled hs HOST_TYPE_L2 \<and> 0 < o_security_batch opts \<and> o_security_batch opts < 2 ^ 31"

lemma load_frequencies_dist_ok:
  assumes "iter_ok iter" "load_frequencies_from_trace iter ndbg file tr0 n = Inr (d, tr)"
  shows "dist_ok d"
proof -
  let ?P = "\<lambda>st. table_ok (key_to_frequency st)"
  have count: "keeps ?P (count_key k)" for k
    by (rule keepsI) (simp add: count_key_def umap.invar_put)
  have "keeps ?P (trace_line ndbg n line)" for line
    unfolding trace_line_def by (auto simp: Let_def split: prod.splits intro!: keeps_intros count)
      (auto simp: keeps_def modify_apply push_get_def push_put_def Let_def)
  then have keep: "keeps ?P (for_each lines (trace_line ndbg n))" for lines by (auto intro: keeps_intros)
  obtain st where d: "dist_items d = map fst (iter (key_to_frequency st))" "length (dist_probs d) = length (dist_items d)"
    and st: "st = snd (for_each (case file of None \<Rightarrow> [] | Some str \<Rightarrow> split_on (CHR 0x0A) str) (trace_line ndbg n)
      \<lparr>get_keys = [], put_keys = [], put_values = [], tr_trace = tr0, key_to_frequency = [], frequency_sum = 0\<rparr>)"
    using assms(2) unfolding load_frequencies_from_trace_def Let_def
    by (auto simp: distribution_new_def simp del: for_each.simps split: prod.splits sum.splits)
  have "?P st" unfolding st by (rule keepsD [OF keep]) (simp add: table_ok_def)
  then show ?thesis using d iter_ok_distinct [OF assms(1)] by (simp add: dist_ok_def table_ok_def)
qed

lemma initializer_connect_succeeds:
  assumes "\<And>h p. up h p" "get_hosts_by_type hs HOST_TYPE_KV \<noteq> []"
  shows "\<exists>st. initializer_connect up hs = Inr st"
proof -
  have "fst (for_each hs' (\<lambda>h. redis_add_server up (hostname h) (port h)) st) = Inr ()" for hs' and st :: "unit redis"
    by (rule for_each_succeeds) (simp add: redis_add_server_def ri_add_server_def cpp_simps redis_connect_def assms(1))
  then have "\<exists>st'. run_init (for_each hs' (\<lambda>h. redis_add_server up (hostname h) (port h))) st = Inr st'" for hs' and st :: "unit redis"
    by (blast intro: run_init_succeeds)
  then show ?thesis using assms by (simp add: initializer_connect_def vec_at_def redis_new_def redis_interface_new_def redis_connect_def Let_def)
qed

lemma init_main_run:
  assumes "all_up w" "init_ready w args opts"
    and "load_frequencies_from_trace (w_iter w) (ndebug (w_openssl w)) (w_text w (o_trace_file opts)) [] 50 = Inr (d, tr)"
  obtains c where "init_main w args =
    (let s = create_replicas c (init_info d (initial_dummy w)) in
     bind_out (distinfo_dump (w_iter w) (in_info s)) (\<lambda>f. Inr (o_dist_file opts, f, in_puts s)))"
proof -
  obtain hs g c where r: "parse_options init_option (w_getopt w ''h:o:t:d:'' args) options_new = Inr opts"
    "load_hosts w opts = Inr hs" "get_hosts_by_type hs HOST_TYPE_KV \<noteq> []"
    "encryption_engine_new (w_openssl w) = Inr g" "ee_encrypt (w_openssl w) g (initial_value w (o_object_size opts)) = Inr c"
    using assms(2) unfolding init_ready_def encryption_works_def by blast
  obtain st where "initializer_connect (env_up (w_env w 0)) hs = Inr st"
    using initializer_connect_succeeds [of "env_up (w_env w 0)" hs] assms(1) r(3) by (auto simp: all_up_def)
  then have "init_main w args =
    (let s = create_replicas c (init_info d (initial_dummy w)) in
     bind_out (distinfo_dump (w_iter w) (in_info s)) (\<lambda>f. Inr (o_dist_file opts, f, in_puts s)))"
    using r assms(3) by (simp add: init_main_def initializer_init_def Let_def)
  then show thesis by (rule that)
qed

lemma l1_main_run:
  assumes "all_up w" "l1_ready w args opts hs this"
    and "w_dist w (o_dist_file opts) = Some f" "distinfo_load f distribution_info_new = Inr dinfo" "tables_ok dinfo"
  defines "reps \<equiv> get_replicas hs HOST_TYPE_L1 (column this)"
  obtains j ps where "j < length reps" "reps ! j = this" "length ps = nat (num_workers this)"
    "l1_main w args = Inr (map (\<lambda>i. l1_server_create w (ps ! i) ''l1'' client_map_new (port this + int i)) [0..<length ps])"
    "\<And>i. i < length ps \<Longrightarrow> l1_started dinfo reps j (int i) (ps ! i) \<and> l1_ok (ps ! i)"
proof -
  have r: "parse_options l1_option (w_getopt w ''h:d:i:gc:flb:y:'' args) options_new = Inr opts" "load_hosts w opts = Inr hs"
    "get_host hs (o_instance opts) = Some this" "h_type this = HOST_TYPE_L1" "0 \<le> num_workers this" "column_ok reps"
    "\<And>i. i < nat (num_workers this) \<Longrightarrow> list_all (worker_addr_ok (int i)) reps" "columns_filled hs HOST_TYPE_L2"
    "0 < o_security_batch opts" "o_security_batch opts < 2 ^ 31"
    using assms(2) by (simp_all add: l1_ready_def reps_def)
  obtain j where j: "j < length reps" "reps ! j = this" using replica_of_instance [OF r(3,4)] by (auto simp: reps_def)
  have up: "env_up (w_env w i) h p" for i h p using assms(1) by (simp add: all_up_def)
  let ?init = "\<lambda>i. run_init (l1_init_proxy (w_env w i) hs (o_instance opts) dinfo (int i) (o_no_all_false opts) (o_stats opts)
      (o_ack_batch opts)) l1_proxy_new"
  have "\<exists>p. ?init i = Inr p \<and> l1_started dinfo reps j (int i) p" if "i < nat (num_workers this)" for i
    using l1_init_started [where e = "w_env w i", OF up r(3) reps_def [THEN meta_eq_to_obj_eq] r(6) r(7) [OF that] j r(8)] .
  then obtain q where q: "\<And>i. i < nat (num_workers this) \<Longrightarrow> ?init i = Inr (q i) \<and> l1_started dinfo reps j (int i) (q i)"
    by metis
  define ps where "ps = map (\<lambda>i. (q i)\<lparr>security_batch_size := o_security_batch opts\<rparr>) [0..<nat (num_workers this)]"
  have len: "length ps = nat (num_workers this)" by (simp add: ps_def)
  have main: "l1_main w args = Inr (map (\<lambda>i. l1_server_create w (ps ! i) ''l1'' client_map_new (port this + int i)) [0..<length ps])"
    using r(1-3,5) assms(3,4) q
    by (simp add: l1_main_def find_instance_def load_distinfo_def start_workers_def map_out_Inr_iff list_all2_conv_all_nth ps_def)
  have "l1_started dinfo reps j (int i) (ps ! i) \<and> l1_ok (ps ! i)" if "i < length ps" for i
    using q [of i] that l1_started_ok [OF _ assms(5) r(9,10), of reps j "int i" "q i"]
    by (simp add: ps_def) (simp add: l1_started_def seqs_fresh_def)
  then show thesis by (rule that [OF j len main])
qed

text \<open>A world in which a distribution file has been written.\<close>

definition write_file :: "string \<Rightarrow> tfield list \<Rightarrow> 'k world \<Rightarrow> 'k world" where
  "write_file name f w = w\<lparr>w_dist := (w_dist w)(name \<mapsto> f)\<rparr>"

lemma write_file_simps [simp]:
  "w_dist (write_file name f w) name = Some f" "all_up (write_file name f w) = all_up w"
  "l1_ready (write_file name f w) args opts hs this = l1_ready w args opts hs this"
  by (simp_all add: write_file_def all_up_def l1_ready_def load_hosts_def)

section \<open>Properties\<close>

text \<open>
  C6. The initializer establishes what the first layer relies on. Let the initializer find its options, a hosts file with a storage host and a
  workload that can be smoothed, with at least one key and without the drawn dummy key, and let an L1 instance find its options, its place in a hosts
  file whose column is numbered from 0, and everything it connects to. Then the initializer
  terminates with a distribution file, and with that file the program of the instance starts one server per
  worker, worker i on port + i. Every worker satisfies the invariant of the L1 theorems and has nothing pending; it knows every key of the
  workload; it has the role of its place in the column, and it is connected to worker i of the next
  row, or to the second layer if it is the last one.
\<close>

theorem initialised_workers_start:
  assumes "iter_ok (w_iter w)" "all_up w" "init_ready w iargs io" "workload_ok w io d"
    and "l1_ready w largs lo hs this" "o_dist_file lo = o_dist_file io"
  shows "\<exists>f puts servers. init_main w iargs = Inr (o_dist_file io, f, puts) \<and>
    l1_main (write_file (o_dist_file io) f w) largs = Inr servers \<and> length servers = nat (num_workers this) \<and>
    (\<forall>i < length servers.
       let p = srv_proxy (servers ! i); reps = get_replicas hs HOST_TYPE_L1 (column this) in
       srv_port (servers ! i) = port this + int i \<and> l1_ok p \<and> seqs_fresh p \<and> set (dist_items d) \<subseteq> dom (map_of (l1_replicas_of p)) \<and>
       role p = chain_role_at reps this \<and>
       (if tail_role (role p) then l1_l2_iface p \<noteq> None
        else \<exists>h \<in> set reps. row h = row this + 1 \<and> connected_to (int i) h (next_cxn p)))"
proof -
  let ?reps = "get_replicas hs HOST_TYPE_L1 (column this)"
  obtain tr where d: "load_frequencies_from_trace (w_iter w) (ndebug (w_openssl w)) (w_text w (o_trace_file io)) [] 50 = Inr (d, tr)"
    "smoothing_ok d" "dist_items d \<noteq> []" "initial_dummy w \<notin> set (dist_items d)"
    using assms(4) by (auto simp: workload_ok_def)
  have dok: "dist_ok d" using load_frequencies_dist_ok [OF assms(1) d(1)] .
  obtain c where run: "init_main w iargs =
    (let s = create_replicas c (init_info d (initial_dummy w)) in
     bind_out (distinfo_dump (w_iter w) (in_info s)) (\<lambda>f. Inr (o_dist_file io, f, in_puts s)))"
    using init_main_run [OF assms(2,3) d(1)] .
  obtain f dinfo where f: "distinfo_dump (w_iter w) (in_info (create_replicas c (init_info d (initial_dummy w)))) = Inr f"
    "distinfo_load f distribution_info_new = Inr dinfo" "tables_ok dinfo" "set (dist_items (real_distribution dinfo)) = set (dist_items d)"
    using tables_ok_file [OF assms(1) initializer_tables [OF d(2) dok d(3,4), of c]] initializer_info(1) [OF d(2) dok d(3,4), of c]
    by auto
  let ?w = "write_file (o_dist_file io) f w"
  obtain j ps where ps: "j < length ?reps" "?reps ! j = this" "length ps = nat (num_workers this)"
    "l1_main ?w largs = Inr (map (\<lambda>i. l1_server_create ?w (ps ! i) ''l1'' client_map_new (port this + int i)) [0..<length ps])"
    "\<And>i. i < length ps \<Longrightarrow> l1_started dinfo ?reps j (int i) (ps ! i) \<and> l1_ok (ps ! i)"
    using l1_main_run [of ?w largs lo hs this f dinfo] assms(2,5,6) f(2,3) by auto
  have col: "column_ok ?reps" using assms(5) by (simp add: l1_ready_def)
  have keys: "set (dist_items d) \<subseteq> dom (map_of (key_to_number_of_replicas dinfo))" using f(3,4) by (auto simp: tables_ok_def)
  have next_row: "row (?reps ! Suc j) = row this + 1" if "Suc j < length ?reps"
    using column_ok_row [OF col that] column_ok_row [OF col ps(1)] ps(2) by simp
  have tail: "tail_role (chain_role_at ?reps this) \<longleftrightarrow> Suc j = length ?reps"
    using chain_role_at_nth [OF _ ps(1)] col ps(1,2) by (auto simp: column_ok_def tail_role_def)
  have "let p = ps ! i in l1_ok p \<and> seqs_fresh p \<and> set (dist_items d) \<subseteq> dom (map_of (l1_replicas_of p)) \<and>
      role p = chain_role_at ?reps this \<and> (if tail_role (role p) then l1_l2_iface p \<noteq> None
        else \<exists>h \<in> set ?reps. row h = row this + 1 \<and> connected_to (int i) h (next_cxn p))" if "i < length ps" for i
    using ps(1,2) ps(5) [OF that] keys tail next_row unfolding l1_started_def Let_def
    by (auto intro: bexI [of _ "?reps ! Suc j"])
  then show ?thesis using run f(1) ps(3,4) by (auto simp: Let_def l1_server_create_def)
qed

text \<open>
  C35. Without a workload the initializer fails: if the workload file cannot be opened, the error is only printed, no key is found, the dummy key gets
  no replica but is still listed in the fake distribution, and writing the distribution file reads its probability from an empty vector.
\<close>

theorem init_without_workload:
  assumes "iter_ok (w_iter w)" "all_up w" "init_ready w args opts" "w_text w (o_trace_file opts) = None"
  shows "init_main w args = Inl (Undefined_behaviour ''vector index'')"
proof -
  have nil: "w_iter w [] = []" using iter_ok_length [OF assms(1), of "[]"] by simp
  have "load_frequencies_from_trace (w_iter w) (ndebug (w_openssl w)) (w_text w (o_trace_file opts)) [] 50 = Inr (distribution_empty, [])"
    by (simp add: load_frequencies_from_trace_def assms(4) nil ret_apply trace_flush_def distribution_new_def distribution_empty_def Let_def)
  from init_main_run [OF assms(2,3) this] obtain c where run: "init_main w args =
    (let s = create_replicas c (init_info distribution_empty (initial_dummy w)) in
     bind_out (distinfo_dump (w_iter w) (in_info s)) (\<lambda>f. Inr (o_dist_file opts, f, in_puts s)))" .
  have "fake_distribution (in_info (create_replicas c (init_info distribution_empty (initial_dummy w)))) =
      distribution_new [initial_dummy w] []"
    by (simp add: create_replicas_def init_info_def distribution_empty_def dummy_count_def Let_def)
  then show ?thesis by (simp add: run distinfo_dump_def dist_entries_def distribution_new_def Let_def)
qed

section \<open>An example cluster\<close>

definition example_cluster :: "host list" where
  "example_cluster =
     [\<lparr>instance_name = ''l1_0'', h_type = 0, hostname = ''a'', port = 9090, row = 0, column = 0, num_workers = 2\<rparr>,
      \<lparr>instance_name = ''l1_1'', h_type = 0, hostname = ''b'', port = 9090, row = 1, column = 0, num_workers = 2\<rparr>,
      \<lparr>instance_name = ''l2_0'', h_type = 1, hostname = ''b'', port = 9190, row = 0, column = 0, num_workers = 1\<rparr>,
      \<lparr>instance_name = ''kv'', h_type = 3, hostname = ''c'', port = 6379, row = 0, column = 0, num_workers = 1\<rparr>]"

definition example_world :: "string option \<Rightarrow> string world" where
  "example_world workload =
     \<lparr>w_getopt = \<lambda>str args. if str = ''h:o:t:d:'' then [(CHR ''h'', ''hosts''), (CHR ''t'', ''trace''), (CHR ''d'', ''dist'')]
                             else [(CHR ''h'', ''hosts''), (CHR ''d'', ''dist''), (CHR ''i'', ''l1_0'')],
      w_text = \<lambda>name. if name = ''hosts'' then Some (concat (map (\<lambda>h. row_of_host h @ ''\<newline>'') example_cluster))
                       else if name = ''trace'' then workload else None,
      w_dist = \<lambda>_. None, w_env = \<lambda>_. example_env, w_openssl = example_openssl, w_iter = rev, w_draw = \<lambda>i. i, w_fetch = \<lambda>_ _. 0,
      w_show = \<lambda>_. [], w_memory = 0\<rparr>"

definition example_init_options :: options where
  "example_init_options = options_new\<lparr>o_hosts_file := ''hosts'', o_trace_file := ''trace'', o_dist_file := ''dist''\<rparr>"

definition example_l1_options :: options where
  "example_l1_options = options_new\<lparr>o_hosts_file := ''hosts'', o_dist_file := ''dist'', o_instance := ''l1_0''\<rparr>"

lemma example_load_hosts:
  assumes "o_hosts_file opts = ''hosts''"
  shows "load_hosts (example_world wl) opts = Inr example_cluster"
proof -
  have "\<forall>h \<in> set example_cluster. host_ok h" by (simp add: example_cluster_def host_ok_def int32_range_def)
  from load_rows_prefix [OF this, of "[]" "[]"] show ?thesis
    using assms by (simp add: load_hosts_def example_world_def hi_load_def load_rows_end)
qed

lemma example_encryption: "length v < SCRATCH_SIZE \<Longrightarrow> encryption_works example_openssl v"
proof -
  assume v: "length v < SCRATCH_SIZE"
  obtain g g' where g: "encryption_engine_new example_openssl = Inr g" "encryption_engine_copy example_openssl g = Inr g'"
    using example_engine by blast
  have "engine_ready g" using copy_of_new [OF g] by simp
  moreover obtain a b where "encrypt_update example_openssl (encryption_key g) (enc_iv g) v = Some a"
    "encrypt_final example_openssl (encryption_key g) (enc_iv g) v = Some b"
    using aes_lawE [OF example_aes] by metis
  ultimately have "ee_encrypt example_openssl g v = Inr (a @ b)" using ee_encrypt_eq [OF example_aes] v by blast
  with g(1) show ?thesis by (auto simp: encryption_works_def)
qed

lemma example_world_ready:
  "iter_ok (w_iter (example_world wl))" "all_up (example_world wl)" "init_ready (example_world wl) args example_init_options"
  "l1_ready (example_world wl) args example_l1_options example_cluster (example_cluster ! 0)"
proof -
  let ?w = "example_world wl"
  show "iter_ok (w_iter ?w)" by (simp add: example_world_def iter_ok_def)
  show "all_up ?w" by (simp add: example_world_def all_up_def example_env_def)
  have "length (initial_value ?w 1000) < SCRATCH_SIZE" by (simp add: initial_value_def rand_str_def SCRATCH_SIZE_def)
  from example_encryption [OF this]
  have enc: "encryption_works (w_openssl ?w) (initial_value ?w (o_object_size example_init_options))"
    by (simp add: example_world_def example_init_options_def options_new_def)
  have "parse_options init_option (w_getopt ?w ''h:o:t:d:'' args) options_new = Inr example_init_options"
    by (simp add: example_world_def init_option_def example_init_options_def)
  moreover have "load_hosts ?w example_init_options = Inr example_cluster"
    by (rule example_load_hosts) (simp add: example_init_options_def)
  moreover have "get_hosts_by_type example_cluster HOST_TYPE_KV \<noteq> []"
    by (simp add: get_hosts_by_type_def example_cluster_def HOST_TYPE_KV_def)
  ultimately show "init_ready ?w args example_init_options" using enc by (auto simp: init_ready_def)
  have reps: "get_replicas example_cluster HOST_TYPE_L1 0 = [example_cluster ! 0, example_cluster ! 1]"
    "get_replicas example_cluster HOST_TYPE_L2 0 = [example_cluster ! 2]"
    by (simp_all add: get_replicas_def example_cluster_def HOST_TYPE_L1_def HOST_TYPE_L2_def)
  have cols: "get_num_columns example_cluster HOST_TYPE_L2 False = 1"
    by (simp add: get_num_columns_def hi_cols_def omap.put_all_def example_cluster_def HOST_TYPE_L2_def)
  have "parse_options l1_option (w_getopt ?w ''h:d:i:gc:flb:y:'' args) options_new = Inr example_l1_options"
    by (simp add: example_world_def l1_option_def example_l1_options_def)
  moreover have "load_hosts ?w example_l1_options = Inr example_cluster"
    by (rule example_load_hosts) (simp add: example_l1_options_def)
  moreover have "get_host example_cluster (o_instance example_l1_options) = Some (example_cluster ! 0)"
    by (simp add: get_host_def example_cluster_def example_l1_options_def)
  moreover have "columns_filled example_cluster HOST_TYPE_L2" by (simp add: columns_filled_def cols reps)
  moreover have "column_ok [example_cluster ! 0, example_cluster ! 1]"
    by (simp add: column_ok_def example_cluster_def)
  moreover have "list_all (worker_addr_ok (int i)) [example_cluster ! 0, example_cluster ! 1]" if "i < 2" for i
    using that by (simp add: example_cluster_def worker_addr_ok_def int32_range_def)
  moreover have "h_type (example_cluster ! 0) = HOST_TYPE_L1" "num_workers (example_cluster ! 0) = 2" "column (example_cluster ! 0) = 0"
    "o_security_batch example_l1_options = 3"
    by (simp_all add: example_cluster_def HOST_TYPE_L1_def example_l1_options_def options_new_def)
  ultimately show "l1_ready ?w args example_l1_options example_cluster (example_cluster ! 0)"
    by (simp add: l1_ready_def reps)
qed

lemma example_workload_ok:
  obtains d where "workload_ok (example_world (Some example_workload)) example_init_options d" "set (dist_items d) = {''a'', ''b''}"
proof -
  let ?w = "example_world (Some example_workload)"
  have t: "w_text ?w (o_trace_file example_init_options) = Some example_workload"
    by (simp add: example_world_def example_init_options_def)
  have ok: "trace_ok (Some example_workload)" by (simp add: trace_ok_def example_workload_entries)
  let ?es = "trace_entries (Some example_workload)"
  obtain d tr where r: "load_frequencies_from_trace (w_iter ?w) (ndebug (w_openssl ?w)) (Some example_workload) [] 50 = Inr (d, tr)"
    "dist_ok d" and raw: "set (dist_items d) = fst ` set ?es"
      "\<And>k. k \<in> set (dist_items d) \<Longrightarrow> dist_prob d k = Some (ddiv (of_nat (count_list (map fst ?es) k)) (of_nat (length ?es)))"
    by (rule load_frequencies_run [OF example_world_ready(1) [of "Some example_workload"] ok, of 50 "ndebug (w_openssl ?w)"])
      (simp, simp, blast)
  have items: "set (dist_items d) = {''a'', ''b''}" unfolding raw(1) by (auto simp: example_workload_entries)
  have prob: "dist_prob d k = Some (ddiv 2 4)" if "k \<in> set (dist_items d)" for k
    using that raw(2) [OF that] items by (auto simp: example_workload_entries)
  have len: "length (dist_items d) = 2" using r(2) items distinct_card [of "dist_items d"] by (simp add: dist_ok_def)
  have "smoothing_ok d"
  proof (rule uniform_smoothing_ok [OF r(2), where c = 2])
    show "dist_items d \<noteq> []" using len by auto
    show "dist_prob d k = Some (ddiv (of_nat 2) (of_nat (2 * length (dist_items d))))" if "k \<in> set (dist_items d)" for k
      using prob [OF that] len by simp
  qed (simp_all add: len)
  moreover have "initial_dummy ?w \<notin> set (dist_items d)"
  proof
    assume mem: "initial_dummy ?w \<in> set (dist_items d)"
    have one: "length x = 1" if "x \<in> {''a'', ''b''}" for x :: string using that by (elim insertE) simp_all
    have "length (initial_dummy ?w) = 1" by (rule one) (rule mem [unfolded items])
    then show False by (simp add: initial_dummy_def rand_str_def)
  qed
  ultimately have "workload_ok ?w example_init_options d" using r(1) len t by (auto simp: workload_ok_def)
  then show thesis using items that by blast
qed

theorem initialised_workers_start_witness:
  "\<exists>f puts servers. init_main (example_world (Some example_workload)) [] = Inr (''dist'', f, puts) \<and>
     l1_main (write_file ''dist'' f (example_world (Some example_workload))) [] = Inr servers \<and> length servers = 2 \<and>
     srv_port (servers ! 1) = 9091 \<and> l1_ok (srv_proxy (servers ! 1)) \<and> role (srv_proxy (servers ! 1)) = Head"
proof -
  let ?w = "example_world (Some example_workload)" and ?h = "example_cluster ! 0"
  obtain d where d: "workload_ok ?w example_init_options d" by (rule example_workload_ok)
  have same: "o_dist_file example_l1_options = o_dist_file example_init_options" "o_dist_file example_init_options = ''dist''"
    by (simp_all add: example_l1_options_def example_init_options_def)
  have n: "num_workers ?h = 2" "port ?h = 9090" by (simp_all add: example_cluster_def)
  have rl: "chain_role_at (get_replicas example_cluster HOST_TYPE_L1 (column ?h)) ?h = Head"
    by (simp add: get_replicas_def chain_role_at_def example_cluster_def HOST_TYPE_L1_def)
  note gen = initialised_workers_start [OF example_world_ready(1-3) d example_world_ready(4) same(1), unfolded same(2) n Let_def rl, of "[]" "[]"]
  then obtain f puts servers where r: "init_main ?w [] = Inr (''dist'', f, puts)" "l1_main (write_file ''dist'' f ?w) [] = Inr servers"
    "length servers = nat 2" and each: "\<forall>i < length servers. srv_port (servers ! i) = 9090 + int i \<and> l1_ok (srv_proxy (servers ! i)) \<and>
       role (srv_proxy (servers ! i)) = Head"
    by blast
  have "1 < length servers" using r(3) by simp
  with each r show ?thesis by (intro exI [of _ f] exI [of _ puts] exI [of _ servers]) auto
qed

theorem init_without_workload_witness:
  "init_main (example_world None) [] = Inl (Undefined_behaviour ''vector index'')"
  by (rule init_without_workload [OF example_world_ready(1-3)]) (simp add: example_world_def example_init_options_def)

end
