(* ===== verification/Benchmark.thy ===== *)
theory Benchmark
  imports Client Server
begin

text \<open>
  benchmark/src/shortstack_benchmark.cpp and pancake_benchmark.cpp: the client programs. Each thread has a client, keeps a number of requests of a workload under way and sends the next one
  when a response arrives. The two programs differ in the class of the client and in the total count of operations with its monitor, which the Pancake program does not have; the class is the type \<open>'a\<close> of the extension of the client record and
  the turn \<open>rd\<close> of its response thread. \<open>bench_env\<close> has what the machine yields: the time stamp counter, the ticks per nanosecond, and the
  elapsed time in microseconds.
\<close>

record bench_env =
  be_tsc :: "nat \<Rightarrow> int"
  be_ticks_per_ns :: rat
  be_elapsed :: "nat \<Rightarrow> int"

section \<open>load\_trace\<close>

text \<open>The entry is stored before the assertions; the frequencies are counted and not used.\<close>

definition bench_trace_line :: "bool \<Rightarrow> string \<Rightarrow> ((string \<times> string) list \<times> int, unit) cpp" where
  "bench_trace_line nd line =
     (let (key, val) = trace_entry line in
      seqM (modify (\<lambda>(trace, n). (trace @ [(key, val)], n)))
        (if \<not> nd \<and> (key = ''PUT'' \<or> key = ''GET'') then throw Process_exit
         else bnd (gets snd) (\<lambda>n. if n = int32_max then throw (Undefined_behaviour ''signed overflow'') else modify (\<lambda>(trace, n). (trace, n + 1)))))"

definition bench_load_trace :: "bool \<Rightarrow> string option \<Rightarrow> (string \<times> string) list \<Rightarrow> (string \<times> string) list outcome" where
  "bench_load_trace nd file trace =
     (let lines = (case file of None \<Rightarrow> [] | Some str \<Rightarrow> split_on (CHR 0x0A) str) in
      case for_each lines (bench_trace_line nd) (trace, 0) of (Inl x, _) \<Rightarrow> Inl x | (Inr _, (t, _)) \<Rightarrow> Inr t)"

section \<open>run\_benchmark\<close>

record 'c bench =
  bn_client :: 'c
  bn_idx :: int
  bn_ops :: int
  bn_smallest :: int
  bn_start_ts :: "(int, int) table"
  bn_latencies :: "int list"
  bn_diags :: "string list"
  bn_total :: int
  bn_tick :: nat

definition bench_new :: "'c \<Rightarrow> int list \<Rightarrow> string list \<Rightarrow> int \<Rightarrow> nat \<Rightarrow> 'c bench" where
  "bench_new c lats diags tot t =
     \<lparr>bn_client = c, bn_idx = 0, bn_ops = 0, bn_smallest = int64_max, bn_start_ts = [], bn_latencies = lats, bn_diags = diags, bn_total = tot, bn_tick = t\<rparr>"

definition bn_next_tick :: "('c bench, nat) cpp" where
  "bn_next_tick s = (Inr (bn_tick s), s\<lparr>bn_tick := bn_tick s + 1\<rparr>)"

definition bn_on_client :: "('c, 'v) cpp \<Rightarrow> ('c bench, 'v) cpp" where
  "bn_on_client m s = (let (r, c) = m (bn_client s) in (r, s\<lparr>bn_client := c\<rparr>))"

definition bench_request :: "env \<Rightarrow> string \<times> string \<Rightarrow> ('a shortstack_client_scheme, int) cpp" where
  "bench_request e kv = (if snd kv = [] then sc_get e (fst kv) else sc_put e (fst kv) (snd kv))"

text \<open>The next request of the workload; the number of the request is the result.\<close>

definition bench_submit :: "env \<Rightarrow> bench_env \<Rightarrow> bool \<Rightarrow> (string \<times> string) list \<Rightarrow> ('a shortstack_client_scheme bench, int) cpp" where
  "bench_submit e be stats trace =
     bnd (gets bn_idx) (\<lambda>idx.
     bnd (lift_out (vec_at trace idx)) (\<lambda>kv.
     seqM (modify (\<lambda>s. s\<lparr>bn_idx := (idx + 1) mod int (length trace)\<rparr>))
     (bnd bn_next_tick (\<lambda>t.
      bnd (bn_on_client (bench_request e kv)) (\<lambda>seq.
      seqM (modify (\<lambda>s. if stats then s\<lparr>bn_start_ts := tab_put seq (be_tsc be t) (bn_start_ts s)\<rparr> else s))
        (ret seq))))))"

definition bench_first :: "env \<Rightarrow> bench_env \<Rightarrow> bool \<Rightarrow> (string \<times> string) list \<Rightarrow> ('a shortstack_client_scheme bench, unit) cpp" where
  "bench_first e be stats trace =
     bnd (bench_submit e be stats trace) (\<lambda>seq. modify (\<lambda>s. s\<lparr>bn_smallest := min (bn_smallest s) seq\<rparr>))"

definition bench_start :: "env \<Rightarrow> bench_env \<Rightarrow> bool \<Rightarrow> (string \<times> string) list \<Rightarrow> int \<Rightarrow> ('a shortstack_client_scheme bench, unit) cpp" where
  "bench_start e be stats trace queue_depth = for_each [0..<nat queue_depth] (\<lambda>_. bench_first e be stats trace)"

text \<open>\<^verbatim>\<open>start_ts[seq]\<close> inserts a zero for a number that is not there, also as an argument of the log message about a stale response.\<close>

definition bench_start_of :: "int \<Rightarrow> ('c bench, int) cpp" where
  "bench_start_of seq s =
     (case map_of (bn_start_ts s) seq of None \<Rightarrow> (Inr 0, s\<lparr>bn_start_ts := tab_put seq 0 (bn_start_ts s)\<rparr>) | Some t \<Rightarrow> (Inr t, s))"

definition bench_latency :: "rat \<Rightarrow> int \<Rightarrow> int \<Rightarrow> int outcome" where
  "bench_latency ticks start stop =
     (if ticks = 0 then Inl (Undefined_behaviour ''conversion out of range'')
      else to_int (ddiv (ddiv (double_round (of_int ((stop - start) mod 2 ^ 64))) ticks) 1000))"

definition bench_record :: "bench_env \<Rightarrow> int \<Rightarrow> string \<Rightarrow> ('c bench, unit) cpp" where
  "bench_record be seq dg =
     bnd bn_next_tick (\<lambda>t.
     bnd (bench_start_of seq) (\<lambda>start.
     bnd (lift_out (bench_latency (be_ticks_per_ns be) start (be_tsc be t))) (\<lambda>l.
       modify (\<lambda>s. s\<lparr>bn_latencies := bn_latencies s @ [l], bn_diags := bn_diags s @ [dg]\<rparr>))))"

text \<open>A turn of the loop with a response: one from before this run is dropped, any other is counted and the next request is sent.\<close>

definition bench_response ::
  "env \<Rightarrow> bench_env \<Rightarrow> bool \<Rightarrow> (string \<times> string) list \<Rightarrow> int \<times> string \<times> string \<Rightarrow> ('a shortstack_client_scheme bench, unit) cpp" where
  "bench_response e be stats trace resp =
     (case resp of (seq, out, dg) \<Rightarrow>
        bnd (gets bn_smallest) (\<lambda>smallest.
          if seq < smallest then bnd (bench_start_of seq) (\<lambda>_. bnd bn_next_tick (\<lambda>_. ret ()))
          else
            seqM (if stats then bench_record be seq dg else ret ())
            (seqM (modify (\<lambda>s. s\<lparr>bn_total := (bn_total s + 1) mod 2 ^ 64\<rparr>))
            (seqM (bnd (gets bn_ops) (\<lambda>n. if n = int32_max then throw (Undefined_behaviour ''signed overflow'') else modify (\<lambda>s. s\<lparr>bn_ops := n + 1\<rparr>)))
              (bnd (bench_submit e be stats trace) (\<lambda>_. ret ()))))))"

definition bench_turn ::
  "env \<Rightarrow> bench_env \<Rightarrow> bool \<Rightarrow> (string \<times> string) list \<Rightarrow> 'a shortstack_client_scheme bench \<Rightarrow> (unit outcome \<times> 'a shortstack_client_scheme bench) option" where
  "bench_turn e be stats trace s =
     (case sc_poll_responses (bn_client s) of
        None \<Rightarrow> None
      | Some (resp, c) \<Rightarrow> Some (bench_response e be stats trace resp (s\<lparr>bn_client := c\<rparr>)))"

text \<open>The loop and the response threads of the client; \<open>run_time\<close> is in seconds.\<close>

inductive bench_step ::
  "env \<Rightarrow> bench_env \<Rightarrow> (net_event \<Rightarrow> ('a shortstack_client_scheme, bool) cpp) \<Rightarrow> bool \<Rightarrow> (string \<times> string) list \<Rightarrow> int \<Rightarrow>
   'a shortstack_client_scheme bench \<Rightarrow> 'a shortstack_client_scheme bench \<Rightarrow> bool"
  for e :: env and be :: bench_env and rd :: "net_event \<Rightarrow> ('a shortstack_client_scheme, bool) cpp" and stats :: bool
    and trace :: "(string \<times> string) list" and run_time :: int where
  turn: "be_elapsed be (bn_tick s) < run_time * 1000000 \<Longrightarrow> bench_turn e be stats trace s = Some (Inr (), t) \<Longrightarrow> bench_step e be rd stats trace run_time s t"
| reader: "rd ev (bn_client s) = (Inr go, c) \<Longrightarrow> bench_step e be rd stats trace run_time s (s\<lparr>bn_client := c\<rparr>)"

text \<open>\<^verbatim>\<open>xput += (int)(ops * 1000000 / elapsed)\<close>.\<close>

definition bench_xput :: "bool \<Rightarrow> int \<Rightarrow> int \<Rightarrow> int \<Rightarrow> int outcome" where
  "bench_xput stats ops elapsed xput =
     (if \<not> stats then Inr xput
      else if elapsed = 0 then Inl (Undefined_behaviour ''conversion out of range'')
      else bind_out (to_int (ddiv (dmul (of_int ops) 1000000) (of_int elapsed))) (\<lambda>x. Inr (sint (word_of_int (xput + x) :: uint32))))"

text \<open>The lines of the file that a client thread writes.\<close>

definition bench_report :: "int list \<Rightarrow> string list \<Rightarrow> int \<Rightarrow> string list outcome" where
  "bench_report lats diags xput =
     bind_out (map_out (\<lambda>(i, l). bind_out (vec_at diags (int i)) (\<lambda>d. Inr (to_string l @ '','' @ d))) (enumerate 0 lats)) (\<lambda>ls.
       Inr (ls @ [''Xput: '' @ to_string xput]))"

section \<open>monitor\_xput\<close>

definition monitor_step :: "int \<Rightarrow> int \<times> int list \<Rightarrow> int \<times> int list" where
  "monitor_step cur st = (case st of (prev, inst) \<Rightarrow> (cur, inst @ [sint (word_of_int (cur - prev) :: uint32)]))"

section \<open>Options\<close>

record bench_options =
  bo_hosts_file :: string
  bo_trace :: string
  bo_clients :: int
  bo_queue_depth :: int
  bo_output :: string
  bo_monitor_us :: int
  bo_longwarm :: bool

definition bench_options_new :: bench_options where
  "bench_options_new = \<lparr>bo_hosts_file = [], bo_trace = [], bo_clients = 1, bo_queue_depth = 1, bo_output = ''foo'', bo_monitor_us = 1000, bo_longwarm = False\<rparr>"

definition pancake_bench_option :: "char \<Rightarrow> string \<Rightarrow> bench_options \<Rightarrow> bench_options outcome" where
  "pancake_bench_option c arg opts =
     (if c = CHR ''h'' then Inr (opts\<lparr>bo_hosts_file := arg\<rparr>)
      else if c = CHR ''t'' then Inr (opts\<lparr>bo_trace := arg\<rparr>)
      else if c = CHR ''n'' then bind_out (atoi arg) (\<lambda>v. Inr (opts\<lparr>bo_clients := v\<rparr>))
      else if c = CHR ''o'' then Inr (opts\<lparr>bo_output := arg\<rparr>)
      else if c = CHR ''q'' then bind_out (atoi arg) (\<lambda>v. Inr (opts\<lparr>bo_queue_depth := v\<rparr>))
      else if c = CHR ''g'' then Inr opts
      else Inl Process_exit)"

definition shortstack_bench_option :: "char \<Rightarrow> string \<Rightarrow> bench_options \<Rightarrow> bench_options outcome" where
  "shortstack_bench_option c arg opts =
     (if c = CHR ''m'' then bind_out (atoi arg) (\<lambda>v. Inr (opts\<lparr>bo_monitor_us := v\<rparr>))
      else if c = CHR ''w'' then Inr (opts\<lparr>bo_longwarm := True\<rparr>)
      else pancake_bench_option c arg opts)"

text \<open>The seconds that the first, unmeasured run takes.\<close>

definition warmup_time :: "bool \<Rightarrow> int" where
  "warmup_time longwarm = (if longwarm then 25 else 5)"

section \<open>A closed loop\<close>

text \<open>The request of a workload entry as the client sends it, and the \<open>i\<close>-th request of a run.\<close>

definition entry_request :: "string \<times> string \<Rightarrow> string \<times> string option" where
  "entry_request kv = (fst kv, if snd kv = [] then None else Some (snd kv))"

definition run_msg :: "int \<Rightarrow> int \<Rightarrow> (string \<times> string) list \<Rightarrow> nat \<Rightarrow> tmsg" where
  "run_msg cid n trace i = request_msg cid (entry_request (trace ! (i mod length trace))) (n + int i)"

text \<open>
  After \<open>m\<close> requests of a run of client \<open>cid\<close>, which started with number \<open>n\<close> and the messages \<open>ms\<close> sent before: the requests are the entries of the workload in order,
  round and round, with consecutive numbers.
\<close>

definition bench_sent :: "int \<Rightarrow> int \<Rightarrow> tmsg multiset \<Rightarrow> (string \<times> string) list \<Rightarrow> nat \<Rightarrow> 'a shortstack_client_scheme bench \<Rightarrow> bool" where
  "bench_sent cid n ms trace m s \<longleftrightarrow>
     sc_client_id (bn_client s) = cid \<and> sc_sequence_num (bn_client s) = n + int m \<and> bn_idx s = int m mod int (length trace) \<and>
     mset (sent_msgs (sc_l1_clients (bn_client s))) = ms + mset (map (run_msg cid n trace) [0..<m])"

definition bench_counted :: "nat \<Rightarrow> nat \<Rightarrow> int \<Rightarrow> int \<Rightarrow> bool \<Rightarrow> nat \<Rightarrow> 'c bench \<Rightarrow> bool" where
  "bench_counted lats diags smallest tot stats k s \<longleftrightarrow>
     bn_ops s = int k \<and> bn_smallest s = smallest \<and> bn_total s = (tot + int k) mod 2 ^ 64 \<and>
     length (bn_latencies s) = lats + (if stats then k else 0) \<and> length (bn_diags s) = diags + (if stats then k else 0)"

lemma conn_call_Inr:
  assumes "conn_call e i mes cs = Inr ds"
  shows "mset (sent_msgs ds) = add_mset mes (mset (sent_msgs cs))"
proof -
  have i: "i < length cs" "ds = cs[i := (cs ! i)\<lparr>cl_sent := cl_sent (cs ! i) @ [mes]\<rparr>]" using assms by (auto simp: conn_call_def split: if_splits)
  then show ?thesis using concat_map_list_update [OF i(1), of cl_sent] concat_map_split [OF i(1), of cl_sent] by (simp add: sent_msgs_def)
qed

lemma sc_request_Inr:
  assumes "sc_request e r s = (Inr k, t)"
  shows "k = sc_sequence_num s" "sc_sequence_num t = sc_sequence_num s + 1" "sc_client_id t = sc_client_id s"
    "mset (sent_msgs (sc_l1_clients t)) = add_mset (request_msg (sc_client_id s) r (sc_sequence_num s)) (mset (sent_msgs (sc_l1_clients s)))"
  using assms
  by (auto simp: sc_request_def sc_get_def sc_put_def sc_send_def request_msg_def Let_def dest!: conn_call_Inr split: option.splits if_splits sum.splits)

lemma bench_submit_sent:
  assumes "bench_submit e be stats trace s = (Inr seq, t)" "bench_sent cid n ms trace m s" "trace \<noteq> []"
  shows "bench_sent cid n ms trace (Suc m) t" "seq = n + int m" "bench_counted ls ds sm tot st k t = bench_counted ls ds sm tot st k s"
proof -
  have len: "0 < int (length trace)" using assms(3) by simp
  have idx: "bn_idx s = int (m mod length trace)" using assms(2) by (simp add: bench_sent_def zmod_int)
  have at: "vec_at trace (bn_idx s) = Inr (trace ! (m mod length trace))" using assms(3) by (simp add: idx)
  have r: "bench_request e kv = sc_request e (entry_request kv)" for kv by (simp add: bench_request_def sc_request_def entry_request_def fun_eq_iff)
  obtain c where c: "sc_request e (entry_request (trace ! (m mod length trace))) (bn_client s) = (Inr seq, c)"
    "t = (let u = s\<lparr>bn_idx := (bn_idx s + 1) mod int (length trace), bn_tick := bn_tick s + 1, bn_client := c\<rparr> in
          if stats then u\<lparr>bn_start_ts := tab_put seq (be_tsc be (bn_tick s)) (bn_start_ts s)\<rparr> else u)"
    using assms(1) by (auto simp: bench_submit_def cpp_simps at bn_next_tick_def bn_on_client_def r Let_def split: prod.splits sum.splits)
  note q = sc_request_Inr [OF c(1)]
  have "(bn_idx s + 1) mod int (length trace) = int (Suc m) mod int (length trace)"
    unfolding idx by (simp add: zmod_int mod_simps add.commute)
  then show "bench_sent cid n ms trace (Suc m) t"
    using assms(2) q by (simp add: bench_sent_def c(2) Let_def run_msg_def)
  show "seq = n + int m" using q(1) assms(2) by (simp add: bench_sent_def)
  show "bench_counted ls ds sm tot st k t = bench_counted ls ds sm tot st k s" by (simp add: c(2) Let_def bench_counted_def)
qed

lemma bench_start_sent:
  assumes "for_each xs (\<lambda>_. bench_first e be stats trace) s = (Inr (), t)"
    and "bench_sent cid n ms trace m s" "trace \<noteq> []" "bench_counted ls ds sm tot st k s"
  shows "bench_sent cid n ms trace (m + length xs) t \<and> bench_counted ls ds (if xs = [] then sm else min sm (n + int m)) tot st k t"
  using assms
proof (induction xs arbitrary: s m sm)
  case Nil
  then show ?case by (simp add: cpp_simps)
next
  case (Cons x xs)
  obtain seq u where u: "bench_submit e be stats trace s = (Inr seq, u)"
      "for_each xs (\<lambda>_. bench_first e be stats trace) (u\<lparr>bn_smallest := min (bn_smallest u) seq\<rparr>) = (Inr (), t)"
  proof -
    obtain v where v: "bench_first e be stats trace s = (Inr (), v)" "for_each xs (\<lambda>_. bench_first e be stats trace) v = (Inr (), t)"
      using Cons.prems(1) by (auto simp: for_each_Cons simp del: for_each.simps split: prod.splits sum.splits)
    then show thesis using that by (auto simp: bench_first_def bnd_apply modify_apply split: prod.splits sum.splits)
  qed
  note q = bench_submit_sent [OF u(1) Cons.prems(2,3)]
  have c: "bench_counted ls ds sm tot st k u" using q(3) Cons.prems(4) by simp
  have s': "bench_sent cid n ms trace (Suc m) (u\<lparr>bn_smallest := min (bn_smallest u) seq\<rparr>)" using q(1) by (simp add: bench_sent_def)
  have c': "bench_counted ls ds (min sm (n + int m)) tot st k (u\<lparr>bn_smallest := min (bn_smallest u) seq\<rparr>)"
    using c q(2) by (simp add: bench_counted_def)
  have "(if xs = [] then min sm (n + int m) else min (min sm (n + int m)) (n + int (Suc m))) = min sm (n + int m)" by simp
  with Cons.IH [OF u(2) s' Cons.prems(3) c'] show ?case by simp
qed

lemma bench_start_of_frame:
  "bench_start_of seq s = (Inr v, t) \<Longrightarrow> \<exists>ts. t = s\<lparr>bn_start_ts := ts\<rparr>"
  by (cases s) (auto simp: bench_start_of_def split: option.splits)

lemma bench_record_counts:
  assumes "bench_record be seq dg s = (Inr (), t)"
  shows "\<exists>ts l tk. t = s\<lparr>bn_tick := tk, bn_start_ts := ts, bn_latencies := bn_latencies s @ [l], bn_diags := bn_diags s @ [dg]\<rparr>"
proof -
  obtain v u where u: "bench_start_of seq (s\<lparr>bn_tick := bn_tick s + 1\<rparr>) = (Inr v, u)"
    "\<exists>l. t = u\<lparr>bn_latencies := bn_latencies u @ [l], bn_diags := bn_diags u @ [dg]\<rparr>"
    using assms by (auto simp: bench_record_def cpp_simps bn_next_tick_def split: prod.splits sum.splits)
  obtain ts where "u = s\<lparr>bn_tick := bn_tick s + 1, bn_start_ts := ts\<rparr>" using bench_start_of_frame [OF u(1)] by blast
  then show ?thesis using u(2) by auto
qed

text \<open>A response from before the run changes nothing that counts; any other one is counted once and makes the client send one request.\<close>

lemma bench_response_counts:
  assumes "bench_response e be stats trace (seq, out, dg) s = (Inr (), t)" "bench_sent cid n ms trace m s" "trace \<noteq> []"
    and "bench_counted ls ds sm tot stats k s"
  shows "if seq < sm then bench_sent cid n ms trace m t \<and> bench_counted ls ds sm tot stats k t
         else bench_sent cid n ms trace (Suc m) t \<and> bench_counted ls ds sm tot stats (Suc k) t"
proof (cases "seq < sm")
  case True
  have "bn_smallest s = sm" using assms(4) by (simp add: bench_counted_def)
  then obtain v u where u: "bench_start_of seq s = (Inr v, u)" "t = u\<lparr>bn_tick := bn_tick u + 1\<rparr>"
    using assms(1) True by (auto simp: bench_response_def cpp_simps bn_next_tick_def split: prod.splits sum.splits)
  then obtain ts where "t = s\<lparr>bn_start_ts := ts, bn_tick := bn_tick s + 1\<rparr>" using bench_start_of_frame by fastforce
  then show ?thesis using True assms(2,4) by (simp add: bench_sent_def bench_counted_def)
next
  case False
  have sm: "bn_smallest s = sm" using assms(4) by (simp add: bench_counted_def)
  obtain u w where u: "(if stats then bench_record be seq dg else ret ()) s = (Inr (), u)"
    "bench_submit e be stats trace (u\<lparr>bn_total := (bn_total u + 1) mod 2 ^ 64, bn_ops := bn_ops u + 1\<rparr>) = (Inr w, t)"
    using assms(1) False sm by (auto simp: bench_response_def bnd_apply seqM_apply gets_apply modify_apply throw_apply ret_apply split: prod.splits sum.splits if_splits)
  let ?u = "u\<lparr>bn_total := (bn_total u + 1) mod 2 ^ 64, bn_ops := bn_ops u + 1\<rparr>"
  have "\<exists>ts ls' ds' tk. u = s\<lparr>bn_tick := tk, bn_start_ts := ts, bn_latencies := ls', bn_diags := ds'\<rparr> \<and>
      length ls' = length (bn_latencies s) + (if stats then 1 else 0) \<and> length ds' = length (bn_diags s) + (if stats then 1 else 0)"
  proof (cases stats)
    case True
    then show ?thesis using bench_record_counts [of be seq dg s u] u(1) by fastforce
  next
    case False
    then have "u = s" using u(1) by (simp add: ret_apply)
    with False show ?thesis by (cases s) simp
  qed
  then have "bench_sent cid n ms trace m ?u" "bench_counted ls ds sm tot stats (Suc k) ?u"
    using assms(2,4) by (auto simp: bench_sent_def bench_counted_def mod_simps ac_simps)
  with bench_submit_sent [OF u(2) _ assms(3)] False show ?thesis by simp
qed

text \<open>
  What the loop relies on of the response threads: they leave the requests alone. In between, the loop is closed: the requests that are not answered by a counted
  response are always as many as the queue depth.
\<close>

locale response_reader =
  fixes rd :: "net_event \<Rightarrow> ('a shortstack_client_scheme, bool) cpp"
  assumes reader_frame: "rd ev c = (r, c') \<Longrightarrow>
    sc_client_id c' = sc_client_id c \<and> sc_sequence_num c' = sc_sequence_num c \<and> sc_l1_clients c' = sc_l1_clients c"
begin

lemma step_counts:
  assumes "bench_step e be rd stats trace run_time s t" "trace \<noteq> []"
    and "bench_sent cid n ms trace (q + k) s" "bench_counted ls ds sm tot stats k s"
  shows "\<exists>k'. bench_sent cid n ms trace (q + k') t \<and> bench_counted ls ds sm tot stats k' t"
  using assms(1)
proof cases
  case turn
  obtain r c where r: "sc_poll_responses (bn_client s) = Some (r, c)" "bench_response e be stats trace r (s\<lparr>bn_client := c\<rparr>) = (Inr (), t)"
    using turn(2) by (auto simp: bench_turn_def split: option.splits)
  obtain seq out dg where rr: "r = (seq, out, dg)" by (cases r)
  have "sc_client_id c = sc_client_id (bn_client s)" "sc_sequence_num c = sc_sequence_num (bn_client s)" "sc_l1_clients c = sc_l1_clients (bn_client s)"
    using r(1) by (auto simp: sc_poll_responses_def split: option.splits)
  then have h: "bench_sent cid n ms trace (q + k) (s\<lparr>bn_client := c\<rparr>)" "bench_counted ls ds sm tot stats k (s\<lparr>bn_client := c\<rparr>)"
    using assms(3,4) by (simp_all add: bench_sent_def bench_counted_def)
  show ?thesis
    using bench_response_counts [OF r(2) [unfolded rr] h(1) assms(2) h(2)]
    by (cases "seq < sm") (auto intro: exI [of _ k] exI [of _ "Suc k"])
next
  case (reader ev go c)
  with reader_frame [OF reader(2)] assms(3,4) show ?thesis by (intro exI [of _ k]) (simp add: bench_sent_def bench_counted_def)
qed

lemma closed_loop:
  assumes "(bench_step e be rd stats trace run_time)\<^sup>*\<^sup>* s0 s" "trace \<noteq> []"
    and "bench_sent cid n ms trace q s0" "bench_counted ls ds sm tot stats 0 s0"
  shows "\<exists>k. bench_sent cid n ms trace (q + k) s \<and> bench_counted ls ds sm tot stats k s"
  using assms(1)
proof (induction rule: rtranclp_induct)
  case base
  with assms(3,4) show ?case by (intro exI [of _ 0]) simp
next
  case (step s t)
  then show ?case using step_counts [OF step.hyps(2) assms(2)] by blast
qed

end

interpretation sc_reader: response_reader sc_response_step
  by unfold_locales
    (auto simp: sc_response_step_def cpp_simps split: if_splits sum.splits exn.splits prod.splits)

interpretation pk_reader: response_reader pk_response_step
  by unfold_locales
    (auto simp: pk_response_step_def cpp_simps split: if_splits sum.splits exn.splits prod.splits)

lemma bench_report_ok: "length diags = length lats \<Longrightarrow> \<exists>ls. bench_report lats diags xput = Inr ls"
proof -
  assume len: "length diags = length lats"
  have "\<exists>ys. map_out (\<lambda>(i, l). bind_out (vec_at diags (int i)) (\<lambda>d. Inr (to_string l @ '','' @ d))) (enumerate m xs) = Inr ys"
    if "m + length xs \<le> length lats" for m xs
    using that
  proof (induction xs arbitrary: m)
    case (Cons x xs)
    from Cons.prems len have d: "vec_at diags (int m) = Inr (diags ! m)" by simp
    obtain ys where "map_out (\<lambda>(i, l). bind_out (vec_at diags (int i)) (\<lambda>d. Inr (to_string l @ '','' @ d))) (enumerate (Suc m) xs) = Inr ys"
      using Cons.IH [of "Suc m"] Cons.prems by auto
    with d show ?case by simp
  qed simp
  from this [of 0 lats] show ?thesis by (auto simp: bench_report_def)
qed

text \<open>
  A measured run of the Shortstack benchmark: when the loop has counted \<open>k\<close> responses, the client has sent the first \<open>q + k\<close> requests of the workload, read round and round, with
  consecutive numbers, so that \<open>q\<close> of them are always unanswered; responses with the number of an earlier run are not counted, and there is a latency and a diagnostic
  for each counted response, so that the report reads no element that does not exist.
\<close>

lemma benchmark_closed_loop:
  fixes c :: shortstack_client
  assumes "bench_start e be True trace (int q) (bench_new c [] [] tot tk) = (Inr (), s0)" "trace \<noteq> []" "0 < q" "0 \<le> tot" "tot < 2 ^ 64"
    and "sc_sequence_num c < int64_max"
    and "(bench_step e be sc_response_step True trace run_time)\<^sup>*\<^sup>* s0 s"
  shows "\<exists>k. bn_ops s = int k \<and> bn_smallest s = sc_sequence_num c \<and> sc_sequence_num (bn_client s) = sc_sequence_num c + int q + int k \<and>
           mset (sent_msgs (sc_l1_clients (bn_client s))) =
             mset (sent_msgs (sc_l1_clients c)) + mset (map (run_msg (sc_client_id c) (sc_sequence_num c) trace) [0..<q + k]) \<and>
           length (bn_latencies s) = k \<and> (\<exists>ls. bench_report (bn_latencies s) (bn_diags s) xput = Inr ls)"
proof -
  let ?n = "sc_sequence_num c" and ?ms = "mset (sent_msgs (sc_l1_clients c))"
  have i: "bench_sent (sc_client_id c) ?n ?ms trace 0 (bench_new c [] [] tot tk)" "bench_counted 0 0 int64_max tot True 0 (bench_new c [] [] tot tk)"
    using assms(4,5) by (simp_all add: bench_sent_def bench_counted_def bench_new_def)
  have "bench_sent (sc_client_id c) ?n ?ms trace q s0" "bench_counted 0 0 ?n tot True 0 s0"
    using bench_start_sent [OF assms(1) [unfolded bench_start_def] i(1) assms(2) i(2)] assms(3,6) by simp_all
  with sc_reader.closed_loop [OF assms(7,2)] obtain k where
    k: "bench_sent (sc_client_id c) ?n ?ms trace (q + k) s" "bench_counted 0 0 ?n tot True k s" by blast
  have "\<exists>ls. bench_report (bn_latencies s) (bn_diags s) xput = Inr ls"
    using k(2) by (intro bench_report_ok) (simp add: bench_counted_def)
  with k show ?thesis by (intro exI [of _ k]) (simp add: bench_sent_def bench_counted_def)
qed

end
